(* ===== verification/Prelude.thy ===== *)
theory Prelude
  imports Main "HOL-Library.Word"
begin

text \<open>
  Prelude of the development: the machine types of the source (C and C++ on a 32-bit
  target), C string literals as byte lists, the big-endian 32-bit codec that the wire
  format, the packet framing and the hash transcripts all share, and the collections of
  rules the component theories extend.

  A buffer (\<open>std::string\<close>, \<open>uint8_t*\<close> plus length) is a list of bytes; \<open>size_t\<close> is the
  target's 32-bit word.
\<close>

unbundle bit_operations_syntax

section \<open>Machine types\<close>

type_synonym byte = "8 word"
type_synonym u16 = "16 word"
type_synonym u32 = "32 word"
type_synonym u64 = "64 word"
type_synonym size_t = "32 word"
type_synonym bytes = "8 word list"

named_theorems frame \<open>which part of a state an operation leaves alone\<close>
named_theorems inv_rules \<open>preservation of a component invariant by one operation\<close>
named_theorems wire_simps \<open>evaluation of encoders and decoders\<close>

section \<open>C string literals\<close>

definition str :: "string \<Rightarrow> bytes" where
  "str s = map of_char s"

lemma str_Nil [simp]: "str [] = []"
  by (simp add: str_def)

lemma length_str [simp]: "length (str s) = length s"
  by (simp add: str_def)

lemma str_append: "str (s @ t) = str s @ str t"
  by (simp add: str_def)

lemma of_char_byte_eq_iff: "(of_char c :: byte) = of_char d \<longleftrightarrow> c = d"
proof
  assume "(of_char c :: byte) = of_char d"
  then have "unat (of_nat (of_char c) :: byte) = unat (of_nat (of_char d) :: byte)"
    by (simp only: of_nat_of_char)
  then have "(of_char c :: nat) = of_char d"
    by (simp add: unat_of_nat)
  then show "c = d"
    by simp
qed simp

lemma str_eq_iff [simp]: "str s = str t \<longleftrightarrow> s = t"
  unfolding str_def
  by (rule inj_map_eq_map) (simp add: inj_on_def of_char_byte_eq_iff)

section \<open>Signed words\<close>

lemma sint_of_int_eq:
  assumes "- (2 ^ (LENGTH('a) - 1)) \<le> k" and "k < 2 ^ (LENGTH('a) - 1)"
  shows "sint (word_of_int k :: 'a::len word) = k"
  using assms by (simp add: sint_sbintrunc' signed_take_bit_int_eq_self)

section \<open>Big-endian 32-bit integers\<close>

definition u32_be :: "u32 \<Rightarrow> bytes" where
  "u32_be v = [ucast (drop_bit 24 v), ucast (drop_bit 16 v), ucast (drop_bit 8 v), ucast v]"

definition be_u32 :: "byte \<Rightarrow> byte \<Rightarrow> byte \<Rightarrow> byte \<Rightarrow> u32" where
  "be_u32 a b c d =
     push_bit 24 (ucast a) OR push_bit 16 (ucast b) OR push_bit 8 (ucast c) OR ucast d"

lemma length_u32_be [simp]: "length (u32_be v) = 4"
  by (simp add: u32_be_def)

lemma u32_be_not_Nil [simp]: "u32_be v \<noteq> []"
  by (simp add: u32_be_def)

lemma be_u32_u32_be [simp]:
  "be_u32 (ucast (drop_bit 24 v)) (ucast (drop_bit 16 v)) (ucast (drop_bit 8 v)) (ucast v) = v"
proof (rule bit_word_eqI)
  fix n assume "n < LENGTH(32)"
  then have "n < 8 \<or> 8 \<le> n \<and> n < 16 \<or> 16 \<le> n \<and> n < 24 \<or> 24 \<le> n \<and> n < 32"
    by auto
  then show "bit (be_u32 (ucast (drop_bit 24 v)) (ucast (drop_bit 16 v))
      (ucast (drop_bit 8 v)) (ucast v)) n = bit v n"
    by (elim disjE conjE; simp add: be_u32_def bit_simps; auto)
qed

lemma bit_byte_out_of_range [simp]: "8 \<le> n \<Longrightarrow> \<not> bit (b :: byte) n"
  using bit_imp_le_length [of b n] by auto

lemma u32_be_be_u32 [simp]: "u32_be (be_u32 a b c d) = [a, b, c, d]"
  unfolding be_u32_def u32_be_def
  by (auto intro!: bit_word_eqI simp: bit_simps)

lemma u32_be_inj [simp]: "u32_be v = u32_be w \<longleftrightarrow> v = w"
proof
  assume "u32_be v = u32_be w"
  then have "be_u32 (ucast (drop_bit 24 v)) (ucast (drop_bit 16 v)) (ucast (drop_bit 8 v)) (ucast v) =
      be_u32 (ucast (drop_bit 24 w)) (ucast (drop_bit 16 w)) (ucast (drop_bit 8 w)) (ucast w)"
    by (simp only: u32_be_def list.inject)
  then show "v = w"
    by (simp only: be_u32_u32_be)
qed simp

lemma u32_be_append_inj [simp]:
  "u32_be v @ xs = u32_be w @ ys \<longleftrightarrow> v = w \<and> xs = ys"
  using append_eq_append_conv [of "u32_be v" "u32_be w" xs ys] by simp

lemma unat_byte_less [simp]: "unat (b :: byte) < 256"
  using unsigned_less [of b] by simp

section \<open>Numbers in a radix\<close>

lemma radix_eq:
  fixes a a' r r' B :: nat
  assumes "r < B" and "r' < B"
  shows "a * B + r = a' * B + r' \<longleftrightarrow> a = a' \<and> r = r'"
proof
  assume eq: "a * B + r = a' * B + r'"
  then have "(a * B + r) div B = (a' * B + r') div B"
    by simp
  then have "a = a'"
    using assms by simp
  with eq show "a = a' \<and> r = r'"
    by simp
qed simp

lemma radix_less:
  fixes a r B n :: nat
  assumes "a < n" and "r < B"
  shows "a * B + r < n * B"
proof -
  have "a * B + r < a * B + B"
    using assms(2) by simp
  also have "\<dots> = (a + 1) * B"
    by simp
  also have "\<dots> \<le> n * B"
    using assms(1) by (intro mult_le_mono1) simp
  finally show ?thesis .
qed

section \<open>Lists\<close>

lemma take_eq_append_drop:
  "length xs = n \<Longrightarrow> take n (xs @ ys) = xs" "length xs = n \<Longrightarrow> drop n (xs @ ys) = ys"
  by auto

lemma split_buffer:
  "xs = take a xs @ take b (drop a xs) @ take c (drop (a + b) xs) @ drop (a + b + c) xs"
proof -
  have "take c (drop (a + b) xs) @ drop (a + b + c) xs = drop (a + b) xs"
    using append_take_drop_id [of c "drop (a + b) xs"] by (simp add: add.commute)
  moreover have "take b (drop a xs) @ drop (a + b) xs = drop a xs"
    using append_take_drop_id [of b "drop a xs"] by (simp add: add.commute)
  ultimately show ?thesis
    by simp
qed

lemma length_ge_4_conv:
  "4 \<le> length xs \<longleftrightarrow> (\<exists>a b c d r. xs = a # b # c # d # r)"
  by (auto simp: numeral_eq_Suc Suc_le_length_iff)

end
