(* ===== verification/Wire.thy ===== *)
theory Wire
  imports Prelude
begin

text \<open>
  The SSH wire format of \<open>esp-idf/src/sshd_wire.h\<close>: the encoders that append to a
  \<open>std::string\<close> and the decoders that walk a \<open>View\<close> with a position cursor.  \<open>size_t\<close> is
  32 bits wide on the target, and the cursor arithmetic is kept at that width.

  The contract of the decoders is the locale \<open>byte_reader\<close>: reading a view is reading a
  list of remaining bytes, with one sticky failure state.  It is interpreted on the view
  functions below; the round trips of the encoders are proved once in the locale.
\<close>

section \<open>Encoders\<close>

definition put_u8 :: "bytes \<Rightarrow> byte \<Rightarrow> bytes" where
  "put_u8 s v = s @ [v]"

definition put_u32 :: "bytes \<Rightarrow> u32 \<Rightarrow> bytes" where
  "put_u32 s v = s @ u32_be v"

definition put_bytes :: "bytes \<Rightarrow> bytes \<Rightarrow> bytes" where
  "put_bytes s data = s @ data"

definition put_string :: "bytes \<Rightarrow> bytes \<Rightarrow> bytes" where
  "put_string s data = put_bytes (put_u32 s (of_nat (length data))) data"

definition put_cstring :: "bytes \<Rightarrow> string \<Rightarrow> bytes" where
  "put_cstring s c = put_string s (str c)"

definition put_namelist :: "bytes \<Rightarrow> string \<Rightarrow> bytes" where
  "put_namelist s csv = put_cstring s csv"

text \<open>The loop of \<open>put_mpint_positive\<close> that skips leading zero bytes but keeps the last one.\<close>

fun strip_leading_zeros :: "bytes \<Rightarrow> bytes" where
  "strip_leading_zeros (x # y # ys) = (if x = 0 then strip_leading_zeros (y # ys) else x # y # ys)"
| "strip_leading_zeros xs = xs"

definition put_mpint_positive :: "bytes \<Rightarrow> bytes \<Rightarrow> bytes" where
  "put_mpint_positive s val =
     (let v = strip_leading_zeros val;
          needPad = (v \<noteq> [] \<and> hd v AND 0x80 \<noteq> 0);
          s1 = put_u32 s (of_nat (length v + (if needPad then 1 else 0)));
          s2 = (if needPad then put_u8 s1 0 else s1)
      in put_bytes s2 v)"

section \<open>Decoders\<close>

record view =
  vp :: bytes
  vn :: size_t
  vpos :: size_t
  vbad :: bool

definition view_init :: "bytes \<Rightarrow> view" where
  "view_init data = \<lparr>vp = data, vn = of_nat (length data), vpos = 0, vbad = False\<rparr>"

definition need :: "view \<Rightarrow> size_t \<Rightarrow> bool \<times> view" where
  "need v n =
     (if vbad v \<or> vpos v > vn v \<or> n > vn v - vpos v then (False, v\<lparr>vbad := True\<rparr>) else (True, v))"

definition get_u8 :: "view \<Rightarrow> byte \<times> view" where
  "get_u8 v =
     (case need v 1 of
        (False, v') \<Rightarrow> (0, v')
      | (True, v') \<Rightarrow> (vp v' ! unat (vpos v'), v'\<lparr>vpos := vpos v' + 1\<rparr>))"

definition get_u32 :: "view \<Rightarrow> u32 \<times> view" where
  "get_u32 v =
     (case need v 4 of
        (False, v') \<Rightarrow> (0, v')
      | (True, v') \<Rightarrow>
          (be_u32 (vp v' ! unat (vpos v')) (vp v' ! unat (vpos v' + 1))
                  (vp v' ! unat (vpos v' + 2)) (vp v' ! unat (vpos v' + 3)),
           v'\<lparr>vpos := vpos v' + 4\<rparr>))"

text \<open>The pointer and length that \<open>get_string\<close> hands out are the slice they denote.\<close>

definition get_string :: "view \<Rightarrow> bytes option \<times> view" where
  "get_string v =
     (let (len, v1) = get_u32 v in
      if vbad v1 then (None, v1)
      else (case need v1 len of
              (False, v2) \<Rightarrow> (None, v2)
            | (True, v2) \<Rightarrow>
                (Some (take (unat len) (drop (unat (vpos v2)) (vp v2))),
                 v2\<lparr>vpos := vpos v2 + len\<rparr>)))"

definition skip_string :: "view \<Rightarrow> bool \<times> view" where
  "skip_string v = (case get_string v of (r, v') \<Rightarrow> (r \<noteq> None, v'))"

definition skip_namelist :: "view \<Rightarrow> bool \<times> view" where
  "skip_namelist v = skip_string v"

definition skip_mpint :: "view \<Rightarrow> bool \<times> view" where
  "skip_mpint v = skip_string v"

section \<open>The contract of a reader\<close>

text \<open>
  The abstract reader consumes a list of bytes; \<open>None\<close> is the failed state (\<open>bad\<close>), which
  every read keeps, and in which the integer reads answer 0.
\<close>

fun rd_u8 :: "bytes option \<Rightarrow> byte \<times> bytes option" where
  "rd_u8 (Some (b # r)) = (b, Some r)"
| "rd_u8 _ = (0, None)"

fun rd_u32 :: "bytes option \<Rightarrow> u32 \<times> bytes option" where
  "rd_u32 (Some (a # b # c # d # r)) = (be_u32 a b c d, Some r)"
| "rd_u32 _ = (0, None)"

fun rd_string :: "bytes option \<Rightarrow> bytes option \<times> bytes option" where
  "rd_string s =
     (case rd_u32 s of
        (_, None) \<Rightarrow> (None, None)
      | (len, Some r) \<Rightarrow>
          if unat len \<le> length r then (Some (take (unat len) r), Some (drop (unat len) r))
          else (None, None))"

lemma rd_u32_short: "length r < 4 \<Longrightarrow> rd_u32 (Some r) = (0, None)"
  by (rule rd_u32.cases [of "Some r"]) auto

locale byte_reader =
  fixes wf :: "'v \<Rightarrow> bool"
    and abs :: "'v \<Rightarrow> bytes option"
    and g8 :: "'v \<Rightarrow> byte \<times> 'v"
    and g32 :: "'v \<Rightarrow> u32 \<times> 'v"
    and gs :: "'v \<Rightarrow> bytes option \<times> 'v"
  assumes g8_rd: "wf v \<Longrightarrow> g8 v = (x, v') \<Longrightarrow> wf v' \<and> rd_u8 (abs v) = (x, abs v')"
    and g32_rd: "wf v \<Longrightarrow> g32 v = (y, v') \<Longrightarrow> wf v' \<and> rd_u32 (abs v) = (y, abs v')"
    and gs_rd: "wf v \<Longrightarrow> gs v = (z, v') \<Longrightarrow> wf v' \<and> rd_string (abs v) = (z, abs v')"
begin

lemma g8_put:
  assumes "wf v" and "abs v = Some (put_u8 [] b @ r)"
  obtains v' where "g8 v = (b, v')" and "wf v'" and "abs v' = Some r"
  using g8_rd [OF assms(1)] assms(2) by (cases "g8 v") (auto simp: put_u8_def)

lemma g32_put:
  assumes "wf v" and "abs v = Some (put_u32 [] n @ r)"
  obtains v' where "g32 v = (n, v')" and "wf v'" and "abs v' = Some r"
  using g32_rd [OF assms(1)] assms(2) by (cases "g32 v") (auto simp: put_u32_def u32_be_def)

lemma gs_put:
  assumes "wf v" and "abs v = Some (put_string [] d @ r)" and "length d < 2 ^ 32"
  obtains v' where "gs v = (Some d, v')" and "wf v'" and "abs v' = Some r"
proof -
  have "unat (of_nat (length d) :: u32) = length d"
    using assms(3) by (simp add: unat_of_nat)
  then have "rd_string (abs v) = (Some d, Some r)"
    using assms(2) by (simp add: put_string_def put_u32_def put_bytes_def u32_be_def)
  with gs_rd [OF assms(1)] show thesis
    by (cases "gs v") (auto intro: that)
qed

lemma gs_Some:
  assumes "wf v" and "gs v = (Some x, v')"
  obtains r where "abs v = Some (put_string [] x @ r)" and "abs v' = Some r" and "wf v'" and "length x < 2 ^ 32"
proof -
  have wf': "wf v'" and rd: "rd_string (abs v) = (Some x, abs v')"
    using gs_rd [OF assms] by simp_all
  obtain b0 b1 b2 b3 q where abs_v: "abs v = Some (b0 # b1 # b2 # b3 # q)"
    and fits: "unat (be_u32 b0 b1 b2 b3) \<le> length q" and x: "x = take (unat (be_u32 b0 b1 b2 b3)) q"
    and v': "abs v' = Some (drop (unat (be_u32 b0 b1 b2 b3)) q)"
    using rd by (cases "abs v" rule: rd_u32.cases) (auto split: if_splits)
  have len: "of_nat (length x) = be_u32 b0 b1 b2 b3" "length x < 2 ^ 32"
    using fits x unsigned_less [of "be_u32 b0 b1 b2 b3"] by simp_all
  then have "abs v = Some (put_string [] x @ drop (unat (be_u32 b0 b1 b2 b3)) q)"
    using abs_v x by (simp add: put_string_def put_u32_def put_bytes_def)
  then show thesis
    using v' wf' len(2) by (rule that)
qed

lemma g8_Some:
  assumes "wf v" and "g8 v = (b, v')"
  shows "wf v'" and "abs v' = Some r \<Longrightarrow> abs v = Some (b # r)"
  using g8_rd [OF assms] by (auto elim!: rd_u8.elims)

lemma g32_Some:
  assumes "wf v" and "g32 v = (n, v')"
  shows "wf v'" and "abs v' = Some r \<Longrightarrow> abs v = Some (u32_be n @ r)"
  using g32_rd [OF assms] by (auto elim!: rd_u32.elims)

lemma failed_reads:
  assumes "wf v" and "abs v = None"
  shows "fst (g8 v) = 0" and "fst (g32 v) = 0" and "fst (gs v) = None"
    and "abs (snd (gs v)) = None"
  using g8_rd [OF assms(1)] g32_rd [OF assms(1)] gs_rd [OF assms(1)] assms(2)
  by (cases "g8 v"; simp; cases "g32 v"; simp; cases "gs v"; simp)+

end

section \<open>The views implement the contract\<close>

definition view_wf :: "view \<Rightarrow> bool" where
  "view_wf v \<longleftrightarrow> length (vp v) < 2 ^ 32 \<and> vn v = of_nat (length (vp v)) \<and> vpos v \<le> vn v"

definition view_rest :: "view \<Rightarrow> bytes" where
  "view_rest v = drop (unat (vpos v)) (vp v)"

definition view_abs :: "view \<Rightarrow> bytes option" where
  "view_abs v = (if vbad v then None else Some (view_rest v))"

lemma unat_vn [simp]: "view_wf v \<Longrightarrow> unat (vn v) = length (vp v)"
  by (simp add: view_wf_def unat_of_nat)

lemma view_pos_le: "view_wf v \<Longrightarrow> unat (vpos v) \<le> length (vp v)"
  by (metis unat_vn view_wf_def word_le_nat_alt)

lemma length_view_rest: "view_wf v \<Longrightarrow> length (view_rest v) = length (vp v) - unat (vpos v)"
  by (simp add: view_rest_def)

lemma view_wf_init [simp]: "length d < 2 ^ 32 \<Longrightarrow> view_wf (view_init d)"
  by (simp add: view_wf_def view_init_def)

lemma view_abs_init [simp]: "view_abs (view_init d) = Some d"
  by (simp add: view_abs_def view_rest_def view_init_def)

lemma need_iff:
  assumes "view_wf v" and "\<not> vbad v"
  shows "fst (need v n) \<longleftrightarrow> unat n \<le> length (view_rest v)"
proof -
  have le: "vpos v \<le> vn v"
    using assms(1) unfolding view_wf_def by blast
  have "unat (vn v - vpos v) = length (view_rest v)"
    using le assms(1) by (simp add: unat_sub length_view_rest)
  then have "n > vn v - vpos v \<longleftrightarrow> length (view_rest v) < unat n"
    by (simp add: word_less_nat_alt)
  then show ?thesis
    using assms le by (auto simp: need_def)
qed

lemma need_True [dest]: "need v n = (True, v') \<Longrightarrow> v' = v"
  by (auto simp: need_def split: if_splits)

lemma need_False [dest]: "need v n = (False, v') \<Longrightarrow> v' = v\<lparr>vbad := True\<rparr>"
  by (auto simp: need_def split: if_splits)

lemma need_bad [simp]: "vbad v \<Longrightarrow> need v n = (False, v\<lparr>vbad := True\<rparr>)"
  by (simp add: need_def)

lemma view_wf_bad [simp]: "view_wf (v\<lparr>vbad := b\<rparr>) = view_wf v"
  by (simp add: view_wf_def)

lemma view_abs_bad [simp]: "view_abs (v\<lparr>vbad := True\<rparr>) = None"
  by (simp add: view_abs_def)

lemma view_advance:
  assumes "view_wf v" and "unat n \<le> length (view_rest v)"
  shows "view_wf (v\<lparr>vpos := vpos v + n\<rparr>)"
    and "view_rest (v\<lparr>vpos := vpos v + n\<rparr>) = drop (unat n) (view_rest v)"
proof -
  have len: "length (vp v) < 2 ^ 32"
    using assms(1) by (simp add: view_wf_def)
  have le: "unat (vpos v) + unat n \<le> length (vp v)"
    using assms view_pos_le [OF assms(1)] by (simp add: length_view_rest)
  then have sum: "unat (vpos v + n) = unat (vpos v) + unat n"
    using len by (simp add: unat_add_lem [symmetric])
  then have "vpos v + n \<le> vn v"
    using le assms(1) by (simp add: word_le_nat_alt)
  then show "view_wf (v\<lparr>vpos := vpos v + n\<rparr>)"
    using assms(1) by (simp add: view_wf_def)
  show "view_rest (v\<lparr>vpos := vpos v + n\<rparr>) = drop (unat n) (view_rest v)"
    by (simp add: view_rest_def sum) (simp add: add.commute)
qed

lemma need_eq:
  assumes "view_wf v"
  shows "need v n =
    (if vbad v \<or> length (view_rest v) < unat n then (False, v\<lparr>vbad := True\<rparr>) else (True, v))"
proof (cases "vbad v")
  case False
  then show ?thesis
    using need_iff [OF assms False, of n] by (cases "need v n") (auto simp: not_less)
qed simp

lemma view_nth:
  assumes "view_wf v" and "unat k < length (view_rest v)"
  shows "vp v ! unat (vpos v + k) = view_rest v ! unat k"
proof -
  have "view_rest (v\<lparr>vpos := vpos v + k\<rparr>) = drop (unat k) (view_rest v)"
    using assms by (intro view_advance(2)) simp_all
  then have "drop (unat (vpos v + k)) (vp v) = drop (unat k) (view_rest v)"
    by (simp add: view_rest_def)
  moreover from this have "unat (vpos v + k) < length (vp v)"
    using assms(2) by (metis drop_eq_Nil linorder_not_le)
  ultimately show ?thesis
    using assms(2) by (metis hd_drop_conv_nth)
qed

lemma get_u8_refines:
  assumes "view_wf v" and "get_u8 v = (x, v')"
  shows "view_wf v' \<and> rd_u8 (view_abs v) = (x, view_abs v')"
proof (cases "vbad v \<or> view_rest v = []")
  case True
  then show ?thesis
    using assms by (auto simp: get_u8_def view_abs_def need_eq split: if_splits)
next
  case False
  then obtain b r where "view_rest v = b # r"
    by (cases "view_rest v") auto
  then show ?thesis
    using assms False view_nth [OF assms(1), of 0] view_advance [OF assms(1), of 1]
    by (auto simp: get_u8_def view_abs_def need_eq)
qed

lemma get_u32_refines:
  assumes "view_wf v" and "get_u32 v = (x, v')"
  shows "view_wf v' \<and> rd_u32 (view_abs v) = (x, view_abs v')"
proof (cases "vbad v \<or> length (view_rest v) < 4")
  case True
  then have "rd_u32 (view_abs v) = (0, None)"
    by (auto simp: view_abs_def rd_u32_short)
  with True show ?thesis
    using assms by (auto simp: get_u32_def need_eq split: if_splits)
next
  case False
  then obtain a b c d r where rest: "view_rest v = a # b # c # d # r"
    by (auto simp: not_less length_ge_4_conv)
  then show ?thesis
    using assms False view_advance [OF assms(1), of 4]
      view_nth [OF assms(1), of 0] view_nth [OF assms(1), of 1]
      view_nth [OF assms(1), of 2] view_nth [OF assms(1), of 3]
    by (auto simp: get_u32_def view_abs_def need_eq)
qed

lemma get_string_refines:
  assumes "view_wf v" and "get_string v = (x, v')"
  shows "view_wf v' \<and> rd_string (view_abs v) = (x, view_abs v')"
proof -
  obtain len v1 where g: "get_u32 v = (len, v1)"
    by fastforce
  with assms(1) have wf1: "view_wf v1" and rd: "rd_u32 (view_abs v) = (len, view_abs v1)"
    using get_u32_refines by blast+
  show ?thesis
  proof (cases "vbad v1 \<or> length (view_rest v1) < unat len")
    case True
    then show ?thesis
      using assms(2) g rd wf1 by (auto simp: get_string_def need_eq view_abs_def split: if_splits)
  next
    case False
    then show ?thesis
      using assms(2) g rd wf1 view_advance [OF wf1, of len]
      by (auto simp: get_string_def need_eq view_abs_def view_rest_def)
  qed
qed

interpretation view_reader: byte_reader view_wf view_abs get_u8 get_u32 get_string
  by unfold_locales (use get_u8_refines get_u32_refines get_string_refines in blast)+

section \<open>Views over encoded data\<close>

lemma view_wf_preserved [frame]:
  assumes "view_wf v"
  shows "view_wf (snd (get_u8 v))" and "view_wf (snd (get_u32 v))" and "view_wf (snd (get_string v))"
  using assms view_reader.g8_rd view_reader.g32_rd view_reader.gs_rd
  by (metis prod.collapse)+

lemma get_string_slice_length:
  assumes "view_wf v" and "get_string v = (Some x, v')"
  shows "length x \<le> length (vp v)" and "vp v' = vp v" and "vbad v' = vbad v"
  using assms
  by (auto simp: get_string_def get_u32_def need_def split: if_splits prod.splits)

section \<open>Properties of the wire format\<close>

text \<open>
  Reading an SSH string from a view of peer data agrees with the mathematical reading
  of the remaining bytes: the 32-bit cursor arithmetic never wraps, whatever length field
  the peer supplies, a string is returned exactly when all of its bytes are there, and the
  cursor ends exactly behind it.
\<close>

theorem get_string_no_wrap:
  assumes "view_wf v" and "\<not> vbad v"
  shows "rd_string (Some (view_rest v)) = (fst (get_string v), view_abs (snd (get_string v))) \<and>
    view_wf (snd (get_string v)) \<and>
    fst (need v n) = (unat (vpos v) + unat n \<le> length (vp v))"
proof (intro conjI)
  have "view_abs v = Some (view_rest v)"
    using assms(2) by (simp add: view_abs_def)
  then show "rd_string (Some (view_rest v)) = (fst (get_string v), view_abs (snd (get_string v)))"
    using view_reader.gs_rd [OF assms(1), of "fst (get_string v)" "snd (get_string v)"] by simp
  show "view_wf (snd (get_string v))"
    using assms(1) by (rule view_wf_preserved)
  have "fst (need v n) = (unat n \<le> length (vp v) - unat (vpos v))"
    using need_iff [OF assms] length_view_rest [OF assms(1)] by simp
  then show "fst (need v n) = (unat (vpos v) + unat n \<le> length (vp v))"
    using view_pos_le [OF assms(1)] by linarith
qed

text \<open>A view of six bytes whose length field claims \<open>2\<^sup>3\<^sup>2 - 1\<close> bytes: nothing is read.\<close>

theorem get_string_no_wrap_witness:
  "view_wf (view_init [255, 255, 255, 255, 1, 2]) \<and> \<not> vbad (view_init [255, 255, 255, 255, 1, 2]) \<and>
   fst (get_string (view_init [255, 255, 255, 255, 1, 2])) = None"
proof -
  let ?v = "view_init [255, 255, 255, 255, 1, 2]"
  have wf: "view_wf ?v" by simp
  have nb: "\<not> vbad ?v" by (simp add: view_init_def)
  have "rd_string (Some (view_rest ?v)) = (None, None)"
    by (simp add: view_rest_def view_init_def be_u32_def)
  then show ?thesis
    using wf nb get_string_no_wrap [OF wf nb] by simp
qed

text \<open>
  Decoding what the encoders wrote gives the fields back in order, for a message of one
  byte, one 32-bit integer and one string followed by anything.
\<close>

theorem wire_roundtrip:
  assumes "length (put_string (put_u32 (put_u8 [] b) n) d @ r) < 2 ^ 32"
  shows "let v0 = view_init (put_string (put_u32 (put_u8 [] b) n) d @ r);
             (b', v1) = get_u8 v0; (n', v2) = get_u32 v1; (d', v3) = get_string v2
         in b' = b \<and> n' = n \<and> d' = Some d \<and> view_abs v3 = Some r"
proof -
  let ?v0 = "view_init (put_string (put_u32 (put_u8 [] b) n) d @ r)"
  have split: "put_string (put_u32 (put_u8 [] b) n) d @ r =
      put_u8 [] b @ put_u32 [] n @ put_string [] d @ r"
    by (simp add: put_string_def put_u32_def put_u8_def put_bytes_def)
  have "view_wf ?v0" and "view_abs ?v0 = Some (put_u8 [] b @ put_u32 [] n @ put_string [] d @ r)"
    using assms by (simp_all add: split)
  then obtain v1 where v1: "get_u8 ?v0 = (b, v1)" "view_wf v1"
      "view_abs v1 = Some (put_u32 [] n @ put_string [] d @ r)"
    by (rule view_reader.g8_put)
  from v1(2,3) obtain v2 where v2: "get_u32 v1 = (n, v2)" "view_wf v2"
      "view_abs v2 = Some (put_string [] d @ r)"
    by (rule view_reader.g32_put)
  have "length d < 2 ^ 32"
    using assms by (simp add: put_string_def put_u32_def put_bytes_def)
  with v2(2,3) obtain v3 where "get_string v2 = (Some d, v3)" "view_abs v3 = Some r"
    by (rule view_reader.gs_put)
  with v1(1) v2(1) show ?thesis
    by simp
qed

theorem wire_roundtrip_witness:
  "length (put_string (put_u32 (put_u8 [] 7) 258) (str ''log'') @ [9]) < 2 ^ 32 \<and>
   fst (get_u8 (view_init (put_string (put_u32 (put_u8 [] 7) 258) (str ''log'') @ [9]))) = 7"
proof -
  have len: "length (put_string (put_u32 (put_u8 [] 7) 258) (str ''log'') @ [9]) < 2 ^ 32"
    by (simp add: put_string_def put_u32_def put_u8_def put_bytes_def)
  show ?thesis
    using len wire_roundtrip [OF len] by (simp add: Let_def split: prod.splits)
qed

subsection \<open>Multi-precision integers\<close>

definition be_val :: "bytes \<Rightarrow> nat" where
  "be_val bs = foldl (\<lambda>a b. 256 * a + unat b) 0 bs"

lemma be_val_Nil [simp]: "be_val [] = 0"
  by (simp add: be_val_def)

lemma foldl_be_shift:
  "foldl (\<lambda>a b. 256 * a + unat b) n bs = n * 256 ^ length bs + be_val bs" for bs :: bytes
proof (induction bs arbitrary: n)
  case (Cons b bs)
  have "be_val (b # bs) = unat b * 256 ^ length bs + be_val bs"
    using Cons.IH [of "unat b"] by (simp add: be_val_def)
  then show ?case
    using Cons.IH [of "256 * n + unat b"] by (simp add: algebra_simps)
qed simp

lemma be_val_Cons [simp]: "be_val (b # bs) = unat b * 256 ^ length bs + be_val bs"
  using foldl_be_shift [of "unat b" bs] by (simp add: be_val_def)

lemma be_val_strip [simp]: "be_val (strip_leading_zeros bs) = be_val bs"
  by (induction bs rule: strip_leading_zeros.induct) auto

lemma strip_leading_zeros_head:
  "strip_leading_zeros bs = 0 # ys \<Longrightarrow> ys = []"
  by (induction bs rule: strip_leading_zeros.induct) (auto split: if_splits)

lemma strip_leading_zeros_length: "length (strip_leading_zeros bs) \<le> length bs"
  by (induction bs rule: strip_leading_zeros.induct) auto

lemma strip_leading_zeros_Nil [simp]: "strip_leading_zeros bs = [] \<longleftrightarrow> bs = []"
  by (induction bs rule: strip_leading_zeros.induct) auto

text \<open>The body of an mpint: the bytes behind its length field.\<close>

definition mpint_body :: "bytes \<Rightarrow> bytes" where
  "mpint_body val =
     (let v = strip_leading_zeros val
      in if v \<noteq> [] \<and> hd v AND 0x80 \<noteq> 0 then 0 # v else v)"

lemma put_mpint_positive_eq: "put_mpint_positive s val = put_string s (mpint_body val)"
  by (auto simp: put_mpint_positive_def mpint_body_def put_string_def put_bytes_def put_u32_def
      put_u8_def Let_def)

lemma mpint_body_length: "length (mpint_body val) \<le> Suc (length val)"
  using strip_leading_zeros_length [of val] by (auto simp: mpint_body_def Let_def)

text \<open>
  The multi-precision encoding of a non-zero magnitude is the SSH string of its unique
  shortest two's-complement form: the value is kept, the sign bit is clear, and a leading
  zero byte stands there only to keep it clear.
\<close>

theorem put_mpint_positive_canonical:
  assumes "be_val val \<noteq> 0"
  shows "put_mpint_positive s val = put_string s (mpint_body val) \<and>
    be_val (mpint_body val) = be_val val \<and>
    mpint_body val \<noteq> [] \<and> hd (mpint_body val) AND 0x80 = 0 \<and>
    (hd (mpint_body val) = 0 \<longrightarrow> (\<exists>y ys. mpint_body val = 0 # y # ys \<and> y AND 0x80 \<noteq> 0))"
proof -
  have ne: "strip_leading_zeros val \<noteq> []"
    using assms by (metis be_val_Nil be_val_strip)
  then obtain y ys where v: "strip_leading_zeros val = y # ys"
    by (cases "strip_leading_zeros val") auto
  have "y \<noteq> 0"
    using assms v strip_leading_zeros_head [of val ys] be_val_strip [of val] by fastforce
  then show ?thesis
    using v be_val_strip [of val] by (auto simp: put_mpint_positive_eq mpint_body_def Let_def)
qed

theorem put_mpint_positive_canonical_witness:
  "be_val [0, 0, 0x80, 1] \<noteq> 0 \<and>
   put_mpint_positive [] [0, 0, 0x80, 1] = put_string [] [0, 0x80, 1]"
proof -
  have ne: "be_val [0, 0, 0x80, 1] \<noteq> 0"
    by simp
  have "mpint_body [0, 0, 0x80, 1] = [0, 0x80, 1]"
    by (simp add: mpint_body_def)
  then show ?thesis
    using ne put_mpint_positive_canonical [OF ne, of "[]"] by simp
qed

end
