(* ===== verification/World.thy ===== *)
theory World
  imports Prelude
begin

text \<open>
  The surroundings of the two SSH roles that are not part of the repository: the ITS
  message service (\<open>itsSend\<close>, \<open>itsRecv\<close>, \<open>itsConnect\<close>, \<open>itsDisconnect\<close>, \<open>itsSendDrain\<close>),
  the random generator (\<open>randomBytes\<close>), the configuration store as the session reads it
  (\<open>storageGetStr\<close>, \<open>storageGetInt\<close>, \<open>storageArrayCount\<close>), the realm check of
  spangap-core (\<open>authLogin\<close>), and the mbedTLS primitives.

  Nothing is assumed about what these services answer: a \<open>world\<close> carries, as parameters, the
  answer to the \<open>n\<close>-th call of each kind, and records in \<open>trace\<close> what the program did, in
  order.  Every theorem about the program therefore holds for every behaviour of the
  services; where a theorem needs a documented law of a service, the law is a named
  hypothesis.
\<close>

section \<open>What the program does to its surroundings\<close>

text \<open>
  The connect payloads: mode, color and prompt suppression for the command line
  (\<open>cli_connect_t\<close>), color for the log (\<open>log_connect_t\<close>), the host and port text for an
  outgoing TCP connection.
\<close>

datatype cli_mode = CLI_ANSI | CLI_LINE

datatype connect_req = CliConnect cli_mode bool bool | LogConnect bool | TcpDial bytes

datatype effect =
    ItsSend int bytes
  | ItsRecv int bytes
  | ItsConnect string connect_req int
  | ItsDisconnect int
  | ItsSendDrain int
  | SlotFree int
  | Log bytes
  | Print bytes
  | SendAux string
  | Spawn string

record world =
  rnd_stream :: "nat \<Rightarrow> byte"
  rnd_pos :: nat
  send_ans :: "nat \<Rightarrow> nat"
  send_cnt :: nat
  recv_ans :: "nat \<Rightarrow> bytes"
  recv_cnt :: nat
  conn_ans :: "nat \<Rightarrow> int"
  conn_cnt :: nat
  auth_ans :: "bytes \<Rightarrow> bool"
  cfg_str :: "string \<Rightarrow> bytes"
  cfg_int :: "string \<Rightarrow> int \<Rightarrow> int"
  cfg_count :: "string \<Rightarrow> nat"
  trace :: "effect list"

definition emit :: "effect \<Rightarrow> world \<Rightarrow> world" where
  "emit e w = w\<lparr>trace := trace w @ [e]\<rparr>"

text \<open>\<open>randomBytes(buf, n)\<close>: the next \<open>n\<close> bytes of the generator.\<close>

definition randomBytes :: "nat \<Rightarrow> world \<Rightarrow> bytes \<times> world" where
  "randomBytes n w =
     (map (\<lambda>i. rnd_stream w (rnd_pos w + i)) [0..<n], w\<lparr>rnd_pos := rnd_pos w + n\<rparr>)"

text \<open>\<open>itsSend(h, data, n, timeout)\<close>: answers how many of the bytes were accepted.\<close>

definition itsSend :: "int \<Rightarrow> bytes \<Rightarrow> world \<Rightarrow> nat \<times> world" where
  "itsSend h data w =
     (min (send_ans w (send_cnt w)) (length data),
      emit (ItsSend h data) (w\<lparr>send_cnt := send_cnt w + 1\<rparr>))"

text \<open>\<open>itsRecv(h, buf, n, 0)\<close>: at most \<open>n\<close> bytes are copied into the buffer.\<close>

definition itsRecv :: "int \<Rightarrow> nat \<Rightarrow> world \<Rightarrow> bytes \<times> world" where
  "itsRecv h n w =
     (let got = take n (recv_ans w (recv_cnt w))
      in (got, emit (ItsRecv h got) (w\<lparr>recv_cnt := recv_cnt w + 1\<rparr>)))"

text \<open>
  \<open>itsConnect(service, port, payload, \<dots>, ref, \<dots>)\<close>: the new handle, negative on failure.
  Each service is connected to on one port only, so the port is left implicit.
\<close>

definition itsConnect :: "string \<Rightarrow> connect_req \<Rightarrow> int \<Rightarrow> world \<Rightarrow> int \<times> world" where
  "itsConnect svc payload ref w =
     (conn_ans w (conn_cnt w),
      emit (ItsConnect svc payload ref) (w\<lparr>conn_cnt := conn_cnt w + 1\<rparr>))"

definition itsDisconnect :: "int \<Rightarrow> world \<Rightarrow> world" where
  "itsDisconnect h w = emit (ItsDisconnect h) w"

definition itsSendDrain :: "int \<Rightarrow> world \<Rightarrow> world" where
  "itsSendDrain h w = emit (ItsSendDrain h) w"

definition log_line :: "string \<Rightarrow> world \<Rightarrow> world" where
  "log_line msg w = emit (Log (str msg)) w"

definition log_bytes :: "bytes \<Rightarrow> world \<Rightarrow> world" where
  "log_bytes msg w = emit (Log msg) w"

section \<open>C helpers\<close>

text \<open>The bytes a C function sees of a \<open>c_str()\<close>: up to the first NUL.\<close>

definition c_str :: "bytes \<Rightarrow> bytes" where
  "c_str bs = takeWhile (\<lambda>b. b \<noteq> 0) bs"

text \<open>\<open>snprintf("%d", i)\<close>.\<close>

fun dec :: "nat \<Rightarrow> string" where
  "dec n = (if n < 10 then [char_of (48 + n)] else dec (n div 10) @ [char_of (48 + n mod 10)])"

declare dec.simps [simp del]

definition dec_int :: "int \<Rightarrow> string" where
  "dec_int i = (if i < 0 then ''-'' @ dec (nat (- i)) else dec (nat i))"

section \<open>mbedTLS\<close>

text \<open>
  The mbedTLS calls of the source as parameters.  A return code comes first where the call
  has one and the source looks at it.  \<open>stack16\<close> is the content of an uninitialised
  16-byte stack buffer.
\<close>

record mbedtls =
  mbedtls_sha256 :: "bytes \<Rightarrow> bytes"
  mbedtls_chacha20 :: "bytes \<Rightarrow> bytes \<Rightarrow> u32 \<Rightarrow> bytes \<Rightarrow> int \<times> bytes"
  mbedtls_poly1305 :: "bytes \<Rightarrow> bytes \<Rightarrow> int \<times> bytes"
  mbedtls_ecp_mul :: "bytes \<Rightarrow> bytes option \<Rightarrow> bytes option"
  mbedtls_base64_encode :: "nat \<Rightarrow> bytes \<Rightarrow> bytes option"
  mbedtls_base64_decode :: "nat \<Rightarrow> bytes \<Rightarrow> bytes option"
  stack16 :: bytes

text \<open>
  Documented laws: ChaCha20 is a stream cipher (length preserving, its own inverse for one
  key, nonce and counter), Poly1305 tags have 16 bytes, SHA-256 digests 32, and neither
  stream operation fails.
\<close>

definition chacha20_laws :: "mbedtls \<Rightarrow> bool" where
  "chacha20_laws m \<longleftrightarrow>
     (\<forall>k n c x. fst (mbedtls_chacha20 m k n c x) = 0 \<and>
        length (snd (mbedtls_chacha20 m k n c x)) = length x \<and>
        snd (mbedtls_chacha20 m k n c (snd (mbedtls_chacha20 m k n c x))) = x)"

definition poly1305_laws :: "mbedtls \<Rightarrow> bool" where
  "poly1305_laws m \<longleftrightarrow>
     (\<forall>k x. fst (mbedtls_poly1305 m k x) = 0 \<and> length (snd (mbedtls_poly1305 m k x)) = 16)"

definition sha256_laws :: "mbedtls \<Rightarrow> bool" where
  "sha256_laws m \<longleftrightarrow> (\<forall>x. length (mbedtls_sha256 m x) = 32)"

section \<open>Frame rules\<close>

lemma length_randomBytes [simp]: "length (fst (randomBytes n w)) = n"
  by (simp add: randomBytes_def)

lemma itsRecv_le: "length (fst (itsRecv h n w)) \<le> n"
  by (simp add: itsRecv_def Let_def)

lemma itsSend_le: "fst (itsSend h d w) \<le> length d"
  by (simp add: itsSend_def)

lemma trace_effects [simp]:
  "trace (emit e w) = trace w @ [e]"
  "trace (snd (randomBytes n w)) = trace w"
  "trace (snd (itsSend h d w)) = trace w @ [ItsSend h d]"
  "trace (snd (itsRecv h n w)) = trace w @ [ItsRecv h (fst (itsRecv h n w))]"
  "trace (snd (itsConnect svc p r w)) = trace w @ [ItsConnect svc p r]"
  "trace (itsDisconnect h w) = trace w @ [ItsDisconnect h]"
  "trace (itsSendDrain h w) = trace w @ [ItsSendDrain h]"
  "trace (log_line m w) = trace w @ [Log (str m)]"
  "trace (log_bytes b w) = trace w @ [Log b]"
  by (simp_all add: emit_def randomBytes_def itsSend_def itsRecv_def itsConnect_def itsDisconnect_def
      itsSendDrain_def log_line_def log_bytes_def Let_def)

end
