(* ===== verification/Crypto.thy ===== *)
theory Crypto
  imports Wire World
begin

text \<open>
  \<open>esp-idf/src/sshd_crypto.cpp\<close>: the wrappers over mbedTLS and the two vendored
  libraries.  The mbedTLS primitives are parameters (record \<open>mbedtls\<close> of theory \<open>World\<close>);
  the vendored Ed25519 and ML-KEM-768 entry points are the record \<open>vendored\<close>.
\<close>

record vendored =
  create_keypair :: "bytes \<Rightarrow> bytes \<times> bytes"
  sign_msg :: "bytes \<Rightarrow> bytes \<Rightarrow> bytes \<Rightarrow> bytes"
  verify_msg :: "bytes \<Rightarrow> bytes \<Rightarrow> bytes \<Rightarrow> int"
  kem_enc_derand :: "bytes \<Rightarrow> bytes \<Rightarrow> (bytes \<times> bytes) option"

record crypto =
  mbed :: mbedtls
  vend :: vendored

section \<open>Comparison and hashing\<close>

definition ct_memcmp16 :: "bytes \<Rightarrow> bytes \<Rightarrow> byte" where
  "ct_memcmp16 a b = fold (\<lambda>i d. d OR (a ! i XOR b ! i)) [0..<16] 0"

definition sha256 :: "crypto \<Rightarrow> bytes \<Rightarrow> bytes" where
  "sha256 c data = mbedtls_sha256 (mbed c) data"

section \<open>X25519\<close>

definition clamp_scalar :: "bytes \<Rightarrow> bytes" where
  "clamp_scalar scalar =
     (let s1 = scalar[0 := scalar ! 0 AND 248];
          s2 = s1[31 := s1 ! 31 AND 127]
      in s2[31 := s2 ! 31 OR 64])"

definition x25519_compute :: "crypto \<Rightarrow> bytes \<Rightarrow> bytes option \<Rightarrow> bytes option" where
  "x25519_compute c scalar point =
     (let scalar_be = rev (clamp_scalar scalar);
          u_be = (case point of None \<Rightarrow> None | Some p \<Rightarrow> Some (rev (p[31 := p ! 31 AND 0x7F])))
      in map_option rev (mbedtls_ecp_mul (mbed c) scalar_be u_be))"

definition x25519_base :: "crypto \<Rightarrow> bytes \<Rightarrow> bytes option" where
  "x25519_base c scalar = x25519_compute c scalar None"

definition x25519_scalar :: "crypto \<Rightarrow> bytes \<Rightarrow> bytes \<Rightarrow> bytes option" where
  "x25519_scalar c scalar point = x25519_compute c scalar (Some point)"

section \<open>ML-KEM-768 and Ed25519\<close>

definition MLKEM768_PK_BYTES :: nat where "MLKEM768_PK_BYTES = 1184"

definition MLKEM768_CT_BYTES :: nat where "MLKEM768_CT_BYTES = 1088"

definition MLKEM768_SS_BYTES :: nat where "MLKEM768_SS_BYTES = 32"

text \<open>\<open>crypto_kem_enc\<close> draws 32 coins with \<open>randombytes\<close> and encapsulates with them.\<close>

definition mlkem768_encap :: "crypto \<Rightarrow> bytes \<Rightarrow> world \<Rightarrow> (bytes \<times> bytes) option \<times> world" where
  "mlkem768_encap c pk w =
     (let (coins, w') = randomBytes 32 w in (kem_enc_derand (vend c) pk coins, w'))"

text \<open>Both wrappers report success unconditionally.\<close>

definition ed25519_pub_from_seed :: "crypto \<Rightarrow> bytes \<Rightarrow> bytes option" where
  "ed25519_pub_from_seed c seed = Some (fst (create_keypair (vend c) seed))"

definition ed25519_sign :: "crypto \<Rightarrow> bytes \<Rightarrow> bytes \<Rightarrow> bytes option" where
  "ed25519_sign c seed msg =
     (let (pub, priv64) = create_keypair (vend c) seed in Some (sign_msg (vend c) msg pub priv64))"

definition ed25519_verify :: "crypto \<Rightarrow> bytes \<Rightarrow> bytes \<Rightarrow> bytes \<Rightarrow> bool" where
  "ed25519_verify c pub msg sig = (verify_msg (vend c) sig msg pub = 1)"

section \<open>ChaCha20-Poly1305, OpenSSH variant\<close>

definition seq_to_nonce :: "u64 \<Rightarrow> bytes" where
  "seq_to_nonce seq = replicate 4 0 @ map (\<lambda>i. ucast (drop_bit (56 - i * 8) seq)) [0..<8]"

definition cc20p1305_length :: "crypto \<Rightarrow> bytes \<Rightarrow> u64 \<Rightarrow> bytes \<Rightarrow> bytes" where
  "cc20p1305_length c k1 seq in4 = snd (mbedtls_chacha20 (mbed c) k1 (seq_to_nonce seq) 0 in4)"

definition poly1305_tag :: "crypto \<Rightarrow> bytes \<Rightarrow> bytes \<Rightarrow> bytes \<Rightarrow> bytes \<Rightarrow> bool \<times> bytes" where
  "poly1305_tag c k2 nonce aad ct =
     (let pkey = snd (mbedtls_chacha20 (mbed c) k2 nonce 0 (replicate 32 0));
          (r, tag) = mbedtls_poly1305 (mbed c) pkey (aad @ ct)
      in (r = 0, tag))"

text \<open>Status, output buffer and tag buffer.\<close>

definition cc20p1305_seal :: "crypto \<Rightarrow> bytes \<Rightarrow> u64 \<Rightarrow> bytes \<Rightarrow> bytes \<Rightarrow> bool \<times> bytes \<times> bytes" where
  "cc20p1305_seal c k2 seq aad inp =
     (let nonce = seq_to_nonce seq;
          (r, out) = mbedtls_chacha20 (mbed c) k2 nonce 1 inp
      in if r \<noteq> 0 then (False, out, stack16 (mbed c))
         else let (ok, tag) = poly1305_tag c k2 nonce aad out in (ok, out, tag))"

definition cc20p1305_open :: "crypto \<Rightarrow> bytes \<Rightarrow> u64 \<Rightarrow> bytes \<Rightarrow> bytes \<Rightarrow> bytes \<Rightarrow> bytes option" where
  "cc20p1305_open c k2 seq aad inp tag =
     (let nonce = seq_to_nonce seq;
          (ok, want) = poly1305_tag c k2 nonce aad inp
      in if \<not> ok then None
         else if ct_memcmp16 want tag \<noteq> 0 then None
         else let (r, out) = mbedtls_chacha20 (mbed c) k2 nonce 1 inp
              in if r = 0 then Some out else None)"

section \<open>Base64 without padding\<close>

fun strip_trailing :: "byte \<Rightarrow> bytes \<Rightarrow> bytes" where
  "strip_trailing p bs = rev (dropWhile (\<lambda>b. b = p) (rev bs))"

text \<open>The characters written; none is the error answer 0.\<close>

definition base64_nopad :: "crypto \<Rightarrow> bytes \<Rightarrow> nat \<Rightarrow> bytes" where
  "base64_nopad c inp outLen =
     (case mbedtls_base64_encode (mbed c) outLen inp of
        None \<Rightarrow> []
      | Some out \<Rightarrow> strip_trailing (of_char (CHR ''='')) out)"

section \<open>Constant-time comparison\<close>

lemma or_eq_0_byte: "(a OR b = 0) \<longleftrightarrow> a = 0 \<and> b = 0" for a b :: byte
  by (rule or_eq_0_iff)

lemma xor_eq_0_byte: "a XOR b = 0 \<longleftrightarrow> a = b" for a b :: byte
  by (metis xor.right_neutral xor_self_eq word_bw_assocs(3))

lemma fold_or_xor_eq_0:
  "fold (\<lambda>i d. d OR (a ! i XOR b ! i)) is d0 = 0 \<longleftrightarrow> d0 = 0 \<and> (\<forall>i \<in> set is. a ! i = b ! i)"
  for a b :: bytes and d0 :: byte
  by (induction "is" arbitrary: d0) (auto simp: or_eq_0_byte xor_eq_0_byte)

lemma ct_memcmp16_eq_0:
  assumes "length a = 16" and "length b = 16"
  shows "ct_memcmp16 a b = 0 \<longleftrightarrow> a = b"
  using assms by (auto simp: ct_memcmp16_def fold_or_xor_eq_0 list_eq_iff_nth_eq)

section \<open>Authenticated encryption\<close>

definition cipher_laws :: "crypto \<Rightarrow> bool" where
  "cipher_laws c \<longleftrightarrow> chacha20_laws (mbed c) \<and> poly1305_laws (mbed c)"

lemma cipher_lawsD:
  assumes "cipher_laws c"
  shows "fst (mbedtls_chacha20 (mbed c) k n ctr x) = 0"
    and "length (snd (mbedtls_chacha20 (mbed c) k n ctr x)) = length x"
    and "snd (mbedtls_chacha20 (mbed c) k n ctr (snd (mbedtls_chacha20 (mbed c) k n ctr x))) = x"
    and "fst (mbedtls_poly1305 (mbed c) k x) = 0"
    and "length (snd (mbedtls_poly1305 (mbed c) k x)) = 16"
  using assms by (simp_all add: cipher_laws_def chacha20_laws_def poly1305_laws_def)

lemma length_cc20p1305_length [simp]:
  "cipher_laws c \<Longrightarrow> length (cc20p1305_length c k1 seq x) = length x"
  by (simp add: cc20p1305_length_def cipher_lawsD)

lemma cc20p1305_length_involution [simp]:
  "cipher_laws c \<Longrightarrow> cc20p1305_length c k1 seq (cc20p1305_length c k1 seq x) = x"
  by (simp add: cc20p1305_length_def cipher_lawsD)

lemma poly1305_tag_laws:
  assumes "cipher_laws c"
  shows "fst (poly1305_tag c k2 nonce aad ct)" and "length (snd (poly1305_tag c k2 nonce aad ct)) = 16"
  using assms by (simp_all add: poly1305_tag_def split_beta cipher_lawsD)

lemma cc20p1305_seal_laws:
  assumes "cipher_laws c" and "cc20p1305_seal c k2 seq aad x = (ok, ct, tag)"
  shows "ok" and "length ct = length x" and "length tag = 16"
    and "ct = snd (mbedtls_chacha20 (mbed c) k2 (seq_to_nonce seq) 1 x)"
    and "tag = snd (poly1305_tag c k2 (seq_to_nonce seq) aad ct)"
  using assms poly1305_tag_laws [OF assms(1)]
  by (auto simp: cc20p1305_seal_def split_beta cipher_lawsD Let_def)

lemma cc20p1305_open_iff:
  assumes "cipher_laws c" and "length tag = 16"
  shows "cc20p1305_open c k2 seq aad ct tag =
    (if tag = snd (poly1305_tag c k2 (seq_to_nonce seq) aad ct)
     then Some (snd (mbedtls_chacha20 (mbed c) k2 (seq_to_nonce seq) 1 ct)) else None)"
  using assms poly1305_tag_laws [OF assms(1), of k2 "seq_to_nonce seq" aad ct]
  by (auto simp: cc20p1305_open_def split_beta ct_memcmp16_eq_0 cipher_lawsD Let_def)

lemma cc20p1305_open_seal:
  assumes "cipher_laws c" and "cc20p1305_seal c k2 seq aad x = (ok, ct, tag)"
  shows "cc20p1305_open c k2 seq aad ct tag = Some x"
  using assms(1) cc20p1305_seal_laws [OF assms]
  by (simp add: cc20p1305_open_iff cipher_lawsD)

section \<open>Nonces\<close>

lemma length_seq_to_nonce [simp]: "length (seq_to_nonce seq) = 12"
  by (simp add: seq_to_nonce_def)

lemma seq_to_nonce_inj: "seq_to_nonce s = seq_to_nonce t \<longleftrightarrow> s = t"
proof
  assume eq: "seq_to_nonce s = seq_to_nonce t"
  have byte: "(ucast (drop_bit (56 - i * 8) s) :: byte) = ucast (drop_bit (56 - i * 8) t)" if "i < 8" for i
    using that arg_cong [OF eq, of "\<lambda>xs. xs ! (4 + i)"] by (simp add: seq_to_nonce_def nth_append)
  show "s = t"
  proof (rule bit_word_eqI)
    fix n assume "n < LENGTH(64)"
    then have n: "n < 64" by simp
    have "7 - n div 8 < 8" and off: "56 - (7 - n div 8) * 8 = 8 * (n div 8)" and "n mod 8 < 8"
      using n by auto
    then have "bit (ucast (drop_bit (8 * (n div 8)) s) :: byte) (n mod 8) =
        bit (ucast (drop_bit (8 * (n div 8)) t) :: byte) (n mod 8)"
      using byte [of "7 - n div 8"] by simp
    then show "bit s n = bit t n"
      using \<open>n mod 8 < 8\<close> by (simp add: bit_simps mult_div_mod_eq)
  qed
qed simp

end
