(* ===== verification/Transport.thy ===== *)
theory Transport
  imports Crypto
begin

text \<open>
  The transport layer of the server session, \<open>esp-idf/src/sshd_session.{h,cpp}\<close>: the
  \<open>Session\<close> structure with its \<open>reset\<close>, the binary packet protocol (\<open>send_packet\<close>,
  \<open>parse_packet\<close>), \<open>send_disconnect\<close> and the version exchange.

  A handler is a function on the pair of the session and the world.  The contract between
  the two directions of the packet protocol is the locale \<open>framing\<close>, interpreted below on the
  unencrypted and on the encrypted framing.
\<close>

section \<open>The session\<close>

datatype phase = VERSION | KEX_WAIT_KEXINIT | KEX_WAIT_ECDH | KEX_WAIT_NEWKEYS | AUTH | RUN | CLOSED

datatype chan_kind = CH_NONE | CH_CLI | CH_LOG

datatype kex_alg = CURVE25519_SHA256 | MLKEM768_X25519

record session =
  slot :: int
  tcp :: int
  phase :: phase
  rxBuf :: bytes
  peerVersion :: bytes
  ourVersion :: bytes
  kexAlg :: kex_alg
  peerKexInit :: bytes
  ourKexInit :: bytes
  ephPriv :: bytes
  ephPub :: bytes
  peerEphPub :: bytes
  peerKexBlob :: bytes
  ourKexBlob :: bytes
  sharedK :: bytes
  sessionId :: bytes
  haveSessionId :: bool
  c2sKey :: bytes
  s2cKey :: bytes
  encInbound :: bool
  encOutbound :: bool
  seqIn :: u64
  seqOut :: u64
  user :: bytes
  authed :: bool
  peerChannel :: u32
  localChannel :: u32
  peerWindow :: u32
  localWindow :: u32
  peerMaxPacket :: u32
  chanKind :: chan_kind
  backendHandle :: int
  chanOpen :: bool
  backendClosing :: bool

type_synonym conn = "session \<times> world"

definition reset_session :: session where
  "reset_session =
     \<lparr>slot = -1, tcp = -1, phase = VERSION, rxBuf = [], peerVersion = [], ourVersion = [],
      kexAlg = CURVE25519_SHA256, peerKexInit = [], ourKexInit = [],
      ephPriv = replicate 32 0, ephPub = replicate 32 0, peerEphPub = replicate 32 0,
      peerKexBlob = [], ourKexBlob = [], sharedK = replicate 32 0,
      sessionId = replicate 32 0, haveSessionId = False,
      c2sKey = replicate 64 0, s2cKey = replicate 64 0,
      encInbound = False, encOutbound = False, seqIn = 0, seqOut = 0,
      user = [], authed = False,
      peerChannel = 0, localChannel = 0, peerWindow = 0, localWindow = 0, peerMaxPacket = 0,
      chanKind = CH_NONE, backendHandle = -1, chanOpen = False, backendClosing = False\<rparr>"

section \<open>Message numbers\<close>

definition MSG_DISCONNECT :: byte where "MSG_DISCONNECT = 1"
definition MSG_IGNORE :: byte where "MSG_IGNORE = 2"
definition MSG_UNIMPLEMENTED :: byte where "MSG_UNIMPLEMENTED = 3"
definition MSG_DEBUG :: byte where "MSG_DEBUG = 4"
definition MSG_SERVICE_REQUEST :: byte where "MSG_SERVICE_REQUEST = 5"
definition MSG_SERVICE_ACCEPT :: byte where "MSG_SERVICE_ACCEPT = 6"
definition MSG_KEXINIT :: byte where "MSG_KEXINIT = 20"
definition MSG_NEWKEYS :: byte where "MSG_NEWKEYS = 21"
definition MSG_KEX_ECDH_INIT :: byte where "MSG_KEX_ECDH_INIT = 30"
definition MSG_KEX_ECDH_REPLY :: byte where "MSG_KEX_ECDH_REPLY = 31"
definition MSG_USERAUTH_REQUEST :: byte where "MSG_USERAUTH_REQUEST = 50"
definition MSG_USERAUTH_FAILURE :: byte where "MSG_USERAUTH_FAILURE = 51"
definition MSG_USERAUTH_SUCCESS :: byte where "MSG_USERAUTH_SUCCESS = 52"
definition MSG_USERAUTH_PK_OK :: byte where "MSG_USERAUTH_PK_OK = 60"
definition MSG_GLOBAL_REQUEST :: byte where "MSG_GLOBAL_REQUEST = 80"
definition MSG_REQUEST_FAILURE :: byte where "MSG_REQUEST_FAILURE = 82"
definition MSG_CHANNEL_OPEN :: byte where "MSG_CHANNEL_OPEN = 90"
definition MSG_CHANNEL_OPEN_CONFIRM :: byte where "MSG_CHANNEL_OPEN_CONFIRM = 91"
definition MSG_CHANNEL_OPEN_FAILURE :: byte where "MSG_CHANNEL_OPEN_FAILURE = 92"
definition MSG_CHANNEL_WINDOW_ADJUST :: byte where "MSG_CHANNEL_WINDOW_ADJUST = 93"
definition MSG_CHANNEL_DATA :: byte where "MSG_CHANNEL_DATA = 94"
definition MSG_CHANNEL_EOF :: byte where "MSG_CHANNEL_EOF = 96"
definition MSG_CHANNEL_CLOSE :: byte where "MSG_CHANNEL_CLOSE = 97"
definition MSG_CHANNEL_REQUEST :: byte where "MSG_CHANNEL_REQUEST = 98"
definition MSG_CHANNEL_SUCCESS :: byte where "MSG_CHANNEL_SUCCESS = 99"
definition MSG_CHANNEL_FAILURE :: byte where "MSG_CHANNEL_FAILURE = 100"

lemmas msg_defs =
  MSG_DISCONNECT_def MSG_IGNORE_def MSG_UNIMPLEMENTED_def MSG_DEBUG_def MSG_SERVICE_REQUEST_def
  MSG_SERVICE_ACCEPT_def MSG_KEXINIT_def MSG_NEWKEYS_def MSG_KEX_ECDH_INIT_def
  MSG_KEX_ECDH_REPLY_def MSG_USERAUTH_REQUEST_def MSG_USERAUTH_FAILURE_def
  MSG_USERAUTH_SUCCESS_def MSG_USERAUTH_PK_OK_def MSG_GLOBAL_REQUEST_def MSG_REQUEST_FAILURE_def
  MSG_CHANNEL_OPEN_def MSG_CHANNEL_OPEN_CONFIRM_def MSG_CHANNEL_OPEN_FAILURE_def
  MSG_CHANNEL_WINDOW_ADJUST_def MSG_CHANNEL_DATA_def MSG_CHANNEL_EOF_def MSG_CHANNEL_CLOSE_def
  MSG_CHANNEL_REQUEST_def MSG_CHANNEL_SUCCESS_def MSG_CHANNEL_FAILURE_def

definition OUR_VERSION_STR :: string where
  "OUR_VERSION_STR = ''SSH-2.0-spangap-sshd_0.1''"

section \<open>Sending packets\<close>

definition send_raw_tcp :: "bytes \<Rightarrow> conn \<Rightarrow> conn" where
  "send_raw_tcp data \<sigma> =
     (let (s, w) = \<sigma> in if tcp s < 0 then (s, w) else (s, snd (itsSend (tcp s) data w)))"

text \<open>The number of padding bytes \<open>send_packet\<close> chooses.\<close>

definition pad_len :: "bool \<Rightarrow> nat \<Rightarrow> nat" where
  "pad_len encOut payLen =
     (let innerLen = 1 + payLen;
          pad0 = 8 - innerLen mod 8;
          pad1 = (if pad0 < 4 then pad0 + 8 else pad0)
      in if \<not> encOut \<and> (4 + 1 + payLen + pad1) mod 8 \<noteq> 0 then pad1 + 4 else pad1)"

text \<open>The bytes of one packet on the wire, given its padding.\<close>

definition frame_packet :: "crypto \<Rightarrow> bool \<Rightarrow> bytes \<Rightarrow> u64 \<Rightarrow> bytes \<Rightarrow> bytes \<Rightarrow> bytes" where
  "frame_packet c encOut key seq padBytes payload =
     (let packetLen = of_nat (1 + length payload + length padBytes) :: u32;
          lenBE = u32_be packetLen;
          inner = [of_nat (length padBytes)] @ payload @ padBytes
      in if encOut then
           (let K2 = take 32 key; K1 = take 32 (drop 32 key);
                encLen = cc20p1305_length c K1 seq lenBE;
                (_, encInner, tag) = cc20p1305_seal c K2 seq encLen inner
            in encLen @ encInner @ tag)
         else lenBE @ inner)"

definition send_packet :: "crypto \<Rightarrow> bytes \<Rightarrow> conn \<Rightarrow> conn" where
  "send_packet c payload \<sigma> =
     (let (s, w) = \<sigma> in
      if phase s = CLOSED \<or> tcp s < 0 then (s, w)
      else let (padBytes, w1) = randomBytes (pad_len (encOutbound s) (length payload)) w;
               framed = frame_packet c (encOutbound s) (s2cKey s) (seqOut s) padBytes payload;
               (s2, w2) = send_raw_tcp framed (s, w1)
           in (s2\<lparr>seqOut := seqOut s2 + 1\<rparr>, w2))"

definition disconnect_payload :: "u32 \<Rightarrow> string \<Rightarrow> bytes" where
  "disconnect_payload code msg =
     put_cstring (put_cstring (put_u32 (put_u8 [] MSG_DISCONNECT) code) msg) ''''"

definition send_disconnect :: "crypto \<Rightarrow> u32 \<Rightarrow> string \<Rightarrow> conn \<Rightarrow> conn" where
  "send_disconnect c code msg \<sigma> =
     (let (s, w) = send_packet c (disconnect_payload code msg) \<sigma>
      in (s\<lparr>phase := CLOSED\<rparr>, itsDisconnect (tcp s) w))"

section \<open>Receiving packets\<close>

datatype parse_result = NeedMore | FramingError | Packet bytes bytes

text \<open>
  One attempt to cut a packet off the front of the receive buffer: the payload and the
  remaining buffer, or the answers 0 and -1 of the source.
\<close>

definition parse_plain :: "bytes \<Rightarrow> parse_result" where
  "parse_plain buf =
     (if length buf < 5 then NeedMore
      else let plen = be_u32 (buf ! 0) (buf ! 1) (buf ! 2) (buf ! 3)
           in if plen < 8 \<or> plen > 35000 then FramingError
              else if length buf < 4 + unat plen then NeedMore
              else let padLen = unat (buf ! 4)
                   in if padLen + 1 > unat plen then FramingError
                      else Packet (take (unat plen - padLen - 1) (drop 5 buf)) (drop (4 + unat plen) buf))"

definition parse_encrypted :: "crypto \<Rightarrow> bytes \<Rightarrow> u64 \<Rightarrow> bytes \<Rightarrow> parse_result" where
  "parse_encrypted c key seq buf =
     (if length buf < 4 then NeedMore
      else let K2 = take 32 key; K1 = take 32 (drop 32 key);
               encLen = take 4 buf;
               lenPlain = cc20p1305_length c K1 seq encLen;
               plen = be_u32 (lenPlain ! 0) (lenPlain ! 1) (lenPlain ! 2) (lenPlain ! 3)
           in if plen < 8 \<or> plen > 35000 then FramingError
              else if length buf < 4 + unat plen + 16 then NeedMore
              else let ct = take (unat plen) (drop 4 buf);
                       tag = take 16 (drop (4 + unat plen) buf)
                   in case cc20p1305_open c K2 seq encLen ct tag of
                        None \<Rightarrow> FramingError
                      | Some plain \<Rightarrow>
                          if unat (plain ! 0) + 1 > unat plen then FramingError
                          else Packet (take (unat plen - unat (plain ! 0) - 1) (drop 1 plain))
                                 (drop (4 + unat plen + 16) buf))"

definition parse_packet :: "crypto \<Rightarrow> session \<Rightarrow> parse_result \<times> session" where
  "parse_packet c s =
     (let r = (if \<not> encInbound s then parse_plain (rxBuf s)
               else parse_encrypted c (c2sKey s) (seqIn s) (rxBuf s))
      in case r of
           Packet payload rest \<Rightarrow> (r, s\<lparr>rxBuf := rest, seqIn := seqIn s + 1\<rparr>)
         | _ \<Rightarrow> (r, s))"

section \<open>Version exchange\<close>

definition send_our_version :: "conn \<Rightarrow> conn" where
  "send_our_version \<sigma> =
     (let (s, w) = \<sigma>; s1 = s\<lparr>ourVersion := str OUR_VERSION_STR\<rparr>
      in send_raw_tcp (ourVersion s1 @ [13, 10]) (s1, w))"

text \<open>
  The position of the line feed splits the buffer; one carriage return before it is dropped.
\<close>

definition split_line :: "bytes \<Rightarrow> (bytes \<times> bytes) option" where
  "split_line buf =
     (let line = takeWhile (\<lambda>b. b \<noteq> 10) buf
      in if length line = length buf then None
         else Some (if line \<noteq> [] \<and> last line = 13 then butlast line else line,
                    drop (length line + 1) buf))"

section \<open>Padding\<close>

lemma pad_len_bounds: "4 \<le> pad_len e n" "pad_len e n \<le> 15"
proof -
  have "n mod 8 < 8" and "(1 + n) mod 8 < 8" by simp_all
  then show "4 \<le> pad_len e n" "pad_len e n \<le> 15"
    by (auto simp: pad_len_def Let_def)
qed

lemma pad_len_aligned:
  "(if e then (1 + n + pad_len e n) mod 8 = 0 else (4 + 1 + n + pad_len e n) mod 8 = 0)"
proof -
  define pad1 where "pad1 = (if 8 - (1 + n) mod 8 < 4 then 8 - (1 + n) mod 8 + 8 else 8 - (1 + n) mod 8)"
  define q m where "q = (1 + n) div 8" and "m = (1 + n) mod 8"
  have n: "1 + n = 8 * q + m" and m: "m < 8"
    by (simp_all add: q_def m_def)
  have "1 + n + pad1 = 8 * (q + 1) \<or> 1 + n + pad1 = 8 * (q + 2)"
    unfolding pad1_def m_def [symmetric] n using m by auto
  then have inner: "(1 + n + pad1) mod 8 = 0"
    by (elim disjE) (simp_all only: mod_mult_self1_is_0)
  then have "(4 + (1 + n + pad1)) mod 8 \<noteq> 0"
    by (metis add_cancel_left_right mod_add_right_eq mod_less numeral_eq_iff semiring_norm(85)
        zero_neq_numeral add.right_neutral numeral_less_iff semiring_norm(76) semiring_norm(78))
  then have "(4 + 1 + n + pad1) mod 8 \<noteq> 0"
    by (simp add: add.assoc)
  then have "pad_len e n = (if e then pad1 else pad1 + 4)"
    unfolding pad_len_def Let_def pad1_def [symmetric] by simp
  then show ?thesis
    using inner mod_add_eq [of 8 8 "1 + n + pad1"] by (simp add: add.assoc) presburger
qed

definition frame_fits :: "bool \<Rightarrow> bytes \<Rightarrow> bytes \<Rightarrow> bool" where
  "frame_fits e padBytes payload \<longleftrightarrow>
     length padBytes = pad_len e (length payload) \<and> 1 + length payload + length padBytes \<le> 35000"

lemma frame_fits_plen:
  assumes "frame_fits e padBytes payload"
  defines "plen \<equiv> (of_nat (1 + length payload + length padBytes) :: u32)"
  shows "unat plen = 1 + length payload + length padBytes" and "\<not> plen < 8" and "\<not> plen > 35000"
    and "unat (of_nat (length padBytes) :: byte) = length padBytes"
proof -
  have len: "1 + length payload + length padBytes \<le> 35000"
    and pad: "length padBytes = pad_len e (length payload)"
    using assms(1) by (auto simp: frame_fits_def)
  then show un: "unat plen = 1 + length payload + length padBytes"
    unfolding plen_def by (subst unat_of_nat) simp
  have "8 \<le> 1 + length payload + length padBytes"
    using pad_len_bounds(1) [of e "length payload"] pad_len_aligned [of e "length payload"] pad
    by (auto split: if_splits) presburger+
  then show "\<not> plen < 8" and "\<not> plen > 35000"
    using un len by (simp_all add: word_less_nat_alt)
  show "unat (of_nat (length padBytes) :: byte) = length padBytes"
    using pad_len_bounds(2) [of e "length payload"] pad by (simp add: unat_of_nat)
qed

section \<open>The contract of the binary packet protocol\<close>

text \<open>
  Framing and unframing under a key: a complete frame gives its payload and leaves the rest
  of the buffer alone, an incomplete one asks for more bytes.
\<close>

fun wrap_all :: "(u64 \<Rightarrow> bytes \<Rightarrow> bytes \<Rightarrow> bytes) \<Rightarrow> u64 \<Rightarrow> (bytes \<times> bytes) list \<Rightarrow> bytes" where
  "wrap_all wrap seq [] = []"
| "wrap_all wrap seq ((padding, p) # ps) = wrap seq padding p @ wrap_all wrap (seq + 1) ps"

fun unwrap_all :: "(u64 \<Rightarrow> bytes \<Rightarrow> parse_result) \<Rightarrow> u64 \<Rightarrow> nat \<Rightarrow> bytes \<Rightarrow> (bytes list \<times> bytes) option" where
  "unwrap_all unwrap seq 0 buf = Some ([], buf)"
| "unwrap_all unwrap seq (Suc n) buf =
     (case unwrap seq buf of
        Packet p rest \<Rightarrow>
          map_option (\<lambda>(ps, r). (p # ps, r)) (unwrap_all unwrap (seq + 1) n rest)
      | _ \<Rightarrow> None)"

locale framing =
  fixes ok :: "'k \<Rightarrow> bool"
    and fits :: "bytes \<Rightarrow> bytes \<Rightarrow> bool"
    and wrap :: "'k \<Rightarrow> u64 \<Rightarrow> bytes \<Rightarrow> bytes \<Rightarrow> bytes"
    and unwrap :: "'k \<Rightarrow> u64 \<Rightarrow> bytes \<Rightarrow> parse_result"
  assumes unwrap_wrap: "ok k \<Longrightarrow> fits pd p \<Longrightarrow> unwrap k seq (wrap k seq pd p @ rest) = Packet p rest"
    and unwrap_short: "ok k \<Longrightarrow> fits pd p \<Longrightarrow> n < length (wrap k seq pd p) \<Longrightarrow>
      unwrap k seq (take n (wrap k seq pd p)) = NeedMore"
begin

lemma unwrap_all_wrap_all:
  assumes "ok k" and "\<forall>(pd, p) \<in> set ps. fits pd p"
  shows "unwrap_all (unwrap k) seq (length ps) (wrap_all (wrap k) seq ps @ rest) = Some (map snd ps, rest)"
  using assms(2)
proof (induction ps arbitrary: seq)
  case (Cons q ps)
  obtain pd p where q: "q = (pd, p)" by fastforce
  have "unwrap k seq (wrap k seq pd p @ wrap_all (wrap k) (seq + 1) ps @ rest) =
      Packet p (wrap_all (wrap k) (seq + 1) ps @ rest)"
    using Cons.prems q assms(1) by (intro unwrap_wrap) auto
  moreover have "unwrap_all (unwrap k) (seq + 1) (length ps) (wrap_all (wrap k) (seq + 1) ps @ rest) =
      Some (map snd ps, rest)"
    using Cons.prems by (intro Cons.IH) auto
  ultimately show ?case
    by (simp add: q)
qed simp

lemma wrap_prefix_free:
  assumes "ok k" and "fits pd p" and "fits pd' p'" and "wrap k seq pd p = wrap k seq pd' p' @ r"
  shows "p = p'" and "r = []"
proof -
  have "Packet p [] = Packet p' r"
    using unwrap_wrap [OF assms(1,2), of seq "[]"] unwrap_wrap [OF assms(1,3), of seq r] assms(4)
    by simp
  then show "p = p'" and "r = []" by simp_all
qed

end

section \<open>Unencrypted framing\<close>

definition wrap_plain :: "bytes \<Rightarrow> bytes \<Rightarrow> bytes" where
  "wrap_plain padBytes payload =
     u32_be (of_nat (1 + length payload + length padBytes)) @
     [of_nat (length padBytes)] @ payload @ padBytes"

lemma frame_packet_plain: "frame_packet c False key seq padBytes payload = wrap_plain padBytes payload"
  by (simp add: frame_packet_def wrap_plain_def Let_def)

lemma length_wrap_plain: "length (wrap_plain pd p) = 4 + (1 + length p + length pd)"
  by (simp add: wrap_plain_def)

lemma u32_be_nth:
  "be_u32 ((u32_be v @ r) ! 0) ((u32_be v @ r) ! 1) ((u32_be v @ r) ! 2) ((u32_be v @ r) ! 3) = v"
  by (simp add: u32_be_def)

lemma parse_plain_wrap:
  assumes "frame_fits False pd p"
  shows "parse_plain (wrap_plain pd p @ rest) = Packet p rest"
proof -
  let ?buf = "wrap_plain pd p @ rest"
  let ?plen = "of_nat (1 + length p + length pd) :: u32"
  have hd4: "be_u32 (?buf ! 0) (?buf ! 1) (?buf ! 2) (?buf ! 3) = ?plen"
    unfolding wrap_plain_def append_assoc by (rule u32_be_nth)
  have pad: "unat (?buf ! 4) = length pd"
    using frame_fits_plen(4) [OF assms] by (simp add: wrap_plain_def nth_append)
  have "take (length p) (drop 5 ?buf) = p" and "drop (4 + (1 + length p + length pd)) ?buf = rest"
    by (simp_all add: wrap_plain_def u32_be_def numeral_eq_Suc)
  then show ?thesis
    using frame_fits_plen(1-3) [OF assms] hd4 pad
    by (simp add: parse_plain_def length_wrap_plain Let_def)
qed

lemma parse_plain_short:
  assumes "frame_fits False pd p" and "n < length (wrap_plain pd p)"
  shows "parse_plain (take n (wrap_plain pd p)) = NeedMore"
proof (cases "n < 5")
  case False
  let ?w = "wrap_plain pd p"
  have hd4: "be_u32 (?w ! 0) (?w ! Suc 0) (?w ! 2) (?w ! 3) = of_nat (1 + length p + length pd)"
    using u32_be_nth [of _ "[of_nat (length pd)] @ p @ pd"] by (simp add: wrap_plain_def)
  have "min (length ?w) n < 4 + (1 + length p + length pd)"
    using assms(2) by (simp add: length_wrap_plain)
  then show ?thesis
    using frame_fits_plen(1-3) [OF assms(1)] False by (simp add: parse_plain_def Let_def hd4)
next
  case True
  then have "length (take n (wrap_plain pd p)) < 5"
    by simp
  then show ?thesis
    by (simp only: parse_plain_def if_True)
qed

interpretation plain_framing: framing "\<lambda>_ :: unit. True" "frame_fits False" "\<lambda>_ _. wrap_plain" "\<lambda>_ _. parse_plain"
  by unfold_locales (simp_all add: parse_plain_wrap parse_plain_short)

section \<open>Encrypted framing\<close>

text \<open>The key of one direction: the primitives and the 64 bytes \<open>K2 || K1\<close>.\<close>

definition wrap_enc :: "crypto \<times> bytes \<Rightarrow> u64 \<Rightarrow> bytes \<Rightarrow> bytes \<Rightarrow> bytes" where
  "wrap_enc k seq padBytes payload = frame_packet (fst k) True (snd k) seq padBytes payload"

definition unwrap_enc :: "crypto \<times> bytes \<Rightarrow> u64 \<Rightarrow> bytes \<Rightarrow> parse_result" where
  "unwrap_enc k seq buf = parse_encrypted (fst k) (snd k) seq buf"

lemma wrap_enc_parts:
  assumes "cipher_laws c" and "frame_fits True pd p"
  obtains encLen ct tag where
    "wrap_enc (c, key) seq pd p = encLen @ ct @ tag"
    "encLen = cc20p1305_length c (take 32 (drop 32 key)) seq (u32_be (of_nat (1 + length p + length pd)))"
    "length encLen = 4" "length ct = 1 + length p + length pd" "length tag = 16"
    "cc20p1305_open c (take 32 key) seq encLen ct tag = Some (of_nat (length pd) # p @ pd)"
proof -
  let ?encLen = "cc20p1305_length c (take 32 (drop 32 key)) seq (u32_be (of_nat (1 + length p + length pd)))"
  let ?inner = "of_nat (length pd) # p @ pd"
  obtain b ct tag where seal: "cc20p1305_seal c (take 32 key) seq ?encLen ?inner = (b, ct, tag)"
    by (metis prod_cases3)
  show thesis
    using seal cc20p1305_seal_laws [OF assms(1) seal] cc20p1305_open_seal [OF assms(1) seal] assms(1)
    by (intro that [of ?encLen ct tag]) (simp_all add: wrap_enc_def frame_packet_def Let_def)
qed

lemma length_wrap_enc:
  assumes "cipher_laws c" and "frame_fits True pd p"
  shows "length (wrap_enc (c, key) seq pd p) = 20 + (1 + length p + length pd)"
  by (rule wrap_enc_parts [OF assms, of key seq]) simp

lemma be_u32_of_u32_be:
  assumes "xs = u32_be v"
  shows "be_u32 (xs ! 0) (xs ! 1) (xs ! 2) (xs ! 3) = v"
  using assms u32_be_nth [of v "[]"] by simp

lemma parse_encrypted_wrap:
  assumes "cipher_laws c" and "frame_fits True pd p"
  shows "unwrap_enc (c, key) seq (wrap_enc (c, key) seq pd p @ rest) = Packet p rest"
proof -
  obtain encLen ct tag where parts: "wrap_enc (c, key) seq pd p = encLen @ ct @ tag"
    and encLen: "encLen = cc20p1305_length c (take 32 (drop 32 key)) seq
      (u32_be (of_nat (1 + length p + length pd)))"
    and len: "length encLen = 4" "length ct = 1 + length p + length pd" "length tag = 16"
    and opened: "cc20p1305_open c (take 32 key) seq encLen ct tag = Some (of_nat (length pd) # p @ pd)"
    using wrap_enc_parts [OF assms] .
  have plain: "cc20p1305_length c (take 32 (drop 32 key)) seq encLen =
      u32_be (of_nat (1 + length p + length pd))"
    using assms(1) by (simp add: encLen)
  show ?thesis
    using frame_fits_plen [OF assms(2)] len opened be_u32_of_u32_be [OF plain]
    by (simp add: unwrap_enc_def parse_encrypted_def parts Let_def)
qed

lemma parse_encrypted_short:
  assumes "cipher_laws c" and "frame_fits True pd p" and "n < length (wrap_enc (c, key) seq pd p)"
  shows "unwrap_enc (c, key) seq (take n (wrap_enc (c, key) seq pd p)) = NeedMore"
proof -
  obtain encLen ct tag where parts: "wrap_enc (c, key) seq pd p = encLen @ ct @ tag"
    and encLen: "encLen = cc20p1305_length c (take 32 (drop 32 key)) seq
      (u32_be (of_nat (1 + length p + length pd)))"
    and len: "length encLen = 4" "length ct = 1 + length p + length pd" "length tag = 16"
    using wrap_enc_parts [OF assms(1,2)] .
  have plain: "cc20p1305_length c (take 32 (drop 32 key)) seq encLen =
      u32_be (of_nat (1 + length p + length pd))"
    using assms(1) by (simp add: encLen)
  show ?thesis
  proof (cases "n < 4")
    case True
    then have "length (take n (wrap_enc (c, key) seq pd p)) < 4"
      by simp
    then show ?thesis
      by (simp only: unwrap_enc_def parse_encrypted_def fst_conv snd_conv if_True)
  next
    case False
    then have hd4: "take 4 (take n (encLen @ ct @ tag)) = encLen"
      and len_n: "length (take n (encLen @ ct @ tag)) = n"
      using len assms(3) parts by simp_all
    define plen :: u32 where "plen = of_nat (1 + length p + length pd)"
    have "unat plen = 1 + length p + length pd" "\<not> plen < 8" "\<not> plen > 35000"
      unfolding plen_def by (rule frame_fits_plen [OF assms(2)])+
    moreover have "n < 4 + (1 + length p + length pd) + 16"
      using assms(3) len parts by simp
    ultimately show ?thesis
      using False be_u32_of_u32_be [OF plain [folded plen_def]]
      by (simp only: unwrap_enc_def parse_encrypted_def parts Let_def hd4 len_n fst_conv snd_conv if_False
          if_True simp_thms)
  qed
qed

interpretation enc_framing: framing "\<lambda>k. cipher_laws (fst k)" "frame_fits True" wrap_enc unwrap_enc
  by unfold_locales (use parse_encrypted_wrap parse_encrypted_short in \<open>force simp: split_paired_all\<close>)+

section \<open>Effects of sending\<close>

abbreviation can_send :: "session \<Rightarrow> bool" where
  "can_send s \<equiv> phase s \<noteq> CLOSED \<and> 0 \<le> tcp s"

text \<open>The bytes \<open>send_packet\<close> would put on the wire for a payload, in a given state.\<close>

definition packet_bytes :: "crypto \<Rightarrow> bytes \<Rightarrow> conn \<Rightarrow> bytes" where
  "packet_bytes c payload \<sigma> =
     frame_packet c (encOutbound (fst \<sigma>)) (s2cKey (fst \<sigma>)) (seqOut (fst \<sigma>))
       (fst (randomBytes (pad_len (encOutbound (fst \<sigma>)) (length payload)) (snd \<sigma>))) payload"

lemma send_raw_tcp_fst [simp]: "fst (send_raw_tcp d \<sigma>) = fst \<sigma>"
  by (simp add: send_raw_tcp_def split_beta Let_def)

lemma send_raw_tcp_trace:
  "trace (snd (send_raw_tcp d \<sigma>)) =
     trace (snd \<sigma>) @ (if tcp (fst \<sigma>) < 0 then [] else [ItsSend (tcp (fst \<sigma>)) d])"
  by (simp add: send_raw_tcp_def split_beta Let_def)

lemma send_packet_fst:
  "fst (send_packet c payload \<sigma>) =
     (if can_send (fst \<sigma>) then (fst \<sigma>)\<lparr>seqOut := seqOut (fst \<sigma>) + 1\<rparr> else fst \<sigma>)"
  by (auto simp: send_packet_def split_beta Let_def)

lemma send_packet_trace:
  "trace (snd (send_packet c payload \<sigma>)) =
     trace (snd \<sigma>) @
       (if can_send (fst \<sigma>) then [ItsSend (tcp (fst \<sigma>)) (packet_bytes c payload \<sigma>)] else [])"
  by (auto simp: send_packet_def packet_bytes_def split_beta Let_def send_raw_tcp_trace)

lemma send_packet_frame [frame, simp]:
  "tcp (fst (send_packet c p \<sigma>)) = tcp (fst \<sigma>)"
  "phase (fst (send_packet c p \<sigma>)) = phase (fst \<sigma>)"
  "slot (fst (send_packet c p \<sigma>)) = slot (fst \<sigma>)"
  "rxBuf (fst (send_packet c p \<sigma>)) = rxBuf (fst \<sigma>)"
  "encOutbound (fst (send_packet c p \<sigma>)) = encOutbound (fst \<sigma>)"
  "encInbound (fst (send_packet c p \<sigma>)) = encInbound (fst \<sigma>)"
  "s2cKey (fst (send_packet c p \<sigma>)) = s2cKey (fst \<sigma>)"
  "c2sKey (fst (send_packet c p \<sigma>)) = c2sKey (fst \<sigma>)"
  "authed (fst (send_packet c p \<sigma>)) = authed (fst \<sigma>)"
  "haveSessionId (fst (send_packet c p \<sigma>)) = haveSessionId (fst \<sigma>)"
  "sessionId (fst (send_packet c p \<sigma>)) = sessionId (fst \<sigma>)"
  "seqIn (fst (send_packet c p \<sigma>)) = seqIn (fst \<sigma>)"
  "chanOpen (fst (send_packet c p \<sigma>)) = chanOpen (fst \<sigma>)"
  "backendHandle (fst (send_packet c p \<sigma>)) = backendHandle (fst \<sigma>)"
  "peerWindow (fst (send_packet c p \<sigma>)) = peerWindow (fst \<sigma>)"
  "localWindow (fst (send_packet c p \<sigma>)) = localWindow (fst \<sigma>)"
  "peerMaxPacket (fst (send_packet c p \<sigma>)) = peerMaxPacket (fst \<sigma>)"
  "peerChannel (fst (send_packet c p \<sigma>)) = peerChannel (fst \<sigma>)"
  by (simp_all add: send_packet_fst)

lemma send_disconnect_fst:
  "fst (send_disconnect c code msg \<sigma>) = (fst (send_packet c (disconnect_payload code msg) \<sigma>))\<lparr>phase := CLOSED\<rparr>"
  by (simp add: send_disconnect_def split_beta Let_def)

lemma send_disconnect_phase [simp]: "phase (fst (send_disconnect c code msg \<sigma>)) = CLOSED"
  by (simp add: send_disconnect_fst)

section \<open>Progress of the parser\<close>

lemma parse_plain_Packet:
  assumes "parse_plain buf = Packet p rest"
  shows "length rest + 12 \<le> length buf" and "length p + length rest + 5 \<le> length buf" and "length p < 35000"
proof -
  let ?plen = "be_u32 (buf ! 0) (buf ! 1) (buf ! 2) (buf ! 3)"
  have a: "5 \<le> length buf" "\<not> ?plen < 8" "\<not> ?plen > 35000" "4 + unat ?plen \<le> length buf"
      "unat (buf ! 4) + 1 \<le> unat ?plen"
    and p: "p = take (unat ?plen - unat (buf ! 4) - 1) (drop 5 buf)" and rest: "rest = drop (4 + unat ?plen) buf"
    using assms by (auto simp: parse_plain_def Let_def not_less split: if_splits)
  have b: "8 \<le> unat ?plen" "unat ?plen \<le> 35000"
    using a(2,3) by (simp_all add: not_less word_le_nat_alt)
  have lp: "length p = unat ?plen - unat (buf ! 4) - 1"
    using a p by simp
  show "length rest + 12 \<le> length buf" using a b rest by simp
  show "length p + length rest + 5 \<le> length buf" using a b rest lp by simp
  show "length p < 35000" using a b lp by simp
qed

lemma parse_encrypted_parts:
  assumes "parse_encrypted c key seq buf = Packet p rest"
  obtains ct tag plain where "buf = take 4 buf @ ct @ tag @ rest" and "length tag = 16"
    and "8 \<le> length ct" and "length ct \<le> 35000"
    and "cc20p1305_open c (take 32 key) seq (take 4 buf) ct tag = Some plain"
    and "p = take (length ct - unat (plain ! 0) - 1) (drop 1 plain)" and "unat (plain ! 0) < length ct"
    and "4 \<le> length buf"
proof -
  define len where "len = cc20p1305_length c (take 32 (drop 32 key)) seq (take 4 buf)"
  define plen where "plen = be_u32 (len ! 0) (len ! 1) (len ! 2) (len ! 3)"
  define ct where "ct = take (unat plen) (drop 4 buf)"
  define tag where "tag = take 16 (drop (4 + unat plen) buf)"
  have eq: "parse_encrypted c key seq buf =
     (if length buf < 4 then NeedMore
      else if plen < 8 \<or> plen > 35000 then FramingError
      else if length buf < 4 + unat plen + 16 then NeedMore
      else case cc20p1305_open c (take 32 key) seq (take 4 buf) ct tag of
             None \<Rightarrow> FramingError
           | Some plain \<Rightarrow>
               if unat (plain ! 0) + 1 > unat plen then FramingError
               else Packet (take (unat plen - unat (plain ! 0) - 1) (drop 1 plain))
                      (drop (4 + unat plen + 16) buf))"
    unfolding parse_encrypted_def Let_def len_def [symmetric] plen_def [symmetric]
      ct_def [symmetric] tag_def [symmetric] by (rule refl)
  obtain plain where a: "\<not> plen < 8" "\<not> plen > 35000" "4 + unat plen + 16 \<le> length buf"
      and opened: "cc20p1305_open c (take 32 key) seq (take 4 buf) ct tag = Some plain"
      and pad: "unat (plain ! 0) + 1 \<le> unat plen"
      and p: "p = take (unat plen - unat (plain ! 0) - 1) (drop 1 plain)"
      and rest: "rest = drop (4 + unat plen + 16) buf"
    using assms by (auto simp: eq not_less split: if_splits option.splits)
  have b: "8 \<le> unat plen" "unat plen \<le> 35000"
    using a(1,2) by (simp_all add: not_less word_le_nat_alt)
  have len_ct: "length ct = unat plen"
    using a by (simp add: ct_def)
  have split: "buf = take 4 buf @ ct @ tag @ rest"
    unfolding rest ct_def tag_def by (rule split_buffer)
  show thesis
    by (rule that [OF split _ _ _ opened]) (use a b p pad len_ct in \<open>auto simp: tag_def\<close>)
qed

lemma parse_encrypted_Packet:
  assumes "parse_encrypted c key seq buf = Packet p rest"
  shows "length rest + 28 \<le> length buf" and "length p < 35000"
proof -
  obtain ct tag plain where buf: "buf = take 4 buf @ ct @ tag @ rest" and len: "length tag = 16"
      "8 \<le> length ct" "length ct \<le> 35000" "4 \<le> length buf"
    and p: "p = take (length ct - unat (plain ! 0) - 1) (drop 1 plain)"
    using parse_encrypted_parts [OF assms] by metis
  have "length buf = length (take 4 buf) + length ct + length tag + length rest"
    using arg_cong [OF buf, of length] by (simp only: length_append add.assoc)
  then show "length p < 35000" and "length rest + 28 \<le> length buf"
    using len p by simp_all
qed

lemma parse_packet_session:
  "snd (parse_packet c s) =
     (case fst (parse_packet c s) of
        Packet p rest \<Rightarrow> s\<lparr>rxBuf := rest, seqIn := seqIn s + 1\<rparr> | _ \<Rightarrow> s)"
  by (simp add: parse_packet_def Let_def split: parse_result.split)

lemma parse_packet_consumes:
  assumes "parse_packet c s = (Packet p rest, s')"
  shows "s' = s\<lparr>rxBuf := rest, seqIn := seqIn s + 1\<rparr>" and "length rest < length (rxBuf s)"
    and "length p < 35000"
proof -
  have "(if \<not> encInbound s then parse_plain (rxBuf s)
     else parse_encrypted c (c2sKey s) (seqIn s) (rxBuf s)) = Packet p rest"
    and s': "s' = s\<lparr>rxBuf := rest, seqIn := seqIn s + 1\<rparr>"
    using assms by (auto simp: parse_packet_def Let_def split: parse_result.splits)
  then show "length rest < length (rxBuf s)" and "length p < 35000"
    using parse_plain_Packet [of "rxBuf s" p rest]
      parse_encrypted_Packet [of c "c2sKey s" "seqIn s" "rxBuf s" p rest]
    by (auto split: if_splits)
  show "s' = s\<lparr>rxBuf := rest, seqIn := seqIn s + 1\<rparr>" by (rule s')
qed

section \<open>Sample primitives for closed examples\<close>

text \<open>A byte-wise XOR stream and a constant tag: enough to evaluate a session by hand.\<close>

definition sample_mbedtls :: mbedtls where
  "sample_mbedtls =
     \<lparr>mbedtls_sha256 = (\<lambda>x. replicate 32 (of_nat (length x))),
      mbedtls_chacha20 = (\<lambda>k n ctr x. (0, map (\<lambda>b. b XOR 0x5A) x)),
      mbedtls_poly1305 = (\<lambda>k x. (0, replicate 16 (fold (\<lambda>b a. a XOR b) x 0))),
      mbedtls_ecp_mul = (\<lambda>k p. Some k),
      mbedtls_base64_encode = (\<lambda>n x. if length x < n then Some (map (\<lambda>b. b XOR 0x80) x) else None),
      mbedtls_base64_decode = (\<lambda>n x. if length x \<le> n then Some (map (\<lambda>b. b XOR 0x80) x) else None),
      stack16 = replicate 16 0\<rparr>"

definition sample_vendored :: vendored where
  "sample_vendored =
     \<lparr>create_keypair = (\<lambda>seed. (seed, seed @ seed)),
      sign_msg = (\<lambda>m pub priv. take 64 (pub @ m @ replicate 64 0)),
      verify_msg = (\<lambda>sig m pub. if sig = take 64 (pub @ m @ replicate 64 0) then 1 else 0),
      kem_enc_derand = (\<lambda>pk coins. Some (replicate 1088 0, coins))\<rparr>"

definition sample_crypto :: crypto where
  "sample_crypto = \<lparr>mbed = sample_mbedtls, vend = sample_vendored\<rparr>"

lemma sample_cipher_laws: "cipher_laws sample_crypto"
  by (simp add: cipher_laws_def chacha20_laws_def poly1305_laws_def sample_crypto_def
      sample_mbedtls_def comp_def xor.assoc)

definition sample_world :: world where
  "sample_world =
     \<lparr>rnd_stream = (\<lambda>n. of_nat n), rnd_pos = 0, send_ans = (\<lambda>_. 100000), send_cnt = 0,
      recv_ans = (\<lambda>_. []), recv_cnt = 0, conn_ans = (\<lambda>_. 7), conn_cnt = 0,
      auth_ans = (\<lambda>pw. pw = str ''hunter2''),
      cfg_str = (\<lambda>_. []), cfg_int = (\<lambda>_ d. d), cfg_count = (\<lambda>_. 0), trace = []\<rparr>"

section \<open>Properties of the packet protocol\<close>

lemma packet_bytes_frame:
  assumes "1 + length payload + pad_len (encOutbound (fst \<sigma>)) (length payload) \<le> 35000"
  obtains pd where "frame_fits (encOutbound (fst \<sigma>)) pd payload"
    and "packet_bytes c payload \<sigma> =
      (if encOutbound (fst \<sigma>) then wrap_enc (c, s2cKey (fst \<sigma>)) (seqOut (fst \<sigma>)) pd payload
       else wrap_plain pd payload)"
proof -
  let ?pd = "fst (randomBytes (pad_len (encOutbound (fst \<sigma>)) (length payload)) (snd \<sigma>))"
  show thesis
    using assms
    by (intro that [of ?pd])
      (simp_all add: frame_fits_def packet_bytes_def wrap_enc_def wrap_plain_def frame_packet_def Let_def)
qed

lemma parse_packet_packet_bytes:
  assumes "cipher_laws c"
    and "1 + length payload + pad_len (encOutbound (fst \<sigma>)) (length payload) \<le> 35000"
    and "encInbound r = encOutbound (fst \<sigma>)" and "c2sKey r = s2cKey (fst \<sigma>)"
    and "seqIn r = seqOut (fst \<sigma>)"
  shows "parse_packet c (r\<lparr>rxBuf := packet_bytes c payload \<sigma> @ rest\<rparr>) =
      (Packet payload rest, r\<lparr>rxBuf := rest, seqIn := seqIn r + 1\<rparr>)"
    and "n < length (packet_bytes c payload \<sigma>) \<Longrightarrow>
      parse_packet c (r\<lparr>rxBuf := take n (packet_bytes c payload \<sigma>)\<rparr>) =
        (NeedMore, r\<lparr>rxBuf := take n (packet_bytes c payload \<sigma>)\<rparr>)"
proof -
  obtain pd where fits: "frame_fits (encOutbound (fst \<sigma>)) pd payload"
    and bytes: "packet_bytes c payload \<sigma> =
      (if encOutbound (fst \<sigma>) then wrap_enc (c, s2cKey (fst \<sigma>)) (seqOut (fst \<sigma>)) pd payload
       else wrap_plain pd payload)"
    using packet_bytes_frame [OF assms(2)] .
  show "parse_packet c (r\<lparr>rxBuf := packet_bytes c payload \<sigma> @ rest\<rparr>) =
      (Packet payload rest, r\<lparr>rxBuf := rest, seqIn := seqIn r + 1\<rparr>)"
    using fits assms parse_plain_wrap [of pd payload rest]
      parse_encrypted_wrap [OF assms(1), of pd payload "s2cKey (fst \<sigma>)" "seqOut (fst \<sigma>)" rest]
    by (cases "encOutbound (fst \<sigma>)") (simp_all add: parse_packet_def bytes unwrap_enc_def Let_def)
  assume "n < length (packet_bytes c payload \<sigma>)"
  then show "parse_packet c (r\<lparr>rxBuf := take n (packet_bytes c payload \<sigma>)\<rparr>) =
      (NeedMore, r\<lparr>rxBuf := take n (packet_bytes c payload \<sigma>)\<rparr>)"
    using fits assms parse_plain_short [of pd payload n]
      parse_encrypted_short [OF assms(1), of pd payload n "s2cKey (fst \<sigma>)" "seqOut (fst \<sigma>)"]
    by (cases "encOutbound (fst \<sigma>)") (simp_all add: parse_packet_def bytes unwrap_enc_def Let_def)
qed

text \<open>
  C3: What \<open>send_packet\<close> puts on the wire, \<open>parse_packet\<close> of a peer with the same key,
  sequence number and encryption state reads back: one \<open>itsSend\<close> carries the whole packet,
  the sender's sequence number advances by one (modulo \<open>2^64\<close>), the receiver recovers exactly
  the payload and keeps every byte that follows, and every proper prefix of the packet makes
  the receiver wait without changing its state.
\<close>

theorem send_packet_parse_packet:
  assumes "cipher_laws c" and "can_send (fst \<sigma>)"
    and "1 + length payload + pad_len (encOutbound (fst \<sigma>)) (length payload) \<le> 35000"
    and "encInbound r = encOutbound (fst \<sigma>)" and "c2sKey r = s2cKey (fst \<sigma>)"
    and "seqIn r = seqOut (fst \<sigma>)"
  shows "\<exists>framed. trace (snd (send_packet c payload \<sigma>)) = trace (snd \<sigma>) @ [ItsSend (tcp (fst \<sigma>)) framed] \<and>
    fst (send_packet c payload \<sigma>) = (fst \<sigma>)\<lparr>seqOut := seqOut (fst \<sigma>) + 1\<rparr> \<and>
    (\<forall>rest. parse_packet c (r\<lparr>rxBuf := framed @ rest\<rparr>) =
       (Packet payload rest, r\<lparr>rxBuf := rest, seqIn := seqIn r + 1\<rparr>)) \<and>
    (\<forall>n < length framed. parse_packet c (r\<lparr>rxBuf := take n framed\<rparr>) =
       (NeedMore, r\<lparr>rxBuf := take n framed\<rparr>))"
  using assms parse_packet_packet_bytes [OF assms(1,3-6)]
  by (intro exI [of _ "packet_bytes c payload \<sigma>"]) (auto simp: send_packet_trace send_packet_fst)

theorem send_packet_parse_packet_witness:
  "let s = reset_session\<lparr>tcp := 3, encOutbound := True\<rparr>; r = reset_session\<lparr>encInbound := True\<rparr> in
   \<exists>framed. trace (snd (send_packet sample_crypto [94, 1, 2] (s, sample_world))) = [ItsSend 3 framed] \<and>
     fst (parse_packet sample_crypto (r\<lparr>rxBuf := framed @ [9]\<rparr>)) = Packet [94, 1, 2] [9]"
proof -
  let ?s = "reset_session\<lparr>tcp := 3, encOutbound := True\<rparr>"
  let ?r = "reset_session\<lparr>encInbound := True\<rparr>"
  have pre: "can_send (fst (?s, sample_world))"
      "1 + length [94 :: byte, 1, 2] +
        pad_len (encOutbound (fst (?s, sample_world))) (length [94 :: byte, 1, 2]) \<le> 35000"
      "encInbound ?r = encOutbound (fst (?s, sample_world))"
      "c2sKey ?r = s2cKey (fst (?s, sample_world))" "seqIn ?r = seqOut (fst (?s, sample_world))"
    by (simp_all add: reset_session_def pad_len_def)
  obtain framed where "trace (snd (send_packet sample_crypto [94, 1, 2] (?s, sample_world))) =
      trace (snd (?s, sample_world)) @ [ItsSend (tcp (fst (?s, sample_world))) framed]"
    and "parse_packet sample_crypto (?r\<lparr>rxBuf := framed @ [9]\<rparr>) =
      (Packet [94, 1, 2] [9], ?r\<lparr>rxBuf := [9], seqIn := seqIn ?r + 1\<rparr>)"
    using send_packet_parse_packet [OF sample_cipher_laws pre] by blast
  then show ?thesis
    unfolding Let_def by (intro exI [of _ framed]) (simp add: sample_world_def)
qed

text \<open>
  A packet on the wire is well formed in the sense of RFC 4253, section 6: between 4 and
  255 bytes of padding, and the padded part (with the length field exactly when nothing is
  encrypted, as the ChaCha20-Poly1305 mode asks) is a multiple of 8 bytes.
\<close>

theorem packet_bytes_aligned:
  assumes "cipher_laws c"
    and "1 + length payload + pad_len (encOutbound (fst \<sigma>)) (length payload) \<le> 35000"
  shows "let n = length (packet_bytes c payload \<sigma>) in
    (if encOutbound (fst \<sigma>) then 20 \<le> n \<and> (n - 20) mod 8 = 0 else n mod 8 = 0) \<and>
    4 \<le> pad_len (encOutbound (fst \<sigma>)) (length payload) \<and> pad_len (encOutbound (fst \<sigma>)) (length payload) \<le> 255"
proof -
  obtain pd where fits: "frame_fits (encOutbound (fst \<sigma>)) pd payload"
    and bytes: "packet_bytes c payload \<sigma> =
      (if encOutbound (fst \<sigma>) then wrap_enc (c, s2cKey (fst \<sigma>)) (seqOut (fst \<sigma>)) pd payload
       else wrap_plain pd payload)"
    using packet_bytes_frame [OF assms(2)] .
  have pd: "length pd = pad_len (encOutbound (fst \<sigma>)) (length payload)"
    using fits by (simp add: frame_fits_def)
  have bounds: "4 \<le> pad_len (encOutbound (fst \<sigma>)) (length payload)"
      "pad_len (encOutbound (fst \<sigma>)) (length payload) \<le> 255"
    using pad_len_bounds [of "encOutbound (fst \<sigma>)" "length payload"] by simp_all
  show ?thesis
  proof (cases "encOutbound (fst \<sigma>)")
    case True
    then show ?thesis
      using fits bytes pd pad_len_aligned [of True "length payload"] bounds
      by (simp add: length_wrap_enc [OF assms(1)])
  next
    case False
    then show ?thesis
      using bytes pd pad_len_aligned [of False "length payload"] bounds
      by (simp add: length_wrap_plain add.assoc)
  qed
qed

theorem packet_bytes_aligned_witness:
  "length (packet_bytes sample_crypto [94, 1, 2] (reset_session, sample_world)) mod 8 = 0"
  using packet_bytes_aligned [OF sample_cipher_laws, of "[94, 1, 2]" "(reset_session, sample_world)"]
  by (simp add: Let_def reset_session_def pad_len_def)

text \<open>
  C5: Once the inbound direction is encrypted, the parser hands out a payload only when the
  16 bytes after the ciphertext are the Poly1305 tag of length field and ciphertext under the
  one-time key of the current sequence number; the payload is then a slice of the decrypted
  text, and both it and the amount of buffer consumed are bounded.
\<close>

theorem parse_packet_authentic:
  assumes "cipher_laws c" and "encInbound s" and "parse_packet c s = (Packet p rest, s')"
  shows "\<exists>ct tag. rxBuf s = take 4 (rxBuf s) @ ct @ tag @ rest \<and>
      tag = snd (poly1305_tag c (take 32 (c2sKey s)) (seq_to_nonce (seqIn s)) (take 4 (rxBuf s)) ct) \<and>
      length tag = 16 \<and> 8 \<le> length ct \<and> length ct \<le> 35000 \<and>
      p = take (length ct - unat (hd (snd (mbedtls_chacha20 (mbed c) (take 32 (c2sKey s)) (seq_to_nonce (seqIn s)) 1 ct))) - 1)
            (tl (snd (mbedtls_chacha20 (mbed c) (take 32 (c2sKey s)) (seq_to_nonce (seqIn s)) 1 ct))) \<and>
      s' = s\<lparr>rxBuf := rest, seqIn := seqIn s + 1\<rparr>"
proof -
  have parsed: "parse_encrypted c (c2sKey s) (seqIn s) (rxBuf s) = Packet p rest"
    and s': "s' = s\<lparr>rxBuf := rest, seqIn := seqIn s + 1\<rparr>"
    using assms(2,3) by (auto simp: parse_packet_def Let_def split: parse_result.splits)
  obtain ct tag plain where "rxBuf s = take 4 (rxBuf s) @ ct @ tag @ rest" and "length tag = 16"
    and "8 \<le> length ct" and "length ct \<le> 35000"
    and opened: "cc20p1305_open c (take 32 (c2sKey s)) (seqIn s) (take 4 (rxBuf s)) ct tag = Some plain"
    and p: "p = take (length ct - unat (plain ! 0) - 1) (drop 1 plain)"
    using parse_encrypted_parts [OF parsed] .
  moreover have "plain = snd (mbedtls_chacha20 (mbed c) (take 32 (c2sKey s)) (seq_to_nonce (seqIn s)) 1 ct)"
    and "tag = snd (poly1305_tag c (take 32 (c2sKey s)) (seq_to_nonce (seqIn s)) (take 4 (rxBuf s)) ct)"
    using opened cc20p1305_open_iff [OF assms(1) \<open>length tag = 16\<close>] by (auto split: if_splits)
  moreover from this(1) have "plain \<noteq> []"
    using \<open>8 \<le> length ct\<close> cipher_lawsD(2) [OF assms(1)] by (metis list.size(3) not_numeral_le_zero)
  ultimately show ?thesis
    using s' by (intro exI [of _ ct] exI [of _ tag]) (simp add: hd_conv_nth drop_Suc)
qed

theorem parse_packet_authentic_witness:
  "\<exists>p rest s'. parse_packet sample_crypto (reset_session\<lparr>encInbound := True,
     rxBuf := packet_bytes sample_crypto [94] (reset_session\<lparr>encOutbound := True\<rparr>, sample_world)\<rparr>) =
       (Packet p rest, s') \<and> seqIn s' = 1"
proof -
  let ?\<sigma> = "(reset_session\<lparr>encOutbound := True\<rparr>, sample_world)"
  let ?r = "reset_session\<lparr>encInbound := True, rxBuf := packet_bytes sample_crypto [94] ?\<sigma>\<rparr>"
  have "parse_packet sample_crypto ((reset_session\<lparr>encInbound := True\<rparr>)\<lparr>rxBuf := packet_bytes sample_crypto [94] ?\<sigma> @ []\<rparr>) =
      (Packet [94] [], (reset_session\<lparr>encInbound := True\<rparr>)\<lparr>rxBuf := [], seqIn := seqIn (reset_session\<lparr>encInbound := True\<rparr>) + 1\<rparr>)"
    by (rule parse_packet_packet_bytes(1) [OF sample_cipher_laws]) (simp_all add: reset_session_def pad_len_def)
  then have run: "parse_packet sample_crypto ?r = (Packet [94] [], snd (parse_packet sample_crypto ?r))"
    by simp
  have "seqIn (snd (parse_packet sample_crypto ?r)) = 1"
    using parse_packet_authentic [OF sample_cipher_laws _ run] by (auto simp: reset_session_def)
  with run show ?thesis
    by blast
qed

text \<open>
  A whole stream survives the encrypted framing: any sequence of payloads, each framed
  under the sequence number that follows the one before it, is recovered in order by the
  same number of parser calls, whatever follows it on the wire.
\<close>

theorem encrypted_stream_roundtrip:
  assumes "cipher_laws c"
    and "\<forall>(pd, p) \<in> set ps. length pd = pad_len True (length p) \<and> 1 + length p + length pd \<le> 35000"
  shows "unwrap_all (\<lambda>seq buf. parse_encrypted c key seq buf) seq (length ps)
      (wrap_all (\<lambda>seq pd p. frame_packet c True key seq pd p) seq ps @ rest) = Some (map snd ps, rest)"
proof -
  have "\<forall>(pd, p) \<in> set ps. frame_fits True pd p"
    using assms(2) by (auto simp: frame_fits_def)
  then have "unwrap_all (unwrap_enc (c, key)) seq (length ps) (wrap_all (wrap_enc (c, key)) seq ps @ rest) =
      Some (map snd ps, rest)"
    using assms(1) by (intro enc_framing.unwrap_all_wrap_all) simp_all
  moreover have "unwrap_enc (c, key) = (\<lambda>seq buf. parse_encrypted c key seq buf)"
    and "wrap_enc (c, key) = (\<lambda>seq pd p. frame_packet c True key seq pd p)"
    by (simp_all add: fun_eq_iff unwrap_enc_def wrap_enc_def)
  ultimately show ?thesis
    by simp
qed

theorem encrypted_stream_roundtrip_witness:
  "unwrap_all (\<lambda>seq buf. parse_encrypted sample_crypto [] seq buf) 7 2
     (wrap_all (\<lambda>seq pd p. frame_packet sample_crypto True [] seq pd p) 7
        [(replicate 6 0, [5]), (replicate 5 1, [6, 7])] @ [1]) = Some ([[5], [6, 7]], [1])"
proof -
  have pre: "\<forall>(pd, p) \<in> set [(replicate 6 0, [5 :: byte]), (replicate 5 (1 :: byte), [6, 7])].
      length pd = pad_len True (length p) \<and> 1 + length p + length pd \<le> 35000"
    by (simp add: pad_len_def)
  show ?thesis
    using encrypted_stream_roundtrip [OF sample_cipher_laws pre, of "[]" 7 "[1]"]
    by (simp add: numeral_2_eq_2 del: unwrap_all.simps wrap_all.simps)
qed

end
