(* ===== verification/Kex.thy ===== *)
theory Kex
  imports Transport
begin

text \<open>
  Key exchange of the server, \<open>esp-idf/src/sshd_session.cpp\<close>: the exchange hash, the key
  derivation, the KEXINIT message, algorithm selection, both key-exchange computations and
  the handlers of KEXINIT, KEX\_ECDH\_INIT and NEWKEYS.
\<close>

section \<open>Exchange hash and key derivation\<close>

definition build_host_key_blob :: "bytes \<Rightarrow> bytes" where
  "build_host_key_blob pub = put_string (put_cstring [] ''ssh-ed25519'') pub"

text \<open>The bytes \<open>hash_update_K\<close> feeds to the hash.\<close>

definition hash_update_K :: "session \<Rightarrow> bytes" where
  "hash_update_K s =
     (if kexAlg s = MLKEM768_X25519 then [0, 0, 0, 32] @ sharedK s
      else let k = strip_leading_zeros (sharedK s);
               pad = (k \<noteq> [] \<and> hd k AND 0x80 \<noteq> 0);
               mpLen = of_nat (length k + (if pad then 1 else 0)) :: u32
           in u32_be mpLen @ (if pad then [0] else []) @ k)"

text \<open>The hashed transcript; the local \<open>putString\<close> of the source is \<open>put_string\<close>.\<close>

definition exchange_transcript :: "session \<Rightarrow> bytes \<Rightarrow> bytes" where
  "exchange_transcript s kBlob =
     (let t1 = put_string [] (peerVersion s);
          t2 = put_string t1 (ourVersion s);
          t3 = put_string t2 (peerKexInit s);
          t4 = put_string t3 (ourKexInit s);
          t5 = put_string t4 kBlob;
          t7 = (if kexAlg s = MLKEM768_X25519
                then put_string (put_string t5 (peerKexBlob s)) (ourKexBlob s)
                else put_string (put_string t5 (peerEphPub s)) (ephPub s))
      in t7 @ hash_update_K s)"

definition compute_exchange_hash :: "crypto \<Rightarrow> session \<Rightarrow> bytes \<Rightarrow> bytes" where
  "compute_exchange_hash c s kBlob = sha256 c (exchange_transcript s kBlob)"

text \<open>
  The loop of \<open>derive_key\<close>: \<open>out\<close> holds what has been produced so far; the first block
  hashes the letter and the session id, every later one all output so far.
\<close>

function derive_blocks :: "crypto \<Rightarrow> session \<Rightarrow> byte \<Rightarrow> nat \<Rightarrow> bool \<Rightarrow> nat \<Rightarrow> bytes \<Rightarrow> bytes" where
  "derive_blocks c s letter outLen first produced out =
     (if produced < outLen then
        let prev = sha256 c (hash_update_K s @ sessionId s @
                     (if first then [letter] @ sessionId s else take produced out));
            tk = (if outLen - produced > 32 then 32 else outLen - produced)
        in derive_blocks c s letter outLen False (produced + tk) (out @ take tk prev)
      else out)"
  by pat_completeness auto
termination
  by (relation "measure (\<lambda>(c, s, letter, outLen, first, produced, out). outLen - produced)")
    (auto simp: Let_def)

declare derive_blocks.simps [simp del]

definition derive_key :: "crypto \<Rightarrow> session \<Rightarrow> byte \<Rightarrow> nat \<Rightarrow> bytes" where
  "derive_key c s letter outLen = derive_blocks c s letter outLen True 0 []"

definition derive_session_keys :: "crypto \<Rightarrow> session \<Rightarrow> session" where
  "derive_session_keys c s =
     (let s1 = s\<lparr>c2sKey := derive_key c s (of_char (CHR ''C'')) 64\<rparr>
      in s1\<lparr>s2cKey := derive_key c s1 (of_char (CHR ''D'')) 64\<rparr>)"

section \<open>KEXINIT\<close>

definition OUR_KEX_NAMES :: string where
  "OUR_KEX_NAMES = ''mlkem768x25519-sha256,curve25519-sha256,curve25519-sha256@libssh.org''"

definition kexinit_body :: "bytes \<Rightarrow> string \<Rightarrow> bytes" where
  "kexinit_body cookie kexNames =
     (let o1 = put_u8 [] MSG_KEXINIT @ cookie;
          o2 = put_namelist o1 kexNames;
          o3 = put_namelist o2 ''ssh-ed25519'';
          o4 = put_namelist o3 ''chacha20-poly1305@openssh.com'';
          o5 = put_namelist o4 ''chacha20-poly1305@openssh.com'';
          o6 = put_namelist o5 '''';
          o7 = put_namelist o6 '''';
          o8 = put_namelist o7 ''none'';
          o9 = put_namelist o8 ''none'';
          o10 = put_namelist o9 '''';
          o11 = put_namelist o10 '''';
          o12 = put_u8 o11 0
      in put_u32 o12 0)"

definition build_kexinit_payload :: "world \<Rightarrow> bytes \<times> world" where
  "build_kexinit_payload w =
     (let (cookie, w1) = randomBytes 16 w in (kexinit_body cookie OUR_KEX_NAMES, w1))"

text \<open>The next name of a comma-separated list ends at the comma or at the end.\<close>

function name_in_csv :: "bytes \<Rightarrow> bytes \<Rightarrow> bool" where
  "name_in_csv needle csv =
     (if csv = [] then False
      else let name = takeWhile (\<lambda>b. b \<noteq> 44) csv
           in if name = needle then True else name_in_csv needle (drop (length name + 1) csv))"
  by pat_completeness auto
termination
  by (relation "measure (\<lambda>(needle, csv). length csv)") (auto simp: Let_def)

declare name_in_csv.simps [simp del]

definition select_kex_alg :: "bytes \<Rightarrow> kex_alg option" where
  "select_kex_alg payload =
     (if length payload < 17 + 4 then None
      else case fst (get_string (view_init (drop 17 payload))) of
             None \<Rightarrow> None
           | Some list \<Rightarrow>
               if name_in_csv (str ''mlkem768x25519-sha256'') list then Some MLKEM768_X25519
               else if name_in_csv (str ''curve25519-sha256'') list \<or>
                       name_in_csv (str ''curve25519-sha256@libssh.org'') list
                    then Some CURVE25519_SHA256
               else None)"

definition send_our_kexinit :: "crypto \<Rightarrow> conn \<Rightarrow> conn" where
  "send_our_kexinit c \<sigma> =
     (let (s, w) = \<sigma>;
          (payload, w1) = build_kexinit_payload w;
          s1 = s\<lparr>ourKexInit := payload\<rparr>
      in send_packet c (ourKexInit s1) (s1, w1))"

section \<open>KEX\_ECDH\_REPLY\<close>

definition load_host_key :: "crypto \<Rightarrow> world \<Rightarrow> (bytes \<times> bytes) option \<times> world" where
  "load_host_key c w =
     (let seedB64 = cfg_str w ''secrets.sshd.host_seed'' in
      if seedB64 = [] then (None, log_line ''sshd: host seed missing'' w)
      else case mbedtls_base64_decode (mbed c) 32 seedB64 of
             None \<Rightarrow> (None, log_line ''sshd: host seed bad base64'' w)
           | Some seed \<Rightarrow>
               if length seed \<noteq> 32 then (None, log_line ''sshd: host seed bad base64'' w)
               else case ed25519_pub_from_seed c seed of
                      None \<Rightarrow> (None, log_line ''sshd: ed25519 pub-from-seed failed'' w)
                    | Some pub \<Rightarrow> (Some (seed, pub), w))"

definition kex_compute_classical :: "crypto \<Rightarrow> conn \<Rightarrow> bool \<times> conn" where
  "kex_compute_classical c \<sigma> =
     (let (s, w) = \<sigma>;
          (priv, w1) = randomBytes 32 w;
          s1 = s\<lparr>ephPriv := priv\<rparr>
      in case x25519_base c (ephPriv s1) of
           None \<Rightarrow> (False, s1, log_line ''sshd: x25519 base failed'' w1)
         | Some pub \<Rightarrow>
             let s2 = s1\<lparr>ephPub := pub\<rparr> in
             (case x25519_scalar c (ephPriv s2) (peerEphPub s2) of
                None \<Rightarrow> (False, s2, log_line ''sshd: x25519 scalar failed'' w1)
              | Some k \<Rightarrow> (True, s2\<lparr>sharedK := k\<rparr>, w1)))"

definition kex_compute_pq :: "crypto \<Rightarrow> conn \<Rightarrow> bool \<times> conn" where
  "kex_compute_pq c \<sigma> =
     (let (s, w) = \<sigma> in
      if length (peerKexBlob s) \<noteq> MLKEM768_PK_BYTES + 32
      then (False, s, log_line ''sshd: bad PQ client_blob size'' w)
      else let kemPk = take MLKEM768_PK_BYTES (peerKexBlob s);
               peerX = drop MLKEM768_PK_BYTES (peerKexBlob s);
               (enc, w1) = mlkem768_encap c kemPk w
           in case enc of
                None \<Rightarrow> (False, s, log_line ''sshd: mlkem768 encap failed (bad pk?)'' w1)
              | Some (ct, mlSs) \<Rightarrow>
                  let (priv, w2) = randomBytes 32 w1; s1 = s\<lparr>ephPriv := priv\<rparr> in
                  (case x25519_base c (ephPriv s1) of
                     None \<Rightarrow> (False, s1, log_line ''sshd: x25519 base failed'' w2)
                   | Some pub \<Rightarrow>
                       let s2 = s1\<lparr>ephPub := pub\<rparr> in
                       (case x25519_scalar c (ephPriv s2) peerX of
                          None \<Rightarrow> (False, s2, log_line ''sshd: x25519 scalar failed'' w2)
                        | Some xSs \<Rightarrow>
                            (True, s2\<lparr>sharedK := sha256 c (mlSs @ xSs), ourKexBlob := ct @ ephPub s2\<rparr>,
                             w2))))"

definition kex_reply_payload :: "bytes \<Rightarrow> bytes \<Rightarrow> bytes \<Rightarrow> bytes" where
  "kex_reply_payload kBlob qs sig =
     (let sigBlob = put_string (put_cstring [] ''ssh-ed25519'') sig
      in put_string (put_string (put_string (put_u8 [] MSG_KEX_ECDH_REPLY) kBlob) qs) sigBlob)"

definition send_kex_ecdh_reply :: "crypto \<Rightarrow> conn \<Rightarrow> bool \<times> conn" where
  "send_kex_ecdh_reply c \<sigma> =
     (let (s, w) = \<sigma>; (hk, w1) = load_host_key c w in
      case hk of
        None \<Rightarrow> (False, s, w1)
      | Some (seed, hostPub) \<Rightarrow>
          let kBlob = build_host_key_blob hostPub;
              (ok, s2, w2) = (if kexAlg s = MLKEM768_X25519 then kex_compute_pq c (s, w1)
                              else kex_compute_classical c (s, w1))
          in if \<not> ok then (False, s2, w2)
             else let H = compute_exchange_hash c s2 kBlob;
                      s3 = (if \<not> haveSessionId s2 then s2\<lparr>sessionId := H, haveSessionId := True\<rparr> else s2)
                  in case ed25519_sign c seed H of
                       None \<Rightarrow> (False, s3, log_line ''sshd: ed25519 sign failed'' w2)
                     | Some sig \<Rightarrow>
                         (True, send_packet c
                            (kex_reply_payload kBlob
                               (if kexAlg s3 = MLKEM768_X25519 then ourKexBlob s3 else ephPub s3) sig)
                            (s3, w2)))"

section \<open>Handlers\<close>

definition handle_kexinit :: "crypto \<Rightarrow> bytes \<Rightarrow> conn \<Rightarrow> conn" where
  "handle_kexinit c payload \<sigma> =
     (let (s, w) = \<sigma>; s1 = s\<lparr>peerKexInit := payload\<rparr> in
      case select_kex_alg payload of
        None \<Rightarrow> send_disconnect c 3 ''no common KEX algorithm'' (s1, w)
      | Some alg \<Rightarrow> (s1\<lparr>kexAlg := alg, phase := KEX_WAIT_ECDH\<rparr>, w))"

definition finish_kex_ecdh :: "crypto \<Rightarrow> conn \<Rightarrow> bool \<times> conn" where
  "finish_kex_ecdh c \<sigma> =
     (let (ok, \<sigma>1) = send_kex_ecdh_reply c \<sigma> in
      if \<not> ok then (False, send_disconnect c 2 ''KEX failed'' \<sigma>1)
      else let (s2, w2) = send_packet c (put_u8 [] MSG_NEWKEYS) \<sigma>1
           in (True, (derive_session_keys c s2)\<lparr>encOutbound := True, phase := KEX_WAIT_NEWKEYS\<rparr>, w2))"

definition handle_kex_ecdh_init :: "crypto \<Rightarrow> bytes \<Rightarrow> conn \<Rightarrow> bool \<times> conn" where
  "handle_kex_ecdh_init c body \<sigma> =
     (let (s, w) = \<sigma> in
      case fst (get_string (view_init body)) of
        None \<Rightarrow> (False, send_disconnect c 2 ''bad KEX_ECDH_INIT'' (s, w))
      | Some blob \<Rightarrow>
          if kexAlg s = MLKEM768_X25519 then
            (if length blob \<noteq> MLKEM768_PK_BYTES + 32
             then (False, send_disconnect c 2 ''bad PQ KEX_ECDH_INIT size'' (s, w))
             else finish_kex_ecdh c (s\<lparr>peerKexBlob := blob\<rparr>, w))
          else
            (if length blob \<noteq> 32
             then (False, send_disconnect c 2 ''bad KEX_ECDH_INIT size'' (s, w))
             else finish_kex_ecdh c (s\<lparr>peerEphPub := blob\<rparr>, w)))"

definition handle_newkeys :: "session \<Rightarrow> session" where
  "handle_newkeys s = s\<lparr>encInbound := True, phase := AUTH\<rparr>"

definition consume_version :: "crypto \<Rightarrow> conn \<Rightarrow> bool \<times> conn" where
  "consume_version c \<sigma> =
     (let (s, w) = \<sigma> in
      case split_line (rxBuf s) of
        None \<Rightarrow>
          if length (rxBuf s) > 1024
          then (False, send_disconnect c 2 ''preamble too long'' (s, w))
          else (False, s, w)
      | Some (line, rest) \<Rightarrow>
          let s1 = s\<lparr>peerVersion := line, rxBuf := rest\<rparr> in
          if take 4 (peerVersion s1) \<noteq> str ''SSH-''
          then (False, send_disconnect c 2 ''not an SSH client'' (s1, w))
          else if take 8 (peerVersion s1) \<noteq> str ''SSH-2.0-''
          then (False, send_disconnect c 2 ''SSH protocol version must be 2.0'' (s1, w))
          else let (s2, w2) = send_our_kexinit c (s1, w)
               in (True, s2\<lparr>phase := KEX_WAIT_KEXINIT\<rparr>, w2))"

section \<open>Name lists\<close>

text \<open>A name is an element of a comma-separated list when commas or the ends delimit it.\<close>

definition csv_element :: "bytes \<Rightarrow> bytes \<Rightarrow> bool" where
  "csv_element needle csv \<longleftrightarrow>
     (\<exists>pre post. csv = pre @ needle @ post \<and> (pre = [] \<or> last pre = 44) \<and> (post = [] \<or> hd post = 44))"

lemma takeWhile_delimited:
  assumes "44 \<notin> set needle" and "post = [] \<or> hd post = 44"
  shows "takeWhile (\<lambda>b. b \<noteq> 44) (needle @ post) = (needle :: bytes)"
proof -
  have "takeWhile (\<lambda>b. b \<noteq> 44) (needle @ post) = needle @ takeWhile (\<lambda>b. b \<noteq> 44) post"
    using assms(1) by (intro takeWhile_append2) auto
  then show ?thesis
    using assms(2) by (cases post) auto
qed

lemma csv_element_skip:
  fixes csv :: bytes
  defines "name \<equiv> takeWhile (\<lambda>b. b \<noteq> 44) csv"
  assumes needle: "needle \<noteq> []" "44 \<notin> set needle" and neq: "name \<noteq> needle"
  shows "csv_element needle csv \<longleftrightarrow> csv_element needle (drop (length name + 1) csv)"
proof
  assume "csv_element needle csv"
  then obtain pre post where csv: "csv = pre @ needle @ post"
    and pre: "pre = [] \<or> last pre = 44" and post: "post = [] \<or> hd post = 44"
    by (auto simp: csv_element_def)
  have "pre \<noteq> []"
    using takeWhile_delimited [OF needle(2) post] neq csv by (auto simp: name_def)
  with pre have in_pre: "44 \<in> set pre"
    by (metis last_in_set)
  then have nm: "name = takeWhile (\<lambda>b. b \<noteq> 44) pre"
    unfolding name_def csv by (intro takeWhile_append1) auto
  have "length name < length pre"
  proof -
    have "takeWhile (\<lambda>b. b \<noteq> 44) pre \<noteq> pre"
      using in_pre by (auto simp: takeWhile_eq_all_conv)
    then show ?thesis
      unfolding nm by (metis length_takeWhile_le le_neq_implies_less takeWhile_eq_take take_all order_refl)
  qed
  then have "drop (length name + 1) csv = drop (length name + 1) pre @ needle @ post"
    by (simp add: csv)
  moreover have "drop (length name + 1) pre = [] \<or> last (drop (length name + 1) pre) = 44"
    using pre \<open>pre \<noteq> []\<close> by (cases "length name + 1 < length pre") simp_all
  ultimately show "csv_element needle (drop (length name + 1) csv)"
    unfolding csv_element_def using post by blast
next
  assume "csv_element needle (drop (length name + 1) csv)"
  then obtain pre post where d: "drop (length name + 1) csv = pre @ needle @ post"
    and pre: "pre = [] \<or> last pre = 44" and post: "post = [] \<or> hd post = 44"
    by (auto simp: csv_element_def)
  have "drop (length name + 1) csv \<noteq> []"
    using d needle by auto
  then have long: "length name < length csv"
    by simp
  then have comma: "csv ! length name = 44"
    unfolding name_def using nth_length_takeWhile by blast
  have "csv = take (length name + 1) csv @ pre @ needle @ post"
    using d by (metis append_take_drop_id)
  moreover have "last (take (length name + 1) csv @ pre) = 44"
  proof (cases pre)
    case Nil
    then show ?thesis
      using long comma by (simp add: take_Suc_conv_app_nth)
  qed (use pre in auto)
  ultimately show "csv_element needle csv"
    using post unfolding csv_element_def
    by (intro exI [of _ "take (length name + 1) csv @ pre"] exI [of _ post]) simp
qed

lemma name_in_csv_iff:
  assumes "needle \<noteq> []" and "44 \<notin> set needle"
  shows "name_in_csv needle csv \<longleftrightarrow> csv_element needle csv"
  using assms
proof (induction needle csv rule: name_in_csv.induct)
  case (1 needle csv)
  let ?name = "takeWhile (\<lambda>b. b \<noteq> 44) csv"
  consider "csv = []" | "csv \<noteq> []" "?name = needle" | "csv \<noteq> []" "?name \<noteq> needle" by blast
  then show ?case
  proof cases
    case 1
    then show ?thesis
      using "1.prems" by (auto simp: name_in_csv.simps csv_element_def)
  next
    case 2
    have "csv = [] @ ?name @ dropWhile (\<lambda>b. b \<noteq> 44) csv"
      by simp
    moreover have "dropWhile (\<lambda>b. b \<noteq> 44) csv = [] \<or> hd (dropWhile (\<lambda>b. b \<noteq> 44) csv) = 44"
      using hd_dropWhile by blast
    ultimately have "csv_element needle csv"
      unfolding csv_element_def using 2(2) by (metis (no_types))
    then show ?thesis
      using 2 by (subst name_in_csv.simps) simp
  next
    case 3
    then show ?thesis
      using "1.IH" [OF 3(1) refl 3(2) "1.prems"] csv_element_skip [OF "1.prems" 3(2)]
      by (subst name_in_csv.simps) simp
  qed
qed

section \<open>Injectivity of the transcript\<close>

lemma put_string_append: "put_string s d = s @ put_string [] d"
  by (simp add: put_string_def put_u32_def put_bytes_def)

lemma put_string_inj:
  assumes "length d < 2 ^ 32" and "length d' < 2 ^ 32"
  shows "put_string [] d @ r = put_string [] d' @ r' \<longleftrightarrow> d = d' \<and> r = r'"
proof
  assume "put_string [] d @ r = put_string [] d' @ r'"
  then have eq: "(of_nat (length d) :: u32) = of_nat (length d') \<and> d @ r = d' @ r'"
    by (simp add: put_string_def put_u32_def put_bytes_def)
  then have "unat (of_nat (length d) :: u32) = unat (of_nat (length d') :: u32)"
    by simp
  then have "length d = length d'"
    using assms by (simp add: unat_of_nat)
  with eq show "d = d' \<and> r = r'"
    by simp
qed simp

lemma be_val_less: "be_val bs < 256 ^ length bs"
  by (induction bs) (simp_all add: radix_less)

lemma be_val_inj: "length a = length b \<Longrightarrow> be_val a = be_val b \<longleftrightarrow> a = b"
proof (induction a b rule: list_induct2)
  case (Cons x xs y ys)
  then show ?case
    using radix_eq [OF be_val_less [of xs] be_val_less [of ys, folded Cons.hyps]]
    by (simp add: word_unat_eq_iff)
qed simp

lemma mpint_body_inj:
  assumes "length k = length k'" and "mpint_body k = mpint_body k'"
  shows "k = k'"
proof -
  have "be_val (mpint_body k) = be_val k" for k
    by (simp add: mpint_body_def Let_def)
  then show ?thesis
    using assms be_val_inj by metis
qed

lemma hash_update_K_classical:
  "kexAlg s = CURVE25519_SHA256 \<Longrightarrow> hash_update_K s = put_mpint_positive [] (sharedK s)"
  by (simp add: hash_update_K_def put_mpint_positive_def put_u32_def put_u8_def put_bytes_def Let_def)

lemma hash_update_K_pq:
  "kexAlg s = MLKEM768_X25519 \<Longrightarrow> length (sharedK s) = 32 \<Longrightarrow> hash_update_K s = put_string [] (sharedK s)"
  by (simp add: hash_update_K_def put_string_def put_u32_def put_bytes_def u32_be_def)

text \<open>The public values \<open>Q_C\<close> and \<open>Q_S\<close> of the transcript and the encoding of \<open>K\<close> as a string.\<close>

definition kex_qc :: "session \<Rightarrow> bytes" where
  "kex_qc s = (if kexAlg s = MLKEM768_X25519 then peerKexBlob s else peerEphPub s)"

definition kex_qs :: "session \<Rightarrow> bytes" where
  "kex_qs s = (if kexAlg s = MLKEM768_X25519 then ourKexBlob s else ephPub s)"

definition kex_k_body :: "session \<Rightarrow> bytes" where
  "kex_k_body s = (if kexAlg s = MLKEM768_X25519 then sharedK s else mpint_body (sharedK s))"

text \<open>The shape of a session when the exchange hash is computed.\<close>

definition kex_sized :: "session \<Rightarrow> bytes \<Rightarrow> bool" where
  "kex_sized s kBlob \<longleftrightarrow>
     length (peerVersion s) < 2 ^ 32 \<and> length (ourVersion s) < 2 ^ 32 \<and>
     length (peerKexInit s) < 2 ^ 32 \<and> length (ourKexInit s) < 2 ^ 32 \<and> length kBlob < 2 ^ 32 \<and>
     length (kex_qc s) = (if kexAlg s = MLKEM768_X25519 then 1216 else 32) \<and>
     length (kex_qs s) < 2 ^ 32 \<and> length (sharedK s) = 32"

lemma exchange_transcript_strings:
  assumes "kex_sized s kBlob"
  shows "exchange_transcript s kBlob =
    put_string [] (peerVersion s) @ put_string [] (ourVersion s) @ put_string [] (peerKexInit s) @
    put_string [] (ourKexInit s) @ put_string [] kBlob @ put_string [] (kex_qc s) @
    put_string [] (kex_qs s) @ put_string [] (kex_k_body s)"
proof -
  have "hash_update_K s = put_string [] (kex_k_body s)"
    using assms by (cases "kexAlg s")
      (simp_all add: hash_update_K_classical hash_update_K_pq put_mpint_positive_eq kex_k_body_def
        kex_sized_def)
  then show ?thesis
    by (simp add: exchange_transcript_def Let_def kex_qc_def kex_qs_def
        put_string_append [of "_ @ _"] put_string_append [of "put_string _ _"])
qed

lemma kex_sized_lengths:
  assumes "kex_sized s kBlob"
  shows "length (peerVersion s) < 2 ^ 32" "length (ourVersion s) < 2 ^ 32"
    "length (peerKexInit s) < 2 ^ 32" "length (ourKexInit s) < 2 ^ 32" "length kBlob < 2 ^ 32"
    "length (kex_qc s) < 2 ^ 32" "length (kex_qs s) < 2 ^ 32" "length (kex_k_body s) < 2 ^ 32"
  using assms mpint_body_length [of "sharedK s"] by (auto simp: kex_sized_def kex_k_body_def)

text \<open>
  C7: The exchange hash binds the whole handshake: two handshakes, whatever algorithms they
  negotiated, feed the same bytes to the hash only if they agree on both version strings,
  both KEXINIT payloads, the host key, both public values, the algorithm and the shared
  secret.
\<close>

theorem exchange_transcript_injective:
  assumes "kex_sized s kBlob" and "kex_sized s' kBlob'"
    and "exchange_transcript s kBlob = exchange_transcript s' kBlob'"
  shows "peerVersion s = peerVersion s' \<and> ourVersion s = ourVersion s' \<and>
    peerKexInit s = peerKexInit s' \<and> ourKexInit s = ourKexInit s' \<and> kBlob = kBlob' \<and>
    kex_qc s = kex_qc s' \<and> kex_qs s = kex_qs s' \<and> kexAlg s = kexAlg s' \<and> sharedK s = sharedK s'"
proof -
  note len = kex_sized_lengths [OF assms(1)] kex_sized_lengths [OF assms(2)]
  have eqs: "peerVersion s = peerVersion s' \<and> ourVersion s = ourVersion s' \<and>
      peerKexInit s = peerKexInit s' \<and> ourKexInit s = ourKexInit s' \<and> kBlob = kBlob' \<and>
      kex_qc s = kex_qc s' \<and> kex_qs s = kex_qs s' \<and> kex_k_body s = kex_k_body s'"
    using assms(3) len put_string_inj [of "kex_k_body s" "kex_k_body s'" "[]" "[]"]
    unfolding exchange_transcript_strings [OF assms(1)] exchange_transcript_strings [OF assms(2)]
    by (simp add: put_string_inj)
  have alg: "kexAlg s = kexAlg s'"
    using assms(1,2) eqs by (cases "kexAlg s"; cases "kexAlg s'") (auto simp: kex_sized_def)
  have "sharedK s = sharedK s'"
    using assms(1,2) eqs alg mpint_body_inj [of "sharedK s" "sharedK s'"]
    by (auto simp: kex_k_body_def kex_sized_def split: if_splits)
  with eqs alg show ?thesis
    by blast
qed

theorem exchange_transcript_injective_witness:
  "kex_sized reset_session [1] \<and> kex_sized (reset_session\<lparr>user := [7]\<rparr>) [1] \<and>
   sharedK reset_session = sharedK (reset_session\<lparr>user := [7]\<rparr>)"
proof -
  have a: "kex_sized reset_session [1]" and b: "kex_sized (reset_session\<lparr>user := [7]\<rparr>) [1]"
    by (simp_all add: kex_sized_def kex_qc_def kex_qs_def reset_session_def)
  have "exchange_transcript reset_session [1] = exchange_transcript (reset_session\<lparr>user := [7]\<rparr>) [1]"
    by (simp add: exchange_transcript_def hash_update_K_def Let_def)
  with a b show ?thesis
    using exchange_transcript_injective [OF a b] by blast
qed

section \<open>Key derivation\<close>

text \<open>
  The key stream of RFC 4253, section 7.2: \<open>rfc_kdf c k h l sid n\<close> is the concatenation of
  the first \<open>n\<close> blocks \<open>K1 = HASH(K || H || X || session_id)\<close>,
  \<open>K(i+1) = HASH(K || H || K1 || ... || Ki)\<close>.
\<close>

fun rfc_kdf :: "crypto \<Rightarrow> bytes \<Rightarrow> bytes \<Rightarrow> byte \<Rightarrow> bytes \<Rightarrow> nat \<Rightarrow> bytes" where
  "rfc_kdf c k h l sid 0 = []"
| "rfc_kdf c k h l sid (Suc 0) = sha256 c (k @ h @ [l] @ sid)"
| "rfc_kdf c k h l sid (Suc (Suc n)) =
     rfc_kdf c k h l sid (Suc n) @ sha256 c (k @ h @ rfc_kdf c k h l sid (Suc n))"

lemma length_sha256: "sha256_laws (mbed c) \<Longrightarrow> length (sha256 c x) = 32"
  by (simp add: sha256_laws_def sha256_def)

lemma length_rfc_kdf: "sha256_laws (mbed c) \<Longrightarrow> length (rfc_kdf c k h l sid n) = 32 * n"
  by (induction c k h l sid n rule: rfc_kdf.induct) (simp_all add: length_sha256)

lemma rfc_kdf_prefix:
  assumes "sha256_laws (mbed c)" and "m \<le> n"
  shows "take (32 * m) (rfc_kdf c k h l sid n) = rfc_kdf c k h l sid m"
  using assms(2)
proof (induction n rule: dec_induct)
  case base
  then show ?case using length_rfc_kdf [OF assms(1)] by simp
next
  case (step n)
  then show ?case
    using length_rfc_kdf [OF assms(1), of k h l sid n] by (cases n) simp_all
qed

lemma derive_blocks_rfc:
  assumes laws: "sha256_laws (mbed c)"
  shows "first = (i = 0) \<Longrightarrow> produced = 32 * i \<Longrightarrow>
    out = rfc_kdf c (hash_update_K s) (sessionId s) letter (sessionId s) i \<Longrightarrow> outLen \<le> 32 * m \<Longrightarrow>
    i \<le> m \<Longrightarrow> 32 * i \<le> outLen \<Longrightarrow>
    derive_blocks c s letter outLen first produced out =
      take outLen (rfc_kdf c (hash_update_K s) (sessionId s) letter (sessionId s) m)"
proof (induction "outLen - produced" arbitrary: first produced out i rule: less_induct)
  case less
  let ?kdf = "rfc_kdf c (hash_update_K s) (sessionId s) letter (sessionId s)"
  let ?blk = "sha256 c (hash_update_K s @ sessionId s @
    (if first then [letter] @ sessionId s else take produced out))"
  have len_out: "length out = produced"
    using less.prems length_rfc_kdf [OF laws] by simp
  have next_block: "out @ ?blk = ?kdf (Suc i)"
    using less.prems len_out by (cases i) auto
  show ?case
  proof (cases "produced < outLen")
    case False
    then have "outLen = 32 * i"
      using less.prems by simp
    moreover have "derive_blocks c s letter outLen first produced out = out"
      using False by (subst derive_blocks.simps) simp
    ultimately show ?thesis
      using less.prems rfc_kdf_prefix [OF laws less.prems(5)] by simp
  next
    case True
    show ?thesis
    proof (cases "outLen - produced > 32")
      case True
      have "derive_blocks c s letter outLen False (produced + 32) (out @ ?blk) = take outLen (?kdf m)"
        using True less.prems next_block
        by (intro less.hyps [where i = "Suc i"]) auto
      then show ?thesis
        using True \<open>produced < outLen\<close> length_sha256 [OF laws]
        by (subst derive_blocks.simps) (simp add: Let_def)
    next
      case short: False
      let ?tk = "outLen - produced"
      have "derive_blocks c s letter outLen first produced out = out @ take ?tk ?blk"
        using True short
        by (subst derive_blocks.simps)
          (simp add: Let_def derive_blocks.simps [of c s letter outLen False outLen])
      also have "\<dots> = take outLen (?kdf (Suc i))"
        using len_out True by (simp flip: next_block)
      also have "\<dots> = take outLen (?kdf m)"
      proof -
        have "Suc i \<le> m" and "outLen \<le> 32 * Suc i"
          using True short less.prems by auto
        then show ?thesis
          using rfc_kdf_prefix [OF laws \<open>Suc i \<le> m\<close>] by (metis min.absorb1 take_take)
      qed
      finally show ?thesis .
    qed
  qed
qed

text \<open>
  C6: The key derivation loop computes exactly the RFC 4253 key stream, truncated to the
  requested length, for every length; the 64-byte directional keys are therefore
  \<open>HASH(K || H || X || session_id)\<close> followed by \<open>HASH(K || H || K1)\<close>, with the letters C
  (client to server) and D (server to client).
\<close>

theorem derive_key_rfc4253:
  assumes "sha256_laws (mbed c)" and "outLen \<le> 32 * m"
  shows "derive_key c s letter outLen =
      take outLen (rfc_kdf c (hash_update_K s) (sessionId s) letter (sessionId s) m) \<and>
    c2sKey (derive_session_keys c s) =
      rfc_kdf c (hash_update_K s) (sessionId s) (of_char (CHR ''C'')) (sessionId s) 2 \<and>
    s2cKey (derive_session_keys c s) =
      rfc_kdf c (hash_update_K s) (sessionId s) (of_char (CHR ''D'')) (sessionId s) 2"
proof -
  have gen: "derive_key c t l n = take n (rfc_kdf c (hash_update_K t) (sessionId t) l (sessionId t) j)"
    if "n \<le> 32 * j" for t l n j
    unfolding derive_key_def
    by (rule derive_blocks_rfc [OF assms(1), where i = 0]) (use that in auto)
  have two: "derive_key c t l 64 = rfc_kdf c (hash_update_K t) (sessionId t) l (sessionId t) 2" for t l
    using gen [of 64 2 t l] length_rfc_kdf [OF assms(1)] by simp
  have same: "hash_update_K (s\<lparr>c2sKey := k\<rparr>) = hash_update_K s" for k
    by (simp add: hash_update_K_def)
  show ?thesis
    using gen [OF assms(2)] two by (simp add: derive_session_keys_def Let_def same)
qed

theorem derive_key_rfc4253_witness:
  "sha256_laws (mbed sample_crypto) \<and> (40 :: nat) \<le> 32 * 2 \<and>
   length (derive_key sample_crypto reset_session 67 40) = 40"
proof -
  have laws: "sha256_laws (mbed sample_crypto)"
    by (simp add: sha256_laws_def sample_crypto_def sample_mbedtls_def)
  have "(40 :: nat) \<le> 32 * 2" by simp
  then show ?thesis
    using laws derive_key_rfc4253 [OF laws, of 40 2 reset_session 67] length_rfc_kdf [OF laws]
    by simp
qed

section \<open>Algorithm selection\<close>

lemma comma_free_names:
  "44 \<notin> set (str ''mlkem768x25519-sha256'')" "44 \<notin> set (str ''curve25519-sha256'')"
  "44 \<notin> set (str ''curve25519-sha256@libssh.org'')"
  by (simp_all add: str_def)

lemma nonempty_names:
  "str ''mlkem768x25519-sha256'' \<noteq> []" "str ''curve25519-sha256'' \<noteq> []"
  "str ''curve25519-sha256@libssh.org'' \<noteq> []"
  by (simp_all add: str_def)

lemmas name_in_csv_names =
  name_in_csv_iff [OF nonempty_names(1) comma_free_names(1)]
  name_in_csv_iff [OF nonempty_names(2) comma_free_names(2)]
  name_in_csv_iff [OF nonempty_names(3) comma_free_names(3)]

lemma get_string_view_put:
  assumes "length (put_string [] d @ r) < 2 ^ 32"
  shows "fst (get_string (view_init (put_string [] d @ r))) = Some d"
proof -
  have "length d < 2 ^ 32"
    using assms by (simp add: put_string_def put_u32_def put_bytes_def)
  with assms view_reader.gs_put [of "view_init (put_string [] d @ r)" d r] show ?thesis
    by (metis fst_conv view_abs_init view_wf_init)
qed

lemma select_kex_alg_list:
  assumes "length cookie = 16" and "length (put_string [] names @ rest) < 2 ^ 32"
  shows "select_kex_alg (MSG_KEXINIT # cookie @ put_string [] names @ rest) =
    (if csv_element (str ''mlkem768x25519-sha256'') names then Some MLKEM768_X25519
     else if csv_element (str ''curve25519-sha256'') names \<or>
             csv_element (str ''curve25519-sha256@libssh.org'') names then Some CURVE25519_SHA256
     else None)"
proof -
  have "drop 17 (MSG_KEXINIT # cookie @ put_string [] names @ rest) = put_string [] names @ rest"
    using assms(1) by simp
  moreover have "17 + 4 \<le> length (MSG_KEXINIT # cookie @ put_string [] names @ rest)"
    using assms(1) by (simp add: put_string_def put_u32_def put_bytes_def)
  ultimately show ?thesis
    using get_string_view_put [OF assms(2)] by (simp add: select_kex_alg_def name_in_csv_names)
qed

text \<open>
  The algorithm the server picks from a peer's KEXINIT is decided by whole names of its
  first name-list: the hybrid method whenever the list has it, else X25519 under either of
  its two names, else none; a name that merely contains an algorithm's name is not taken for
  it.
\<close>

theorem select_kex_alg_correct:
  assumes "length cookie = 16" and "length (put_string [] names @ rest) < 2 ^ 32"
  shows "(select_kex_alg (MSG_KEXINIT # cookie @ put_string [] names @ rest) = Some MLKEM768_X25519 \<longleftrightarrow>
      csv_element (str ''mlkem768x25519-sha256'') names) \<and>
    (select_kex_alg (MSG_KEXINIT # cookie @ put_string [] names @ rest) = None \<longleftrightarrow>
      \<not> csv_element (str ''mlkem768x25519-sha256'') names \<and> \<not> csv_element (str ''curve25519-sha256'') names \<and>
      \<not> csv_element (str ''curve25519-sha256@libssh.org'') names)"
  by (simp add: select_kex_alg_list [OF assms])

theorem select_kex_alg_correct_witness:
  "select_kex_alg (MSG_KEXINIT # replicate 16 0 @ put_string [] (str ''curve25519-sha256,mlkem768x25519-sha256'')) =
     Some MLKEM768_X25519"
proof -
  let ?names = "str ''curve25519-sha256,mlkem768x25519-sha256''"
  have names: "?names = str ''curve25519-sha256,'' @ str ''mlkem768x25519-sha256'' @ []"
    by (simp add: str_def)
  have "last (str ''curve25519-sha256,'') = 44"
    by (simp add: str_def)
  then have "csv_element (str ''mlkem768x25519-sha256'') ?names"
    unfolding csv_element_def names by blast
  moreover have "length (put_string [] ?names @ []) < 2 ^ 32"
    by (simp add: put_string_def put_u32_def put_bytes_def)
  ultimately show ?thesis
    using select_kex_alg_correct [of "replicate 16 0" ?names "[]"] by simp
qed

text \<open>
  RFC 4253, section 7.1 takes the first name of the client's list that the server knows.  The
  server's own preference order does not always give the same result, although the comment in
  the source says so: for a client that prefers X25519 the two differ.
\<close>

definition rfc_choice :: "string list \<Rightarrow> string list \<Rightarrow> string option" where
  "rfc_choice client server = List.find (\<lambda>n. n \<in> set server) client"

lemma select_kex_alg_not_client_preference:
  "rfc_choice [''curve25519-sha256'', ''mlkem768x25519-sha256'']
     [''mlkem768x25519-sha256'', ''curve25519-sha256'', ''curve25519-sha256@libssh.org''] =
     Some ''curve25519-sha256'' \<and>
   select_kex_alg (MSG_KEXINIT # replicate 16 0 @
     put_string [] (str (''curve25519-sha256'' @ '','' @ ''mlkem768x25519-sha256'')) @ []) = Some MLKEM768_X25519"
proof
  let ?names = "str (''curve25519-sha256'' @ '','' @ ''mlkem768x25519-sha256'')"
  have "?names = str ''curve25519-sha256,'' @ str ''mlkem768x25519-sha256'' @ []"
    by (simp add: str_def)
  moreover have "last (str ''curve25519-sha256,'') = 44"
    by (simp add: str_def)
  ultimately have "csv_element (str ''mlkem768x25519-sha256'') ?names"
    unfolding csv_element_def by blast
  moreover have "length (put_string [] ?names @ []) < 2 ^ 32"
    by (simp add: put_string_def put_u32_def put_bytes_def)
  ultimately show "select_kex_alg (MSG_KEXINIT # replicate 16 0 @ put_string [] ?names @ []) =
      Some MLKEM768_X25519"
    using select_kex_alg_list [of "replicate 16 0" ?names "[]"] by simp
qed (simp add: rfc_choice_def)

end
