(* ===== verification/Userauth.thy ===== *)
theory Userauth
  imports Kex
begin

text \<open>
  User authentication of the server, \<open>esp-idf/src/sshd_session.cpp\<close>: the scan of the
  authorized keys, the replies, and the handlers of SERVICE\_REQUEST and USERAUTH\_REQUEST.
  The realm check \<open>authLogin\<close> of spangap-core is the parameter \<open>auth_ans\<close> of the world.
\<close>

section \<open>The authorized keys\<close>

definition ALG_NAME :: bytes where "ALG_NAME = str ''ssh-ed25519''"

definition authorized_keys_line :: "nat \<Rightarrow> string" where
  "authorized_keys_line i = ''s.sshd.authorized_keys.'' @ dec i @ ''.line''"

text \<open>The base64 field between the first two spaces; \<open>None\<close> when there is no space.\<close>

definition base64_field :: "bytes \<Rightarrow> bytes option" where
  "base64_field v =
     (let rest = dropWhile (\<lambda>b. b \<noteq> 32) v
      in if rest = [] then None else Some (takeWhile (\<lambda>b. b \<noteq> 32) (tl rest)))"

text \<open>Both strings of a key blob, when the first is the algorithm name and the second has the size given.\<close>

definition tagged_field :: "nat \<Rightarrow> bytes \<Rightarrow> bytes option" where
  "tagged_field want blob =
     (let (alg, v1) = get_string (view_init blob) in
      if alg \<noteq> Some ALG_NAME then None
      else case fst (get_string v1) of
             None \<Rightarrow> None
           | Some x \<Rightarrow> if length x \<noteq> want then None else Some x)"

text \<open>One round of the loop: whether the line gives the key.\<close>

definition line_matches :: "crypto \<Rightarrow> bytes \<Rightarrow> bytes \<Rightarrow> bool" where
  "line_matches c pub v =
     (if take 12 v \<noteq> str ''ssh-ed25519 '' then False
      else case base64_field v of
             None \<Rightarrow> False
           | Some b64 \<Rightarrow>
               (case mbedtls_base64_decode (mbed c) 80 b64 of
                  None \<Rightarrow> False
                | Some blob \<Rightarrow>
                    (case tagged_field 32 blob of None \<Rightarrow> False | Some candidate \<Rightarrow> candidate = pub)))"

fun authorized_scan :: "crypto \<Rightarrow> world \<Rightarrow> bytes \<Rightarrow> nat list \<Rightarrow> bool" where
  "authorized_scan c w pub [] = False"
| "authorized_scan c w pub (i # is) =
     (if line_matches c pub (cfg_str w (authorized_keys_line i)) then True else authorized_scan c w pub is)"

definition authorized_pub_matches :: "crypto \<Rightarrow> world \<Rightarrow> bytes \<Rightarrow> bool" where
  "authorized_pub_matches c w pub =
     authorized_scan c w pub [0..<cfg_count w ''s.sshd.authorized_keys.'']"

section \<open>Replies\<close>

definition send_userauth_failure :: "crypto \<Rightarrow> bool \<Rightarrow> conn \<Rightarrow> conn" where
  "send_userauth_failure c partial \<sigma> =
     send_packet c (put_u8 (put_cstring (put_u8 [] MSG_USERAUTH_FAILURE) ''publickey,password'')
       (if partial then 1 else 0)) \<sigma>"

definition send_userauth_success :: "crypto \<Rightarrow> conn \<Rightarrow> conn" where
  "send_userauth_success c \<sigma> =
     (let (s, w) = send_packet c (put_u8 [] MSG_USERAUTH_SUCCESS) \<sigma>
      in (s\<lparr>authed := True, phase := RUN\<rparr>, w))"

definition handle_service_request :: "crypto \<Rightarrow> bytes \<Rightarrow> conn \<Rightarrow> bool \<times> conn" where
  "handle_service_request c payload \<sigma> =
     (case fst (get_string (view_init payload)) of
        None \<Rightarrow> (False, send_disconnect c 2 ''bad SERVICE_REQUEST'' \<sigma>)
      | Some name \<Rightarrow>
          if name \<noteq> str ''ssh-userauth''
          then (False, send_disconnect c 7 ''only ssh-userauth supported'' \<sigma>)
          else (True, send_packet c (put_string (put_u8 [] MSG_SERVICE_ACCEPT) name) \<sigma>))"

section \<open>USERAUTH\_REQUEST\<close>

definition bad_userauth :: "crypto \<Rightarrow> conn \<Rightarrow> bool \<times> conn" where
  "bad_userauth c \<sigma> = (False, send_disconnect c 2 ''bad USERAUTH_REQUEST'' \<sigma>)"

text \<open>The data a public-key signature covers.\<close>

definition userauth_signed_data :: "bytes \<Rightarrow> bytes \<Rightarrow> bytes \<Rightarrow> bytes \<Rightarrow> bytes" where
  "userauth_signed_data sid userStr svcStr pkBlob =
     (let t1 = put_string [] (take 32 sid);
          t2 = put_u8 t1 MSG_USERAUTH_REQUEST;
          t3 = put_string t2 userStr;
          t4 = put_string t3 svcStr;
          t5 = put_cstring t4 ''publickey'';
          t6 = put_u8 t5 1;
          t7 = put_cstring t6 ''ssh-ed25519''
      in put_string t7 pkBlob)"

definition userauth_signature :: "crypto \<Rightarrow> bytes \<Rightarrow> bytes \<Rightarrow> bytes \<Rightarrow> bytes \<Rightarrow> view \<Rightarrow> conn \<Rightarrow> bool \<times> conn" where
  "userauth_signature c userStr svcStr pkBlob pub32 v \<sigma> =
     (case fst (get_string v) of
        None \<Rightarrow> bad_userauth c \<sigma>
      | Some sigBlob \<Rightarrow>
          (case tagged_field 64 sigBlob of
             None \<Rightarrow> (True, send_userauth_failure c False \<sigma>)
           | Some sig64 \<Rightarrow>
               if \<not> ed25519_verify c pub32 (userauth_signed_data (sessionId (fst \<sigma>)) userStr svcStr pkBlob) sig64
               then (True, send_userauth_failure c False \<sigma>)
               else (True, send_userauth_success c \<sigma>)))"

definition userauth_publickey :: "crypto \<Rightarrow> bytes \<Rightarrow> bytes \<Rightarrow> view \<Rightarrow> conn \<Rightarrow> bool \<times> conn" where
  "userauth_publickey c userStr svcStr v \<sigma> =
     (let (hasSig, v1) = get_u8 v; (alg, v2) = get_string v1 in
      case alg of
        None \<Rightarrow> bad_userauth c \<sigma>
      | Some algStr \<Rightarrow>
          (let (pk, v3) = get_string v2 in
           case pk of
             None \<Rightarrow> bad_userauth c \<sigma>
           | Some pkBlob \<Rightarrow>
               if algStr \<noteq> ALG_NAME then (True, send_userauth_failure c False \<sigma>)
               else (case tagged_field 32 pkBlob of
                       None \<Rightarrow> (True, send_userauth_failure c False \<sigma>)
                     | Some pub32 \<Rightarrow>
                         if \<not> authorized_pub_matches c (snd \<sigma>) pub32
                         then (True, send_userauth_failure c False \<sigma>)
                         else if hasSig = 0
                         then (True, send_packet c
                                (put_string (put_string (put_u8 [] MSG_USERAUTH_PK_OK) algStr) pkBlob) \<sigma>)
                         else userauth_signature c userStr svcStr pkBlob pub32 v3 \<sigma>)))"

definition userauth_password :: "crypto \<Rightarrow> view \<Rightarrow> conn \<Rightarrow> bool \<times> conn" where
  "userauth_password c v \<sigma> =
     (let (hasChange, v1) = get_u8 v in
      if hasChange \<noteq> 0 then (True, send_userauth_failure c False \<sigma>)
      else case fst (get_string v1) of
             None \<Rightarrow> bad_userauth c \<sigma>
           | Some pw \<Rightarrow>
               if auth_ans (snd \<sigma>) (c_str pw) then (True, send_userauth_success c \<sigma>)
               else (True, send_userauth_failure c False \<sigma>))"

definition handle_userauth_request :: "crypto \<Rightarrow> bytes \<Rightarrow> conn \<Rightarrow> bool \<times> conn" where
  "handle_userauth_request c payload \<sigma> =
     (let (usr, v1) = get_string (view_init payload) in
      case usr of None \<Rightarrow> bad_userauth c \<sigma> | Some userStr \<Rightarrow>
        (let (svc, v2) = get_string v1 in
         case svc of None \<Rightarrow> bad_userauth c \<sigma> | Some svcStr \<Rightarrow>
           (let (met, v3) = get_string v2 in
            case met of None \<Rightarrow> bad_userauth c \<sigma> | Some methodStr \<Rightarrow>
              (let (s, w) = \<sigma>; \<sigma>1 = (s\<lparr>user := userStr\<rparr>, w) in
               if methodStr = str ''publickey'' then userauth_publickey c userStr svcStr v3 \<sigma>1
               else if methodStr = str ''password'' then userauth_password c v3 \<sigma>1
               else (True, send_userauth_failure c False \<sigma>1)))))"

section \<open>What each path does to the session\<close>

lemma send_userauth_failure_fst:
  "fst (send_userauth_failure c b \<sigma>) =
     (if can_send (fst \<sigma>) then (fst \<sigma>)\<lparr>seqOut := seqOut (fst \<sigma>) + 1\<rparr> else fst \<sigma>)"
  by (simp add: send_userauth_failure_def send_packet_fst)

lemma send_userauth_success_fst:
  "fst (send_userauth_success c \<sigma>) =
     (fst (send_packet c (put_u8 [] MSG_USERAUTH_SUCCESS) \<sigma>))\<lparr>authed := True, phase := RUN\<rparr>"
  by (simp add: send_userauth_success_def split_beta Let_def)

text \<open>
  The four outcomes of authentication: a reply that changes nothing but the sequence number,
  a disconnect, or success; each on the session with the user name recorded or not.
\<close>

definition auth_outcome :: "session \<Rightarrow> bool \<Rightarrow> session \<Rightarrow> bool" where
  "auth_outcome s ok t \<longleftrightarrow>
     (\<exists>u n. t = s\<lparr>user := u, seqOut := n\<rparr> \<or> t = s\<lparr>user := u, seqOut := n, phase := CLOSED\<rparr> \<or>
        ok \<and> t = s\<lparr>user := u, seqOut := n, authed := True, phase := RUN\<rparr>)"

lemma auth_outcome_send:
  "auth_outcome (fst \<sigma>) ok (fst (send_packet c p \<sigma>))"
  "auth_outcome (fst \<sigma>) ok (fst (send_userauth_failure c b \<sigma>))"
  "auth_outcome (fst \<sigma>) ok (fst (send_disconnect c code msg \<sigma>))"
  "auth_outcome (fst \<sigma>) ok (fst (snd (bad_userauth c \<sigma>)))"
  "ok \<Longrightarrow> auth_outcome (fst \<sigma>) ok (fst (send_userauth_success c \<sigma>))"
proof -
  define n where "n = (if can_send (fst \<sigma>) then seqOut (fst \<sigma>) + 1 else seqOut (fst \<sigma>))"
  have n: "fst (send_packet c q \<sigma>) = (fst \<sigma>)\<lparr>user := user (fst \<sigma>), seqOut := n\<rparr>" for q
    by (simp add: send_packet_fst n_def)
  show "auth_outcome (fst \<sigma>) ok (fst (send_packet c p \<sigma>))"
    and "auth_outcome (fst \<sigma>) ok (fst (send_userauth_failure c b \<sigma>))"
    unfolding auth_outcome_def send_userauth_failure_def n by blast+
  show closed: "auth_outcome (fst \<sigma>) ok (fst (send_disconnect c code msg \<sigma>))" for code msg
    unfolding auth_outcome_def send_disconnect_fst n by (auto intro!: exI [of _ "user (fst \<sigma>)"] exI [of _ n])
  then show "auth_outcome (fst \<sigma>) ok (fst (snd (bad_userauth c \<sigma>)))"
    by (simp add: bad_userauth_def)
  show "ok \<Longrightarrow> auth_outcome (fst \<sigma>) ok (fst (send_userauth_success c \<sigma>))"
    unfolding auth_outcome_def send_userauth_success_fst n by (auto intro!: exI [of _ "user (fst \<sigma>)"] exI [of _ n])
qed

lemma auth_outcome_user: "auth_outcome (s\<lparr>user := u\<rparr>) ok t \<Longrightarrow> auth_outcome s ok t"
  by (auto simp: auth_outcome_def)

section \<open>Credentials\<close>

text \<open>
  What a successful request looks like on the wire: a signature with an authorized key over
  the data bound to this session, or a password the realm accepts.
\<close>

definition publickey_credential :: "crypto \<Rightarrow> world \<Rightarrow> bytes \<Rightarrow> bytes \<Rightarrow> bytes \<Rightarrow> bytes \<Rightarrow> bool" where
  "publickey_credential c w sid userStr svcStr r \<longleftrightarrow>
     (\<exists>hasSig pkBlob pub32 pkRest sigBlob sig64 sigRest rest.
        r = hasSig # put_string [] ALG_NAME @ put_string [] pkBlob @ put_string [] sigBlob @ rest \<and>
        hasSig \<noteq> 0 \<and> length pkBlob < 2 ^ 32 \<and> length sigBlob < 2 ^ 32 \<and>
        pkBlob = put_string [] ALG_NAME @ put_string [] pub32 @ pkRest \<and> length pub32 = 32 \<and>
        sigBlob = put_string [] ALG_NAME @ put_string [] sig64 @ sigRest \<and> length sig64 = 64 \<and>
        authorized_pub_matches c w pub32 \<and>
        ed25519_verify c pub32 (userauth_signed_data sid userStr svcStr pkBlob) sig64)"

definition password_credential :: "world \<Rightarrow> bytes \<Rightarrow> bool" where
  "password_credential w r \<longleftrightarrow>
     (\<exists>pw rest. r = 0 # put_string [] pw @ rest \<and> length pw < 2 ^ 32 \<and> auth_ans w (c_str pw))"

definition credential :: "crypto \<Rightarrow> world \<Rightarrow> bytes \<Rightarrow> bytes \<Rightarrow> bool" where
  "credential c w sid payload \<longleftrightarrow>
     (\<exists>userStr svcStr r. length userStr < 2 ^ 32 \<and> length svcStr < 2 ^ 32 \<and>
        (payload = put_string [] userStr @ put_string [] svcStr @ put_string [] (str ''publickey'') @ r \<and>
           publickey_credential c w sid userStr svcStr r \<or>
         payload = put_string [] userStr @ put_string [] svcStr @ put_string [] (str ''password'') @ r \<and>
           password_credential w r))"

lemma tagged_field_Some:
  assumes "tagged_field n blob = Some x" and "length blob < 2 ^ 32"
  obtains rest where "blob = put_string [] ALG_NAME @ put_string [] x @ rest" and "length x = n"
proof -
  obtain v1 where g1: "get_string (view_init blob) = (Some ALG_NAME, v1)"
    and x: "fst (get_string v1) = Some x" and len: "length x = n"
    using assms(1) by (auto simp: tagged_field_def split: prod.splits if_splits option.splits)
  have "view_wf (view_init blob)" and abs0: "view_abs (view_init blob) = Some blob"
    using assms(2) by simp_all
  then obtain r1 where r1: "blob = put_string [] ALG_NAME @ r1" "view_abs v1 = Some r1" "view_wf v1"
    using view_reader.gs_Some [OF _ g1] by auto
  obtain v2 where g2: "get_string v1 = (Some x, v2)"
    using x by (cases "get_string v1") auto
  from view_reader.gs_Some [OF r1(3) g2] obtain r2 where "r1 = put_string [] x @ r2"
    using r1(2) by auto
  then show thesis
    using r1(1) len that by simp
qed

lemma tagged_field_put:
  assumes "length (put_string [] ALG_NAME @ put_string [] x @ rest) < 2 ^ 32" and "length x = n"
  shows "tagged_field n (put_string [] ALG_NAME @ put_string [] x @ rest) = Some x"
proof -
  let ?blob = "put_string [] ALG_NAME @ put_string [] x @ rest"
  have len: "length ALG_NAME < 2 ^ 32" "length x < 2 ^ 32"
    using assms(1) by (simp_all add: put_string_def put_u32_def put_bytes_def)
  have "view_wf (view_init ?blob)" "view_abs (view_init ?blob) = Some ?blob"
    using assms(1) by simp_all
  then obtain v1 where v1: "get_string (view_init ?blob) = (Some ALG_NAME, v1)" "view_wf v1"
      "view_abs v1 = Some (put_string [] x @ rest)"
    using len(1) by (rule view_reader.gs_put)
  from v1(2,3) len(2) obtain v2 where "get_string v1 = (Some x, v2)"
    by (rule view_reader.gs_put)
  then show ?thesis
    using v1(1) assms(2) by (simp add: tagged_field_def)
qed

lemma publickey_credentialI:
  assumes "view_wf v" and "view_abs v = Some r" and "get_u8 v = (hasSig, v1)" and "hasSig \<noteq> 0"
    and "get_string v1 = (Some ALG_NAME, v2)" and "get_string v2 = (Some pkBlob, v3)"
    and "tagged_field 32 pkBlob = Some pub32" and "authorized_pub_matches c w pub32"
    and "fst (get_string v3) = Some sigBlob" and "tagged_field 64 sigBlob = Some sig64"
    and "ed25519_verify c pub32 (userauth_signed_data sid userStr svcStr pkBlob) sig64"
  shows "publickey_credential c w sid userStr svcStr r"
proof -
  obtain v4 where g4: "get_string v3 = (Some sigBlob, v4)"
    using assms(9) by (cases "get_string v3") auto
  have wf1: "view_wf v1"
    using view_reader.g8_Some(1) [OF assms(1,3)] .
  obtain r1 where r1: "view_abs v1 = Some (put_string [] ALG_NAME @ r1)" "view_abs v2 = Some r1" "view_wf v2"
    using view_reader.gs_Some [OF wf1 assms(5)] .
  obtain r2 where r2: "r1 = put_string [] pkBlob @ r2" "view_abs v3 = Some r2" "view_wf v3" "length pkBlob < 2 ^ 32"
    using view_reader.gs_Some [OF r1(3) assms(6)] r1(2) by auto
  obtain r3 where r3: "r2 = put_string [] sigBlob @ r3" "length sigBlob < 2 ^ 32"
    using view_reader.gs_Some [OF r2(3) g4] r2(2) by auto
  obtain pkRest where "pkBlob = put_string [] ALG_NAME @ put_string [] pub32 @ pkRest" "length pub32 = 32"
    using tagged_field_Some [OF assms(7) r2(4)] .
  moreover obtain sigRest where "sigBlob = put_string [] ALG_NAME @ put_string [] sig64 @ sigRest" "length sig64 = 64"
    using tagged_field_Some [OF assms(10) r3(2)] .
  moreover have "r = hasSig # put_string [] ALG_NAME @ put_string [] pkBlob @ put_string [] sigBlob @ r3"
    using view_reader.g8_Some(2) [OF assms(1,3) r1(1)] assms(2) r2(1) r3(1) by simp
  ultimately show ?thesis
    unfolding publickey_credential_def using assms(4,8,11) r2(4) r3(2) by blast
qed

lemma userauth_publickey_outcome:
  assumes "view_wf v" and "view_abs v = Some r"
  shows "auth_outcome (fst \<sigma>) (publickey_credential c (snd \<sigma>) (sessionId (fst \<sigma>)) userStr svcStr r)
    (fst (snd (userauth_publickey c userStr svcStr v \<sigma>)))"
  using publickey_credentialI [OF assms]
  by (auto simp: userauth_publickey_def userauth_signature_def Let_def
      split: prod.split option.split intro!: auth_outcome_send)

lemma userauth_password_outcome:
  assumes "view_wf v" and "view_abs v = Some r"
  shows "auth_outcome (fst \<sigma>) (password_credential (snd \<sigma>) r) (fst (snd (userauth_password c v \<sigma>)))"
proof -
  have cred: "password_credential (snd \<sigma>) r"
    if g: "get_u8 v = (0, v1)" and pw: "fst (get_string v1) = Some pw" and ok: "auth_ans (snd \<sigma>) (c_str pw)" for v1 pw
  proof -
    obtain v2 where g2: "get_string v1 = (Some pw, v2)"
      using pw by (cases "get_string v1") auto
    obtain r1 where "view_abs v1 = Some (put_string [] pw @ r1)" "length pw < 2 ^ 32"
      using view_reader.gs_Some [OF view_reader.g8_Some(1) [OF assms(1) g] g2] .
    then show ?thesis
      using view_reader.g8_Some(2) [OF assms(1) g] assms(2) ok
      unfolding password_credential_def by auto
  qed
  then show ?thesis
    by (auto simp: userauth_password_def Let_def split: prod.split option.split intro!: auth_outcome_send)
qed

lemma handle_userauth_outcome:
  assumes "length payload < 2 ^ 32"
  shows "auth_outcome s (credential c w (sessionId s) payload) (fst (snd (handle_userauth_request c payload (s, w))))"
proof -
  have wf: "view_wf (view_init payload)"
    using assms by simp
  have inner: "auth_outcome s (credential c w (sessionId s) payload)
      (fst (snd (if methodStr = str ''publickey'' then userauth_publickey c userStr svcStr v3 (s\<lparr>user := userStr\<rparr>, w)
        else if methodStr = str ''password'' then userauth_password c v3 (s\<lparr>user := userStr\<rparr>, w)
        else (True, send_userauth_failure c False (s\<lparr>user := userStr\<rparr>, w)))))"
    if g: "get_string (view_init payload) = (Some userStr, v1)" "get_string v1 = (Some svcStr, v2)"
      "get_string v2 = (Some methodStr, v3)" for userStr svcStr methodStr v1 v2 v3
  proof -
    let ?s = "s\<lparr>user := userStr\<rparr>"
    obtain r1 where r1: "payload = put_string [] userStr @ r1" "view_abs v1 = Some r1" "view_wf v1" "length userStr < 2 ^ 32"
      using view_reader.gs_Some [OF wf g(1)] by auto
    obtain r2 where r2: "r1 = put_string [] svcStr @ r2" "view_abs v2 = Some r2" "view_wf v2" "length svcStr < 2 ^ 32"
      using view_reader.gs_Some [OF r1(3) g(2)] r1(2) by auto
    obtain r3 where r3: "r2 = put_string [] methodStr @ r3" "view_abs v3 = Some r3" "view_wf v3"
      using view_reader.gs_Some [OF r2(3) g(3)] r2(2) by auto
    have pk: "publickey_credential c w (sessionId s) userStr svcStr r3 \<Longrightarrow> methodStr = str ''publickey'' \<Longrightarrow>
        credential c w (sessionId s) payload"
      and pw: "password_credential w r3 \<Longrightarrow> methodStr = str ''password'' \<Longrightarrow> credential c w (sessionId s) payload"
      unfolding credential_def using r1(1,4) r2(1,4) r3(1) by blast+
    have mono: "auth_outcome ?s a t \<Longrightarrow> (a \<Longrightarrow> b) \<Longrightarrow> auth_outcome s b t" for a b t
      by (rule auth_outcome_user [where u = userStr]) (auto simp: auth_outcome_def)
    show ?thesis
      using userauth_publickey_outcome [OF r3(3,2), of "(?s, w)" c userStr svcStr]
        userauth_password_outcome [OF r3(3,2), of "(?s, w)" c]
        auth_outcome_send(2) [of "(?s, w)" False c False] pk pw
      by (auto elim!: mono)
  qed
  show ?thesis
    using inner auth_outcome_send(4) [of "(s, w)"]
    by (auto simp: handle_userauth_request_def Let_def split: prod.split option.split)
qed

section \<open>A credential is accepted\<close>

lemma length_put_string [simp]: "length (put_string s d) = length s + 4 + length d"
  by (simp add: put_string_def put_u32_def put_bytes_def)

lemma length_ALG_NAME [simp]: "length ALG_NAME = 11"
  by (simp add: ALG_NAME_def)

lemma userauth_publickey_accepts:
  assumes "view_wf v" and "view_abs v = Some r"
    and "publickey_credential c (snd \<sigma>) (sessionId (fst \<sigma>)) userStr svcStr r"
  shows "userauth_publickey c userStr svcStr v \<sigma> = (True, send_userauth_success c \<sigma>)"
proof -
  obtain hasSig pkBlob pub32 pkRest sigBlob sig64 sigRest rest where
    r: "r = hasSig # put_string [] ALG_NAME @ put_string [] pkBlob @ put_string [] sigBlob @ rest"
    and hasSig: "hasSig \<noteq> 0" and len: "length pkBlob < 2 ^ 32" "length sigBlob < 2 ^ 32"
    and pk: "pkBlob = put_string [] ALG_NAME @ put_string [] pub32 @ pkRest" "length pub32 = 32"
    and sg: "sigBlob = put_string [] ALG_NAME @ put_string [] sig64 @ sigRest" "length sig64 = 64"
    and ok: "authorized_pub_matches c (snd \<sigma>) pub32"
      "ed25519_verify c pub32 (userauth_signed_data (sessionId (fst \<sigma>)) userStr svcStr pkBlob) sig64"
    using assms(3) unfolding publickey_credential_def by blast
  have "view_abs v = Some (put_u8 [] hasSig @ put_string [] ALG_NAME @ put_string [] pkBlob @ put_string [] sigBlob @ rest)"
    using assms(2) r by (simp add: put_u8_def)
  with assms(1) obtain v1 where v1: "get_u8 v = (hasSig, v1)" "view_wf v1"
      "view_abs v1 = Some (put_string [] ALG_NAME @ put_string [] pkBlob @ put_string [] sigBlob @ rest)"
    by (rule view_reader.g8_put)
  from v1(2,3) obtain v2 where v2: "get_string v1 = (Some ALG_NAME, v2)" "view_wf v2"
      "view_abs v2 = Some (put_string [] pkBlob @ put_string [] sigBlob @ rest)"
    by (rule view_reader.gs_put) simp
  from v2(2,3) len(1) obtain v3 where v3: "get_string v2 = (Some pkBlob, v3)" "view_wf v3"
      "view_abs v3 = Some (put_string [] sigBlob @ rest)"
    by (rule view_reader.gs_put)
  from v3(2,3) len(2) obtain v4 where v4: "get_string v3 = (Some sigBlob, v4)"
    by (rule view_reader.gs_put)
  have "tagged_field 32 pkBlob = Some pub32" and "tagged_field 64 sigBlob = Some sig64"
    using len pk sg by (simp_all add: tagged_field_put)
  then show ?thesis
    using v1 v2 v3 v4 hasSig ok by (simp add: userauth_publickey_def userauth_signature_def)
qed

lemma userauth_password_accepts:
  assumes "view_wf v" and "view_abs v = Some r" and "password_credential (snd \<sigma>) r"
  shows "userauth_password c v \<sigma> = (True, send_userauth_success c \<sigma>)"
proof -
  obtain pw rest where r: "r = 0 # put_string [] pw @ rest" and pw: "length pw < 2 ^ 32" "auth_ans (snd \<sigma>) (c_str pw)"
    using assms(3) unfolding password_credential_def by blast
  have "view_abs v = Some (put_u8 [] 0 @ put_string [] pw @ rest)"
    using assms(2) r by (simp add: put_u8_def)
  with assms(1) obtain v1 where v1: "get_u8 v = (0, v1)" "view_wf v1" "view_abs v1 = Some (put_string [] pw @ rest)"
    by (rule view_reader.g8_put)
  from v1(2,3) pw(1) obtain v2 where "get_string v1 = (Some pw, v2)"
    by (rule view_reader.gs_put)
  then show ?thesis
    using v1(1) pw(2) by (simp add: userauth_password_def)
qed

lemma three_strings:
  assumes "length payload < 2 ^ 32" and "payload = put_string [] a @ put_string [] b @ put_string [] d @ r"
    and "length a < 2 ^ 32" and "length b < 2 ^ 32" and "length d < 2 ^ 32"
  obtains v1 v2 v3 where "get_string (view_init payload) = (Some a, v1)" and "get_string v1 = (Some b, v2)"
    and "get_string v2 = (Some d, v3)" and "view_wf v3" and "view_abs v3 = Some r"
proof -
  have "view_wf (view_init payload)" and "view_abs (view_init payload) = Some (put_string [] a @ put_string [] b @ put_string [] d @ r)"
    using assms(1,2) by simp_all
  then obtain v1 where v1: "get_string (view_init payload) = (Some a, v1)" "view_wf v1"
      "view_abs v1 = Some (put_string [] b @ put_string [] d @ r)"
    using assms(3) by (rule view_reader.gs_put)
  from v1(2,3) assms(4) obtain v2 where v2: "get_string v1 = (Some b, v2)" "view_wf v2"
      "view_abs v2 = Some (put_string [] d @ r)"
    by (rule view_reader.gs_put)
  from v2(2,3) assms(5) obtain v3 where "get_string v2 = (Some d, v3)" "view_wf v3" "view_abs v3 = Some r"
    by (rule view_reader.gs_put)
  then show thesis
    using v1(1) v2(1) that by blast
qed

lemma handle_userauth_accepts:
  assumes "length payload < 2 ^ 32" and "credential c w (sessionId s) payload"
  obtains u where "handle_userauth_request c payload (s, w) = (True, send_userauth_success c (s\<lparr>user := u\<rparr>, w))"
proof -
  obtain userStr svcStr r met where len: "length userStr < 2 ^ 32" "length svcStr < 2 ^ 32"
    and payload: "payload = put_string [] userStr @ put_string [] svcStr @ put_string [] met @ r"
    and met: "met = str ''publickey'' \<and> publickey_credential c w (sessionId s) userStr svcStr r \<or>
      met = str ''password'' \<and> password_credential w r"
    using assms(2) unfolding credential_def by blast
  have len_met: "length met < 2 ^ 32"
    using met by auto
  obtain v1 v2 v3 where g: "get_string (view_init payload) = (Some userStr, v1)" "get_string v1 = (Some svcStr, v2)"
      "get_string v2 = (Some met, v3)" and v3: "view_wf v3" "view_abs v3 = Some r"
    using three_strings [OF assms(1) payload len len_met] .
  let ?\<sigma> = "(s\<lparr>user := userStr\<rparr>, w)"
  have "publickey_credential c w (sessionId s) userStr svcStr r \<Longrightarrow>
      userauth_publickey c userStr svcStr v3 ?\<sigma> = (True, send_userauth_success c ?\<sigma>)"
    and "password_credential w r \<Longrightarrow> userauth_password c v3 ?\<sigma> = (True, send_userauth_success c ?\<sigma>)"
    using userauth_publickey_accepts [OF v3, of c ?\<sigma>] userauth_password_accepts [OF v3, of ?\<sigma> c] by simp_all
  then have "handle_userauth_request c payload (s, w) = (True, send_userauth_success c ?\<sigma>)"
    using g met by (auto simp: handle_userauth_request_def)
  then show thesis
    by (rule that)
qed

text \<open>
  C2: Authentication succeeds exactly on credentials: a USERAUTH\_REQUEST turns an
  unauthenticated session into an authenticated one if and only if it is a public-key request
  whose key is on the authorized list and whose signature verifies over data that starts
  with this session's identifier, or a password request the realm accepts; and only then does
  the session enter the phase in which channels can be opened.
\<close>

theorem userauth_exactly_credentials:
  assumes "length payload < 2 ^ 32" and "\<not> authed s" and "phase s = AUTH"
  shows "(authed (fst (snd (handle_userauth_request c payload (s, w)))) \<longleftrightarrow>
      credential c w (sessionId s) payload) \<and>
    (phase (fst (snd (handle_userauth_request c payload (s, w)))) = RUN \<longleftrightarrow>
      credential c w (sessionId s) payload)"
proof (cases "credential c w (sessionId s) payload")
  case True
  obtain u where "handle_userauth_request c payload (s, w) = (True, send_userauth_success c (s\<lparr>user := u\<rparr>, w))"
    using handle_userauth_accepts [OF assms(1) True] .
  with True show ?thesis
    by (simp add: send_userauth_success_fst)
next
  case False
  then show ?thesis
    using handle_userauth_outcome [OF assms(1), of s c w] assms(2,3)
    by (auto simp: auth_outcome_def)
qed

theorem userauth_exactly_credentials_witness:
  "authed (fst (snd (handle_userauth_request sample_crypto
     (put_string [] (str ''root'') @ put_string [] (str ''ssh-connection'') @ put_string [] (str ''password'') @
      0 # put_string [] (str ''hunter2'')) (reset_session\<lparr>phase := AUTH, tcp := 3\<rparr>, sample_world))))"
proof -
  let ?r = "0 # put_string [] (str ''hunter2'') @ []"
  let ?p = "put_string [] (str ''root'') @ put_string [] (str ''ssh-connection'') @ put_string [] (str ''password'') @ ?r"
  have "c_str (str ''hunter2'') = str ''hunter2''"
    by (simp add: c_str_def str_def)
  then have "password_credential sample_world ?r"
    unfolding password_credential_def sample_world_def
    by (intro exI [of _ "str ''hunter2''"] exI [of _ "[]"]) simp
  then have "credential sample_crypto sample_world (sessionId (reset_session\<lparr>phase := AUTH, tcp := 3\<rparr>)) ?p"
    unfolding credential_def
    by (intro exI [of _ "str ''root''"] exI [of _ "str ''ssh-connection''"] exI [of _ ?r]) simp
  moreover have "length ?p < 2 ^ 32" "\<not> authed (reset_session\<lparr>phase := AUTH, tcp := 3\<rparr>)"
    by (simp_all add: reset_session_def)
  ultimately show ?thesis
    using userauth_exactly_credentials [of ?p "reset_session\<lparr>phase := AUTH, tcp := 3\<rparr>" sample_crypto sample_world]
    by simp
qed

text \<open>
  The data a client signs binds everything the server decides on: two requests with the
  same signed data have the same session identifier, user, service and key blob, so a
  signature made for one session cannot authenticate another.
\<close>

theorem userauth_signed_data_binding:
  assumes "length sid = 32" and "length sid' = 32" and "length u < 2 ^ 32" and "length u' < 2 ^ 32"
    and "length svc < 2 ^ 32" and "length svc' < 2 ^ 32" and "length pk < 2 ^ 32" and "length pk' < 2 ^ 32"
  shows "userauth_signed_data sid u svc pk = userauth_signed_data sid' u' svc' pk' \<longleftrightarrow>
    sid = sid' \<and> u = u' \<and> svc = svc' \<and> pk = pk'"
proof -
  have flat: "userauth_signed_data sd x y z =
      put_string [] (take 32 sd) @ MSG_USERAUTH_REQUEST # put_string [] x @ put_string [] y @
      put_string [] (str ''publickey'') @ 1 # put_string [] ALG_NAME @ put_string [] z @ []" for sd x y z
    by (simp add: userauth_signed_data_def Let_def put_string_def put_cstring_def put_u32_def put_bytes_def
        put_u8_def ALG_NAME_def)
  show ?thesis
    unfolding flat using assms put_string_inj [of sid sid' "[]" "[]"] put_string_inj [of pk pk' "[]" "[]"]
    by (simp add: put_string_inj)
qed

theorem userauth_signed_data_binding_witness:
  "userauth_signed_data (replicate 32 0) [1] [2] [3] \<noteq> userauth_signed_data (replicate 32 1) [1] [2] [3]"
  using userauth_signed_data_binding [of "replicate 32 0" "replicate 32 1" "[1]" "[1]" "[2]" "[2]" "[3]" "[3]"]
  by simp

section \<open>The authorized-keys scan\<close>

definition base64_laws :: "crypto \<Rightarrow> bool" where
  "base64_laws c \<longleftrightarrow> (\<forall>n x out. mbedtls_base64_decode (mbed c) n x = Some out \<longrightarrow> length out \<le> n)"

lemma authorized_scan_iff:
  "authorized_scan c w pub is \<longleftrightarrow> (\<exists>i \<in> set is. line_matches c pub (cfg_str w (authorized_keys_line i)))"
  by (induction "is") auto

lemma base64_field_line:
  assumes "take 12 v = str ''ssh-ed25519 ''"
  shows "base64_field v = Some (takeWhile (\<lambda>b. b \<noteq> 32) (drop 12 v))"
proof -
  have "v = str ''ssh-ed25519'' @ 32 # drop 12 v"
    using append_take_drop_id [of 12 v] assms by (simp add: str_def)
  moreover have "dropWhile (\<lambda>b. b \<noteq> 32) (str ''ssh-ed25519'' @ 32 # drop 12 v) = 32 # drop 12 v"
    by (subst dropWhile_append2) (auto simp: str_def)
  ultimately have "dropWhile (\<lambda>b. b \<noteq> 32) v = 32 # drop 12 v"
    by metis
  then show ?thesis
    by (simp add: base64_field_def)
qed

text \<open>
  C9: A key is accepted exactly when some stored line consists of the algorithm name, a
  base64 field that decodes (into the 80-byte buffer) to the blob of that very key, and
  nothing or a comment after a space.
\<close>

theorem authorized_pub_matches_iff:
  assumes "base64_laws c" and "length pub = 32"
  shows "authorized_pub_matches c w pub \<longleftrightarrow>
    (\<exists>i b64 comment blobRest blob.
       i < cfg_count w ''s.sshd.authorized_keys.'' \<and>
       cfg_str w (authorized_keys_line i) = str ''ssh-ed25519 '' @ b64 @ comment \<and>
       32 \<notin> set b64 \<and> (comment = [] \<or> hd comment = 32) \<and>
       mbedtls_base64_decode (mbed c) 80 b64 = Some blob \<and>
       blob = put_string [] ALG_NAME @ put_string [] pub @ blobRest)"
    (is "?l \<longleftrightarrow> ?r")
proof
  assume ?l
  then obtain i where i: "i < cfg_count w ''s.sshd.authorized_keys.''"
    and m: "line_matches c pub (cfg_str w (authorized_keys_line i))"
    by (auto simp: authorized_pub_matches_def authorized_scan_iff)
  define v where "v = cfg_str w (authorized_keys_line i)"
  define b64 where "b64 = takeWhile (\<lambda>b. b \<noteq> 32) (drop 12 v)"
  have t: "take 12 v = str ''ssh-ed25519 ''"
    using m by (auto simp: v_def line_matches_def split: if_splits)
  obtain blob where blob: "mbedtls_base64_decode (mbed c) 80 b64 = Some blob" "tagged_field 32 blob = Some pub"
    using m base64_field_line [OF t] by (auto simp: line_matches_def v_def [symmetric] b64_def split: if_splits option.splits)
  have "length blob < 2 ^ 32"
    using assms(1) blob(1) unfolding base64_laws_def by fastforce
  then obtain blobRest where "blob = put_string [] ALG_NAME @ put_string [] pub @ blobRest"
    using tagged_field_Some [OF blob(2)] by blast
  moreover have "v = str ''ssh-ed25519 '' @ b64 @ dropWhile (\<lambda>b. b \<noteq> 32) (drop 12 v)"
    using append_take_drop_id [of 12 v] t by (simp add: b64_def)
  moreover have "32 \<notin> set b64"
    unfolding b64_def by (auto dest: set_takeWhileD)
  moreover have "dropWhile (\<lambda>b. b \<noteq> 32) (drop 12 v) = [] \<or> hd (dropWhile (\<lambda>b. b \<noteq> 32) (drop 12 v)) = 32"
    using hd_dropWhile [of "\<lambda>b. b \<noteq> 32" "drop 12 v"] by blast
  ultimately show ?r
    using i blob(1) unfolding v_def by blast
next
  assume ?r
  then obtain i b64 comment blobRest blob where i: "i < cfg_count w ''s.sshd.authorized_keys.''"
    and v: "cfg_str w (authorized_keys_line i) = str ''ssh-ed25519 '' @ b64 @ comment"
    and b64: "32 \<notin> set b64" "comment = [] \<or> hd comment = 32"
    and dec: "mbedtls_base64_decode (mbed c) 80 b64 = Some blob"
    and blob: "blob = put_string [] ALG_NAME @ put_string [] pub @ blobRest"
    by blast
  have "takeWhile (\<lambda>b. b \<noteq> 32) (b64 @ comment) = b64 @ takeWhile (\<lambda>b. b \<noteq> 32) comment"
    using b64(1) by (intro takeWhile_append2) auto
  then have tw: "takeWhile (\<lambda>b. b \<noteq> 32) (b64 @ comment) = b64"
    using b64(2) by (cases comment) auto
  have "length blob < 2 ^ 32"
    using assms(1) dec unfolding base64_laws_def by fastforce
  then have "tagged_field 32 blob = Some pub"
    using assms(2) unfolding blob by (intro tagged_field_put)
  then have "line_matches c pub (str ''ssh-ed25519 '' @ b64 @ comment)"
    using base64_field_line [of "str ''ssh-ed25519 '' @ b64 @ comment"] tw dec by (simp add: line_matches_def)
  with i v show ?l
    by (force simp: authorized_pub_matches_def authorized_scan_iff)
qed

lemma sample_base64_laws: "base64_laws sample_crypto"
  by (simp add: base64_laws_def sample_crypto_def sample_mbedtls_def)

definition sample_key_world :: world where
  "sample_key_world = sample_world\<lparr>cfg_count := (\<lambda>_. 1), cfg_str := (\<lambda>_. str ''ssh-ed25519 '' @
     map (\<lambda>b. b XOR 0x80) (put_string [] ALG_NAME @ put_string [] (replicate 32 7)) @ str '' me'')\<rparr>"

theorem authorized_pub_matches_iff_witness:
  "authorized_pub_matches sample_crypto sample_key_world (replicate 32 7)"
proof -
  let ?blob = "put_string [] ALG_NAME @ put_string [] (replicate 32 7)"
  let ?b64 = "map (\<lambda>b. b XOR 0x80) ?blob"
  have "32 \<notin> set ?b64"
    by (simp add: ALG_NAME_def put_string_def put_u32_def put_bytes_def u32_be_def str_def)
  moreover have "mbedtls_base64_decode (mbed sample_crypto) 80 ?b64 = Some ?blob"
    by (simp add: sample_crypto_def sample_mbedtls_def comp_def xor.assoc)
  moreover have "str '' me'' \<noteq> [] \<and> hd (str '' me'') = 32"
    by (simp add: str_def)
  ultimately have "\<exists>i b64 comment blobRest blob.
       i < cfg_count sample_key_world ''s.sshd.authorized_keys.'' \<and>
       cfg_str sample_key_world (authorized_keys_line i) = str ''ssh-ed25519 '' @ b64 @ comment \<and>
       32 \<notin> set b64 \<and> (comment = [] \<or> hd comment = 32) \<and>
       mbedtls_base64_decode (mbed sample_crypto) 80 b64 = Some blob \<and>
       blob = put_string [] ALG_NAME @ put_string [] (replicate 32 7) @ blobRest"
    by (intro exI [of _ 0] exI [of _ ?b64] exI [of _ "str '' me''"] exI [of _ "[]"] exI [of _ ?blob])
      (simp add: sample_key_world_def)
  then show ?thesis
    using authorized_pub_matches_iff [OF sample_base64_laws, of "replicate 32 7" sample_key_world] by simp
qed

end
