(* ===== verification/Keystore.thy ===== *)
theory Keystore
  imports Userauth
begin

text \<open>
  The authorized-key store of \<open>esp-idf/src/sshd.cpp\<close>: validation, labels, and the operations
  add, remove and migrate on the array \<open>s.sshd.authorized_keys\<close>.

  The configuration store of spangap-core is not part of the repository: it is the record
  \<open>storage_api\<close> over an unknown state type, with its documented behaviour as the predicate
  \<open>storage_laws\<close>.
\<close>

section \<open>The configuration store\<close>

record 'st storage_api =
  storageGetStr :: "'st \<Rightarrow> string \<Rightarrow> bytes \<Rightarrow> bytes"
  storageGetInt :: "'st \<Rightarrow> string \<Rightarrow> int \<Rightarrow> int"
  storageArrayCount :: "'st \<Rightarrow> string \<Rightarrow> nat"
  storageSetStr :: "string \<Rightarrow> bytes \<Rightarrow> 'st \<Rightarrow> 'st"
  storageSetInt :: "string \<Rightarrow> int \<Rightarrow> 'st \<Rightarrow> 'st"
  storageUnset :: "string \<Rightarrow> 'st \<Rightarrow> 'st"
  storageDeleteTree :: "string \<Rightarrow> 'st \<Rightarrow> 'st"
  storageDefaultStr :: "string \<Rightarrow> bytes \<Rightarrow> 'st \<Rightarrow> 'st"
  storageDefaultInt :: "string \<Rightarrow> int \<Rightarrow> 'st \<Rightarrow> 'st"
  storageDefaultTree :: "string \<Rightarrow> bytes \<Rightarrow> 'st \<Rightarrow> 'st"
  storageBegin :: "'st \<Rightarrow> 'st"
  storageEnd :: "'st \<Rightarrow> 'st"

definition keys_prefix :: string where "keys_prefix = ''s.sshd.authorized_keys.''"

definition item_key :: "nat \<Rightarrow> string \<Rightarrow> string" where
  "item_key idx field = keys_prefix @ dec idx @ ''.'' @ field"

section \<open>Reading the store\<close>

definition keyCount :: "'st storage_api \<Rightarrow> 'st \<Rightarrow> nat" where
  "keyCount a st = storageArrayCount a st keys_prefix"

definition keyField :: "'st storage_api \<Rightarrow> 'st \<Rightarrow> nat \<Rightarrow> string \<Rightarrow> bytes" where
  "keyField a st idx field = storageGetStr a st (item_key idx field) []"

section \<open>Key lines\<close>

text \<open>\<open>isspace\<close> and \<open>isalnum\<close> of the C locale.\<close>

definition c_isspace :: "byte \<Rightarrow> bool" where
  "c_isspace b \<longleftrightarrow> b = 32 \<or> 9 \<le> b \<and> b \<le> 13"

definition c_isalnum :: "byte \<Rightarrow> bool" where
  "c_isalnum b \<longleftrightarrow> 48 \<le> b \<and> b \<le> 57 \<or> 65 \<le> b \<and> b \<le> 90 \<or> 97 \<le> b \<and> b \<le> 122"

definition keyNormalize :: "bytes \<Rightarrow> bytes" where
  "keyNormalize raw =
     (let line = dropWhile c_isspace raw in rev (dropWhile c_isspace (rev line)))"

text \<open>The first word of a line and what follows the space after it.\<close>

definition split_space :: "bytes \<Rightarrow> (bytes \<times> bytes) option" where
  "split_space line =
     (let w = takeWhile (\<lambda>b. b \<noteq> 32) line
      in if length w = length line then None else Some (w, drop (length w + 1) line))"

definition keyLabel :: "bytes \<Rightarrow> bytes" where
  "keyLabel line =
     (case split_space line of
        None \<Rightarrow> line
      | Some (type, rest) \<Rightarrow>
          let (blob, comment) = (case split_space rest of None \<Rightarrow> (rest, []) | Some (b, c) \<Rightarrow> (b, c));
              tail = (if length blob > 12 then [0xE2, 0x80, 0xA6] @ drop (length blob - 12) blob else blob)
          in type @ [32] @ tail @ (if comment = [] then [] else [32, 32] @ comment))"

definition base64_char :: "byte \<Rightarrow> bool" where
  "base64_char ch \<longleftrightarrow> c_isalnum ch \<or> ch = of_char (CHR ''+'') \<or> ch = of_char (CHR ''/'') \<or> ch = of_char (CHR ''='')"

text \<open>The reason a line is unacceptable, empty when it is fine.\<close>

definition keyRejection :: "bytes \<Rightarrow> bytes" where
  "keyRejection raw =
     (let line = keyNormalize raw in
      if line = [] then str ''Empty.''
      else case split_space line of
             None \<Rightarrow> str ''Expected: ssh-ed25519 <base64> [comment]''
           | Some (type, rest) \<Rightarrow>
               if type \<noteq> str ''ssh-ed25519''
               then str ''Only ssh-ed25519 keys are accepted (got '' @ [34] @ type @ [34] @ str '').''
               else let blob = (case split_space rest of None \<Rightarrow> rest | Some (b, _) \<Rightarrow> b) in
                    if \<not> list_all base64_char blob then str ''Key body is not valid base64.''
                    else if length blob < 64 then str ''Key body looks too short for ed25519.''
                    else [])"

section \<open>Operations\<close>

definition keyWrite :: "'st storage_api \<Rightarrow> nat \<Rightarrow> bytes \<Rightarrow> bytes \<Rightarrow> 'st \<Rightarrow> 'st" where
  "keyWrite a idx ident line st =
     (let st1 = storageSetStr a (item_key idx ''id'') (c_str ident) st;
          st2 = storageSetStr a (item_key idx ''line'') (c_str line) st1
      in storageSetStr a (item_key idx ''label'') (c_str (keyLabel line)) st2)"

text \<open>
  \<open>atoi\<close>: leading space, a sign, and the digits up to the first other character, as a C \<open>int\<close>.
  C leaves both a number outside that type and the overflow of \<open>best + 1\<close> undefined; the model
  wraps there, and no property below uses it outside the range in which both are defined.
\<close>

type_synonym c_int = "32 word"

definition digit_val :: "byte \<Rightarrow> int" where "digit_val b = uint b - 48"

definition c_isdigit :: "byte \<Rightarrow> bool" where "c_isdigit b \<longleftrightarrow> 48 \<le> b \<and> b \<le> 57"

definition atoi_val :: "bytes \<Rightarrow> int" where
  "atoi_val bs =
     (let t = dropWhile c_isspace (c_str bs);
          digits = (\<lambda>ds. foldl (\<lambda>n d. 10 * n + digit_val d) 0 (takeWhile c_isdigit ds))
      in case t of
           [] \<Rightarrow> 0
         | ch # r \<Rightarrow> if ch = 45 then - digits r else if ch = 43 then digits r else digits t)"

definition atoi :: "bytes \<Rightarrow> c_int" where
  "atoi bs = word_of_int (atoi_val bs)"

fun best_id :: "'st storage_api \<Rightarrow> 'st \<Rightarrow> nat list \<Rightarrow> c_int \<Rightarrow> c_int" where
  "best_id a st [] best = best"
| "best_id a st (i # is) best =
     (let v = atoi (keyField a st i ''id'') in best_id a st is (if sint v > sint best then v else best))"

definition keyNextId :: "'st storage_api \<Rightarrow> 'st \<Rightarrow> bytes" where
  "keyNextId a st = str (dec_int (sint (best_id a st [0..<keyCount a st] 0 + 1)))"

text \<open>The static counter of the source is passed along.\<close>

definition keyAck :: "'st storage_api \<Rightarrow> int \<times> 'st \<Rightarrow> int \<times> 'st" where
  "keyAck a s = (case s of (ack, st) \<Rightarrow> (ack + 1, storageSetInt a ''sshd.key.done'' (ack + 1) st))"

fun index_of :: "(nat \<Rightarrow> bool) \<Rightarrow> nat list \<Rightarrow> nat option" where
  "index_of p [] = None"
| "index_of p (i # is) = (if p i then Some i else index_of p is)"

definition keyIndexOfId :: "'st storage_api \<Rightarrow> 'st \<Rightarrow> bytes \<Rightarrow> nat option" where
  "keyIndexOfId a st ident = index_of (\<lambda>i. keyField a st i ''id'' = ident) [0..<keyCount a st]"

definition keyAdd :: "'st storage_api \<Rightarrow> bytes \<Rightarrow> int \<times> 'st \<Rightarrow> int \<times> 'st" where
  "keyAdd a raw s =
     (case s of (ack, st) \<Rightarrow>
      let line = keyNormalize raw; why = keyRejection line in
      if why \<noteq> [] then (ack, storageSetStr a ''sshd.key.error'' (c_str why) st)
      else let n = keyCount a st in
           if index_of (\<lambda>i. keyField a st i ''line'' = line) [0..<n] \<noteq> None
           then (ack, storageSetStr a ''sshd.key.error'' (str ''That key is already authorized.'') st)
           else let st1 = storageBegin a st;
                    st2 = keyWrite a n (keyNextId a st1) line st1;
                    st3 = storageSetStr a ''sshd.key.error'' [] st2
                in keyAck a (ack, storageEnd a st3))"

text \<open>The loop that moves every later entry one down.\<close>

fun shift_down :: "'st storage_api \<Rightarrow> nat list \<Rightarrow> 'st \<Rightarrow> 'st" where
  "shift_down a [] st = st"
| "shift_down a (i # is) st =
     shift_down a is (keyWrite a i (keyField a st (i + 1) ''id'') (keyField a st (i + 1) ''line'') st)"

definition keyRemove :: "'st storage_api \<Rightarrow> bytes \<Rightarrow> int \<times> 'st \<Rightarrow> int \<times> 'st" where
  "keyRemove a ident s =
     (case s of (ack, st) \<Rightarrow>
      let n = keyCount a st in
      case keyIndexOfId a st ident of
        None \<Rightarrow> (ack, storageSetStr a ''sshd.key.error'' (str ''No such key.'') st)
      | Some idx \<Rightarrow>
          let st1 = storageBegin a st;
              st2 = shift_down a [idx..<n - 1] st1;
              st3 = storageUnset a (keys_prefix @ dec (n - 1)) st2;
              st4 = storageSetStr a ''sshd.key.error'' [] st3
          in keyAck a (ack, storageEnd a st4))"

text \<open>The old flat lines, when every element is still a scalar.\<close>

fun flat_lines :: "'st storage_api \<Rightarrow> 'st \<Rightarrow> nat list \<Rightarrow> bytes list option" where
  "flat_lines a st [] = Some []"
| "flat_lines a st (i # is) =
     (let flat = storageGetStr a st (keys_prefix @ dec i) []
      in if flat = [] then None else map_option (Cons flat) (flat_lines a st is))"

fun write_lines :: "'st storage_api \<Rightarrow> nat \<Rightarrow> bytes list \<Rightarrow> 'st \<Rightarrow> 'st" where
  "write_lines a i [] st = st"
| "write_lines a i (l # ls) st = write_lines a (i + 1) ls (keyWrite a i (str (dec (i + 1))) l st)"

definition keyMigrate :: "'st storage_api \<Rightarrow> 'st \<Rightarrow> 'st" where
  "keyMigrate a st =
     (let n = keyCount a st in
      if n = 0 then st
      else case flat_lines a st [0..<n] of
             None \<Rightarrow> st
           | Some ls \<Rightarrow>
               storageEnd a (write_lines a 0 ls (storageDeleteTree a ''s.sshd.authorized_keys'' (storageBegin a st))))"

text \<open>
  The sentinels the settings form writes; \<open>json_line\<close> stands for the cJSON calls that extract
  the string member \<open>line\<close> of the submitted object.
\<close>

definition keySentinel :: "'st storage_api \<Rightarrow> (bytes \<Rightarrow> bytes option) \<Rightarrow> string \<Rightarrow> bytes \<Rightarrow> int \<times> 'st \<Rightarrow> int \<times> 'st" where
  "keySentinel a json_line key val s =
     (if val = [] then s
      else if key = ''sshd.key.add'' then
        (case keyAdd a (case json_line val of None \<Rightarrow> [] | Some l \<Rightarrow> l) s of
           (ack, st) \<Rightarrow> (ack, storageSetStr a ''sshd.key.add'' [] st))
      else if key = ''sshd.key.remove'' then
        (case keyRemove a val s of (ack, st) \<Rightarrow> (ack, storageSetStr a ''sshd.key.remove'' [] st))
      else s)"

section \<open>Documented behaviour of the store\<close>

definition item_fields :: "string set" where "item_fields = {''id'', ''line'', ''label''}"

definition sentinel_keys :: "string set" where
  "sentinel_keys = {''sshd.key.error'', ''sshd.key.add'', ''sshd.key.remove''}"

text \<open>
  A written field is read back and leaves the others alone; the array has as many elements as
  were written from the front; removing the last element shortens it by one; the transaction
  brackets change nothing that is read.  (The operations below never read a key they have
  written in the same call, so it does not matter to them whether a pending write is already
  visible.)
\<close>

definition storage_laws :: "'st storage_api \<Rightarrow> bool" where
  "storage_laws a \<longleftrightarrow>
     (\<forall>st i f v j g. f \<in> item_fields \<longrightarrow> g \<in> item_fields \<longrightarrow>
        keyField a (storageSetStr a (item_key i f) v st) j g = (if i = j \<and> f = g then v else keyField a st j g)) \<and>
     (\<forall>st i f v. f \<in> item_fields \<longrightarrow> i \<le> keyCount a st \<longrightarrow>
        keyCount a (storageSetStr a (item_key i f) v st) = max (keyCount a st) (i + 1)) \<and>
     (\<forall>st k v. k \<in> sentinel_keys \<longrightarrow> keyField a (storageSetStr a k v st) = keyField a st \<and>
        keyCount a (storageSetStr a k v st) = keyCount a st \<and> storageGetStr a (storageSetStr a k v st) k [] = v) \<and>
     (\<forall>st v. keyField a (storageSetInt a ''sshd.key.done'' v st) = keyField a st \<and>
        keyCount a (storageSetInt a ''sshd.key.done'' v st) = keyCount a st \<and>
        storageGetStr a (storageSetInt a ''sshd.key.done'' v st) ''sshd.key.error'' [] =
          storageGetStr a st ''sshd.key.error'' []) \<and>
     (\<forall>st n. keyCount a st = Suc n \<longrightarrow> keyCount a (storageUnset a (keys_prefix @ dec n) st) = n \<and>
        (\<forall>j g. j < n \<longrightarrow> g \<in> item_fields \<longrightarrow>
           keyField a (storageUnset a (keys_prefix @ dec n) st) j g = keyField a st j g)) \<and>
     (\<forall>st. keyCount a (storageDeleteTree a ''s.sshd.authorized_keys'' st) = 0) \<and>
     (\<forall>st. storageGetStr a (storageBegin a st) = storageGetStr a st \<and>
        storageArrayCount a (storageBegin a st) = storageArrayCount a st \<and>
        storageGetStr a (storageEnd a st) = storageGetStr a st \<and>
        storageArrayCount a (storageEnd a st) = storageArrayCount a st)"

lemma fields_in [simp]: "''id'' \<in> item_fields" "''line'' \<in> item_fields" "''label'' \<in> item_fields"
  by (simp_all add: item_fields_def)

lemma sentinels_in [simp]:
  "''sshd.key.error'' \<in> sentinel_keys" "''sshd.key.add'' \<in> sentinel_keys" "''sshd.key.remove'' \<in> sentinel_keys"
  by (simp_all add: sentinel_keys_def)

lemma storage_lawsD:
  assumes "storage_laws a"
  shows "f \<in> item_fields \<Longrightarrow> g \<in> item_fields \<Longrightarrow>
      keyField a (storageSetStr a (item_key i f) v st) j g = (if i = j \<and> f = g then v else keyField a st j g)"
    and "f \<in> item_fields \<Longrightarrow> i \<le> keyCount a st \<Longrightarrow>
      keyCount a (storageSetStr a (item_key i f) v st) = max (keyCount a st) (i + 1)"
    and "k \<in> sentinel_keys \<Longrightarrow> keyField a (storageSetStr a k v st) = keyField a st"
    and "k \<in> sentinel_keys \<Longrightarrow> keyCount a (storageSetStr a k v st) = keyCount a st"
    and "k \<in> sentinel_keys \<Longrightarrow> storageGetStr a (storageSetStr a k v st) k [] = v"
    and "keyField a (storageSetInt a ''sshd.key.done'' n st) = keyField a st"
    and "keyCount a (storageSetInt a ''sshd.key.done'' n st) = keyCount a st"
    and "storageGetStr a (storageSetInt a ''sshd.key.done'' n st) ''sshd.key.error'' [] =
      storageGetStr a st ''sshd.key.error'' []"
    and "keyCount a st = Suc m \<Longrightarrow> keyCount a (storageUnset a (keys_prefix @ dec m) st) = m"
    and "keyCount a st = Suc m \<Longrightarrow> j < m \<Longrightarrow> g \<in> item_fields \<Longrightarrow>
      keyField a (storageUnset a (keys_prefix @ dec m) st) j g = keyField a st j g"
    and "keyCount a (storageDeleteTree a ''s.sshd.authorized_keys'' st) = 0"
  using assms unfolding storage_laws_def by (elim conjE, simp)+

lemma storage_brackets:
  assumes "storage_laws a"
  shows "keyField a (storageBegin a st) = keyField a st" and "keyField a (storageEnd a st) = keyField a st"
    and "keyCount a (storageBegin a st) = keyCount a st" and "keyCount a (storageEnd a st) = keyCount a st"
    and "storageGetStr a (storageEnd a st) = storageGetStr a st"
  using assms unfolding storage_laws_def by (simp_all add: keyField_def keyCount_def fun_eq_iff)

section \<open>The store as a list of keys\<close>

definition entries :: "'st storage_api \<Rightarrow> 'st \<Rightarrow> (bytes \<times> bytes) list" where
  "entries a st = map (\<lambda>i. (keyField a st i ''id'', keyField a st i ''line'')) [0..<keyCount a st]"

lemma length_entries [simp]: "length (entries a st) = keyCount a st"
  by (simp add: entries_def)

lemma nth_entries: "i < keyCount a st \<Longrightarrow> entries a st ! i = (keyField a st i ''id'', keyField a st i ''line'')"
  by (simp add: entries_def)

lemma entries_cong: "keyField a st = keyField a st' \<Longrightarrow> keyCount a st = keyCount a st' \<Longrightarrow> entries a st = entries a st'"
  by (simp add: entries_def)

lemma keyWrite_field:
  assumes "storage_laws a"
  shows "keyField a (keyWrite a idx ident line st) j ''id'' = (if idx = j then c_str ident else keyField a st j ''id'')"
    and "keyField a (keyWrite a idx ident line st) j ''line'' = (if idx = j then c_str line else keyField a st j ''line'')"
    and "keyField a (keyWrite a idx ident line st) j ''label'' =
      (if idx = j then c_str (keyLabel line) else keyField a st j ''label'')"
  by (simp_all add: keyWrite_def Let_def storage_lawsD(1) [OF assms])

lemma keyWrite_count:
  assumes "storage_laws a" and "idx \<le> keyCount a st"
  shows "keyCount a (keyWrite a idx ident line st) = max (keyCount a st) (idx + 1)"
  using assms(2) by (simp add: keyWrite_def Let_def storage_lawsD(2) [OF assms(1)])

lemma keyWrite_append:
  assumes "storage_laws a" and "idx = keyCount a st"
  shows "entries a (keyWrite a idx ident line st) = entries a st @ [(c_str ident, c_str line)]"
  by (rule nth_equalityI)
    (auto simp: keyWrite_count assms nth_entries keyWrite_field nth_append less_Suc_eq)

lemma keyWrite_update:
  assumes "storage_laws a" and "idx < keyCount a st"
  shows "entries a (keyWrite a idx ident line st) = (entries a st)[idx := (c_str ident, c_str line)]"
  using assms(2)
  by (intro nth_equalityI) (auto simp: keyWrite_count assms(1) nth_entries keyWrite_field nth_list_update)

lemma index_of_Some: "index_of p is = Some i \<Longrightarrow> i \<in> set is \<and> p i"
  by (induction "is") (auto split: if_splits)

lemma index_of_None: "index_of p is = None \<longleftrightarrow> (\<forall>i \<in> set is. \<not> p i)"
  by (induction "is") auto

lemma index_of_least:
  assumes "index_of p [0..<n] = Some i"
  shows "i < n" and "p i" and "\<And>j. j < i \<Longrightarrow> \<not> p j"
proof -
  show "i < n" and "p i"
    using index_of_Some [OF assms] by simp_all
  have "index_of p [k..<n] = Some i \<Longrightarrow> k \<le> j \<Longrightarrow> j < i \<Longrightarrow> \<not> p j" for j k
  proof (induction "n - k" arbitrary: k)
    case (Suc d)
    then have up: "[k..<n] = k # [Suc k..<n]"
      by (simp add: upt_conv_Cons)
    then have "\<not> p k" if "k < i"
      using Suc.prems(1) that by (auto split: if_splits)
    then show ?case
      using Suc.hyps(1) [of "Suc k"] Suc.hyps(2) Suc.prems up by (cases "j = k") (auto split: if_splits)
  qed simp
  with assms show "\<And>j. j < i \<Longrightarrow> \<not> p j"
    by blast
qed

text \<open>Entries have no NUL in them: each went through a C string.\<close>

definition entries_clean :: "'st storage_api \<Rightarrow> 'st \<Rightarrow> bool" where
  "entries_clean a st \<longleftrightarrow> (\<forall>(x, l) \<in> set (entries a st). c_str x = x \<and> c_str l = l)"

lemma shift_down_entries:
  assumes "storage_laws a" and "entries_clean a st" and "k < keyCount a st" and "keyCount a st = Suc m"
  shows "keyCount a (shift_down a [k..<m] st) = keyCount a st \<and>
    take m (entries a (shift_down a [k..<m] st)) = take k (entries a st) @ drop (k + 1) (entries a st)"
  using assms(2-)
proof (induction "m - k" arbitrary: k st)
  case 0
  then have "k = m"
    by simp
  then show ?case
    using 0 by simp
next
  case (Suc d)
  then have km: "k < m"
    by simp
  let ?st = "keyWrite a k (keyField a st (k + 1) ''id'') (keyField a st (k + 1) ''line'') st"
  have "(keyField a st (k + 1) ''id'', keyField a st (k + 1) ''line'') \<in> set (entries a st)"
    using km Suc.prems(3) nth_entries [of "k + 1" a st] nth_mem [of "k + 1" "entries a st"] by simp
  then have clean1: "c_str (keyField a st (k + 1) ''id'') = keyField a st (k + 1) ''id''"
      "c_str (keyField a st (k + 1) ''line'') = keyField a st (k + 1) ''line''"
    using Suc.prems(1) by (auto simp: entries_clean_def)
  have ent: "entries a ?st = (entries a st)[k := entries a st ! (k + 1)]"
    using keyWrite_update [OF assms(1) Suc.prems(2)] clean1 km Suc.prems(3) by (simp add: nth_entries)
  have cnt: "keyCount a ?st = keyCount a st"
    using keyWrite_count [OF assms(1), of k st] Suc.prems(2) by simp
  have "entries_clean a ?st"
    using Suc.prems(1,3) km unfolding entries_clean_def ent
    by (auto dest!: subsetD [OF set_update_subset_insert] simp: nth_entries clean1 [simplified])
  then have ih: "keyCount a (shift_down a [k + 1..<m] ?st) = keyCount a ?st \<and>
      take m (entries a (shift_down a [k + 1..<m] ?st)) = take (k + 1) (entries a ?st) @ drop (k + 1 + 1) (entries a ?st)"
    using Suc km cnt by (intro Suc.hyps(1)) simp_all
  have "take (k + 1) (entries a ?st) @ drop (k + 1 + 1) (entries a ?st) = take k (entries a st) @ drop (k + 1) (entries a st)"
  proof -
    have "k + 1 < length (entries a st)"
      using km Suc.prems(3) by simp
    then show ?thesis
      unfolding ent by (simp add: take_Suc_conv_app_nth Cons_nth_drop_Suc del: length_entries)
  qed
  then show ?case
    using ih cnt km by (simp add: upt_conv_Cons)
qed

section \<open>The contract of a keyed list\<close>

text \<open>
  What the rest of the server relies on: the state has a list of identified values; adding
  appends a value, under an identifier that was not there as long as there is room for one,
  removing deletes the first entry of an identifier, and both keep the representation invariant
  and the distinctness of identifiers.
\<close>

fun drop_first :: "'i \<Rightarrow> ('i \<times> 'v) list \<Rightarrow> ('i \<times> 'v) list" where
  "drop_first x [] = []"
| "drop_first x ((i, v) # es) = (if i = x then es else (i, v) # drop_first x es)"

lemma drop_first_absent: "x \<notin> fst ` set es \<Longrightarrow> drop_first x es = es"
  by (induction es) auto

lemma drop_first_at:
  "k < length es \<Longrightarrow> fst (es ! k) = x \<Longrightarrow> (\<And>j. j < k \<Longrightarrow> fst (es ! j) \<noteq> x) \<Longrightarrow>
     drop_first x es = take k es @ drop (k + 1) es"
proof (induction es arbitrary: k)
  case (Cons e es)
  then show ?case
  proof (cases k)
    case (Suc k')
    then have "fst e \<noteq> x"
      using Cons.prems(3) [of 0] by simp
    moreover have "fst (es ! j) \<noteq> x" if "j < k'" for j
      using Cons.prems(3) [of "Suc j"] Suc that by simp
    ultimately show ?thesis
      using Cons Suc by (cases e) simp
  qed (cases e; simp)
qed simp

lemma set_drop_first: "set (drop_first x es) \<subseteq> set es"
  by (induction x es rule: drop_first.induct) auto

lemma distinct_drop_first: "distinct (map fst es) \<Longrightarrow> distinct (map fst (drop_first x es))"
  using set_drop_first by (induction x es rule: drop_first.induct) (auto simp: image_iff, force)

lemma drop_first_distinct:
  "distinct (map fst es) \<Longrightarrow> set (drop_first x es) = {e \<in> set es. fst e \<noteq> x}"
  by (induction x es rule: drop_first.induct) (auto simp: image_iff)

locale keyed_list =
  fixes inv :: "'s \<Rightarrow> bool"
    and room :: "'s \<Rightarrow> bool"
    and items :: "'s \<Rightarrow> ('i \<times> 'v) list"
    and fresh :: "'s \<Rightarrow> 'i"
    and put :: "'v \<Rightarrow> 's \<Rightarrow> 's"
    and del :: "'i \<Rightarrow> 's \<Rightarrow> 's"
    and valid :: "'v \<Rightarrow> bool"
  assumes put_items: "inv s \<Longrightarrow> valid v \<Longrightarrow>
      items (put v s) = (if v \<in> snd ` set (items s) then items s else items s @ [(fresh s, v)])"
    and put_inv: "inv s \<Longrightarrow> valid v \<Longrightarrow> inv (put v s)"
    and fresh_new: "inv s \<Longrightarrow> room s \<Longrightarrow> fresh s \<notin> fst ` set (items s)"
    and del_items: "inv s \<Longrightarrow> items (del i s) = drop_first i (items s)"
    and del_inv: "inv s \<Longrightarrow> inv (del i s)"
begin

lemma put_distinct:
  "inv s \<Longrightarrow> room s \<Longrightarrow> valid v \<Longrightarrow> distinct (map fst (items s)) \<Longrightarrow> distinct (map fst (items (put v s)))"
  using fresh_new [of s] by (auto simp: put_items)

lemma put_values:
  "inv s \<Longrightarrow> valid v \<Longrightarrow> snd ` set (items (put v s)) = insert v (snd ` set (items s))"
  by (auto simp: put_items)

lemma put_values_distinct:
  "inv s \<Longrightarrow> valid v \<Longrightarrow> distinct (map snd (items s)) \<Longrightarrow> distinct (map snd (items (put v s)))"
  by (auto simp: put_items)

lemma del_put:
  assumes "inv s" and "room s" and "valid v" and "v \<notin> snd ` set (items s)"
  shows "items (del (fresh s) (put v s)) = items s"
proof -
  have "items (del (fresh s) (put v s)) = drop_first (fresh s) (items s @ [(fresh s, v)])"
    using assms by (simp add: del_items put_inv put_items)
  moreover have "drop_first x (es @ [(x, v)]) = es" if "x \<notin> fst ` set es" for x and es :: "('i \<times> 'v) list"
    using that by (induction es) auto
  ultimately show ?thesis
    using fresh_new [OF assms(1,2)] by simp
qed

lemma del_gone:
  "inv s \<Longrightarrow> distinct (map fst (items s)) \<Longrightarrow> set (items (del i s)) = {e \<in> set (items s). fst e \<noteq> i}"
  by (simp add: del_items drop_first_distinct)

end

section \<open>Fresh identifiers\<close>

lemma dec_chars: "ch \<in> set (dec n) \<Longrightarrow> 48 \<le> (of_char ch :: nat) \<and> (of_char ch :: nat) \<le> 57"
proof (induction n rule: dec.induct)
  case (1 n)
  from "1.prems" have "(10 \<le> n \<and> ch \<in> set (dec (n div 10))) \<or> ch = char_of (48 + n mod 10)"
    by (subst (asm) dec.simps) (auto split: if_splits)
  then show ?case
    using "1.IH" by (auto simp: of_char_of)
qed

lemma dec_bytes:
  assumes "b \<in> set (str (dec n))"
  shows "c_isdigit b \<and> \<not> c_isspace b \<and> b \<noteq> 0 \<and> b \<noteq> 45 \<and> b \<noteq> 43"
proof -
  obtain ch where ch: "ch \<in> set (dec n)" "b = of_char ch"
    using assms by (auto simp: str_def)
  have "b = of_nat (of_char ch)"
    unfolding ch(2) by (rule of_nat_of_char [symmetric])
  then have "unat b = of_char ch"
    by (simp only: unat_of_nat) simp
  then have "48 \<le> unat b" "unat b \<le> 57"
    using dec_chars [OF ch(1)] by simp_all
  then show ?thesis
    by (auto simp: c_isdigit_def c_isspace_def word_le_nat_alt)
qed

lemma dec_not_Nil [simp]: "dec n \<noteq> []"
  by (subst dec.simps) simp

lemma c_str_dec: "c_str (str (dec n)) = str (dec n)"
  using dec_bytes by (auto simp: c_str_def takeWhile_eq_all_conv)

lemma atoi_digits: "atoi_val (str (dec n)) = int n"
proof -
  have val: "foldl (\<lambda>n d. 10 * n + digit_val d) 0 (str (dec n)) = int n" for n
  proof (induction n rule: dec.induct)
    case (1 n)
    have one: "digit_val (of_char (char_of (48 + k :: nat))) = int k" if "k < 10" for k
    proof -
      have "(of_char (char_of (48 + k :: nat)) :: byte) = of_nat (of_char (char_of (48 + k :: nat)))"
        by (rule of_nat_of_char [symmetric])
      then have "unat (of_char (char_of (48 + k :: nat)) :: byte) = 48 + k"
        using that by (simp only: unat_of_nat) (simp add: of_char_of)
      then have "int (unat (of_char (char_of (48 + k :: nat)) :: byte)) = int (48 + k)"
        by (rule arg_cong)
      then show ?thesis
        by (simp add: digit_val_def)
    qed
    show ?case
    proof (cases "n < 10")
      case True
      then show ?thesis
        using one [of n] by (subst dec.simps) (simp add: str_def)
    next
      case False
      then have "foldl (\<lambda>n d. 10 * n + digit_val d) 0 (str (dec (n div 10))) = int (n div 10)"
        using 1 by blast
      then have "foldl (\<lambda>n d. 10 * n + digit_val d) 0 (str (dec n)) = 10 * int (n div 10) + int (n mod 10)"
        using False one [of "n mod 10"] by (subst dec.simps) (simp add: str_append str_def)
      then show ?thesis
        by (metis mult_div_mod_eq of_nat_add of_nat_mult of_nat_numeral)
    qed
  qed
  have ne: "str (dec n) \<noteq> []"
    by (simp add: str_def)
  moreover have "takeWhile c_isdigit (str (dec n)) = str (dec n)"
    using dec_bytes by (auto simp: takeWhile_eq_all_conv)
  moreover have "dropWhile c_isspace (str (dec n)) = str (dec n)"
    using dec_bytes ne by (intro dropWhile_id) auto
  moreover have "hd (str (dec n)) \<noteq> 45 \<and> hd (str (dec n)) \<noteq> 43"
    using dec_bytes hd_in_set [OF ne] by blast
  ultimately show ?thesis
    using val [of n] c_str_dec [of n] by (cases "str (dec n)") (auto simp: atoi_val_def Let_def)
qed

lemma best_id_ge: "sint b \<le> sint (best_id a st is b)"
  by (induction "is" arbitrary: b) (auto simp: Let_def intro: less_imp_le order_trans)

lemma best_id_bound: "i \<in> set is \<Longrightarrow> sint (atoi (keyField a st i ''id'')) \<le> sint (best_id a st is b)"
proof (induction "is" arbitrary: b)
  case (Cons j js)
  show ?case
  proof (cases "i = j")
    case True
    then show ?thesis
      using best_id_ge [of "atoi (keyField a st j ''id'')" a st js] best_id_ge [of b a st js]
      by (auto simp: Let_def)
  next
    case False
    then show ?thesis
      using Cons by (simp add: Let_def)
  qed
qed simp

lemma best_id_cases: "best_id a st is b = b \<or> (\<exists>i\<in>set is. best_id a st is b = atoi (keyField a st i ''id''))"
proof (induction "is" arbitrary: b)
  case (Cons j js)
  show ?case
    using Cons [of b] Cons [of "atoi (keyField a st j ''id'')"] by (auto simp: Let_def)
qed simp

text \<open>The identifiers are numbers a C \<open>int\<close> can hold, and the largest \<open>int\<close> is not among them.\<close>

definition ids_below_max :: "'st storage_api \<Rightarrow> 'st \<Rightarrow> bool" where
  "ids_below_max a st \<longleftrightarrow> (\<forall>(x, l) \<in> set (entries a st). - 2147483648 \<le> atoi_val x \<and> atoi_val x < 2147483647)"

lemma sint_c_int: "- 2147483648 \<le> i \<Longrightarrow> i < 2147483648 \<Longrightarrow> sint (word_of_int i :: c_int) = i"
  by (rule sint_of_int_eq) simp_all

lemma c_str_dec_int: "c_str (str (dec_int i)) = str (dec_int i)"
proof -
  have "c_str (str (''-'' @ dec n)) = str (''-'' @ dec n)" for n
    using c_str_dec [of n] by (simp add: c_str_def str_def)
  then show ?thesis
    by (simp only: dec_int_def c_str_dec split: if_split) simp
qed

lemma keyNextId_clean: "c_str (keyNextId a st) = keyNextId a st"
  unfolding keyNextId_def by (rule c_str_dec_int)

lemma keyNextId_fresh:
  assumes "ids_below_max a st"
  shows "keyNextId a st \<notin> fst ` set (entries a st)"
proof
  let ?best = "best_id a st [0..<keyCount a st] 0"
  assume "keyNextId a st \<in> fst ` set (entries a st)"
  then obtain i where i: "i < keyCount a st" "keyField a st i ''id'' = keyNextId a st"
    by (auto simp: entries_def)
  have range: "- 2147483648 \<le> atoi_val (keyField a st j ''id'') \<and> atoi_val (keyField a st j ''id'') < 2147483647"
    if "j < keyCount a st" for j
    using assms that by (force simp: ids_below_max_def entries_def)
  have pos: "0 \<le> sint ?best"
    using best_id_ge [of 0 a st "[0..<keyCount a st]"] by simp
  moreover have "sint ?best < 2147483647"
  proof (rule disjE [OF best_id_cases [of a st "[0..<keyCount a st]" 0]])
    assume "\<exists>i\<in>set [0..<keyCount a st]. ?best = atoi (keyField a st i ''id'')"
    then obtain j where "j < keyCount a st" "?best = atoi (keyField a st j ''id'')"
      by auto
    then show ?thesis
      using range [of j] sint_c_int [of "atoi_val (keyField a st j ''id'')"] by (simp add: atoi_def)
  qed simp
  ultimately have next_val: "sint (?best + 1) = sint ?best + 1"
    using sint_c_int [of "sint ?best + 1"] by simp
  then have "keyNextId a st = str (dec (nat (sint ?best + 1)))"
    using pos by (simp add: keyNextId_def dec_int_def)
  then have "atoi_val (keyNextId a st) = sint ?best + 1"
    using atoi_digits [of "nat (sint ?best + 1)"] pos by simp
  moreover have "sint (atoi (keyField a st i ''id'')) \<le> sint ?best"
    using i(1) by (intro best_id_bound) simp
  moreover have "sint (atoi (keyField a st i ''id'')) = atoi_val (keyNextId a st)"
    using range [OF i(1)] by (simp add: atoi_def sint_c_int i(2))
  ultimately show False
    by simp
qed

text \<open>
  Without that bound the identifier is not new: next to an entry with the identifier
  2147483647 the sum wraps, every further key gets the identifier -2147483648, and the second
  of them shares it with the first.
\<close>

lemma keyNextId_at_max:
  assumes "i < keyCount a st" and "keyField a st i ''id'' = str ''2147483647''"
  shows "keyNextId a st = str ''-2147483648''"
proof -
  let ?best = "best_id a st [0..<keyCount a st] 0"
  have max: "atoi (str ''2147483647'') = 2147483647"
    by code_simp
  have "2147483647 \<le> sint ?best"
    using best_id_bound [of i "[0..<keyCount a st]" a st 0] assms by (simp add: max)
  moreover have "sint ?best < 2147483648"
    using sint_lt [of ?best] by simp
  ultimately have "sint ?best = 2147483647"
    by simp
  then have "(word_of_int (sint ?best) :: c_int) = word_of_int 2147483647"
    by (rule arg_cong)
  then have "?best = 2147483647"
    by simp
  moreover have "dec_int (sint (2147483647 + 1 :: c_int)) = ''-2147483648''"
    by (simp add: dec_int_def dec.simps) code_simp
  ultimately show ?thesis
    by (simp only: keyNextId_def)
qed

section \<open>The operations implement the contract\<close>

lemma entries_sentinel:
  assumes "storage_laws a" and "k \<in> sentinel_keys"
  shows "entries a (storageSetStr a k v st) = entries a st"
  using storage_lawsD(3,4) [OF assms] by (intro entries_cong) simp_all

lemma entries_ack:
  assumes "storage_laws a"
  shows "entries a (snd (keyAck a s)) = entries a (snd s)"
    and "storageGetStr a (snd (keyAck a s)) ''sshd.key.error'' [] = storageGetStr a (snd s) ''sshd.key.error'' []"
  using storage_lawsD(6-8) [OF assms] by (auto simp: keyAck_def split: prod.split intro!: entries_cong)

lemma entries_brackets:
  assumes "storage_laws a"
  shows "entries a (storageBegin a st) = entries a st" and "entries a (storageEnd a st) = entries a st"
    and "keyNextId a (storageBegin a st) = keyNextId a st"
proof -
  have "best_id a (storageBegin a st) is b = best_id a st is b" for "is" b
    by (induction "is" arbitrary: b) (simp_all add: storage_brackets [OF assms])
  then show "keyNextId a (storageBegin a st) = keyNextId a st"
    by (simp add: keyNextId_def storage_brackets [OF assms])
qed (simp_all add: entries_def storage_brackets [OF assms])

lemma values_mem: "v \<in> snd ` set (entries a st) \<longleftrightarrow> (\<exists>i < keyCount a st. keyField a st i ''line'' = v)"
  by (force simp: entries_def)

lemma keyAdd_entries:
  assumes "storage_laws a" and "keyRejection (keyNormalize raw) = []" and "c_str (keyNormalize raw) = keyNormalize raw"
  shows "entries a (snd (keyAdd a raw s)) =
    (if keyNormalize raw \<in> snd ` set (entries a (snd s)) then entries a (snd s)
     else entries a (snd s) @ [(keyNextId a (snd s), keyNormalize raw)])"
proof -
  obtain ack st where s: "s = (ack, st)"
    by fastforce
  have dup: "index_of (\<lambda>i. keyField a st i ''line'' = keyNormalize raw) [0..<keyCount a st] = None \<longleftrightarrow>
      keyNormalize raw \<notin> snd ` set (entries a st)"
    unfolding values_mem by (auto simp: index_of_None)
  have "entries a (keyWrite a (keyCount a st) (keyNextId a st) (keyNormalize raw) (storageBegin a st)) =
      entries a st @ [(keyNextId a st, keyNormalize raw)]"
    using keyWrite_append [OF assms(1), of "keyCount a st" "storageBegin a st"] assms(3)
    by (simp add: entries_brackets storage_brackets keyNextId_clean assms(1))
  then show ?thesis
    using assms(2) dup
    by (auto simp: keyAdd_def s Let_def entries_ack entries_brackets entries_sentinel assms(1))
qed

lemma keyAdd_rejected:
  assumes "storage_laws a" and "keyRejection (keyNormalize raw) \<noteq> []"
  shows "entries a (snd (keyAdd a raw s)) = entries a (snd s)"
    and "storageGetStr a (snd (keyAdd a raw s)) ''sshd.key.error'' [] = c_str (keyRejection (keyNormalize raw))"
  using assms(2) by (auto simp: keyAdd_def Let_def entries_sentinel storage_lawsD(5) assms(1) split: prod.split)

lemma keyRemove_entries:
  assumes "storage_laws a" and "entries_clean a (snd s)"
  shows "entries a (snd (keyRemove a ident s)) = drop_first ident (entries a (snd s))"
proof -
  obtain ack st where s: "s = (ack, st)"
    by fastforce
  show ?thesis
  proof (cases "keyIndexOfId a st ident")
    case None
    then have "ident \<notin> fst ` set (entries a st)"
      by (auto simp: keyIndexOfId_def index_of_None entries_def)
    with None show ?thesis
      by (simp add: keyRemove_def s Let_def entries_sentinel assms(1) drop_first_absent)
  next
    case (Some idx)
    then have idx: "idx < keyCount a st" "keyField a st idx ''id'' = ident"
      and before: "\<And>j. j < idx \<Longrightarrow> keyField a st j ''id'' \<noteq> ident"
      using index_of_least [of "\<lambda>i. keyField a st i ''id'' = ident" "keyCount a st" idx]
      by (simp_all add: keyIndexOfId_def)
    obtain m where m: "keyCount a st = Suc m"
      using idx(1) by (cases "keyCount a st") auto
    define st2 where "st2 = shift_down a [idx..<m] (storageBegin a st)"
    have shift: "keyCount a st2 = Suc m" "take m (entries a st2) = take idx (entries a st) @ drop (idx + 1) (entries a st)"
      using shift_down_entries [OF assms(1), of "storageBegin a st" idx m] assms(2) idx(1) m
      by (simp_all add: st2_def entries_clean_def entries_brackets storage_brackets assms(1) s)
    have unset: "entries a (storageUnset a (keys_prefix @ dec m) st2) = take m (entries a st2)"
      using storage_lawsD(9) [OF assms(1) shift(1)] storage_lawsD(10) [OF assms(1) shift(1)]
      by (intro nth_equalityI) (auto simp: nth_entries shift(1))
    have "drop_first ident (entries a st) = take idx (entries a st) @ drop (idx + 1) (entries a st)"
      by (rule drop_first_at) (use idx before in \<open>auto simp: nth_entries\<close>)
    then show ?thesis
      using Some m unset shift(2)
      by (simp add: keyRemove_def s Let_def entries_ack entries_brackets entries_sentinel assms(1) st2_def)
  qed
qed

lemma clean_append:
  "entries a st' = entries a st @ [(x, l)] \<Longrightarrow> entries_clean a st \<Longrightarrow> c_str x = x \<Longrightarrow> c_str l = l \<Longrightarrow> entries_clean a st'"
  by (auto simp: entries_clean_def)

text \<open>A line as it is stored: acceptable, without surrounding space and without NUL.\<close>

definition key_line :: "bytes \<Rightarrow> bool" where
  "key_line l \<longleftrightarrow> keyRejection l = [] \<and> keyNormalize l = l \<and> c_str l = l"

definition store_ok :: "'st storage_api \<Rightarrow> int \<times> 'st \<Rightarrow> bool" where
  "store_ok a s \<longleftrightarrow> storage_laws a \<and> entries_clean a (snd s)"

interpretation key_store: keyed_list "store_ok a" "\<lambda>s. ids_below_max a (snd s)" "\<lambda>s. entries a (snd s)" "\<lambda>s. keyNextId a (snd s)"
    "keyAdd a" "keyRemove a" key_line
  for a :: "'st storage_api"
proof
  fix s :: "int \<times> 'st" and v
  assume ok: "store_ok a s" and line: "key_line v"
  have norm: "keyRejection (keyNormalize v) = []" "c_str (keyNormalize v) = keyNormalize v" "keyNormalize v = v"
    using line by (simp_all add: key_line_def)
  show items: "entries a (snd (keyAdd a v s)) =
      (if v \<in> snd ` set (entries a (snd s)) then entries a (snd s) else entries a (snd s) @ [(keyNextId a (snd s), v)])"
    using keyAdd_entries [OF _ norm(1,2), of a s] ok norm(3) by (simp add: store_ok_def)
  show "store_ok a (keyAdd a v s)"
    using items ok norm(2,3) keyNextId_clean [of a "snd s"] clean_append [of a "snd (keyAdd a v s)" "snd s"]
    by (auto simp: store_ok_def entries_clean_def split: if_splits)
next
  fix s :: "int \<times> 'st"
  assume "ids_below_max a (snd s)"
  then show "keyNextId a (snd s) \<notin> fst ` set (entries a (snd s))"
    by (rule keyNextId_fresh)
next
  fix s :: "int \<times> 'st" and i
  assume ok: "store_ok a s"
  then show items: "entries a (snd (keyRemove a i s)) = drop_first i (entries a (snd s))"
    by (intro keyRemove_entries) (simp_all add: store_ok_def)
  show "store_ok a (keyRemove a i s)"
    using ok set_drop_first [of i "entries a (snd s)"] by (auto simp: store_ok_def entries_clean_def items)
qed

lemma write_lines_entries:
  assumes "storage_laws a" and "i = keyCount a st" and "\<forall>l \<in> set ls. c_str l = l"
  shows "entries a (write_lines a i ls st) = entries a st @ zip (map (\<lambda>k. str (dec (k + 1))) [i..<i + length ls]) ls"
  using assms(2,3)
proof (induction ls arbitrary: i st)
  case (Cons l ls)
  let ?st = "keyWrite a i (str (dec (i + 1))) l st"
  have "entries a ?st = entries a st @ [(str (dec (i + 1)), l)]" and "keyCount a ?st = i + 1"
    using keyWrite_append [OF assms(1), of i st] keyWrite_count [OF assms(1), of i st] Cons.prems by (simp_all add: c_str_dec)
  moreover have "[i..<i + length (l # ls)] = i # [i + 1..<i + 1 + length ls]"
    by (simp add: upt_conv_Cons del: upt_Suc)
  ultimately show ?case
    using Cons.IH [of "i + 1" ?st] Cons.prems by (simp only: write_lines.simps) simp
qed simp

section \<open>A small store for closed examples\<close>

text \<open>
  Values by key, integers and strings, and the length of the one array.  A write replaces the
  value, a default is written where there is none, deleting takes the key and all below it.
\<close>

datatype sample_value = SInt int | SStr bytes

type_synonym sample_store = "(string \<Rightarrow> sample_value option) \<times> nat"

definition sample_get :: "sample_store \<Rightarrow> string \<Rightarrow> bytes \<Rightarrow> bytes" where
  "sample_get st k d = (case fst st k of None \<Rightarrow> d | Some (SStr v) \<Rightarrow> v | Some (SInt i) \<Rightarrow> str (dec_int i))"

definition sample_get_int :: "sample_store \<Rightarrow> string \<Rightarrow> int \<Rightarrow> int" where
  "sample_get_int st k d = (case fst st k of None \<Rightarrow> d | Some (SStr v) \<Rightarrow> sint (atoi v) | Some (SInt i) \<Rightarrow> i)"

definition sample_set :: "string \<Rightarrow> sample_value \<Rightarrow> sample_store \<Rightarrow> sample_store" where
  "sample_set k v st =
     ((fst st)(k \<mapsto> v), if list_ex (\<lambda>f. k = item_key (snd st) f) [''id'', ''line'', ''label''] then snd st + 1 else snd st)"

definition sample_default :: "string \<Rightarrow> sample_value \<Rightarrow> sample_store \<Rightarrow> sample_store" where
  "sample_default k v st = (if fst st k = None then sample_set k v st else st)"

definition sample_below :: "string \<Rightarrow> string \<Rightarrow> bool" where
  "sample_below t k \<longleftrightarrow> k = t \<or> take (length t + 1) k = t @ ''.''"

definition sample_delete :: "string \<Rightarrow> (string \<Rightarrow> sample_value option) \<Rightarrow> string \<Rightarrow> sample_value option" where
  "sample_delete t m k = (if sample_below t k then None else m k)"

definition sample_storage :: "sample_store storage_api" where
  "sample_storage =
     \<lparr>storageGetStr = sample_get, storageGetInt = sample_get_int, storageArrayCount = (\<lambda>st k. snd st),
      storageSetStr = (\<lambda>k v. sample_set k (SStr v)), storageSetInt = (\<lambda>k v. sample_set k (SInt v)),
      storageUnset = (\<lambda>k st. (sample_delete k (fst st), if k = keys_prefix @ dec (snd st - 1) then snd st - 1 else snd st)),
      storageDeleteTree = (\<lambda>k st. (sample_delete k (fst st), if k = ''s.sshd.authorized_keys'' then 0 else snd st)),
      storageDefaultStr = (\<lambda>k v. sample_default k (SStr v)), storageDefaultInt = (\<lambda>k v. sample_default k (SInt v)),
      storageDefaultTree = (\<lambda>k v. sample_default k (SStr v)),
      storageBegin = (\<lambda>st. st), storageEnd = (\<lambda>st. st)\<rparr>"

lemma dec_inj: "dec i = dec j \<longleftrightarrow> i = j"
  by (metis atoi_digits of_nat_eq_iff)

lemma dec_no_dot: "CHR ''.'' \<notin> set (dec n)"
  using dec_chars [of "CHR ''.''" n] by auto

lemma item_key_inj: "item_key i f = item_key j g \<longleftrightarrow> i = j \<and> f = g"
proof
  assume "item_key i f = item_key j g"
  then have eq: "dec i @ CHR ''.'' # f = dec j @ CHR ''.'' # g"
    by (simp add: item_key_def)
  have split: "takeWhile (\<lambda>ch. ch \<noteq> CHR ''.'') (dec n @ CHR ''.'' # h) = dec n" for n h
    using dec_no_dot [of n] by (subst takeWhile_append2) auto
  have "dec i = dec j"
    using arg_cong [OF eq, of "takeWhile (\<lambda>ch. ch \<noteq> CHR ''.'')"] by (simp only: split)
  with eq show "i = j \<and> f = g"
    by (simp add: dec_inj)
qed simp

lemma item_key_not_sentinel: "k \<in> sentinel_keys \<Longrightarrow> item_key i f \<noteq> k"
  by (auto simp: sentinel_keys_def item_key_def keys_prefix_def)

lemma item_key_not_below: "i \<noteq> j \<Longrightarrow> \<not> sample_below (keys_prefix @ dec i) (item_key j f)"
proof
  assume ne: "i \<noteq> j" and below: "sample_below (keys_prefix @ dec i) (item_key j f)"
  have split: "takeWhile (\<lambda>ch. ch \<noteq> CHR ''.'') (dec n @ CHR ''.'' # h) = dec n" for n h
    using dec_no_dot [of n] by (subst takeWhile_append2) auto
  let ?k = "item_key j f"
  have "dec i \<noteq> dec j @ CHR ''.'' # f"
    using dec_no_dot [of i] by auto
  then have "take (length (keys_prefix @ dec i) + 1) ?k = (keys_prefix @ dec i) @ ''.''"
    using below by (auto simp: sample_below_def item_key_def)
  then have "?k = ((keys_prefix @ dec i) @ ''.'') @ drop (length (keys_prefix @ dec i) + 1) ?k"
    by (metis append_take_drop_id)
  then have "dec j @ CHR ''.'' # f = dec i @ CHR ''.'' # drop (length (keys_prefix @ dec i) + 1) ?k"
    by (simp add: item_key_def)
  from arg_cong [OF this, of "takeWhile (\<lambda>ch. ch \<noteq> CHR ''.'')"] have "dec j = dec i"
    by (simp only: split)
  with ne show False
    by (simp add: dec_inj)
qed

lemma sample_storage_laws: "storage_laws sample_storage"
proof -
  have other: "k \<in> sentinel_keys \<Longrightarrow> sample_set k v st = ((fst st)(k \<mapsto> v), snd st)" for k v st
    using item_key_not_sentinel [of k] by (auto simp: sample_set_def)
  have ack: "sample_set ''sshd.key.done'' v st = ((fst st)(''sshd.key.done'' \<mapsto> v), snd st)" for v st
    by (auto simp: sample_set_def item_key_def keys_prefix_def)
  have ne: "item_key i f \<noteq> ''sshd.key.done''" for i f
    by (simp add: item_key_def keys_prefix_def)
  show ?thesis
    unfolding storage_laws_def
    by (intro conjI allI impI)
      (simp_all add: sample_storage_def keyField_def keyCount_def fun_eq_iff sample_get_def other ack ne item_key_not_sentinel
        sample_delete_def item_key_not_below,
       auto simp: sample_set_def item_key_inj item_fields_def)
qed

definition sample_line :: bytes where
  "sample_line = str ''ssh-ed25519 '' @ replicate 68 65 @ str '' me''"

section \<open>Properties of the key store\<close>

lemma split_space_None: "split_space l = None \<longleftrightarrow> 32 \<notin> set l"
proof
  assume "split_space l = None"
  then have "length (takeWhile (\<lambda>b. b \<noteq> 32) l) = length l"
    by (simp add: split_space_def Let_def split: if_splits)
  then have "takeWhile (\<lambda>b. b \<noteq> 32) l = l"
    by (metis takeWhile_eq_take take_all order_refl)
  then show "32 \<notin> set l"
    by (auto simp: takeWhile_eq_all_conv)
next
  assume "32 \<notin> set l"
  then have "takeWhile (\<lambda>b. b \<noteq> 32) l = l"
    by (auto simp: takeWhile_eq_all_conv)
  then show "split_space l = None"
    unfolding split_space_def Let_def by (simp only: if_True refl)
qed

lemma split_space_Some: "split_space l = Some (x, r) \<longleftrightarrow> 32 \<notin> set x \<and> l = x @ 32 # r"
proof
  assume s: "split_space l = Some (x, r)"
  then have x: "x = takeWhile (\<lambda>b. b \<noteq> 32) l" and r: "r = drop (length x + 1) l" and len: "length x \<noteq> length l"
    by (auto simp: split_space_def Let_def split: if_splits)
  have "length x < length l"
    using len length_takeWhile_le [of "\<lambda>b. b \<noteq> 32" l] unfolding x by linarith
  moreover from this have "l ! length x = 32"
    unfolding x using nth_length_takeWhile by blast
  moreover have "take (length x) l = x"
    unfolding x by (metis takeWhile_eq_take)
  ultimately have "l = x @ 32 # r"
    unfolding r using id_take_nth_drop [of "length x" l] by simp
  moreover have "32 \<notin> set x"
    unfolding x by (auto dest: set_takeWhileD)
  ultimately show "32 \<notin> set x \<and> l = x @ 32 # r"
    by blast
next
  assume l: "32 \<notin> set x \<and> l = x @ 32 # r"
  then have "takeWhile (\<lambda>b. b \<noteq> 32) l = x"
    by (subst conjunct2 [OF l], subst takeWhile_append2) auto
  then show "split_space l = Some (x, r)"
    using l by (simp add: split_space_def)
qed

text \<open>
  A key line is accepted exactly when, apart from surrounding white space, it is the
  algorithm name, one space, at least 64 base64 characters, and nothing or a comment after a
  space.
\<close>

theorem keyRejection_iff:
  "keyRejection raw = [] \<longleftrightarrow>
    (\<exists>b64 comment. keyNormalize raw = str ''ssh-ed25519 '' @ b64 @ comment \<and> list_all base64_char b64 \<and>
       64 \<le> length b64 \<and> (comment = [] \<or> hd comment = 32))"
    (is "?l \<longleftrightarrow> ?r")
proof -
  let ?n = "keyNormalize raw"
  have name: "str ''ssh-ed25519 '' = str ''ssh-ed25519'' @ [32]" "32 \<notin> set (str ''ssh-ed25519'')"
    by (simp_all add: str_def)
  have no_space: "list_all base64_char b \<Longrightarrow> 32 \<notin> set b" for b
    by (auto simp: list_all_iff base64_char_def c_isalnum_def)
  have "?l \<longleftrightarrow> (\<exists>rest. split_space ?n = Some (str ''ssh-ed25519'', rest) \<and>
      (let blob = (case split_space rest of None \<Rightarrow> rest | Some (b, _) \<Rightarrow> b)
       in list_all base64_char blob \<and> 64 \<le> length blob))"
    by (auto simp: keyRejection_def Let_def str_def split_space_def split: option.split)
  also have "\<dots> \<longleftrightarrow> ?r"
  proof
    assume "\<exists>rest. split_space ?n = Some (str ''ssh-ed25519'', rest) \<and>
      (let blob = (case split_space rest of None \<Rightarrow> rest | Some (b, _) \<Rightarrow> b)
       in list_all base64_char blob \<and> 64 \<le> length blob)"
    then obtain rest where n: "?n = str ''ssh-ed25519 '' @ rest"
      and b: "let blob = (case split_space rest of None \<Rightarrow> rest | Some (b, _) \<Rightarrow> b)
        in list_all base64_char blob \<and> 64 \<le> length blob"
      by (auto simp: split_space_Some name)
    show ?r
    proof (cases "split_space rest")
      case None
      with n b show ?thesis
        by (intro exI [of _ rest] exI [of _ "[]"]) simp
    next
      case (Some p)
      then obtain x r where "split_space rest = Some (x, r)"
        by (cases p) auto
      with n b show ?thesis
        by (intro exI [of _ x] exI [of _ "32 # r"]) (auto simp: split_space_Some)
    qed
  next
    assume ?r
    then obtain b64 comment where n: "?n = str ''ssh-ed25519 '' @ b64 @ comment"
      and b: "list_all base64_char b64" "64 \<le> length b64" "comment = [] \<or> hd comment = 32"
      by blast
    have "(case split_space (b64 @ comment) of None \<Rightarrow> b64 @ comment | Some (b, _) \<Rightarrow> b) = b64"
    proof (cases comment)
      case Nil
      then show ?thesis
        using no_space [OF b(1)] split_space_None [of b64] by simp
    next
      case (Cons y ys)
      then have "split_space (b64 @ comment) = Some (b64, ys)"
        using b(3) no_space [OF b(1)] by (simp add: split_space_Some)
      then show ?thesis
        by simp
    qed
    moreover have "split_space ?n = Some (str ''ssh-ed25519'', b64 @ comment)"
      using n by (simp add: split_space_Some name)
    ultimately show "\<exists>rest. split_space ?n = Some (str ''ssh-ed25519'', rest) \<and>
      (let blob = (case split_space rest of None \<Rightarrow> rest | Some (b, _) \<Rightarrow> b)
       in list_all base64_char blob \<and> 64 \<le> length blob)"
      using b by simp
  qed
  finally show ?thesis .
qed

lemma sample_line_ok: "key_line sample_line"
proof -
  have "dropWhile c_isspace sample_line = sample_line" and "dropWhile c_isspace (rev sample_line) = rev sample_line"
    by (simp_all add: sample_line_def str_def c_isspace_def)
  then have norm: "keyNormalize sample_line = sample_line"
    by (simp add: keyNormalize_def)
  moreover have "keyRejection sample_line = []"
    unfolding keyRejection_iff norm
    by (intro exI [of _ "replicate 68 65"] exI [of _ "str '' me''"])
      (simp add: sample_line_def list_all_iff base64_char_def c_isalnum_def str_def)
  moreover have "c_str sample_line = sample_line"
    by (simp add: c_str_def sample_line_def str_def takeWhile_eq_all_conv)
  ultimately show ?thesis
    by (simp add: key_line_def)
qed

lemma sample_store_ok: "store_ok sample_storage (0, \<lambda>_. None, 0)" and sample_entries: "entries sample_storage (\<lambda>_. None, 0) = []"
  by (simp_all add: store_ok_def sample_storage_laws entries_clean_def entries_def keyCount_def)
    (simp_all add: sample_storage_def)

text \<open>A store that already holds the largest \<open>int\<close> as an identifier gives the next two keys the same one.\<close>

lemma key_ids_collide:
  assumes "store_ok a s" and "i < keyCount a (snd s)" and "keyField a (snd s) i ''id'' = str ''2147483647''"
    and "key_line l" and "key_line m" and "l \<noteq> m" and "{l, m} \<inter> snd ` set (entries a (snd s)) = {}"
  shows "entries a (snd (keyAdd a m (keyAdd a l s))) = entries a (snd s) @ [(str ''-2147483648'', l), (str ''-2147483648'', m)]"
proof -
  have first: "entries a (snd (keyAdd a l s)) = entries a (snd s) @ [(str ''-2147483648'', l)]"
    using key_store.put_items [OF assms(1,4)] keyNextId_at_max [OF assms(2,3)] assms(7) by simp
  have count: "keyCount a (snd (keyAdd a l s)) = Suc (keyCount a (snd s))"
    using arg_cong [OF first, of length] by simp
  have "entries a (snd (keyAdd a l s)) ! i = entries a (snd s) ! i"
    using assms(2) by (simp add: first nth_append)
  then have "keyField a (snd (keyAdd a l s)) i ''id'' = str ''2147483647''"
    using assms(2,3) by (simp add: nth_entries count)
  from keyNextId_at_max [OF _ this] have second: "keyNextId a (snd (keyAdd a l s)) = str ''-2147483648''"
    using assms(2) by (simp add: count)
  have "m \<notin> snd ` set (entries a (snd (keyAdd a l s)))"
    using assms(6,7) by (auto simp: first)
  then show ?thesis
    using key_store.put_items [OF key_store.put_inv [OF assms(1,4)] assms(5)] first second by simp
qed

text \<open>
  C11: The key store behaves as a list of identified lines, as long as the stored identifiers
  are numbers below the largest C \<open>int\<close>.  Adding an acceptable line appends
  it, once, under an identifier no other entry has; removing an identifier deletes exactly the
  entry that has it and keeps the order of the rest; removing what was just added restores the
  list; and distinct identifiers stay distinct through both.
\<close>

theorem key_store_operations:
  assumes "store_ok a s" and "key_line l" and "distinct (map fst (entries a (snd s)))"
    and "ids_below_max a (snd s)"
  shows "entries a (snd (keyAdd a l s)) =
      (if l \<in> snd ` set (entries a (snd s)) then entries a (snd s)
       else entries a (snd s) @ [(keyNextId a (snd s), l)]) \<and>
    keyNextId a (snd s) \<notin> fst ` set (entries a (snd s)) \<and>
    entries a (snd (keyRemove a i s)) = filter (\<lambda>e. fst e \<noteq> i) (entries a (snd s)) \<and>
    (l \<notin> snd ` set (entries a (snd s)) \<longrightarrow>
       entries a (snd (keyRemove a (keyNextId a (snd s)) (keyAdd a l s))) = entries a (snd s)) \<and>
    distinct (map fst (entries a (snd (keyAdd a l s)))) \<and> distinct (map fst (entries a (snd (keyRemove a i s))))"
proof -
  have "drop_first i es = filter (\<lambda>e. fst e \<noteq> i) es" if "distinct (map fst es)" for es :: "(bytes \<times> bytes) list"
    using that by (induction i es rule: drop_first.induct) (auto simp: image_iff intro!: filter_True [symmetric])
  then show ?thesis
    using key_store.put_items [OF assms(1,2)] key_store.del_items [OF assms(1), of i]
      key_store.del_put [OF assms(1,4,2)] key_store.put_distinct [OF assms(1,4,2,3)] key_store.fresh_new [OF assms(1,4)] assms(3)
      distinct_drop_first [OF assms(3), of i]
    by simp
qed

theorem key_store_operations_witness:
  "entries sample_storage (snd (keyAdd sample_storage sample_line (0, \<lambda>_. None, 0))) = [(str ''1'', sample_line)]"
proof -
  have "distinct (map fst (entries sample_storage (snd (0 :: int, \<lambda>_. None, 0))))"
      "ids_below_max sample_storage (snd (0 :: int, \<lambda>_. None, 0))"
    by (simp_all add: sample_entries ids_below_max_def)
  from key_store_operations [OF sample_store_ok sample_line_ok this, of "[]"]
  have "entries sample_storage (snd (keyAdd sample_storage sample_line (0, \<lambda>_. None, 0))) =
      [(keyNextId sample_storage (\<lambda>_. None, 0), sample_line)]"
    by (simp add: sample_entries)
  moreover have "keyNextId sample_storage (\<lambda>_. None, 0) = str ''1''"
    by (simp add: keyNextId_def keyCount_def sample_storage_def dec_int_def) (subst dec.simps, code_simp)
  ultimately show ?thesis
    by simp
qed

text \<open>What the session layer sees of the store.\<close>

definition store_view :: "'st storage_api \<Rightarrow> 'st \<Rightarrow> world \<Rightarrow> world" where
  "store_view a st w =
     w\<lparr>cfg_str := (\<lambda>k. storageGetStr a st k []), cfg_int := storageGetInt a st, cfg_count := storageArrayCount a st\<rparr>"

lemma authorized_store_view:
  "authorized_pub_matches c (store_view a st w) pub \<longleftrightarrow> (\<exists>l \<in> snd ` set (entries a st). line_matches c pub l)"
  by (auto simp: authorized_pub_matches_def authorized_scan_iff store_view_def authorized_keys_line_def entries_def
      keyCount_def keyField_def item_key_def keys_prefix_def)

text \<open>
  C12: Granting and revoking access: after a key line has been added the authentication code
  accepts the keys it accepted before and those the new line holds; after an identifier has
  been removed it accepts exactly the keys some other entry holds.
\<close>

theorem authorization_follows_store:
  assumes "store_ok a s" and "key_line l" and "distinct (map fst (entries a (snd s)))"
  shows "(authorized_pub_matches c (store_view a (snd (keyAdd a l s)) w) pub \<longleftrightarrow>
      authorized_pub_matches c (store_view a (snd s) w) pub \<or> line_matches c pub l) \<and>
    (authorized_pub_matches c (store_view a (snd (keyRemove a i s)) w) pub \<longleftrightarrow>
      (\<exists>(j, k) \<in> set (entries a (snd s)). j \<noteq> i \<and> line_matches c pub k))"
  using key_store.put_values [OF assms(1,2)] key_store.del_gone [OF assms(1,3), of i]
  by (auto simp: authorized_store_view)

theorem authorization_follows_store_witness:
  "authorized_pub_matches sample_crypto
     (store_view sample_storage (snd (keyAdd sample_storage sample_line (0, \<lambda>_. None, 0))) sample_world) (replicate 32 7) \<longleftrightarrow>
   line_matches sample_crypto (replicate 32 7) sample_line"
proof -
  have "distinct (map fst (entries sample_storage (snd (0 :: int, \<lambda>_. None, 0))))"
    by (simp add: sample_entries)
  from authorization_follows_store [OF sample_store_ok sample_line_ok this, of sample_crypto sample_world "replicate 32 7" "[]"]
  show ?thesis
    by (simp add: authorized_store_view sample_entries)
qed

text \<open>
  C13: A rejected submission changes no key: when the line is unacceptable, or already stored,
  the list stays as it was and the reason is left in \<open>sshd.key.error\<close>; the same holds for the
  removal of an identifier no entry has.
\<close>

theorem key_errors_keep_store:
  assumes "storage_laws a"
  shows "(keyRejection (keyNormalize raw) \<noteq> [] \<longrightarrow>
      entries a (snd (keyAdd a raw s)) = entries a (snd s) \<and>
      storageGetStr a (snd (keyAdd a raw s)) ''sshd.key.error'' [] = c_str (keyRejection (keyNormalize raw))) \<and>
    (keyRejection (keyNormalize raw) = [] \<and> keyNormalize raw \<in> snd ` set (entries a (snd s)) \<longrightarrow>
      entries a (snd (keyAdd a raw s)) = entries a (snd s) \<and>
      storageGetStr a (snd (keyAdd a raw s)) ''sshd.key.error'' [] = str ''That key is already authorized.'') \<and>
    (i \<notin> fst ` set (entries a (snd s)) \<longrightarrow>
      entries a (snd (keyRemove a i s)) = entries a (snd s) \<and>
      storageGetStr a (snd (keyRemove a i s)) ''sshd.key.error'' [] = str ''No such key.'')"
proof -
  obtain ack st where s: "s = (ack, st)"
    by fastforce
  have dup: "keyNormalize raw \<in> snd ` set (entries a st) \<Longrightarrow>
      index_of (\<lambda>i. keyField a st i ''line'' = keyNormalize raw) [0..<keyCount a st] \<noteq> None"
    unfolding values_mem by (auto simp: index_of_None)
  have gone: "i \<notin> fst ` set (entries a st) \<Longrightarrow> keyIndexOfId a st i = None"
    by (force simp: keyIndexOfId_def index_of_None entries_def)
  show ?thesis
    using keyAdd_rejected [OF assms, of raw s] dup gone
    by (auto simp: s keyAdd_def keyRemove_def Let_def entries_sentinel storage_lawsD(5) assms)
qed

theorem key_errors_keep_store_witness:
  "storageGetStr sample_storage (snd (keyRemove sample_storage (str ''7'') (0, \<lambda>_. None, 0))) ''sshd.key.error'' [] =
     str ''No such key.''"
  using key_errors_keep_store [OF sample_storage_laws, of "[]" "(0, \<lambda>_. None, 0)" "str ''7''"] by (simp add: sample_entries)

text \<open>
  The one-time migration keeps every key: when all elements of the old array are key-line
  strings, the new array has the same lines in the same order under the identifiers 1, 2, and
  so on; when some element is already an object (or the array is empty) nothing is touched.
\<close>

theorem keyMigrate_keeps_lines:
  assumes "storage_laws a"
  shows "(\<forall>ls. flat_lines a st [0..<keyCount a st] = Some ls \<and> ls \<noteq> [] \<and> (\<forall>l \<in> set ls. c_str l = l) \<longrightarrow>
      entries a (keyMigrate a st) = zip (map (\<lambda>k. str (dec (k + 1))) [0..<length ls]) ls) \<and>
    ((\<exists>i < keyCount a st. storageGetStr a st (keys_prefix @ dec i) [] = []) \<longrightarrow> keyMigrate a st = st)"
proof -
  have none: "flat_lines a st is = None" if "\<exists>i \<in> set is. storageGetStr a st (keys_prefix @ dec i) [] = []" for "is"
    using that by (induction "is") (auto simp: Let_def)
  have len: "flat_lines a st is = Some ls \<Longrightarrow> length ls = length is" for "is" ls
    by (induction "is" arbitrary: ls) (auto simp: Let_def split: if_splits)
  have "entries a (keyMigrate a st) = zip (map (\<lambda>k. str (dec (k + 1))) [0..<length ls]) ls"
    if "flat_lines a st [0..<keyCount a st] = Some ls" "ls \<noteq> []" "\<forall>l \<in> set ls. c_str l = l" for ls
  proof -
    have "keyCount a st \<noteq> 0"
      using that(1,2) by (intro notI) simp
    let ?st = "storageDeleteTree a ''s.sshd.authorized_keys'' (storageBegin a st)"
    have "keyCount a ?st = 0"
      by (rule storage_lawsD(11) [OF assms])
    moreover from this have "entries a ?st = []"
      by (simp add: entries_def)
    ultimately have "entries a (write_lines a 0 ls ?st) = zip (map (\<lambda>k. str (dec (k + 1))) [0..<length ls]) ls"
      using write_lines_entries [OF assms, of 0 ?st ls] that(3) by simp
    with that(1) \<open>keyCount a st \<noteq> 0\<close> show ?thesis
      by (simp add: keyMigrate_def Let_def entries_brackets [OF assms])
  qed
  moreover have "keyMigrate a st = st" if "\<exists>i < keyCount a st. storageGetStr a st (keys_prefix @ dec i) [] = []"
    using none [of "[0..<keyCount a st]"] that by (force simp: keyMigrate_def Let_def)
  ultimately show ?thesis
    by blast
qed

theorem keyMigrate_keeps_lines_witness:
  "keyMigrate sample_storage (\<lambda>_. None, 1) = (\<lambda>_. None, 1)"
proof -
  have "\<exists>i < keyCount sample_storage (\<lambda>_. None, 1). storageGetStr sample_storage (\<lambda>_. None, 1) (keys_prefix @ dec i) [] = []"
    by (auto simp: keyCount_def sample_storage_def sample_get_def)
  with keyMigrate_keeps_lines [OF sample_storage_laws] show ?thesis
    by blast
qed

end
