(* ===== verification/Client.thy ===== *)
theory Client
  imports Kex Keystore "HOL-Library.Monad_Syntax"
begin

text \<open>
  The transport half of the outbound client, \<open>esp-idf/src/ssh_client.cpp\<close>: the structures
  \<open>SshJob\<close> and \<open>Csess\<close>, the output pipe, the packet framing, the version exchange, the key
  exchange with the verification of the server, and the trust-on-first-use host table.

  A step of the client is a function on the record \<open>client\<close>: the session, the job it works
  for and the surroundings.  A loop that waits for the peer is a \<open>partial_function\<close>, so that a
  loop that never ends is \<open>None\<close>.
\<close>

section \<open>State\<close>

record sshJob =
  j_host :: bytes
  j_port :: u16
  j_user :: bytes
  j_haveCmd :: bool
  j_command :: bytes
  j_havePassword :: bool
  j_password :: bytes
  j_tryPubkey :: bool
  j_seed :: bytes
  j_hasOut :: bool
  j_hasIn :: bool
  j_userClose :: bool
  j_done :: bool
  j_rc :: int
  j_msg :: bytes
  j_haveExit :: bool
  j_exitStatus :: u32

record csess =
  c_handle :: int
  c_rxBuf :: bytes
  c_ourVersion :: bytes
  c_peerVersion :: bytes
  c_ourKexInit :: bytes
  c_peerKexInit :: bytes
  c_ephPriv :: bytes
  c_ephPub :: bytes
  c_peerEphPub :: bytes
  c_sharedK :: bytes
  c_sessionId :: bytes
  c_sendKey :: bytes
  c_recvKey :: bytes
  c_encOut :: bool
  c_encIn :: bool
  c_seqOut :: u64
  c_seqIn :: u64
  c_peerChannel :: u32
  c_peerWindow :: u32
  c_peerMaxPacket :: u32
  c_localWindow :: u32

definition new_csess :: csess where
  "new_csess =
     \<lparr>c_handle = -1, c_rxBuf = [], c_ourVersion = [], c_peerVersion = [], c_ourKexInit = [], c_peerKexInit = [],
      c_ephPriv = replicate 32 0, c_ephPub = replicate 32 0, c_peerEphPub = replicate 32 0, c_sharedK = replicate 32 0,
      c_sessionId = replicate 32 0, c_sendKey = replicate 64 0, c_recvKey = replicate 64 0, c_encOut = False,
      c_encIn = False, c_seqOut = 0, c_seqIn = 0, c_peerChannel = 0, c_peerWindow = 0, c_peerMaxPacket = 0,
      c_localWindow = 0\<rparr>"

text \<open>
  The surroundings: the services of theory \<open>World\<close>, the configuration store, the FreeRTOS tick
  counter, the state of the connection, the two stream buffers between the command and the
  worker, the flag \<open>userClose\<close> as the worker reads it, the size of the terminal, the content
  of an uninitialised 120-byte stack buffer, and the static buffer \<open>s_offeredMethods\<close>.
\<close>

record 'st surroundings =
  e_world :: world
  e_store :: 'st
  tick_ans :: "nat \<Rightarrow> u32"
  tick_cnt :: nat
  connected_ans :: "nat \<Rightarrow> bool"
  connected_cnt :: nat
  pipe_ans :: "nat \<Rightarrow> nat"
  pipe_cnt :: nat
  pipe_out :: bytes
  keys_ans :: "nat \<Rightarrow> bytes"
  keys_cnt :: nat
  close_ans :: "nat \<Rightarrow> bool"
  close_cnt :: nat
  term_size :: "u32 \<times> u32"
  stack120 :: bytes
  s_offeredMethods :: bytes

record 'st client =
  cs :: csess
  job :: sshJob
  env :: "'st surroundings"

definition upd_cs :: "(csess \<Rightarrow> csess) \<Rightarrow> 'st client \<Rightarrow> 'st client" where
  "upd_cs f k = k\<lparr>cs := f (cs k)\<rparr>"

definition upd_job :: "(sshJob \<Rightarrow> sshJob) \<Rightarrow> 'st client \<Rightarrow> 'st client" where
  "upd_job f k = k\<lparr>job := f (job k)\<rparr>"

definition upd_env :: "('st surroundings \<Rightarrow> 'st surroundings) \<Rightarrow> 'st client \<Rightarrow> 'st client" where
  "upd_env f k = k\<lparr>env := f (env k)\<rparr>"

definition world_of :: "'st client \<Rightarrow> world" where
  "world_of k = e_world (env k)"

definition set_world :: "world \<Rightarrow> 'st client \<Rightarrow> 'st client" where
  "set_world w = upd_env (\<lambda>e. e\<lparr>e_world := w\<rparr>)"

definition xTaskGetTickCount :: "'st client \<Rightarrow> u32 \<times> 'st client" where
  "xTaskGetTickCount k = (tick_ans (env k) (tick_cnt (env k)), upd_env (\<lambda>e. e\<lparr>tick_cnt := tick_cnt e + 1\<rparr>) k)"

definition itsConnected :: "'st client \<Rightarrow> bool \<times> 'st client" where
  "itsConnected k = (connected_ans (env k) (connected_cnt (env k)), upd_env (\<lambda>e. e\<lparr>connected_cnt := connected_cnt e + 1\<rparr>) k)"

text \<open>\<open>pdMS_TO_TICKS\<close> with the 1 ms tick of the target, and the time left.\<close>

definition remaining :: "u32 \<Rightarrow> u32 \<Rightarrow> int" where
  "remaining deadline now = sint (deadline - now)"

definition safeStrncpy :: "nat \<Rightarrow> bytes \<Rightarrow> bytes" where
  "safeStrncpy n s = take (n - 1) (c_str s)"

section \<open>Output pipe and log\<close>

text \<open>\<open>xStreamBufferSend\<close> takes over a first part of the bytes; a stalled reader ends the loop.\<close>

partial_function (option) out_loop :: "bytes \<Rightarrow> 'st client \<Rightarrow> 'st client option" where
  "out_loop left k =
     (if left = [] then Some k
      else let n = min (pipe_ans (env k) (pipe_cnt (env k))) (length left);
               k1 = upd_env (\<lambda>e. e\<lparr>pipe_cnt := pipe_cnt e + 1, pipe_out := pipe_out e @ take n left\<rparr>) k
           in if n = 0 then Some k1 else out_loop (drop n left) k1)"

definition out_write :: "bytes \<Rightarrow> 'st client \<Rightarrow> 'st client option" where
  "out_write data k = (if \<not> j_hasOut (job k) \<or> data = [] then Some k else out_loop data k)"

definition diag :: "bytes \<Rightarrow> 'st client \<Rightarrow> 'st client" where
  "diag text k =
     (let b = take 179 text in
      if b = [] then k
      else set_world (log_bytes (rev (dropWhile (\<lambda>b. b = 10 \<or> b = 13) (rev b))) (world_of k)) k)"

definition info_c :: "bytes \<Rightarrow> 'st client \<Rightarrow> 'st client" where
  "info_c text k = set_world (log_bytes text (world_of k)) k"

section \<open>Framing\<close>

definition send_raw :: "bytes \<Rightarrow> 'st client \<Rightarrow> 'st client" where
  "send_raw d k =
     (if c_handle (cs k) < 0 then k else set_world (snd (itsSend (c_handle (cs k)) d (world_of k))) k)"

definition client_send :: "crypto \<Rightarrow> bytes \<Rightarrow> 'st client \<Rightarrow> 'st client" where
  "client_send c payload k =
     (let (padBytes, w1) = randomBytes (pad_len (c_encOut (cs k)) (length payload)) (world_of k);
          framed = frame_packet c (c_encOut (cs k)) (c_sendKey (cs k)) (c_seqOut (cs k)) padBytes payload
      in upd_cs (\<lambda>s. s\<lparr>c_seqOut := c_seqOut s + 1\<rparr>) (send_raw framed (set_world w1 k)))"

definition fill_rx :: "'st client \<Rightarrow> nat \<times> 'st client" where
  "fill_rx k =
     (let (got, w1) = itsRecv (c_handle (cs k)) 1024 (world_of k)
      in (length got, upd_cs (\<lambda>s. s\<lparr>c_rxBuf := c_rxBuf s @ got\<rparr>) (set_world w1 k)))"

definition try_parse :: "crypto \<Rightarrow> 'st client \<Rightarrow> parse_result \<times> 'st client" where
  "try_parse c k =
     (let s = cs k;
          r = (if \<not> c_encIn s then parse_plain (c_rxBuf s) else parse_encrypted c (c_recvKey s) (c_seqIn s) (c_rxBuf s))
      in case r of
           Packet payload rest \<Rightarrow> (r, upd_cs (\<lambda>s. s\<lparr>c_rxBuf := rest, c_seqIn := c_seqIn s + 1\<rparr>) k)
         | _ \<Rightarrow> (r, k))"

text \<open>
  The next packet: its type, or 0 for the timeout, -1 for a bad packet, -2 for a closed
  connection; then the payload (empty without a packet).
\<close>

partial_function (option) recv_loop :: "crypto \<Rightarrow> u32 \<Rightarrow> 'st client \<Rightarrow> (int \<times> bytes \<times> 'st client) option" where
  "recv_loop c deadline k =
     (let (r, k1) = try_parse c k in
      case r of
        Packet out rest \<Rightarrow>
          if out \<noteq> [] \<and> (hd out = MSG_IGNORE \<or> hd out = MSG_DEBUG) then recv_loop c deadline k1
          else Some (if out = [] then -1 else uint (hd out), out, k1)
      | FramingError \<Rightarrow> Some (-1, [], k1)
      | NeedMore \<Rightarrow>
          let (now, k2) = xTaskGetTickCount k1 in
          if remaining deadline now \<le> 0 then Some (0, [], k2)
          else let (got, k3) = fill_rx k2 in
               if got = 0
               then let (conn, k4) = itsConnected k3 in
                    if \<not> conn \<and> length (c_rxBuf (cs k4)) < 4 then Some (-2, [], k4) else recv_loop c deadline k4
               else recv_loop c deadline k3)"

definition recv_packet :: "crypto \<Rightarrow> u32 \<Rightarrow> 'st client \<Rightarrow> (int \<times> bytes \<times> 'st client) option" where
  "recv_packet c overallMs k =
     (let (now, k1) = xTaskGetTickCount k in recv_loop c (now + overallMs) k1)"

section \<open>Key exchange mathematics\<close>

definition hash_K :: "bytes \<Rightarrow> bytes" where
  "hash_K K =
     (let k = strip_leading_zeros K;
          pad = (k \<noteq> [] \<and> hd k AND 0x80 \<noteq> 0);
          mpLen = of_nat (length k + (if pad then 1 else 0)) :: u32
      in u32_be mpLen @ (if pad then [0] else []) @ k)"

definition hash_string :: "bytes \<Rightarrow> bytes" where
  "hash_string d = u32_be (of_nat (length d)) @ d"

definition client_transcript :: "csess \<Rightarrow> bytes \<Rightarrow> bytes" where
  "client_transcript s kBlob =
     hash_string (c_ourVersion s) @ hash_string (c_peerVersion s) @ hash_string (c_ourKexInit s) @
     hash_string (c_peerKexInit s) @ hash_string kBlob @ hash_string (c_ephPub s) @ hash_string (c_peerEphPub s) @
     hash_K (c_sharedK s)"

definition client_exchange_hash :: "crypto \<Rightarrow> csess \<Rightarrow> bytes \<Rightarrow> bytes" where
  "client_exchange_hash c s kBlob = sha256 c (client_transcript s kBlob)"

function client_derive_blocks :: "crypto \<Rightarrow> csess \<Rightarrow> byte \<Rightarrow> nat \<Rightarrow> bool \<Rightarrow> nat \<Rightarrow> bytes \<Rightarrow> bytes" where
  "client_derive_blocks c s letter outLen first produced out =
     (if produced < outLen then
        let blk = sha256 c (hash_K (c_sharedK s) @ c_sessionId s @
                    (if first then [letter] @ c_sessionId s else take produced out));
            tk = (if outLen - produced > 32 then 32 else outLen - produced)
        in client_derive_blocks c s letter outLen False (produced + tk) (out @ take tk blk)
      else out)"
  by pat_completeness auto
termination
  by (relation "measure (\<lambda>(c, s, letter, outLen, first, produced, out). outLen - produced)")
    (auto simp: Let_def)

declare client_derive_blocks.simps [simp del]

definition client_derive_key :: "crypto \<Rightarrow> csess \<Rightarrow> byte \<Rightarrow> nat \<Rightarrow> bytes" where
  "client_derive_key c s letter outLen = client_derive_blocks c s letter outLen True 0 []"

section \<open>KEXINIT\<close>

definition CLIENT_KEX_NAMES :: string where
  "CLIENT_KEX_NAMES = ''curve25519-sha256,curve25519-sha256@libssh.org''"

definition put_kexinit :: "world \<Rightarrow> bytes \<times> world" where
  "put_kexinit w = (let (cookie, w1) = randomBytes 16 w in (kexinit_body cookie CLIENT_KEX_NAMES, w1))"

text \<open>
  The name-lists of the server: acceptable, or not, with the reason; a message that is too
  short leaves the caller's buffer for the reason as it is (\<open>None\<close>).
\<close>

definition check_kexinit :: "bytes \<Rightarrow> bool \<times> string option" where
  "check_kexinit payload =
     (if length payload < 17 + 4 then (False, None)
      else let (kex, v1) = get_string (view_init (drop 17 payload));
               (hk, v2) = get_string v1;
               (encCs, v3) = get_string v2;
               (encSc, v4) = get_string v3
           in if kex = None \<or> hk = None \<or> encCs = None \<or> encSc = None then (False, None)
              else if \<not> name_in_csv (str ''curve25519-sha256'') (the kex) \<and>
                      \<not> name_in_csv (str ''curve25519-sha256@libssh.org'') (the kex)
              then (False, Some ''server offers no curve25519-sha256 KEX'')
              else if \<not> name_in_csv (str ''ssh-ed25519'') (the hk)
              then (False, Some ''server has no ssh-ed25519 host key'')
              else if \<not> name_in_csv (str ''chacha20-poly1305@openssh.com'') (the encCs) \<or>
                      \<not> name_in_csv (str ''chacha20-poly1305@openssh.com'') (the encSc)
              then (False, Some ''server lacks chacha20-poly1305 cipher'')
              else (True, None))"

section \<open>Host keys\<close>

text \<open>The text in the caller's buffer of \<open>outLen\<close> bytes.\<close>

definition hostkey_fingerprint :: "crypto \<Rightarrow> bytes \<Rightarrow> nat \<Rightarrow> bytes" where
  "hostkey_fingerprint c kBlob outLen =
     (if outLen < 8 then [] else str ''SHA256:'' @ base64_nopad c (sha256 c kBlob) (outLen - 7))"

definition known_hosts_prefix :: string where "known_hosts_prefix = ''s.ssh.known_hosts.''"

definition known_hosts_key :: "nat \<Rightarrow> string" where "known_hosts_key i = known_hosts_prefix @ dec i"

text \<open>The first entry of the host: its index, and whether its fingerprint is the given one.\<close>

fun known_hosts_scan :: "'st storage_api \<Rightarrow> 'st \<Rightarrow> bytes \<Rightarrow> bytes \<Rightarrow> nat list \<Rightarrow> (nat \<times> bool) option" where
  "known_hosts_scan a st host fp [] = None"
| "known_hosts_scan a st host fp (i # is) =
     (case split_space (storageGetStr a st (known_hosts_key i) []) of
        None \<Rightarrow> known_hosts_scan a st host fp is
      | Some (h, f) \<Rightarrow> if h \<noteq> host then known_hosts_scan a st host fp is else Some (i, f = fp))"

text \<open>Proceed or not, the note, and the store.\<close>

definition known_hosts_check :: "'st storage_api \<Rightarrow> bytes \<Rightarrow> bytes \<Rightarrow> 'st \<Rightarrow> bool \<times> bytes \<times> 'st" where
  "known_hosts_check a host fp st =
     (let n = storageArrayCount a st known_hosts_prefix in
      case known_hosts_scan a st host fp [0..<n] of
        Some (i, True) \<Rightarrow> (True, take 199 (str ''host key OK ('' @ fp @ str '')''), st)
      | Some (i, False) \<Rightarrow>
          (False, take 199 (str ''HOST KEY CHANGED for '' @ host @ str ''! got '' @ fp @ [32, 0xE2, 0x80, 0x94] @
             str '' refusing. Clear s.ssh.known_hosts.'' @ str (dec i) @ str '' to override.''), st)
      | None \<Rightarrow>
          (True, take 199 (str ''host key added to known_hosts ('' @ fp @ str '')''),
           storageSetStr a (known_hosts_key n) (c_str (host @ [32] @ fp)) st))"

definition fail_job :: "bytes \<Rightarrow> 'st client \<Rightarrow> 'st client" where
  "fail_job msg k = upd_job (\<lambda>j. j\<lparr>j_rc := 1, j_msg := safeStrncpy 200 msg\<rparr>) k"

definition fail :: "string \<Rightarrow> 'st client \<Rightarrow> bool \<times> 'st client" where
  "fail msg k = (False, fail_job (str msg) k)"

section \<open>Version exchange\<close>

definition CLIENT_VERSION_STR :: string where "CLIENT_VERSION_STR = ''SSH-2.0-spangap-ssh_0.1''"

partial_function (option) version_loop :: "u32 \<Rightarrow> 'st client \<Rightarrow> (bool \<times> 'st client) option" where
  "version_loop deadline k =
     (case split_line (c_rxBuf (cs k)) of
        Some (l, rest) \<Rightarrow>
          let k1 = upd_cs (\<lambda>s. s\<lparr>c_rxBuf := rest\<rparr>) k in
          if take 4 l = str ''SSH-'' then
            (if take 8 l \<noteq> str ''SSH-2.0-'' \<and> take 8 l \<noteq> str ''SSH-1.99''
             then Some (fail ''server is not SSH-2.0'' k1)
             else Some (True, upd_cs (\<lambda>s. s\<lparr>c_peerVersion := l\<rparr>) k1))
          else version_loop deadline k1
      | None \<Rightarrow>
          let (now, k1) = xTaskGetTickCount k in
          if remaining deadline now \<le> 0 then Some (fail ''no SSH banner from server'' k1)
          else let (got, k2) = fill_rx k1 in
               if got = 0
               then let (conn, k3) = itsConnected k2 in
                    if \<not> conn \<and> c_rxBuf (cs k3) = [] then Some (fail ''connection closed during banner'' k3)
                    else version_loop deadline k3
               else version_loop deadline k2)"

definition do_version :: "'st client \<Rightarrow> (bool \<times> 'st client) option" where
  "do_version k =
     (let k1 = upd_cs (\<lambda>s. s\<lparr>c_ourVersion := str CLIENT_VERSION_STR\<rparr>) k;
          k2 = send_raw (c_ourVersion (cs k1) @ [13, 10]) k1;
          (now, k3) = xTaskGetTickCount k2
      in version_loop (now + 10000) k3)"

section \<open>Key exchange\<close>

text \<open>The three strings of KEX\_ECDH\_REPLY, the key in a host key blob, the bytes in a signature.\<close>

definition parse_reply :: "bytes \<Rightarrow> string + bytes \<times> bytes \<times> bytes" where
  "parse_reply pkt =
     (let (ks, v1) = get_string (view_init (drop 1 pkt));
          (qs, v2) = get_string v1;
          (sig, v3) = get_string v2
      in if ks = None then Inl ''bad REPLY (K_S)''
         else if qs = None \<or> length (the qs) \<noteq> 32 then Inl ''bad REPLY (Q_S)''
         else if sig = None then Inl ''bad REPLY (sig)''
         else Inr (the ks, the qs, the sig))"

definition parse_tagged :: "string \<Rightarrow> string \<Rightarrow> nat \<Rightarrow> bytes \<Rightarrow> string + bytes" where
  "parse_tagged bad_alg bad_body n blob =
     (let (alg, v1) = get_string (view_init blob) in
      if alg \<noteq> Some (str ''ssh-ed25519'') then Inl bad_alg
      else case fst (get_string v1) of
             None \<Rightarrow> Inl bad_body
           | Some body \<Rightarrow> if length body \<noteq> n then Inl bad_body else Inr body)"

definition parse_host_key :: "bytes \<Rightarrow> string + bytes" where
  "parse_host_key ks = parse_tagged ''host key not ssh-ed25519'' ''bad host pubkey'' 32 ks"

definition parse_host_sig :: "bytes \<Rightarrow> string + bytes" where
  "parse_host_sig sig = parse_tagged ''host sig not ssh-ed25519'' ''bad host signature'' 64 sig"

text \<open>The reply, up to and including the verification of the host: nothing here waits.\<close>

definition kex_verify_host :: "crypto \<Rightarrow> 'st storage_api \<Rightarrow> bytes \<Rightarrow> bytes \<Rightarrow> bytes \<Rightarrow> 'st client \<Rightarrow> bool \<times> 'st client" where
  "kex_verify_host c a ks hpub sig64 k =
     (case x25519_scalar c (c_ephPriv (cs k)) (c_peerEphPub (cs k)) of
        None \<Rightarrow> fail ''x25519 scalar failed'' k
      | Some K \<Rightarrow>
          let k1 = upd_cs (\<lambda>s. s\<lparr>c_sharedK := K\<rparr>) k;
              H = client_exchange_hash c (cs k1) ks;
              k2 = upd_cs (\<lambda>s. s\<lparr>c_sessionId := H\<rparr>) k1
          in if \<not> ed25519_verify c hpub H sig64 then fail ''HOST SIGNATURE VERIFY FAILED'' k2
             else let fp = hostkey_fingerprint c ks 80;
                      (ok, note, st) = known_hosts_check a (j_host (job k2)) fp (e_store (env k2));
                      k3 = upd_env (\<lambda>e. e\<lparr>e_store := st\<rparr>) k2
                  in if \<not> ok then (False, fail_job note k3)
                     else (True, diag (str ''* '' @ note @ [13, 10]) (info_c (str ''ssh: '' @ note) k3)))"

definition kex_reply :: "crypto \<Rightarrow> 'st storage_api \<Rightarrow> bytes \<Rightarrow> 'st client \<Rightarrow> bool \<times> 'st client" where
  "kex_reply c a pkt k =
     (case parse_reply pkt of
        Inl e \<Rightarrow> fail e k
      | Inr (ks, qs, sig) \<Rightarrow>
          let k1 = upd_cs (\<lambda>s. s\<lparr>c_peerEphPub := qs\<rparr>) k in
          (case parse_host_key ks of
             Inl e \<Rightarrow> fail e k1
           | Inr hpub \<Rightarrow>
               (case parse_host_sig sig of
                  Inl e \<Rightarrow> fail e k1
                | Inr sig64 \<Rightarrow> kex_verify_host c a ks hpub sig64 k1)))"

text \<open>Both directions of NEWKEYS and the keys.\<close>

definition kex_newkeys :: "crypto \<Rightarrow> 'st client \<Rightarrow> (bool \<times> 'st client) option" where
  "kex_newkeys c k =
     (let k1 = client_send c (put_u8 [] MSG_NEWKEYS) k;
          k2 = upd_cs (\<lambda>s. s\<lparr>c_sendKey := client_derive_key c s (of_char (CHR ''C'')) 64\<rparr>) k1;
          k3 = upd_cs (\<lambda>s. s\<lparr>c_recvKey := client_derive_key c s (of_char (CHR ''D'')) 64\<rparr>) k2;
          k4 = upd_cs (\<lambda>s. s\<lparr>c_encOut := True\<rparr>) k3
      in do {
        (t, pkt, k5) \<leftarrow> recv_packet c 15000 k4;
        if t < 0 then Some (fail ''no NEWKEYS from server'' k5)
        else if t \<noteq> uint MSG_NEWKEYS then Some (fail ''expected NEWKEYS'' k5)
        else Some (True, upd_cs (\<lambda>s. s\<lparr>c_encIn := True\<rparr>) k5)
      })"

definition kex_ecdh :: "crypto \<Rightarrow> 'st storage_api \<Rightarrow> 'st client \<Rightarrow> (bool \<times> 'st client) option" where
  "kex_ecdh c a k =
     (let (priv, w1) = randomBytes 32 (world_of k);
          k1 = upd_cs (\<lambda>s. s\<lparr>c_ephPriv := priv\<rparr>) (set_world w1 k)
      in case x25519_base c priv of
           None \<Rightarrow> Some (fail ''x25519 base failed'' k1)
         | Some pub \<Rightarrow>
             let k2 = upd_cs (\<lambda>s. s\<lparr>c_ephPub := pub\<rparr>) k1;
                 k3 = client_send c (put_string (put_u8 [] MSG_KEX_ECDH_INIT) (c_ephPub (cs k2))) k2
             in do {
               (t, pkt, k4) \<leftarrow> recv_packet c 15000 k3;
               if t < 0 then Some (fail ''no KEX_ECDH_REPLY'' k4)
               else if t \<noteq> uint MSG_KEX_ECDH_REPLY then Some (fail ''expected KEX_ECDH_REPLY'' k4)
               else let (ok, k5) = kex_reply c a pkt k4 in if \<not> ok then Some (False, k5) else kex_newkeys c k5
             })"

definition do_kex :: "crypto \<Rightarrow> 'st storage_api \<Rightarrow> 'st client \<Rightarrow> (bool \<times> 'st client) option" where
  "do_kex c a k =
     (let (ours, w1) = put_kexinit (world_of k);
          k1 = upd_cs (\<lambda>s. s\<lparr>c_ourKexInit := ours\<rparr>) (set_world w1 k);
          k2 = client_send c (c_ourKexInit (cs k1)) k1
      in do {
        (t, pkt, k3) \<leftarrow> recv_packet c 15000 k2;
        if t < 0 then Some (fail ''no KEXINIT from server'' k3)
        else if t \<noteq> uint MSG_KEXINIT then Some (fail ''expected KEXINIT'' k3)
        else let k4 = upd_cs (\<lambda>s. s\<lparr>c_peerKexInit := pkt\<rparr>) k3 in
             case check_kexinit pkt of
               (False, e) \<Rightarrow> Some (False, fail_job (case e of None \<Rightarrow> stack120 (env k4) | Some m \<Rightarrow> str m) k4)
             | (True, _) \<Rightarrow> kex_ecdh c a k4
      })"

section \<open>Frames of the client steps\<close>

lemma client_updates [simp]:
  "cs (upd_cs f k) = f (cs k)" "job (upd_cs f k) = job k" "env (upd_cs f k) = env k"
  "cs (upd_job g k) = cs k" "job (upd_job g k) = g (job k)" "env (upd_job g k) = env k"
  "cs (upd_env h k) = cs k" "job (upd_env h k) = job k" "env (upd_env h k) = h (env k)"
  by (simp_all add: upd_cs_def upd_job_def upd_env_def)

lemma set_world_frame [simp]:
  "cs (set_world w k) = cs k" "job (set_world w k) = job k" "e_store (env (set_world w k)) = e_store (env k)"
  "world_of (set_world w k) = w" "pipe_out (env (set_world w k)) = pipe_out (env k)"
  "tick_ans (env (set_world w k)) = tick_ans (env k)" "tick_cnt (env (set_world w k)) = tick_cnt (env k)"
  by (simp_all add: set_world_def world_of_def)

text \<open>
  What waiting for a packet may change: the receive buffer and count, the world and the
  counters of the answers; neither the job nor the host table nor the output.
\<close>

definition waits :: "'st client \<Rightarrow> 'st client \<Rightarrow> bool" where
  "waits k k' \<longleftrightarrow>
     cs k' = (cs k)\<lparr>c_rxBuf := c_rxBuf (cs k'), c_seqIn := c_seqIn (cs k')\<rparr> \<and> job k' = job k \<and>
     e_store (env k') = e_store (env k) \<and> pipe_out (env k') = pipe_out (env k)"

lemma waits_refl [simp]: "waits k k"
  by (simp add: waits_def)

lemma waits_trans: "waits k1 k2 \<Longrightarrow> waits k2 k3 \<Longrightarrow> waits k1 k3"
  unfolding waits_def by (metis (no_types, lifting) csess.surjective csess.update_convs(2,17))

lemma waits_steps [frame]:
  "waits k (snd (xTaskGetTickCount k))" "waits k (snd (itsConnected k))" "waits k (snd (fill_rx k))"
  "waits k (snd (try_parse c k))" "waits k (set_world w k)"
  by (auto simp: waits_def xTaskGetTickCount_def itsConnected_def fill_rx_def try_parse_def Let_def split_beta
      split: parse_result.split)

lemma recv_loop_waits: "recv_loop c deadline k = Some r \<Longrightarrow> waits k (snd (snd r))"
proof (rule recv_loop.raw_induct [where P = "\<lambda>c d k r. waits k (snd (snd r))"])
  fix rl and c :: crypto and d :: u32 and k :: "'a client" and r
  assume ih: "\<And>c d k r. rl c d k = Some r \<Longrightarrow> waits k (snd (snd r))"
    and body: "(let (r, k1) = try_parse c k in
      case r of
        Packet out rest \<Rightarrow>
          if out \<noteq> [] \<and> (hd out = MSG_IGNORE \<or> hd out = MSG_DEBUG) then rl c d k1
          else Some (if out = [] then -1 else uint (hd out), out, k1)
      | FramingError \<Rightarrow> Some (-1, [], k1)
      | NeedMore \<Rightarrow>
          let (now, k2) = xTaskGetTickCount k1 in
          if remaining d now \<le> 0 then Some (0, [], k2)
          else let (got, k3) = fill_rx k2 in
               if got = 0
               then let (conn, k4) = itsConnected k3 in
                    if \<not> conn \<and> length (c_rxBuf (cs k4)) < 4 then Some (-2, [], k4) else rl c d k4
               else rl c d k3) = Some r"
  obtain pr k1 where tp: "try_parse c k = (pr, k1)" and w1: "waits k k1"
    using waits_steps(4) [of k c] by (metis prod.exhaust snd_conv)
  obtain now k2 where tick: "xTaskGetTickCount k1 = (now, k2)" and w2: "waits k k2"
    using waits_steps(1) [of k1] waits_trans [OF w1] by (metis prod.exhaust snd_conv)
  obtain got k3 where fill: "fill_rx k2 = (got, k3)" and w3: "waits k k3"
    using waits_steps(3) [of k2] waits_trans [OF w2] by (metis prod.exhaust snd_conv)
  obtain conn k4 where con: "itsConnected k3 = (conn, k4)" and w4: "waits k k4"
    using waits_steps(2) [of k3] waits_trans [OF w3] by (metis prod.exhaust snd_conv)
  from body show "waits k (snd (snd r))"
    unfolding tp tick fill con Let_def prod.case
    using w1 w2 w4 waits_trans [OF w1 ih] waits_trans [OF w3 ih] waits_trans [OF w4 ih]
    by (cases pr) (auto split: if_splits)
qed

lemma recv_packet_waits: "recv_packet c ms k = Some (t, out, k') \<Longrightarrow> waits k k'"
  using recv_loop_waits [of c _ "snd (xTaskGetTickCount k)"] waits_trans [OF waits_steps(1)]
  by (fastforce simp: recv_packet_def split_beta)

text \<open>A packet is delivered under its type; the other answers come without one.\<close>

lemma recv_loop_type: "recv_loop c deadline k = Some r \<Longrightarrow>
  (case r of (t, out, k') \<Rightarrow> -2 \<le> t \<and> t < 256 \<and> (0 < t \<longrightarrow> out \<noteq> [] \<and> t = uint (hd out)) \<and> (t < 0 \<longrightarrow> out = []))"
proof (rule recv_loop.raw_induct [where P = "\<lambda>c d k r. (case r of (t, out, k') \<Rightarrow> -2 \<le> t \<and> t < 256 \<and>
    (0 < t \<longrightarrow> out \<noteq> [] \<and> t = uint (hd out)) \<and> (t < 0 \<longrightarrow> out = []))"])
  fix rl and c :: crypto and d :: u32 and k :: "'a client" and r
  assume ih: "\<And>c d k r. rl c d k = Some r \<Longrightarrow> (case r of (t, out, k') \<Rightarrow> -2 \<le> t \<and> t < 256 \<and>
      (0 < t \<longrightarrow> out \<noteq> [] \<and> t = uint (hd out)) \<and> (t < 0 \<longrightarrow> out = []))"
    and body: "(let (r, k1) = try_parse c k in
      case r of
        Packet out rest \<Rightarrow>
          if out \<noteq> [] \<and> (hd out = MSG_IGNORE \<or> hd out = MSG_DEBUG) then rl c d k1
          else Some (if out = [] then -1 else uint (hd out), out, k1)
      | FramingError \<Rightarrow> Some (-1, [], k1)
      | NeedMore \<Rightarrow>
          let (now, k2) = xTaskGetTickCount k1 in
          if remaining d now \<le> 0 then Some (0, [], k2)
          else let (got, k3) = fill_rx k2 in
               if got = 0
               then let (conn, k4) = itsConnected k3 in
                    if \<not> conn \<and> length (c_rxBuf (cs k4)) < 4 then Some (-2, [], k4) else rl c d k4
               else rl c d k3) = Some r"
  have "-2 \<le> uint b \<and> uint b < 256" for b :: byte
    using uint_lt2p [of b] order_trans [OF _ uint_ge_0 [of b], of "-2"] by simp
  then show "case r of (t, out, k') \<Rightarrow> -2 \<le> t \<and> t < 256 \<and>
      (0 < t \<longrightarrow> out \<noteq> [] \<and> t = uint (hd out)) \<and> (t < 0 \<longrightarrow> out = [])"
    using body ih unfolding Let_def split_beta
    by (cases "fst (try_parse c k)") (auto split: if_splits)
qed

text \<open>Waiting ends when the clock reaches the deadline at some later reading.\<close>

definition ticks :: "'st client \<Rightarrow> nat \<Rightarrow> u32" where
  "ticks k n = tick_ans (env k) (tick_cnt (env k) + n)"

lemma ticks_frame [simp]:
  "ticks (upd_cs f k) = ticks k" "ticks (set_world w k) = ticks k" "ticks (snd (fill_rx k)) = ticks k"
  "ticks (snd (itsConnected k)) = ticks k" "ticks (snd (try_parse c k)) = ticks k"
  by (auto simp: ticks_def fill_rx_def itsConnected_def try_parse_def Let_def split_beta fun_eq_iff
      split: parse_result.split)

lemma ticks_tick: "fst (xTaskGetTickCount k) = ticks k 0"
  "ticks (snd (xTaskGetTickCount k)) n = ticks k (Suc n)"
  by (simp_all add: ticks_def xTaskGetTickCount_def)

lemma try_parse_shorter:
  "try_parse c k = (Packet p rest, k1) \<Longrightarrow> length (c_rxBuf (cs k1)) < length (c_rxBuf (cs k))"
  using parse_plain_Packet(1) [of "c_rxBuf (cs k)" p rest] parse_encrypted_Packet(1) [of c "c_recvKey (cs k)" "c_seqIn (cs k)" "c_rxBuf (cs k)" p rest]
  by (auto simp: try_parse_def Let_def split: parse_result.splits if_splits)

lemma recv_loop_returns:
  "remaining deadline (ticks k n) \<le> 0 \<Longrightarrow> \<exists>r. recv_loop c deadline k = Some r"
proof (induction n arbitrary: k)
  case 0
  then show ?case
  proof (induction "length (c_rxBuf (cs k))" arbitrary: k rule: less_induct)
    case less
    obtain pr k1 where tp: "try_parse c k = (pr, k1)"
      by fastforce
    have t: "ticks k1 = ticks k"
      using ticks_frame(5) [of c k] tp by simp
    show ?case
    proof (cases pr)
      case (Packet p rest)
      then have "\<exists>r. recv_loop c deadline k1 = Some r"
        using less try_parse_shorter [of c k p rest k1] tp t by simp
      then show ?thesis
        by (subst recv_loop.simps) (simp add: tp Packet)
    next
      case NeedMore
      then show ?thesis
        using less.prems t ticks_tick(1) [of k1] by (subst recv_loop.simps) (simp add: tp split_beta Let_def)
    qed (subst recv_loop.simps, simp add: tp)
  qed
next
  case (Suc n)
  from Suc.prems show ?case
  proof (induction "length (c_rxBuf (cs k))" arbitrary: k rule: less_induct)
    case less
    obtain pr k1 where tp: "try_parse c k = (pr, k1)"
      by fastforce
    have t: "ticks k1 = ticks k"
      using ticks_frame(5) [of c k] tp by simp
    let ?k2 = "snd (xTaskGetTickCount k1)"
    have "ticks ?k2 n = ticks k (Suc n)"
      using ticks_tick(2) [of k1] t by simp
    then obtain r1 r2 where "recv_loop c deadline (snd (fill_rx ?k2)) = Some r1"
      "recv_loop c deadline (snd (itsConnected (snd (fill_rx ?k2)))) = Some r2"
      using less.prems Suc.IH [of "snd (fill_rx ?k2)"] Suc.IH [of "snd (itsConnected (snd (fill_rx ?k2)))"] by auto
    note more = this
    show ?case
    proof (cases pr)
      case (Packet p rest)
      then obtain r where "recv_loop c deadline k1 = Some r"
        using less.hyps [of k1] less.prems try_parse_shorter [of c k p rest k1] tp t by auto
      then show ?thesis
        by (subst recv_loop.simps) (simp add: tp Packet del: split_paired_Ex)
    next
      case NeedMore
      then show ?thesis
        using more by (subst recv_loop.simps) (simp add: tp split_beta Let_def del: split_paired_Ex)
    qed (subst recv_loop.simps, simp add: tp)
  qed
qed

section \<open>The host table as a map\<close>

text \<open>
  What the table stands for: the fingerprint of the first entry of each host.  Documented
  behaviour of the store, as far as the table needs it: writing the entry after the last one
  appends it and leaves the others alone.
\<close>

fun known_in :: "'st storage_api \<Rightarrow> 'st \<Rightarrow> nat list \<Rightarrow> bytes \<Rightarrow> bytes option" where
  "known_in a st [] host = None"
| "known_in a st (i # is) host =
     (case split_space (storageGetStr a st (known_hosts_key i) []) of
        None \<Rightarrow> known_in a st is host
      | Some (h, f) \<Rightarrow> if h = host then Some f else known_in a st is host)"

definition known_map :: "'st storage_api \<Rightarrow> 'st \<Rightarrow> bytes \<Rightarrow> bytes option" where
  "known_map a st = known_in a st [0..<storageArrayCount a st known_hosts_prefix]"

definition known_hosts_laws :: "'st storage_api \<Rightarrow> bool" where
  "known_hosts_laws a \<longleftrightarrow>
     (\<forall>st v. let n = storageArrayCount a st known_hosts_prefix; st' = storageSetStr a (known_hosts_key n) v st in
        storageArrayCount a st' known_hosts_prefix = n + 1 \<and> storageGetStr a st' (known_hosts_key n) [] = v \<and>
        (\<forall>i < n. storageGetStr a st' (known_hosts_key i) [] = storageGetStr a st (known_hosts_key i) []))"

lemma known_hosts_scan_map:
  "map_option snd (known_hosts_scan a st host fp is) = map_option (\<lambda>f. f = fp) (known_in a st is host)"
  by (induction "is") (auto split: option.split)

lemma known_in_cong:
  "(\<And>i. i \<in> set is \<Longrightarrow> storageGetStr a st' (known_hosts_key i) [] = storageGetStr a st (known_hosts_key i) []) \<Longrightarrow>
     known_in a st' is = known_in a st is"
  by (induction "is") (auto simp: fun_eq_iff split: option.split)

lemma known_in_append:
  "known_in a st (is @ js) host = (case known_in a st is host of None \<Rightarrow> known_in a st js host | Some f \<Rightarrow> Some f)"
  by (induction "is") (auto split: option.split)

text \<open>A name the table can hold: no space, no NUL.\<close>

definition host_name_ok :: "bytes \<Rightarrow> bool" where
  "host_name_ok host \<longleftrightarrow> 32 \<notin> set host \<and> 0 \<notin> set host"

lemma known_map_append:
  fixes a :: "'st storage_api" and st :: 'st
  assumes "known_hosts_laws a" and "host_name_ok host" and "0 \<notin> set fp"
  defines "st' \<equiv> storageSetStr a (known_hosts_key (storageArrayCount a st known_hosts_prefix)) (c_str (host @ [32] @ fp)) st"
  shows "known_map a st' h =
    (case known_map a st h of None \<Rightarrow> if h = host then Some fp else None | Some f \<Rightarrow> Some f)"
proof -
  let ?n = "storageArrayCount a st known_hosts_prefix"
  have law: "storageArrayCount a st' known_hosts_prefix = ?n + 1"
      "storageGetStr a st' (known_hosts_key ?n) [] = c_str (host @ [32] @ fp)"
      "\<And>i. i < ?n \<Longrightarrow> storageGetStr a st' (known_hosts_key i) [] = storageGetStr a st (known_hosts_key i) []"
    using assms(1) by (simp_all add: known_hosts_laws_def st'_def Let_def)
  have "c_str (host @ [32] @ fp) = host @ 32 # fp"
    using assms(2,3) by (auto simp: c_str_def takeWhile_eq_all_conv host_name_ok_def)
  then have "split_space (storageGetStr a st' (known_hosts_key ?n) []) = Some (host, fp)"
    using assms(2) law(2) by (simp add: split_space_Some host_name_ok_def)
  moreover have "known_in a st' [0..<?n] = known_in a st [0..<?n]"
    using law(3) by (intro known_in_cong) simp
  ultimately show ?thesis
    by (auto simp: known_map_def law(1) known_in_append split: option.split)
qed

lemma known_hosts_check_cases:
  obtains (new) "known_map a st host = None"
      "known_hosts_check a host fp st = (True, take 199 (str ''host key added to known_hosts ('' @ fp @ str '')''),
         storageSetStr a (known_hosts_key (storageArrayCount a st known_hosts_prefix)) (c_str (host @ [32] @ fp)) st)"
  | (known) msg where "known_map a st host = Some fp" "known_hosts_check a host fp st = (True, msg, st)"
  | (changed) msg f where "known_map a st host = Some f" "f \<noteq> fp" "known_hosts_check a host fp st = (False, msg, st)"
proof -
  have scan: "map_option snd (known_hosts_scan a st host fp [0..<storageArrayCount a st known_hosts_prefix]) =
      map_option (\<lambda>f. f = fp) (known_map a st host)"
    by (simp add: known_hosts_scan_map known_map_def)
  show thesis
  proof (cases "known_hosts_scan a st host fp [0..<storageArrayCount a st known_hosts_prefix]")
    case None
    with scan new show thesis
      by (simp add: known_hosts_check_def)
  next
    case (Some p)
    then obtain i b where p: "known_hosts_scan a st host fp [0..<storageArrayCount a st known_hosts_prefix] = Some (i, b)"
      by (cases p) simp
    with scan obtain f where f: "known_map a st host = Some f" "b \<longleftrightarrow> f = fp"
      by (cases "known_map a st host") auto
    show thesis
    proof (cases b)
      case True
      with p f known show thesis
        by (simp add: known_hosts_check_def)
    next
      case False
      with p f changed show thesis
        by (simp add: known_hosts_check_def)
    qed
  qed
qed

text \<open>
  C17: Trust on first use: the table is a map from hosts to fingerprints that is never
  overwritten.  A host key is accepted exactly when the host is unknown or known with this
  fingerprint; afterwards an accepted host is known with it, and what is known of every other
  host (and of a refused one) is unchanged.  So after a first contact only the same key is
  accepted, for ever.
\<close>

theorem known_hosts_trust_on_first_use:
  assumes "known_hosts_laws a" and "host_name_ok host" and "0 \<notin> set fp" and "known_hosts_check a host fp st = (ok, msg, st')"
  shows "(ok \<longleftrightarrow> known_map a st host \<in> {None, Some fp}) \<and>
    known_map a st' = (if known_map a st host = None then (known_map a st)(host \<mapsto> fp) else known_map a st) \<and>
    (ok \<longrightarrow> (\<forall>fp'. fst (known_hosts_check a host fp' st') \<longleftrightarrow> fp' = fp))"
proof -
  have decide: "fst (known_hosts_check a host g s) \<longleftrightarrow> known_map a s host \<in> {None, Some g}" for g s
    by (cases rule: known_hosts_check_cases [of a s host g]) auto
  have upd: "known_map a st' = (if known_map a st host = None then (known_map a st)(host \<mapsto> fp) else known_map a st)"
  proof (cases rule: known_hosts_check_cases [of a st host fp])
    case new
    with assms(4) show ?thesis
      using known_map_append [OF assms(1-3), of st] by (auto simp: fun_eq_iff split: option.split)
  qed (use assms(4) in auto)
  have ok: "ok \<longleftrightarrow> known_map a st host \<in> {None, Some fp}"
    using decide [of fp st] assms(4) by simp
  moreover have "fst (known_hosts_check a host fp' st') \<longleftrightarrow> fp' = fp" if ok for fp'
    unfolding decide upd using ok that by auto
  ultimately show ?thesis
    using upd by blast
qed

definition sample_hosts :: "bytes list storage_api" where
  "sample_hosts =
     \<lparr>storageGetStr = (\<lambda>st k d. case index_of (\<lambda>i. k = known_hosts_key i) [0..<length st] of None \<Rightarrow> d | Some i \<Rightarrow> st ! i),
      storageGetInt = (\<lambda>st k d. d), storageArrayCount = (\<lambda>st k. length st), storageSetStr = (\<lambda>k v st. st @ [v]),
      storageSetInt = (\<lambda>k v st. st), storageUnset = (\<lambda>k st. st), storageDeleteTree = (\<lambda>k st. []),
      storageDefaultStr = (\<lambda>k v st. st), storageDefaultInt = (\<lambda>k v st. st), storageDefaultTree = (\<lambda>k v st. st),
      storageBegin = (\<lambda>st. st), storageEnd = (\<lambda>st. st)\<rparr>"

lemma sample_hosts_get: "i < length st \<Longrightarrow> storageGetStr sample_hosts st (known_hosts_key i) [] = st ! i"
proof -
  assume i: "i < length st"
  define p where "p = (\<lambda>j. known_hosts_key i = known_hosts_key j)"
  have p: "p j \<longleftrightarrow> i = j" for j
    by (simp add: p_def known_hosts_key_def dec_inj)
  have "index_of p [0..<length st] \<noteq> None"
    using i p by (auto simp: index_of_None)
  then have "index_of p [0..<length st] = Some i"
    using index_of_Some [of p "[0..<length st]"] p by auto
  then show ?thesis
    by (simp add: sample_hosts_def p_def)
qed

lemma sample_hosts_laws: "known_hosts_laws sample_hosts"
proof -
  have "storageGetStr sample_hosts (st @ [v]) (known_hosts_key i) [] = (st @ [v]) ! i" if "i \<le> length st" for st v i
    using that by (intro sample_hosts_get) simp
  moreover have "storageArrayCount sample_hosts st k = length st" "storageSetStr sample_hosts k v st = st @ [v]" for st k v
    by (simp_all add: sample_hosts_def)
  ultimately show ?thesis
    by (simp add: known_hosts_laws_def Let_def sample_hosts_get nth_append)
qed

theorem known_hosts_trust_on_first_use_witness:
  "\<not> fst (known_hosts_check sample_hosts (str ''h'') (str ''SHA256:b'')
     (snd (snd (known_hosts_check sample_hosts (str ''h'') (str ''SHA256:a'') []))))"
proof -
  obtain ok msg st' where chk: "known_hosts_check sample_hosts (str ''h'') (str ''SHA256:a'') [] = (ok, msg, st')"
    by (metis prod.exhaust)
  have "host_name_ok (str ''h'')" and "0 \<notin> set (str ''SHA256:a'')"
    by (simp_all add: host_name_ok_def str_def)
  note trust = known_hosts_trust_on_first_use [OF sample_hosts_laws this chk]
  have "known_map sample_hosts [] = (\<lambda>_. None)"
    by (simp add: known_map_def sample_hosts_def fun_eq_iff)
  with trust have "ok" and "\<forall>fp'. fst (known_hosts_check sample_hosts (str ''h'') fp' st') \<longleftrightarrow> fp' = str ''SHA256:a''"
    by simp_all
  then show ?thesis
    by (simp add: chk)
qed

section \<open>What a successful key exchange establishes\<close>

lemma waitsE:
  assumes "waits k k'"
  obtains rx n where "cs k' = (cs k)\<lparr>c_rxBuf := rx, c_seqIn := n\<rparr>" and "job k' = job k"
    and "e_store (env k') = e_store (env k)"
  using assms unfolding waits_def by blast

lemma client_send_frame [simp]:
  "cs (client_send c p k) = (cs k)\<lparr>c_seqOut := c_seqOut (cs k) + 1\<rparr>" "job (client_send c p k) = job k"
  "e_store (env (client_send c p k)) = e_store (env k)" "pipe_out (env (client_send c p k)) = pipe_out (env k)"
  by (simp_all add: client_send_def send_raw_def split_beta Let_def)

lemma client_derive_key_cong:
  assumes "c_sharedK s' = c_sharedK s" and "c_sessionId s' = c_sessionId s"
  shows "client_derive_key c s' letter n = client_derive_key c s letter n"
proof -
  have "client_derive_blocks c s' letter n first produced out = client_derive_blocks c s letter n first produced out" for first produced out
    using assms
  proof (induction c s letter n first produced out rule: client_derive_blocks.induct)
    case (1 c s letter n first produced out)
    then show ?case
      unfolding client_derive_blocks.simps [of c s' letter n first produced out]
        client_derive_blocks.simps [of c s letter n first produced out]
      by (auto simp: Let_def)
  qed
  then show ?thesis
    by (simp add: client_derive_key_def)
qed

lemma client_exchange_hash_cong:
  assumes "c_ourVersion s' = c_ourVersion s" "c_peerVersion s' = c_peerVersion s" "c_ourKexInit s' = c_ourKexInit s"
    "c_peerKexInit s' = c_peerKexInit s" "c_ephPub s' = c_ephPub s" "c_peerEphPub s' = c_peerEphPub s"
    "c_sharedK s' = c_sharedK s"
  shows "client_exchange_hash c s' kBlob = client_exchange_hash c s kBlob"
  using assms by (simp add: client_exchange_hash_def client_transcript_def)

text \<open>The state of a session whose keys are in use and whose server has been authenticated.\<close>

definition kex_done :: "crypto \<Rightarrow> bytes \<Rightarrow> csess \<Rightarrow> bool" where
  "kex_done c ks s \<longleftrightarrow>
     (\<exists>hpub sig64. parse_host_key ks = Inr hpub \<and> ed25519_verify c hpub (c_sessionId s) sig64) \<and>
     c_sessionId s = client_exchange_hash c s ks \<and> fst (check_kexinit (c_peerKexInit s)) \<and>
     x25519_base c (c_ephPriv s) = Some (c_ephPub s) \<and> x25519_scalar c (c_ephPriv s) (c_peerEphPub s) = Some (c_sharedK s)"

definition keys_in_use :: "crypto \<Rightarrow> csess \<Rightarrow> bool" where
  "keys_in_use c s \<longleftrightarrow> c_encOut s \<and> c_encIn s \<and> c_sendKey s = client_derive_key c s (of_char (CHR ''C'')) 64 \<and>
     c_recvKey s = client_derive_key c s (of_char (CHR ''D'')) 64"

lemma kex_newkeys_True:
  assumes "kex_newkeys c k = Some (True, k')"
  shows "keys_in_use c (cs k')" and "kex_done c ks (cs k') = kex_done c ks (cs k)" and "job k' = job k"
    and "e_store (env k') = e_store (env k)"
proof -
  let ?s1 = "(cs k)\<lparr>c_seqOut := c_seqOut (cs k) + 1\<rparr>"
  let ?s2 = "?s1\<lparr>c_sendKey := client_derive_key c ?s1 (of_char (CHR ''C'')) 64\<rparr>"
  let ?s3 = "?s2\<lparr>c_recvKey := client_derive_key c ?s2 (of_char (CHR ''D'')) 64, c_encOut := True\<rparr>"
  define k4 where "k4 = upd_cs (\<lambda>s. s\<lparr>c_encOut := True\<rparr>) (upd_cs (\<lambda>s. s\<lparr>c_recvKey := client_derive_key c s (of_char (CHR ''D'')) 64\<rparr>)
    (upd_cs (\<lambda>s. s\<lparr>c_sendKey := client_derive_key c s (of_char (CHR ''C'')) 64\<rparr>) (client_send c (put_u8 [] MSG_NEWKEYS) k)))"
  have k4: "cs k4 = ?s3" "job k4 = job k" "e_store (env k4) = e_store (env k)"
    by (simp_all add: k4_def)
  obtain t pkt k5 where recv: "recv_packet c 15000 k4 = Some (t, pkt, k5)"
    and k': "k' = upd_cs (\<lambda>s. s\<lparr>c_encIn := True\<rparr>) k5"
    using assms by (auto simp: kex_newkeys_def k4_def Let_def fail_def split: bind_splits if_splits)
  obtain rx n where k5: "cs k5 = ?s3\<lparr>c_rxBuf := rx, c_seqIn := n\<rparr>" "job k5 = job k" "e_store (env k5) = e_store (env k)"
    by (rule waitsE [OF recv_packet_waits [OF recv]]) (simp add: k4)
  have s: "cs k' = ?s3\<lparr>c_rxBuf := rx, c_seqIn := n, c_encIn := True\<rparr>"
    by (simp add: k' k5)
  show "job k' = job k" and "e_store (env k') = e_store (env k)"
    by (simp_all add: k' k5)
  have keys: "client_derive_key c ?s1 l 64 = client_derive_key c (cs k') l 64"
      "client_derive_key c ?s2 l 64 = client_derive_key c (cs k') l 64" for l
    by (rule client_derive_key_cong; simp add: s)+
  have "c_encOut (cs k')" and "c_encIn (cs k')" and "c_sendKey (cs k') = client_derive_key c ?s1 (of_char (CHR ''C'')) 64"
    and "c_recvKey (cs k') = client_derive_key c ?s2 (of_char (CHR ''D'')) 64"
    by (simp_all add: s)
  then show "keys_in_use c (cs k')"
    using keys(1) [of "of_char (CHR ''C'')"] keys(2) [of "of_char (CHR ''D'')"] by (simp only: keys_in_use_def simp_thms)
  have "client_exchange_hash c (cs k') ks = client_exchange_hash c (cs k) ks"
    by (rule client_exchange_hash_cong) (simp_all add: s)
  then show "kex_done c ks (cs k') = kex_done c ks (cs k)"
    unfolding kex_done_def by (simp add: s)
qed

lemma kex_reply_True:
  assumes "kex_reply c a pkt k = (True, k')" and "x25519_base c (c_ephPriv (cs k)) = Some (c_ephPub (cs k))"
    and "fst (check_kexinit (c_peerKexInit (cs k)))"
  obtains ks where "kex_done c ks (cs k')" and "job k' = job k"
    and "fst (known_hosts_check a (j_host (job k)) (hostkey_fingerprint c ks 80) (e_store (env k)))"
    and "e_store (env k') = snd (snd (known_hosts_check a (j_host (job k)) (hostkey_fingerprint c ks 80) (e_store (env k))))"
proof -
  obtain ks qs sig hpub sig64 where reply: "parse_reply pkt = Inr (ks, qs, sig)" "parse_host_key ks = Inr hpub"
      "parse_host_sig sig = Inr sig64"
    and verify: "kex_verify_host c a ks hpub sig64 (upd_cs (\<lambda>s. s\<lparr>c_peerEphPub := qs\<rparr>) k) = (True, k')"
    using assms(1) by (auto simp: kex_reply_def fail_def Let_def split: sum.splits)
  define k1 where "k1 = upd_cs (\<lambda>s. s\<lparr>c_peerEphPub := qs\<rparr>) k"
  obtain K where K: "x25519_scalar c (c_ephPriv (cs k1)) (c_peerEphPub (cs k1)) = Some K"
    using verify by (auto simp: kex_verify_host_def k1_def fail_def split: option.splits)
  define k2 where "k2 = upd_cs (\<lambda>s. s\<lparr>c_sharedK := K\<rparr>) k1"
  define H where "H = client_exchange_hash c (cs k2) ks"
  define k3 where "k3 = upd_cs (\<lambda>s. s\<lparr>c_sessionId := H\<rparr>) k2"
  obtain ok msg st where chk: "known_hosts_check a (j_host (job k3)) (hostkey_fingerprint c ks 80) (e_store (env k3)) = (ok, msg, st)"
    by (metis prod.exhaust)
  have sig: "ed25519_verify c hpub H sig64" and ok: "ok"
    and k': "k' = diag (str ''* '' @ msg @ [13, 10]) (info_c (str ''ssh: '' @ msg) (upd_env (\<lambda>e. e\<lparr>e_store := st\<rparr>) k3))"
    using verify K chk by (auto simp: kex_verify_host_def k1_def [symmetric] k2_def [symmetric] H_def [symmetric]
        k3_def [symmetric] fail_def Let_def split: if_splits)
  have final: "cs k' = (cs k)\<lparr>c_peerEphPub := qs, c_sharedK := K, c_sessionId := H\<rparr>" "job k' = job k"
      "e_store (env k') = st"
    by (simp_all add: k' diag_def info_c_def Let_def k3_def k2_def k1_def)
  have "kex_done c ks (cs k')"
    using reply(2) sig K assms(2,3)
    by (auto simp: kex_done_def final H_def k2_def k1_def intro!: client_exchange_hash_cong)
  then show thesis
    by (rule that) (use chk ok final in \<open>simp_all add: k3_def k2_def k1_def\<close>)
qed

lemma kex_ecdh_True:
  assumes "kex_ecdh c a k = Some (True, k')" and "fst (check_kexinit (c_peerKexInit (cs k)))"
  obtains ks where "kex_done c ks (cs k')" and "keys_in_use c (cs k')"
    and "fst (known_hosts_check a (j_host (job k)) (hostkey_fingerprint c ks 80) (e_store (env k)))"
    and "e_store (env k') = snd (snd (known_hosts_check a (j_host (job k)) (hostkey_fingerprint c ks 80) (e_store (env k))))"
proof -
  obtain priv w1 where rnd: "randomBytes 32 (world_of k) = (priv, w1)"
    by fastforce
  then obtain pub where pub: "x25519_base c priv = Some pub"
    using assms(1) by (cases "x25519_base c priv") (auto simp: kex_ecdh_def fail_def Let_def)
  define k3 where "k3 = client_send c (put_string (put_u8 [] MSG_KEX_ECDH_INIT) pub)
    (upd_cs (\<lambda>s. s\<lparr>c_ephPub := pub\<rparr>) (upd_cs (\<lambda>s. s\<lparr>c_ephPriv := priv\<rparr>) (set_world w1 k)))"
  obtain t pkt k4 k5 where recv: "recv_packet c 15000 k3 = Some (t, pkt, k4)"
    and reply: "kex_reply c a pkt k4 = (True, k5)" and newkeys: "kex_newkeys c k5 = Some (True, k')"
    using assms(1) rnd pub by (auto simp: kex_ecdh_def fail_def Let_def k3_def split: bind_splits if_splits prod.splits)
  obtain rx n where k4: "cs k4 = (cs k3)\<lparr>c_rxBuf := rx, c_seqIn := n\<rparr>" "job k4 = job k3" "e_store (env k4) = e_store (env k3)"
    by (rule waitsE [OF recv_packet_waits [OF recv]])
  have base: "x25519_base c (c_ephPriv (cs k4)) = Some (c_ephPub (cs k4))" "fst (check_kexinit (c_peerKexInit (cs k4)))"
    and frame: "job k4 = job k" "e_store (env k4) = e_store (env k)"
    using pub assms(2) by (simp_all add: k4 k3_def)
  obtain ks where "kex_done c ks (cs k5)"
    and hosts: "fst (known_hosts_check a (j_host (job k)) (hostkey_fingerprint c ks 80) (e_store (env k)))"
    "e_store (env k5) = snd (snd (known_hosts_check a (j_host (job k)) (hostkey_fingerprint c ks 80) (e_store (env k))))"
    by (rule kex_reply_True [OF reply base]) (simp add: frame)
  then have "kex_done c ks (cs k')"
    using kex_newkeys_True(2) [OF newkeys] by simp
  then show thesis
    by (rule that) (use hosts kex_newkeys_True [OF newkeys] in simp_all)
qed

section \<open>Properties of the client transport\<close>

text \<open>
  C16: A key exchange that succeeds has authenticated the server: the server offered the
  algorithms the client speaks; the session identifier is the exchange hash of this session
  over both versions, both KEXINITs, the presented host key and both key shares; the
  signature over it verifies under that host key; the key's fingerprint was new for this host
  or the one remembered for it, and is remembered afterwards; and both directions are
  encrypted under the keys derived from this exchange.
\<close>

theorem do_kex_authenticates_server:
  assumes "do_kex c a k = Some (True, k')"
  shows "\<exists>ks hpub sig64. parse_host_key ks = Inr hpub \<and> ed25519_verify c hpub (c_sessionId (cs k')) sig64 \<and>
    c_sessionId (cs k') = client_exchange_hash c (cs k') ks \<and> fst (check_kexinit (c_peerKexInit (cs k'))) \<and>
    known_map a (e_store (env k)) (j_host (job k)) \<in> {None, Some (hostkey_fingerprint c ks 80)} \<and>
    e_store (env k') = snd (snd (known_hosts_check a (j_host (job k)) (hostkey_fingerprint c ks 80) (e_store (env k)))) \<and>
    x25519_scalar c (c_ephPriv (cs k')) (c_peerEphPub (cs k')) = Some (c_sharedK (cs k')) \<and>
    c_encOut (cs k') \<and> c_encIn (cs k') \<and>
    c_sendKey (cs k') = client_derive_key c (cs k') (of_char (CHR ''C'')) 64 \<and>
    c_recvKey (cs k') = client_derive_key c (cs k') (of_char (CHR ''D'')) 64"
proof -
  obtain ours w1 where ours: "put_kexinit (world_of k) = (ours, w1)"
    by fastforce
  define k2 where "k2 = client_send c ours (upd_cs (\<lambda>s. s\<lparr>c_ourKexInit := ours\<rparr>) (set_world w1 k))"
  obtain t pkt k3 where recv: "recv_packet c 15000 k2 = Some (t, pkt, k3)" and offer: "fst (check_kexinit pkt)"
    and ecdh: "kex_ecdh c a (upd_cs (\<lambda>s. s\<lparr>c_peerKexInit := pkt\<rparr>) k3) = Some (True, k')"
    using assms ours by (auto simp: do_kex_def fail_def Let_def k2_def split: bind_splits if_splits prod.splits bool.splits)
  obtain rx n where k3: "cs k3 = (cs k2)\<lparr>c_rxBuf := rx, c_seqIn := n\<rparr>" "job k3 = job k2" "e_store (env k3) = e_store (env k2)"
    by (rule waitsE [OF recv_packet_waits [OF recv]])
  let ?k4 = "upd_cs (\<lambda>s. s\<lparr>c_peerKexInit := pkt\<rparr>) k3"
  have frame: "job ?k4 = job k" "e_store (env ?k4) = e_store (env k)" and offered: "fst (check_kexinit (c_peerKexInit (cs ?k4)))"
    using offer by (simp_all add: k3 k2_def)
  obtain ks where exch: "kex_done c ks (cs k')" and used: "keys_in_use c (cs k')"
    and hosts: "fst (known_hosts_check a (j_host (job k)) (hostkey_fingerprint c ks 80) (e_store (env k)))"
    "e_store (env k') = snd (snd (known_hosts_check a (j_host (job k)) (hostkey_fingerprint c ks 80) (e_store (env k))))"
    by (rule kex_ecdh_True [OF ecdh offered, unfolded frame])
  have "known_map a (e_store (env k)) (j_host (job k)) \<in> {None, Some (hostkey_fingerprint c ks 80)}"
    using hosts(1) by (cases rule: known_hosts_check_cases [of a "e_store (env k)" "j_host (job k)" "hostkey_fingerprint c ks 80"]) auto
  then show ?thesis
    using exch used hosts(2) unfolding kex_done_def keys_in_use_def by blast
qed

definition dh_law :: "crypto \<Rightarrow> bool" where
  "dh_law c \<longleftrightarrow> (\<forall>x y px py. x25519_base c x = Some px \<longrightarrow> x25519_base c y = Some py \<longrightarrow>
     x25519_scalar c x py = x25519_scalar c y px)"

lemma hash_K_classical: "kexAlg s = CURVE25519_SHA256 \<Longrightarrow> hash_update_K s = hash_K (sharedK s)"
  by (simp add: hash_update_K_def hash_K_def)

lemma client_derive_key_server:
  assumes "hash_update_K s = hash_K (c_sharedK t)" and "sessionId s = c_sessionId t"
  shows "derive_key c s letter n = client_derive_key c t letter n"
proof -
  have "derive_blocks c s letter n first produced out = client_derive_blocks c t letter n first produced out" for first produced out
    using assms
  proof (induction c s letter n first produced out rule: derive_blocks.induct)
    case (1 c s letter n first produced out)
    then show ?case
      unfolding client_derive_blocks.simps [of c t letter n first produced out]
        derive_blocks.simps [of c s letter n first produced out]
      by (auto simp: Let_def)
  qed
  then show ?thesis
    by (simp add: client_derive_key_def derive_key_def)
qed

text \<open>A client and a server that exchanged each other's versions, KEXINITs and key shares.\<close>

definition exchanged :: "session \<Rightarrow> csess \<Rightarrow> bool" where
  "exchanged s t \<longleftrightarrow>
     peerVersion s = c_ourVersion t \<and> ourVersion s = c_peerVersion t \<and> peerKexInit s = c_ourKexInit t \<and>
     ourKexInit s = c_peerKexInit t \<and> peerEphPub s = c_ephPub t \<and> ephPub s = c_peerEphPub t"

lemma transcripts_agree:
  assumes "exchanged s t" and "kexAlg s = CURVE25519_SHA256" and "sharedK s = c_sharedK t"
  shows "exchange_transcript s kBlob = client_transcript t kBlob"
proof -
  have app: "put_string x d = x @ hash_string d" for x d
    by (simp add: put_string_def hash_string_def put_u32_def put_bytes_def u32_be_def)
  show ?thesis
    using assms by (simp add: exchange_transcript_def client_transcript_def exchanged_def app hash_K_classical)
qed

text \<open>
  C18: Client and server agree: when a client and a server of this program have run the
  classical key exchange with each other over the same host key, they hold the same secret,
  the same session identifier and the same two keys, each for its direction; and what one
  sends under its key the other reads back, under every sequence number.
\<close>

theorem client_server_agree:
  assumes "cipher_laws c" and "dh_law c" and "exchanged s t" and "kexAlg s = CURVE25519_SHA256"
    and "x25519_base c (ephPriv s) = Some (ephPub s)" and "x25519_scalar c (ephPriv s) (peerEphPub s) = Some (sharedK s)"
    and "x25519_base c (c_ephPriv t) = Some (c_ephPub t)" and "x25519_scalar c (c_ephPriv t) (c_peerEphPub t) = Some (c_sharedK t)"
    and "sessionId s = compute_exchange_hash c s kBlob" and "c_sessionId t = client_exchange_hash c t kBlob"
    and "c_sendKey t = client_derive_key c t (of_char (CHR ''C'')) 64"
    and "c_recvKey t = client_derive_key c t (of_char (CHR ''D'')) 64"
  shows "sharedK s = c_sharedK t \<and> sessionId s = c_sessionId t \<and>
    c2sKey (derive_session_keys c s) = c_sendKey t \<and> s2cKey (derive_session_keys c s) = c_recvKey t \<and>
    (\<forall>seq pd p rest. frame_fits True pd p \<longrightarrow>
       parse_encrypted c (c2sKey (derive_session_keys c s)) seq (frame_packet c True (c_sendKey t) seq pd p @ rest) = Packet p rest \<and>
       parse_encrypted c (c_recvKey t) seq (frame_packet c True (s2cKey (derive_session_keys c s)) seq pd p @ rest) = Packet p rest)"
proof -
  have "x25519_scalar c (c_ephPriv t) (ephPub s) = x25519_scalar c (ephPriv s) (c_ephPub t)"
    using assms(2,5,7) unfolding dh_law_def by blast
  then have K: "sharedK s = c_sharedK t"
    using assms(3,6,8) by (simp add: exchanged_def)
  have id: "sessionId s = c_sessionId t"
    using assms(9,10) transcripts_agree [OF assms(3,4) K]
    by (simp add: compute_exchange_hash_def client_exchange_hash_def)
  have key: "derive_key c s' letter 64 = client_derive_key c t letter 64"
    if "kexAlg s' = CURVE25519_SHA256" "sharedK s' = sharedK s" "sessionId s' = sessionId s" for s' letter
    using that K id by (intro client_derive_key_server) (simp_all add: hash_K_classical)
  have "c2sKey (derive_session_keys c s) = c_sendKey t" and "s2cKey (derive_session_keys c s) = c_recvKey t"
    using assms(4,11,12) by (simp_all add: derive_session_keys_def key)
  then show ?thesis
    using K id assms(1) parse_encrypted_wrap [of c] by (auto simp: wrap_enc_def unwrap_enc_def)
qed

text \<open>A commutative stand-in for the Diffie-Hellman function.\<close>

definition sample_dh_crypto :: crypto where
  "sample_dh_crypto = sample_crypto\<lparr>mbed := sample_mbedtls\<lparr>mbedtls_ecp_mul :=
     (\<lambda>k p. case p of None \<Rightarrow> Some k | Some u \<Rightarrow> Some (map2 (XOR) k u))\<rparr>\<rparr>"

lemma clamp_masked: "(clamp_scalar y)[31 := clamp_scalar y ! 31 AND 0x7F] = clamp_scalar y"
proof (cases "31 < length y")
  case True
  have "((z AND 127) OR 64) AND 0x7F = (z AND 127) OR (64 :: byte)" for z
    by (simp add: word_ao_dist and.assoc)
  with True show ?thesis
    by (simp add: clamp_scalar_def Let_def)
qed (simp add: clamp_scalar_def Let_def list_update_beyond)

lemma sample_dh:
  "x25519_base sample_dh_crypto x = Some (clamp_scalar x)"
  "x25519_scalar sample_dh_crypto x (clamp_scalar y) = Some (rev (map2 (XOR) (rev (clamp_scalar x)) (rev (clamp_scalar y))))"
  by (simp_all add: x25519_base_def x25519_scalar_def x25519_compute_def sample_dh_crypto_def clamp_masked)

lemma sample_dh_law: "dh_law sample_dh_crypto"
proof -
  have "map2 (XOR) u v = map2 (XOR) v (u :: bytes)" for u v
    by (subst zip_commute) (simp add: case_prod_unfold xor.commute o_def)
  then show ?thesis
    by (auto simp: dh_law_def sample_dh)
qed

lemma sample_dh_cipher: "cipher_laws sample_dh_crypto"
  using sample_cipher_laws
  by (simp add: cipher_laws_def chacha20_laws_def poly1305_laws_def sample_dh_crypto_def sample_crypto_def)

definition sample_shared :: bytes where
  "sample_shared = the (x25519_scalar sample_dh_crypto (replicate 32 1) (clamp_scalar (replicate 32 2)))"

definition sample_server_session :: session where
  "sample_server_session =
     (let s = reset_session\<lparr>ephPriv := replicate 32 1, ephPub := clamp_scalar (replicate 32 1),
                peerEphPub := clamp_scalar (replicate 32 2), sharedK := sample_shared\<rparr>
      in s\<lparr>sessionId := compute_exchange_hash sample_dh_crypto s []\<rparr>)"

definition sample_client_session :: csess where
  "sample_client_session =
     (let t = new_csess\<lparr>c_ephPriv := replicate 32 2, c_ephPub := clamp_scalar (replicate 32 2),
                c_peerEphPub := clamp_scalar (replicate 32 1), c_sharedK := sample_shared\<rparr>;
          t1 = t\<lparr>c_sessionId := client_exchange_hash sample_dh_crypto t []\<rparr>
      in t1\<lparr>c_sendKey := client_derive_key sample_dh_crypto t1 (of_char (CHR ''C'')) 64,
            c_recvKey := client_derive_key sample_dh_crypto t1 (of_char (CHR ''D'')) 64\<rparr>)"

theorem client_server_agree_witness:
  "c2sKey (derive_session_keys sample_dh_crypto sample_server_session) = c_sendKey sample_client_session"
proof -
  let ?c = sample_dh_crypto and ?s = sample_server_session and ?t = sample_client_session
  have one: "x25519_scalar ?c (replicate 32 1) (clamp_scalar (replicate 32 2)) = Some sample_shared"
    unfolding sample_shared_def sample_dh(2) by simp
  moreover have "x25519_scalar ?c (replicate 32 2) (clamp_scalar (replicate 32 1)) =
      x25519_scalar ?c (replicate 32 1) (clamp_scalar (replicate 32 2))"
    using sample_dh_law sample_dh(1) unfolding dh_law_def by blast
  ultimately have shared: "x25519_scalar ?c (replicate 32 1) (clamp_scalar (replicate 32 2)) = Some sample_shared"
      "x25519_scalar ?c (replicate 32 2) (clamp_scalar (replicate 32 1)) = Some sample_shared"
    by simp_all
  have "exchanged ?s ?t"
    by (simp add: exchanged_def sample_server_session_def sample_client_session_def Let_def reset_session_def new_csess_def)
  moreover have "kexAlg ?s = CURVE25519_SHA256" "x25519_base ?c (ephPriv ?s) = Some (ephPub ?s)"
      "x25519_scalar ?c (ephPriv ?s) (peerEphPub ?s) = Some (sharedK ?s)"
    using shared(1) by (simp_all add: sample_server_session_def Let_def sample_dh(1) reset_session_def)
  moreover have "x25519_base ?c (c_ephPriv ?t) = Some (c_ephPub ?t)"
      "x25519_scalar ?c (c_ephPriv ?t) (c_peerEphPub ?t) = Some (c_sharedK ?t)"
    using shared(2) by (simp_all add: sample_client_session_def Let_def sample_dh(1))
  moreover have "sessionId ?s = compute_exchange_hash ?c ?s []"
    by (simp add: sample_server_session_def Let_def compute_exchange_hash_def exchange_transcript_def hash_update_K_def)
  moreover have "c_sessionId ?t = client_exchange_hash ?c ?t []"
    by (simp add: sample_client_session_def Let_def client_exchange_hash_def client_transcript_def)
  moreover have "c_sendKey ?t = client_derive_key ?c ?t (of_char (CHR ''C'')) 64"
      "c_recvKey ?t = client_derive_key ?c ?t (of_char (CHR ''D'')) 64"
    by (simp_all add: sample_client_session_def Let_def) (rule client_derive_key_cong; simp)+
  ultimately show ?thesis
    using client_server_agree [OF sample_dh_cipher sample_dh_law] by blast
qed

definition sample_job :: sshJob where
  "sample_job =
     \<lparr>j_host = str ''h'', j_port = 22, j_user = str ''root'', j_haveCmd = True, j_command = str ''ls'', j_havePassword = True,
      j_password = str ''hunter2'', j_tryPubkey = False, j_seed = replicate 32 0, j_hasOut = True, j_hasIn = False,
      j_userClose = False, j_done = False, j_rc = 1, j_msg = [], j_haveExit = False, j_exitStatus = 0\<rparr>"

definition sample_env :: "bytes list surroundings" where
  "sample_env =
     \<lparr>e_world = sample_world\<lparr>rnd_stream := \<lambda>_. 5\<rparr>, e_store = [], tick_ans = (\<lambda>n. of_nat n * 20000), tick_cnt = 0, connected_ans = (\<lambda>_. True),
      connected_cnt = 0, pipe_ans = (\<lambda>_. 1000), pipe_cnt = 0, pipe_out = [], keys_ans = (\<lambda>_. []), keys_cnt = 0,
      close_ans = (\<lambda>_. False), close_cnt = 0, term_size = (80, 24), stack120 = [], s_offeredMethods = []\<rparr>"

definition sample_client :: "bytes \<Rightarrow> bytes list client" where
  "sample_client rx = \<lparr>cs = new_csess\<lparr>c_rxBuf := rx\<rparr>, job = sample_job, env = sample_env\<rparr>"

text \<open>
  C25: Waiting for a packet ends: whatever the peer sends or withholds, if the tick counter is
  at some later reading past the deadline, \<open>recv_packet\<close> returns; it answers the type of a
  non-empty packet it delivers, 0 for a timeout, or a negative code without a packet; and it
  touches nothing but the receive state.
\<close>

theorem recv_packet_returns:
  assumes "remaining (ticks k 0 + ms) (ticks k (Suc n)) \<le> 0"
  shows "\<exists>t out k'. recv_packet c ms k = Some (t, out, k') \<and> -2 \<le> t \<and> t < 256 \<and>
    (0 < t \<longrightarrow> out \<noteq> [] \<and> t = uint (hd out)) \<and> (t < 0 \<longrightarrow> out = []) \<and>
    job k' = job k \<and> e_store (env k') = e_store (env k)"
proof -
  let ?k1 = "snd (xTaskGetTickCount k)"
  have "remaining (ticks k 0 + ms) (ticks ?k1 n) \<le> 0"
    using assms ticks_tick(2) [of k n] by simp
  then obtain r where r: "recv_loop c (ticks k 0 + ms) ?k1 = Some r"
    using recv_loop_returns by blast
  obtain t out k' where r': "r = (t, out, k')"
    by (metis prod.exhaust)
  have ret: "recv_packet c ms k = Some (t, out, k')"
    using r ticks_tick(1) [of k] by (simp add: recv_packet_def split_beta r')
  have "job k' = job k" and "e_store (env k') = e_store (env k)"
    by (rule waitsE [OF recv_packet_waits [OF ret]], simp)+
  moreover have "-2 \<le> t \<and> t < 256 \<and> (0 < t \<longrightarrow> out \<noteq> [] \<and> t = uint (hd out)) \<and> (t < 0 \<longrightarrow> out = [])"
    using recv_loop_type [OF r] unfolding r' prod.case .
  ultimately show ?thesis
    using ret by blast
qed

theorem recv_packet_returns_witness:
  "\<exists>t out k'. recv_packet sample_crypto 15000 (sample_client [0, 0, 0]) = Some (t, out, k')"
proof -
  have "remaining (ticks (sample_client [0, 0, 0]) 0 + 15000) (ticks (sample_client [0, 0, 0]) (Suc 0)) \<le> 0"
    by (simp add: ticks_def sample_client_def sample_env_def remaining_def)
  from recv_packet_returns [OF this, of sample_crypto] show ?thesis
    by blast
qed

lemma parse_tagged_iff: "parse_tagged e1 e2 n blob = Inr x \<longleftrightarrow> tagged_field n blob = Some x"
  by (auto simp: parse_tagged_def tagged_field_def ALG_NAME_def split_beta Let_def split: option.split)

text \<open>The client reads the reply the server writes.\<close>

lemma parse_reply_payload:
  assumes "length (kex_reply_payload kBlob qs sig) < 2 ^ 32" and "length qs = 32"
  shows "parse_reply (kex_reply_payload kBlob qs sig) = Inr (kBlob, qs, put_string (put_cstring [] ''ssh-ed25519'') sig)"
proof -
  let ?sb = "put_string (put_cstring [] ''ssh-ed25519'') sig"
  have app: "put_string (m # s) d = m # s @ put_string [] d" for m s d
    by (subst put_string_append) simp
  have eq: "kex_reply_payload kBlob qs sig =
      MSG_KEX_ECDH_REPLY # put_string [] kBlob @ put_string [] qs @ put_string [] ?sb @ []"
    by (simp add: kex_reply_payload_def put_u8_def app)
  have len: "length kBlob < 2 ^ 32" "length qs < 2 ^ 32" "length ?sb < 2 ^ 32"
    using assms(1) unfolding eq by (simp_all add: put_string_def put_u32_def put_bytes_def)
  have short: "length (drop 1 (kex_reply_payload kBlob qs sig)) < 2 ^ 32"
    using assms(1) by simp
  have tail: "drop 1 (kex_reply_payload kBlob qs sig) = put_string [] kBlob @ put_string [] qs @ put_string [] ?sb @ []"
    unfolding eq by simp
  from three_strings [OF short tail len] obtain v1 v2 v3 where
      "get_string (view_init (drop 1 (kex_reply_payload kBlob qs sig))) = (Some kBlob, v1)"
      "get_string v1 = (Some qs, v2)" "get_string v2 = (Some ?sb, v3)" .
  then show ?thesis
    using assms(2) by (simp add: parse_reply_def)
qed

lemma parse_host_fields:
  assumes "length x = n" and "n < 1000"
  shows "tagged_field n (put_string (put_cstring [] ''ssh-ed25519'') x) = Some x"
proof -
  have "put_string (put_cstring [] ''ssh-ed25519'') x = put_string [] ALG_NAME @ put_string [] x @ []"
    by (subst put_string_append) (simp add: put_cstring_def ALG_NAME_def)
  moreover have "length (put_string [] ALG_NAME @ put_string [] x @ []) < 2 ^ 32"
    using assms by (simp add: put_string_def put_u32_def put_bytes_def ALG_NAME_def)
  ultimately show ?thesis
    using tagged_field_put [of x "[]" n] assms(1) by simp
qed

lemma recv_plain_packet:
  assumes "\<not> c_encIn (cs k)" and "c_rxBuf (cs k) = wrap_plain pd p @ rest" and "frame_fits False pd p"
    and "p \<noteq> []" and "hd p \<noteq> MSG_IGNORE" and "hd p \<noteq> MSG_DEBUG"
  shows "\<exists>k'. recv_packet c ms k = Some (uint (hd p), p, k') \<and> cs k' = (cs k)\<lparr>c_rxBuf := rest, c_seqIn := c_seqIn (cs k) + 1\<rparr> \<and>
    job k' = job k \<and> e_store (env k') = e_store (env k) \<and> world_of k' = world_of k"
proof -
  let ?k1 = "snd (xTaskGetTickCount k)"
  have "cs ?k1 = cs k" "job ?k1 = job k" "e_store (env ?k1) = e_store (env k)" "world_of ?k1 = world_of k"
    by (simp_all add: xTaskGetTickCount_def world_of_def)
  moreover have "try_parse c ?k1 = (Packet p rest, upd_cs (\<lambda>s. s\<lparr>c_rxBuf := rest, c_seqIn := c_seqIn s + 1\<rparr>) ?k1)"
    using assms(1-3) parse_plain_wrap [OF assms(3), of rest] calculation(1) by (simp add: try_parse_def)
  ultimately show ?thesis
    using assms(4-6) by (simp add: recv_packet_def split_beta recv_loop.simps [of c _ ?k1] world_of_def)
qed

text \<open>A server that answers the sample client: its three packets, in one buffer.\<close>

definition sample_pad :: "bytes \<Rightarrow> bytes" where
  "sample_pad p = replicate (pad_len False (length p)) 0"

definition sample_host_blob :: bytes where
  "sample_host_blob = build_host_key_blob (replicate 32 7)"

definition sample_offered :: bytes where
  "sample_offered = kexinit_body (replicate 16 0) OUR_KEX_NAMES"

definition sample_after :: csess where
  "sample_after = new_csess\<lparr>c_ourKexInit := kexinit_body (replicate 16 5) CLIENT_KEX_NAMES, c_peerKexInit := sample_offered,
     c_ephPriv := replicate 32 5, c_ephPub := clamp_scalar (replicate 32 5), c_peerEphPub := replicate 32 9,
     c_sharedK := clamp_scalar (replicate 32 5)\<rparr>"

definition sample_reply :: bytes where
  "sample_reply = kex_reply_payload sample_host_blob (replicate 32 9)
     (replicate 32 7 @ client_exchange_hash sample_crypto sample_after sample_host_blob)"

definition sample_answers :: bytes where
  "sample_answers =
     wrap_plain (sample_pad sample_offered) sample_offered @ wrap_plain (sample_pad sample_reply) sample_reply @
     wrap_plain (sample_pad [MSG_NEWKEYS]) [MSG_NEWKEYS]"

lemma sample_fits: "length p < 1000 \<Longrightarrow> frame_fits False (sample_pad p) p"
  using pad_len_bounds(2) [of False "length p"] by (simp add: frame_fits_def sample_pad_def)

lemma sample_offer: "check_kexinit sample_offered = (True, None)"
  by code_simp

lemma sample_sizes: "length sample_offered < 1000" "length sample_reply < 1000" "length sample_reply < 2 ^ 32"
    "sample_offered \<noteq> []" "hd sample_offered = 20" "sample_reply \<noteq> []" "hd sample_reply = 31"
  by (simp_all add: sample_offered_def sample_reply_def kexinit_body_def kex_reply_payload_def put_namelist_def put_u8_def
      put_u32_def put_string_def put_cstring_def put_bytes_def Let_def sample_host_blob_def build_host_key_blob_def
      client_exchange_hash_def sha256_def sample_crypto_def sample_mbedtls_def OUR_KEX_NAMES_def msg_defs)

lemma rnd_stream_frame [simp]:
  "rnd_stream (snd (randomBytes n w)) = rnd_stream w" "rnd_stream (snd (itsSend h d w)) = rnd_stream w"
  "rnd_stream (world_of (client_send c p k)) = rnd_stream (world_of k)" "world_of (upd_cs f k) = world_of k"
  by (simp_all add: randomBytes_def itsSend_def emit_def client_send_def send_raw_def split_beta Let_def world_of_def
      set_world_def)

lemma constant_randomBytes: "rnd_stream w = (\<lambda>_. x) \<Longrightarrow> randomBytes n w = (replicate n x, w\<lparr>rnd_pos := rnd_pos w + n\<rparr>)"
  by (simp add: randomBytes_def map_replicate_const)

lemma kex_reply_keeps:
  "c_rxBuf (cs (snd (kex_reply c a pkt k))) = c_rxBuf (cs k)" "c_encIn (cs (snd (kex_reply c a pkt k))) = c_encIn (cs k)"
  by (simp_all add: kex_reply_def kex_verify_host_def fail_def fail_job_def diag_def info_c_def split_beta Let_def
      split: sum.split option.split)

lemma sample_verify:
  assumes "cs k = s" and "c_ourVersion s = []" "c_peerVersion s = []" "c_ourKexInit s = c_ourKexInit sample_after"
    "c_peerKexInit s = sample_offered" "c_ephPriv s = replicate 32 5" "c_ephPub s = clamp_scalar (replicate 32 5)"
    and "e_store (env k) = []" and "job k = sample_job"
  shows "fst (kex_reply sample_crypto sample_hosts sample_reply k)"
proof -
  let ?H = "client_exchange_hash sample_crypto sample_after sample_host_blob"
  have reply: "parse_reply sample_reply = Inr (sample_host_blob, replicate 32 9,
      put_string (put_cstring [] ''ssh-ed25519'') (replicate 32 7 @ ?H))"
    using sample_sizes(3) unfolding sample_reply_def by (intro parse_reply_payload) simp_all
  have H: "length ?H = 32"
    by (simp add: client_exchange_hash_def sha256_def sample_crypto_def sample_mbedtls_def)
  have host: "parse_host_key sample_host_blob = Inr (replicate 32 7)"
    unfolding parse_host_key_def parse_tagged_iff sample_host_blob_def build_host_key_blob_def
    by (rule parse_host_fields) simp_all
  have sig: "parse_host_sig (put_string (put_cstring [] ''ssh-ed25519'') (replicate 32 7 @ ?H)) = Inr (replicate 32 7 @ ?H)"
    unfolding parse_host_sig_def parse_tagged_iff by (rule parse_host_fields) (simp_all add: H)
  have K: "x25519_scalar sample_crypto (replicate 32 5) p = Some (clamp_scalar (replicate 32 5))" for p
    by (simp add: x25519_scalar_def x25519_compute_def sample_crypto_def sample_mbedtls_def)
  have hash: "client_exchange_hash sample_crypto (s\<lparr>c_peerEphPub := replicate 32 9, c_sharedK := clamp_scalar (replicate 32 5)\<rparr>)
      sample_host_blob = ?H"
    using assms by (intro client_exchange_hash_cong) (simp_all add: sample_after_def new_csess_def)
  have good: "ed25519_verify sample_crypto (replicate 32 7) ?H (replicate 32 7 @ ?H)"
    using H by (simp add: ed25519_verify_def sample_crypto_def sample_vendored_def)
  have new: "fst (known_hosts_check sample_hosts h fp [])" for h fp
    by (simp add: known_hosts_check_def sample_hosts_def)
  show ?thesis
    using assms(1,6,8,9)
    by (simp add: kex_reply_def reply host sig kex_verify_host_def K hash good new split_beta Let_def)
qed

theorem do_kex_authenticates_server_witness:
  "\<exists>k'. do_kex sample_crypto sample_hosts (sample_client sample_answers) = Some (True, k') \<and>
     c_encOut (cs k') \<and> c_encIn (cs k')"
proof -
  let ?c = sample_crypto and ?a = sample_hosts
  let ?k = "sample_client sample_answers"
  let ?ours = "kexinit_body (replicate 16 5) CLIENT_KEX_NAMES"
  have const: "rnd_stream (world_of ?k) = (\<lambda>_. 5)"
    by (simp add: sample_client_def sample_env_def world_of_def)
  obtain w1 where ours: "put_kexinit (world_of ?k) = (?ours, w1)" and w1: "rnd_stream w1 = (\<lambda>_. 5)"
    using constant_randomBytes [OF const, of 16] const by (simp add: put_kexinit_def)
  define k2 where "k2 = client_send ?c ?ours (upd_cs (\<lambda>s. s\<lparr>c_ourKexInit := ?ours\<rparr>) (set_world w1 ?k))"
  have cs2: "cs k2 = new_csess\<lparr>c_rxBuf := sample_answers, c_ourKexInit := ?ours, c_seqOut := 1\<rparr>"
      and rest2: "job k2 = sample_job" "e_store (env k2) = []" "rnd_stream (world_of k2) = (\<lambda>_. 5)"
    using w1 by (simp_all add: k2_def sample_client_def sample_env_def new_csess_def)
  obtain k3 where recv2: "recv_packet ?c 15000 k2 = Some (20, sample_offered, k3)"
    and k3: "cs k3 = (cs k2)\<lparr>c_rxBuf := wrap_plain (sample_pad sample_reply) sample_reply @
       wrap_plain (sample_pad [MSG_NEWKEYS]) [MSG_NEWKEYS], c_seqIn := 1\<rparr>"
    "job k3 = sample_job" "e_store (env k3) = []" "rnd_stream (world_of k3) = (\<lambda>_. 5)"
    using recv_plain_packet [of k2 "sample_pad sample_offered" sample_offered, OF _ _ sample_fits [OF sample_sizes(1)], of _ ?c 15000]
      sample_sizes rest2 by (auto simp: cs2 new_csess_def sample_answers_def msg_defs)
  define k4 where "k4 = upd_cs (\<lambda>s. s\<lparr>c_peerKexInit := sample_offered\<rparr>) k3"
  obtain w2 where priv: "randomBytes 32 (world_of k4) = (replicate 32 5, w2)" and w2: "rnd_stream w2 = (\<lambda>_. 5)"
    using constant_randomBytes [of "world_of k4" 5 32] k3(4) by (simp add: k4_def)
  have pub: "x25519_base ?c (replicate 32 5) = Some (clamp_scalar (replicate 32 5))"
    by (simp add: x25519_base_def x25519_compute_def sample_crypto_def sample_mbedtls_def)
  define k5 where "k5 = client_send ?c (put_string (put_u8 [] MSG_KEX_ECDH_INIT) (clamp_scalar (replicate 32 5)))
    (upd_cs (\<lambda>s. s\<lparr>c_ephPub := clamp_scalar (replicate 32 5)\<rparr>)
      (upd_cs (\<lambda>s. s\<lparr>c_ephPriv := replicate 32 5\<rparr>) (set_world w2 k4)))"
  have cs5: "cs k5 = (cs k4)\<lparr>c_ephPriv := replicate 32 5, c_ephPub := clamp_scalar (replicate 32 5), c_seqOut := 2\<rparr>"
      "job k5 = sample_job" "e_store (env k5) = []"
    using k3 by (simp_all add: k5_def k4_def cs2)
  obtain k6 where recv5: "recv_packet ?c 15000 k5 = Some (31, sample_reply, k6)"
    and k6: "cs k6 = (cs k5)\<lparr>c_rxBuf := wrap_plain (sample_pad [MSG_NEWKEYS]) [MSG_NEWKEYS], c_seqIn := 2\<rparr>"
    "job k6 = sample_job" "e_store (env k6) = []"
    using recv_plain_packet [of k5 "sample_pad sample_reply" sample_reply, OF _ _ sample_fits [OF sample_sizes(2)], of _ ?c 15000]
      sample_sizes cs5 by (auto simp: k4_def k3(1) cs2 new_csess_def msg_defs)
  obtain k7 where reply: "kex_reply ?c ?a sample_reply k6 = (True, k7)"
    using sample_verify [of k6 "cs k6"] k6(2,3)
    by (cases "kex_reply ?c ?a sample_reply k6") (auto simp: k6(1) cs5(1) k4_def k3(1) cs2 new_csess_def sample_after_def)
  have cs7: "c_rxBuf (cs k7) = wrap_plain (sample_pad [MSG_NEWKEYS]) [MSG_NEWKEYS]" "\<not> c_encIn (cs k7)"
    using kex_reply_keeps [of ?c ?a sample_reply k6] reply
    by (simp_all add: k6(1) cs5(1) k4_def k3(1) cs2 new_csess_def)
  define k8 where "k8 = upd_cs (\<lambda>s. s\<lparr>c_encOut := True\<rparr>) (upd_cs (\<lambda>s. s\<lparr>c_recvKey := client_derive_key ?c s (of_char (CHR ''D'')) 64\<rparr>)
    (upd_cs (\<lambda>s. s\<lparr>c_sendKey := client_derive_key ?c s (of_char (CHR ''C'')) 64\<rparr>) (client_send ?c (put_u8 [] MSG_NEWKEYS) k7)))"
  obtain k9 where "recv_packet ?c 15000 k8 = Some (21, [MSG_NEWKEYS], k9)"
    using recv_plain_packet [of k8 "sample_pad [MSG_NEWKEYS]" "[MSG_NEWKEYS]" "[]", OF _ _ sample_fits, of ?c 15000] cs7
    by (auto simp: k8_def msg_defs)
  then have "kex_newkeys ?c k7 = Some (True, upd_cs (\<lambda>s. s\<lparr>c_encIn := True\<rparr>) k9)"
    unfolding kex_newkeys_def Let_def k8_def [symmetric] by (simp add: MSG_NEWKEYS_def)
  then have "kex_ecdh ?c ?a k4 = Some (True, upd_cs (\<lambda>s. s\<lparr>c_encIn := True\<rparr>) k9)"
    using recv5 reply by (simp add: kex_ecdh_def priv pub k5_def Let_def MSG_KEX_ECDH_REPLY_def)
  then have "do_kex ?c ?a ?k = Some (True, upd_cs (\<lambda>s. s\<lparr>c_encIn := True\<rparr>) k9)"
    using recv2 by (simp add: do_kex_def ours k2_def k4_def Let_def sample_offer MSG_KEXINIT_def)
  with do_kex_authenticates_server [OF this] show ?thesis
    by blast
qed

end
