(* ===== verification/ClientSession.thy ===== *)
theory ClientSession
  imports Client
begin

text \<open>
  The rest of the outbound client, \<open>esp-idf/src/ssh_client.cpp\<close>: user authentication, the
  channel with its relay loop, and one whole session (\<open>run_session\<close>).  Loops that wait for
  the peer are partial functions; a step that cannot wait is a plain function.
\<close>

section \<open>Further message numbers and limits\<close>

definition MSG_USERAUTH_BANNER :: byte where "MSG_USERAUTH_BANNER = 53"
definition MSG_USERAUTH_INFO_REQUEST :: byte where "MSG_USERAUTH_INFO_REQUEST = 60"
definition MSG_USERAUTH_INFO_RESPONSE :: byte where "MSG_USERAUTH_INFO_RESPONSE = 61"
definition MSG_CHANNEL_EXTENDED_DATA :: byte where "MSG_CHANNEL_EXTENDED_DATA = 95"

definition CLIENT_CHANNEL_ID :: u32 where "CLIENT_CHANNEL_ID = 0"
definition CLIENT_WINDOW :: u32 where "CLIENT_WINDOW = 0x100000"
definition CLIENT_MAXPACKET :: u32 where "CLIENT_MAXPACKET = 32768"

lemmas client_msg_defs =
  MSG_USERAUTH_BANNER_def MSG_USERAUTH_INFO_REQUEST_def MSG_USERAUTH_INFO_RESPONSE_def MSG_CHANNEL_EXTENDED_DATA_def

section \<open>User authentication\<close>

partial_function (option) auth_recv :: "crypto \<Rightarrow> 'st client \<Rightarrow> (int \<times> bytes \<times> 'st client) option" where
  "auth_recv c k =
     do {
       (t, pkt, k1) \<leftarrow> recv_packet c 20000 k;
       if t = uint MSG_USERAUTH_BANNER then auth_recv c k1 else Some (t, pkt, k1)
     }"

definition note_failure_methods :: "bytes \<Rightarrow> 'st client \<Rightarrow> 'st client" where
  "note_failure_methods pkt k =
     upd_env (\<lambda>e. e\<lparr>s_offeredMethods :=
       (case fst (get_string (view_init (drop 1 pkt))) of None \<Rightarrow> [] | Some m \<Rightarrow> take 95 m)\<rparr>) k"

text \<open>1 is success, 0 a refusal, -1 an error or a closed connection.\<close>

definition auth_simple_result :: "crypto \<Rightarrow> 'st client \<Rightarrow> (int \<times> 'st client) option" where
  "auth_simple_result c k =
     do {
       (t, pkt, k1) \<leftarrow> auth_recv c k;
       if t < 0 then Some (-1, k1)
       else if t = uint MSG_USERAUTH_SUCCESS then Some (1, k1)
       else if t = uint MSG_USERAUTH_FAILURE then Some (0, note_failure_methods pkt k1)
       else Some (-1, k1)
     }"

text \<open>A C string argument ends at the first NUL.\<close>

definition put_cbytes :: "bytes \<Rightarrow> bytes \<Rightarrow> bytes" where
  "put_cbytes out s = put_string out (c_str s)"

definition userauth_head :: "bytes \<Rightarrow> bytes \<Rightarrow> string \<Rightarrow> bytes" where
  "userauth_head out usr method =
     put_cstring (put_cstring (put_cbytes (put_u8 out MSG_USERAUTH_REQUEST) usr) ''ssh-connection'') method"

definition pubkey_request_tail :: "bytes \<Rightarrow> bytes \<Rightarrow> bytes" where
  "pubkey_request_tail out pkBlob = put_string (put_cstring (put_u8 out 1) ''ssh-ed25519'') pkBlob"

definition client_pk_blob :: "bytes \<Rightarrow> bytes" where
  "client_pk_blob pub = put_string (put_cstring [] ''ssh-ed25519'') pub"

definition client_signed_data :: "bytes \<Rightarrow> bytes \<Rightarrow> bytes \<Rightarrow> bytes" where
  "client_signed_data sid usr pkBlob =
     pubkey_request_tail (userauth_head (put_string [] sid) usr ''publickey'') pkBlob"

definition pubkey_request :: "bytes \<Rightarrow> bytes \<Rightarrow> bytes \<Rightarrow> bytes" where
  "pubkey_request usr pkBlob sig =
     put_string (pubkey_request_tail (userauth_head [] usr ''publickey'') pkBlob)
       (put_string (put_cstring [] ''ssh-ed25519'') sig)"

definition auth_publickey :: "crypto \<Rightarrow> 'st client \<Rightarrow> (int \<times> 'st client) option" where
  "auth_publickey c k =
     (case ed25519_pub_from_seed c (j_seed (job k)) of
        None \<Rightarrow> Some (-1, k)
      | Some pub \<Rightarrow>
          let pkBlob = client_pk_blob pub;
              signed = client_signed_data (c_sessionId (cs k)) (j_user (job k)) pkBlob
          in case ed25519_sign c (j_seed (job k)) signed of
               None \<Rightarrow> Some (-1, k)
             | Some sig \<Rightarrow> auth_simple_result c (client_send c (pubkey_request (j_user (job k)) pkBlob sig) k))"

definition password_request :: "bytes \<Rightarrow> bytes \<Rightarrow> bytes" where
  "password_request usr password = put_string (put_u8 (userauth_head [] usr ''password'') 0) password"

definition auth_password :: "crypto \<Rightarrow> 'st client \<Rightarrow> (int \<times> 'st client) option" where
  "auth_password c k =
     auth_simple_result c (client_send c (password_request (j_user (job k)) (j_password (job k))) k)"

text \<open>The prompts of an INFO\_REQUEST: the number, when all of them are there and at most 32.\<close>

fun skip_prompts :: "nat \<Rightarrow> view \<Rightarrow> bool" where
  "skip_prompts 0 v = True"
| "skip_prompts (Suc n) v = (let (ok, v1) = skip_string v in if \<not> ok then False else skip_prompts n (snd (get_u8 v1)))"

definition info_request_prompts :: "bytes \<Rightarrow> u32 option" where
  "info_request_prompts pkt =
     (let (ok1, v1) = skip_string (view_init (drop 1 pkt));
          (ok2, v2) = skip_string v1;
          (ok3, v3) = skip_string v2
      in if \<not> ok1 \<or> \<not> ok2 \<or> \<not> ok3 then None
         else let (num, v4) = get_u32 v3 in
              if vbad v4 \<or> num > 32 then None
              else if skip_prompts (unat num) v4 then Some num else None)"

definition info_response :: "u32 \<Rightarrow> bytes \<Rightarrow> bytes" where
  "info_response num password =
     fold (\<lambda>i r. put_string r password) [0..<unat num] (put_u32 (put_u8 [] MSG_USERAUTH_INFO_RESPONSE) num)"

text \<open>The log lines come before the prompts are checked in the source; they are part of the answer here.\<close>

definition prompts_log :: "bytes \<Rightarrow> 'st client \<Rightarrow> 'st client" where
  "prompts_log pkt k =
     (let (ok1, v1) = skip_string (view_init (drop 1 pkt));
          (ok2, v2) = skip_string v1;
          (ok3, v3) = skip_string v2;
          (num, v4) = get_u32 v3
      in if \<not> ok1 \<or> \<not> ok2 \<or> \<not> ok3 \<or> vbad v4 \<or> num > 32 then k
         else diag (str ''*   info-request: '' @ str (dec (unat num)) @ str '' prompt(s)'' @ [13, 10])
                (info_c (str ''ssh: kbd-interactive: '' @ str (dec (unat num)) @ str '' prompt(s)'') k))"

partial_function (option) interactive_loop :: "crypto \<Rightarrow> 'st client \<Rightarrow> (int \<times> 'st client) option" where
  "interactive_loop c k =
     do {
       (t, pkt, k1) \<leftarrow> auth_recv c k;
       if t < 0 then Some (-1, k1)
       else if t = uint MSG_USERAUTH_SUCCESS then Some (1, k1)
       else if t = uint MSG_USERAUTH_FAILURE then Some (0, note_failure_methods pkt k1)
       else if t = uint MSG_USERAUTH_INFO_REQUEST then
         let k2 = prompts_log pkt k1 in
         (case info_request_prompts pkt of
            None \<Rightarrow> Some (-1, k2)
          | Some num \<Rightarrow> interactive_loop c (client_send c (info_response num (j_password (job k2))) k2))
       else Some (-1, k1)
     }"

definition auth_keyboard_interactive :: "crypto \<Rightarrow> 'st client \<Rightarrow> (int \<times> 'st client) option" where
  "auth_keyboard_interactive c k =
     interactive_loop c (client_send c
       (put_cstring (put_cstring (userauth_head [] (j_user (job k)) ''keyboard-interactive'') '''') '''') k)"

definition yes_no :: "bool \<Rightarrow> bytes" where "yes_no b = (if b then str ''yes'' else str ''no'')"

definition refused_line :: "string \<Rightarrow> 'st client \<Rightarrow> 'st client" where
  "refused_line method k =
     diag (str ''* '' @ str method @ str '' refused (server offers: '' @ c_str (s_offeredMethods (env k)) @ str '')'' @ [13, 10]) k"

definition line_diag :: "string \<Rightarrow> 'st client \<Rightarrow> 'st client" where
  "line_diag text k = diag (str text @ [13, 10]) k"

text \<open>One method: try it, and report how it went; the outcome is final unless it was refused.\<close>

definition try_method :: "string \<Rightarrow> ('st client \<Rightarrow> (int \<times> 'st client) option) \<Rightarrow> 'st client \<Rightarrow>
    (bool option \<times> 'st client) option" where
  "try_method method auth k =
     do {
       (r, k1) \<leftarrow> auth (line_diag (''* trying '' @ method) k);
       if r < 0 then Some (Some False, fail_job (str (method @ '' auth: connection lost'')) k1)
       else if r = 1
       then Some (Some True, line_diag (''* '' @ method @ '' accepted'') (info_c (str (''ssh: '' @ method @ '' auth ok'')) k1))
       else Some (None, refused_line method k1)
     }"

definition auth_failed_msg :: "'st client \<Rightarrow> bytes" where
  "auth_failed_msg k =
     take 199
       (if \<not> j_havePassword (job k) \<and> \<not> j_tryPubkey (job k)
        then str ''no auth method available (set s.ssh.password or run ssh-keygen)''
        else str ''authentication failed (server offers: '' @
             (if c_str (s_offeredMethods (env k)) \<noteq> [] then c_str (s_offeredMethods (env k)) else str ''?'') @ str '')'')"

definition auth_with_password :: "crypto \<Rightarrow> 'st client \<Rightarrow> (bool \<times> 'st client) option" where
  "auth_with_password c k =
     (if \<not> j_havePassword (job k) then Some (False, fail_job (auth_failed_msg k) k)
      else do {
        (d, k1) \<leftarrow> try_method ''keyboard-interactive'' (auth_keyboard_interactive c) k;
        case d of Some ok \<Rightarrow> Some (ok, k1) | None \<Rightarrow>
        do {
          (d2, k2) \<leftarrow> try_method ''password'' (auth_password c) k1;
          case d2 of Some ok \<Rightarrow> Some (ok, k2) | None \<Rightarrow> Some (False, fail_job (auth_failed_msg k2) k2)
        }
      })"

definition auth_methods :: "crypto \<Rightarrow> 'st client \<Rightarrow> (bool \<times> 'st client) option" where
  "auth_methods c k =
     (if \<not> j_tryPubkey (job k) then auth_with_password c k
      else do {
        (d, k1) \<leftarrow> try_method ''publickey'' (auth_publickey c) k;
        case d of Some ok \<Rightarrow> Some (ok, k1) | None \<Rightarrow> auth_with_password c k1
      })"

definition do_auth :: "crypto \<Rightarrow> 'st client \<Rightarrow> (bool \<times> 'st client) option" where
  "do_auth c k =
     do {
       (t, pkt, k1) \<leftarrow> recv_packet c 15000 (client_send c (put_cstring (put_u8 [] MSG_SERVICE_REQUEST) ''ssh-userauth'') k);
       if t < 0 then Some (fail ''no SERVICE_ACCEPT'' k1)
       else if t \<noteq> uint MSG_SERVICE_ACCEPT then Some (fail ''service request rejected'' k1)
       else
         let k2 = diag (str ''* auth: methods available '' @ [0xE2, 0x80, 0x94] @ str '' publickey='' @
                    yes_no (j_tryPubkey (job k1)) @ str '' password='' @ yes_no (j_havePassword (job k1)) @ [13, 10])
                    (upd_env (\<lambda>e. e\<lparr>s_offeredMethods := []\<rparr>) k1)
         in do {
           (nt, np, k3) \<leftarrow> auth_recv c (client_send c (userauth_head [] (j_user (job k2)) ''none'') k2);
           if nt = uint MSG_USERAUTH_SUCCESS then Some (True, line_diag ''* authenticated (none)'' k3)
           else if nt = uint MSG_USERAUTH_FAILURE then
             let k4 = note_failure_methods np k3 in
             auth_methods c (diag (str ''* server offers: '' @ c_str (s_offeredMethods (env k4)) @ [13, 10]) k4)
           else if nt < 0 then Some (fail ''auth probe: connection lost'' k3)
           else auth_methods c k3
         }
     }"

section \<open>The channel\<close>

text \<open>An answer to a GLOBAL\_REQUEST; the packets that may arrive interleaved with the set-up.\<close>

definition answer_global :: "crypto \<Rightarrow> view \<Rightarrow> 'st client \<Rightarrow> 'st client" where
  "answer_global c v k =
     (let (ok, v1) = skip_string v in
      if \<not> ok then k
      else if fst (get_u8 v1) \<noteq> 0 then client_send c (put_u8 [] MSG_REQUEST_FAILURE) k else k)"

definition grow_peer_window :: "view \<Rightarrow> 'st client \<Rightarrow> 'st client" where
  "grow_peer_window v k =
     (let (n, _) = get_u32 (snd (get_u32 v)) in upd_cs (\<lambda>s. s\<lparr>c_peerWindow := c_peerWindow s + n\<rparr>) k)"

partial_function (option) channel_recv :: "crypto \<Rightarrow> u32 \<Rightarrow> 'st client \<Rightarrow> (int \<times> bytes \<times> 'st client) option" where
  "channel_recv c ms k =
     do {
       (t, pkt, k1) \<leftarrow> recv_packet c ms k;
       if t = uint MSG_GLOBAL_REQUEST then channel_recv c ms (answer_global c (view_init (drop 1 pkt)) k1)
       else if t = uint MSG_CHANNEL_WINDOW_ADJUST then channel_recv c ms (grow_peer_window (view_init (drop 1 pkt)) k1)
       else Some (t, pkt, k1)
     }"

definition channel_data :: "u32 \<Rightarrow> bytes \<Rightarrow> bytes" where
  "channel_data chan d = put_string (put_u32 (put_u8 [] MSG_CHANNEL_DATA) chan) d"

text \<open>Queued keystrokes become CHANNEL\_DATA; each read takes at most 256 of them.\<close>

definition xStreamBufferReceive :: "nat \<Rightarrow> 'st client \<Rightarrow> bytes \<times> 'st client" where
  "xStreamBufferReceive n k =
     (take n (keys_ans (env k) (keys_cnt (env k))), upd_env (\<lambda>e. e\<lparr>keys_cnt := keys_cnt e + 1\<rparr>) k)"

partial_function (option) input_loop :: "crypto \<Rightarrow> 'st client \<Rightarrow> 'st client option" where
  "input_loop c k =
     (let (ib, k1) = xStreamBufferReceive 256 k in
      if ib = [] then Some k1 else input_loop c (client_send c (channel_data (c_peerChannel (cs k1)) ib) k1))"

definition pump_input :: "crypto \<Rightarrow> 'st client \<Rightarrow> 'st client option" where
  "pump_input c k = (if \<not> j_hasIn (job k) then Some k else input_loop c k)"

definition open_request :: bytes where
  "open_request =
     put_u32 (put_u32 (put_u32 (put_cstring (put_u8 [] MSG_CHANNEL_OPEN) ''session'') CLIENT_CHANNEL_ID)
       CLIENT_WINDOW) CLIENT_MAXPACKET"

text \<open>The parameters of CHANNEL\_OPEN\_CONFIRMATION.\<close>

definition apply_confirm :: "bytes \<Rightarrow> csess \<Rightarrow> csess" where
  "apply_confirm pkt s =
     (let (_, v1) = get_u32 (view_init (drop 1 pkt));
          (chan, v2) = get_u32 v1;
          (win, v3) = get_u32 v2;
          (maxp, v4) = get_u32 v3
      in s\<lparr>c_peerChannel := chan, c_peerWindow := win, c_peerMaxPacket := maxp\<rparr>)"

definition pty_request :: "u32 \<Rightarrow> u32 \<times> u32 \<Rightarrow> bytes" where
  "pty_request chan dims =
     (let p1 = put_cstring (put_u32 (put_u8 [] MSG_CHANNEL_REQUEST) chan) ''pty-req'';
          p2 = put_cstring (put_u8 p1 1) ''xterm'';
          p3 = put_u32 (put_u32 p2 (fst dims)) (snd dims);
          p4 = put_u32 (put_u32 p3 0) 0
      in put_string p4 [0])"

definition start_request :: "u32 \<Rightarrow> bool \<Rightarrow> bytes \<Rightarrow> bytes" where
  "start_request chan haveCmd command =
     (let p = put_u32 (put_u8 [] MSG_CHANNEL_REQUEST) chan in
      if haveCmd then put_string (put_u8 (put_cstring p ''exec'') 1) command
      else put_u8 (put_cstring p ''shell'') 1)"

definition chan_msg :: "byte \<Rightarrow> 'st client \<Rightarrow> bytes" where
  "chan_msg t k = put_u32 (put_u8 [] t) (c_peerChannel (cs k))"

text \<open>CHANNEL\_DATA: write it out, and top the window up when less than half is left.\<close>

definition consume_window :: "nat \<Rightarrow> csess \<Rightarrow> csess" where
  "consume_window n s =
     s\<lparr>c_localWindow := (if n < unat (c_localWindow s) then c_localWindow s - of_nat n else 0)\<rparr>"

definition refill_window :: "crypto \<Rightarrow> 'st client \<Rightarrow> 'st client" where
  "refill_window c k =
     (if c_localWindow (cs k) < CLIENT_WINDOW div 2
      then let add = CLIENT_WINDOW - c_localWindow (cs k);
               k1 = client_send c (put_u32 (put_u32 (put_u8 [] MSG_CHANNEL_WINDOW_ADJUST) (c_peerChannel (cs k))) add) k
           in upd_cs (\<lambda>s. s\<lparr>c_localWindow := c_localWindow s + add\<rparr>) k1
      else k)"

definition on_channel_data :: "crypto \<Rightarrow> view \<Rightarrow> 'st client \<Rightarrow> 'st client option" where
  "on_channel_data c v k =
     (case fst (get_string (snd (get_u32 v))) of
        None \<Rightarrow> Some k
      | Some d \<Rightarrow>
          do {
            k1 \<leftarrow> out_write d k;
            Some (refill_window c (upd_cs (consume_window (length d)) k1))
          })"

definition on_extended_data :: "view \<Rightarrow> 'st client \<Rightarrow> 'st client option" where
  "on_extended_data v k =
     (case fst (get_string (snd (get_u32 (snd (get_u32 v))))) of None \<Rightarrow> Some k | Some d \<Rightarrow> out_write d k)"

definition on_channel_request :: "view \<Rightarrow> 'st client \<Rightarrow> 'st client" where
  "on_channel_request v k =
     (let (type, v1) = get_string (snd (get_u32 v)) in
      case type of
        None \<Rightarrow> k
      | Some ty \<Rightarrow>
          let (_, v2) = get_u8 v1 in
          if ty = str ''exit-status''
          then upd_job (\<lambda>j. j\<lparr>j_exitStatus := fst (get_u32 v2), j_haveExit := True\<rparr>) k
          else k)"

text \<open>One packet of the relay loop: whether the session is over, and the new state.\<close>

definition pump_packet :: "crypto \<Rightarrow> int \<Rightarrow> bytes \<Rightarrow> 'st client \<Rightarrow> (bool \<times> 'st client) option" where
  "pump_packet c t pkt k =
     (let v = view_init (drop 1 pkt) in
      if t = uint MSG_CHANNEL_DATA then map_option (Pair False) (on_channel_data c v k)
      else if t = uint MSG_CHANNEL_EXTENDED_DATA then map_option (Pair False) (on_extended_data v k)
      else if t = uint MSG_CHANNEL_WINDOW_ADJUST then Some (False, grow_peer_window v k)
      else if t = uint MSG_CHANNEL_REQUEST then Some (False, on_channel_request v k)
      else if t = uint MSG_CHANNEL_EOF then Some (False, k)
      else if t = uint MSG_CHANNEL_CLOSE then Some (True, client_send c (chan_msg MSG_CHANNEL_CLOSE k) k)
      else if t = uint MSG_DISCONNECT then Some (True, k)
      else if t = uint MSG_GLOBAL_REQUEST then Some (False, answer_global c v k)
      else Some (False, k))"

definition set_msg :: "bytes \<Rightarrow> 'st client \<Rightarrow> 'st client" where
  "set_msg m k = upd_job (\<lambda>j. j\<lparr>j_msg := safeStrncpy 200 m\<rparr>) k"

definition read_userClose :: "'st client \<Rightarrow> bool \<times> 'st client" where
  "read_userClose k = (close_ans (env k) (close_cnt (env k)), upd_env (\<lambda>e. e\<lparr>close_cnt := close_cnt e + 1\<rparr>) k)"

text \<open>
  The relay loop.  The flags \<open>closed\<close> and \<open>sentClose\<close> of the source are only set on the way
  out of the loop, so a round always starts with both false.
\<close>

partial_function (option) pump_loop :: "crypto \<Rightarrow> bool \<Rightarrow> 'st client \<Rightarrow> 'st client option" where
  "pump_loop c interactive k =
     do {
       k1 \<leftarrow> (if interactive then pump_input c k else Some k);
       let (close, k2) = (if interactive then read_userClose k1 else (False, k1)) in
       if close
       then let k3 = client_send c (chan_msg MSG_CHANNEL_EOF k2) k2
            in Some (client_send c (chan_msg MSG_CHANNEL_CLOSE k3) k3)
       else do {
         (t, pkt, k3) \<leftarrow> recv_packet c (if interactive then 60 else 30000) k2;
         if t = 0 then
           (if interactive then pump_loop c interactive k3 else Some (set_msg (str ''(timed out waiting for output)'') k3))
         else if t = -1 then Some (set_msg (str ''(protocol/decrypt error)'') k3)
         else if t = -2 then Some k3
         else do {
           (over, k4) \<leftarrow> pump_packet c t pkt k3;
           if over then Some k4 else pump_loop c interactive k4
         }
       }
     }"

definition finish_channel :: "'st client \<Rightarrow> 'st client" where
  "finish_channel k =
     upd_job (\<lambda>j. j\<lparr>j_rc := 0, j_msg := (if c_str (j_msg j) = []
       then take 199 (str ''Connection to '' @ j_host j @ str '' closed.'') else j_msg j)\<rparr>) k"

definition channel_start :: "crypto \<Rightarrow> 'st client \<Rightarrow> (bool \<times> 'st client) option" where
  "channel_start c k =
     (let j = job k in
      do {
        (t, pkt, k1) \<leftarrow> channel_recv c 15000
          (client_send c (start_request (c_peerChannel (cs k)) (j_haveCmd j) (j_command j)) k);
        if t < 0 then Some (fail ''channel request: connection lost'' k1)
        else if t = uint MSG_CHANNEL_FAILURE then Some (fail (if j_haveCmd j then ''exec refused'' else ''shell refused'') k1)
        else if t \<noteq> uint MSG_CHANNEL_SUCCESS
        then Some (False, fail_job (take 63 (str (''expected channel success (got msg '' @ dec_int t @ '')''))) k1)
        else do {
          k2 \<leftarrow> pump_loop c (\<not> j_haveCmd j) (if j_haveCmd j then client_send c (chan_msg MSG_CHANNEL_EOF k1) k1 else k1);
          Some (True, finish_channel k2)
        }
      })"

definition channel_pty :: "crypto \<Rightarrow> 'st client \<Rightarrow> (bool \<times> 'st client) option" where
  "channel_pty c k =
     do {
       (t, pkt, k1) \<leftarrow> channel_recv c 15000 (client_send c (pty_request (c_peerChannel (cs k)) (term_size (env k))) k);
       if t < 0 then Some (fail ''pty-req: connection lost'' k1)
       else if t = uint MSG_CHANNEL_FAILURE then Some (True, diag (str ''pty-req declined; continuing without a tty'') k1)
       else if t \<noteq> uint MSG_CHANNEL_SUCCESS then Some (fail ''expected pty-req reply'' k1)
       else Some (True, k1)
     }"

definition do_channel :: "crypto \<Rightarrow> 'st client \<Rightarrow> (bool \<times> 'st client) option" where
  "do_channel c k =
     do {
       (t, pkt, k1) \<leftarrow> channel_recv c 15000 (client_send c open_request k);
       if t < 0 then Some (fail ''channel open: connection lost'' k1)
       else if t = uint MSG_CHANNEL_OPEN_FAILURE then Some (fail ''server refused session channel'' k1)
       else if t \<noteq> uint MSG_CHANNEL_OPEN_CONFIRM then Some (fail ''expected channel confirm'' k1)
       else
         let k2 = upd_cs (\<lambda>s. (apply_confirm pkt s)\<lparr>c_localWindow := CLIENT_WINDOW\<rparr>) k1
         in if j_haveCmd (job k2) then channel_start c k2
            else do {
              (ok, k3) \<leftarrow> channel_pty c k2;
              if \<not> ok then Some (False, k3) else channel_start c k3
            }
     }"

section \<open>One session\<close>

definition dial_text :: "sshJob \<Rightarrow> bytes" where
  "dial_text j = take 109 (j_host j @ str '':'' @ str (dec (unat (j_port j))))"

definition hang_up :: "'st client \<Rightarrow> 'st client" where
  "hang_up k = upd_cs (\<lambda>s. s\<lparr>c_handle := -1\<rparr>) (set_world (itsDisconnect (c_handle (cs k)) (world_of k)) k)"

definition run_session :: "crypto \<Rightarrow> 'st storage_api \<Rightarrow> 'st client \<Rightarrow> 'st client option" where
  "run_session c a k0 =
     (let k = k0\<lparr>cs := new_csess\<rparr>;
          (h, w1) = itsConnect ''net'' (TcpDial (dial_text (job k))) 0 (world_of k);
          k1 = upd_cs (\<lambda>s. s\<lparr>c_handle := h\<rparr>) (set_world w1 k)
      in if h < 0 then Some (snd (fail ''dial failed (host unreachable / DNS / net down)'' k1))
         else do {
           (v, k2) \<leftarrow> do_version k1;
           if \<not> v then Some (hang_up k2)
           else do {
             (x, k3) \<leftarrow> do_kex c a k2;
             if \<not> x then Some (hang_up k3)
             else do {
               (u, k4) \<leftarrow> do_auth c k3;
               if \<not> u then Some (hang_up k4)
               else do {
                 (_, k5) \<leftarrow> do_channel c k4;
                 Some (hang_up k5)
               }
             }
           }
         })"

text \<open>A round of the worker task: the session, then the flag the command waits for.\<close>

definition worker_round :: "crypto \<Rightarrow> 'st storage_api \<Rightarrow> 'st client \<Rightarrow> 'st client option" where
  "worker_round c a k = map_option (upd_job (\<lambda>j. j\<lparr>j_done := True\<rparr>)) (run_session c a k)"

section \<open>The client's requests, as the server reads them\<close>

text \<open>Documented behaviour of Ed25519: a signature verifies under the public key of its 32-byte seed; the sizes.\<close>

definition ed25519_laws :: "crypto \<Rightarrow> bool" where
  "ed25519_laws c \<longleftrightarrow>
     (\<forall>seed pub m sig. length seed = 32 \<longrightarrow> ed25519_pub_from_seed c seed = Some pub \<longrightarrow> ed25519_sign c seed m = Some sig \<longrightarrow>
        length pub = 32 \<and> length sig = 64 \<and> ed25519_verify c pub m sig)"

lemma put_cstring_string: "put_cstring s t = put_string s (str t)"
  by (simp add: put_cstring_def)

lemma put_u8_append: "put_u8 s b = s @ [b]"
  by (simp add: put_u8_def)

lemma put_string_snoc: "put_string (m # s) d = m # s @ put_string [] d"
  by (subst put_string_append) simp

lemma put_string_chain: "put_string (s @ t) d = s @ put_string t d" "put_string (put_string [] a) d = put_string [] a @ put_string [] d"
  by (subst put_string_append, subst (2) put_string_append, simp)+

lemma tagged_blob: "put_string (put_cstring [] ''ssh-ed25519'') x = put_string [] ALG_NAME @ put_string [] x"
  by (simp add: put_cstring_string put_string_chain ALG_NAME_def)

lemma pubkey_request_eq:
  "pubkey_request usr pk sig = MSG_USERAUTH_REQUEST # put_string [] (c_str usr) @ put_string [] (str ''ssh-connection'') @
     put_string [] (str ''publickey'') @ 1 # put_string [] ALG_NAME @ put_string [] pk @ put_string [] (put_string [] ALG_NAME @ put_string [] sig)"
  unfolding pubkey_request_def tagged_blob
  by (simp add: pubkey_request_tail_def userauth_head_def put_cbytes_def put_cstring_string put_u8_append put_string_snoc
      put_string_chain ALG_NAME_def)

lemma password_request_eq:
  "password_request usr pw = MSG_USERAUTH_REQUEST # put_string [] (c_str usr) @ put_string [] (str ''ssh-connection'') @
     put_string [] (str ''password'') @ 0 # put_string [] pw"
  by (simp add: password_request_def userauth_head_def put_cbytes_def put_cstring_string put_u8_append put_string_snoc
      put_string_chain)

lemma client_signed_data_eq:
  "length sid = 32 \<Longrightarrow> client_signed_data sid usr pk = userauth_signed_data sid (c_str usr) (str ''ssh-connection'') pk"
  by (simp add: client_signed_data_def userauth_signed_data_def pubkey_request_tail_def userauth_head_def put_cbytes_def
      put_cstring_string Let_def)

lemma length_c_str: "length (c_str s) \<le> length s"
  by (simp add: c_str_def length_takeWhile_le)

lemma credential_method:
  assumes "length u < 2 ^ 32" and "length m < 2 ^ 32"
  shows "credential c w sid (put_string [] u @ put_string [] (str ''ssh-connection'') @ put_string [] m @ r) \<longleftrightarrow>
    (m = str ''publickey'' \<and> publickey_credential c w sid u (str ''ssh-connection'') r \<or>
     m = str ''password'' \<and> password_credential w r)"
proof -
  have len: "length (str ''publickey'') < 2 ^ 32" "length (str ''password'') < 2 ^ 32" "length (str ''ssh-connection'') < 2 ^ 32"
    by simp_all
  have inj: "put_string [] u @ put_string [] (str ''ssh-connection'') @ put_string [] m @ r =
      put_string [] x @ put_string [] y @ put_string [] z @ q \<longleftrightarrow> u = x \<and> str ''ssh-connection'' = y \<and> m = z \<and> r = q"
    if "length x < 2 ^ 32" "length y < 2 ^ 32" "length z < 2 ^ 32" for x y z q
    using put_string_inj [OF assms(1) that(1)] put_string_inj [OF len(3) that(2)] put_string_inj [OF assms(2) that(3)] by simp
  show ?thesis
  proof
    assume "credential c w sid (put_string [] u @ put_string [] (str ''ssh-connection'') @ put_string [] m @ r)"
    then obtain x y q where short: "length x < 2 ^ 32" "length y < 2 ^ 32"
      and eq: "put_string [] u @ put_string [] (str ''ssh-connection'') @ put_string [] m @ r =
          put_string [] x @ put_string [] y @ put_string [] (str ''publickey'') @ q \<and> publickey_credential c w sid x y q \<or>
        put_string [] u @ put_string [] (str ''ssh-connection'') @ put_string [] m @ r =
          put_string [] x @ put_string [] y @ put_string [] (str ''password'') @ q \<and> password_credential w q"
      unfolding credential_def by blast
    show "m = str ''publickey'' \<and> publickey_credential c w sid u (str ''ssh-connection'') r \<or>
        m = str ''password'' \<and> password_credential w r"
      using eq unfolding inj [OF short len(1)] inj [OF short len(2)] by blast
  next
    assume "m = str ''publickey'' \<and> publickey_credential c w sid u (str ''ssh-connection'') r \<or>
        m = str ''password'' \<and> password_credential w r"
    then show "credential c w sid (put_string [] u @ put_string [] (str ''ssh-connection'') @ put_string [] m @ r)"
      unfolding credential_def using assms(1) len(3) by blast
  qed
qed

lemma publickey_credential_iff:
  assumes "length pub = 32" and "length sig = 64"
    and "ed25519_verify c pub (userauth_signed_data sid u svc (put_string [] ALG_NAME @ put_string [] pub)) sig"
  shows "publickey_credential c w sid u svc (1 # put_string [] ALG_NAME @ put_string [] (put_string [] ALG_NAME @ put_string [] pub) @
      put_string [] (put_string [] ALG_NAME @ put_string [] sig)) \<longleftrightarrow> authorized_pub_matches c w pub"
    (is "publickey_credential c w sid u svc (1 # ?r) \<longleftrightarrow> _")
proof
  assume "authorized_pub_matches c w pub"
  then show "publickey_credential c w sid u svc (1 # ?r)"
    unfolding publickey_credential_def
    by - (rule exI [of _ 1], rule exI [of _ "put_string [] ALG_NAME @ put_string [] pub"], rule exI [of _ pub], rule exI [of _ "[]"],
      rule exI [of _ "put_string [] ALG_NAME @ put_string [] sig"], rule exI [of _ sig], rule exI [of _ "[]"], rule exI [of _ "[]"],
      simp only: append_Nil2 assms simp_thms, simp add: length_put_string length_ALG_NAME assms(1,2))
next
  have len: "length ALG_NAME < 2 ^ 32" "length (put_string [] ALG_NAME @ put_string [] pub) < 2 ^ 32" "length pub < 2 ^ 32"
    using assms(1) by (simp_all add: length_put_string length_ALG_NAME)
  assume "publickey_credential c w sid u svc (1 # ?r)"
  then obtain h pk pub32 pkRest sb rest where r: "1 # ?r = h # put_string [] ALG_NAME @ put_string [] pk @ put_string [] sb @ rest"
      and pk: "length pk < 2 ^ 32" "pk = put_string [] ALG_NAME @ put_string [] pub32 @ pkRest" "length pub32 = 32"
      and auth: "authorized_pub_matches c w pub32"
    unfolding publickey_credential_def by (elim exE conjE) (rule that; assumption)
  have "put_string [] (put_string [] ALG_NAME @ put_string [] pub) @ put_string [] (put_string [] ALG_NAME @ put_string [] sig) =
      put_string [] pk @ put_string [] sb @ rest"
    using put_string_inj [OF len(1) len(1)] r by (simp only: list.inject)
  then have "put_string [] ALG_NAME @ put_string [] pub @ [] = pk"
    using put_string_inj [OF len(2) pk(1)] by (simp only: append_Nil2)
  then have "put_string [] pub @ [] = put_string [] pub32 @ pkRest"
    using pk(2) put_string_inj [OF len(1) len(1)] by (simp only:)
  then have "pub = pub32"
    using put_string_inj [OF len(3), of pub32 "[]" pkRest] pk(3) by (simp only:) simp
  with auth show "authorized_pub_matches c w pub"
    by (simp only:)
qed

lemma password_credential_iff: "length pw < 2 ^ 32 \<Longrightarrow> password_credential w (0 # put_string [] pw) \<longleftrightarrow> auth_ans w (c_str pw)"
  using put_string_inj [of pw _ "[]"] by (auto simp: password_credential_def)

text \<open>
  C24: What the client sends, the server understands: for a client and a server with the same
  session identifier, the public-key request the client builds authenticates the server
  session if and only if the client's key is authorized there, and the password request if and
  only if the realm accepts the password (up to its first NUL).
\<close>

theorem client_userauth_accepted:
  assumes "ed25519_laws c" and "phase s = AUTH" and "\<not> authed s" and "length (sessionId s) = 32"
    and "length usr < 1000" and "length pw < 1000" and "length seed = 32" and "ed25519_pub_from_seed c seed = Some pub"
    and "ed25519_sign c seed (client_signed_data (sessionId s) usr (client_pk_blob pub)) = Some sig"
  shows "(authed (fst (snd (handle_userauth_request c (tl (pubkey_request usr (client_pk_blob pub) sig)) (s, w)))) \<longleftrightarrow>
      authorized_pub_matches c w pub) \<and>
    (authed (fst (snd (handle_userauth_request c (tl (password_request usr pw)) (s, w)))) \<longleftrightarrow> auth_ans w (c_str pw))"
proof -
  have sizes: "length pub = 32" "length sig = 64" "ed25519_verify c pub (client_signed_data (sessionId s) usr (client_pk_blob pub)) sig"
    using assms(1,7-9) unfolding ed25519_laws_def by blast+
  have blob: "client_pk_blob pub = put_string [] ALG_NAME @ put_string [] pub"
    by (simp add: client_pk_blob_def tagged_blob)
  have verify: "ed25519_verify c pub (userauth_signed_data (sessionId s) (c_str usr) (str ''ssh-connection'')
      (put_string [] ALG_NAME @ put_string [] pub)) sig"
    using sizes(3) by (simp add: client_signed_data_eq assms(4) blob)
  have usr: "length (c_str usr) < 2 ^ 32" "length (c_str usr) < 1000"
    using length_c_str [of usr] assms(5) by simp_all
  have pk_short: "length (tl (pubkey_request usr (client_pk_blob pub) sig)) < 2 ^ 32"
    using usr(2) sizes by (simp add: pubkey_request_eq length_put_string blob length_ALG_NAME)
  have pw_short: "length (tl (password_request usr pw)) < 2 ^ 32"
    using usr(2) assms(6) by (simp add: password_request_eq length_put_string)
  have "credential c w (sessionId s) (tl (pubkey_request usr (client_pk_blob pub) sig)) \<longleftrightarrow> authorized_pub_matches c w pub"
    using credential_method [OF usr(1), of "str ''publickey''"] publickey_credential_iff [OF sizes(1,2) verify]
    by (simp add: pubkey_request_eq blob)
  moreover have "credential c w (sessionId s) (tl (password_request usr pw)) \<longleftrightarrow> auth_ans w (c_str pw)"
    using credential_method [OF usr(1), of "str ''password''"] password_credential_iff [of pw] assms(6)
    by (simp add: password_request_eq)
  ultimately show ?thesis
    using userauth_exactly_credentials [OF pk_short assms(3,2)] userauth_exactly_credentials [OF pw_short assms(3,2)] by blast
qed


lemma sample_ed25519_laws: "ed25519_laws sample_crypto"
  by (simp add: ed25519_laws_def ed25519_pub_from_seed_def ed25519_sign_def ed25519_verify_def sample_crypto_def sample_vendored_def
      min_def)

theorem client_userauth_accepted_witness:
  "authed (fst (snd (handle_userauth_request sample_crypto (tl (password_request (str ''root'') (str ''hunter2'')))
     (reset_session\<lparr>phase := AUTH, sessionId := replicate 32 7\<rparr>, sample_world))))"
proof -
  let ?s = "reset_session\<lparr>phase := AUTH, sessionId := replicate 32 7\<rparr>"
  have pw: "c_str (str ''hunter2'') = str ''hunter2''"
    by (simp add: c_str_def str_def)
  obtain sig where "ed25519_sign sample_crypto (replicate 32 1)
      (client_signed_data (sessionId ?s) (str ''root'') (client_pk_blob (replicate 32 1))) = Some sig"
    by (simp add: ed25519_sign_def sample_crypto_def sample_vendored_def)
  moreover have "ed25519_pub_from_seed sample_crypto (replicate 32 1) = Some (replicate 32 1)"
    by (simp add: ed25519_pub_from_seed_def sample_crypto_def sample_vendored_def)
  ultimately show ?thesis
    using client_userauth_accepted [OF sample_ed25519_laws, of ?s "str ''root''" "str ''hunter2''" "replicate 32 1" "replicate 32 1"]
    by (simp add: reset_session_def pw sample_world_def)
qed

end
