(* ===== verification/Channel.thy ===== *)
theory Channel
  imports Userauth
begin

text \<open>
  The connection layer of the server, \<open>esp-idf/src/sshd_session.cpp\<close>: the single session
  channel of a connection, its windows, the requests that attach it to the \<open>cli\<close> or \<open>log\<close>
  backend, and the two relays between the channel and the backend.
\<close>

section \<open>Constants and messages\<close>

definition LOCAL_CHANNEL_ID :: u32 where "LOCAL_CHANNEL_ID = 0"
definition LOCAL_WINDOW :: u32 where "LOCAL_WINDOW = 32768"
definition LOCAL_MAXPACKET :: u32 where "LOCAL_MAXPACKET = 16384"

definition send_channel_open_failure :: "crypto \<Rightarrow> u32 \<Rightarrow> u32 \<Rightarrow> string \<Rightarrow> conn \<Rightarrow> conn" where
  "send_channel_open_failure c peerChan reason desc \<sigma> =
     send_packet c (put_cstring (put_cstring (put_u32 (put_u32 (put_u8 [] MSG_CHANNEL_OPEN_FAILURE) peerChan)
       reason) desc) '''') \<sigma>"

definition send_channel_open_confirm :: "crypto \<Rightarrow> conn \<Rightarrow> conn" where
  "send_channel_open_confirm c \<sigma> =
     send_packet c (put_u32 (put_u32 (put_u32 (put_u32 (put_u8 [] MSG_CHANNEL_OPEN_CONFIRM)
       (peerChannel (fst \<sigma>))) (localChannel (fst \<sigma>))) LOCAL_WINDOW) LOCAL_MAXPACKET) \<sigma>"

definition send_channel_request_reply :: "crypto \<Rightarrow> bool \<Rightarrow> conn \<Rightarrow> conn" where
  "send_channel_request_reply c success \<sigma> =
     send_packet c (put_u32 (put_u8 [] (if success then MSG_CHANNEL_SUCCESS else MSG_CHANNEL_FAILURE))
       (peerChannel (fst \<sigma>))) \<sigma>"

definition channel_data_payload :: "u32 \<Rightarrow> bytes \<Rightarrow> bytes" where
  "channel_data_payload ch data = put_string (put_u32 (put_u8 [] MSG_CHANNEL_DATA) ch) data"

definition send_channel_data :: "crypto \<Rightarrow> bytes \<Rightarrow> conn \<Rightarrow> conn" where
  "send_channel_data c data \<sigma> = send_packet c (channel_data_payload (peerChannel (fst \<sigma>)) data) \<sigma>"

definition send_channel_window_adjust :: "crypto \<Rightarrow> u32 \<Rightarrow> conn \<Rightarrow> conn" where
  "send_channel_window_adjust c add \<sigma> =
     send_packet c (put_u32 (put_u32 (put_u8 [] MSG_CHANNEL_WINDOW_ADJUST) (peerChannel (fst \<sigma>))) add) \<sigma>"

definition send_channel_close :: "crypto \<Rightarrow> conn \<Rightarrow> conn" where
  "send_channel_close c \<sigma> = send_packet c (put_u32 (put_u8 [] MSG_CHANNEL_CLOSE) (peerChannel (fst \<sigma>))) \<sigma>"

definition send_channel_eof :: "crypto \<Rightarrow> conn \<Rightarrow> conn" where
  "send_channel_eof c \<sigma> = send_packet c (put_u32 (put_u8 [] MSG_CHANNEL_EOF) (peerChannel (fst \<sigma>))) \<sigma>"

definition send_exit_status :: "crypto \<Rightarrow> u32 \<Rightarrow> conn \<Rightarrow> conn" where
  "send_exit_status c status \<sigma> =
     (if phase (fst \<sigma>) = CLOSED \<or> tcp (fst \<sigma>) < 0 then \<sigma>
      else send_packet c (put_u32 (put_u8 (put_cstring (put_u32 (put_u8 [] MSG_CHANNEL_REQUEST)
             (peerChannel (fst \<sigma>))) ''exit-status'') 0) status) \<sigma>)"

section \<open>Backends\<close>

definition open_backend_with_mode :: "int \<Rightarrow> cli_mode \<Rightarrow> conn \<Rightarrow> bool \<times> conn" where
  "open_backend_with_mode sessionSlot cliMode \<sigma> =
     (let (s, w) = \<sigma>;
          (s1, w1) =
            (case chanKind s of
               CH_CLI \<Rightarrow>
                 let color = (cfg_int w ''s.sshd.color'' 0 \<noteq> 0);
                     noPrompt = (cliMode = CLI_LINE);
                     (h, w') = itsConnect ''cli'' (CliConnect cliMode color noPrompt) sessionSlot w
                 in (s\<lparr>backendHandle := h\<rparr>, w')
             | CH_LOG \<Rightarrow>
                 let logColor = (cfg_int w ''s.sshd.logcolor'' 0 \<noteq> 0);
                     (h, w') = itsConnect ''log'' (LogConnect logColor) sessionSlot w
                 in (s\<lparr>backendHandle := h\<rparr>, w')
             | CH_NONE \<Rightarrow> (s, w))
      in (backendHandle s1 \<ge> 0, s1, w1))"

definition open_backend :: "int \<Rightarrow> conn \<Rightarrow> bool \<times> conn" where
  "open_backend sessionSlot \<sigma> = open_backend_with_mode sessionSlot CLI_ANSI \<sigma>"

definition open_backend_line :: "int \<Rightarrow> conn \<Rightarrow> bool \<times> conn" where
  "open_backend_line sessionSlot \<sigma> = open_backend_with_mode sessionSlot CLI_LINE \<sigma>"

section \<open>Handlers\<close>

definition handle_channel_open :: "crypto \<Rightarrow> bytes \<Rightarrow> conn \<Rightarrow> bool \<times> conn" where
  "handle_channel_open c payload \<sigma> =
     (let (typ, v1) = get_string (view_init payload) in
      case typ of
        None \<Rightarrow> (False, \<sigma>)
      | Some typeStr \<Rightarrow>
          (let (peerCh, v2) = get_u32 v1; (peerWin, v3) = get_u32 v2; (peerMax, v4) = get_u32 v3 in
           if vbad v4 then (False, \<sigma>)
           else if chanOpen (fst \<sigma>)
           then (True, send_channel_open_failure c peerCh 2 ''only one channel allowed'' \<sigma>)
           else if typeStr \<noteq> str ''session''
           then (True, send_channel_open_failure c peerCh 3 ''only session channels'' \<sigma>)
           else let (s, w) = \<sigma>;
                    s1 = s\<lparr>peerChannel := peerCh, localChannel := LOCAL_CHANNEL_ID, peerWindow := peerWin,
                           peerMaxPacket := peerMax, localWindow := LOCAL_WINDOW, chanOpen := True\<rparr>
                in (True, send_channel_open_confirm c (s1, w))))"

definition kex_name :: "session \<Rightarrow> string" where
  "kex_name s = (if kexAlg s = MLKEM768_X25519 then ''mlkem768x25519-sha256'' else ''curve25519-sha256'')"

text \<open>One line per established session; \<open>cmd\<close> is given for exec requests.\<close>

definition log_accepted :: "int \<Rightarrow> bytes option \<Rightarrow> conn \<Rightarrow> conn" where
  "log_accepted sessionSlot cmd \<sigma> =
     (let s = fst \<sigma>;
          line = str ''sshd: accepted ('' @ str (dec_int sessionSlot) @ str ''), peer '' @ [39] @ c_str (peerVersion s) @
            [39] @ str '', KEX '' @ str (kex_name s)
      in (s, log_bytes (case cmd of None \<Rightarrow> line | Some d \<Rightarrow> line @ str '', cmd: '' @ c_str d) (snd \<sigma>)))"

definition request_reply :: "crypto \<Rightarrow> byte \<Rightarrow> bool \<Rightarrow> conn \<Rightarrow> bool \<times> conn" where
  "request_reply c wantReply ok \<sigma> =
     (True, if wantReply \<noteq> 0 then send_channel_request_reply c ok \<sigma> else \<sigma>)"

text \<open>The requests that attach a backend of the given kind.\<close>

definition request_shell :: "crypto \<Rightarrow> byte \<Rightarrow> chan_kind \<Rightarrow> int \<Rightarrow> conn \<Rightarrow> bool \<times> conn" where
  "request_shell c wantReply kind sessionSlot \<sigma> =
     (let (s, w) = \<sigma>; (ok, \<sigma>1) = open_backend sessionSlot (s\<lparr>chanKind := kind\<rparr>, w) in
      if \<not> ok then request_reply c wantReply False \<sigma>1
      else request_reply c wantReply True (log_accepted sessionSlot None \<sigma>1))"

definition request_exec :: "crypto \<Rightarrow> byte \<Rightarrow> view \<Rightarrow> int \<Rightarrow> conn \<Rightarrow> bool \<times> conn" where
  "request_exec c wantReply v sessionSlot \<sigma> =
     (case fst (get_string v) of
        None \<Rightarrow> request_reply c wantReply False \<sigma>
      | Some cmd \<Rightarrow>
          if length cmd > 256 then request_reply c wantReply False \<sigma>
          else let (s, w) = \<sigma>; (ok, \<sigma>1) = open_backend_line sessionSlot (s\<lparr>chanKind := CH_CLI\<rparr>, w) in
               if \<not> ok then request_reply c wantReply False \<sigma>1
               else let (_, s2, w2) = request_reply c wantReply True (log_accepted sessionSlot (Some cmd) \<sigma>1);
                        line = cmd @ [of_char (CHR '';''), 10]
                    in (True, s2, snd (itsSend (backendHandle s2) line w2)))"

definition handle_channel_request :: "crypto \<Rightarrow> bytes \<Rightarrow> int \<Rightarrow> conn \<Rightarrow> bool \<times> conn" where
  "handle_channel_request c payload sessionSlot \<sigma> =
     (let (recipient, v1) = get_u32 (view_init payload); (typ, v2) = get_string v1 in
      case typ of
        None \<Rightarrow> (False, \<sigma>)
      | Some typeStr \<Rightarrow>
          (let (wantReply, v3) = get_u8 v2 in
           if typeStr = str ''pty-req'' then request_reply c wantReply True \<sigma>
           else if typeStr = str ''shell'' then request_shell c wantReply CH_CLI sessionSlot \<sigma>
           else if typeStr = str ''exec'' then request_exec c wantReply v3 sessionSlot \<sigma>
           else if typeStr = str ''subsystem'' then
             (case fst (get_string v3) of
                None \<Rightarrow> request_reply c wantReply False \<sigma>
              | Some sub \<Rightarrow>
                  if sub = str ''log'' then request_shell c wantReply CH_LOG sessionSlot \<sigma>
                  else request_reply c wantReply False \<sigma>)
           else if typeStr = str ''env'' then request_reply c wantReply True \<sigma>
           else request_reply c wantReply False \<sigma>))"

definition handle_channel_data :: "crypto \<Rightarrow> bytes \<Rightarrow> conn \<Rightarrow> conn" where
  "handle_channel_data c payload \<sigma> =
     (let (recipient, v1) = get_u32 (view_init payload) in
      case fst (get_string v1) of
        None \<Rightarrow> \<sigma>
      | Some d \<Rightarrow>
          if backendHandle (fst \<sigma>) < 0 then \<sigma>
          else let (s, w) = \<sigma>; (written, w1) = itsSend (backendHandle s) d w in
               if written > 0 then
                 let s1 = s\<lparr>localWindow := localWindow s - of_nat written\<rparr> in
                 if localWindow s1 < LOCAL_WINDOW div 2 then
                   let add = LOCAL_WINDOW - localWindow s1
                   in send_channel_window_adjust c add (s1\<lparr>localWindow := localWindow s1 + add\<rparr>, w1)
                 else (s1, w1)
               else (s, w1))"

section \<open>From the backend to the channel\<close>

text \<open>How much one round asks the backend for: at most 1024 bytes, the window and the peer's packet limit.\<close>

definition backend_want :: "session \<Rightarrow> u32" where
  "backend_want s =
     (let want0 = 1024;
          want1 = (if want0 > peerWindow s then peerWindow s else want0)
      in if peerMaxPacket s \<noteq> 0 \<and> want1 > peerMaxPacket s then peerMaxPacket s else want1)"

lemma backend_want_bounds:
  "unat (backend_want s) \<le> unat (peerWindow s)" "unat (backend_want s) \<le> 1024"
  "peerMaxPacket s \<noteq> 0 \<Longrightarrow> unat (backend_want s) \<le> unat (peerMaxPacket s)"
  "0 < peerWindow s \<Longrightarrow> 0 < unat (backend_want s)"
  by (auto simp: backend_want_def Let_def word_less_nat_alt word_gt_0 unat_gt_0)

lemma send_channel_data_frame [frame, simp]:
  "fst (send_channel_data c d \<sigma>) = fst (send_packet c (channel_data_payload (peerChannel (fst \<sigma>)) d) \<sigma>)"
  by (simp add: send_channel_data_def)

function backend_loop :: "crypto \<Rightarrow> conn \<Rightarrow> conn" where
  "backend_loop c (s, w) =
     (if peerWindow s > 0 \<and> chanOpen s then
        let (got, w1) = itsRecv (backendHandle s) (unat (backend_want s)) w in
        if got = [] then (s, w1)
        else let (s2, w2) = send_channel_data c got (s, w1)
             in backend_loop c (s2\<lparr>peerWindow := peerWindow s2 - of_nat (length got)\<rparr>, w2)
      else (s, w))"
  by pat_completeness auto

lemma window_sub:
  fixes win :: u32
  assumes "n \<le> unat win"
  shows "unat (win - of_nat n) = unat win - n"
proof -
  have "unat win < 2 ^ LENGTH(32)"
    by (rule unsigned_less)
  then have "n < 2 ^ 32"
    using assms by simp
  then have "unat (of_nat n :: u32) = n"
    by (simp add: unat_of_nat)
  then show ?thesis
    using assms by (simp add: unat_sub word_le_nat_alt)
qed

lemma backend_round:
  assumes "(got, w1) = itsRecv (backendHandle s) (unat (backend_want s)) w"
  shows "length got \<le> unat (peerWindow s)" and "length got \<le> 1024"
    and "peerMaxPacket s \<noteq> 0 \<Longrightarrow> length got \<le> unat (peerMaxPacket s)"
    and "unat (peerWindow s - of_nat (length got)) = unat (peerWindow s) - length got"
proof -
  have "length got \<le> unat (backend_want s)"
    using itsRecv_le [of "backendHandle s" "unat (backend_want s)" w] assms by (metis fst_conv)
  then show le: "length got \<le> unat (peerWindow s)" and "length got \<le> 1024"
    and "peerMaxPacket s \<noteq> 0 \<Longrightarrow> length got \<le> unat (peerMaxPacket s)"
    using backend_want_bounds [of s] by linarith+
  show "unat (peerWindow s - of_nat (length got)) = unat (peerWindow s) - length got"
    using le by (rule window_sub)
qed

termination backend_loop
proof (relation "measure (\<lambda>(c, s, w). unat (peerWindow s))")
  fix c :: crypto and s :: session and w :: world and got w1 s2 w2 x y
  assume open_chan: "0 < peerWindow s \<and> chanOpen s"
    and recv: "x = itsRecv (backendHandle s) (unat (backend_want s)) w" "(got, w1) = x" and "got \<noteq> []"
    and sent: "y = send_channel_data c got (s, w1)" "(s2, w2) = y"
  have "peerWindow s2 = peerWindow s"
    using sent by (metis fst_conv send_channel_data_frame send_packet_frame(15))
  moreover have "(got, w1) = itsRecv (backendHandle s) (unat (backend_want s)) w"
    using recv by simp
  ultimately show "((c, s2\<lparr>peerWindow := peerWindow s2 - of_nat (length got)\<rparr>, w2), c, s, w) \<in>
      measure (\<lambda>(c, s, w). unat (peerWindow s))"
    using backend_round [of got w1 s w] \<open>got \<noteq> []\<close> open_chan by (auto simp: word_less_nat_alt)
qed simp

declare backend_loop.simps [simp del]

definition session_on_backend_data :: "crypto \<Rightarrow> conn \<Rightarrow> conn" where
  "session_on_backend_data c \<sigma> =
     (if \<not> chanOpen (fst \<sigma>) \<or> backendHandle (fst \<sigma>) < 0 then \<sigma> else backend_loop c \<sigma>)"

definition handle_channel_window_adjust :: "crypto \<Rightarrow> bytes \<Rightarrow> conn \<Rightarrow> conn" where
  "handle_channel_window_adjust c payload \<sigma> =
     (let (recipient, v1) = get_u32 (view_init payload); (add, v2) = get_u32 v1; (s, w) = \<sigma>
      in session_on_backend_data c (s\<lparr>peerWindow := peerWindow s + add\<rparr>, w))"

definition handle_channel_close :: "crypto \<Rightarrow> conn \<Rightarrow> conn" where
  "handle_channel_close c \<sigma> =
     (let (s, w) = \<sigma> in
      if \<not> chanOpen s then (s, w)
      else let (s1, w1) = (if backendHandle s \<ge> 0
                           then (s\<lparr>backendHandle := -1\<rparr>, itsDisconnect (backendHandle s) w) else (s, w));
               (s2, w2) = send_channel_close c (s1, w1)
           in (s2\<lparr>chanOpen := False, phase := CLOSED\<rparr>, w2))"

section \<open>What the peer reads\<close>

text \<open>The bytes of a trace sent on, and received from, one handle.\<close>

fun sent_to :: "int \<Rightarrow> effect list \<Rightarrow> bytes" where
  "sent_to h [] = []"
| "sent_to h (ItsSend k d # es) = (if k = h then d else []) @ sent_to h es"
| "sent_to h (e # es) = sent_to h es"

fun recv_from :: "int \<Rightarrow> effect list \<Rightarrow> bytes" where
  "recv_from h [] = []"
| "recv_from h (ItsRecv k d # es) = (if k = h then d else []) @ recv_from h es"
| "recv_from h (e # es) = recv_from h es"

text \<open>The parser of a peer that holds the server-to-client key.\<close>

definition peer_parse :: "crypto \<Rightarrow> session \<Rightarrow> u64 \<Rightarrow> bytes \<Rightarrow> parse_result" where
  "peer_parse c s seq buf = (if encOutbound s then parse_encrypted c (s2cKey s) seq buf else parse_plain buf)"

lemma peer_parse_packet_bytes:
  assumes "cipher_laws c" and "length payload \<le> 30000"
  shows "peer_parse c (fst \<sigma>) (seqOut (fst \<sigma>)) (packet_bytes c payload \<sigma> @ rest) = Packet payload rest"
proof -
  let ?r = "(fst \<sigma>)\<lparr>encInbound := encOutbound (fst \<sigma>), c2sKey := s2cKey (fst \<sigma>), seqIn := seqOut (fst \<sigma>)\<rparr>"
  have "1 + length payload + pad_len (encOutbound (fst \<sigma>)) (length payload) \<le> 35000"
    using assms(2) pad_len_bounds(2) [of "encOutbound (fst \<sigma>)" "length payload"] by simp
  then have "parse_packet c (?r\<lparr>rxBuf := packet_bytes c payload \<sigma> @ rest\<rparr>) =
      (Packet payload rest, ?r\<lparr>rxBuf := rest, seqIn := seqIn ?r + 1\<rparr>)"
    by (intro parse_packet_packet_bytes(1) [OF assms(1)]) simp_all
  then show ?thesis
    by (auto simp: parse_packet_def peer_parse_def Let_def split: parse_result.splits if_splits)
qed

lemma length_channel_data_payload [simp]: "length (channel_data_payload ch d) = 9 + length d"
  by (simp add: channel_data_payload_def put_u32_def put_u8_def)

lemma peer_parse_cong:
  "encOutbound t = encOutbound s \<Longrightarrow> s2cKey t = s2cKey s \<Longrightarrow> peer_parse c t = peer_parse c s"
  by (simp add: peer_parse_def fun_eq_iff)

text \<open>
  The relay specification: the chunks taken from the backend, in order, are the data of the
  packets the peer reads, and each respects the limits.
\<close>

definition relayed :: "crypto \<Rightarrow> session \<Rightarrow> effect list \<Rightarrow> bytes list \<Rightarrow> bool" where
  "relayed c s es chunks \<longleftrightarrow>
     recv_from (backendHandle s) es = concat chunks \<and>
     unwrap_all (peer_parse c s) (seqOut s) (length chunks) (sent_to (tcp s) es) =
       Some (map (channel_data_payload (peerChannel s)) chunks, []) \<and>
     (\<forall>d \<in> set chunks. d \<noteq> [] \<and> length d \<le> 1024 \<and>
        (peerMaxPacket s \<noteq> 0 \<longrightarrow> length d \<le> unat (peerMaxPacket s)))"

lemma relayed_Cons:
  assumes "cipher_laws c" and "got \<noteq> []" and "length got \<le> 1024"
    and "peerMaxPacket s \<noteq> 0 \<longrightarrow> length got \<le> unat (peerMaxPacket s)"
    and "relayed c (s\<lparr>seqOut := seqOut s + 1, peerWindow := x\<rparr>) es chunks"
  shows "relayed c s (ItsRecv (backendHandle s) got #
    ItsSend (tcp s) (packet_bytes c (channel_data_payload (peerChannel s) got) (s, w)) # es) (got # chunks)"
proof -
  let ?t = "s\<lparr>seqOut := seqOut s + 1, peerWindow := x\<rparr>"
  have "peer_parse c ?t = peer_parse c s"
    by (rule peer_parse_cong) simp_all
  moreover have "peer_parse c s (seqOut s) (packet_bytes c (channel_data_payload (peerChannel s) got) (s, w) @ rest) =
      Packet (channel_data_payload (peerChannel s) got) rest" for rest
    using peer_parse_packet_bytes [OF assms(1), of "channel_data_payload (peerChannel s) got" "(s, w)" rest] assms(3)
    by simp
  ultimately show ?thesis
    using assms(2-5) by (simp add: relayed_def)
qed

lemma backend_loop_relays:
  assumes "cipher_laws c" and "can_send s"
  shows "\<exists>es chunks. trace (snd (backend_loop c (s, w))) = trace w @ es \<and> relayed c s es chunks \<and>
    length (concat chunks) \<le> unat (peerWindow s) \<and>
    fst (backend_loop c (s, w)) =
      s\<lparr>peerWindow := peerWindow s - of_nat (length (concat chunks)), seqOut := seqOut s + of_nat (length chunks)\<rparr>"
  using assms
proof (induction c "(s, w)" arbitrary: s w rule: backend_loop.induct)
  case (1 c s w)
  define h where "h = backendHandle s"
  obtain got w1 where recv: "itsRecv h (unat (backend_want s)) w = (got, w1)"
    by fastforce
  have tr1: "trace w1 = trace w @ [ItsRecv h got]"
    using trace_effects(4) [of h "unat (backend_want s)" w] recv by simp
  show ?case
  proof (cases "peerWindow s > 0 \<and> chanOpen s")
    case False
    then show ?thesis
      by (subst (1 2) backend_loop.simps, intro exI [of _ "[]"]) (auto simp: relayed_def)
  next
    case True
    show ?thesis
    proof (cases "got = []")
      case True
      then have "backend_loop c (s, w) = (s, w1)"
        using \<open>peerWindow s > 0 \<and> chanOpen s\<close> recv by (subst backend_loop.simps) (simp add: h_def)
      then show ?thesis
        using True tr1
        by (intro exI [of _ "[ItsRecv h got]"] exI [of _ "[]"]) (simp add: relayed_def)
    next
      case False
      obtain s2 w2 where sent: "send_channel_data c got (s, w1) = (s2, w2)"
        by fastforce
      have s2: "s2 = s\<lparr>seqOut := seqOut s + 1\<rparr>"
        using sent "1.prems" send_packet_fst [of c _ "(s, w1)"]
        by (metis fst_conv send_channel_data_frame)
      have tr2: "trace w2 = trace w1 @ [ItsSend (tcp s) (packet_bytes c (channel_data_payload (peerChannel s) got) (s, w1))]"
        using sent "1.prems" send_packet_trace [of c "channel_data_payload (peerChannel s) got" "(s, w1)"]
        by (simp add: send_channel_data_def)
      define t where "t = s\<lparr>seqOut := seqOut s + 1, peerWindow := peerWindow s - of_nat (length got)\<rparr>"
      have step: "backend_loop c (s, w) = backend_loop c (t, w2)"
        using True False recv sent by (subst backend_loop.simps) (simp add: h_def s2 t_def)
      have "can_send t"
        using "1.prems" by (simp add: t_def)
      with "1.prems"(1) obtain es chunks where ih: "trace (snd (backend_loop c (t, w2))) = trace w2 @ es" "relayed c t es chunks"
          "length (concat chunks) \<le> unat (peerWindow t)"
          "fst (backend_loop c (t, w2)) =
             t\<lparr>peerWindow := peerWindow t - of_nat (length (concat chunks)), seqOut := seqOut t + of_nat (length chunks)\<rparr>"
        using "1.hyps" [of "(got, w1)" got w1 "(s2, w2)" s2 w2] True False recv sent by (auto simp: h_def s2 t_def)
      have round: "length got \<le> unat (peerWindow s)" "length got \<le> 1024"
          "peerMaxPacket s \<noteq> 0 \<Longrightarrow> length got \<le> unat (peerMaxPacket s)"
          "unat (peerWindow t) = unat (peerWindow s) - length got"
        using backend_round [of got w1 s w] recv by (simp_all add: h_def t_def)
      let ?es = "ItsRecv h got # ItsSend (tcp s) (packet_bytes c (channel_data_payload (peerChannel s) got) (s, w1)) # es"
      have "relayed c s ?es (got # chunks)"
        using ih(2) round False unfolding h_def t_def by (intro relayed_Cons [OF "1.prems"(1)]) auto
      moreover have "trace (snd (backend_loop c (s, w))) = trace w @ ?es"
        using step ih(1) tr1 tr2 by simp
      moreover have "length (concat (got # chunks)) \<le> unat (peerWindow s)"
        using ih(3) round by simp
      moreover have "fst (backend_loop c (s, w)) = s\<lparr>peerWindow := peerWindow s - of_nat (length (concat (got # chunks))),
          seqOut := seqOut s + of_nat (length (got # chunks))\<rparr>"
        using step ih(4) by (simp add: t_def algebra_simps)
      ultimately show ?thesis
        by blast
    qed
  qed
qed

section \<open>Properties of the channel\<close>

text \<open>
  C4: The relay from the backend to the client loses, reorders and invents nothing, and keeps
  to the limits the client set: what a client that holds the key decodes from the bytes sent
  on the TCP handle is exactly one CHANNEL\_DATA message per chunk read from the backend, in
  order; no chunk exceeds 1024 bytes or the client's maximum packet size; together they never
  exceed the client's window, which shrinks by exactly their size without wrapping; and
  nothing else of the session changes but the sequence number.  The relay always terminates.
\<close>

theorem backend_relay_correct:
  assumes "cipher_laws c" and "can_send s" and "chanOpen s" and "0 \<le> backendHandle s"
  shows "\<exists>es chunks. trace (snd (session_on_backend_data c (s, w))) = trace w @ es \<and>
    recv_from (backendHandle s) es = concat chunks \<and>
    unwrap_all (peer_parse c s) (seqOut s) (length chunks) (sent_to (tcp s) es) =
      Some (map (channel_data_payload (peerChannel s)) chunks, []) \<and>
    (\<forall>d \<in> set chunks. d \<noteq> [] \<and> length d \<le> 1024 \<and> (peerMaxPacket s \<noteq> 0 \<longrightarrow> length d \<le> unat (peerMaxPacket s))) \<and>
    length (concat chunks) \<le> unat (peerWindow s) \<and>
    unat (peerWindow (fst (session_on_backend_data c (s, w)))) = unat (peerWindow s) - length (concat chunks) \<and>
    (\<exists>win. fst (session_on_backend_data c (s, w)) = s\<lparr>peerWindow := win, seqOut := seqOut s + of_nat (length chunks)\<rparr>)"
proof -
  have loop: "session_on_backend_data c (s, w) = backend_loop c (s, w)"
    using assms(3,4) by (simp add: session_on_backend_data_def)
  obtain es chunks where r: "trace (snd (backend_loop c (s, w))) = trace w @ es" "relayed c s es chunks"
      "length (concat chunks) \<le> unat (peerWindow s)"
      "fst (backend_loop c (s, w)) =
         s\<lparr>peerWindow := peerWindow s - of_nat (length (concat chunks)), seqOut := seqOut s + of_nat (length chunks)\<rparr>"
    using backend_loop_relays [OF assms(1,2)] by blast
  have "unat (peerWindow (fst (backend_loop c (s, w)))) = unat (peerWindow s) - length (concat chunks)"
    using window_sub [OF r(3)] r(4) by simp
  with r show ?thesis
    unfolding loop relayed_def by blast
qed

theorem backend_relay_correct_witness:
  "let s = reset_session\<lparr>tcp := 3, phase := RUN, chanOpen := True, backendHandle := 5, peerWindow := 2, encOutbound := True\<rparr>;
       w = sample_world\<lparr>recv_ans := (\<lambda>_. [65, 66, 67])\<rparr>
   in unat (peerWindow (fst (session_on_backend_data sample_crypto (s, w)))) \<le> 2"
proof -
  let ?s = "reset_session\<lparr>tcp := 3, phase := RUN, chanOpen := True, backendHandle := 5, peerWindow := 2, encOutbound := True\<rparr>"
  let ?w = "sample_world\<lparr>recv_ans := (\<lambda>_. [65, 66, 67])\<rparr>"
  have pre: "can_send ?s" "chanOpen ?s" "0 \<le> backendHandle ?s"
    by simp_all
  obtain chunks :: "bytes list" where "unat (peerWindow (fst (session_on_backend_data sample_crypto (?s, ?w)))) =
      unat (peerWindow ?s) - length (concat chunks)"
    using backend_relay_correct [OF sample_cipher_laws pre, of ?w] by blast
  then show ?thesis
    by (simp add: Let_def)
qed

lemma handle_channel_data_window:
  fixes w :: world
  assumes "view_wf (view_init payload)" and "fst (get_string (snd (get_u32 (view_init payload)))) = Some d"
    and "0 \<le> backendHandle s"
  defines "k \<equiv> fst (itsSend (backendHandle s) d w)"
  defines "lw \<equiv> localWindow s - of_nat k"
  shows "localWindow (fst (handle_channel_data c payload (s, w))) =
      (if k = 0 then localWindow s else if lw < LOCAL_WINDOW div 2 then LOCAL_WINDOW else lw)"
  using assms(2,3) unfolding lw_def k_def
  by (auto simp: handle_channel_data_def split_beta Let_def send_channel_window_adjust_def)

lemma handle_channel_data_outcome:
  fixes w :: world
  assumes "view_wf (view_init payload)" and "fst (get_string (snd (get_u32 (view_init payload)))) = Some d"
    and "0 \<le> backendHandle s"
  defines "k \<equiv> fst (itsSend (backendHandle s) d w)" and "w' \<equiv> snd (itsSend (backendHandle s) d w)"
  defines "lw \<equiv> localWindow s - of_nat k"
  shows "handle_channel_data c payload (s, w) =
      (if k = 0 then (s, w')
       else if lw < LOCAL_WINDOW div 2 then send_channel_window_adjust c (LOCAL_WINDOW - lw) (s\<lparr>localWindow := LOCAL_WINDOW\<rparr>, w')
       else (s\<lparr>localWindow := lw\<rparr>, w'))"
  using assms(2,3) unfolding lw_def k_def w'_def
  by (simp add: handle_channel_data_def split_beta Let_def)

text \<open>
  C10: Receive window: while the client stays inside the window it was granted, the server's
  book-keeping of that window never wraps and stays between half the window and the whole.  As
  long as at least half is left after the bytes the backend took, they are deducted and nothing
  is sent; when less is left, exactly one packet is sent, the WINDOW\_ADJUST (93) for the client's
  channel whose increment brings what the client may still send back to the whole window, which
  is what the server then books.
\<close>

theorem local_window_invariant:
  fixes w :: world
  assumes "view_wf (view_init payload)" and "fst (get_string (snd (get_u32 (view_init payload)))) = Some d"
    and "0 \<le> backendHandle s" and "16384 \<le> unat (localWindow s)" and "unat (localWindow s) \<le> 32768"
    and "length d \<le> unat (localWindow s)"
  defines "k \<equiv> fst (itsSend (backendHandle s) d w)" and "w' \<equiv> snd (itsSend (backendHandle s) d w)"
  defines "left \<equiv> unat (localWindow s) - k"
  shows "unat (localWindow (fst (handle_channel_data c payload (s, w)))) =
      (if 16384 + k \<le> unat (localWindow s) then unat (localWindow s) - k else 32768) \<and>
    16384 \<le> unat (localWindow (fst (handle_channel_data c payload (s, w)))) \<and>
    unat (localWindow (fst (handle_channel_data c payload (s, w)))) \<le> 32768 \<and>
    handle_channel_data c payload (s, w) =
      (if 16384 + k \<le> unat (localWindow s) then (s\<lparr>localWindow := of_nat left\<rparr>, w')
       else send_packet c (put_u32 (put_u32 [93] (peerChannel s)) (of_nat (32768 - left))) (s\<lparr>localWindow := 32768\<rparr>, w')) \<and>
    left + unat (of_nat (32768 - left) :: u32) = 32768"
proof -
  have "k \<le> length d"
    unfolding k_def by (rule itsSend_le)
  then have lw: "unat (localWindow s - of_nat k) = left" and le: "k \<le> unat (localWindow s)" and left: "left \<le> 32768"
    using assms(5,6) by (auto simp: left_def intro!: window_sub)
  have half: "unat (LOCAL_WINDOW div 2) = 16384" "unat LOCAL_WINDOW = 32768" "LOCAL_WINDOW = 32768"
    by (simp_all add: LOCAL_WINDOW_def)
  have unat_small: "n \<le> 32768 \<Longrightarrow> unat (of_nat n :: u32) = n" for n
    by (simp add: unat_of_nat take_bit_nat_eq_self)
  have lw': "localWindow s - of_nat k = of_nat left"
    by (simp flip: lw)
  have add: "LOCAL_WINDOW - of_nat left = of_nat (32768 - left)"
    using left by (simp add: half(3) of_nat_diff)
  have window: "localWindow (fst (handle_channel_data c payload (s, w))) =
      (if k = 0 then localWindow s
       else if localWindow s - of_nat k < LOCAL_WINDOW div 2 then LOCAL_WINDOW else localWindow s - of_nat k)"
    unfolding k_def by (rule handle_channel_data_window [OF assms(1-3)])
  have below: "of_nat left < LOCAL_WINDOW div 2 \<longleftrightarrow> left < 16384"
    using lw half(1) by (simp add: word_less_nat_alt lw')
  have self: "k = 0 \<Longrightarrow> (s, w') = (s\<lparr>localWindow := of_nat left\<rparr>, w')"
    using lw' by simp
  have outcome: "handle_channel_data c payload (s, w) =
      (if k = 0 then (s, w')
       else if left < 16384 then send_channel_window_adjust c (of_nat (32768 - left)) (s\<lparr>localWindow := LOCAL_WINDOW\<rparr>, w')
       else (s\<lparr>localWindow := of_nat left\<rparr>, w'))"
    using handle_channel_data_outcome [OF assms(1-3), of c w, folded k_def w'_def] unfolding lw' add below .
  have sent: "handle_channel_data c payload (s, w) =
      (if 16384 + k \<le> unat (localWindow s) then (s\<lparr>localWindow := of_nat left\<rparr>, w')
       else send_packet c (put_u32 (put_u32 [93] (peerChannel s)) (of_nat (32768 - left))) (s\<lparr>localWindow := 32768\<rparr>, w'))"
    unfolding outcome using self le assms(4) unfolding left_def
    by (auto simp: send_channel_window_adjust_def put_u8_def MSG_CHANNEL_WINDOW_ADJUST_def half(3))
  have granted: "left + unat (of_nat (32768 - left) :: u32) = 32768"
    using unat_small [of "32768 - left"] left by simp
  have booked: "unat (localWindow (fst (handle_channel_data c payload (s, w)))) =
      (if 16384 + k \<le> unat (localWindow s) then unat (localWindow s) - k else 32768)"
    using assms(4,5) lw half(1,2) unfolding window left_def by (auto simp: word_less_nat_alt)
  have bounds: "16384 \<le> (if 16384 + k \<le> unat (localWindow s) then unat (localWindow s) - k else 32768)"
      "(if 16384 + k \<le> unat (localWindow s) then unat (localWindow s) - k else 32768) \<le> 32768"
    using assms(4,5) by auto
  show ?thesis
    by (intro conjI booked bounds [folded booked] sent granted)
qed

theorem local_window_invariant_witness:
  "let s = reset_session\<lparr>backendHandle := 5, localWindow := 16385, peerChannel := 0\<rparr>;
       payload = put_u32 [] 0 @ put_string [] [1, 2, 3]
   in handle_channel_data sample_crypto payload (s, sample_world) =
        send_packet sample_crypto [93, 0, 0, 0, 0, 0, 0, 64, 2] (s\<lparr>localWindow := 32768\<rparr>, snd (itsSend 5 [1, 2, 3] sample_world))"
proof -
  let ?s = "reset_session\<lparr>backendHandle := 5, localWindow := 16385, peerChannel := 0\<rparr>"
  let ?p = "put_u32 [] 0 @ put_string [] [1, 2, 3] @ []"
  have wf: "view_wf (view_init ?p)" and abs: "view_abs (view_init ?p) = Some ?p"
    by (simp_all add: put_u32_def)
  obtain v1 where v1: "get_u32 (view_init ?p) = (0, v1)" "view_wf v1" "view_abs v1 = Some (put_string [] [1, 2, 3] @ [])"
    using view_reader.g32_put [OF wf abs] .
  obtain v2 where "get_string v1 = (Some [1, 2, 3], v2)"
    using view_reader.gs_put [OF v1(2,3)] by auto
  with v1(1) have d: "fst (get_string (snd (get_u32 (view_init ?p)))) = Some [1, 2, 3]"
    by simp
  have "0 \<le> backendHandle ?s" "16384 \<le> unat (localWindow ?s)" "unat (localWindow ?s) \<le> 32768"
      "length [1 :: byte, 2, 3] \<le> unat (localWindow ?s)"
    by simp_all
  moreover have "u32_be 16386 = [0, 0, 64, 2]" "u32_be 0 = [0, 0, 0, 0]"
    by code_simp+
  ultimately show ?thesis
    using local_window_invariant [OF wf d, where s = ?s and w = sample_world and c = sample_crypto]
    by (simp add: Let_def itsSend_def sample_world_def put_u32_def)
qed

text \<open>
  A client that ignores its window is not stopped: 32769 bytes accepted by the backend
  against a full window of 32768 wrap the counter to \<open>2^32 - 1\<close>, after which no
  WINDOW\_ADJUST is sent until that many bytes have been received.
\<close>

lemma local_window_wraps:
  assumes "view_wf (view_init payload)" and "fst (get_string (snd (get_u32 (view_init payload)))) = Some d"
    and "0 \<le> backendHandle s" and "localWindow s = 32768" and "length d = 32769"
    and "fst (itsSend (backendHandle s) d w) = 32769"
  shows "localWindow (fst (handle_channel_data c payload (s, w))) = - 1"
  using handle_channel_data_window [OF assms(1-3), where c = c and w = w] assms(4,6)
  by (simp add: LOCAL_WINDOW_def)

text \<open>
  Opening a channel: a CHANNEL\_OPEN message is refused without any change but the
  sequence number when a channel is open already (reason 2) or its type is not \<open>session\<close>
  (reason 3); otherwise the peer's channel number, window and packet limit are recorded as
  sent, the local window starts full, and the confirmation goes out.  A truncated message
  changes nothing and ends the connection.
\<close>

theorem channel_open_correct:
  assumes "length (put_string [] typ @ u32_be ch @ u32_be win @ u32_be mx @ rest) < 2 ^ 32"
  shows "handle_channel_open c (put_string [] typ @ u32_be ch @ u32_be win @ u32_be mx @ rest) (s, w) =
    (True,
     if chanOpen s then send_channel_open_failure c ch 2 ''only one channel allowed'' (s, w)
     else if typ \<noteq> str ''session'' then send_channel_open_failure c ch 3 ''only session channels'' (s, w)
     else send_channel_open_confirm c
       (s\<lparr>peerChannel := ch, localChannel := LOCAL_CHANNEL_ID, peerWindow := win, peerMaxPacket := mx,
          localWindow := LOCAL_WINDOW, chanOpen := True\<rparr>, w))"
proof -
  let ?p = "put_string [] typ @ put_u32 [] ch @ put_u32 [] win @ put_u32 [] mx @ rest"
  have p: "put_string [] typ @ u32_be ch @ u32_be win @ u32_be mx @ rest = ?p"
    by (simp add: put_u32_def)
  have "length typ < 2 ^ 32"
    using assms by simp
  moreover have "view_wf (view_init ?p)" "view_abs (view_init ?p) = Some ?p"
    using assms by (simp_all add: put_u32_def)
  ultimately obtain v1 where v1: "get_string (view_init ?p) = (Some typ, v1)" "view_wf v1"
      "view_abs v1 = Some (put_u32 [] ch @ put_u32 [] win @ put_u32 [] mx @ rest)"
    using view_reader.gs_put by blast
  from v1(2,3) obtain v2 where v2: "get_u32 v1 = (ch, v2)" "view_wf v2"
      "view_abs v2 = Some (put_u32 [] win @ put_u32 [] mx @ rest)"
    by (rule view_reader.g32_put)
  from v2(2,3) obtain v3 where v3: "get_u32 v2 = (win, v3)" "view_wf v3" "view_abs v3 = Some (put_u32 [] mx @ rest)"
    by (rule view_reader.g32_put)
  from v3(2,3) obtain v4 where v4: "get_u32 v3 = (mx, v4)" "view_abs v4 = Some rest"
    by (rule view_reader.g32_put)
  then have "\<not> vbad v4"
    by (auto simp: view_abs_def split: if_splits)
  then show ?thesis
    unfolding p using v1(1) v2(1) v3(1) v4(1) by (simp add: handle_channel_open_def)
qed

theorem channel_open_correct_witness:
  "chanOpen (fst (snd (handle_channel_open sample_crypto
     (put_string [] (str ''session'') @ u32_be 4 @ u32_be 1000 @ u32_be 500 @ []) (reset_session, sample_world))))"
  using channel_open_correct [of "str ''session''" 4 1000 500 "[]" sample_crypto reset_session sample_world]
  by (simp add: reset_session_def send_channel_open_confirm_def)

end
