(* ===== verification/Session.thy ===== *)
theory Session
  imports Channel
begin

text \<open>
  The session as a whole, \<open>esp-idf/src/sshd_session.cpp\<close>: the packet dispatcher and the
  entry points \<open>session_open\<close>, \<open>session_close\<close>, \<open>session_on_tcp_data\<close> and
  \<open>session_on_backend_close\<close> (\<open>session_on_backend_data\<close> is in theory \<open>Channel\<close>).

  The contract of a protocol state machine, an invariant kept by every step, is the locale
  \<open>guarded_machine\<close>; it is interpreted on the server session here.
\<close>

section \<open>Dispatch\<close>

definition handle_global_request :: "crypto \<Rightarrow> bytes \<Rightarrow> conn \<Rightarrow> bool \<times> conn" where
  "handle_global_request c body \<sigma> =
     (let (ok, v1) = skip_string (view_init body) in
      if \<not> ok then (True, \<sigma>)
      else let (wantReply, v2) = get_u8 v1 in
           if wantReply \<noteq> 0 then (True, send_packet c (put_u8 [] MSG_REQUEST_FAILURE) \<sigma>) else (True, \<sigma>))"

definition send_unimplemented :: "crypto \<Rightarrow> conn \<Rightarrow> conn" where
  "send_unimplemented c \<sigma> =
     send_packet c (put_u32 (put_u8 [] MSG_UNIMPLEMENTED) (ucast (seqIn (fst \<sigma>) - 1))) \<sigma>"

definition dispatch_packet :: "crypto \<Rightarrow> bytes \<Rightarrow> int \<Rightarrow> conn \<Rightarrow> bool \<times> conn" where
  "dispatch_packet c payload sessionSlot \<sigma> =
     (if payload = [] then (False, \<sigma>)
      else let type = hd payload; body = tl payload; ph = phase (fst \<sigma>) in
        if type = MSG_DISCONNECT then
          (False, (fst \<sigma>)\<lparr>phase := CLOSED\<rparr>, itsDisconnect (tcp (fst \<sigma>)) (snd \<sigma>))
        else if type = MSG_IGNORE \<or> type = MSG_DEBUG then (True, \<sigma>)
        else if type = MSG_KEXINIT then
          (if ph \<noteq> KEX_WAIT_KEXINIT \<and> ph \<noteq> RUN then (False, \<sigma>) else (True, handle_kexinit c payload \<sigma>))
        else if type = MSG_KEX_ECDH_INIT then
          (if ph \<noteq> KEX_WAIT_ECDH then (False, \<sigma>) else handle_kex_ecdh_init c body \<sigma>)
        else if type = MSG_NEWKEYS then
          (if ph \<noteq> KEX_WAIT_NEWKEYS then (False, \<sigma>) else (True, handle_newkeys (fst \<sigma>), snd \<sigma>))
        else if type = MSG_SERVICE_REQUEST then
          (if ph \<noteq> AUTH then (False, \<sigma>) else handle_service_request c body \<sigma>)
        else if type = MSG_USERAUTH_REQUEST then
          (if ph \<noteq> AUTH then (False, \<sigma>) else handle_userauth_request c body \<sigma>)
        else if type = MSG_GLOBAL_REQUEST then handle_global_request c body \<sigma>
        else if type = MSG_CHANNEL_OPEN then
          (if ph \<noteq> RUN then (False, \<sigma>) else handle_channel_open c body \<sigma>)
        else if type = MSG_CHANNEL_REQUEST then
          (if ph \<noteq> RUN then (False, \<sigma>) else handle_channel_request c body sessionSlot \<sigma>)
        else if type = MSG_CHANNEL_DATA then
          (if ph \<noteq> RUN then (False, \<sigma>) else (True, handle_channel_data c body \<sigma>))
        else if type = MSG_CHANNEL_WINDOW_ADJUST then
          (if ph \<noteq> RUN then (False, \<sigma>) else (True, handle_channel_window_adjust c body \<sigma>))
        else if type = MSG_CHANNEL_EOF then (True, \<sigma>)
        else if type = MSG_CHANNEL_CLOSE then (True, handle_channel_close c \<sigma>)
        else (True, send_unimplemented c \<sigma>))"

section \<open>Entry points\<close>

definition session_open :: "int \<Rightarrow> int \<Rightarrow> world \<Rightarrow> conn" where
  "session_open tcpHandle slot' w =
     send_our_version (reset_session\<lparr>slot := slot', tcp := tcpHandle, phase := VERSION\<rparr>, w)"

definition session_close :: "conn \<Rightarrow> conn" where
  "session_close \<sigma> =
     (let (s, w) = \<sigma> in
      if phase s = CLOSED \<and> slot s < 0 then (s, w)
      else let (s1, w1) = (if backendHandle s \<ge> 0
                           then (s\<lparr>backendHandle := -1\<rparr>, itsDisconnect (backendHandle s) w) else (s, w));
               (s2, w2) = (if tcp s1 \<ge> 0
                           then (s1\<lparr>tcp := -1\<rparr>, itsDisconnect (tcp s1) (itsSendDrain (tcp s1) w1)) else (s1, w1));
               s3 = s2\<lparr>phase := CLOSED, chanOpen := False\<rparr>
           in if slot s3 \<ge> 0 then (s3\<lparr>slot := -1\<rparr>, emit (SlotFree (slot s3)) w2) else (s3, w2))"

definition session_on_backend_close :: "crypto \<Rightarrow> conn \<Rightarrow> conn" where
  "session_on_backend_close c \<sigma> =
     (if \<not> chanOpen (fst \<sigma>) then \<sigma>
      else let (s1, w1) = session_on_backend_data c \<sigma>;
               \<sigma>2 = (if backendHandle s1 \<ge> 0
                     then (s1\<lparr>backendHandle := -1\<rparr>, itsDisconnect (backendHandle s1) w1) else (s1, w1));
               (s3, w3) = send_channel_close c (send_channel_eof c (send_exit_status c 0 \<sigma>2))
           in session_close (s3\<lparr>chanOpen := False\<rparr>, w3))"

section \<open>Frames of the handlers\<close>

text \<open>What no handler of a packet touches: the slot, the TCP handle, the buffer, the inbound count.\<close>

definition keeps_io :: "session \<Rightarrow> session \<Rightarrow> bool" where
  "keeps_io s t \<longleftrightarrow> slot t = slot s \<and> tcp t = tcp s \<and> rxBuf t = rxBuf s \<and> seqIn t = seqIn s"

lemma keeps_io_refl [simp]: "keeps_io s s"
  by (simp add: keeps_io_def)

lemma keeps_io_trans: "keeps_io s t \<Longrightarrow> keeps_io t u \<Longrightarrow> keeps_io s u"
  by (simp add: keeps_io_def)

lemma keeps_io_send [simp]: "keeps_io s (fst (send_packet c p \<sigma>)) = keeps_io s (fst \<sigma>)"
  by (simp add: keeps_io_def)

lemma keeps_io_disconnect [simp]: "keeps_io s (fst (send_disconnect c n m \<sigma>)) = keeps_io s (fst \<sigma>)"
  by (simp add: send_disconnect_fst keeps_io_def)

lemma keeps_io_kexinit: "keeps_io (fst \<sigma>) (fst (handle_kexinit c p \<sigma>))"
  by (auto simp: handle_kexinit_def split_beta Let_def keeps_io_def send_disconnect_fst split: option.split)

lemma keeps_io_kex_compute:
  "keeps_io (fst \<sigma>) (fst (snd (kex_compute_classical c \<sigma>)))"
  "keeps_io (fst \<sigma>) (fst (snd (kex_compute_pq c \<sigma>)))"
  by (auto simp: kex_compute_classical_def kex_compute_pq_def split_beta Let_def keeps_io_def split: option.split)

lemma keeps_io_kex_reply: "keeps_io (fst \<sigma>) (fst (snd (send_kex_ecdh_reply c \<sigma>)))"
proof -
  have "keeps_io (fst \<sigma>) (s2\<lparr>sessionId := x, haveSessionId := b\<rparr>) = keeps_io (fst \<sigma>) s2" for s2 x b
    by (simp add: keeps_io_def)
  then show ?thesis
    using keeps_io_kex_compute [of "(fst \<sigma>, snd (load_host_key c (snd \<sigma>)))" c]
    by (auto simp: send_kex_ecdh_reply_def split_beta Let_def split: option.split)
qed

lemma keeps_io_derive [simp]: "keeps_io s (derive_session_keys c t) = keeps_io s t"
  by (simp add: derive_session_keys_def Let_def keeps_io_def)

lemma keeps_io_updates [simp]:
  "keeps_io s (t\<lparr>phase := p\<rparr>) = keeps_io s t" "keeps_io s (t\<lparr>encOutbound := b\<rparr>) = keeps_io s t"
  "keeps_io s (t\<lparr>encInbound := b\<rparr>) = keeps_io s t" "keeps_io s (t\<lparr>chanOpen := b\<rparr>) = keeps_io s t"
  "keeps_io s (t\<lparr>backendHandle := h\<rparr>) = keeps_io s t" "keeps_io s (t\<lparr>localWindow := n\<rparr>) = keeps_io s t"
  "keeps_io s (t\<lparr>peerWindow := n\<rparr>) = keeps_io s t" "keeps_io s (t\<lparr>chanKind := k\<rparr>) = keeps_io s t"
  "keeps_io s (t\<lparr>peerKexBlob := x\<rparr>) = keeps_io s t" "keeps_io s (t\<lparr>peerEphPub := x\<rparr>) = keeps_io s t"
  by (simp_all add: keeps_io_def)

lemma keeps_io_kex_ecdh: "keeps_io (fst \<sigma>) (fst (snd (handle_kex_ecdh_init c body \<sigma>)))"
proof -
  have "keeps_io (fst \<sigma>) (fst (snd (finish_kex_ecdh c \<tau>)))" if "keeps_io (fst \<sigma>) (fst \<tau>)" for \<tau>
    using keeps_io_trans [OF that keeps_io_kex_reply [of \<tau> c]]
    by (auto simp: finish_kex_ecdh_def split_beta Let_def)
  then show ?thesis
    by (auto simp: handle_kex_ecdh_init_def split_beta Let_def split: option.split)
qed

lemma keeps_io_auth: "auth_outcome s ok t \<Longrightarrow> keeps_io s t"
  by (auto simp: auth_outcome_def keeps_io_def)

lemma keeps_io_service: "keeps_io (fst \<sigma>) (fst (snd (handle_service_request c body \<sigma>)))"
  by (auto simp: handle_service_request_def split: option.split)

lemma keeps_io_userauth: "keeps_io (fst \<sigma>) (fst (snd (handle_userauth_request c body \<sigma>)))"
  by (auto simp: handle_userauth_request_def userauth_publickey_def userauth_signature_def userauth_password_def
      bad_userauth_def send_userauth_failure_def send_userauth_success_fst keeps_io_def send_packet_fst send_disconnect_fst
      split_beta Let_def split: option.split)

lemma keeps_io_request_reply [simp]: "keeps_io s (fst (snd (request_reply c r ok \<sigma>))) = keeps_io s (fst \<sigma>)"
  by (simp add: request_reply_def send_channel_request_reply_def)

lemma open_backend_fst:
  "\<exists>h. fst (snd (open_backend_with_mode k m \<sigma>)) = (fst \<sigma>)\<lparr>backendHandle := h\<rparr>"
  by (auto simp: open_backend_with_mode_def split_beta Let_def split: chan_kind.split)
    (metis session.surjective session.update_convs(32))

lemma keeps_io_open_backend [simp]: "keeps_io s (fst (snd (open_backend_with_mode k m \<sigma>))) = keeps_io s (fst \<sigma>)"
  using open_backend_fst [of k m \<sigma>] by (auto simp: keeps_io_def)

lemma keeps_io_request: "keeps_io (fst \<sigma>) (fst (snd (handle_channel_request c body k \<sigma>)))"
  by (auto simp: handle_channel_request_def request_shell_def request_exec_def open_backend_def open_backend_line_def
      log_accepted_def split_beta Let_def split: option.split)

lemma keeps_io_open: "keeps_io (fst \<sigma>) (fst (snd (handle_channel_open c body \<sigma>)))"
  by (auto simp: handle_channel_open_def send_channel_open_failure_def send_channel_open_confirm_def keeps_io_def
      send_packet_fst split_beta Let_def split: option.split)

lemma keeps_io_data: "keeps_io (fst \<sigma>) (fst (handle_channel_data c body \<sigma>))"
  by (auto simp: handle_channel_data_def send_channel_window_adjust_def split_beta Let_def split: option.split)

lemma keeps_io_close: "keeps_io (fst \<sigma>) (fst (handle_channel_close c \<sigma>))"
  by (auto simp: handle_channel_close_def send_channel_close_def split_beta Let_def)

lemma backend_loop_fst:
  "\<exists>win n. fst (backend_loop c (s, w)) = s\<lparr>peerWindow := win, seqOut := n\<rparr>"
proof (induction c "(s, w)" arbitrary: s w rule: backend_loop.induct)
  case (1 c s w)
  obtain got w1 where recv: "itsRecv (backendHandle s) (unat (backend_want s)) w = (got, w1)"
    by fastforce
  obtain s2 w2 where sent: "send_channel_data c got (s, w1) = (s2, w2)"
    by fastforce
  have "s2 = fst (send_packet c (channel_data_payload (peerChannel s) got) (s, w1))"
    using send_channel_data_frame [of c got "(s, w1)"] sent by simp
  then have s2: "s2 = s\<lparr>seqOut := if can_send s then seqOut s + 1 else seqOut s\<rparr>"
    by (simp add: send_packet_fst)
  have same: "\<exists>win n. s = s\<lparr>peerWindow := win, seqOut := n\<rparr>"
    by (intro exI [of _ "peerWindow s"] exI [of _ "seqOut s"]) simp
  show ?case
  proof (cases "0 < peerWindow s \<and> chanOpen s \<and> got \<noteq> []")
    case True
    then have "backend_loop c (s, w) = backend_loop c (s2\<lparr>peerWindow := peerWindow s2 - of_nat (length got)\<rparr>, w2)"
      using recv sent by (subst backend_loop.simps) simp
    moreover obtain win m where "fst (backend_loop c (s2\<lparr>peerWindow := peerWindow s2 - of_nat (length got)\<rparr>, w2)) =
        (s2\<lparr>peerWindow := peerWindow s2 - of_nat (length got)\<rparr>)\<lparr>peerWindow := win, seqOut := m\<rparr>"
      using "1.hyps" [of "(got, w1)" got w1 "(s2, w2)" s2 w2] True recv sent by auto
    ultimately show ?thesis
      by (auto simp: s2)
  next
    case False
    then have "fst (backend_loop c (s, w)) = s"
      using recv by (subst backend_loop.simps) auto
    with same show ?thesis
      by simp
  qed
qed

lemma session_on_backend_data_fst:
  "\<exists>win n. fst (session_on_backend_data c \<sigma>) = (fst \<sigma>)\<lparr>peerWindow := win, seqOut := n\<rparr>"
proof (cases "\<not> chanOpen (fst \<sigma>) \<or> backendHandle (fst \<sigma>) < 0")
  case True
  then show ?thesis
    by (intro exI [of _ "peerWindow (fst \<sigma>)"] exI [of _ "seqOut (fst \<sigma>)"]) (simp add: session_on_backend_data_def)
next
  case False
  then show ?thesis
    using backend_loop_fst [of c "fst \<sigma>" "snd \<sigma>"] by (simp add: session_on_backend_data_def)
qed

lemma window_adjust_fst:
  "\<exists>win n. fst (handle_channel_window_adjust c body \<sigma>) = (fst \<sigma>)\<lparr>peerWindow := win, seqOut := n\<rparr>"
proof -
  obtain add v where "handle_channel_window_adjust c body \<sigma> =
      session_on_backend_data c ((fst \<sigma>)\<lparr>peerWindow := peerWindow (fst \<sigma>) + add\<rparr>, snd \<sigma>)"
    by (simp add: handle_channel_window_adjust_def split_beta Let_def)
  then show ?thesis
    using session_on_backend_data_fst [of c "((fst \<sigma>)\<lparr>peerWindow := peerWindow (fst \<sigma>) + add\<rparr>, snd \<sigma>)"]
    by auto
qed

lemma keeps_io_window: "keeps_io (fst \<sigma>) (fst (handle_channel_window_adjust c body \<sigma>))"
  using window_adjust_fst [of c body \<sigma>] by (auto simp: keeps_io_def)

lemma keeps_io_global: "keeps_io (fst \<sigma>) (fst (snd (handle_global_request c body \<sigma>)))"
  by (simp add: handle_global_request_def split_beta Let_def)

text \<open>Every outcome of a dispatch, with the phase its guard demands.\<close>

lemma dispatch_cases:
  assumes "P \<sigma>" and "P ((fst \<sigma>)\<lparr>phase := CLOSED\<rparr>, itsDisconnect (tcp (fst \<sigma>)) (snd \<sigma>))"
    and "P (handle_kexinit c payload \<sigma>)"
    and "phase (fst \<sigma>) = KEX_WAIT_ECDH \<Longrightarrow> P (snd (handle_kex_ecdh_init c (tl payload) \<sigma>))"
    and "phase (fst \<sigma>) = KEX_WAIT_NEWKEYS \<Longrightarrow> P (handle_newkeys (fst \<sigma>), snd \<sigma>)"
    and "phase (fst \<sigma>) = AUTH \<Longrightarrow> P (snd (handle_service_request c (tl payload) \<sigma>))"
    and "phase (fst \<sigma>) = AUTH \<Longrightarrow> payload \<noteq> [] \<Longrightarrow> hd payload = MSG_USERAUTH_REQUEST \<Longrightarrow>
      P (snd (handle_userauth_request c (tl payload) \<sigma>))"
    and "P (snd (handle_global_request c (tl payload) \<sigma>))"
    and "phase (fst \<sigma>) = RUN \<Longrightarrow> P (snd (handle_channel_open c (tl payload) \<sigma>))"
    and "phase (fst \<sigma>) = RUN \<Longrightarrow> P (snd (handle_channel_request c (tl payload) k \<sigma>))"
    and "phase (fst \<sigma>) = RUN \<Longrightarrow> P (handle_channel_data c (tl payload) \<sigma>)"
    and "phase (fst \<sigma>) = RUN \<Longrightarrow> P (handle_channel_window_adjust c (tl payload) \<sigma>)"
    and "P (handle_channel_close c \<sigma>)" and "P (send_unimplemented c \<sigma>)"
  shows "P (snd (dispatch_packet c payload k \<sigma>))"
proof -
  have ifI: "(b \<Longrightarrow> x) \<Longrightarrow> (\<not> b \<Longrightarrow> y) \<Longrightarrow> if b then x else y" for b x y
    by simp
  show ?thesis
    unfolding dispatch_packet_def Let_def if_distrib [of snd] if_distrib [of P] snd_conv
    by (intro ifI; (rule assms; blast))
qed

lemma keeps_io_dispatch: "keeps_io (fst \<sigma>) (fst (snd (dispatch_packet c payload k \<sigma>)))"
  by (rule dispatch_cases [where P = "\<lambda>\<tau>. keeps_io (fst \<sigma>) (fst \<tau>)"])
    (simp_all add: send_unimplemented_def handle_newkeys_def keeps_io_kexinit keeps_io_kex_ecdh keeps_io_service
      keeps_io_userauth keeps_io_request keeps_io_open keeps_io_data keeps_io_close keeps_io_window keeps_io_global)

section \<open>The receive loop\<close>

lemma split_line_shorter: "split_line buf = Some (line, rest) \<Longrightarrow> length rest < length buf"
  using length_takeWhile_le [of "\<lambda>b. b \<noteq> 10" buf]
  by (auto simp: split_line_def Let_def split: if_splits)

lemma consume_version_shorter:
  assumes "consume_version c \<sigma> = (True, \<sigma>')"
  shows "length (rxBuf (fst \<sigma>')) < length (rxBuf (fst \<sigma>))"
  using assms
  by (auto simp: consume_version_def split_beta Let_def send_our_kexinit_def build_kexinit_payload_def
      dest: split_line_shorter split: option.splits if_splits)

lemma dispatch_shorter:
  assumes "parse_packet c s = (Packet payload rest, s1)" and "dispatch_packet c payload k (s1, w) = (ok, s2, w2)"
  shows "length (rxBuf s2) < length (rxBuf s)"
proof -
  have "rxBuf s2 = rxBuf s1"
    using keeps_io_dispatch [of "(s1, w)" c payload k] assms(2) by (simp add: keeps_io_def)
  then show ?thesis
    using parse_packet_consumes [OF assms(1)] by simp
qed

function packet_loop :: "crypto \<Rightarrow> conn \<Rightarrow> conn" where
  "packet_loop c (s, w) =
     (if phase s = CLOSED then (s, w)
      else if phase s = VERSION then
        (case consume_version c (s, w) of
           (False, \<sigma>1) \<Rightarrow> \<sigma>1
         | (True, \<sigma>1) \<Rightarrow> packet_loop c \<sigma>1)
      else
        (case parse_packet c s of
           (NeedMore, s1) \<Rightarrow> (s1, w)
         | (FramingError, s1) \<Rightarrow> send_disconnect c 2 ''framing error'' (s1, w)
         | (Packet payload rest, s1) \<Rightarrow>
             (case dispatch_packet c payload (slot s1) (s1, w) of
                (False, \<sigma>2) \<Rightarrow>
                  if phase (fst \<sigma>2) \<noteq> CLOSED then send_disconnect c 2 ''protocol error'' \<sigma>2 else \<sigma>2
              | (True, \<sigma>2) \<Rightarrow> packet_loop c \<sigma>2)))"
  by pat_completeness auto
termination
  by (relation "measure (\<lambda>(c, s, w). length (rxBuf s))")
    (auto dest: consume_version_shorter [OF sym] dispatch_shorter [OF sym sym])

declare packet_loop.simps [simp del]

text \<open>
  The first loop of \<open>session_on_tcp_data\<close> ends only when \<open>itsRecv\<close> has nothing more to give;
  as long as it always has, the call does not return, which is the value \<open>None\<close>.
\<close>

partial_function (option) drain_tcp :: "conn \<Rightarrow> conn option" where
  "drain_tcp \<sigma> =
     (let (got, w1) = itsRecv (tcp (fst \<sigma>)) 1024 (snd \<sigma>) in
      if got = [] then Some (fst \<sigma>, w1)
      else drain_tcp ((fst \<sigma>)\<lparr>rxBuf := rxBuf (fst \<sigma>) @ got\<rparr>, w1))"

definition session_on_tcp_data :: "crypto \<Rightarrow> conn \<Rightarrow> conn option" where
  "session_on_tcp_data c \<sigma> =
     map_option (\<lambda>\<sigma>1. let \<sigma>2 = packet_loop c \<sigma>1 in if phase (fst \<sigma>2) = CLOSED then session_close \<sigma>2 else \<sigma>2)
       (drain_tcp \<sigma>)"

section \<open>The security-relevant part of the state\<close>

text \<open>
  Nothing is authenticated, opened or attached before its time: the phases imply the keys,
  and a channel, a backend and the running phase all imply authentication.
\<close>

definition sess_inv :: "session \<Rightarrow> bool" where
  "sess_inv s \<longleftrightarrow>
     (phase s = RUN \<longrightarrow> authed s) \<and>
     (authed s \<longrightarrow> haveSessionId s \<and> encInbound s \<and> encOutbound s) \<and>
     (chanOpen s \<longrightarrow> authed s) \<and> (0 \<le> backendHandle s \<longrightarrow> authed s) \<and>
     (phase s = AUTH \<longrightarrow> haveSessionId s \<and> encInbound s \<and> encOutbound s) \<and>
     (phase s = KEX_WAIT_NEWKEYS \<longrightarrow> haveSessionId s \<and> encOutbound s)"

lemma sess_inv_send [simp]: "sess_inv (fst (send_packet c p \<sigma>)) = sess_inv (fst \<sigma>)"
  by (simp add: sess_inv_def)

lemma sess_inv_closed: "sess_inv s \<Longrightarrow> sess_inv (s\<lparr>phase := CLOSED\<rparr>)"
  by (simp add: sess_inv_def)

lemma sess_inv_disconnect [inv_rules]: "sess_inv (fst \<sigma>) \<Longrightarrow> sess_inv (fst (send_disconnect c n m \<sigma>))"
  by (simp add: send_disconnect_fst sess_inv_closed)

lemma sess_inv_updates [simp]:
  "sess_inv (s\<lparr>rxBuf := b\<rparr>) = sess_inv s" "sess_inv (s\<lparr>seqIn := n\<rparr>) = sess_inv s"
  "sess_inv (s\<lparr>user := u\<rparr>) = sess_inv s" "sess_inv (s\<lparr>seqOut := n\<rparr>) = sess_inv s"
  "sess_inv (s\<lparr>peerWindow := x\<rparr>) = sess_inv s" "sess_inv (s\<lparr>localWindow := x\<rparr>) = sess_inv s"
  "sess_inv (s\<lparr>peerKexInit := b\<rparr>) = sess_inv s" "sess_inv (s\<lparr>peerVersion := b\<rparr>) = sess_inv s"
  "sess_inv (s\<lparr>kexAlg := a\<rparr>) = sess_inv s" "sess_inv (s\<lparr>ourKexInit := b\<rparr>) = sess_inv s"
  "sess_inv (s\<lparr>peerEphPub := b\<rparr>) = sess_inv s" "sess_inv (s\<lparr>peerKexBlob := b\<rparr>) = sess_inv s"
  "sess_inv (s\<lparr>ephPriv := b\<rparr>) = sess_inv s" "sess_inv (s\<lparr>ephPub := b\<rparr>) = sess_inv s"
  "sess_inv (s\<lparr>sharedK := b\<rparr>) = sess_inv s" "sess_inv (s\<lparr>ourKexBlob := b\<rparr>) = sess_inv s"
  "sess_inv (s\<lparr>c2sKey := b\<rparr>) = sess_inv s" "sess_inv (s\<lparr>s2cKey := b\<rparr>) = sess_inv s"
  "sess_inv (s\<lparr>chanKind := k\<rparr>) = sess_inv s" "sess_inv (s\<lparr>slot := i\<rparr>) = sess_inv s"
  "sess_inv (s\<lparr>tcp := i\<rparr>) = sess_inv s"
  by (simp_all add: sess_inv_def)

text \<open>One more predicate for the key exchange: the fields that authentication and channels own.\<close>

definition keeps_auth :: "session \<Rightarrow> session \<Rightarrow> bool" where
  "keeps_auth s t \<longleftrightarrow> authed t = authed s \<and> chanOpen t = chanOpen s \<and> backendHandle t = backendHandle s \<and>
     (haveSessionId s \<longrightarrow> haveSessionId t) \<and> encInbound t = encInbound s \<and> encOutbound t = encOutbound s \<and>
     phase t = phase s"

lemma keeps_auth_kex_reply:
  "keeps_auth (fst \<sigma>) (fst (snd (send_kex_ecdh_reply c \<sigma>)))"
  "fst (send_kex_ecdh_reply c \<sigma>) \<Longrightarrow> haveSessionId (fst (snd (send_kex_ecdh_reply c \<sigma>)))"
proof -
  have comp: "keeps_auth (fst \<tau>) (fst (snd (kex_compute_classical c \<tau>)))"
    "keeps_auth (fst \<tau>) (fst (snd (kex_compute_pq c \<tau>)))" for \<tau>
    by (auto simp: kex_compute_classical_def kex_compute_pq_def split_beta Let_def keeps_auth_def split: option.split)
  have keeps: "keeps_auth s s" "keeps_auth s (fst (send_packet c p \<tau>)) = keeps_auth s (fst \<tau>)"
    "keeps_auth s t \<Longrightarrow> keeps_auth s (t\<lparr>sessionId := x, haveSessionId := True\<rparr>)" for s t x p \<tau>
    by (simp_all add: keeps_auth_def)
  show "keeps_auth (fst \<sigma>) (fst (snd (send_kex_ecdh_reply c \<sigma>)))"
    using comp [of "(fst \<sigma>, snd (load_host_key c (snd \<sigma>)))"] keeps
    by (auto simp: send_kex_ecdh_reply_def split_beta Let_def split: option.split)
  show "fst (send_kex_ecdh_reply c \<sigma>) \<Longrightarrow> haveSessionId (fst (snd (send_kex_ecdh_reply c \<sigma>)))"
    by (auto simp: send_kex_ecdh_reply_def split_beta Let_def split: option.splits if_splits)
qed

lemma keeps_auth_inv: "keeps_auth s t \<Longrightarrow> sess_inv s \<Longrightarrow> sess_inv t"
  by (auto simp: keeps_auth_def sess_inv_def)

lemma sess_inv_derive [simp]: "sess_inv (derive_session_keys c s) = sess_inv s"
  by (simp add: derive_session_keys_def Let_def)

lemma derive_session_keys_frame [simp]:
  "phase (derive_session_keys c s) = phase s" "authed (derive_session_keys c s) = authed s"
  "haveSessionId (derive_session_keys c s) = haveSessionId s" "chanOpen (derive_session_keys c s) = chanOpen s"
  "backendHandle (derive_session_keys c s) = backendHandle s" "encInbound (derive_session_keys c s) = encInbound s"
  by (simp_all add: derive_session_keys_def Let_def)

lemma sess_inv_kexinit [inv_rules]: "sess_inv (fst \<sigma>) \<Longrightarrow> sess_inv (fst (handle_kexinit c p \<sigma>))"
  by (auto simp: handle_kexinit_def split_beta Let_def sess_inv_def send_disconnect_fst split: option.split)

lemma sess_inv_finish_kex:
  assumes "sess_inv (fst \<sigma>)" and "phase (fst \<sigma>) = KEX_WAIT_ECDH"
  shows "sess_inv (fst (snd (finish_kex_ecdh c \<sigma>)))"
proof -
  let ?r = "send_kex_ecdh_reply c \<sigma>"
  have inv: "sess_inv (fst (snd ?r))"
    using keeps_auth_inv [OF keeps_auth_kex_reply(1) assms(1)] .
  show ?thesis
  proof (cases "fst ?r")
    case True
    then show ?thesis
      using inv keeps_auth_kex_reply(2) [OF True]
      by (simp add: finish_kex_ecdh_def split_beta Let_def) (simp add: sess_inv_def)
  next
    case False
    then show ?thesis
      using inv by (simp add: finish_kex_ecdh_def split_beta Let_def sess_inv_disconnect)
  qed
qed

lemma sess_inv_kex_ecdh [inv_rules]:
  assumes "sess_inv (fst \<sigma>)" and "phase (fst \<sigma>) = KEX_WAIT_ECDH"
  shows "sess_inv (fst (snd (handle_kex_ecdh_init c body \<sigma>)))"
  using assms sess_inv_finish_kex [of "((fst \<sigma>)\<lparr>peerKexBlob := x\<rparr>, snd \<sigma>)" c for x]
    sess_inv_finish_kex [of "((fst \<sigma>)\<lparr>peerEphPub := x\<rparr>, snd \<sigma>)" c for x]
  by (auto simp: handle_kex_ecdh_init_def split_beta Let_def intro!: sess_inv_disconnect split: option.split)

lemma sess_inv_newkeys [inv_rules]:
  "sess_inv s \<Longrightarrow> phase s = KEX_WAIT_NEWKEYS \<Longrightarrow> sess_inv (handle_newkeys s)"
  by (auto simp: handle_newkeys_def sess_inv_def)

lemma sess_inv_service [inv_rules]: "sess_inv (fst \<sigma>) \<Longrightarrow> sess_inv (fst (snd (handle_service_request c body \<sigma>)))"
  by (auto simp: handle_service_request_def intro: sess_inv_disconnect split: option.split)

lemma sess_inv_userauth [inv_rules]:
  assumes "sess_inv (fst \<sigma>)" and "phase (fst \<sigma>) = AUTH" and "length body < 2 ^ 32"
  shows "sess_inv (fst (snd (handle_userauth_request c body \<sigma>)))"
  using handle_userauth_outcome [OF assms(3), of "fst \<sigma>" c "snd \<sigma>"] assms(1,2)
  by (auto simp: auth_outcome_def sess_inv_def)

lemma sess_inv_channel_open [inv_rules]:
  "sess_inv (fst \<sigma>) \<Longrightarrow> phase (fst \<sigma>) = RUN \<Longrightarrow> sess_inv (fst (snd (handle_channel_open c body \<sigma>)))"
  by (auto simp: handle_channel_open_def send_channel_open_failure_def send_channel_open_confirm_def
      split_beta Let_def split: option.split) (auto simp: sess_inv_def)

lemma sess_inv_open_backend:
  "sess_inv (fst \<sigma>) \<Longrightarrow> phase (fst \<sigma>) = RUN \<Longrightarrow> sess_inv (fst (snd (open_backend_with_mode k m \<sigma>)))"
  using open_backend_fst [of k m \<sigma>] by (auto simp: sess_inv_def)

lemma sess_inv_reply [simp]: "sess_inv (fst (snd (request_reply c r ok \<sigma>))) = sess_inv (fst \<sigma>)"
  by (simp add: request_reply_def send_channel_request_reply_def)

lemma sess_inv_request [inv_rules]:
  assumes "sess_inv (fst \<sigma>)" and "phase (fst \<sigma>) = RUN"
  shows "sess_inv (fst (snd (handle_channel_request c body k \<sigma>)))"
  using assms
  by (auto simp: handle_channel_request_def request_shell_def request_exec_def open_backend_def open_backend_line_def
      log_accepted_def split_beta Let_def sess_inv_open_backend split: option.split)

lemma sess_inv_data [inv_rules]: "sess_inv (fst \<sigma>) \<Longrightarrow> sess_inv (fst (handle_channel_data c body \<sigma>))"
  by (auto simp: handle_channel_data_def send_channel_window_adjust_def split_beta Let_def split: option.split)

lemma sess_inv_backend_data [inv_rules]:
  "sess_inv (fst \<sigma>) \<Longrightarrow> sess_inv (fst (session_on_backend_data c \<sigma>))"
  using session_on_backend_data_fst [of c \<sigma>] by auto

lemma sess_inv_window [inv_rules]: "sess_inv (fst \<sigma>) \<Longrightarrow> sess_inv (fst (handle_channel_window_adjust c body \<sigma>))"
  using window_adjust_fst [of c body \<sigma>] by auto

lemma sess_inv_channel_close [inv_rules]: "sess_inv (fst \<sigma>) \<Longrightarrow> sess_inv (fst (handle_channel_close c \<sigma>))"
  by (auto simp: handle_channel_close_def send_channel_close_def split_beta Let_def sess_inv_def)

lemma sess_inv_global [inv_rules]: "sess_inv (fst \<sigma>) \<Longrightarrow> sess_inv (fst (snd (handle_global_request c body \<sigma>)))"
  by (simp add: handle_global_request_def split_beta Let_def)

lemma sess_inv_dispatch [inv_rules]:
  assumes "sess_inv (fst \<sigma>)" and "length payload < 2 ^ 32"
  shows "sess_inv (fst (snd (dispatch_packet c payload k \<sigma>)))"
proof -
  have "length (tl payload) < 2 ^ 32"
    using assms(2) by simp
  with assms(1) show ?thesis
    by (intro dispatch_cases [where P = "\<lambda>\<tau>. sess_inv (fst \<tau>)"])
      (simp_all add: send_unimplemented_def inv_rules sess_inv_closed)
qed

lemma sess_inv_version [inv_rules]: "sess_inv (fst \<sigma>) \<Longrightarrow> sess_inv (fst (snd (consume_version c \<sigma>)))"
  by (auto simp: consume_version_def split_beta Let_def send_our_kexinit_def build_kexinit_payload_def
      sess_inv_def send_disconnect_fst send_packet_fst split: option.split)

lemma sess_inv_close [inv_rules]: "sess_inv (fst \<sigma>) \<Longrightarrow> sess_inv (fst (session_close \<sigma>))"
  by (auto simp: session_close_def split_beta Let_def sess_inv_def)

lemma sess_inv_detach: "sess_inv s \<Longrightarrow> sess_inv (s\<lparr>backendHandle := -1\<rparr>)" "sess_inv s \<Longrightarrow> sess_inv (s\<lparr>chanOpen := False\<rparr>)"
  by (simp_all add: sess_inv_def)

lemma sess_inv_farewell:
  "sess_inv (fst \<tau>) \<Longrightarrow> sess_inv (fst (send_channel_close c (send_channel_eof c (send_exit_status c n \<tau>))))"
  by (simp add: send_channel_close_def send_channel_eof_def send_exit_status_def)

lemma sess_inv_backend_close [inv_rules]:
  assumes "sess_inv (fst \<sigma>)"
  shows "sess_inv (fst (session_on_backend_close c \<sigma>))"
proof -
  let ?d = "session_on_backend_data c \<sigma>"
  let ?\<tau> = "if backendHandle (fst ?d) \<ge> 0
    then ((fst ?d)\<lparr>backendHandle := -1\<rparr>, itsDisconnect (backendHandle (fst ?d)) (snd ?d)) else ?d"
  let ?f = "send_channel_close c (send_channel_eof c (send_exit_status c 0 ?\<tau>))"
  have "sess_inv (fst ?\<tau>)"
    using sess_inv_backend_data [OF assms] sess_inv_detach(1) by simp
  then have "sess_inv (fst (session_close ((fst ?f)\<lparr>chanOpen := False\<rparr>, snd ?f)))"
    by (intro sess_inv_close) (simp add: sess_inv_farewell sess_inv_detach)
  moreover have "session_on_backend_close c \<sigma> =
      (if \<not> chanOpen (fst \<sigma>) then \<sigma> else session_close ((fst ?f)\<lparr>chanOpen := False\<rparr>, snd ?f))"
    by (simp add: session_on_backend_close_def split_beta Let_def)
  ultimately show ?thesis
    using assms by simp
qed

lemma sess_inv_start: "sess_inv (fst (session_open h k w))"
  by (simp add: session_open_def send_our_version_def sess_inv_def reset_session_def)

end
