(* ===== verification/Machine.thy ===== *)
theory Machine
  imports Session
begin

text \<open>
  The server session as a state machine: its steps are the operations of theory \<open>Session\<close> in
  any order and interleaving, under any behaviour of the surrounding services, together with
  the history of dispatched packets.  Every entry point of \<open>sshd_session.h\<close> is a run of it.
\<close>

section \<open>The contract of a guarded machine\<close>

locale guarded_machine =
  fixes init :: "'s \<Rightarrow> bool"
    and step :: "'s \<Rightarrow> 's \<Rightarrow> bool"
    and inv :: "'s \<Rightarrow> bool"
  assumes init_inv: "init s \<Longrightarrow> inv s"
    and step_inv: "inv s \<Longrightarrow> step s t \<Longrightarrow> inv t"
begin

lemma run_inv: "step\<^sup>*\<^sup>* s t \<Longrightarrow> inv s \<Longrightarrow> inv t"
  by (induction rule: rtranclp_induct) (auto intro: step_inv)

lemma reachable_inv: "init s \<Longrightarrow> step\<^sup>*\<^sup>* s t \<Longrightarrow> inv t"
  using run_inv init_inv by blast

end

section \<open>Projections of the trace\<close>

text \<open>
  The effects of one kind, in order.  A kind is quiet when it contains none of the everyday
  effects (sending, receiving, disconnecting, logging); no handler but the one that opens a
  backend and the one that closes the session then adds to its projection.
\<close>

definition proj :: "(effect \<Rightarrow> bool) \<Rightarrow> world \<Rightarrow> effect list" where
  "proj P w = filter P (trace w)"

definition quiet :: "(effect \<Rightarrow> bool) \<Rightarrow> bool" where
  "quiet P \<longleftrightarrow> (\<forall>h d. \<not> P (ItsSend h d) \<and> \<not> P (ItsRecv h d)) \<and>
     (\<forall>h. \<not> P (ItsDisconnect h) \<and> \<not> P (ItsSendDrain h)) \<and> (\<forall>m. \<not> P (Log m))"

fun is_connect :: "effect \<Rightarrow> bool" where
  "is_connect (ItsConnect svc req ref) = True"
| "is_connect _ = False"

fun is_free :: "effect \<Rightarrow> bool" where
  "is_free (SlotFree k) = True"
| "is_free _ = False"

lemma quiet_kinds [simp]: "quiet is_connect" "quiet is_free"
  by (simp_all add: quiet_def)

definition connects :: "world \<Rightarrow> effect list" where
  "connects w = proj is_connect w"

lemma proj_effects [simp]:
  assumes "quiet P"
  shows "proj P (snd (randomBytes n w)) = proj P w" "proj P (snd (itsSend h d w)) = proj P w"
    "proj P (snd (itsRecv h n w)) = proj P w" "proj P (itsDisconnect h w) = proj P w"
    "proj P (itsSendDrain h w) = proj P w" "proj P (log_line m w) = proj P w" "proj P (log_bytes b w) = proj P w"
    "proj P (emit e w) = proj P w @ (if P e then [e] else [])"
    "proj P (snd (itsConnect svc r k w)) = proj P w @ (if P (ItsConnect svc r k) then [ItsConnect svc r k] else [])"
  using assms by (simp_all add: proj_def quiet_def)

lemma proj_send_packet [simp]: "quiet P \<Longrightarrow> proj P (snd (send_packet c p \<sigma>)) = proj P (snd \<sigma>)"
  by (simp add: proj_def quiet_def send_packet_trace)

lemma proj_send_raw [simp]: "quiet P \<Longrightarrow> proj P (snd (send_raw_tcp d \<sigma>)) = proj P (snd \<sigma>)"
  by (simp add: proj_def quiet_def send_raw_tcp_trace)

lemma proj_disconnect [simp]: "quiet P \<Longrightarrow> proj P (snd (send_disconnect c n m \<sigma>)) = proj P (snd \<sigma>)"
  by (simp add: send_disconnect_def split_beta Let_def)

lemma proj_kex_compute [simp]:
  "quiet P \<Longrightarrow> proj P (snd (snd (kex_compute_classical c \<sigma>))) = proj P (snd \<sigma>)"
  "quiet P \<Longrightarrow> proj P (snd (snd (kex_compute_pq c \<sigma>))) = proj P (snd \<sigma>)"
  by (auto simp: kex_compute_classical_def kex_compute_pq_def mlkem768_encap_def split_beta Let_def split: option.split)

lemma proj_load_host_key [simp]: "quiet P \<Longrightarrow> proj P (snd (load_host_key c w)) = proj P w"
  by (auto simp: load_host_key_def Let_def split: option.split)

lemma proj_kex_reply [simp]: "quiet P \<Longrightarrow> proj P (snd (snd (send_kex_ecdh_reply c \<sigma>))) = proj P (snd \<sigma>)"
  by (auto simp: send_kex_ecdh_reply_def split_beta Let_def split: option.split)

lemma proj_kex [simp]:
  "quiet P \<Longrightarrow> proj P (snd (handle_kexinit c p \<sigma>)) = proj P (snd \<sigma>)"
  "quiet P \<Longrightarrow> proj P (snd (snd (finish_kex_ecdh c \<sigma>))) = proj P (snd \<sigma>)"
  "quiet P \<Longrightarrow> proj P (snd (snd (handle_kex_ecdh_init c p \<sigma>))) = proj P (snd \<sigma>)"
  "quiet P \<Longrightarrow> proj P (snd (snd (consume_version c \<sigma>))) = proj P (snd \<sigma>)"
  by (auto simp: handle_kexinit_def finish_kex_ecdh_def handle_kex_ecdh_init_def consume_version_def
      send_our_kexinit_def build_kexinit_payload_def split_beta Let_def split: option.split)

lemma proj_userauth [simp]:
  "quiet P \<Longrightarrow> proj P (snd (snd (handle_service_request c p \<sigma>))) = proj P (snd \<sigma>)"
  "quiet P \<Longrightarrow> proj P (snd (snd (handle_userauth_request c p \<sigma>))) = proj P (snd \<sigma>)"
  by (auto simp: handle_service_request_def handle_userauth_request_def userauth_publickey_def userauth_signature_def
      userauth_password_def bad_userauth_def send_userauth_failure_def send_userauth_success_def
      split_beta Let_def split: option.split)

lemma proj_backend_loop:
  assumes "quiet P"
  shows "proj P (snd (backend_loop c (s, w))) = proj P w"
proof (induction c "(s, w)" arbitrary: s w rule: backend_loop.induct)
  case (1 c s w)
  obtain got w1 where recv: "itsRecv (backendHandle s) (unat (backend_want s)) w = (got, w1)"
    by fastforce
  obtain s2 w2 where sent: "send_channel_data c got (s, w1) = (s2, w2)"
    by fastforce
  have "proj P w1 = proj P w"
    using recv assms by (metis proj_effects(3) snd_conv)
  moreover have "proj P w2 = proj P w1"
    using sent assms by (metis proj_send_packet send_channel_data_def snd_conv)
  ultimately show ?case
    using "1.hyps" [of "(got, w1)" got w1 "(s2, w2)" s2 w2] recv sent
    by (subst backend_loop.simps) auto
qed

lemma proj_backend_data [simp]: "quiet P \<Longrightarrow> proj P (snd (session_on_backend_data c \<sigma>)) = proj P (snd \<sigma>)"
  using proj_backend_loop [of P c "fst \<sigma>" "snd \<sigma>"] by (simp add: session_on_backend_data_def)

lemma proj_channel [simp]:
  "quiet P \<Longrightarrow> proj P (snd (handle_channel_data c p \<sigma>)) = proj P (snd \<sigma>)"
  "quiet P \<Longrightarrow> proj P (snd (handle_channel_window_adjust c p \<sigma>)) = proj P (snd \<sigma>)"
  "quiet P \<Longrightarrow> proj P (snd (handle_channel_close c \<sigma>)) = proj P (snd \<sigma>)"
  "quiet P \<Longrightarrow> proj P (snd (snd (handle_channel_open c p \<sigma>))) = proj P (snd \<sigma>)"
  "quiet P \<Longrightarrow> proj P (snd (snd (handle_global_request c p \<sigma>))) = proj P (snd \<sigma>)"
  by (auto simp: handle_channel_data_def handle_channel_window_adjust_def handle_channel_close_def
      handle_channel_open_def handle_global_request_def send_channel_window_adjust_def
      send_channel_close_def send_channel_open_failure_def send_channel_open_confirm_def
      split_beta Let_def split: option.split)

lemma proj_channel_request:
  assumes "quiet P" and "\<And>svc r k. \<not> P (ItsConnect svc r k)"
  shows "proj P (snd (snd (handle_channel_request c p k \<sigma>))) = proj P (snd \<sigma>)"
proof -
  have "proj P (snd (snd (open_backend_with_mode k m \<tau>))) = proj P (snd \<tau>)" for m \<tau>
    using assms by (auto simp: open_backend_with_mode_def split_beta Let_def split: chan_kind.split)
  then show ?thesis
    using assms(1)
    by (auto simp: handle_channel_request_def request_shell_def request_exec_def open_backend_def open_backend_line_def
        log_accepted_def request_reply_def send_channel_request_reply_def split_beta Let_def split: option.split)
qed

lemma proj_close:
  "quiet P \<Longrightarrow> (\<And>k. \<not> P (SlotFree k)) \<Longrightarrow> proj P (snd (session_close \<sigma>)) = proj P (snd \<sigma>)"
  by (simp add: session_close_def split_beta Let_def)

lemma proj_backend_close:
  "quiet P \<Longrightarrow> (\<And>k. \<not> P (SlotFree k)) \<Longrightarrow> proj P (snd (session_on_backend_close c \<sigma>)) = proj P (snd \<sigma>)"
  by (simp add: session_on_backend_close_def send_channel_close_def send_channel_eof_def send_exit_status_def
      proj_close split_beta Let_def)

lemma proj_dispatch:
  assumes "quiet P" and "phase (fst \<sigma>) \<noteq> RUN \<or> (\<forall>svc r k. \<not> P (ItsConnect svc r k))"
  shows "proj P (snd (snd (dispatch_packet c p k \<sigma>))) = proj P (snd \<sigma>)"
  using assms
  by (intro dispatch_cases [where P = "\<lambda>\<tau>. proj P (snd \<tau>) = proj P (snd \<sigma>)"])
    (auto simp: send_unimplemented_def proj_channel_request)

section \<open>Who sets the authentication flag\<close>

lemma authed_kex [simp]:
  "authed (fst (handle_kexinit c p \<sigma>)) = authed (fst \<sigma>)"
  "authed (fst (snd (handle_kex_ecdh_init c p \<sigma>))) = authed (fst \<sigma>)"
  "authed (fst (snd (consume_version c \<sigma>))) = authed (fst \<sigma>)"
proof -
  have fin: "authed (fst (snd (finish_kex_ecdh c \<tau>))) = authed (fst \<tau>)" for \<tau>
    using keeps_auth_kex_reply(1) [of \<tau> c]
    by (simp add: finish_kex_ecdh_def split_beta Let_def keeps_auth_def send_disconnect_fst)
  show "authed (fst (handle_kexinit c p \<sigma>)) = authed (fst \<sigma>)"
    "authed (fst (snd (handle_kex_ecdh_init c p \<sigma>))) = authed (fst \<sigma>)"
    "authed (fst (snd (consume_version c \<sigma>))) = authed (fst \<sigma>)"
    by (auto simp: handle_kexinit_def handle_kex_ecdh_init_def consume_version_def send_our_kexinit_def
        build_kexinit_payload_def fin send_disconnect_fst split_beta Let_def split: option.split)
qed

lemma authed_open_backend [simp]: "authed (fst (snd (open_backend_with_mode k m \<sigma>))) = authed (fst \<sigma>)"
  using open_backend_fst [of k m \<sigma>] by auto

lemma authed_channel [simp]:
  "authed (fst (snd (handle_service_request c p \<sigma>))) = authed (fst \<sigma>)"
  "authed (fst (handle_channel_data c p \<sigma>)) = authed (fst \<sigma>)"
  "authed (fst (handle_channel_close c \<sigma>)) = authed (fst \<sigma>)"
  "authed (fst (snd (handle_channel_open c p \<sigma>))) = authed (fst \<sigma>)"
  "authed (fst (snd (handle_channel_request c p k \<sigma>))) = authed (fst \<sigma>)"
  "authed (fst (snd (handle_global_request c p \<sigma>))) = authed (fst \<sigma>)"
  "authed (fst (session_close \<sigma>)) = authed (fst \<sigma>)"
  by (auto simp: handle_service_request_def handle_channel_data_def handle_channel_close_def
      handle_channel_open_def handle_global_request_def session_close_def send_channel_window_adjust_def
      send_channel_close_def send_channel_open_failure_def send_channel_open_confirm_def handle_channel_request_def
      request_shell_def request_exec_def open_backend_def open_backend_line_def log_accepted_def request_reply_def
      send_channel_request_reply_def send_disconnect_fst split_beta Let_def split: option.split)

lemma authed_backend [simp]:
  "authed (fst (session_on_backend_data c \<sigma>)) = authed (fst \<sigma>)"
  "authed (fst (handle_channel_window_adjust c p \<sigma>)) = authed (fst \<sigma>)"
  "authed (fst (session_on_backend_close c \<sigma>)) = authed (fst \<sigma>)"
proof -
  show a: "authed (fst (session_on_backend_data c \<sigma>)) = authed (fst \<sigma>)"
    using session_on_backend_data_fst [of c \<sigma>] by auto
  show "authed (fst (handle_channel_window_adjust c p \<sigma>)) = authed (fst \<sigma>)"
    using window_adjust_fst [of c p \<sigma>] by auto
  show "authed (fst (session_on_backend_close c \<sigma>)) = authed (fst \<sigma>)"
    using a by (simp add: session_on_backend_close_def send_channel_close_def send_channel_eof_def send_exit_status_def
        split_beta Let_def)
qed

lemma dispatch_authenticates:
  assumes "authed (fst (snd (dispatch_packet c p k (s, w))))" and "\<not> authed s" and "length p < 2 ^ 32"
  shows "\<exists>body. p = MSG_USERAUTH_REQUEST # body \<and> phase s = AUTH \<and> credential c w (sessionId s) body"
proof -
  let ?Q = "p \<noteq> [] \<and> hd p = MSG_USERAUTH_REQUEST \<and> phase s = AUTH \<and> credential c w (sessionId s) (tl p)"
  let ?R = "\<exists>body. p = MSG_USERAUTH_REQUEST # body \<and> phase s = AUTH \<and> credential c w (sessionId s) body"
  have "length (tl p) < 2 ^ 32"
    using assms(3) by simp
  then have "authed (fst (snd (handle_userauth_request c (tl p) (s, w)))) \<longrightarrow> credential c w (sessionId s) (tl p)"
    using handle_userauth_outcome [of "tl p" s c w] assms(2) by (auto simp: auth_outcome_def)
  then have "authed (fst (snd (dispatch_packet c p k (s, w)))) \<longrightarrow> ?Q"
    using assms(2)
    by (intro dispatch_cases [where P = "\<lambda>\<tau>. authed (fst \<tau>) \<longrightarrow> ?Q"])
      (simp_all add: send_unimplemented_def handle_newkeys_def)
  with assms(1) have ?Q
    by blast
  then show ?R
    by (intro exI [of _ "tl p"]) (metis list.collapse)
qed

section \<open>Steps and runs\<close>

text \<open>A state carries the packets dispatched so far, each with the session and world it met.\<close>

type_synonym history = "(session \<times> world \<times> bytes) list"

inductive sess_step :: "crypto \<Rightarrow> history \<times> conn \<Rightarrow> history \<times> conn \<Rightarrow> bool" for c where
  version: "phase s = VERSION \<Longrightarrow> sess_step c (h, s, w) (h, snd (consume_version c (s, w)))"
| packet: "phase s \<noteq> CLOSED \<Longrightarrow> parse_packet c s = (Packet p rest, s1) \<Longrightarrow>
    sess_step c (h, s, w) (h @ [(s1, w, p)], snd (dispatch_packet c p (slot s1) (s1, w)))"
| receive: "sess_step c (h, s, w) (h, s\<lparr>rxBuf := rxBuf s @ fst (itsRecv (tcp s) n w)\<rparr>, snd (itsRecv (tcp s) n w))"
| disconnect: "sess_step c (h, \<sigma>) (h, send_disconnect c code msg \<sigma>)"
| backend_data: "sess_step c (h, \<sigma>) (h, session_on_backend_data c \<sigma>)"
| backend_close: "sess_step c (h, \<sigma>) (h, session_on_backend_close c \<sigma>)"
| close: "sess_step c (h, \<sigma>) (h, session_close \<sigma>)"
| environment: "trace w' = trace w \<Longrightarrow> sess_step c (h, s, w) (h, s, w')"

inductive_cases sess_stepE: "sess_step c a b"

definition accepted :: "crypto \<Rightarrow> history \<Rightarrow> bool" where
  "accepted c h \<longleftrightarrow>
     (\<exists>(s, w, p) \<in> set h. \<exists>body. p = MSG_USERAUTH_REQUEST # body \<and> phase s = AUTH \<and> encInbound s \<and> encOutbound s \<and>
        credential c w (sessionId s) body)"

lemma accepted_append: "accepted c h \<Longrightarrow> accepted c (h @ h')"
  by (auto simp: accepted_def)

definition machine_inv :: "crypto \<Rightarrow> effect list \<Rightarrow> history \<times> conn \<Rightarrow> bool" where
  "machine_inv c base st \<longleftrightarrow>
     (case st of (h, s, w) \<Rightarrow> sess_inv s \<and> (authed s \<longrightarrow> accepted c h) \<and> (connects w = base \<or> accepted c h))"

lemma machine_inv_packet:
  assumes "machine_inv c base (h, s, w)" and "parse_packet c s = (Packet p rest, s1)"
  shows "machine_inv c base (h @ [(s1, w, p)], snd (dispatch_packet c p k (s1, w)))"
proof -
  have s1: "s1 = s\<lparr>rxBuf := rest, seqIn := seqIn s + 1\<rparr>" and len: "length p < 2 ^ 32"
    using parse_packet_consumes [OF assms(2)] by simp_all
  have inv1: "sess_inv s1" and auth1: "authed s1 \<longrightarrow> accepted c h" and con: "connects w = base \<or> accepted c h"
    using assms(1) by (simp_all add: machine_inv_def s1)
  let ?\<sigma> = "snd (dispatch_packet c p k (s1, w))"
  have inv: "sess_inv (fst ?\<sigma>)"
    using inv1 len by (intro sess_inv_dispatch) simp_all
  have auth: "accepted c (h @ [(s1, w, p)])" if a: "authed (fst ?\<sigma>)"
  proof (cases "authed s1")
    case True
    then show ?thesis
      using auth1 accepted_append by blast
  next
    case False
    then obtain body where "p = MSG_USERAUTH_REQUEST # body" "phase s1 = AUTH" "credential c w (sessionId s1) body"
      using dispatch_authenticates [OF a _ len] by blast
    moreover from this(2) have "encInbound s1" "encOutbound s1"
      using inv1 by (simp_all add: sess_inv_def)
    ultimately show ?thesis
      by (auto simp: accepted_def)
  qed
  have "connects (snd ?\<sigma>) = base \<or> accepted c (h @ [(s1, w, p)])"
  proof (cases "phase s1 = RUN")
    case True
    then show ?thesis
      using inv1 auth1 accepted_append by (auto simp: sess_inv_def)
  next
    case False
    then show ?thesis
      using con accepted_append proj_dispatch [of is_connect "(s1, w)"] by (auto simp: connects_def)
  qed
  with inv auth show ?thesis
    by (auto simp: machine_inv_def split: prod.split)
qed

lemma machine_inv_step:
  assumes "machine_inv c base st" and "sess_step c st st'"
  shows "machine_inv c base st'"
  using assms(2)
proof cases
  case (packet s p rest s1 h w)
  with assms(1) machine_inv_packet show ?thesis
    by blast
next
  case (environment w' w h s)
  then show ?thesis
    using assms(1) by (simp add: machine_inv_def connects_def proj_def)
qed (use assms(1) in \<open>auto simp: machine_inv_def connects_def split_beta inv_rules sess_inv_closed send_disconnect_fst
    proj_close proj_backend_close\<close>)

interpretation server_session: guarded_machine
  "\<lambda>st. \<exists>h k w. connects w = base \<and> st = ([] :: history, session_open h k w)" "sess_step c" "machine_inv c base"
  for c base
proof
  fix st :: "history \<times> conn"
  assume "\<exists>h k w. connects w = base \<and> st = ([], session_open h k w)"
  then obtain h k w where st: "st = ([], session_open h k w)" and con: "connects w = base"
    by blast
  have "connects (snd (session_open h k w)) = connects w" and "\<not> authed (fst (session_open h k w))"
    by (simp_all add: session_open_def send_our_version_def reset_session_def connects_def)
  then show "machine_inv c base st"
    using st con sess_inv_start [of h k w] by (auto simp: machine_inv_def split: prod.split)
qed (rule machine_inv_step)

section \<open>The slot is released at most once\<close>

text \<open>
  Along every run a session either still holds the slot it started with and no slot has been
  released, or it holds none and that slot has been released exactly once.
\<close>

definition slot_inv :: "int \<Rightarrow> effect list \<Rightarrow> history \<times> conn \<Rightarrow> bool" where
  "slot_inv k base st \<longleftrightarrow>
     (case st of (h, s, w) \<Rightarrow>
       slot s = k \<and> proj is_free w = base \<or> slot s = -1 \<and> proj is_free w = base @ [SlotFree k])"

lemma slot_inv_same:
  "slot_inv k base (h, \<sigma>) \<Longrightarrow> slot (fst \<tau>) = slot (fst \<sigma>) \<Longrightarrow> proj is_free (snd \<tau>) = proj is_free (snd \<sigma>) \<Longrightarrow>
     slot_inv k base (h', \<tau>)"
  by (cases \<sigma>; cases \<tau>) (simp add: slot_inv_def)

lemma slot_inv_close: "0 \<le> k \<Longrightarrow> slot_inv k base (h, \<sigma>) \<Longrightarrow> slot_inv k base (h', session_close \<sigma>)"
  by (auto simp: slot_inv_def session_close_def split_beta Let_def split: prod.splits)

lemma slot_inv_step:
  assumes "0 \<le> k" and "slot_inv k base st" and "sess_step c st st'"
  shows "slot_inv k base st'"
  using assms(3)
proof cases
  case (version s h w)
  have "slot (fst (snd (consume_version c (s, w)))) = slot s"
    by (auto simp: consume_version_def split_beta Let_def send_our_kexinit_def build_kexinit_payload_def
        send_disconnect_fst split: option.split)
  with assms(2) version show ?thesis
    by (auto elim!: slot_inv_same)
next
  case (packet s p rest s1 h w)
  have "slot (fst (snd (dispatch_packet c p (slot s1) (s1, w)))) = slot s1"
    using keeps_io_dispatch [of "(s1, w)" c p "slot s1"] by (simp add: keeps_io_def)
  moreover have "slot s1 = slot s"
    using parse_packet_consumes(1) [OF packet(4)] by simp
  moreover have "proj is_free (snd (snd (dispatch_packet c p (slot s1) (s1, w)))) = proj is_free w"
    using proj_dispatch [of is_free "(s1, w)" c p "slot s1"] by simp
  ultimately show ?thesis
    using assms(2) packet by (auto elim!: slot_inv_same)
next
  case (receive h s w n)
  with assms(2) show ?thesis
    by (auto elim!: slot_inv_same)
next
  case (disconnect h \<sigma> code msg)
  with assms(2) show ?thesis
    by (auto elim!: slot_inv_same simp: send_disconnect_fst)
next
  case (backend_data h \<sigma>)
  with assms(2) show ?thesis
    using session_on_backend_data_fst [of c \<sigma>] by (auto elim!: slot_inv_same)
next
  case (backend_close h \<sigma>)
  let ?f = "\<lambda>\<tau>. send_channel_close c (send_channel_eof c (send_exit_status c 0 \<tau>))"
  have farewell: "slot (fst (?f \<tau>)) = slot (fst \<tau>)" "proj is_free (snd (?f \<tau>)) = proj is_free (snd \<tau>)" for \<tau>
    by (simp_all add: send_channel_close_def send_channel_eof_def send_exit_status_def)
  have data: "slot (fst (session_on_backend_data c \<sigma>)) = slot (fst \<sigma>)"
    using session_on_backend_data_fst [of c \<sigma>] by auto
  let ?d = "session_on_backend_data c \<sigma>"
  let ?t = "if backendHandle (fst ?d) \<ge> 0
    then ((fst ?d)\<lparr>backendHandle := -1\<rparr>, itsDisconnect (backendHandle (fst ?d)) (snd ?d)) else ?d"
  obtain \<tau> where closed: "session_on_backend_close c \<sigma> = (if chanOpen (fst \<sigma>) then session_close \<tau> else \<sigma>)"
    and same: "slot (fst \<tau>) = slot (fst \<sigma>)" "proj is_free (snd \<tau>) = proj is_free (snd \<sigma>)"
    by (rule that [of "((fst (?f ?t))\<lparr>chanOpen := False\<rparr>, snd (?f ?t))"])
      (use farewell [of ?t] data in \<open>simp_all add: session_on_backend_close_def split_beta Let_def\<close>)
  show ?thesis
    using assms(2) slot_inv_close [OF assms(1)] slot_inv_same [OF _ same, of k base h h] backend_close closed
    by (auto split: if_splits)
next
  case (close h \<sigma>)
  with assms(1,2) show ?thesis
    by (auto intro: slot_inv_close)
next
  case (environment w' w h s)
  with assms(2) show ?thesis
    by (auto elim!: slot_inv_same simp: proj_def)
qed

interpretation slot_holder: guarded_machine
  "\<lambda>st. 0 \<le> k \<and> slot (fst (snd st)) = k \<and> proj is_free (snd (snd st)) = base" "sess_step c"
  "\<lambda>st. 0 \<le> k \<and> slot_inv k base st"
  for c k base
proof
  show "0 \<le> k \<and> slot_inv k base st"
    if "0 \<le> k \<and> slot (fst (snd st)) = k \<and> proj is_free (snd (snd st)) = base" for st
    using that by (cases st) (auto simp: slot_inv_def)
qed (use slot_inv_step in blast)

section \<open>The entry points are runs\<close>

lemma drain_tcp_run:
  "drain_tcp \<sigma> = Some \<sigma>' \<Longrightarrow> (sess_step c)\<^sup>*\<^sup>* (h, \<sigma>) (h, \<sigma>')"
proof (rule drain_tcp.raw_induct [where P = "\<lambda>\<sigma> \<sigma>'. (sess_step c)\<^sup>*\<^sup>* (h, \<sigma>) (h, \<sigma>')"])
  fix drain \<sigma> \<sigma>'
  assume ih: "\<And>\<sigma> \<sigma>'. drain \<sigma> = Some \<sigma>' \<Longrightarrow> (sess_step c)\<^sup>*\<^sup>* (h, \<sigma>) (h, \<sigma>')"
    and body: "(let (got, w1) = itsRecv (tcp (fst \<sigma>)) 1024 (snd \<sigma>)
      in if got = [] then Some (fst \<sigma>, w1) else drain ((fst \<sigma>)\<lparr>rxBuf := rxBuf (fst \<sigma>) @ got\<rparr>, w1)) = Some \<sigma>'"
  obtain s w where \<sigma>: "\<sigma> = (s, w)"
    by fastforce
  have recv: "sess_step c (h, s, w)
      (h, s\<lparr>rxBuf := rxBuf s @ fst (itsRecv (tcp s) 1024 w)\<rparr>, snd (itsRecv (tcp s) 1024 w))"
    by (rule sess_step.receive)
  show "(sess_step c)\<^sup>*\<^sup>* (h, \<sigma>) (h, \<sigma>')"
  proof (cases "fst (itsRecv (tcp s) 1024 w) = []")
    case True
    then have "\<sigma>' = (s\<lparr>rxBuf := rxBuf s @ fst (itsRecv (tcp s) 1024 w)\<rparr>, snd (itsRecv (tcp s) 1024 w))"
      using body by (simp add: \<sigma> split_beta Let_def)
    then show ?thesis
      using recv by (simp add: \<sigma>)
  next
    case False
    then have "drain (s\<lparr>rxBuf := rxBuf s @ fst (itsRecv (tcp s) 1024 w)\<rparr>, snd (itsRecv (tcp s) 1024 w)) = Some \<sigma>'"
      using body by (simp add: \<sigma> split_beta Let_def)
    from ih [OF this] show ?thesis
      unfolding \<sigma> by (rule converse_rtranclp_into_rtranclp [where r = "sess_step c", OF recv])
  qed
qed

lemma drain_tcp_returns:
  assumes "recv_ans (snd \<sigma>) (recv_cnt (snd \<sigma>) + n) = []"
  shows "\<exists>\<sigma>'. drain_tcp \<sigma> = Some \<sigma>'"
  using assms
proof (induction n arbitrary: \<sigma>)
  case 0
  then show ?case
    by (subst drain_tcp.simps) (simp add: itsRecv_def Let_def)
next
  case (Suc n)
  let ?\<tau> = "((fst \<sigma>)\<lparr>rxBuf := rxBuf (fst \<sigma>) @ fst (itsRecv (tcp (fst \<sigma>)) 1024 (snd \<sigma>))\<rparr>,
    snd (itsRecv (tcp (fst \<sigma>)) 1024 (snd \<sigma>)))"
  have "recv_ans (snd ?\<tau>) (recv_cnt (snd ?\<tau>) + n) = []"
    using Suc.prems by (simp add: itsRecv_def Let_def emit_def)
  then obtain \<sigma>' where "drain_tcp ?\<tau> = Some \<sigma>'"
    using Suc.IH by blast
  then show ?case
    by (subst drain_tcp.simps) (auto simp: split_beta Let_def)
qed

lemma packet_loop_run:
  "\<exists>h'. (sess_step c)\<^sup>*\<^sup>* (h, \<sigma>) (h @ h', packet_loop c \<sigma>)"
proof (induction c \<sigma> arbitrary: h rule: packet_loop.induct)
  case (1 c s w)
  have stay: "\<exists>h'. (sess_step c)\<^sup>*\<^sup>* (h, s, w) (h @ h', s, w)"
    by (rule exI [of _ "[]"]) simp
  consider "phase s = CLOSED" | "phase s = VERSION" | "phase s \<noteq> CLOSED" "phase s \<noteq> VERSION"
    by blast
  then show ?case
  proof cases
    assume "phase s = CLOSED"
    with stay show ?thesis
      by (simp add: packet_loop.simps)
  next
    assume ver: "phase s = VERSION"
    obtain ok \<sigma>1 where cv: "consume_version c (s, w) = (ok, \<sigma>1)"
      by (metis prod.exhaust)
    have step: "sess_step c (h, s, w) (h, \<sigma>1)"
      using sess_step.version [OF ver, of c h w] cv by simp
    show ?thesis
    proof (cases ok)
      case True
      then obtain h' where "(sess_step c)\<^sup>*\<^sup>* (h, \<sigma>1) (h @ h', packet_loop c \<sigma>1)"
        using "1.IH"(1) [of ok \<sigma>1] ver cv by auto
      with step True cv ver show ?thesis
        by (auto simp: packet_loop.simps intro: converse_rtranclp_into_rtranclp)
    next
      case False
      with step cv ver show ?thesis
        by (auto simp: packet_loop.simps intro!: exI [of _ "[]"])
    qed
  next
    assume ph: "phase s \<noteq> CLOSED" "phase s \<noteq> VERSION"
    obtain r s1 where parsed: "parse_packet c s = (r, s1)"
      by fastforce
    show ?thesis
    proof (cases r)
      case NeedMore
      then have "s1 = s"
        using parse_packet_session [of c s] parsed by simp
      with stay NeedMore parsed ph show ?thesis
        by (simp add: packet_loop.simps)
    next
      case FramingError
      then have "s1 = s"
        using parse_packet_session [of c s] parsed by simp
      with FramingError parsed ph show ?thesis
        by (auto simp: packet_loop.simps intro!: exI [of _ "[]"] r_into_rtranclp sess_step.disconnect)
    next
      case (Packet p rest)
      obtain ok \<sigma>2 where disp: "dispatch_packet c p (slot s1) (s1, w) = (ok, \<sigma>2)"
        by (metis prod.exhaust)
      have step: "sess_step c (h, s, w) (h @ [(s1, w, p)], \<sigma>2)"
        using sess_step.packet [OF ph(1), of c p rest s1 h w] parsed Packet disp by simp
      show ?thesis
      proof (cases ok)
        case True
        then obtain h' where "(sess_step c)\<^sup>*\<^sup>* (h @ [(s1, w, p)], \<sigma>2) ((h @ [(s1, w, p)]) @ h', packet_loop c \<sigma>2)"
          using "1.IH"(2) [of r s1 p rest ok \<sigma>2 "h @ [(s1, w, p)]"] ph parsed Packet disp
          by auto
        moreover have "packet_loop c (s, w) = packet_loop c \<sigma>2"
          using True ph parsed Packet disp by (simp add: packet_loop.simps)
        ultimately have "(sess_step c)\<^sup>*\<^sup>* (h @ [(s1, w, p)], \<sigma>2) (h @ (s1, w, p) # h', packet_loop c (s, w))"
          by simp
        then have "(sess_step c)\<^sup>*\<^sup>* (h, s, w) (h @ (s1, w, p) # h', packet_loop c (s, w))"
          by (rule converse_rtranclp_into_rtranclp [where r = "sess_step c", OF step])
        then show ?thesis
          by blast
      next
        case False
        then have "packet_loop c (s, w) =
            (if phase (fst \<sigma>2) \<noteq> CLOSED then send_disconnect c 2 ''protocol error'' \<sigma>2 else \<sigma>2)"
          using ph parsed Packet disp by (simp add: packet_loop.simps)
        then have "(sess_step c)\<^sup>*\<^sup>* (h @ [(s1, w, p)], \<sigma>2) (h @ [(s1, w, p)], packet_loop c (s, w))"
          by (auto intro: sess_step.disconnect)
        then have "(sess_step c)\<^sup>*\<^sup>* (h, s, w) (h @ [(s1, w, p)], packet_loop c (s, w))"
          by (rule converse_rtranclp_into_rtranclp [where r = "sess_step c", OF step])
        then show ?thesis
          by blast
      qed
    qed
  qed
qed

lemma session_on_tcp_data_run:
  assumes "session_on_tcp_data c \<sigma> = Some \<sigma>'"
  shows "\<exists>h'. (sess_step c)\<^sup>*\<^sup>* (h, \<sigma>) (h @ h', \<sigma>')"
proof -
  obtain \<sigma>1 where drained: "drain_tcp \<sigma> = Some \<sigma>1"
    and \<sigma>': "\<sigma>' = (if phase (fst (packet_loop c \<sigma>1)) = CLOSED then session_close (packet_loop c \<sigma>1) else packet_loop c \<sigma>1)"
    using assms by (auto simp: session_on_tcp_data_def Let_def)
  obtain h' where "(sess_step c)\<^sup>*\<^sup>* (h, \<sigma>1) (h @ h', packet_loop c \<sigma>1)"
    using packet_loop_run by blast
  then have "(sess_step c)\<^sup>*\<^sup>* (h, \<sigma>) (h @ h', packet_loop c \<sigma>1)"
    using rtranclp_trans [OF drain_tcp_run [OF drained]] by blast
  moreover have "(sess_step c)\<^sup>*\<^sup>* (h @ h', packet_loop c \<sigma>1) (h @ h', \<sigma>')"
    unfolding \<sigma>' by (auto intro: sess_step.close)
  ultimately show ?thesis
    by (meson rtranclp_trans)
qed

lemma packet_loop_final:
  "phase (fst (packet_loop c \<sigma>)) = CLOSED \<or>
   (phase (fst (packet_loop c \<sigma>)) = VERSION \<and> split_line (rxBuf (fst (packet_loop c \<sigma>))) = None \<and>
      length (rxBuf (fst (packet_loop c \<sigma>))) \<le> 1024) \<or>
   (phase (fst (packet_loop c \<sigma>)) \<noteq> VERSION \<and>
      parse_packet c (fst (packet_loop c \<sigma>)) = (NeedMore, fst (packet_loop c \<sigma>)))"
    (is "?done (packet_loop c \<sigma>)")
proof (induction c \<sigma> rule: packet_loop.induct)
  case (1 c s w)
  consider "phase s = CLOSED" | "phase s = VERSION" | "phase s \<noteq> CLOSED" "phase s \<noteq> VERSION"
    by blast
  then show ?case
  proof cases
    assume "phase s = CLOSED"
    then show ?thesis
      by (simp add: packet_loop.simps)
  next
    assume ver: "phase s = VERSION"
    obtain ok \<sigma>1 where cv: "consume_version c (s, w) = (ok, \<sigma>1)"
      by (metis prod.exhaust)
    show ?thesis
    proof (cases ok)
      case True
      then show ?thesis
        using "1.IH"(1) [of ok \<sigma>1] ver cv by (simp add: packet_loop.simps)
    next
      case False
      then have "phase (fst \<sigma>1) = CLOSED \<or>
          \<sigma>1 = (s, w) \<and> split_line (rxBuf s) = None \<and> length (rxBuf s) \<le> 1024"
        using cv by (auto simp: consume_version_def split_beta Let_def split: option.splits if_splits)
      then show ?thesis
        using False ver cv by (auto simp: packet_loop.simps)
    qed
  next
    assume ph: "phase s \<noteq> CLOSED" "phase s \<noteq> VERSION"
    obtain r s1 where parsed: "parse_packet c s = (r, s1)"
      by fastforce
    show ?thesis
    proof (cases r)
      case NeedMore
      then have "s1 = s"
        using parse_packet_session [of c s] parsed by simp
      then show ?thesis
        using NeedMore parsed ph by (simp add: packet_loop.simps)
    next
      case FramingError
      then show ?thesis
        using parsed ph by (simp add: packet_loop.simps)
    next
      case (Packet p rest)
      obtain ok \<sigma>2 where disp: "dispatch_packet c p (slot s1) (s1, w) = (ok, \<sigma>2)"
        by (metis prod.exhaust)
      show ?thesis
      proof (cases ok)
        case True
        then show ?thesis
          using "1.IH"(2) [of r s1 p rest ok \<sigma>2] ph parsed Packet disp by (simp add: packet_loop.simps)
      next
        case False
        then show ?thesis
          using ph parsed Packet disp by (simp add: packet_loop.simps)
      qed
    qed
  qed
qed

section \<open>Properties of the server session\<close>

text \<open>
  C1: Nothing before authentication.  Start with a fresh session and run its operations in
  any order and interleaving, against any peer and any behaviour of the surrounding services:
  as long as no USERAUTH\_REQUEST with a valid credential for this session's identifier has
  been dispatched under encryption in both directions, the session has connected to no
  backend, is not authenticated, is not in the running phase and has no channel and no
  backend.
\<close>

theorem no_access_without_credential:
  assumes "(sess_step c)\<^sup>*\<^sup>* ([], session_open h k w0) (hist, s, w)" and "\<not> accepted c hist"
  shows "connects w = connects w0 \<and> \<not> authed s \<and> phase s \<noteq> RUN \<and> \<not> chanOpen s \<and> backendHandle s < 0"
proof -
  have "machine_inv c (connects w0) (hist, s, w)"
    using server_session.reachable_inv [OF _ assms(1)] by blast
  with assms(2) show ?thesis
    by (auto simp: machine_inv_def sess_inv_def)
qed

theorem no_access_without_credential_witness:
  "\<exists>s w. (sess_step sample_crypto)\<^sup>*\<^sup>* ([], session_open 3 0 sample_world) ([], s, w) \<and> \<not> authed s \<and> connects w = []"
proof -
  let ?\<sigma> = "snd (consume_version sample_crypto (session_open 3 0 sample_world))"
  have "phase (fst (session_open 3 0 sample_world)) = VERSION"
    by (simp add: session_open_def send_our_version_def reset_session_def)
  then have "sess_step sample_crypto ([], session_open 3 0 sample_world) ([], ?\<sigma>)"
    using sess_step.version [of "fst (session_open 3 0 sample_world)" sample_crypto "[]" "snd (session_open 3 0 sample_world)"]
    by simp
  then have run: "(sess_step sample_crypto)\<^sup>*\<^sup>* ([], session_open 3 0 sample_world) ([], fst ?\<sigma>, snd ?\<sigma>)"
    by simp
  moreover have "\<not> accepted sample_crypto []"
    by (simp add: accepted_def)
  ultimately show ?thesis
    using no_access_without_credential [OF run] by (fastforce simp: connects_def proj_def sample_world_def)
qed

text \<open>
  C8: Processing received data is a run of the machine (so every invariant of the steps holds
  for it), it returns whenever the transport runs dry at some point, and it leaves nothing
  behind: afterwards the session is closed and its slot released, or what remains in the buffer
  is an incomplete version line of at most 1024 bytes or an incomplete packet.
\<close>

theorem session_on_tcp_data_complete:
  assumes "recv_ans w (recv_cnt w + n) = []"
  shows "\<exists>s' w' h'. session_on_tcp_data c (s, w) = Some (s', w') \<and>
    (sess_step c)\<^sup>*\<^sup>* (h, s, w) (h @ h', s', w') \<and>
    (phase s' = CLOSED \<and> slot s' < 0 \<or>
     phase s' = VERSION \<and> split_line (rxBuf s') = None \<and> length (rxBuf s') \<le> 1024 \<or>
     phase s' \<noteq> VERSION \<and> parse_packet c s' = (NeedMore, s'))"
proof -
  obtain \<sigma>1 where drained: "drain_tcp (s, w) = Some \<sigma>1"
    using drain_tcp_returns [of "(s, w)" n] assms by auto
  let ?\<sigma>2 = "packet_loop c \<sigma>1"
  let ?\<sigma>' = "if phase (fst ?\<sigma>2) = CLOSED then session_close ?\<sigma>2 else ?\<sigma>2"
  have ret: "session_on_tcp_data c (s, w) = Some (fst ?\<sigma>', snd ?\<sigma>')"
    using drained by (simp add: session_on_tcp_data_def Let_def)
  obtain h' where "(sess_step c)\<^sup>*\<^sup>* (h, s, w) (h @ h', fst ?\<sigma>', snd ?\<sigma>')"
    using session_on_tcp_data_run [OF ret, of h] by auto
  moreover have "phase (fst (session_close ?\<sigma>2)) = CLOSED \<and> slot (fst (session_close ?\<sigma>2)) < 0"
    by (auto simp: session_close_def split_beta Let_def)
  ultimately show ?thesis
    using ret packet_loop_final [of c \<sigma>1] by (intro exI [of _ "fst ?\<sigma>'"] exI [of _ "snd ?\<sigma>'"] exI [of _ h']) auto
qed

theorem session_on_tcp_data_complete_witness:
  "\<exists>s' w'. session_on_tcp_data sample_crypto (session_open 3 0 sample_world) = Some (s', w')"
proof -
  let ?w = "snd (session_open 3 0 sample_world)"
  have "recv_ans ?w (recv_cnt ?w + 0) = []"
    by (simp add: session_open_def send_our_version_def send_raw_tcp_def reset_session_def sample_world_def itsSend_def emit_def)
  from session_on_tcp_data_complete [OF this, of sample_crypto "fst (session_open 3 0 sample_world)" "[]"]
  show ?thesis
    by auto
qed

text \<open>
  Closing a session releases everything it holds, exactly once: afterwards it is closed
  with no TCP handle, backend, channel or slot; the trace has grown by at most one disconnect
  of each handle held and one release of the slot; and closing again does nothing.
\<close>

theorem session_close_releases:
  assumes "0 \<le> slot s"
  shows "session_close (session_close (s, w)) = session_close (s, w) \<and>
    (let (s', w') = session_close (s, w) in
       phase s' = CLOSED \<and> tcp s' < 0 \<and> backendHandle s' < 0 \<and> \<not> chanOpen s' \<and> slot s' < 0 \<and>
       trace w' = trace w @ (if 0 \<le> backendHandle s then [ItsDisconnect (backendHandle s)] else []) @
         (if 0 \<le> tcp s then [ItsSendDrain (tcp s), ItsDisconnect (tcp s)] else []) @ [SlotFree (slot s)])"
  using assms by (simp add: session_close_def Let_def)

theorem session_close_releases_witness:
  "slot (fst (session_close (session_open 3 0 sample_world))) < 0"
proof -
  have "0 \<le> slot (fst (session_open 3 0 sample_world))"
    by (simp add: session_open_def send_our_version_def)
  from session_close_releases [OF this, of "snd (session_open 3 0 sample_world)"] show ?thesis
    unfolding Let_def split_beta prod.collapse by blast
qed

end
