(* ===== verification/Server.thy ===== *)
theory Server
  imports Machine Keystore
begin

text \<open>
  The wiring half of the server, \<open>esp-idf/src/sshd.cpp\<close>: the table of session slots and the
  ITS callbacks, the listener, the host key, the command line and the initialisation.  It also
  holds the two backend callbacks of \<open>sshd_session.cpp\<close>, which find their session by slot.

  The key store is theory \<open>Keystore\<close>; a session reads the configuration through
  \<open>store_view\<close>.
\<close>

section \<open>State\<close>

definition SSHD_MAX_SESSIONS :: nat where "SSHD_MAX_SESSIONS = 2"

definition SSHD_VERSION :: int where "SSHD_VERSION = 1"

definition SSHD_PORT_TCP :: int where "SSHD_PORT_TCP = 22"

record 'st server =
  s_sessions :: "session list"
  s_slotInUse :: "bool list"
  s_endpointRegistered :: bool
  s_ack :: int
  s_store :: 'st
  s_world :: world

text \<open>
  The calls into spangap-core that are not part of the repository: the reference value of a
  handle, the result of \<open>itsSendAux\<close>, the recognition of help arguments, and the member
  \<open>line\<close> of a submitted JSON object.
\<close>

record platform =
  itsRef :: "int \<Rightarrow> int"
  itsSendAux_ok :: "nat \<Rightarrow> bool"
  cliWantsHelp :: "bytes \<Rightarrow> bool"
  json_line :: "bytes \<Rightarrow> bytes option"
  CLI_HELP_COL :: nat

text \<open>The zero-initialised static session objects.\<close>

definition zero_session :: session where
  "zero_session = reset_session\<lparr>slot := 0, tcp := 0, backendHandle := 0\<rparr>"

definition server_init :: "'st \<Rightarrow> world \<Rightarrow> 'st server" where
  "server_init st w =
     \<lparr>s_sessions = replicate SSHD_MAX_SESSIONS zero_session, s_slotInUse = replicate SSHD_MAX_SESSIONS False,
      s_endpointRegistered = False, s_ack = 0, s_store = st, s_world = w\<rparr>"

text \<open>The UTF-8 dash of the messages and the newline.\<close>

definition dash :: bytes where "dash = [0xE2, 0x80, 0x94]"

definition nl :: bytes where "nl = [10]"

section \<open>Slots\<close>

definition sshdSlotFree :: "int \<Rightarrow> bool list \<Rightarrow> bool list" where
  "sshdSlotFree k used = (if k \<ge> 0 \<and> k < int SSHD_MAX_SESSIONS then used[nat k := False] else used)"

definition sshdSessionAt :: "'st server \<Rightarrow> int \<Rightarrow> session option" where
  "sshdSessionAt srv k =
     (if k < 0 \<or> k \<ge> int SSHD_MAX_SESSIONS then None
      else if \<not> s_slotInUse srv ! nat k then None
      else Some (s_sessions srv ! nat k))"

text \<open>
  Run a session operation on one slot.  Where the operation calls \<open>sshdSlotFree\<close>, its trace
  has the effect \<open>SlotFree\<close>; the flags are updated from these effects.  The operation starts
  with an empty trace, which is appended to the server's afterwards.
\<close>

fun apply_frees :: "effect list \<Rightarrow> bool list \<Rightarrow> bool list" where
  "apply_frees [] used = used"
| "apply_frees (SlotFree k # es) used = apply_frees es (sshdSlotFree k used)"
| "apply_frees (e # es) used = apply_frees es used"

definition slot_conn :: "'st storage_api \<Rightarrow> 'st server \<Rightarrow> nat \<Rightarrow> conn" where
  "slot_conn a srv k = (s_sessions srv ! k, store_view a (s_store srv) (s_world srv\<lparr>trace := []\<rparr>))"

definition put_conn :: "nat \<Rightarrow> conn \<Rightarrow> 'st server \<Rightarrow> 'st server" where
  "put_conn k \<sigma> srv =
     srv\<lparr>s_sessions := (s_sessions srv)[k := fst \<sigma>],
         s_slotInUse := apply_frees (trace (snd \<sigma>)) (s_slotInUse srv),
         s_world := (snd \<sigma>)\<lparr>trace := trace (s_world srv) @ trace (snd \<sigma>)\<rparr>\<rparr>"

fun first_free :: "bool list \<Rightarrow> nat list \<Rightarrow> int" where
  "first_free used [] = -1"
| "first_free used (i # is) = (if \<not> used ! i then int i else first_free used is)"

definition findFreeSlot :: "'st server \<Rightarrow> int" where
  "findFreeSlot srv = first_free (s_slotInUse srv) [0..<SSHD_MAX_SESSIONS]"

definition sshdActiveSessions :: "'st server \<Rightarrow> nat" where
  "sshdActiveSessions srv = length (filter (\<lambda>i. s_slotInUse srv ! i) [0..<SSHD_MAX_SESSIONS])"

section \<open>ITS callbacks\<close>

definition onTcpConnect :: "'st storage_api \<Rightarrow> int \<Rightarrow> 'st server \<Rightarrow> int \<times> 'st server" where
  "onTcpConnect a handle srv =
     (let k = findFreeSlot srv in
      if k < 0
      then (-1, srv\<lparr>s_world := log_bytes (str ''sshd: rejecting connection '' @ dash @ str '' all '' @
            str (dec SSHD_MAX_SESSIONS) @ str '' session slots in use'') (s_world srv)\<rparr>)
      else let srv1 = srv\<lparr>s_slotInUse := (s_slotInUse srv)[nat k := True]\<rparr>
           in (k, put_conn (nat k) (session_open handle k (snd (slot_conn a srv1 (nat k)))) srv1))"

definition onTcpDisconnect :: "'st storage_api \<Rightarrow> int \<Rightarrow> 'st server \<Rightarrow> 'st server" where
  "onTcpDisconnect a ref srv =
     (if ref < 0 \<or> ref \<ge> int SSHD_MAX_SESSIONS then srv
      else put_conn (nat ref) (session_close (slot_conn a srv (nat ref))) srv)"

definition onTcpRecv :: "'st storage_api \<Rightarrow> crypto \<Rightarrow> platform \<Rightarrow> int \<Rightarrow> 'st server \<Rightarrow> 'st server option" where
  "onTcpRecv a c pf handle srv =
     (let ref = itsRef pf handle in
      if ref < 0 \<or> ref \<ge> int SSHD_MAX_SESSIONS then Some srv
      else if \<not> s_slotInUse srv ! nat ref then Some srv
      else map_option (\<lambda>\<sigma>. put_conn (nat ref) \<sigma> srv) (session_on_tcp_data c (slot_conn a srv (nat ref))))"

definition on_backend_recv_cb :: "'st storage_api \<Rightarrow> crypto \<Rightarrow> platform \<Rightarrow> int \<Rightarrow> 'st server \<Rightarrow> 'st server" where
  "on_backend_recv_cb a c pf handle srv =
     (let k = itsRef pf handle in
      case sshdSessionAt srv k of
        None \<Rightarrow> srv
      | Some s \<Rightarrow>
          if \<not> chanOpen s then srv
          else put_conn (nat k) (session_on_backend_data c (slot_conn a srv (nat k))) srv)"

definition on_backend_disconnect_cb :: "'st storage_api \<Rightarrow> crypto \<Rightarrow> int \<Rightarrow> 'st server \<Rightarrow> 'st server" where
  "on_backend_disconnect_cb a c ref srv =
     (case sshdSessionAt srv ref of
        None \<Rightarrow> srv
      | Some s \<Rightarrow> put_conn (nat ref) (session_on_backend_close c (slot_conn a srv (nat ref))) srv)"

section \<open>Listener\<close>

definition registerEndpointOnce :: "platform \<Rightarrow> 'st server \<Rightarrow> 'st server" where
  "registerEndpointOnce pf srv =
     (if s_endpointRegistered srv then srv
      else let w = emit (SendAux ''net'') (s_world srv) in
           if \<not> itsSendAux_ok pf (length (trace (s_world srv)))
           then srv\<lparr>s_world := log_line ''sshd: net endpoint registration failed'' w\<rparr>
           else srv\<lparr>s_world := w, s_endpointRegistered := True\<rparr>)"

definition applyListenerState :: "'st storage_api \<Rightarrow> 'st server \<Rightarrow> 'st server" where
  "applyListenerState a srv =
     (let st = s_store srv;
          enabled = (storageGetInt a st ''s.sshd.enabled'' 1 \<noteq> 0);
          port = storageGetInt a st ''s.sshd.port'' SSHD_PORT_TCP;
          want = (if enabled then port else 0)
      in if storageGetInt a st ''s.net.sshd_port'' (-1) = want then srv
         else srv\<lparr>s_store := storageSetInt a ''s.net.sshd_port'' want st,
                  s_world := (if want = 0 then log_line ''sshd: listener disabled'' (s_world srv)
                              else log_bytes (str ''sshd: requesting listen on TCP '' @ str (dec_int want)) (s_world srv))\<rparr>)"

section \<open>Host key\<close>

definition b64Encode :: "crypto \<Rightarrow> bytes \<Rightarrow> nat \<Rightarrow> bytes option" where
  "b64Encode c inp outLen = mbedtls_base64_encode (mbed c) outLen inp"

definition b64Decode :: "crypto \<Rightarrow> bytes \<Rightarrow> nat \<Rightarrow> bytes option" where
  "b64Decode c inp outLen = mbedtls_base64_decode (mbed c) outLen inp"

definition seed_key :: string where "seed_key = ''secrets.sshd.host_seed''"

definition loadHostSeed :: "'st storage_api \<Rightarrow> crypto \<Rightarrow> 'st \<Rightarrow> bytes option" where
  "loadHostSeed a c st =
     (let s = storageGetStr a st seed_key [] in
      if s = [] then None
      else case b64Decode c s 32 of
             None \<Rightarrow> None
           | Some seed \<Rightarrow> if length seed \<noteq> 32 then None else Some seed)"

definition generateHostSeed :: "'st storage_api \<Rightarrow> crypto \<Rightarrow> 'st server \<Rightarrow> 'st server" where
  "generateHostSeed a c srv =
     (let (seed, w) = randomBytes 32 (s_world srv) in
      case b64Encode c seed 64 of
        None \<Rightarrow> srv\<lparr>s_world := log_line ''sshd: base64 encode of host seed failed'' w\<rparr>
      | Some b64 \<Rightarrow>
          srv\<lparr>s_store := storageSetStr a seed_key (c_str b64) (s_store srv),
              s_world := log_line ''sshd: generated 32-byte Ed25519 host seed'' w\<rparr>)"

text \<open>The blob \<open>string("ssh-ed25519") || string(pub32)\<close>, written byte by byte.\<close>

definition pubkey_blob :: "bytes \<Rightarrow> bytes" where
  "pubkey_blob pub = [0, 0, 0, 11] @ str ''ssh-ed25519'' @ [0, 0, 0, 32] @ pub"

definition opensshPubkeyLine :: "crypto \<Rightarrow> bytes \<Rightarrow> bytes" where
  "opensshPubkeyLine c pub =
     (case b64Encode c (pubkey_blob pub) 120 of
        None \<Rightarrow> []
      | Some b64 \<Rightarrow> str ''ssh-ed25519 '' @ c_str b64)"

text \<open>The text in the caller's buffer of \<open>bufLen\<close> bytes, when the call succeeds.\<close>

definition sshdHostFingerprint :: "'st storage_api \<Rightarrow> crypto \<Rightarrow> 'st \<Rightarrow> nat \<Rightarrow> bytes option" where
  "sshdHostFingerprint a c st bufLen =
     (let b64 = storageGetStr a st seed_key [] in
      if b64 = [] then None
      else case mbedtls_base64_decode (mbed c) 32 b64 of
             None \<Rightarrow> None
           | Some seed \<Rightarrow>
               if length seed \<noteq> 32 then None
               else case ed25519_pub_from_seed c seed of
                      None \<Rightarrow> None
                    | Some pub \<Rightarrow>
                        let fp = sha256 c (pubkey_blob pub) in
                        if bufLen < 8 + 43 + 1 then None
                        else let text = base64_nopad c fp (bufLen - 7)
                             in if text = [] then None else Some (str ''SHA256:'' @ text))"

section \<open>Initialisation\<close>

definition register_defaults :: "'st storage_api \<Rightarrow> 'st \<Rightarrow> 'st" where
  "register_defaults a st =
     (if storageGetInt a st ''s.sshd.version'' 0 < SSHD_VERSION then
        let st1 = storageBegin a st;
            st2 = storageDefaultInt a ''s.sshd.port'' SSHD_PORT_TCP st1;
            st3 = storageDefaultInt a ''s.sshd.color'' 0 st2;
            st4 = storageDefaultInt a ''s.sshd.logcolor'' 0 st3;
            st5 = storageDefaultTree a ''s.sshd'' (str ''{'' @ [34] @ str ''authorized_keys'' @ [34] @ str '':[]}'') st4;
            st6 = storageSetInt a ''s.sshd.version'' SSHD_VERSION st5
        in storageEnd a st6
      else st)"

text \<open>The message of \<open>keyMigrate\<close>, when it moved lines.\<close>

definition migration_log :: "'st storage_api \<Rightarrow> 'st \<Rightarrow> world \<Rightarrow> world" where
  "migration_log a st w =
     (let n = keyCount a st in
      if n = 0 then w
      else case flat_lines a st [0..<n] of
             None \<Rightarrow> w
           | Some ls \<Rightarrow> log_bytes (str ''migrated '' @ str (dec (length ls)) @ str '' authorized key(s) to the per-field shape'' @ nl) w)"

definition onInit :: "'st storage_api \<Rightarrow> crypto \<Rightarrow> 'st server \<Rightarrow> 'st server" where
  "onInit a c srv =
     (let st0 = register_defaults a (s_store srv);
          st1 = keyMigrate a st0;
          st2 = storageDefaultStr a ''s.net.mdns.ssh'' (str ''s.sshd.port'') st1;
          srv1 = srv\<lparr>s_store := st2, s_world := migration_log a st0 (s_world srv)\<rparr>;
          srv2 = (if loadHostSeed a c (s_store srv1) = None then generateHostSeed a c srv1 else srv1)
      in srv2\<lparr>s_world := emit (Spawn ''sshd'') (s_world srv2)\<rparr>)"

text \<open>
  The start of the task: the ITS ports and callbacks are registered, the endpoint is announced,
  and the listener is brought to the configured state.
\<close>

definition sshdTask :: "'st storage_api \<Rightarrow> platform \<Rightarrow> 'st server \<Rightarrow> 'st server" where
  "sshdTask a pf srv = applyListenerState a (registerEndpointOnce pf srv)"

section \<open>Command line\<close>

definition cliPrint :: "bytes \<Rightarrow> 'st server \<Rightarrow> 'st server" where
  "cliPrint line srv = srv\<lparr>s_world := emit (Print line) (s_world srv)\<rparr>"

definition cmd_reset :: "'st storage_api \<Rightarrow> 'st server \<Rightarrow> 'st server" where
  "cmd_reset a srv =
     (let (srv1, killed) = fold (\<lambda>i (sv, n). if s_slotInUse sv ! i
            then (put_conn i (session_close (slot_conn a sv i)) sv, n + 1) else (sv, n))
          [0..<SSHD_MAX_SESSIONS] (srv, 0 :: nat)
      in cliPrint (str ''killed '' @ str (dec killed) @ str '' session(s)'' @ nl) srv1)"

definition cmd_status :: "'st storage_api \<Rightarrow> crypto \<Rightarrow> 'st server \<Rightarrow> 'st server" where
  "cmd_status a c srv =
     (let st = s_store srv;
          onoff = (\<lambda>k. if storageGetInt a st k 0 \<noteq> 0 then str ''on'' else str ''off'');
          l1 = str ''enabled:  '' @ (if storageGetInt a st ''s.sshd.enabled'' 1 \<noteq> 0 then str ''yes'' else str ''no'') @ nl;
          l2 = str ''port:     '' @ str (dec_int (storageGetInt a st ''s.sshd.port'' SSHD_PORT_TCP)) @ nl;
          l3 = str ''sessions: '' @ str (dec (sshdActiveSessions srv)) @ str '' / '' @ str (dec SSHD_MAX_SESSIONS) @ nl;
          l4 = str ''keys:     '' @ str (dec (keyCount a st)) @ str '' authorized'' @ nl;
          l5 = str ''color:    cli='' @ onoff ''s.sshd.color'' @ str ''  log='' @ onoff ''s.sshd.logcolor'' @ nl;
          l6 = (case sshdHostFingerprint a c st 64 of
                  Some fp \<Rightarrow> str ''hostkey:  '' @ fp @ nl
                | None \<Rightarrow> str ''hostkey:  (none '' @ dash @ str '' run sshd-keygen)'' @ nl)
      in fold cliPrint [l1, l2, l3, l4, l5, l6] srv)"

definition help_line :: "platform \<Rightarrow> string \<Rightarrow> string \<Rightarrow> bytes" where
  "help_line pf name text =
     str name @ replicate (CLI_HELP_COL pf - length name) 32 @ [32] @ str text @ nl"

definition cmd_help :: "platform \<Rightarrow> 'st server \<Rightarrow> 'st server" where
  "cmd_help pf srv =
     fold (\<lambda>(n, t). cliPrint (help_line pf n t))
       [(''sshd'', ''show current state''), (''sshd enable'', ''start the server (s.sshd.enabled=1)''),
        (''sshd disable'', ''stop the server (s.sshd.enabled=0)''), (''sshd fingerprint'', ''SHA256 of host public key''),
        (''sshd keys'', ''list authorized keys''), (''sshd add <key>'', ''append an ssh-ed25519 public key''),
        (''sshd del <id>'', ''remove the key with this id''), (''sshd reset'', ''force-close all active sessions'')] srv"

definition no_host_key :: bytes where
  "no_host_key = str ''(no host key '' @ dash @ str '' run sshd-keygen)'' @ nl"

definition list_keys :: "'st storage_api \<Rightarrow> 'st server \<Rightarrow> 'st server" where
  "list_keys a srv =
     (let st = s_store srv; n = keyCount a st in
      if n = 0 then cliPrint (str ''(no authorized keys)'' @ nl) srv
      else fold (\<lambda>i. cliPrint ([91] @ keyField a st i ''id'' @ [93, 32] @ keyField a st i ''label'' @ nl)) [0..<n] srv)"

definition run_key_op :: "(int \<times> 'st \<Rightarrow> int \<times> 'st) \<Rightarrow> 'st server \<Rightarrow> 'st server" where
  "run_key_op f srv = (case f (s_ack srv, s_store srv) of (ack, st) \<Rightarrow> srv\<lparr>s_ack := ack, s_store := st\<rparr>)"

definition cmd_add :: "'st storage_api \<Rightarrow> bytes \<Rightarrow> 'st server \<Rightarrow> 'st server" where
  "cmd_add a line srv =
     (let srv1 = run_key_op (keyAdd a line) srv; st = s_store srv1;
          why = storageGetStr a st ''sshd.key.error'' []
      in if why = [] then cliPrint (str ''added as ['' @ keyField a st (keyCount a st - 1) ''id'' @ [93] @ nl) srv1
         else cliPrint (why @ nl) srv1)"

definition cmd_del :: "'st storage_api \<Rightarrow> bytes \<Rightarrow> 'st server \<Rightarrow> 'st server" where
  "cmd_del a ident srv =
     (let srv1 = run_key_op (keyRemove a ident) srv; st = s_store srv1;
          why = storageGetStr a st ''sshd.key.error'' []
      in if why = [] then cliPrint (str ''removed ['' @ ident @ str ''] ('' @ str (dec (keyCount a st)) @ str '' remain)'' @ nl) srv1
         else cliPrint (why @ nl) srv1)"

text \<open>
  The storage writes behind \<open>sshd enable\<close> and \<open>sshd disable\<close> trigger the subscription that
  runs \<open>applyListenerState\<close>; the subscription itself is a separate operation here.
\<close>

definition cmdSshd :: "'st storage_api \<Rightarrow> crypto \<Rightarrow> platform \<Rightarrow> bytes \<Rightarrow> 'st server \<Rightarrow> 'st server" where
  "cmdSshd a c pf arg srv =
     (if arg = str ''help'' then cliPrint (help_line pf ''sshd [...]'' ''SSH server status + key management'') srv
      else if cliWantsHelp pf arg then cmd_help pf srv
      else if arg = str ''enable'' \<or> arg = str ''disable'' then
        (let on = (hd arg = of_char (CHR ''e'')) in
         cliPrint (str ''sshd '' @ str (if on then ''enabled'' else ''disabled'') @ nl)
           (srv\<lparr>s_store := storageSetInt a ''s.sshd.enabled'' (if on then 1 else 0) (s_store srv)\<rparr>))
      else if arg = str ''reset'' then cmd_reset a srv
      else if arg = [] then cmd_status a c srv
      else if arg = str ''fingerprint'' then
        (case sshdHostFingerprint a c (s_store srv) 64 of
           Some fp \<Rightarrow> cliPrint (fp @ nl) srv
         | None \<Rightarrow> cliPrint no_host_key srv)
      else if arg = str ''keys'' then list_keys a srv
      else if take 4 arg = str ''add '' then cmd_add a (dropWhile (\<lambda>b. b = 32) (drop 4 arg)) srv
      else if take 4 arg = str ''del '' then cmd_del a (dropWhile (\<lambda>b. b = 32) (drop 4 arg)) srv
      else cliPrint (str ''unknown subcommand. try '' @ [96] @ str ''sshd -h'' @ [96] @ nl) srv)"

definition cmdSshdKeygen :: "'st storage_api \<Rightarrow> crypto \<Rightarrow> platform \<Rightarrow> bytes \<Rightarrow> 'st server \<Rightarrow> 'st server" where
  "cmdSshdKeygen a c pf arg srv =
     (if cliWantsHelp pf arg
      then cliPrint (help_line pf ''sshd-keygen'' ''regenerate the SSH host key (secrets.sshd.host_seed)'') srv
      else let (seed, w) = randomBytes 32 (s_world srv); srv0 = srv\<lparr>s_world := w\<rparr> in
           case b64Encode c seed 64 of
             None \<Rightarrow> cliPrint (str ''sshd-keygen: encode failed'' @ nl) srv0
           | Some b64 \<Rightarrow>
               let srv1 = srv0\<lparr>s_store := storageSetStr a seed_key (c_str b64) (s_store srv),
                               s_world := log_line ''sshd: host key regenerated'' w\<rparr>
               in case sshdHostFingerprint a c (s_store srv1) 64 of
                    Some fp \<Rightarrow> cliPrint (str ''new host key: '' @ fp @ nl) srv1
                  | None \<Rightarrow> cliPrint (str ''new host key generated'' @ nl) srv1)"

definition cmdSshdShowkey :: "'st storage_api \<Rightarrow> crypto \<Rightarrow> platform \<Rightarrow> bytes \<Rightarrow> 'st server \<Rightarrow> 'st server" where
  "cmdSshdShowkey a c pf arg srv =
     (if cliWantsHelp pf arg
      then cliPrint (str ''sshd-showkey'' @ replicate (CLI_HELP_COL pf - 12) 32 @ str '' print the SSH host public key (ssh-ed25519 '' @
             [0xE2, 0x80, 0xA6] @ str '')'' @ nl) srv
      else case loadHostSeed a c (s_store srv) of
             None \<Rightarrow> cliPrint no_host_key srv
           | Some seed \<Rightarrow>
               (case ed25519_pub_from_seed c seed of
                  None \<Rightarrow> cliPrint (str ''sshd-showkey: derive failed'' @ nl) srv
                | Some pub \<Rightarrow>
                    let line = opensshPubkeyLine c pub in
                    if line = [] then cliPrint (str ''sshd-showkey: encode failed'' @ nl) srv
                    else cliPrint (line @ [32] @ take 47 (c_str (storageGetStr a (s_store srv) ''s.net.hostname'' (str ''spangap''))) @ nl) srv))"

section \<open>The slot table\<close>

text \<open>
  The steps of the server task, in any order and interleaving.  A disconnect reports a slot
  that was handed out before (the set in front records those), or a reference outside the
  table; between two steps the surroundings and the configuration store may change at will.
\<close>

inductive srv_step :: "'st storage_api \<Rightarrow> crypto \<Rightarrow> platform \<Rightarrow> int set \<times> 'st server \<Rightarrow> int set \<times> 'st server \<Rightarrow> bool"
  for a c pf where
  connect: "onTcpConnect a handle srv = (k, srv') \<Longrightarrow> srv_step a c pf (opened, srv) (insert k opened, srv')"
| disconnect: "ref \<in> opened \<or> ref < 0 \<or> int SSHD_MAX_SESSIONS \<le> ref \<Longrightarrow>
    srv_step a c pf (opened, srv) (opened, onTcpDisconnect a ref srv)"
| recv: "onTcpRecv a c pf handle srv = Some srv' \<Longrightarrow> srv_step a c pf (opened, srv) (opened, srv')"
| backend_recv: "srv_step a c pf (opened, srv) (opened, on_backend_recv_cb a c pf handle srv)"
| backend_disconnect: "srv_step a c pf (opened, srv) (opened, on_backend_disconnect_cb a c ref srv)"
| command: "srv_step a c pf (opened, srv) (opened, cmdSshd a c pf arg srv)"
| keygen: "srv_step a c pf (opened, srv) (opened, cmdSshdKeygen a c pf arg srv)"
| showkey: "srv_step a c pf (opened, srv) (opened, cmdSshdShowkey a c pf arg srv)"
| task: "srv_step a c pf (opened, srv) (opened, sshdTask a pf srv)"
| listener: "srv_step a c pf (opened, srv) (opened, applyListenerState a srv)"
| environment: "srv_step a c pf (opened, srv) (opened, srv\<lparr>s_store := st, s_world := w\<rparr>)"

text \<open>
  A slot that was handed out knows its own number as long as it is in use, and none
  afterwards; a slot never handed out is not in use.
\<close>

definition slot_ok :: "int set \<Rightarrow> 'st server \<Rightarrow> nat \<Rightarrow> bool" where
  "slot_ok opened srv k \<longleftrightarrow>
     (if int k \<in> opened then slot (s_sessions srv ! k) = (if s_slotInUse srv ! k then int k else -1)
      else \<not> s_slotInUse srv ! k)"

definition slots_ok :: "int set \<times> 'st server \<Rightarrow> bool" where
  "slots_ok st \<longleftrightarrow>
     (case st of (opened, srv) \<Rightarrow> length (s_sessions srv) = SSHD_MAX_SESSIONS \<and>
        length (s_slotInUse srv) = SSHD_MAX_SESSIONS \<and> (\<forall>k < SSHD_MAX_SESSIONS. slot_ok opened srv k))"

lemma apply_frees_proj: "apply_frees tr used = apply_frees (filter is_free tr) used"
  by (induction tr used rule: apply_frees.induct) simp_all

lemma put_conn_same:
  assumes "slots_ok (opened, srv)" and "k < SSHD_MAX_SESSIONS"
    and "slot (fst \<sigma>) = slot (s_sessions srv ! k)" and "proj is_free (snd \<sigma>) = []"
  shows "slots_ok (opened, put_conn k \<sigma> srv)"
proof -
  have "apply_frees (trace (snd \<sigma>)) (s_slotInUse srv) = s_slotInUse srv"
    using assms(4) by (subst apply_frees_proj) (simp add: proj_def)
  then show ?thesis
    using assms(1-3) by (auto simp: slots_ok_def slot_ok_def put_conn_def nth_list_update)
qed

lemma put_conn_release:
  assumes "slots_ok (opened, srv)" and "k < SSHD_MAX_SESSIONS" and "int k \<in> opened"
    and "slot (fst \<sigma>) = -1" and "proj is_free (snd \<sigma>) = [SlotFree (int k)]"
  shows "slots_ok (opened, put_conn k \<sigma> srv)"
proof -
  have "apply_frees (trace (snd \<sigma>)) (s_slotInUse srv) = (s_slotInUse srv)[k := False]"
    using assms(2,5) by (subst apply_frees_proj) (simp add: proj_def sshdSlotFree_def)
  then show ?thesis
    using assms(1-4) by (auto simp: slots_ok_def slot_ok_def put_conn_def nth_list_update)
qed

text \<open>Every run of the session machine on a slot in use keeps the table in order.\<close>

lemma put_conn_run:
  assumes "slots_ok (opened, srv)" and "k < SSHD_MAX_SESSIONS" and "s_slotInUse srv ! k"
    and "(sess_step c)\<^sup>*\<^sup>* (h, slot_conn a srv k) (h', \<sigma>)"
  shows "slots_ok (opened, put_conn k \<sigma> srv)"
proof -
  have opened: "int k \<in> opened" and slot: "slot (s_sessions srv ! k) = int k"
    using assms(1-3) by (auto simp: slots_ok_def slot_ok_def split: if_splits)
  have "slot_inv (int k) [] (h', \<sigma>)"
    using slot_holder.reachable_inv [OF _ assms(4), of "int k" "[]"] slot
    by (simp add: slot_conn_def store_view_def proj_def)
  then consider "slot (fst \<sigma>) = int k" "proj is_free (snd \<sigma>) = []"
    | "slot (fst \<sigma>) = -1" "proj is_free (snd \<sigma>) = [SlotFree (int k)]"
    by (auto simp: slot_inv_def split: prod.splits)
  then show ?thesis
    using put_conn_same [OF assms(1,2)] put_conn_release [OF assms(1,2) opened] slot by cases simp_all
qed

lemma put_conn_close:
  assumes "slots_ok (opened, srv)" and "k < SSHD_MAX_SESSIONS" and "int k \<in> opened"
  shows "slots_ok (opened, put_conn k (session_close (slot_conn a srv k)) srv)"
proof (cases "s_slotInUse srv ! k")
  case True
  then show ?thesis
    using put_conn_run [OF assms(1,2), of _ "[]" a "[]"] sess_step.close by blast
next
  case False
  then have "slot (s_sessions srv ! k) = -1"
    using assms by (auto simp: slots_ok_def slot_ok_def)
  then show ?thesis
    by (intro put_conn_same [OF assms(1,2)])
      (auto simp: session_close_def slot_conn_def store_view_def proj_def split_beta Let_def)
qed

lemma slots_ok_frame:
  "slots_ok (opened, srv) \<Longrightarrow> s_sessions srv' = s_sessions srv \<Longrightarrow> s_slotInUse srv' = s_slotInUse srv \<Longrightarrow>
     slots_ok (opened, srv')"
  by (simp add: slots_ok_def slot_ok_def)

text \<open>What prints, logs or writes the store leaves the table alone.\<close>

definition table :: "'st server \<Rightarrow> session list \<times> bool list" where
  "table srv = (s_sessions srv, s_slotInUse srv)"

lemma table_updates [simp]:
  "table (srv\<lparr>s_store := st\<rparr>) = table srv" "table (srv\<lparr>s_world := w\<rparr>) = table srv" "table (srv\<lparr>s_ack := n\<rparr>) = table srv"
  "table (srv\<lparr>s_endpointRegistered := b\<rparr>) = table srv" "table (cliPrint line srv) = table srv"
  by (simp_all add: table_def cliPrint_def)

lemma table_fold [simp]: "(\<And>x srv. table (f x srv) = table srv) \<Longrightarrow> table (fold f xs srv) = table srv"
  by (induction xs arbitrary: srv) simp_all

lemma table_run_key_op [simp]: "table (run_key_op f srv) = table srv"
  by (simp add: run_key_op_def split: prod.split)

lemma table_commands [simp]:
  "table (applyListenerState a srv) = table srv" "table (registerEndpointOnce pf srv) = table srv"
  "table (cmd_status a c srv) = table srv" "table (cmd_help pf srv) = table srv" "table (list_keys a srv) = table srv"
  "table (cmd_add a line srv) = table srv" "table (cmd_del a line srv) = table srv"
  "table (cmdSshdKeygen a c pf arg srv) = table srv" "table (cmdSshdShowkey a c pf arg srv) = table srv"
  by (simp_all add: applyListenerState_def registerEndpointOnce_def cmd_status_def cmd_help_def list_keys_def cmd_add_def
      cmd_del_def cmdSshdKeygen_def cmdSshdShowkey_def Let_def split_beta split: option.split)

lemma table_cmdSshd: "table (cmdSshd a c pf arg srv) = table srv \<or> cmdSshd a c pf arg srv = cmd_reset a srv"
  by (auto simp: cmdSshd_def Let_def split: option.split)

lemma slots_ok_table: "slots_ok (opened, srv) \<Longrightarrow> table srv' = table srv \<Longrightarrow> slots_ok (opened, srv')"
  by (rule slots_ok_frame) (simp_all add: table_def)

lemma slots_ok_reset:
  assumes "slots_ok (opened, srv)"
  shows "slots_ok (opened, cmd_reset a srv)"
proof -
  define step where "step = (\<lambda>i (sv, n). if s_slotInUse sv ! i
    then (put_conn i (session_close (slot_conn a sv i)) sv, n + 1) else (sv, n :: nat))"
  have fold: "slots_ok (opened, fst (fold step is (sv, n)))"
    if "slots_ok (opened, sv)" "\<forall>i \<in> set is. i < SSHD_MAX_SESSIONS" for sv n "is"
    using that
  proof (induction "is" arbitrary: sv n)
    case (Cons i js)
    have ok: "slots_ok (opened, fst (step i (sv, n)))"
    proof (cases "s_slotInUse sv ! i")
      case True
      with Cons.prems have "int i \<in> opened"
        by (auto simp: slots_ok_def slot_ok_def split: if_splits)
      with True Cons.prems show ?thesis
        by (simp add: step_def put_conn_close)
    qed (use Cons.prems in \<open>simp add: step_def\<close>)
    obtain sv' n' where "step i (sv, n) = (sv', n')"
      by fastforce
    with ok show ?case
      using Cons by simp
  qed simp
  obtain sv n where st: "fold step [0..<SSHD_MAX_SESSIONS] (srv, 0) = (sv, n)"
    by fastforce
  then have "slots_ok (opened, sv)"
    using fold [OF assms, of "[0..<SSHD_MAX_SESSIONS]" 0] by simp
  moreover have "cmd_reset a srv = cliPrint (str ''killed '' @ str (dec n) @ str '' session(s)'' @ nl) sv"
    using st by (simp add: cmd_reset_def step_def)
  ultimately show ?thesis
    by (simp add: slots_ok_table)
qed

lemma findFreeSlot_cases:
  obtains "findFreeSlot srv = -1" "\<forall>k < SSHD_MAX_SESSIONS. s_slotInUse srv ! k"
  | k where "findFreeSlot srv = int k" "k < SSHD_MAX_SESSIONS" "\<not> s_slotInUse srv ! k" "\<forall>j < k. s_slotInUse srv ! j"
proof -
  have "findFreeSlot srv = (if \<not> s_slotInUse srv ! 0 then 0 else if \<not> s_slotInUse srv ! 1 then 1 else -1)"
    by (simp add: findFreeSlot_def SSHD_MAX_SESSIONS_def upt_rec)
  then show thesis
    using that(1) that(2) [of 0] that(2) [of 1]
    by (auto simp: SSHD_MAX_SESSIONS_def less_Suc_eq numeral_2_eq_2 split: if_splits)
qed

lemma session_open_slot:
  "slot (fst (session_open h k w)) = k" "tcp (fst (session_open h k w)) = h" "phase (fst (session_open h k w)) = VERSION"
  "rxBuf (fst (session_open h k w)) = []" "authed (fst (session_open h k w)) = False"
  "proj is_free (snd (session_open h k w)) = proj is_free w"
  by (simp_all add: session_open_def send_our_version_def reset_session_def)

lemma slots_ok_connect:
  assumes "slots_ok (opened, srv)" and "onTcpConnect a handle srv = (k, srv')"
  shows "slots_ok (insert k opened, srv')"
proof (cases rule: findFreeSlot_cases [of srv])
  case 1
  then have "k = -1" and "table srv' = table srv"
    using assms(2) by (auto simp: onTcpConnect_def Let_def)
  with assms(1) show ?thesis
    by (auto simp: slots_ok_def slot_ok_def table_def)
next
  case (2 i)
  let ?srv1 = "srv\<lparr>s_slotInUse := (s_slotInUse srv)[i := True]\<rparr>"
  let ?\<sigma> = "session_open handle (int i) (snd (slot_conn a ?srv1 i))"
  have k: "k = int i" and srv': "srv' = put_conn i ?\<sigma> ?srv1"
    using assms(2) 2 by (auto simp: onTcpConnect_def Let_def)
  have "proj is_free (snd ?\<sigma>) = proj is_free (snd (slot_conn a ?srv1 i))"
    by (rule session_open_slot)
  then have "proj is_free (snd ?\<sigma>) = []"
    by (simp add: slot_conn_def store_view_def proj_def)
  then have "apply_frees (trace (snd ?\<sigma>)) (s_slotInUse ?srv1) = s_slotInUse ?srv1"
    by (subst apply_frees_proj) (simp add: proj_def)
  then show ?thesis
    using assms(1) 2(2) by (auto simp: k srv' slots_ok_def slot_ok_def put_conn_def nth_list_update session_open_slot)
qed

lemma used_slot:
  assumes "sshdSessionAt srv k = Some s"
  shows "nat k < SSHD_MAX_SESSIONS \<and> s_slotInUse srv ! nat k"
  using assms by (auto simp: sshdSessionAt_def split: if_splits)

lemma slots_ok_step:
  assumes "slots_ok st" and "srv_step a c pf st st'"
  shows "slots_ok st'"
  using assms(2)
proof cases
  case (connect handle srv k srv' opened)
  with assms(1) show ?thesis
    by (simp add: slots_ok_connect)
next
  case (disconnect ref opened srv)
  with assms(1) show ?thesis
    by (auto simp: onTcpDisconnect_def intro!: put_conn_close)
next
  case (recv handle srv srv' opened)
  have "slots_ok (opened, put_conn k \<sigma> srv)"
    if "k < SSHD_MAX_SESSIONS" "s_slotInUse srv ! k" "session_on_tcp_data c (slot_conn a srv k) = Some \<sigma>" for k \<sigma>
    using put_conn_run [OF _ that(1,2)] session_on_tcp_data_run [OF that(3)] assms(1) recv(1) by blast
  with assms(1) recv show ?thesis
    by (auto simp: onTcpRecv_def Let_def split: if_splits)
next
  case (backend_recv opened srv handle)
  have "slots_ok (opened, put_conn k (session_on_backend_data c (slot_conn a srv k)) srv)"
    if "k < SSHD_MAX_SESSIONS" "s_slotInUse srv ! k" for k
    using put_conn_run [OF _ that] sess_step.backend_data assms(1) backend_recv(1) by blast
  with assms(1) backend_recv show ?thesis
    by (auto simp: on_backend_recv_cb_def Let_def dest: used_slot split: option.split)
next
  case (backend_disconnect opened srv ref)
  have "slots_ok (opened, put_conn k (session_on_backend_close c (slot_conn a srv k)) srv)"
    if "k < SSHD_MAX_SESSIONS" "s_slotInUse srv ! k" for k
    using put_conn_run [OF _ that] sess_step.backend_close assms(1) backend_disconnect(1) by blast
  with assms(1) backend_disconnect show ?thesis
    by (auto simp: on_backend_disconnect_cb_def dest: used_slot split: option.split)
next
  case (command opened srv arg)
  with assms(1) table_cmdSshd [of a c pf arg srv] show ?thesis
    by (metis slots_ok_reset slots_ok_table)
next
  case (environment opened srv st w)
  with assms(1) show ?thesis
    by (auto elim!: slots_ok_frame)
qed (use assms(1) in \<open>auto simp: sshdTask_def elim!: slots_ok_table\<close>)

lemma slots_ok_init: "slots_ok ({}, server_init st w)"
  by (simp add: slots_ok_def slot_ok_def server_init_def)

interpretation slot_table: guarded_machine "\<lambda>st. \<exists>s w. st = ({}, server_init s w)" "srv_step a c pf" slots_ok
  for a :: "'st storage_api" and c pf
proof
  show "slots_ok st" if "\<exists>s w. st = ({}, server_init s w)" for st :: "int set \<times> 'st server"
    using that slots_ok_init by auto
qed (rule slots_ok_step)

section \<open>Properties of the server\<close>

text \<open>
  C14: The slot table is consistent in every reachable state of the server task, whatever the
  order of connections, data, backend events, commands and configuration changes: there are
  two slots; a session in a slot in use carries that slot's number; a session that was closed
  carries none and its slot is free; and the number of active sessions is the number of
  sessions that hold a slot.
\<close>

theorem slot_table_invariant:
  assumes "(srv_step a c pf)\<^sup>*\<^sup>* ({}, server_init st w) (opened, srv)"
  shows "length (s_sessions srv) = 2 \<and> length (s_slotInUse srv) = 2 \<and>
    (\<forall>k < 2. s_slotInUse srv ! k \<longrightarrow> int k \<in> opened \<and> slot (s_sessions srv ! k) = int k) \<and>
    (\<forall>k < 2. int k \<in> opened \<and> \<not> s_slotInUse srv ! k \<longrightarrow> slot (s_sessions srv ! k) = -1) \<and>
    sshdActiveSessions srv = card {k. k < 2 \<and> int k \<in> opened \<and> slot (s_sessions srv ! k) = int k}"
proof -
  have ok: "slots_ok (opened, srv)"
    using slot_table.reachable_inv [OF _ assms] by blast
  have used: "s_slotInUse srv ! k \<longleftrightarrow> int k \<in> opened \<and> slot (s_sessions srv ! k) = int k" if "k < 2" for k
  proof -
    have "slot_ok opened srv k"
      using ok that by (simp add: slots_ok_def SSHD_MAX_SESSIONS_def)
    then show ?thesis
      by (cases "s_slotInUse srv ! k") (simp_all add: slot_ok_def split: if_splits)
  qed
  have "{k. k < 2 \<and> int k \<in> opened \<and> slot (s_sessions srv ! k) = int k} =
      set (filter (\<lambda>i. s_slotInUse srv ! i) [0..<2])"
    using used by auto
  then have "card {k. k < 2 \<and> int k \<in> opened \<and> slot (s_sessions srv ! k) = int k} = sshdActiveSessions srv"
    by (simp only: sshdActiveSessions_def SSHD_MAX_SESSIONS_def distinct_card distinct_filter distinct_upt)
  with ok used show ?thesis
    by (auto simp: slots_ok_def slot_ok_def SSHD_MAX_SESSIONS_def)
qed

definition sample_platform :: platform where
  "sample_platform = \<lparr>itsRef = (\<lambda>h. h), itsSendAux_ok = (\<lambda>_. True), cliWantsHelp = (\<lambda>a. a = str ''-h''),
     json_line = (\<lambda>_. None), CLI_HELP_COL = 20\<rparr>"

definition sample_server :: "sample_store server" where
  "sample_server = server_init (\<lambda>_. None, 0) sample_world"

lemma sample_connect: "fst (onTcpConnect sample_storage 5 sample_server) = 0"
  by (simp add: onTcpConnect_def findFreeSlot_def sample_server_def server_init_def SSHD_MAX_SESSIONS_def upt_rec Let_def)

lemma sample_connect_step:
  "srv_step sample_storage sample_crypto sample_platform ({}, sample_server)
     ({0}, snd (onTcpConnect sample_storage 5 sample_server))"
  using srv_step.connect [of sample_storage 5 sample_server 0 "snd (onTcpConnect sample_storage 5 sample_server)"]
    sample_connect by (metis prod.collapse)

theorem slot_table_invariant_witness:
  "slot (s_sessions (snd (onTcpConnect sample_storage 5 sample_server)) ! 0) \<in> {0, -1}"
proof -
  let ?srv = "snd (onTcpConnect sample_storage 5 sample_server)"
  have "(srv_step sample_storage sample_crypto sample_platform)\<^sup>*\<^sup>*
      ({}, server_init (\<lambda>_. None, 0) sample_world) ({0}, ?srv)"
    using sample_connect_step by (simp add: sample_server_def)
  from slot_table_invariant [OF this] show ?thesis
    by (cases "s_slotInUse ?srv ! 0") (auto dest: spec [of _ 0])
qed

text \<open>
  Admission of connections: with a consistent table a connection is refused exactly when
  both slots are in use, and then nothing changes but the log; otherwise it gets the lowest
  free slot, whose session is started afresh on the new handle (nothing of the previous
  session survives), and the other session is untouched.
\<close>

theorem onTcpConnect_admission:
  assumes "slots_ok (opened, srv)" and "onTcpConnect a handle srv = (k, srv')"
  shows "(k = -1 \<longleftrightarrow> sshdActiveSessions srv = 2) \<and>
    (k = -1 \<longrightarrow> s_sessions srv' = s_sessions srv \<and> s_slotInUse srv' = s_slotInUse srv \<and> s_store srv' = s_store srv) \<and>
    (k \<noteq> -1 \<longrightarrow> (k = 0 \<or> k = 1 \<and> s_slotInUse srv ! 0) \<and> \<not> s_slotInUse srv ! nat k \<and> s_slotInUse srv' ! nat k \<and>
       s_sessions srv' ! nat k = reset_session\<lparr>slot := k, tcp := handle, phase := VERSION, ourVersion := str OUR_VERSION_STR\<rparr> \<and>
       (\<forall>j < 2. j \<noteq> nat k \<longrightarrow> s_sessions srv' ! j = s_sessions srv ! j \<and> s_slotInUse srv' ! j = s_slotInUse srv ! j))"
proof (cases rule: findFreeSlot_cases [of srv])
  case 1
  then have all: "s_slotInUse srv ! 0" "s_slotInUse srv ! 1"
    by (simp_all add: SSHD_MAX_SESSIONS_def)
  then have "sshdActiveSessions srv = 2"
    by (simp add: sshdActiveSessions_def SSHD_MAX_SESSIONS_def upt_rec)
  with 1 assms(2) show ?thesis
    by (auto simp: onTcpConnect_def Let_def)
next
  case (2 i)
  let ?srv1 = "srv\<lparr>s_slotInUse := (s_slotInUse srv)[i := True]\<rparr>"
  let ?\<sigma> = "session_open handle (int i) (snd (slot_conn a ?srv1 i))"
  have k: "k = int i" and srv': "srv' = put_conn i ?\<sigma> ?srv1"
    using assms(2) 2 by (auto simp: onTcpConnect_def Let_def)
  have "proj is_free (snd ?\<sigma>) = proj is_free (snd (slot_conn a ?srv1 i))"
    by (rule session_open_slot)
  then have "apply_frees (trace (snd ?\<sigma>)) (s_slotInUse ?srv1) = s_slotInUse ?srv1"
    by (subst apply_frees_proj) (simp add: slot_conn_def store_view_def proj_def)
  moreover have "fst ?\<sigma> = reset_session\<lparr>slot := k, tcp := handle, phase := VERSION, ourVersion := str OUR_VERSION_STR\<rparr>"
    by (simp add: session_open_def send_our_version_def k)
  moreover have "sshdActiveSessions srv \<noteq> 2"
    using 2(2,3) by (auto simp: sshdActiveSessions_def SSHD_MAX_SESSIONS_def upt_rec less_Suc_eq numeral_2_eq_2)
  moreover have "length (s_sessions srv) = 2" "length (s_slotInUse srv) = 2"
    using assms(1) by (simp_all add: slots_ok_def SSHD_MAX_SESSIONS_def)
  ultimately show ?thesis
    using 2(2-4) by (auto simp: k srv' put_conn_def SSHD_MAX_SESSIONS_def less_Suc_eq numeral_2_eq_2)
qed

theorem onTcpConnect_admission_witness:
  "s_slotInUse (snd (onTcpConnect sample_storage 5 sample_server)) ! 0"
proof -
  have ok: "slots_ok ({}, sample_server)"
    unfolding sample_server_def by (rule slots_ok_init)
  have "onTcpConnect sample_storage 5 sample_server = (0, snd (onTcpConnect sample_storage 5 sample_server))"
    using sample_connect by (metis prod.collapse)
  from onTcpConnect_admission [OF ok this] show ?thesis
    by simp
qed

text \<open>
  No slot is lost: in every reachable state, closing the session of a slot in use (the
  disconnect that follows every end of a connection) frees that slot, and the next connection
  is accepted.
\<close>

theorem slot_recovery:
  assumes "(srv_step a c pf)\<^sup>*\<^sup>* ({}, server_init st w) (opened, srv)" and "k < 2" and "s_slotInUse srv ! k"
  shows "\<not> s_slotInUse (onTcpDisconnect a (int k) srv) ! k \<and>
    fst (onTcpConnect a handle (onTcpDisconnect a (int k) srv)) \<in> {0, 1}"
proof -
  have ok: "slots_ok (opened, srv)"
    using slot_table.reachable_inv [OF _ assms(1)] by blast
  then have opened: "int k \<in> opened" and slot: "slot (s_sessions srv ! k) = int k" and len: "length (s_slotInUse srv) = 2"
    using assms(2,3) by (auto simp: slots_ok_def slot_ok_def SSHD_MAX_SESSIONS_def split: if_splits)
  let ?\<sigma> = "session_close (slot_conn a srv k)"
  have "proj is_free (snd ?\<sigma>) = [SlotFree (int k)]"
    using slot by (auto simp: session_close_def slot_conn_def store_view_def proj_def split_beta Let_def)
  then have "apply_frees (trace (snd ?\<sigma>)) (s_slotInUse srv) = (s_slotInUse srv)[k := False]"
    using assms(2) by (subst apply_frees_proj) (simp add: proj_def sshdSlotFree_def SSHD_MAX_SESSIONS_def)
  then have free: "\<not> s_slotInUse (onTcpDisconnect a (int k) srv) ! k"
    using assms(2) len by (simp add: onTcpDisconnect_def SSHD_MAX_SESSIONS_def put_conn_def)
  moreover have "fst (onTcpConnect a handle srv') \<in> {0, 1}" if "\<not> s_slotInUse srv' ! k" for srv' :: "'a server"
    using assms(2) that
    by (cases rule: findFreeSlot_cases [of srv'])
      (auto simp: onTcpConnect_def Let_def SSHD_MAX_SESSIONS_def)
  ultimately show ?thesis
    by blast
qed

theorem slot_recovery_witness:
  "fst (onTcpConnect sample_storage 6 (onTcpDisconnect sample_storage 0 (snd (onTcpConnect sample_storage 5 sample_server)))) \<in> {0, 1}"
proof -
  let ?srv = "snd (onTcpConnect sample_storage 5 sample_server)"
  have run: "(srv_step sample_storage sample_crypto sample_platform)\<^sup>*\<^sup>*
      ({}, server_init (\<lambda>_. None, 0) sample_world) ({0}, ?srv)"
    using sample_connect_step by (simp add: sample_server_def)
  have "s_slotInUse ?srv ! 0"
    by (simp add: onTcpConnect_def findFreeSlot_def sample_server_def server_init_def SSHD_MAX_SESSIONS_def upt_rec
        put_conn_def session_open_def send_our_version_def slot_conn_def store_view_def send_raw_tcp_def reset_session_def
        itsSend_def emit_def Let_def)
  from slot_recovery [OF run _ this, of 6] show ?thesis
    by simp
qed

section \<open>The host key\<close>

text \<open>
  Documented behaviour of the store, as far as the host seed needs it: a written value is read
  back, and no write to another key or tree touches it.
\<close>

definition seed_laws :: "'st storage_api \<Rightarrow> bool" where
  "seed_laws a \<longleftrightarrow>
     (let seed_of = (\<lambda>st. storageGetStr a st seed_key []) in
      (\<forall>st v. seed_of (storageSetStr a seed_key v st) = v) \<and>
      (\<forall>st k v. k \<noteq> seed_key \<longrightarrow> seed_of (storageSetStr a k v st) = seed_of st) \<and>
      (\<forall>st k v. k \<noteq> seed_key \<longrightarrow> seed_of (storageSetInt a k v st) = seed_of st) \<and>
      (\<forall>st k v. k \<noteq> seed_key \<longrightarrow> seed_of (storageDefaultStr a k v st) = seed_of st) \<and>
      (\<forall>st k v. k \<noteq> seed_key \<longrightarrow> seed_of (storageDefaultInt a k v st) = seed_of st) \<and>
      (\<forall>st v. seed_of (storageDefaultTree a ''s.sshd'' v st) = seed_of st) \<and>
      (\<forall>st. seed_of (storageDeleteTree a ''s.sshd.authorized_keys'' st) = seed_of st) \<and>
      (\<forall>st. seed_of (storageBegin a st) = seed_of st \<and> seed_of (storageEnd a st) = seed_of st))"

lemma seed_lawsD:
  assumes "seed_laws a"
  shows "storageGetStr a (storageSetStr a seed_key v st) seed_key [] = v"
    and "k \<noteq> seed_key \<Longrightarrow> storageGetStr a (storageSetStr a k v st) seed_key [] = storageGetStr a st seed_key []"
    and "k \<noteq> seed_key \<Longrightarrow> storageGetStr a (storageSetInt a k n st) seed_key [] = storageGetStr a st seed_key []"
    and "k \<noteq> seed_key \<Longrightarrow> storageGetStr a (storageDefaultStr a k v st) seed_key [] = storageGetStr a st seed_key []"
    and "k \<noteq> seed_key \<Longrightarrow> storageGetStr a (storageDefaultInt a k n st) seed_key [] = storageGetStr a st seed_key []"
    and "storageGetStr a (storageDefaultTree a ''s.sshd'' v st) seed_key [] = storageGetStr a st seed_key []"
    and "storageGetStr a (storageDeleteTree a ''s.sshd.authorized_keys'' st) seed_key [] = storageGetStr a st seed_key []"
    and "storageGetStr a (storageBegin a st) seed_key [] = storageGetStr a st seed_key []"
    and "storageGetStr a (storageEnd a st) seed_key [] = storageGetStr a st seed_key []"
  using assms by (simp_all add: seed_laws_def)

lemma seed_of_write_lines:
  assumes "seed_laws a"
  shows "storageGetStr a (write_lines a i ls st) seed_key [] = storageGetStr a st seed_key []"
proof (induction ls arbitrary: i st)
  case (Cons l ls)
  have "item_key j f \<noteq> seed_key" for j f
    by (simp add: item_key_def keys_prefix_def seed_key_def)
  then have "storageGetStr a (keyWrite a i x l st) seed_key [] = storageGetStr a st seed_key []" for x
    by (simp add: keyWrite_def seed_lawsD(2) [OF assms])
  with Cons show ?case
    by simp
qed simp

lemma seed_of_start:
  assumes "seed_laws a"
  shows "storageGetStr a (keyMigrate a (register_defaults a st)) seed_key [] = storageGetStr a st seed_key []"
proof -
  have "storageGetStr a (keyMigrate a st') seed_key [] = storageGetStr a st' seed_key []" for st'
    by (auto simp: keyMigrate_def Let_def seed_of_write_lines [OF assms] seed_lawsD [OF assms] split: option.split)
  moreover have "storageGetStr a (register_defaults a st) seed_key [] = storageGetStr a st seed_key []"
  proof -
    have "''s.sshd.port'' \<noteq> seed_key" "''s.sshd.color'' \<noteq> seed_key" "''s.sshd.logcolor'' \<noteq> seed_key" "''s.sshd.version'' \<noteq> seed_key"
      by (simp_all add: seed_key_def)
    then show ?thesis
      by (simp add: register_defaults_def Let_def seed_lawsD [OF assms])
  qed
  ultimately show ?thesis
    by simp
qed

text \<open>
  C15: The host key lives forever: initialisation on a device without a readable host seed
  stores 32 fresh random bytes, and every later load returns exactly those; initialisation on a
  device that has one leaves it as it is.
\<close>

theorem host_key_lifecycle:
  assumes "seed_laws a" and "fst (randomBytes 32 (s_world srv)) = fresh"
    and "b64Encode c fresh 64 = Some b64" and "c_str b64 = b64" and "b64 \<noteq> []" and "b64Decode c b64 32 = Some fresh"
  shows "loadHostSeed a c (s_store (onInit a c srv)) =
    Some (case loadHostSeed a c (s_store srv) of None \<Rightarrow> fresh | Some seed \<Rightarrow> seed)"
proof -
  let ?st = "storageDefaultStr a ''s.net.mdns.ssh'' (str ''s.sshd.port'') (keyMigrate a (register_defaults a (s_store srv)))"
  let ?w = "migration_log a (register_defaults a (s_store srv)) (s_world srv)"
  have keep: "loadHostSeed a c ?st = loadHostSeed a c (s_store srv)"
    using seed_of_start [OF assms(1), of "s_store srv"] seed_lawsD(4) [OF assms(1), of "''s.net.mdns.ssh''"]
    by (simp add: loadHostSeed_def seed_key_def)
  obtain w' where "randomBytes 32 ?w = (fresh, w')"
    using assms(2) by (auto simp: migration_log_def Let_def randomBytes_def log_bytes_def emit_def split: option.split)
  then have "storageGetStr a (s_store (generateHostSeed a c (srv\<lparr>s_store := ?st, s_world := ?w\<rparr>))) seed_key [] = b64"
    using assms(3,4) seed_lawsD(1) [OF assms(1)] by (simp add: generateHostSeed_def)
  moreover have "length fresh = 32"
    using length_randomBytes [of 32 "s_world srv"] assms(2) by simp
  ultimately have new: "loadHostSeed a c (s_store (generateHostSeed a c (srv\<lparr>s_store := ?st, s_world := ?w\<rparr>))) = Some fresh"
    using assms(5,6) by (simp add: loadHostSeed_def)
  show ?thesis
    using new keep by (simp add: onInit_def Let_def split: option.split)
qed

lemma sample_seed_laws: "seed_laws sample_storage"
proof -
  have "\<not> sample_below ''s.sshd.authorized_keys'' seed_key"
    by (simp add: sample_below_def seed_key_def)
  moreover have "seed_key \<noteq> ''s.sshd''"
    by (simp add: seed_key_def)
  ultimately show ?thesis
    by (simp add: seed_laws_def sample_storage_def sample_get_def sample_set_def sample_default_def sample_delete_def)
qed

theorem host_key_lifecycle_witness:
  "loadHostSeed sample_storage sample_crypto (s_store (onInit sample_storage sample_crypto sample_server)) =
     Some (map of_nat [0..<32])"
proof -
  let ?fresh = "map of_nat [0..<32] :: bytes" and ?b64 = "map (\<lambda>b. b XOR 0x80) (map of_nat [0..<32]) :: bytes"
  have fresh: "fst (randomBytes 32 (s_world sample_server)) = ?fresh"
    by (simp add: sample_server_def server_init_def sample_world_def randomBytes_def)
  have enc: "b64Encode sample_crypto ?fresh 64 = Some ?b64" and dec: "b64Decode sample_crypto ?b64 32 = Some ?fresh"
    by (simp_all add: b64Encode_def b64Decode_def sample_crypto_def sample_mbedtls_def o_def xor.assoc)
  have clean: "c_str ?b64 = ?b64"
    by (simp add: c_str_def upt_rec)
  have ne: "?b64 \<noteq> []" and none: "loadHostSeed sample_storage sample_crypto (s_store sample_server) = None"
    by (simp_all add: loadHostSeed_def sample_server_def server_init_def sample_storage_def sample_get_def)
  show ?thesis
    using host_key_lifecycle [OF sample_seed_laws fresh enc clean ne dec] unfolding none option.case .
qed

section \<open>The listener\<close>

text \<open>Integer settings are read back, and a write leaves the other settings alone.\<close>

definition int_laws :: "'st storage_api \<Rightarrow> bool" where
  "int_laws a \<longleftrightarrow> (\<forall>st k v d. storageGetInt a (storageSetInt a k v st) k d = v) \<and>
     (\<forall>st k j v d. k \<noteq> j \<longrightarrow> storageGetInt a (storageSetInt a k v st) j d = storageGetInt a st j d)"

text \<open>
  The listener follows the configuration: after \<open>sshd disable\<close> the port that net is asked
  to listen on is 0, after \<open>sshd enable\<close> it is the configured port, in both cases whatever it
  was before; a second run changes nothing; and no session is touched.
\<close>

theorem listener_follows_commands:
  fixes a :: "'st storage_api" and c :: crypto and srv :: "'st server"
  assumes "int_laws a" and "\<not> cliWantsHelp pf (str ''enable'')" and "\<not> cliWantsHelp pf (str ''disable'')"
  defines "off \<equiv> applyListenerState a (cmdSshd a c pf (str ''disable'') srv)"
    and "on \<equiv> applyListenerState a (cmdSshd a c pf (str ''enable'') srv)"
  shows "storageGetInt a (s_store off) ''s.net.sshd_port'' (-1) = 0 \<and> applyListenerState a off = off \<and>
    storageGetInt a (s_store on) ''s.net.sshd_port'' (-1) = storageGetInt a (s_store srv) ''s.sshd.port'' 22 \<and>
    applyListenerState a on = on \<and>
    s_sessions off = s_sessions srv \<and> s_sessions on = s_sessions srv \<and>
    s_slotInUse off = s_slotInUse srv \<and> s_slotInUse on = s_slotInUse srv"
proof -
  have law: "storageGetInt a (storageSetInt a k v st) k d = v"
      "k \<noteq> j \<Longrightarrow> storageGetInt a (storageSetInt a k v st) j d = storageGetInt a st j d" for k j v d st
    using assms(1) by (simp_all add: int_laws_def)
  let ?disabled = "cliPrint (str ''sshd disabled'' @ nl) (srv\<lparr>s_store := storageSetInt a ''s.sshd.enabled'' 0 (s_store srv)\<rparr>)"
  let ?enabled = "cliPrint (str ''sshd enabled'' @ nl) (srv\<lparr>s_store := storageSetInt a ''s.sshd.enabled'' 1 (s_store srv)\<rparr>)"
  have "cmdSshd a c pf (str ''disable'') srv = ?disabled" and "cmdSshd a c pf (str ''enable'') srv = ?enabled"
    using assms(2,3) by (simp_all add: cmdSshd_def Let_def) (simp_all add: str_def)
  then show ?thesis
    unfolding off_def on_def
    by (auto simp: applyListenerState_def Let_def law SSHD_PORT_TCP_def cliPrint_def)
qed

definition sample_settings :: "(string \<Rightarrow> int option) storage_api" where
  "sample_settings =
     \<lparr>storageGetStr = (\<lambda>st k d. d), storageGetInt = (\<lambda>st k d. case st k of None \<Rightarrow> d | Some v \<Rightarrow> v),
      storageArrayCount = (\<lambda>st k. 0), storageSetStr = (\<lambda>k v st. st), storageSetInt = (\<lambda>k v st. st(k \<mapsto> v)),
      storageUnset = (\<lambda>k st. st(k := None)), storageDeleteTree = (\<lambda>k st. st),
      storageDefaultStr = (\<lambda>k v st. st), storageDefaultInt = (\<lambda>k v st. st), storageDefaultTree = (\<lambda>k v st. st),
      storageBegin = (\<lambda>st. st), storageEnd = (\<lambda>st. st)\<rparr>"

theorem listener_follows_commands_witness:
  "storageGetInt sample_settings (s_store (applyListenerState sample_settings (cmdSshd sample_settings sample_crypto
     sample_platform (str ''enable'') (server_init (\<lambda>_. None) sample_world)))) ''s.net.sshd_port'' (-1) = 22"
proof -
  have laws: "int_laws sample_settings"
    by (simp add: int_laws_def sample_settings_def)
  have nohelp: "\<not> cliWantsHelp sample_platform (str ''enable'')" "\<not> cliWantsHelp sample_platform (str ''disable'')"
    by (simp_all add: sample_platform_def)
  show ?thesis
    using listener_follows_commands [OF laws nohelp, of sample_crypto "server_init (\<lambda>_. None) sample_world"]
    by (simp add: server_init_def sample_settings_def)
qed

end
