(* ===== verification/ClientCli.thy ===== *)
theory ClientCli
  imports ClientSession Server
begin

text \<open>
  The command line of the outbound client, \<open>esp-idf/src/ssh_client.cpp\<close>: the arguments and
  the job of \<open>ssh\<close>, the relay between the terminal and the worker with its escape \<open>..!\<close>, the
  key commands and the initialisation.

  The worker is the function \<open>worker\<close> from the job as the command hands it over to the job as
  it is when \<open>done\<close> is seen (\<open>worker_round\<close> of theory \<open>ClientSession\<close>).
\<close>

section \<open>Surroundings of the command\<close>

record 'st shell =
  sh_store :: 'st
  sh_world :: world
  sh_worker :: bool
  sh_spawn_ok :: bool
  sh_mutex_free :: bool
  sh_out_ok :: bool
  sh_in_ok :: bool
  sh_line_ans :: "bytes option"
  sh_out_ans :: "nat \<Rightarrow> bytes"
  sh_out_cnt :: nat
  sh_done_ans :: "nat \<Rightarrow> bool"
  sh_done_cnt :: nat
  sh_raw_ans :: "nat \<Rightarrow> bytes option"
  sh_raw_cnt :: nat
  sh_in_ans :: "nat \<Rightarrow> nat"
  sh_in_cnt :: nat
  sh_in :: bytes
  sh_close :: bool

definition sh_print :: "bytes \<Rightarrow> 'st shell \<Rightarrow> 'st shell" where
  "sh_print b h = h\<lparr>sh_world := emit (Print b) (sh_world h)\<rparr>"

text \<open>\<open>cliWrite\<close> of what one read of the output pipe gave, if anything.\<close>

definition relay_out :: "nat \<Rightarrow> 'st shell \<Rightarrow> bytes \<times> 'st shell" where
  "relay_out n h =
     (let got = take n (sh_out_ans h (sh_out_cnt h)); h1 = h\<lparr>sh_out_cnt := sh_out_cnt h + 1\<rparr>
      in (got, if got = [] then h1 else sh_print got h1))"

definition read_done :: "'st shell \<Rightarrow> bool \<times> 'st shell" where
  "read_done h = (sh_done_ans h (sh_done_cnt h), h\<lparr>sh_done_cnt := sh_done_cnt h + 1\<rparr>)"

section \<open>Keys\<close>

definition openssh_pubkey_line :: "crypto \<Rightarrow> bytes \<Rightarrow> bytes" where
  "openssh_pubkey_line c pub =
     (case mbedtls_base64_encode (mbed c) 120 (client_pk_blob pub) of
        None \<Rightarrow> []
      | Some b64 \<Rightarrow> str ''ssh-ed25519 '' @ b64)"

definition privkey_key :: string where "privkey_key = ''secrets.ssh.privkey''"

definition load_user_seed :: "'st storage_api \<Rightarrow> crypto \<Rightarrow> 'st \<Rightarrow> bytes option" where
  "load_user_seed a c st =
     (let b64 = storageGetStr a st privkey_key [] in
      if b64 = [] then None
      else case mbedtls_base64_decode (mbed c) 32 b64 of
             None \<Rightarrow> None
           | Some seed \<Rightarrow> if length seed \<noteq> 32 then None else Some seed)"

section \<open>Arguments\<close>

definition skipws :: "bytes \<Rightarrow> bytes" where
  "skipws r = dropWhile (\<lambda>b. b = 32) r"

definition token :: "bytes \<Rightarrow> bytes \<times> bytes" where
  "token r = (takeWhile (\<lambda>b. b \<noteq> 32) (skipws r), dropWhile (\<lambda>b. b \<noteq> 32) (skipws r))"

lemma token_shorter: "skipws r \<noteq> [] \<Longrightarrow> length (snd (token r)) < length r"
proof -
  assume ne: "skipws r \<noteq> []"
  then have "hd (skipws r) \<noteq> 32"
    unfolding skipws_def by (rule hd_dropWhile)
  then have "length (snd (token r)) < length (skipws r)"
    using ne by (cases "skipws r") (auto simp: token_def intro: le_imp_less_Suc length_dropWhile_le)
  also have "\<dots> \<le> length r"
    by (simp add: skipws_def length_dropWhile_le)
  finally show ?thesis .
qed

lemma token_le: "length (snd (token r)) \<le> length r"
  using length_dropWhile_le [of "\<lambda>b. b \<noteq> 32" "skipws r"] length_dropWhile_le [of "\<lambda>b. b = 32" r]
  by (simp add: token_def skipws_def)

text \<open>The options and the target: an unknown option, or the port, the target and what follows it.\<close>

function parse_target :: "u16 \<Rightarrow> bytes \<Rightarrow> bytes + u16 \<times> bytes \<times> bytes" where
  "parse_target port args =
     (let r = skipws args in
      if r = [] then Inr (port, [], [])
      else if hd r = of_char (CHR ''-'') then
        (let (opt, r1) = token args in
         if opt = str ''-p''
         then let (pv, r2) = token r1
              in parse_target (if pv \<noteq> [] then ucast (atoi pv) else port) r2
         else Inl opt)
      else let (target, r1) = token args in Inr (port, target, r1))"
  by pat_completeness auto
termination
proof (relation "measure (\<lambda>(port, args). length args)")
  fix port :: u16 and args r :: bytes and tk opt r1 tk1 pv r2
  assume "r = skipws args" and "r \<noteq> []" and "tk = token args" and "(opt, r1) = tk" and "tk1 = token r1" and "(pv, r2) = tk1"
  then have "length r1 < length args" and "length r2 \<le> length r1"
    using token_shorter [of args] token_le [of r1] by (metis snd_conv)+
  then show "((if pv \<noteq> [] then ucast (atoi pv) else port, r2), port, args) \<in> measure (\<lambda>(port, args). length args)"
    by simp
qed simp

declare parse_target.simps [simp del]

text \<open>\<open>user@host\<close>, with the default user otherwise.\<close>

definition split_at :: "bytes \<Rightarrow> bytes \<Rightarrow> bytes \<times> bytes" where
  "split_at dflt target =
     (let u = takeWhile (\<lambda>b. b \<noteq> of_char (CHR ''@'')) target
      in if length u = length target then (dflt, target) else (u, drop (length u + 1) target))"

definition new_job :: "u16 \<Rightarrow> sshJob" where
  "new_job port =
     \<lparr>j_host = [], j_port = port, j_user = [], j_haveCmd = False, j_command = [], j_havePassword = False, j_password = [],
      j_tryPubkey = False, j_seed = replicate 32 0, j_hasOut = False, j_hasIn = False, j_userClose = False, j_done = False,
      j_rc = 1, j_msg = [], j_haveExit = False, j_exitStatus = 0\<rparr>"

text \<open>The job the arguments describe, or the message that ends the command.\<close>

definition args_job :: "'st storage_api \<Rightarrow> 'st \<Rightarrow> bytes \<Rightarrow> bytes + sshJob" where
  "args_job a st args =
     (case parse_target (word_of_int (storageGetInt a st ''s.ssh.port'' 22)) args of
        Inl opt \<Rightarrow> Inl (str ''ssh: unknown option '' @ opt @ nl)
      | Inr (port, target, rest) \<Rightarrow>
          if target = [] then Inl (str ''usage: ssh [user@]host [command]'' @ nl)
          else let command = skipws rest;
                   (usr, host) = split_at (storageGetStr a st ''s.ssh.user'' (str ''root'')) target
               in if host = [] then Inl (str ''ssh: empty host'' @ nl)
                  else Inr ((new_job port)\<lparr>j_command := command, j_haveCmd := command \<noteq> [],
                         j_user := safeStrncpy 64 usr, j_host := safeStrncpy 96 host\<rparr>))"

text \<open>The authentication material that is configured.\<close>

definition add_credentials :: "'st storage_api \<Rightarrow> crypto \<Rightarrow> 'st \<Rightarrow> sshJob \<Rightarrow> sshJob" where
  "add_credentials a c st j =
     (let j1 = (case load_user_seed a c st of None \<Rightarrow> j | Some seed \<Rightarrow> j\<lparr>j_seed := seed, j_tryPubkey := True\<rparr>);
          pw = storageGetStr a st ''s.ssh.password'' []
      in if pw \<noteq> [] then j1\<lparr>j_password := pw, j_havePassword := True\<rparr> else j1)"

text \<open>
  With neither, the user is asked: the job with the password, or the message that ends the
  command.
\<close>

definition ask_password :: "sshJob \<Rightarrow> 'st shell \<Rightarrow> (bytes + sshJob) \<times> 'st shell" where
  "ask_password j h =
     (if j_havePassword j \<or> j_tryPubkey j then (Inr j, h)
      else let h1 = sh_print (j_user j @ str ''@'' @ j_host j @ [39] @ str ''s password: '') h in
           case sh_line_ans h of
             None \<Rightarrow> (Inl (str ''ssh: cancelled'' @ nl), h1)
           | Some pw \<Rightarrow>
               if pw = [] then (Inl (str ''ssh: no password entered'' @ nl), h1)
               else (Inr (j\<lparr>j_password := pw, j_havePassword := True\<rparr>), h1))"

section \<open>The escape\<close>

definition kEsc :: bytes where "kEsc = str ''..!''"

record relay =
  r_fwd :: bytes
  r_atLineStart :: bool
  r_escMatch :: nat
  r_close :: bool

text \<open>A character that no escape has withheld.\<close>

definition relay_plain :: "byte \<Rightarrow> relay \<Rightarrow> relay" where
  "relay_plain ch r =
     (if r_atLineStart r \<and> ch = kEsc ! 0 then r\<lparr>r_escMatch := 1\<rparr>
      else r\<lparr>r_fwd := r_fwd r @ [ch], r_atLineStart := (ch = 13 \<or> ch = 10)\<rparr>)"

fun relay_chars :: "bytes \<Rightarrow> relay \<Rightarrow> relay" where
  "relay_chars [] r = r"
| "relay_chars (ch # rest) r =
     (if r_escMatch r \<noteq> 0 then
        (if ch = kEsc ! r_escMatch r then
           (if r_escMatch r + 1 = length kEsc then r\<lparr>r_escMatch := r_escMatch r + 1, r_close := True\<rparr>
            else relay_chars rest (r\<lparr>r_escMatch := r_escMatch r + 1\<rparr>))
         else relay_chars rest (relay_plain ch
                (r\<lparr>r_fwd := r_fwd r @ take (r_escMatch r) kEsc, r_escMatch := 0, r_atLineStart := False\<rparr>)))
      else relay_chars rest (relay_plain ch r))"

section \<open>The relay loops\<close>

partial_function (option) drain_out :: "'st shell \<Rightarrow> 'st shell option" where
  "drain_out h = (let (got, h1) = relay_out 512 h in if got = [] then Some h1 else drain_out h1)"

partial_function (option) exec_relay :: "'st shell \<Rightarrow> 'st shell option" where
  "exec_relay h =
     (let (got, h1) = relay_out 512 h; (fin, h2) = read_done h1
      in if fin then drain_out h2 else exec_relay h2)"

partial_function (option) await_done :: "'st shell \<Rightarrow> 'st shell option" where
  "await_done h =
     (let (fin, h1) = read_done h
      in if fin then drain_out h1 else await_done (snd (relay_out 512 h1)))"

definition cliReadRaw :: "nat \<Rightarrow> 'st shell \<Rightarrow> bytes option \<times> 'st shell" where
  "cliReadRaw n h = (map_option (take n) (sh_raw_ans h (sh_raw_cnt h)), h\<lparr>sh_raw_cnt := sh_raw_cnt h + 1\<rparr>)"

text \<open>The keystrokes for the worker: as many as its buffer takes, the rest is dropped.\<close>

definition send_keys :: "bytes \<Rightarrow> 'st shell \<Rightarrow> 'st shell" where
  "send_keys fwd h =
     (if fwd = [] then h
      else h\<lparr>sh_in := sh_in h @ take (sh_in_ans h (sh_in_cnt h)) fwd, sh_in_cnt := sh_in_cnt h + 1\<rparr>)"

partial_function (option) shell_relay :: "bool \<Rightarrow> nat \<Rightarrow> 'st shell \<Rightarrow> 'st shell option" where
  "shell_relay atLineStart escMatch h =
     (let (got, h1) = relay_out 512 h; (fin, h2) = read_done h1 in
      if fin then drain_out h2
      else let (ib, h3) = cliReadRaw 128 h2 in
           case ib of
             None \<Rightarrow> shell_relay atLineStart escMatch (h3\<lparr>sh_close := True\<rparr>)
           | Some ib \<Rightarrow>
               if ib = [] then shell_relay atLineStart escMatch h3
               else let r = relay_chars ib \<lparr>r_fwd = [], r_atLineStart = atLineStart, r_escMatch = escMatch, r_close = False\<rparr>;
                        h4 = send_keys (r_fwd r) (h3\<lparr>sh_close := sh_close h3 \<or> r_close r\<rparr>)
                    in if sh_close h4 then await_done h4
                       else shell_relay (r_atLineStart r) (r_escMatch r) h4)"

section \<open>The command\<close>

definition ssh_help :: "platform \<Rightarrow> 'st shell \<Rightarrow> 'st shell" where
  "ssh_help pf h =
     sh_print (str ''auth: publickey from secrets.ssh.privkey (run ssh-keygen), else s.ssh.password'' @ nl)
       (sh_print (help_line pf ''  -p <port>'' ''port override (default s.ssh.port / 22)'')
         (sh_print (help_line pf ''ssh [user@]host [cmd]'' ''connect, auth, run <cmd> (or a login shell), stream output'') h))"

definition report :: "sshJob \<Rightarrow> 'st shell \<Rightarrow> 'st shell" where
  "report j h =
     (let h1 = (if c_str (j_msg j) = [] then h else sh_print (nl @ c_str (j_msg j) @ nl) h)
      in if j_rc j = 0 \<and> j_haveExit j \<and> j_exitStatus j \<noteq> 0
         then sh_print (str ''ssh: remote exit status '' @ str (dec (unat (j_exitStatus j))) @ nl) h1 else h1)"

text \<open>With the job ready: the worker, the mutex, the two pipes, the relay and the report.\<close>

definition ssh_run :: "(sshJob \<Rightarrow> sshJob) \<Rightarrow> sshJob \<Rightarrow> 'st shell \<Rightarrow> 'st shell option" where
  "ssh_run worker j h =
     (if \<not> sh_worker h \<and> \<not> sh_spawn_ok h then Some (sh_print (str ''ssh: cannot start worker'' @ nl) h)
      else let h1 = h\<lparr>sh_worker := True\<rparr> in
      if \<not> sh_mutex_free h1 then Some (sh_print (str ''ssh: a session is already in progress'' @ nl) h1)
      else let h2 = h1\<lparr>sh_mutex_free := False\<rparr>; interactive = (\<not> j_haveCmd j) in
      if \<not> sh_out_ok h2 \<or> (interactive \<and> \<not> sh_in_ok h2)
      then Some ((sh_print (str ''ssh: out of memory'' @ nl) h2)\<lparr>sh_mutex_free := True\<rparr>)
      else let j1 = j\<lparr>j_hasOut := True, j_hasIn := interactive\<rparr>;
               h3 = sh_print (str ''ssh: connecting to '' @ j_user j1 @ str ''@'' @ j_host j1 @ str '':'' @
                      str (dec (unat (j_port j1))) @ str '' ...'' @ nl) (h2\<lparr>sh_in := [], sh_close := False\<rparr>)
           in do {
             h4 \<leftarrow> (if \<not> interactive then exec_relay h3
                    else shell_relay True 0 (sh_print (str ''Connected!  ('' @ [39] @ kEsc @ [39] @
                           str '' on a new line disconnects)'' @ [13, 10]) h3));
             Some (report (worker j1) (h4\<lparr>sh_mutex_free := True\<rparr>))
           })"

definition cmd_ssh :: "'st storage_api \<Rightarrow> crypto \<Rightarrow> platform \<Rightarrow> (sshJob \<Rightarrow> sshJob) \<Rightarrow> bytes \<Rightarrow> 'st shell \<Rightarrow> 'st shell option" where
  "cmd_ssh a c pf worker arg h =
     (if arg = str ''help'' then Some (sh_print (help_line pf ''ssh [user@]host [cmd]'' ''SSH to a host and run a command'') h)
      else if cliWantsHelp pf arg then Some (ssh_help pf h)
      else case args_job a (sh_store h) arg of
             Inl msg \<Rightarrow> Some (sh_print msg h)
           | Inr j0 \<Rightarrow>
               (case ask_password (add_credentials a c (sh_store h) j0) h of
                  (Inl msg, h1) \<Rightarrow> Some (sh_print msg h1)
                | (Inr j, h1) \<Rightarrow> ssh_run worker j h1))"

section \<open>Key commands and initialisation\<close>

definition hostname_of :: "'st storage_api \<Rightarrow> 'st \<Rightarrow> bytes" where
  "hostname_of a st = take 47 (c_str (storageGetStr a st ''s.net.hostname'' (str ''spangap'')))"

definition cmd_ssh_keygen :: "'st storage_api \<Rightarrow> crypto \<Rightarrow> platform \<Rightarrow> bytes \<Rightarrow> 'st shell \<Rightarrow> 'st shell" where
  "cmd_ssh_keygen a c pf arg h =
     (if cliWantsHelp pf arg
      then sh_print (help_line pf ''ssh-keygen'' ''generate a new Ed25519 user key (secrets.ssh.privkey + s.ssh.pubkey)'') h
      else let (seed, w) = randomBytes 32 (sh_world h); h1 = h\<lparr>sh_world := w\<rparr> in
           case mbedtls_base64_encode (mbed c) 64 seed of
             None \<Rightarrow> sh_print (str ''ssh-keygen: base64 failed'' @ nl) h1
           | Some b64 \<Rightarrow>
               (case ed25519_pub_from_seed c seed of
                  None \<Rightarrow> sh_print (str ''ssh-keygen: keygen failed'' @ nl) h1
                | Some pub \<Rightarrow>
                    let line = openssh_pubkey_line c pub in
                    if line = [] then sh_print (str ''ssh-keygen: encode failed'' @ nl) h1
                    else let st1 = storageSetStr a privkey_key (c_str b64) (storageBegin a (sh_store h1));
                             st2 = storageEnd a (storageSetStr a ''s.ssh.pubkey'' (c_str line) st1);
                             h2 = h1\<lparr>sh_store := st2\<rparr>
                         in sh_print (c_str line @ [32] @ hostname_of a st2 @ nl)
                              (sh_print (str ''new user key generated.'' @ nl) h2)))"

definition cmd_ssh_showkey :: "'st storage_api \<Rightarrow> platform \<Rightarrow> bytes \<Rightarrow> 'st shell \<Rightarrow> 'st shell" where
  "cmd_ssh_showkey a pf arg h =
     (if cliWantsHelp pf arg
      then sh_print (help_line pf ''ssh-showkey'' ''print the public user key (s.ssh.pubkey)'') h
      else let line = storageGetStr a (sh_store h) ''s.ssh.pubkey'' [] in
           if line = [] then sh_print (str ''(no user key '' @ dash @ str '' run ssh-keygen)'' @ nl) h
           else sh_print (c_str line @ [32] @ hostname_of a (sh_store h) @ nl) h)"

text \<open>The defaults; the semaphores are the flags of the shell.\<close>

definition sshClientInit :: "'st storage_api \<Rightarrow> 'st shell \<Rightarrow> 'st shell" where
  "sshClientInit a h =
     (let st1 = storageDefaultInt a ''s.ssh.port'' 22 (storageBegin a (sh_store h));
          st2 = storageDefaultTree a ''s.ssh'' (str ''{'' @ [34] @ str ''known_hosts'' @ [34] @ str '':[]}'') st1
      in h\<lparr>sh_store := storageEnd a st2, sh_worker := False, sh_mutex_free := True\<rparr>)"

section \<open>The escape, specified\<close>

text \<open>The escape typed at the start of a line.\<close>

definition line_start :: "bytes \<Rightarrow> bool" where
  "line_start pre \<longleftrightarrow> pre = [] \<or> last pre \<in> {10, 13}"

definition escapes :: "bytes \<Rightarrow> bool" where
  "escapes typed \<longleftrightarrow> (\<exists>pre rest. typed = pre @ kEsc @ rest \<and> line_start pre)"

text \<open>
  The state after the characters typed so far: what was forwarded and what is withheld make
  up all of them, the withheld ones being a proper beginning of the escape at a line start.
\<close>

definition relay_ok :: "bytes \<Rightarrow> relay \<Rightarrow> bool" where
  "relay_ok typed r \<longleftrightarrow>
     typed = r_fwd r @ take (r_escMatch r) kEsc \<and> r_escMatch r < 3 \<and> \<not> r_close r \<and>
     (r_atLineStart r \<longleftrightarrow> line_start (r_fwd r)) \<and> (r_escMatch r \<noteq> 0 \<longrightarrow> r_atLineStart r)"

definition relay_closed :: "bytes \<Rightarrow> relay \<Rightarrow> bool" where
  "relay_closed typed r \<longleftrightarrow> r_close r \<and> line_start (r_fwd r) \<and> (\<exists>rest. typed = r_fwd r @ kEsc @ rest)"

lemma kEsc_eq: "kEsc = [46, 46, 33]"
  by (simp add: kEsc_def str_def)

lemma relay_plain_ok:
  assumes "relay_ok typed r" and "r_escMatch r = 0"
  shows "relay_ok (typed @ [ch]) (relay_plain ch r)"
  using assms by (auto simp: relay_ok_def relay_plain_def kEsc_eq line_start_def)

lemma relay_chars_ok:
  "relay_ok typed r \<Longrightarrow>
     relay_ok (typed @ chs) (relay_chars chs r) \<or> relay_closed (typed @ chs) (relay_chars chs r)"
proof (induction chs r arbitrary: typed rule: relay_chars.induct)
  case (2 ch rest r)
  show ?case
  proof (cases "r_escMatch r = 0")
    case True
    then show ?thesis
      using 2(3) [of "typed @ [ch]"] relay_plain_ok [OF 2(4) True, of ch] by simp
  next
    case False
    then have m: "r_escMatch r = 1 \<or> r_escMatch r = 2" and ls: "r_atLineStart r" "line_start (r_fwd r)"
      using 2(4) by (auto simp: relay_ok_def)
    show ?thesis
    proof (cases "ch = kEsc ! r_escMatch r")
      case True
      with m show ?thesis
        using 2(1) [of "typed @ [ch]"] 2(4) False ls by (auto simp: relay_ok_def relay_closed_def kEsc_eq)
    next
      case neq: False
      let ?r = "r\<lparr>r_fwd := r_fwd r @ take (r_escMatch r) kEsc, r_escMatch := 0, r_atLineStart := False\<rparr>"
      have "relay_ok typed ?r"
        using 2(4) m by (auto simp: relay_ok_def line_start_def kEsc_eq)
      then have "relay_ok (typed @ [ch]) (relay_plain ch ?r)"
        by (rule relay_plain_ok) simp
      then show ?thesis
        using 2(2) [of "typed @ [ch]"] False neq by simp
    qed
  qed
qed simp

lemma relay_chars_append:
  "\<not> r_close r \<Longrightarrow> relay_chars (xs @ ys) r =
     (if r_close (relay_chars xs r) then relay_chars xs r else relay_chars ys (relay_chars xs r))"
  by (induction xs r rule: relay_chars.induct) (auto simp: relay_plain_def)

text \<open>What was forwarded before does not matter: each read of the terminal starts an empty text.\<close>

lemma relay_chars_fwd:
  "relay_chars chs \<lparr>r_fwd = pre @ f, r_atLineStart = ls, r_escMatch = m, r_close = x\<rparr> =
     (let r = relay_chars chs \<lparr>r_fwd = f, r_atLineStart = ls, r_escMatch = m, r_close = x\<rparr> in r\<lparr>r_fwd := pre @ r_fwd r\<rparr>)"
  by (induction chs arbitrary: f ls m x) (simp_all add: relay_plain_def Let_def)

definition relay_start :: relay where
  "relay_start = \<lparr>r_fwd = [], r_atLineStart = True, r_escMatch = 0, r_close = False\<rparr>"

lemma relay_start_ok: "relay_ok [] relay_start"
  by (simp add: relay_ok_def relay_start_def line_start_def)

lemma escapes_closes:
  assumes "escapes typed"
  shows "r_close (relay_chars typed relay_start)"
proof -
  obtain pre rest where typed: "typed = pre @ kEsc @ rest" and ls: "line_start pre"
    using assms by (auto simp: escapes_def)
  let ?r = "relay_chars pre relay_start"
  have start: "\<not> r_close relay_start"
    by (simp add: relay_start_def)
  show ?thesis
  proof (cases "r_close ?r")
    case True
    then show ?thesis
      using relay_chars_append [OF start, of pre "kEsc @ rest"] by (simp add: typed)
  next
    case False
    then have ok: "relay_ok pre ?r"
      using relay_chars_ok [OF relay_start_ok, of pre] by (auto simp: relay_closed_def)
    have "r_escMatch ?r = 0"
    proof (rule ccontr)
      assume "r_escMatch ?r \<noteq> 0"
      with ok have "r_escMatch ?r = 1 \<or> r_escMatch ?r = 2" and "pre = r_fwd ?r @ take (r_escMatch ?r) kEsc"
        by (auto simp: relay_ok_def)
      then have "pre = r_fwd ?r @ [46] \<or> pre = (r_fwd ?r @ [46]) @ [46]"
        by (auto simp: kEsc_eq)
      then obtain x where "pre = x @ [46]"
        by blast
      with ls show False
        by (simp add: line_start_def)
    qed
    moreover from this ok ls have "r_atLineStart ?r"
      by (simp add: relay_ok_def)
    ultimately have "r_close (relay_chars (kEsc @ rest) ?r)"
      by (simp add: kEsc_eq relay_plain_def)
    then show ?thesis
      using relay_chars_append [OF start, of pre "kEsc @ rest"] False by (simp add: typed)
  qed
qed

section \<open>Properties of the command\<close>

text \<open>
  C26: The escape of the interactive relay is exact: the session is closed if and only if
  \<open>..!\<close> was typed at the start of a line; before that every character typed is forwarded in
  order, except that an unfinished beginning of the escape is still withheld; on closing, what
  was forwarded is everything before the escape; and it does not matter how the terminal cuts
  the characters into reads.
\<close>

theorem escape_relay_exact:
  "(let r = relay_chars typed relay_start in
     (r_close r \<longleftrightarrow> escapes typed) \<and>
     (if r_close r then line_start (r_fwd r) \<and> (\<exists>rest. typed = r_fwd r @ kEsc @ rest)
      else typed = r_fwd r @ take (r_escMatch r) kEsc \<and> r_escMatch r \<le> 2)) \<and>
   fold (\<lambda>chunk r. if r_close r then r else relay_chars chunk r) chunks relay_start = relay_chars (concat chunks) relay_start"
proof -
  have "(r_close (relay_chars typed relay_start) \<longleftrightarrow> escapes typed) \<and>
     (if r_close (relay_chars typed relay_start)
      then line_start (r_fwd (relay_chars typed relay_start)) \<and>
        (\<exists>rest. typed = r_fwd (relay_chars typed relay_start) @ kEsc @ rest)
      else typed = r_fwd (relay_chars typed relay_start) @ take (r_escMatch (relay_chars typed relay_start)) kEsc \<and>
        r_escMatch (relay_chars typed relay_start) \<le> 2)"
    using relay_chars_ok [OF relay_start_ok, of typed] escapes_closes [of typed]
    by (auto simp: relay_ok_def relay_closed_def escapes_def)
  moreover have "fold (\<lambda>chunk r. if r_close r then r else relay_chars chunk r) chunks r =
      (if r_close r then r else relay_chars (concat chunks) r)" for r
    by (induction chunks arbitrary: r) (auto simp: relay_chars_append)
  moreover have "\<not> r_close relay_start"
    by (simp add: relay_start_def)
  ultimately show ?thesis
    unfolding Let_def by simp
qed

end
