(* ===== verification/Field.thy ===== *)
theory Field
  imports Prelude
begin

text \<open>
  The field of Ed25519 (\<open>orlp_ed25519/fe.c\<close>): integers modulo $2^{255} - 19$ as ten signed
  32-bit limbs of alternately 26 and 25 bits.  The operations are translated at the width of
  the C code, products and carries in 64-bit words that wrap; a limb list is read as an integer
  by \<open>fe_val\<close>.  Bounds on the limbs are lists of numbers, and every carry step has an abstract
  counterpart on bounds, so that "no intermediate value overflows" is evaluated along a whole
  carry chain.  Shifts of negative C integers are arithmetic, as the compilers of the target do.
\<close>

type_synonym i32 = "32 word"
type_synonym i64 = "64 word"
type_synonym fe = "i32 list"

section \<open>The operations\<close>

definition fe_0 :: fe where
  "fe_0 = [0, 0, 0, 0, 0, 0, 0, 0, 0, 0]"

definition fe_1 :: fe where
  "fe_1 = [1, 0, 0, 0, 0, 0, 0, 0, 0, 0]"

definition fe_add :: "fe \<Rightarrow> fe \<Rightarrow> fe" where
  "fe_add f g = map2 (+) f g"

definition fe_sub :: "fe \<Rightarrow> fe \<Rightarrow> fe" where
  "fe_sub f g = map2 (-) f g"

definition fe_neg :: "fe \<Rightarrow> fe" where
  "fe_neg f = map uminus f"

definition fe_copy :: "fe \<Rightarrow> fe" where
  "fe_copy f = map (\<lambda>f0. f0) f"

text \<open>The mask is \<open>- b\<close>, all ones for \<open>b = 1\<close>.\<close>

definition fe_cmov :: "fe \<Rightarrow> fe \<Rightarrow> u32 \<Rightarrow> fe" where
  "fe_cmov f g b = map2 (\<lambda>f0 g0. let x0 = f0 XOR g0; m = - b; x1 = x0 AND m in f0 XOR x1) f g"

definition fe_cswap :: "fe \<Rightarrow> fe \<Rightarrow> u32 \<Rightarrow> fe \<times> fe" where
  "fe_cswap f g b =
     (let m = - b; x = map2 (\<lambda>f0 g0. (f0 XOR g0) AND m) f g in (map2 (XOR) f x, map2 (XOR) g x))"

text \<open>
  One carry of the C code: \<open>carry = (h[i] + (1 << (w - 1))) >> w; h[i + 1] += carry;
  h[i] -= carry << w\<close>, where the carry out of limb 9 goes to limb 0 times 19.
\<close>

definition limb_width :: "nat \<Rightarrow> nat" where
  "limb_width i = (if even i then 26 else 25)"

definition carry_limb :: "nat \<Rightarrow> i64 list \<Rightarrow> i64 list" where
  "carry_limb i h =
     (let w = limb_width i;
          carry = signed_drop_bit w (h ! i + push_bit (w - 1) 1);
          h' = (if i = 9 then h[0 := h ! 0 + carry * 19] else h[i + 1 := h ! (i + 1) + carry])
      in h'[i := h' ! i - push_bit w carry])"

text \<open>The orders in which the source carries: after a product, and after bytes or a scaling.\<close>

definition product_carries :: "nat list" where
  "product_carries = [0, 4, 1, 5, 2, 6, 3, 7, 4, 8, 9, 0]"

definition plain_carries :: "nat list" where
  "plain_carries = [9, 1, 3, 5, 7, 0, 2, 4, 6, 8]"

definition narrow :: "i64 list \<Rightarrow> fe" where
  "narrow h = map ucast h"

definition fe_mul_products :: "fe \<Rightarrow> fe \<Rightarrow> i64 list" where
  "fe_mul_products f g =
     (let f0 = f ! 0; f1 = f ! 1; f2 = f ! 2; f3 = f ! 3; f4 = f ! 4; f5 = f ! 5; f6 = f ! 6; f7 = f ! 7; f8 = f ! 8; f9 = f ! 9;
        g0 = g ! 0; g1 = g ! 1; g2 = g ! 2; g3 = g ! 3; g4 = g ! 4; g5 = g ! 5; g6 = g ! 6; g7 = g ! 7; g8 = g ! 8; g9 = g ! 9;
        g1_19 = 19 * g1; g2_19 = 19 * g2; g3_19 = 19 * g3; g4_19 = 19 * g4; g5_19 = 19 * g5; g6_19 = 19 * g6; g7_19 = 19 * g7;
        g8_19 = 19 * g8; g9_19 = 19 * g9; f1_2 = 2 * f1; f3_2 = 2 * f3; f5_2 = 2 * f5; f7_2 = 2 * f7; f9_2 = 2 * f9;
        f0g0 = scast f0 * scast g0; f0g1 = scast f0 * scast g1; f0g2 = scast f0 * scast g2; f0g3 = scast f0 * scast g3;
        f0g4 = scast f0 * scast g4; f0g5 = scast f0 * scast g5; f0g6 = scast f0 * scast g6; f0g7 = scast f0 * scast g7;
        f0g8 = scast f0 * scast g8; f0g9 = scast f0 * scast g9; f1g0 = scast f1 * scast g0; f1g1_2 = scast f1_2 * scast g1;
        f1g2 = scast f1 * scast g2; f1g3_2 = scast f1_2 * scast g3; f1g4 = scast f1 * scast g4; f1g5_2 = scast f1_2 * scast g5;
        f1g6 = scast f1 * scast g6; f1g7_2 = scast f1_2 * scast g7; f1g8 = scast f1 * scast g8; f1g9_38 = scast f1_2 * scast g9_19;
        f2g0 = scast f2 * scast g0; f2g1 = scast f2 * scast g1; f2g2 = scast f2 * scast g2; f2g3 = scast f2 * scast g3;
        f2g4 = scast f2 * scast g4; f2g5 = scast f2 * scast g5; f2g6 = scast f2 * scast g6; f2g7 = scast f2 * scast g7;
        f2g8_19 = scast f2 * scast g8_19; f2g9_19 = scast f2 * scast g9_19; f3g0 = scast f3 * scast g0;
        f3g1_2 = scast f3_2 * scast g1; f3g2 = scast f3 * scast g2; f3g3_2 = scast f3_2 * scast g3; f3g4 = scast f3 * scast g4;
        f3g5_2 = scast f3_2 * scast g5; f3g6 = scast f3 * scast g6; f3g7_38 = scast f3_2 * scast g7_19;
        f3g8_19 = scast f3 * scast g8_19; f3g9_38 = scast f3_2 * scast g9_19; f4g0 = scast f4 * scast g0; f4g1 = scast f4 * scast g1;
        f4g2 = scast f4 * scast g2; f4g3 = scast f4 * scast g3; f4g4 = scast f4 * scast g4; f4g5 = scast f4 * scast g5;
        f4g6_19 = scast f4 * scast g6_19; f4g7_19 = scast f4 * scast g7_19; f4g8_19 = scast f4 * scast g8_19;
        f4g9_19 = scast f4 * scast g9_19; f5g0 = scast f5 * scast g0; f5g1_2 = scast f5_2 * scast g1; f5g2 = scast f5 * scast g2;
        f5g3_2 = scast f5_2 * scast g3; f5g4 = scast f5 * scast g4; f5g5_38 = scast f5_2 * scast g5_19;
        f5g6_19 = scast f5 * scast g6_19; f5g7_38 = scast f5_2 * scast g7_19; f5g8_19 = scast f5 * scast g8_19;
        f5g9_38 = scast f5_2 * scast g9_19; f6g0 = scast f6 * scast g0; f6g1 = scast f6 * scast g1; f6g2 = scast f6 * scast g2;
        f6g3 = scast f6 * scast g3; f6g4_19 = scast f6 * scast g4_19; f6g5_19 = scast f6 * scast g5_19;
        f6g6_19 = scast f6 * scast g6_19; f6g7_19 = scast f6 * scast g7_19; f6g8_19 = scast f6 * scast g8_19;
        f6g9_19 = scast f6 * scast g9_19; f7g0 = scast f7 * scast g0; f7g1_2 = scast f7_2 * scast g1; f7g2 = scast f7 * scast g2;
        f7g3_38 = scast f7_2 * scast g3_19; f7g4_19 = scast f7 * scast g4_19; f7g5_38 = scast f7_2 * scast g5_19;
        f7g6_19 = scast f7 * scast g6_19; f7g7_38 = scast f7_2 * scast g7_19; f7g8_19 = scast f7 * scast g8_19;
        f7g9_38 = scast f7_2 * scast g9_19; f8g0 = scast f8 * scast g0; f8g1 = scast f8 * scast g1; f8g2_19 = scast f8 * scast g2_19;
        f8g3_19 = scast f8 * scast g3_19; f8g4_19 = scast f8 * scast g4_19; f8g5_19 = scast f8 * scast g5_19;
        f8g6_19 = scast f8 * scast g6_19; f8g7_19 = scast f8 * scast g7_19; f8g8_19 = scast f8 * scast g8_19;
        f8g9_19 = scast f8 * scast g9_19; f9g0 = scast f9 * scast g0; f9g1_38 = scast f9_2 * scast g1_19;
        f9g2_19 = scast f9 * scast g2_19; f9g3_38 = scast f9_2 * scast g3_19; f9g4_19 = scast f9 * scast g4_19;
        f9g5_38 = scast f9_2 * scast g5_19; f9g6_19 = scast f9 * scast g6_19; f9g7_38 = scast f9_2 * scast g7_19;
        f9g8_19 = scast f9 * scast g8_19; f9g9_38 = scast f9_2 * scast g9_19;
        h0 = f0g0 + f1g9_38 + f2g8_19 + f3g7_38 + f4g6_19 + f5g5_38 + f6g4_19 + f7g3_38 + f8g2_19 + f9g1_38;
        h1 = f0g1 + f1g0 + f2g9_19 + f3g8_19 + f4g7_19 + f5g6_19 + f6g5_19 + f7g4_19 + f8g3_19 + f9g2_19;
        h2 = f0g2 + f1g1_2 + f2g0 + f3g9_38 + f4g8_19 + f5g7_38 + f6g6_19 + f7g5_38 + f8g4_19 + f9g3_38;
        h3 = f0g3 + f1g2 + f2g1 + f3g0 + f4g9_19 + f5g8_19 + f6g7_19 + f7g6_19 + f8g5_19 + f9g4_19;
        h4 = f0g4 + f1g3_2 + f2g2 + f3g1_2 + f4g0 + f5g9_38 + f6g8_19 + f7g7_38 + f8g6_19 + f9g5_38;
        h5 = f0g5 + f1g4 + f2g3 + f3g2 + f4g1 + f5g0 + f6g9_19 + f7g8_19 + f8g7_19 + f9g6_19;
        h6 = f0g6 + f1g5_2 + f2g4 + f3g3_2 + f4g2 + f5g1_2 + f6g0 + f7g9_38 + f8g8_19 + f9g7_38;
        h7 = f0g7 + f1g6 + f2g5 + f3g4 + f4g3 + f5g2 + f6g1 + f7g0 + f8g9_19 + f9g8_19;
        h8 = f0g8 + f1g7_2 + f2g6 + f3g5_2 + f4g4 + f5g3_2 + f6g2 + f7g1_2 + f8g0 + f9g9_38;
        h9 = f0g9 + f1g8 + f2g7 + f3g6 + f4g5 + f5g4 + f6g3 + f7g2 + f8g1 + f9g0
      in [h0, h1, h2, h3, h4, h5, h6, h7, h8, h9])"

definition fe_sq_products :: "fe \<Rightarrow> i64 list" where
  "fe_sq_products f =
     (let f0 = f ! 0; f1 = f ! 1; f2 = f ! 2; f3 = f ! 3; f4 = f ! 4; f5 = f ! 5; f6 = f ! 6; f7 = f ! 7; f8 = f ! 8; f9 = f ! 9;
        f0_2 = 2 * f0; f1_2 = 2 * f1; f2_2 = 2 * f2; f3_2 = 2 * f3; f4_2 = 2 * f4; f5_2 = 2 * f5; f6_2 = 2 * f6; f7_2 = 2 * f7;
        f5_38 = 38 * f5; f6_19 = 19 * f6; f7_38 = 38 * f7; f8_19 = 19 * f8; f9_38 = 38 * f9; f0f0 = scast f0 * scast f0;
        f0f1_2 = scast f0_2 * scast f1; f0f2_2 = scast f0_2 * scast f2; f0f3_2 = scast f0_2 * scast f3;
        f0f4_2 = scast f0_2 * scast f4; f0f5_2 = scast f0_2 * scast f5; f0f6_2 = scast f0_2 * scast f6;
        f0f7_2 = scast f0_2 * scast f7; f0f8_2 = scast f0_2 * scast f8; f0f9_2 = scast f0_2 * scast f9;
        f1f1_2 = scast f1_2 * scast f1; f1f2_2 = scast f1_2 * scast f2; f1f3_4 = scast f1_2 * scast f3_2;
        f1f4_2 = scast f1_2 * scast f4; f1f5_4 = scast f1_2 * scast f5_2; f1f6_2 = scast f1_2 * scast f6;
        f1f7_4 = scast f1_2 * scast f7_2; f1f8_2 = scast f1_2 * scast f8; f1f9_76 = scast f1_2 * scast f9_38;
        f2f2 = scast f2 * scast f2; f2f3_2 = scast f2_2 * scast f3; f2f4_2 = scast f2_2 * scast f4; f2f5_2 = scast f2_2 * scast f5;
        f2f6_2 = scast f2_2 * scast f6; f2f7_2 = scast f2_2 * scast f7; f2f8_38 = scast f2_2 * scast f8_19;
        f2f9_38 = scast f2 * scast f9_38; f3f3_2 = scast f3_2 * scast f3; f3f4_2 = scast f3_2 * scast f4;
        f3f5_4 = scast f3_2 * scast f5_2; f3f6_2 = scast f3_2 * scast f6; f3f7_76 = scast f3_2 * scast f7_38;
        f3f8_38 = scast f3_2 * scast f8_19; f3f9_76 = scast f3_2 * scast f9_38; f4f4 = scast f4 * scast f4;
        f4f5_2 = scast f4_2 * scast f5; f4f6_38 = scast f4_2 * scast f6_19; f4f7_38 = scast f4 * scast f7_38;
        f4f8_38 = scast f4_2 * scast f8_19; f4f9_38 = scast f4 * scast f9_38; f5f5_38 = scast f5 * scast f5_38;
        f5f6_38 = scast f5_2 * scast f6_19; f5f7_76 = scast f5_2 * scast f7_38; f5f8_38 = scast f5_2 * scast f8_19;
        f5f9_76 = scast f5_2 * scast f9_38; f6f6_19 = scast f6 * scast f6_19; f6f7_38 = scast f6 * scast f7_38;
        f6f8_38 = scast f6_2 * scast f8_19; f6f9_38 = scast f6 * scast f9_38; f7f7_38 = scast f7 * scast f7_38;
        f7f8_38 = scast f7_2 * scast f8_19; f7f9_76 = scast f7_2 * scast f9_38; f8f8_19 = scast f8 * scast f8_19;
        f8f9_38 = scast f8 * scast f9_38; f9f9_38 = scast f9 * scast f9_38;
        h0 = f0f0 + f1f9_76 + f2f8_38 + f3f7_76 + f4f6_38 + f5f5_38; h1 = f0f1_2 + f2f9_38 + f3f8_38 + f4f7_38 + f5f6_38;
        h2 = f0f2_2 + f1f1_2 + f3f9_76 + f4f8_38 + f5f7_76 + f6f6_19; h3 = f0f3_2 + f1f2_2 + f4f9_38 + f5f8_38 + f6f7_38;
        h4 = f0f4_2 + f1f3_4 + f2f2 + f5f9_76 + f6f8_38 + f7f7_38; h5 = f0f5_2 + f1f4_2 + f2f3_2 + f6f9_38 + f7f8_38;
        h6 = f0f6_2 + f1f5_4 + f2f4_2 + f3f3_2 + f7f9_76 + f8f8_19; h7 = f0f7_2 + f1f6_2 + f2f5_2 + f3f4_2 + f8f9_38;
        h8 = f0f8_2 + f1f7_4 + f2f6_2 + f3f5_4 + f4f4 + f9f9_38; h9 = f0f9_2 + f1f8_2 + f2f7_2 + f3f6_2 + f4f5_2
      in [h0, h1, h2, h3, h4, h5, h6, h7, h8, h9])"

definition fe_mul :: "fe \<Rightarrow> fe \<Rightarrow> fe" where
  "fe_mul f g = narrow (fold carry_limb product_carries (fe_mul_products f g))"

definition fe_sq :: "fe \<Rightarrow> fe" where
  "fe_sq f = narrow (fold carry_limb product_carries (fe_sq_products f))"

definition fe_sq2 :: "fe \<Rightarrow> fe" where
  "fe_sq2 f = narrow (fold carry_limb product_carries (map (\<lambda>h0. h0 + h0) (fe_sq_products f)))"

definition fe_mul121666 :: "fe \<Rightarrow> fe" where
  "fe_mul121666 f = narrow (fold carry_limb plain_carries (map (\<lambda>f0. scast f0 * 121666) f))"

text \<open>Bytes.  \<open>load_3\<close> and \<open>load_4\<close> read little-endian from an offset.\<close>

definition load_3 :: "bytes \<Rightarrow> nat \<Rightarrow> u64" where
  "load_3 s i = ucast (s ! i) OR push_bit 8 (ucast (s ! (i + 1))) OR push_bit 16 (ucast (s ! (i + 2)))"

definition load_4 :: "bytes \<Rightarrow> nat \<Rightarrow> u64" where
  "load_4 s i = ucast (s ! i) OR push_bit 8 (ucast (s ! (i + 1))) OR push_bit 16 (ucast (s ! (i + 2))) OR
     push_bit 24 (ucast (s ! (i + 3)))"

definition fe_load :: "bytes \<Rightarrow> i64 list" where
  "fe_load s = [load_4 s 0, push_bit 6 (load_3 s 4), push_bit 5 (load_3 s 7), push_bit 3 (load_3 s 10), push_bit 2 (load_3 s 13),
     load_4 s 16, push_bit 7 (load_3 s 20), push_bit 5 (load_3 s 23), push_bit 4 (load_3 s 26),
     push_bit 2 (load_3 s 29 AND 8388607)]"

definition fe_frombytes :: "bytes \<Rightarrow> fe" where
  "fe_frombytes s = narrow (fold carry_limb plain_carries (fe_load s))"

definition fe_quotient :: "fe \<Rightarrow> i32" where
  "fe_quotient h = fold (\<lambda>i q. signed_drop_bit (limb_width i) (h ! i + q)) [0..<10] (signed_drop_bit 25 (19 * h ! 9 + push_bit 24 1))"

definition floor_carry :: "nat \<Rightarrow> fe \<Rightarrow> fe" where
  "floor_carry i h =
     (let w = limb_width i; carry = signed_drop_bit w (h ! i);
          h' = (if i = 9 then h else h[i + 1 := h ! (i + 1) + carry])
      in h'[i := h' ! i - push_bit w carry])"

definition fe_reduce :: "fe \<Rightarrow> fe" where
  "fe_reduce h = fold floor_carry [0..<10] (h[0 := h ! 0 + 19 * fe_quotient h])"

definition fe_pack :: "fe \<Rightarrow> bytes" where
  "fe_pack h = (let h0 = h ! 0; h1 = h ! 1; h2 = h ! 2; h3 = h ! 3; h4 = h ! 4;
       h5 = h ! 5; h6 = h ! 6; h7 = h ! 7; h8 = h ! 8; h9 = h ! 9; shr = signed_drop_bit; shl = push_bit in
     map ucast
      [shr 0 h0, shr 8 h0, shr 16 h0, shr 24 h0 OR shl 2 h1, shr 6 h1, shr 14 h1, shr 22 h1 OR shl 3 h2, shr 5 h2,
       shr 13 h2, shr 21 h2 OR shl 5 h3, shr 3 h3, shr 11 h3, shr 19 h3 OR shl 6 h4, shr 2 h4, shr 10 h4, shr 18 h4,
       shr 0 h5, shr 8 h5, shr 16 h5, shr 24 h5 OR shl 1 h6, shr 7 h6, shr 15 h6, shr 23 h6 OR shl 3 h7, shr 5 h7,
       shr 13 h7, shr 21 h7 OR shl 4 h8, shr 4 h8, shr 12 h8, shr 20 h8 OR shl 6 h9, shr 2 h9, shr 10 h9, shr 18 h9])"

definition fe_tobytes :: "fe \<Rightarrow> bytes" where
  "fe_tobytes h = fe_pack (fe_reduce h)"

definition fe_isnegative :: "fe \<Rightarrow> i32" where
  "fe_isnegative f = ucast (fe_tobytes f ! 0 AND 1)"

definition fe_isnonzero :: "fe \<Rightarrow> i32" where
  "fe_isnonzero f = (let s = fe_tobytes f; r = fold (\<lambda>i r. r OR s ! i) [1..<32] (s ! 0) in if r \<noteq> 0 then 1 else 0)"

text \<open>The powers: \<open>sq_loop n\<close> is \<open>for (i = 1; i < n; ++i) sq\<close>.\<close>

definition sq_loop :: "nat \<Rightarrow> fe \<Rightarrow> fe" where
  "sq_loop n t = (fe_sq ^^ (n - 1)) t"

definition fe_invert :: "fe \<Rightarrow> fe" where
  "fe_invert z =
     (let t0 = sq_loop 1 (fe_sq z); t1 = sq_loop 2 (fe_sq t0); t1 = fe_mul z t1; t0 = fe_mul t0 t1;
        t2 = sq_loop 1 (fe_sq t0); t1 = fe_mul t1 t2;
        t2 = sq_loop 5 (fe_sq t1); t1 = fe_mul t2 t1;
        t2 = sq_loop 10 (fe_sq t1); t2 = fe_mul t2 t1;
        t3 = sq_loop 20 (fe_sq t2); t2 = fe_mul t3 t2;
        t2 = sq_loop 10 (fe_sq t2); t1 = fe_mul t2 t1;
        t2 = sq_loop 50 (fe_sq t1); t2 = fe_mul t2 t1;
        t3 = sq_loop 100 (fe_sq t2); t2 = fe_mul t3 t2;
        t2 = sq_loop 50 (fe_sq t2); t1 = fe_mul t2 t1;
        t1 = sq_loop 5 (fe_sq t1)
      in fe_mul t1 t0)"

definition fe_pow22523 :: "fe \<Rightarrow> fe" where
  "fe_pow22523 z =
     (let t0 = sq_loop 1 (fe_sq z); t1 = sq_loop 2 (fe_sq t0); t1 = fe_mul z t1; t0 = fe_mul t0 t1;
        t0 = sq_loop 1 (fe_sq t0); t0 = fe_mul t1 t0;
        t1 = sq_loop 5 (fe_sq t0); t0 = fe_mul t1 t0;
        t1 = sq_loop 10 (fe_sq t0); t1 = fe_mul t1 t0;
        t2 = sq_loop 20 (fe_sq t1); t1 = fe_mul t2 t1;
        t1 = sq_loop 10 (fe_sq t1); t0 = fe_mul t1 t0;
        t1 = sq_loop 50 (fe_sq t0); t1 = fe_mul t1 t0;
        t2 = sq_loop 100 (fe_sq t1); t1 = fe_mul t2 t1;
        t1 = sq_loop 50 (fe_sq t1); t0 = fe_mul t1 t0;
        t0 = sq_loop 2 (fe_sq t0)
      in fe_mul t0 z)"

end
