(* ===== verification/FieldArith.thy ===== *)
theory FieldArith
  imports Field
begin

text \<open>
  Correctness of the field operations: every carry chain is followed once on integers and once
  on bounds (\<open>carry_limb_refines\<close>, \<open>carry_chain\<close>), the products are the reference double sum
  \<open>mul_int\<close>, and each operation, from the bounds its comment demands, stays inside the bounds
  its comment promises and computes in the field.
\<close>

section \<open>Reading limbs as an integer\<close>

definition p25519 :: int where
  "p25519 = 2 ^ 255 - 19"

definition limb_pos :: "nat \<Rightarrow> nat" where
  "limb_pos i = (51 * i + 1) div 2"

definition limbs_val :: "int list \<Rightarrow> int" where
  "limbs_val xs = (\<Sum>i<10. xs ! i * 2 ^ limb_pos i)"

definition fe_val :: "fe \<Rightarrow> int" where
  "fe_val f = limbs_val (map sint f)"

definition bounded :: "int list \<Rightarrow> 'a::len word list \<Rightarrow> bool" where
  "bounded bs h \<longleftrightarrow> length bs = 10 \<and> length h = 10 \<and> (\<forall>i<10. \<bar>sint (h ! i)\<bar> \<le> bs ! i)"

definition limb_bounds :: "int \<Rightarrow> int \<Rightarrow> int list" where
  "limb_bounds e d = [e, d, e, d, e, d, e, d, e, d]"

lemma boundedD: "bounded bs h \<Longrightarrow> i < 10 \<Longrightarrow> \<bar>sint (h ! i)\<bar> \<le> bs ! i"
  by (simp add: bounded_def)

lemma bounded_length: "bounded bs h \<Longrightarrow> length h = 10" "bounded bs h \<Longrightarrow> length bs = 10"
  by (simp_all add: bounded_def)

lemma bounded_nonneg: "bounded bs h \<Longrightarrow> i < 10 \<Longrightarrow> 0 \<le> bs ! i"
  using boundedD [of bs h i] by simp

lemma sint_of_int_i64: "\<bar>k\<bar> < 2 ^ 63 \<Longrightarrow> sint (word_of_int k :: i64) = k"
  by (rule sint_of_int_eq) (simp_all add: abs_less_iff)

lemma sint_of_int_i32: "\<bar>k\<bar> < 2 ^ 31 \<Longrightarrow> sint (word_of_int k :: i32) = k"
  by (rule sint_of_int_eq) (simp_all add: abs_less_iff)

lemma word_of_int_plus: "word_of_int (a + b) = word_of_int a + word_of_int b"
  by simp

lemma limbs_val_update:
  assumes "length xs = 10" and "i < 10"
  shows "limbs_val (xs[i := v]) = limbs_val xs + (v - xs ! i) * 2 ^ limb_pos i"
proof -
  have "(\<Sum>j<10. xs[i := v] ! j * 2 ^ limb_pos j) = (\<Sum>j<10. xs ! j * 2 ^ limb_pos j + (if j = i then (v - xs ! i) * 2 ^ limb_pos i else 0))"
    using assms by (intro sum.cong) (auto simp: nth_list_update algebra_simps)
  also have "\<dots> = limbs_val xs + (v - xs ! i) * 2 ^ limb_pos i"
    using assms by (simp add: sum.distrib limbs_val_def)
  finally show ?thesis
    by (simp add: limbs_val_def)
qed

section \<open>Carries\<close>

definition carry_to :: "nat \<Rightarrow> nat \<times> int" where
  "carry_to i = (if i = 9 then (0, 19) else (i + 1, 1))"

definition carry_int :: "nat \<Rightarrow> int list \<Rightarrow> int list" where
  "carry_int i xs =
     (let w = limb_width i; c = (xs ! i + 2 ^ (w - 1)) div 2 ^ w; (j, k) = carry_to i
      in xs[j := xs ! j + k * c, i := xs ! i - c * 2 ^ w])"

definition carry_bound :: "nat \<Rightarrow> int list \<Rightarrow> int list" where
  "carry_bound i bs =
     (let w = limb_width i; a = (bs ! i + 2 ^ (w - 1)) div 2 ^ w; (j, k) = carry_to i
      in bs[j := bs ! j + k * a, i := 2 ^ (w - 1)])"

primrec chain_ok :: "nat list \<Rightarrow> int list \<Rightarrow> bool" where
  "chain_ok [] bs \<longleftrightarrow> True"
| "chain_ok (i # is) bs \<longleftrightarrow> i < 10 \<and> bs ! i + 2 ^ 25 < 2 ^ 63 \<and> carry_bound i bs ! fst (carry_to i) < 2 ^ 63 \<and>
     chain_ok is (carry_bound i bs)"

lemma carry_to_props: "i < 10 \<Longrightarrow> fst (carry_to i) < 10 \<and> fst (carry_to i) \<noteq> i \<and> 0 \<le> snd (carry_to i)"
  by (auto simp: carry_to_def)

lemma carry_bounds:
  assumes "\<bar>x\<bar> \<le> A" and "0 < w"
  shows "\<bar>(x + 2 ^ (w - 1)) div 2 ^ w\<bar> \<le> (A + 2 ^ (w - 1)) div (2 :: int) ^ w"
    and "\<bar>x - (x + 2 ^ (w - 1)) div 2 ^ w * 2 ^ w\<bar> \<le> (2 :: int) ^ (w - 1)"
proof -
  obtain v where w: "w = Suc v"
    using assms(2) by (cases w) auto
  define m :: int where "m = 2 ^ v"
  have m: "0 < m" "2 ^ w = 2 * m" "2 ^ (w - 1) = m"
    by (simp_all add: m_def w)
  define c where "c = (x + m) div (2 * m)"
  have "x + m = c * (2 * m) + (x + m) mod (2 * m)"
    unfolding c_def by (rule div_mult_mod_eq [symmetric])
  moreover have "0 \<le> (x + m) mod (2 * m)" "(x + m) mod (2 * m) < 2 * m"
    using m(1) by simp_all
  ultimately have r: "\<bar>x - c * (2 * m)\<bar> \<le> m"
    by linarith
  have "c \<le> (A + m) div (2 * m)"
    unfolding c_def using assms(1) m(1) by (intro zdiv_mono1) simp_all
  moreover have "- c \<le> (A + m) div (2 * m)"
  proof -
    have "(- c) * (2 * m) \<le> A + m"
      using r assms(1) by linarith
    then have "(- c) * (2 * m) div (2 * m) \<le> (A + m) div (2 * m)"
      using m(1) by (intro zdiv_mono1) simp_all
    then show ?thesis
      using m(1) nonzero_mult_div_cancel_right [of "2 * m" "- c"] by simp
  qed
  ultimately show "\<bar>(x + 2 ^ (w - 1)) div 2 ^ w\<bar> \<le> (A + 2 ^ (w - 1)) div 2 ^ w"
    unfolding m c_def [symmetric] by linarith
  show "\<bar>x - (x + 2 ^ (w - 1)) div 2 ^ w * 2 ^ w\<bar> \<le> 2 ^ (w - 1)"
    using r unfolding m c_def .
qed

lemma signed_shift: "sint (signed_drop_bit w x) = sint x div 2 ^ w"
  by (simp add: sint_signed_drop_bit_eq drop_bit_eq_div)

lemma carry_word:
  fixes x :: i64
  assumes "\<bar>sint x\<bar> \<le> A" and "A + 2 ^ 25 < 2 ^ 63" and "w = 25 \<or> w = 26"
  shows "sint (signed_drop_bit w (x + push_bit (w - 1) 1)) = (sint x + 2 ^ (w - 1)) div 2 ^ w"
proof -
  have "x + push_bit (w - 1) 1 = word_of_int (sint x + 2 ^ (w - 1))"
    using assms(3) by (auto simp: push_bit_eq_mult)
  moreover have "\<bar>sint x + 2 ^ (w - 1)\<bar> < 2 ^ 63"
    using assms by auto
  ultimately show ?thesis
    unfolding signed_shift by (metis sint_of_int_i64)
qed

lemma limb_width_cases: "limb_width i = 25 \<or> limb_width i = 26"
  by (simp add: limb_width_def)

lemma carry_limb_alt:
  assumes "i < 10" and "length h = 10"
  shows "carry_limb i h = (let w = limb_width i; c = signed_drop_bit w (h ! i + push_bit (w - 1) 1); (j, k) = carry_to i
     in h[j := h ! j + word_of_int k * c, i := h ! i - push_bit w c])"
  using assms by (auto simp: carry_limb_def Let_def carry_to_def mult.commute)

lemma carry_limb_refines:
  assumes "bounded bs h" and "i < 10" and "bs ! i + 2 ^ 25 < 2 ^ 63" and "carry_bound i bs ! fst (carry_to i) < 2 ^ 63"
  shows "map sint (carry_limb i h) = carry_int i (map sint h)" and "bounded (carry_bound i bs) (carry_limb i h)"
proof -
  obtain j k where jk: "carry_to i = (j, k)"
    by (cases "carry_to i")
  have j: "j < 10" "j \<noteq> i" "0 \<le> k"
    using carry_to_props [OF assms(2)] jk by simp_all
  define w where "w = limb_width i"
  define c where "c = signed_drop_bit w (h ! i + push_bit (w - 1) 1)"
  define A where "A = (bs ! i + 2 ^ (w - 1)) div 2 ^ w"
  have len: "length h = 10" "length bs = 10"
    using assms(1) by (simp_all add: bounded_def)
  have w: "w = 25 \<or> w = 26" "0 < w"
    unfolding w_def using limb_width_cases [of i] by auto
  have c: "sint c = (sint (h ! i) + 2 ^ (w - 1)) div 2 ^ w"
    unfolding c_def by (rule carry_word [OF boundedD [OF assms(1,2)] assms(3) w(1)])
  have cA: "\<bar>sint c\<bar> \<le> A" and rest: "\<bar>sint (h ! i) - sint c * 2 ^ w\<bar> \<le> 2 ^ (w - 1)"
    unfolding c A_def using carry_bounds [OF boundedD [OF assms(1,2)] w(2)] by blast+
  have new_j: "\<bar>sint (h ! j) + k * sint c\<bar> \<le> bs ! j + k * A"
    using boundedD [OF assms(1) j(1)] mult_left_mono [OF cA j(3)] j(3)
    by (intro order_trans [OF abs_triangle_ineq] add_mono) (simp_all add: abs_mult)
  have small: "bs ! j + k * A < 2 ^ 63"
    using assms(4) j len by (simp add: jk carry_bound_def Let_def A_def w_def)
  have "h ! j + word_of_int k * c = word_of_int (sint (h ! j) + k * sint c)"
    by simp
  then have sj: "sint (h ! j + word_of_int k * c) = sint (h ! j) + k * sint c"
    using sint_of_int_i64 [OF le_less_trans [OF new_j small]] by metis
  have "h ! i - push_bit w c = word_of_int (sint (h ! i) - sint c * 2 ^ w)"
    by (simp add: push_bit_eq_mult)
  moreover have "\<bar>sint (h ! i) - sint c * 2 ^ w\<bar> < 2 ^ 63"
    using rest w(1) by auto
  ultimately have si: "sint (h ! i - push_bit w c) = sint (h ! i) - sint c * 2 ^ w"
    using sint_of_int_i64 [of "sint (h ! i) - sint c * 2 ^ w"] by simp
  have step: "carry_limb i h = h[j := h ! j + word_of_int k * c, i := h ! i - push_bit w c]"
    using carry_limb_alt [OF assms(2) len(1)] by (simp add: jk c_def w_def Let_def)
  show "map sint (carry_limb i h) = carry_int i (map sint h)"
    unfolding step using assms(2) len j by (simp add: map_update sj si carry_int_def Let_def jk c w_def [symmetric])
  have "carry_bound i bs = bs[j := bs ! j + k * A, i := 2 ^ (w - 1)]"
    by (simp add: carry_bound_def jk Let_def A_def w_def)
  then show "bounded (carry_bound i bs) (carry_limb i h)"
    unfolding step using assms(1,2) len j new_j rest by (auto simp: bounded_def nth_list_update sj si)
qed

lemma carry_int_val:
  assumes "i < 10" and "length xs = 10"
  shows "limbs_val (carry_int i xs) mod p25519 = limbs_val xs mod p25519"
proof -
  define c where "c = (xs ! i + 2 ^ (limb_width i - 1)) div 2 ^ limb_width i"
  have "\<exists>m. limbs_val (carry_int i xs) = limbs_val xs + m * p25519"
  proof (cases "i = 9")
    case True
    then have "carry_int i xs = xs[0 := xs ! 0 + 19 * c, 9 := xs ! 9 - c * 2 ^ 25]"
      by (simp add: carry_int_def carry_to_def Let_def c_def limb_width_def)
    then have "limbs_val (carry_int i xs) = limbs_val xs + (- c) * p25519"
      using assms(2) by (simp add: limbs_val_update limb_pos_def p25519_def algebra_simps)
    then show ?thesis
      by blast
  next
    case False
    then have step: "carry_int i xs = xs[i + 1 := xs ! (i + 1) + c, i := xs ! i - c * 2 ^ limb_width i]"
      by (simp add: carry_int_def carry_to_def Let_def c_def)
    have "limb_pos (i + 1) = limb_width i + limb_pos i"
      by (auto simp: limb_pos_def limb_width_def elim!: evenE oddE)
    then have "limbs_val (carry_int i xs) = limbs_val xs"
      using assms False by (simp add: step limbs_val_update power_add algebra_simps)
    then show ?thesis
      by (intro exI [of _ 0]) simp
  qed
  then show ?thesis
    by auto
qed

lemma carry_chain:
  "bounded bs h \<Longrightarrow> chain_ok order bs \<Longrightarrow>
     bounded (fold carry_bound order bs) (fold carry_limb order h) \<and>
     limbs_val (map sint (fold carry_limb order h)) mod p25519 = limbs_val (map sint h) mod p25519"
proof (induction order arbitrary: bs h)
  case (Cons i order)
  then have ok: "i < 10" "bs ! i + 2 ^ 25 < 2 ^ 63" "carry_bound i bs ! fst (carry_to i) < 2 ^ 63"
    by simp_all
  note step = carry_limb_refines [OF Cons.prems(1) ok]
  have "limbs_val (map sint (carry_limb i h)) mod p25519 = limbs_val (map sint h) mod p25519"
    unfolding step(1) using carry_int_val [OF ok(1)] Cons.prems(1) by (simp add: bounded_length)
  then show ?case
    using Cons.IH [OF step(2)] Cons.prems(2) by simp
qed simp

text \<open>
  Every value of a carry chain on exact integers stays in its type: the rounded limb, the carry,
  its multiple, the limbs after it, and at the end each limb in the 32 bits it is narrowed to.
\<close>

definition fits :: "nat \<Rightarrow> int \<Rightarrow> bool" where
  "fits w x \<longleftrightarrow> - (2 ^ (w - 1)) \<le> x \<and> x < 2 ^ (w - 1)"

fun carries_fit :: "nat list \<Rightarrow> int list \<Rightarrow> bool" where
  "carries_fit [] xs \<longleftrightarrow> (\<forall>x\<in>set xs. fits 32 x)"
| "carries_fit (i # is) xs \<longleftrightarrow>
     (let w = limb_width i; c = (xs ! i + 2 ^ (w - 1)) div 2 ^ w; (j, k) = carry_to i in
      fits 64 (xs ! i + 2 ^ (w - 1)) \<and> fits 64 c \<and> fits 64 (k * c) \<and> fits 64 (xs ! j + k * c) \<and> fits 64 (c * 2 ^ w) \<and>
      fits 64 (xs ! i - c * 2 ^ w) \<and> carries_fit is (carry_int i xs))"

lemma fits_abs: "\<bar>x\<bar> < 2 ^ (w - 1) \<Longrightarrow> fits w x"
  by (auto simp: fits_def)

lemma carry_step_fits:
  assumes "\<bar>x\<bar> \<le> A" and "\<bar>y\<bar> \<le> B" and "A + 2 ^ 25 < 2 ^ 63" and "w = 25 \<or> w = 26" and "0 \<le> k"
    and "B + k * ((A + 2 ^ (w - 1)) div 2 ^ w) < 2 ^ 63"
  defines "c \<equiv> (x + 2 ^ (w - 1)) div 2 ^ w"
  shows "fits 64 (x + 2 ^ (w - 1)) \<and> fits 64 c \<and> fits 64 (k * c) \<and> fits 64 (y + k * c) \<and> fits 64 (c * 2 ^ w) \<and> fits 64 (x - c * 2 ^ w)"
proof -
  define a where "a = (A + 2 ^ (w - 1)) div 2 ^ w"
  have c: "\<bar>c\<bar> \<le> a" and rest: "\<bar>x - c * 2 ^ w\<bar> \<le> 2 ^ (w - 1)"
    unfolding c_def a_def using carry_bounds [OF assms(1), of w] assms(4) by auto
  have kc: "\<bar>k * c\<bar> \<le> k * a"
    using mult_left_mono [OF c assms(5)] assms(5) by (simp add: abs_mult)
  have half: "(2 :: int) ^ (w - 1) \<le> 2 ^ 25" "(0 :: int) < 2 ^ (w - 1)"
    using assms(4) by auto
  have "a \<le> (A + 2 ^ (w - 1))"
    unfolding a_def using assms(1,4) zdiv_mono2 [of "A + 2 ^ (w - 1)" 1 "2 ^ w"] by auto
  then have "a < 2 ^ 63"
    using half assms(3) by linarith
  moreover have "\<bar>x + 2 ^ (w - 1)\<bar> < 2 ^ 63" "\<bar>x - c * 2 ^ w\<bar> < 2 ^ 63"
    using assms(1,3) half rest by linarith+
  moreover have "\<bar>y + k * c\<bar> < 2 ^ 63" "\<bar>k * c\<bar> < 2 ^ 63"
    using kc assms(2,6) unfolding a_def [symmetric] by linarith+
  moreover have "fits 64 (c * 2 ^ w)"
  proof -
    have "c * 2 ^ w \<le> x + 2 ^ (w - 1)" "x - 2 ^ (w - 1) \<le> c * 2 ^ w"
      using rest by linarith+
    then have "\<bar>c * 2 ^ w\<bar> < 2 ^ 63"
      using assms(1,3) half by linarith
    then show ?thesis
      by (intro fits_abs) simp
  qed
  ultimately show ?thesis
    using c by (auto intro!: fits_abs)
qed

lemma carry_chain_exact:
  assumes "bounded bs h" and "chain_ok order bs" and "list_all2 (\<le>) (fold carry_bound order bs) cs" and "\<forall>b\<in>set cs. b < 2 ^ 31"
  shows "map sint (fold carry_limb order h) = fold carry_int order (map sint h) \<and> carries_fit order (map sint h)"
  using assms(1-3)
proof (induction order arbitrary: bs h)
  case Nil
  have "fits 32 (sint (h ! i))" if "i < 10" for i
  proof (rule fits_abs)
    have "\<bar>sint (h ! i)\<bar> \<le> cs ! i" and "cs ! i \<in> set cs"
      using boundedD [OF Nil.prems(1) that] Nil.prems(3) bounded_length(2) [OF Nil.prems(1)] that
      by (auto simp: list_all2_conv_all_nth intro: order_trans)
    then show "\<bar>sint (h ! i)\<bar> < 2 ^ (32 - 1)"
      using assms(4) by fastforce
  qed
  then show ?case
    using bounded_length(1) [OF Nil.prems(1)] by (auto simp: in_set_conv_nth)
next
  case (Cons i order)
  then have ok: "i < 10" "bs ! i + 2 ^ 25 < 2 ^ 63" "carry_bound i bs ! fst (carry_to i) < 2 ^ 63"
    by simp_all
  note step = carry_limb_refines [OF Cons.prems(1) ok]
  obtain j k where jk: "carry_to i = (j, k)"
    by (cases "carry_to i")
  have j: "j < 10" "j \<noteq> i" "0 \<le> k"
    using carry_to_props [OF ok(1)] jk by simp_all
  let ?w = "limb_width i" and ?x = "sint (h ! i)"
  have "bs ! j + k * ((bs ! i + 2 ^ (?w - 1)) div 2 ^ ?w) < 2 ^ 63"
    using ok(3) j bounded_length(2) [OF Cons.prems(1)] by (simp add: jk carry_bound_def Let_def)
  note fit = carry_step_fits [OF boundedD [OF Cons.prems(1) ok(1)] boundedD [OF Cons.prems(1) j(1)] ok(2) limb_width_cases j(3) this]
  show ?case
    using Cons.IH [OF step(2)] Cons.prems(2,3) fit bounded_length(1) [OF Cons.prems(1)] ok(1) j(1)
    by (simp add: step(1) jk Let_def)
qed

lemma narrow_val:
  assumes "bounded bs h" and "\<forall>b\<in>set bs. b < 2 ^ 31"
  shows "map sint (narrow h) = map sint h" and "bounded bs (narrow h)"
proof -
  have eq: "sint (ucast (h ! i) :: i32) = sint (h ! i)" if "i < 10" for i
  proof -
    have "(ucast (h ! i) :: i32) = word_of_int (sint (h ! i))"
      by (simp, rule bit_word_eqI) (simp add: bit_simps)
    moreover have "\<bar>sint (h ! i)\<bar> < 2 ^ 31"
      using boundedD [OF assms(1) that] assms(2) that bounded_length(2) [OF assms(1)] by (metis le_less_trans nth_mem)
    ultimately show ?thesis
      by (simp only: sint_of_int_i32)
  qed
  then show "map sint (narrow h) = map sint h"
    using bounded_length(1) [OF assms(1)] by (intro nth_equalityI) (simp_all add: narrow_def)
  show "bounded bs (narrow h)"
    using assms(1) eq by (simp add: bounded_def narrow_def)
qed
section \<open>Products\<close>

definition mul_coeff :: "nat \<Rightarrow> nat \<Rightarrow> int" where
  "mul_coeff i j = (if 10 \<le> i + j then 19 else 1) * (if odd i \<and> odd j then 2 else 1)"

text \<open>The product of two limb lists modulo $2^{255} - 19$, as a reference: a double sum.\<close>

definition mul_int :: "int list \<Rightarrow> int list \<Rightarrow> int list" where
  "mul_int xs ys = map (\<lambda>k. \<Sum>i<10. \<Sum>j<10. if (i + j) mod 10 = k then mul_coeff i j * xs ! i * ys ! j else 0) [0..<10]"

lemma power_reduce: "2 ^ (255 + n) mod p25519 = 19 * 2 ^ n mod p25519"
proof -
  have "(2 :: int) ^ (255 + n) = 19 * 2 ^ n + 2 ^ n * p25519"
    by (simp add: p25519_def power_add algebra_simps)
  then show ?thesis
    by simp
qed

lemma limb_pos_add:
  assumes "i < 10" and "j < 10"
  shows "limb_pos i + limb_pos j = limb_pos ((i + j) mod 10) + (if odd i \<and> odd j then 1 else 0) + (if 10 \<le> i + j then 255 else 0)"
proof -
  have "\<forall>i\<in>set [0..<10]. \<forall>j\<in>set [0..<10].
      limb_pos i + limb_pos j = limb_pos ((i + j) mod 10) + (if odd i \<and> odd j then 1 else 0) + (if 10 \<le> i + j then 255 else 0)"
    by code_simp
  then show ?thesis
    using assms by simp
qed

lemma mul_coeff_weight:
  assumes "i < 10" and "j < 10"
  shows "mul_coeff i j * 2 ^ limb_pos ((i + j) mod 10) mod p25519 = 2 ^ (limb_pos i + limb_pos j) mod p25519"
proof -
  let ?n = "limb_pos ((i + j) mod 10)"
  have "(if 10 \<le> i + j then 19 else 1) * (2 :: int) ^ n mod p25519 = 2 ^ (n + (if 10 \<le> i + j then 255 else 0)) mod p25519" for n
    using power_reduce [of n] by (simp add: add.commute)
  from this [of "?n + (if odd i \<and> odd j then 1 else 0)"] show ?thesis
    unfolding limb_pos_add [OF assms] by (cases "odd i \<and> odd j"; cases "10 \<le> i + j") (auto simp: mul_coeff_def add.commute)
qed

lemma sum_mod_cong: "(\<And>x. x \<in> A \<Longrightarrow> f x mod m = g x mod m) \<Longrightarrow> sum f A mod m = sum g A mod (m :: int)"
  by (metis (no_types, lifting) mod_sum_eq sum.cong)

lemma mul_int_val: "limbs_val (mul_int xs ys) mod p25519 = limbs_val xs * limbs_val ys mod p25519"
proof -
  let ?t = "\<lambda>i j. mul_coeff i j * xs ! i * ys ! j"
  have "limbs_val (mul_int xs ys) = (\<Sum>k<10. \<Sum>i<10. \<Sum>j<10. if (i + j) mod 10 = k then ?t i j * 2 ^ limb_pos k else 0)"
    by (simp add: limbs_val_def mul_int_def sum_distrib_right if_distrib [of "\<lambda>x. x * _"] cong: if_cong)
  also have "\<dots> = (\<Sum>i<10. \<Sum>j<10. \<Sum>k<10. if (i + j) mod 10 = k then ?t i j * 2 ^ limb_pos k else 0)"
    by (rule trans [OF sum.swap], rule sum.cong [OF refl], rule sum.swap)
  also have "\<dots> = (\<Sum>i<10. \<Sum>j<10. xs ! i * ys ! j * (mul_coeff i j * 2 ^ limb_pos ((i + j) mod 10)))"
    by (simp add: algebra_simps)
  finally have "limbs_val (mul_int xs ys) mod p25519 =
      (\<Sum>i<10. \<Sum>j<10. xs ! i * ys ! j * (mul_coeff i j * 2 ^ limb_pos ((i + j) mod 10))) mod p25519"
    by simp
  also have "\<dots> = (\<Sum>i<10. \<Sum>j<10. xs ! i * ys ! j * 2 ^ (limb_pos i + limb_pos j)) mod p25519"
    by (rule sum_mod_cong, rule sum_mod_cong, rule mod_mult_cong [OF refl]) (simp add: mul_coeff_weight)
  also have "\<dots> = limbs_val xs * limbs_val ys mod p25519"
    by (simp add: limbs_val_def sum_product power_add algebra_simps)
  finally show ?thesis .
qed

lemma mul_int_abs:
  assumes "\<forall>i<10. \<bar>xs ! i\<bar> \<le> bs ! i" and "\<forall>i<10. \<bar>ys ! i\<bar> \<le> cs ! i" and "k < 10"
  shows "\<bar>mul_int xs ys ! k\<bar> \<le> mul_int bs cs ! k"
proof -
  have "\<bar>if (i + j) mod 10 = k then mul_coeff i j * xs ! i * ys ! j else 0\<bar> \<le>
      (if (i + j) mod 10 = k then mul_coeff i j * bs ! i * cs ! j else 0)" if "i < 10" "j < 10" for i j
  proof -
    have "\<bar>xs ! i\<bar> * \<bar>ys ! j\<bar> \<le> bs ! i * cs ! j"
      using assms(1,2) that by (intro mult_mono) (auto intro: order_trans [OF abs_ge_zero])
    then show ?thesis
      by (auto simp: mul_coeff_def abs_mult)
  qed
  then have "\<bar>\<Sum>i<10. \<Sum>j<10. if (i + j) mod 10 = k then mul_coeff i j * xs ! i * ys ! j else 0\<bar> \<le>
      (\<Sum>i<10. \<Sum>j<10. if (i + j) mod 10 = k then mul_coeff i j * bs ! i * cs ! j else 0)"
    by (intro order_trans [OF sum_abs] sum_mono) simp
  then show ?thesis
    using assms(3) by (simp add: mul_int_def)
qed

lemma length_mul_int [simp]: "length (mul_int xs ys) = 10"
  by (simp add: mul_int_def)

lemma sum10: "(\<Sum>i<10. f i) = f 0 + f 1 + f 2 + f 3 + f 4 + f 5 + f 6 + f 7 + f 8 + f (9 :: nat)"
  by (simp add: lessThan_nat_numeral algebra_simps)

lemma upt10: "[0..<10] = [0, 1, 2, 3, 4, 5, 6, 7, 8, 9]"
  by (simp add: upt_rec)

lemma ten_limbs:
  assumes "length xs = 10"
  obtains x0 x1 x2 x3 x4 x5 x6 x7 x8 x9 where "xs = [x0, x1, x2, x3, x4, x5, x6, x7, x8, x9]"
  using assms by (auto simp: numeral_eq_Suc length_Suc_conv)

text \<open>32-bit precomputations that fit their word.\<close>

lemma scast_times:
  assumes "\<bar>numeral k * sint w\<bar> < 2 ^ 31"
  shows "(scast (numeral k * w :: i32) :: i64) = numeral k * scast w"
proof -
  have "numeral k * w = word_of_int (numeral k * sint w)"
    by simp
  then have "sint (numeral k * w) = numeral k * sint w"
    using sint_of_int_i32 [OF assms] by metis
  then show ?thesis
    by (simp add: scast_eq del: of_int_sint)
qed

definition mul_in :: "int list" where
  "mul_in = limb_bounds 110729625 55364812"

definition mul_out :: "int list" where
  "mul_out = limb_bounds 33889976 16944988"

lemma mul_in_times:
  fixes f0 f1 f2 f3 f4 f5 f6 f7 f8 f9 :: i32
  assumes "bounded mul_in [f0, f1, f2, f3, f4, f5, f6, f7, f8, f9]"
  shows "numeral k \<le> (19 :: int) \<Longrightarrow> w \<in> set [f0, f1, f2, f3, f4, f5, f6, f7, f8, f9] \<Longrightarrow> (scast (numeral k * w) :: i64) = numeral k * scast w"
    and "numeral k \<le> (38 :: int) \<Longrightarrow> w \<in> {f1, f3, f5, f7, f9} \<Longrightarrow> (scast (numeral k * w) :: i64) = numeral k * scast w"
proof -
  have small: "\<bar>numeral k * sint x\<bar> < 2 ^ 31" if "\<bar>sint x\<bar> \<le> b" "numeral k \<le> c" "c * b < 2 ^ 31" for b c and x :: i32
  proof -
    have "numeral k * \<bar>sint x\<bar> \<le> c * b"
      using that(1,2) by (intro mult_mono) (auto intro: order_trans [OF zero_le_numeral])
    then show ?thesis
      using that(3) by (simp add: abs_mult)
  qed
  have all: "\<forall>i\<in>set [0, 1, 2, 3, 4, 5, 6, 7, 8, 9]. \<bar>sint ([f0, f1, f2, f3, f4, f5, f6, f7, f8, f9] ! i)\<bar> \<le> mul_in ! i"
    by (intro ballI boundedD [OF assms]) auto
  then have odd: "\<forall>w\<in>{f1, f3, f5, f7, f9}. \<bar>sint w\<bar> \<le> 55364812" and any: "\<forall>w\<in>set [f0, f1, f2, f3, f4, f5, f6, f7, f8, f9]. \<bar>sint w\<bar> \<le> 110729625"
    by (simp_all add: mul_in_def limb_bounds_def)
  show "numeral k \<le> (19 :: int) \<Longrightarrow> w \<in> set [f0, f1, f2, f3, f4, f5, f6, f7, f8, f9] \<Longrightarrow> (scast (numeral k * w) :: i64) = numeral k * scast w"
    by (rule scast_times, rule small, rule bspec [OF any], assumption, assumption) simp
  show "numeral k \<le> (38 :: int) \<Longrightarrow> w \<in> {f1, f3, f5, f7, f9} \<Longrightarrow> (scast (numeral k * w) :: i64) = numeral k * scast w"
    by (rule scast_times, rule small, rule bspec [OF odd], assumption, assumption) simp
qed

lemma fe_mul_products_limbs:
  assumes "bounded mul_in [f0, f1, f2, f3, f4, f5, f6, f7, f8, f9]" and "bounded mul_in [g0, g1, g2, g3, g4, g5, g6, g7, g8, g9]"
  shows "fe_mul_products [f0, f1, f2, f3, f4, f5, f6, f7, f8, f9] [g0, g1, g2, g3, g4, g5, g6, g7, g8, g9] = map word_of_int (mul_int (map sint [f0, f1, f2, f3, f4, f5, f6, f7, f8, f9]) (map sint [g0, g1, g2, g3, g4, g5, g6, g7, g8, g9]))"
  unfolding fe_mul_products_def Let_def mul_int_def
  by (simp add: upt10 sum10 mul_coeff_def mul_in_times [OF assms(1)] mul_in_times [OF assms(2)])

lemma products_bounded:
  fixes h :: "i64 list"
  assumes "h = map word_of_int (mul_int (map sint f) (map sint g))" and "bounded bs f" and "bounded cs g"
    and "\<forall>b\<in>set (mul_int bs cs). b < 2 ^ 63"
  shows "map sint h = mul_int (map sint f) (map sint g)" and "bounded (mul_int bs cs) h"
proof -
  have le: "\<bar>mul_int (map sint f) (map sint g) ! k\<bar> \<le> mul_int bs cs ! k" if "k < 10" for k
    using assms(2,3) that by (intro mul_int_abs) (auto simp: bounded_def)
  have "sint (h ! k) = mul_int (map sint f) (map sint g) ! k" if "k < 10" for k
    using le [OF that] assms(4) that by (simp add: assms(1) sint_of_int_i64 le_less_trans)
  then show "map sint h = mul_int (map sint f) (map sint g)" and "bounded (mul_int bs cs) h"
    using le by (auto simp: bounded_def assms(1) intro!: nth_equalityI)
qed

lemma fe_mul_products_ok:
  assumes "bounded mul_in f" and "bounded mul_in g"
  shows "fe_mul_products f g = map word_of_int (mul_int (map sint f) (map sint g))"
  using assms bounded_length(1) [OF assms(1)] bounded_length(1) [OF assms(2)]
  by (elim ten_limbs) (simp only: fe_mul_products_limbs)

lemma sq_limbs:
  "mul_int [F0, F1, F2, F3, F4, F5, F6, F7, F8, F9] [F0, F1, F2, F3, F4, F5, F6, F7, F8, F9] =
       [F0 * F0 + (2 * F1) * (38 * F9) + (2 * F2) * (19 * F8) + (2 * F3) * (38 * F7) + (2 * F4) * (19 * F6) + F5 * (38 * F5),
        (2 * F0) * F1 + F2 * (38 * F9) + (2 * F3) * (19 * F8) + F4 * (38 * F7) + (2 * F5) * (19 * F6),
        (2 * F0) * F2 + (2 * F1) * F1 + (2 * F3) * (38 * F9) + (2 * F4) * (19 * F8) + (2 * F5) * (38 * F7) + F6 * (19 * F6),
        (2 * F0) * F3 + (2 * F1) * F2 + F4 * (38 * F9) + (2 * F5) * (19 * F8) + F6 * (38 * F7),
        (2 * F0) * F4 + (2 * F1) * (2 * F3) + F2 * F2 + (2 * F5) * (38 * F9) + (2 * F6) * (19 * F8) + F7 * (38 * F7),
        (2 * F0) * F5 + (2 * F1) * F4 + (2 * F2) * F3 + F6 * (38 * F9) + (2 * F7) * (19 * F8),
        (2 * F0) * F6 + (2 * F1) * (2 * F5) + (2 * F2) * F4 + (2 * F3) * F3 + (2 * F7) * (38 * F9) + F8 * (19 * F8),
        (2 * F0) * F7 + (2 * F1) * F6 + (2 * F2) * F5 + (2 * F3) * F4 + F8 * (38 * F9),
        (2 * F0) * F8 + (2 * F1) * (2 * F7) + (2 * F2) * F6 + (2 * F3) * (2 * F5) + F4 * F4 + F9 * (38 * F9),
        (2 * F0) * F9 + (2 * F1) * F8 + (2 * F2) * F7 + (2 * F3) * F6 + (2 * F4) * F5]"
  by (simp add: mul_int_def upt10 sum10 mul_coeff_def algebra_simps)

lemma fe_sq_products_limbs:
  assumes "bounded mul_in [f0, f1, f2, f3, f4, f5, f6, f7, f8, f9]"
  shows "fe_sq_products [f0, f1, f2, f3, f4, f5, f6, f7, f8, f9] = map word_of_int (mul_int (map sint [f0, f1, f2, f3, f4, f5, f6, f7, f8, f9]) (map sint [f0, f1, f2, f3, f4, f5, f6, f7, f8, f9]))"
  unfolding fe_sq_products_def Let_def list.map sq_limbs
  by (simp add: mul_in_times [OF assms])

lemma fe_sq_products_ok:
  assumes "bounded mul_in f"
  shows "fe_sq_products f = map word_of_int (mul_int (map sint f) (map sint f))"
  using assms bounded_length(1) [OF assms]
  by (elim ten_limbs) (simp only: fe_sq_products_limbs)

definition product_bounds :: "int list" where
  "product_bounds =
     [1526500696134443485, 944100830127147000, 1195452352106279851, 723401934772749000, 864404008078116217] @
     [502703039418351000, 533355664049952583, 282004144063953000, 202307320021788949, 61305248709555000]"

lemma mul_in_product: "mul_int mul_in mul_in = product_bounds"
  by code_simp

lemma product_chains:
  "chain_ok product_carries product_bounds" "chain_ok product_carries (map (\<lambda>b. 2 * b) product_bounds)"
  by code_simp+

lemma product_chain_bounds:
  "list_all2 (\<le>) (fold carry_bound product_carries product_bounds) mul_out"
  "list_all2 (\<le>) (fold carry_bound product_carries (map (\<lambda>b. 2 * b) product_bounds)) mul_out"
  by code_simp+


section \<open>The operations keep their bounds and compute in the field\<close>

definition add_in :: "int list" where
  "add_in = limb_bounds 36909875 18454937"

definition add_out :: "int list" where
  "add_out = limb_bounds 73819750 36909875"

lemma bounded_mono: "bounded bs h \<Longrightarrow> list_all2 (\<le>) bs cs \<Longrightarrow> bounded cs h"
  by (auto simp: bounded_def list_all2_conv_all_nth intro: order_trans)

lemma bounds_nested:
  "list_all2 (\<le>) mul_out add_in" "list_all2 (\<le>) add_in add_out" "list_all2 (\<le>) add_out mul_in"
  by (simp_all add: mul_out_def add_in_def add_out_def mul_in_def limb_bounds_def)

lemma product_carry_val:
  assumes "bounded bs h" and "chain_ok product_carries bs" and "list_all2 (\<le>) (fold carry_bound product_carries bs) mul_out"
  shows "bounded mul_out (narrow (fold carry_limb product_carries h))"
    and "fe_val (narrow (fold carry_limb product_carries h)) mod p25519 = limbs_val (map sint h) mod p25519"
proof -
  have tight: "bounded mul_out (fold carry_limb product_carries h)"
    using carry_chain [OF assms(1,2)] bounded_mono assms(3) by blast
  have small: "\<forall>b\<in>set mul_out. b < 2 ^ 31"
    by (simp add: mul_out_def limb_bounds_def)
  show "bounded mul_out (narrow (fold carry_limb product_carries h))"
    using narrow_val(2) [OF tight small] .
  show "fe_val (narrow (fold carry_limb product_carries h)) mod p25519 = limbs_val (map sint h) mod p25519"
    using carry_chain [OF assms(1,2)] narrow_val(1) [OF tight small] by (simp add: fe_val_def)
qed

lemma product_bounds_small: "\<forall>b\<in>set (mul_int mul_in mul_in). b < 2 ^ 62"
  by (simp add: mul_in_product product_bounds_def)

lemma fe_mul_ok:
  assumes "bounded mul_in f" and "bounded mul_in g"
  shows "bounded mul_out (fe_mul f g)" and "fe_val (fe_mul f g) mod p25519 = fe_val f * fe_val g mod p25519"
proof -
  have "\<forall>b\<in>set (mul_int mul_in mul_in). b < 2 ^ 63"
    using product_bounds_small by fastforce
  note prod = products_bounded [OF fe_mul_products_ok [OF assms] assms this]
  note carried = product_carry_val [OF prod(2) [unfolded mul_in_product] product_chains(1) product_chain_bounds(1)]
  show "bounded mul_out (fe_mul f g)"
    unfolding fe_mul_def by (rule carried(1))
  show "fe_val (fe_mul f g) mod p25519 = fe_val f * fe_val g mod p25519"
    unfolding fe_mul_def carried(2) prod(1) mul_int_val by (simp add: fe_val_def)
qed

lemma fe_sq_eq_mul: "bounded mul_in f \<Longrightarrow> fe_sq f = fe_mul f f"
  by (simp add: fe_sq_def fe_mul_def fe_sq_products_ok fe_mul_products_ok)

lemma limbs_val_scale: "length xs = 10 \<Longrightarrow> limbs_val (map (\<lambda>x. c * x) xs) = c * limbs_val xs"
  by (simp add: limbs_val_def sum_distrib_left mult.assoc)

lemma doubled_ints:
  assumes "bounded mul_in f"
  defines "h \<equiv> map (\<lambda>h0. h0 + h0) (fe_sq_products f)"
  shows "map sint h = map (\<lambda>x. 2 * x) (mul_int (map sint f) (map sint f))" and "bounded (map (\<lambda>b. 2 * b) product_bounds) h"
proof -
  have small: "\<forall>b\<in>set (mul_int mul_in mul_in). b < 2 ^ 63"
    using product_bounds_small by fastforce
  note prod = products_bounded [OF fe_sq_products_ok [OF assms(1)] assms(1) assms(1) small, unfolded mul_in_product]
  let ?h = "fe_sq_products f"
  have dbl: "sint (?h ! i + ?h ! i) = 2 * sint (?h ! i)" "\<bar>2 * sint (?h ! i)\<bar> \<le> 2 * product_bounds ! i" if "i < 10" for i
  proof -
    show le: "\<bar>2 * sint (?h ! i)\<bar> \<le> 2 * product_bounds ! i"
      using boundedD [OF prod(2) that] by simp
    have "product_bounds ! i < 2 ^ 62"
      using product_bounds_small that bounded_length(2) [OF prod(2)] unfolding mul_in_product by simp
    then have "\<bar>2 * sint (?h ! i)\<bar> < 2 ^ 63"
      using le by simp
    moreover have "?h ! i + ?h ! i = word_of_int (2 * sint (?h ! i))"
      by simp
    ultimately show "sint (?h ! i + ?h ! i) = 2 * sint (?h ! i)"
      using sint_of_int_i64 by metis
  qed
  have len: "length ?h = 10" "length product_bounds = 10"
    using bounded_length [OF prod(2)] by simp_all
  show "bounded (map (\<lambda>b. 2 * b) product_bounds) h"
    using len dbl by (simp add: bounded_def h_def)
  have "map sint h = map (\<lambda>x. 2 * x) (map sint ?h)"
    using len dbl(1) by (intro nth_equalityI) (simp_all add: h_def)
  then show "map sint h = map (\<lambda>x. 2 * x) (mul_int (map sint f) (map sint f))"
    by (simp only: prod(1))
qed

lemma fe_sq2_ok:
  assumes "bounded mul_in f"
  shows "bounded mul_out (fe_sq2 f)" and "fe_val (fe_sq2 f) mod p25519 = 2 * fe_val f * fe_val f mod p25519"
proof -
  note carried = product_carry_val [OF doubled_ints(2) [OF assms] product_chains(2) product_chain_bounds(2)]
  show "bounded mul_out (fe_sq2 f)"
    unfolding fe_sq2_def by (rule carried(1))
  have "fe_val (fe_sq2 f) mod p25519 = 2 * limbs_val (mul_int (map sint f) (map sint f)) mod p25519"
    unfolding fe_sq2_def carried(2) doubled_ints(1) [OF assms] by (simp add: limbs_val_scale)
  also have "\<dots> = 2 * (fe_val f * fe_val f) mod p25519"
    using mod_mult_cong [OF refl mul_int_val] by (simp add: fe_val_def)
  finally show "fe_val (fe_sq2 f) mod p25519 = 2 * fe_val f * fe_val f mod p25519"
    by (simp add: mult.assoc)
qed

lemma fe_pointwise:
  assumes "bounded bs f" and "bounded cs g" and "\<And>i. i < 10 \<Longrightarrow> bs ! i + cs ! i < 2 ^ 31"
  shows "map sint (fe_add f g) = map2 (+) (map sint f) (map sint g)" "bounded (map2 (+) bs cs) (fe_add f g)"
    and "map sint (fe_sub f g) = map2 (-) (map sint f) (map sint g)" "bounded (map2 (+) bs cs) (fe_sub f g)"
proof -
  have sum: "sint (f ! i + g ! i) = sint (f ! i) + sint (g ! i)" "\<bar>sint (f ! i) + sint (g ! i)\<bar> \<le> bs ! i + cs ! i"
    and diff: "sint (f ! i - g ! i) = sint (f ! i) - sint (g ! i)" "\<bar>sint (f ! i) - sint (g ! i)\<bar> \<le> bs ! i + cs ! i" if "i < 10" for i
  proof -
    show b: "\<bar>sint (f ! i) + sint (g ! i)\<bar> \<le> bs ! i + cs ! i" "\<bar>sint (f ! i) - sint (g ! i)\<bar> \<le> bs ! i + cs ! i"
      using boundedD [OF assms(1) that] boundedD [OF assms(2) that] by linarith+
    have "f ! i + g ! i = word_of_int (sint (f ! i) + sint (g ! i))" "f ! i - g ! i = word_of_int (sint (f ! i) - sint (g ! i))"
      by simp_all
    then show "sint (f ! i + g ! i) = sint (f ! i) + sint (g ! i)" "sint (f ! i - g ! i) = sint (f ! i) - sint (g ! i)"
      using sint_of_int_i32 [OF le_less_trans [OF b(1) assms(3) [OF that]]] sint_of_int_i32 [OF le_less_trans [OF b(2) assms(3) [OF that]]]
      by metis+
  qed
  show "map sint (fe_add f g) = map2 (+) (map sint f) (map sint g)" "bounded (map2 (+) bs cs) (fe_add f g)"
    "map sint (fe_sub f g) = map2 (-) (map sint f) (map sint g)" "bounded (map2 (+) bs cs) (fe_sub f g)"
    using assms(1,2) sum diff by (auto simp: fe_add_def fe_sub_def bounded_def intro!: nth_equalityI)
qed

lemma limbs_val_pointwise:
  assumes "length xs = 10" and "length ys = 10"
  shows "limbs_val (map2 (+) xs ys) = limbs_val xs + limbs_val ys" "limbs_val (map2 (-) xs ys) = limbs_val xs - limbs_val ys"
  using assms by (simp_all add: limbs_val_def sum.distrib [symmetric] sum_subtractf [symmetric] algebra_simps)

lemma add_in_sum: "i < 10 \<Longrightarrow> add_in ! i + add_in ! i < 2 ^ 31" "list_all2 (\<le>) (map2 (+) add_in add_in) add_out"
proof -
  have "\<forall>i\<in>set [0..<10]. add_in ! i + add_in ! i < 2 ^ 31"
    by code_simp
  then show "i < 10 \<Longrightarrow> add_in ! i + add_in ! i < 2 ^ 31"
    by simp
  show "list_all2 (\<le>) (map2 (+) add_in add_in) add_out"
    by (simp add: add_in_def add_out_def limb_bounds_def)
qed

lemma fe_add_sub_ok:
  assumes "bounded add_in f" and "bounded add_in g"
  shows "bounded add_out (fe_add f g)" "fe_val (fe_add f g) = fe_val f + fe_val g"
    and "bounded add_out (fe_sub f g)" "fe_val (fe_sub f g) = fe_val f - fe_val g"
  using fe_pointwise [OF assms add_in_sum(1)] bounded_mono [OF _ add_in_sum(2)] bounded_length(1) [OF assms(1)]
    bounded_length(1) [OF assms(2)]
  by (simp_all add: fe_val_def limbs_val_pointwise)

lemma fe_neg_ok:
  assumes "bounded add_in f"
  shows "bounded add_in (fe_neg f)" "fe_val (fe_neg f) = - fe_val f"
proof -
  have zero: "bounded add_in fe_0" "fe_val fe_0 = 0"
    by (simp_all add: bounded_def fe_0_def add_in_def limb_bounds_def fe_val_def limbs_val_def sum10)
      (auto simp: less_Suc_eq numeral_eq_Suc)
  have neg: "fe_neg f = fe_sub fe_0 f"
    using bounded_length(1) [OF assms] by (elim ten_limbs) (simp add: fe_neg_def fe_sub_def fe_0_def)
  have minus: "sint (- (f ! i)) = - sint (f ! i)" if "i < 10" for i
  proof -
    have "map sint (fe_sub fe_0 f) ! i = - sint (f ! i)"
      using fe_pointwise(3) [OF zero(1) assms add_in_sum(1)] that bounded_length(1) [OF assms] zero(1)
      by (auto simp: fe_0_def numeral_eq_Suc less_Suc_eq)
    then show ?thesis
      using that bounded_length(1) [OF assms] by (simp add: neg [symmetric] fe_neg_def)
  qed
  show "bounded add_in (fe_neg f)"
    using assms by (simp add: bounded_def fe_neg_def minus)
  show "fe_val (fe_neg f) = - fe_val f"
    using fe_add_sub_ok(4) [OF zero(1) assms] by (simp add: neg zero(2))
qed

end
