(* ===== verification/FieldBytes.thy ===== *)
theory FieldBytes
  imports FieldArith
begin

text \<open>
  Field elements and bytes: the little-endian loads of \<open>fe_frombytes\<close>, the exact quotient and
  the full reduction of \<open>fe_tobytes\<close>, and the packing of limbs of 26 and 25 bits into 32 bytes.
\<close>

section \<open>Bytes into limbs\<close>

definition le_val :: "bytes \<Rightarrow> int" where
  "le_val s = horner_sum uint 256 s"

lemma le_val_simps [simp]: "le_val [] = 0" "le_val (b # s) = uint b + 256 * le_val s"
  by (simp_all add: le_val_def)

lemma le_val_bounds: "0 \<le> le_val s" "le_val s < 256 ^ length s"
proof -
  have "0 \<le> le_val s \<and> le_val s < 256 ^ length s"
  proof (induction s)
    case (Cons b s)
    have "uint b < 256" "0 \<le> uint b"
      using uint_lt2p [of b] by simp_all
    then show ?case
      using Cons.IH by auto
  qed simp
  then show "0 \<le> le_val s" "le_val s < 256 ^ length s"
    by auto
qed

lemma le_val_append: "le_val (s @ t) = le_val s + 256 ^ length s * le_val t"
  by (induction s) (simp_all add: algebra_simps)

lemma radix_int_eq:
  fixes a b x y :: int
  assumes "0 \<le> a" "a < 256" "0 \<le> b" "b < 256" "a + 256 * x = b + 256 * y"
  shows "a = b \<and> x = y"
proof -
  have "(a + 256 * x) mod 256 = (b + 256 * y) mod 256"
    by (simp only: assms(5))
  then have "a = b"
    using assms(1-4) by simp
  then show ?thesis
    using assms(5) by simp
qed

lemma le_val_inj: "length s = length t \<Longrightarrow> le_val s = le_val t \<Longrightarrow> s = t"
proof (induction s t rule: list_induct2)
  case (Cons a s b t)
  have "uint a < 256" "0 \<le> uint a" "uint b < 256" "0 \<le> uint b"
    using uint_lt2p [of a] uint_lt2p [of b] by simp_all
  moreover have "uint a + 256 * le_val s = uint b + 256 * le_val t"
    using Cons.prems by simp
  ultimately have "uint a = uint b \<and> le_val s = le_val t"
    using radix_int_eq by blast
  then show ?case
    using Cons.IH by (simp add: unsigned_word_eqI)
qed simp

definition load_3_int :: "bytes \<Rightarrow> nat \<Rightarrow> int" where
  "load_3_int s i = uint (s ! i) + 2 ^ 8 * uint (s ! (i + 1)) + 2 ^ 16 * uint (s ! (i + 2))"

lemma or_shift_add:
  assumes "\<And>n. k \<le> n \<Longrightarrow> \<not> bit a n"
  shows "a OR push_bit k b = a + push_bit k (b :: 'a::len word)"
proof -
  have "a AND push_bit k b = 0"
    using assms by (intro bit_word_eqI) (auto simp: bit_simps)
  then show ?thesis
    by (simp add: disjunctive_add_eq_or)
qed

lemma load_3_word: "load_3 s i = word_of_int (load_3_int s i)"
proof -
  have "load_3 s i = (ucast (s ! i) + push_bit 8 (ucast (s ! (i + 1)))) + push_bit 16 (ucast (s ! (i + 2)))"
    unfolding load_3_def
    by (subst or.assoc [symmetric], subst or_shift_add, simp add: bit_simps, subst or_shift_add, simp add: bit_simps, rule refl)
  then show ?thesis
    by (simp add: load_3_int_def push_bit_eq_mult algebra_simps)
qed

lemma load_4_word: "load_4 s i = word_of_int (load_3_int s i + 2 ^ 24 * uint (s ! (i + 3)))"
proof -
  have "load_4 s i = load_3 s i OR push_bit 24 (ucast (s ! (i + 3)))"
    by (simp only: load_4_def load_3_def or.assoc)
  also have "\<dots> = load_3 s i + push_bit 24 (ucast (s ! (i + 3)))"
    by (rule or_shift_add) (simp add: load_3_def bit_simps)
  finally show ?thesis
    by (simp add: load_3_word push_bit_eq_mult algebra_simps)
qed

definition load_int :: "bytes \<Rightarrow> int list" where
  "load_int s = [load_3_int s 0 + 2 ^ 24 * uint (s ! 3), 2 ^ 6 * load_3_int s 4, 2 ^ 5 * load_3_int s 7, 2 ^ 3 * load_3_int s 10,
     2 ^ 2 * load_3_int s 13, load_3_int s 16 + 2 ^ 24 * uint (s ! 19), 2 ^ 7 * load_3_int s 20, 2 ^ 5 * load_3_int s 23,
     2 ^ 4 * load_3_int s 26, 2 ^ 2 * (load_3_int s 29 mod 2 ^ 23)]"

definition load_bounds :: "int list" where
  "load_bounds = [2 ^ 32, 2 ^ 30, 2 ^ 29, 2 ^ 27, 2 ^ 26, 2 ^ 32, 2 ^ 31, 2 ^ 29, 2 ^ 28, 2 ^ 25]"

lemma fe_load_int: "fe_load s = map word_of_int (load_int s)"
proof -
  have "load_3 s 29 AND 8388607 = take_bit 23 (load_3 s 29)"
    by (simp add: take_bit_eq_mask mask_eq_exp_minus_1)
  also have "\<dots> = word_of_int (take_bit 23 (load_3_int s 29))"
    unfolding load_3_word by (rule bit_word_eqI) (simp add: bit_simps)
  finally have "load_3 s 29 AND 8388607 = word_of_int (load_3_int s 29 mod 2 ^ 23)"
    by (simp only: take_bit_eq_mod)
  then show ?thesis
    by (simp add: fe_load_def load_int_def load_4_word load_3_word push_bit_eq_mult)
qed

lemma byte_int: "0 \<le> uint (b :: byte)" "uint b < 256"
  using uint_lt2p [of b] by simp_all

lemma load_3_bounds: "0 \<le> load_3_int s i" "load_3_int s i < 2 ^ 24"
  using byte_int [of "s ! i"] byte_int [of "s ! (i + 1)"] byte_int [of "s ! (i + 2)"] unfolding load_3_int_def by auto

lemma load_int_bounds: "\<forall>i\<in>set [0, 1, 2, 3, 4, 5, 6, 7, 8, 9]. \<bar>load_int s ! i\<bar> \<le> load_bounds ! i"
proof -
  have scaled: "\<bar>c * load_3_int s i\<bar> \<le> b" if "0 \<le> c" "c * 2 ^ 24 \<le> b" for c b i
    using mult_left_mono [OF less_imp_le [OF load_3_bounds(2) [of s i]] that(1)] that load_3_bounds(1) [of s i]
    by (simp add: abs_mult)
  have four: "\<bar>load_3_int s i + 16777216 * uint (s ! j)\<bar> \<le> 4294967296" for i j
    using load_3_bounds [of s i] byte_int [of "s ! j"] by simp
  have top: "\<bar>4 * (load_3_int s 29 mod 8388608)\<bar> \<le> 33554432"
    using pos_mod_bound [of 8388608 "load_3_int s 29"] pos_mod_sign [of 8388608 "load_3_int s 29"] by simp
  show ?thesis
    by (simp add: load_int_def load_bounds_def scaled four top)
qed

lemma length_load [simp]: "length (load_int s) = 10" "length load_bounds = 10"
  by (simp_all add: load_int_def load_bounds_def)

lemma fe_load_ok: "map sint (fe_load s) = load_int s" "bounded load_bounds (fe_load s)"
proof -
  have le: "\<bar>load_int s ! i\<bar> \<le> load_bounds ! i" if "i < 10" for i
    using load_int_bounds [of s] that unfolding upt10 [symmetric] by simp
  have "load_bounds ! i < 2 ^ 63" if "i < 10" for i
  proof -
    have "\<forall>i\<in>set [0..<10]. load_bounds ! i < 2 ^ 63"
      by code_simp
    then show ?thesis
      using that by simp
  qed
  then have "sint (fe_load s ! i) = load_int s ! i" if "i < 10" for i
    using le_less_trans [OF le] that by (simp add: fe_load_int sint_of_int_i64)
  then show "map sint (fe_load s) = load_int s" "bounded load_bounds (fe_load s)"
    using le by (auto simp: bounded_def fe_load_int intro!: nth_equalityI)
qed

lemma le_val_sum: "le_val s = (\<Sum>i<length s. uint (s ! i) * 256 ^ i)"
proof (induction s)
  case (Cons b s)
  have "(\<Sum>i<length (b # s). uint ((b # s) ! i) * 256 ^ i) = uint b + (\<Sum>i<length s. uint (s ! i) * 256 ^ Suc i)"
    by (simp only: length_Cons sum.lessThan_Suc_shift) simp
  then show ?case
    by (simp add: Cons.IH sum_distrib_left ac_simps)
qed simp

lemma split_at_top:
  assumes "0 \<le> r" and "r < 2 ^ a"
  shows "(r + 2 ^ a * t) mod 2 ^ (a + b) = r + 2 ^ a * (t mod (2 :: int) ^ b)"
proof -
  have "(r + 2 ^ a * t) mod (2 ^ a * 2 ^ b) = 2 ^ a * ((r + 2 ^ a * t) div 2 ^ a mod 2 ^ b) + (r + 2 ^ a * t) mod 2 ^ a"
    by (rule zmod_zmult2_eq) simp
  then show ?thesis
    using assms by (simp add: power_add)
qed

lemma le_val_load:
  assumes "length s = 32"
  shows "limbs_val (load_int s) = le_val s mod 2 ^ 255"
proof -
  have len: "length (take 29 s) = 29" "length (drop 29 s) = 3"
    using assms by simp_all
  have low: "le_val (take 29 s) = (\<Sum>i<29. uint (s ! i) * 256 ^ i)"
    unfolding le_val_sum len(1) by (intro sum.cong) simp_all
  have "drop 29 s = [s ! 29, s ! 30, s ! 31]"
    using len(2) assms by (simp add: numeral_eq_Suc list_eq_iff_nth_eq less_Suc_eq)
  then have high: "le_val (drop 29 s) = load_3_int s 29"
    by (simp add: load_3_int_def)
  have "le_val s = le_val (take 29 s) + 2 ^ 232 * load_3_int s 29"
    using le_val_append [of "take 29 s" "drop 29 s"] by (simp add: high assms)
  moreover have "0 \<le> le_val (take 29 s)" "le_val (take 29 s) < 2 ^ 232"
    using le_val_bounds [of "take 29 s"] len(1) by simp_all
  ultimately have "le_val s mod 2 ^ 255 = le_val (take 29 s) + 2 ^ 232 * (load_3_int s 29 mod 2 ^ 23)"
    using split_at_top [of "le_val (take 29 s)" 232 "load_3_int s 29" 23] by simp
  also have "\<dots> = limbs_val (load_int s)"
    unfolding low by (simp add: limbs_val_def sum10 load_int_def limb_pos_def lessThan_nat_numeral load_3_int_def [of s 0]
      load_3_int_def [of s 4] load_3_int_def [of s 7] load_3_int_def [of s 10] load_3_int_def [of s 13] load_3_int_def [of s 16]
      load_3_int_def [of s 20] load_3_int_def [of s 23] load_3_int_def [of s 26]) (simp add: numeral_2_eq_2)
  finally show ?thesis ..
qed

lemma plain_carry_val:
  assumes "bounded bs h" and "chain_ok plain_carries bs" and "list_all2 (\<le>) (fold carry_bound plain_carries bs) cs"
    and "\<forall>b\<in>set cs. b < 2 ^ 31"
  shows "bounded cs (narrow (fold carry_limb plain_carries h))"
    and "fe_val (narrow (fold carry_limb plain_carries h)) mod p25519 = limbs_val (map sint h) mod p25519"
proof -
  have tight: "bounded cs (fold carry_limb plain_carries h)"
    using carry_chain [OF assms(1,2)] bounded_mono assms(3) by blast
  show "bounded cs (narrow (fold carry_limb plain_carries h))"
    using narrow_val(2) [OF tight assms(4)] .
  show "fe_val (narrow (fold carry_limb plain_carries h)) mod p25519 = limbs_val (map sint h) mod p25519"
    using carry_chain [OF assms(1,2)] narrow_val(1) [OF tight assms(4)] by (simp add: fe_val_def)
qed

lemma load_chain:
  "chain_ok plain_carries load_bounds" "list_all2 (\<le>) (fold carry_bound plain_carries load_bounds) mul_out"
  "\<forall>b\<in>set mul_out. b < 2 ^ 31" "\<forall>b\<in>set add_in. b < 2 ^ 31"
  by code_simp+

lemma fe_frombytes_ok:
  assumes "length s = 32"
  shows "bounded mul_out (fe_frombytes s)" and "fe_val (fe_frombytes s) mod p25519 = le_val s mod 2 ^ 255 mod p25519"
  unfolding fe_frombytes_def
  using plain_carry_val [OF fe_load_ok(2) load_chain(1-3)] fe_load_ok(1) [of s] le_val_load [OF assms] by simp_all

definition scaled_bounds :: "int list" where
  "scaled_bounds = map (\<lambda>b. b * 121666) add_out"

lemma scale_chain:
  "chain_ok plain_carries scaled_bounds" "list_all2 (\<le>) (fold carry_bound plain_carries scaled_bounds) add_in"
  "\<forall>b\<in>set scaled_bounds. b < 2 ^ 63"
  by code_simp+

lemma scaled_ints:
  assumes "bounded add_out f"
  defines "h \<equiv> map (\<lambda>f0. scast f0 * 121666) f :: i64 list"
  shows "map sint h = map (\<lambda>x. x * 121666) (map sint f)" and "bounded scaled_bounds h"
proof -
  have len: "length f = 10" "length add_out = 10"
    using bounded_length [OF assms(1)] by simp_all
  have le: "\<bar>sint (f ! i) * 121666\<bar> \<le> scaled_bounds ! i" if "i < 10" for i
    using boundedD [OF assms(1) that] that len by (simp add: scaled_bounds_def abs_mult)
  have "sint (h ! i) = sint (f ! i) * 121666" if "i < 10" for i
  proof -
    have "scaled_bounds ! i < 2 ^ 63"
      using scale_chain(3) that len by (simp add: scaled_bounds_def)
    moreover have "h ! i = word_of_int (sint (f ! i) * 121666)"
      using that len by (simp add: h_def)
    ultimately show ?thesis
      using sint_of_int_i64 [OF le_less_trans [OF le [OF that]]] by metis
  qed
  then show "map sint h = map (\<lambda>x. x * 121666) (map sint f)" and "bounded scaled_bounds h"
    using len le by (intro nth_equalityI, simp_all add: bounded_def scaled_bounds_def h_def)
qed

lemma fe_mul121666_ok:
  assumes "bounded add_out f"
  shows "bounded add_in (fe_mul121666 f)" and "fe_val (fe_mul121666 f) mod p25519 = fe_val f * 121666 mod p25519"
proof -
  note carried = plain_carry_val [OF scaled_ints(2) [OF assms] scale_chain(1,2) load_chain(4)]
  show "bounded add_in (fe_mul121666 f)"
    unfolding fe_mul121666_def by (rule carried(1))
  show "fe_val (fe_mul121666 f) mod p25519 = fe_val f * 121666 mod p25519"
    unfolding fe_mul121666_def carried(2) scaled_ints(1) [OF assms] using bounded_length(1) [OF assms] limbs_val_scale [of "map sint f" 121666]
    by (simp add: fe_val_def mult.commute)
qed

section \<open>Full reduction\<close>

definition quotient_int :: "int list \<Rightarrow> int" where
  "quotient_int xs = fold (\<lambda>i q. (xs ! i + q) div 2 ^ limb_width i) [0..<10] ((19 * xs ! 9 + 2 ^ 24) div 2 ^ 25)"

lemma fold_snoc_upt: "fold f [0..<Suc n] s = f n (fold f [0..<n] s)"
  by simp

lemma limb_pos_Suc: "limb_pos (Suc i) = limb_pos i + limb_width i"
  by (auto simp: limb_pos_def limb_width_def elim!: evenE oddE)

lemma quotient_fold:
  "fold (\<lambda>i q. (xs ! i + q) div 2 ^ limb_width i) [0..<n] q0 = ((\<Sum>i<n. xs ! i * 2 ^ limb_pos i) + q0) div (2 :: int) ^ limb_pos n"
proof (induction n)
  case 0
  then show ?case
    by (simp add: limb_pos_def)
next
  case (Suc n)
  let ?s = "(\<Sum>i<n. xs ! i * 2 ^ limb_pos i) + q0"
  have "(xs ! n + ?s div 2 ^ limb_pos n) div 2 ^ limb_width n = (?s + xs ! n * 2 ^ limb_pos n) div 2 ^ limb_pos n div 2 ^ limb_width n"
    by (simp add: add.commute)
  also have "\<dots> = (?s + xs ! n * 2 ^ limb_pos n) div 2 ^ limb_pos (Suc n)"
    by (simp add: zdiv_zmult2_eq limb_pos_Suc power_add)
  finally show ?case
    by (simp only: fold_snoc_upt Suc.IH sum.lessThan_Suc) (simp add: algebra_simps)
qed

lemma quotient_int_val: "quotient_int xs = (limbs_val xs + (19 * xs ! 9 + 2 ^ 24) div 2 ^ 25) div 2 ^ 255"
  unfolding quotient_int_def quotient_fold by (simp add: limbs_val_def limb_pos_def)

text \<open>
  The quotient is exact: subtracting it times the prime leaves the canonical residue.  The
  bounds are those of \<open>fe_tobytes\<close>; the quotient is then between -2 and 1.
\<close>

lemma quotient_exact:
  assumes "\<bar>xs ! 9\<bar> \<le> 36909875" and "\<bar>limbs_val xs - 2 ^ 230 * xs ! 9\<bar> \<le> 2 ^ 231"
  shows "0 \<le> limbs_val xs - p25519 * quotient_int xs" and "limbs_val xs - p25519 * quotient_int xs < p25519"
    and "\<bar>quotient_int xs\<bar> \<le> 2"
proof -
  define H where "H = limbs_val xs"
  define h9 where "h9 = xs ! 9"
  define q0 where "q0 = (19 * h9 + 2 ^ 24) div 2 ^ 25"
  define e where "e = (19 * h9 + 2 ^ 24) mod 2 ^ 25"
  define q where "q = (H + q0) div 2 ^ 255"
  define t where "t = (H + q0) mod 2 ^ 255"
  have q0: "2 ^ 25 * q0 = 19 * h9 + 2 ^ 24 - e" "0 \<le> e" "e < 2 ^ 25"
    unfolding q0_def e_def by (simp_all add: minus_mod_eq_mult_div [symmetric])
  have q: "H + q0 = 2 ^ 255 * q + t" "0 \<le> t" "t < 2 ^ 255"
    unfolding q_def t_def by (simp_all add: minus_mod_eq_mult_div [symmetric])
  have h: "\<bar>h9\<bar> \<le> 36909875" "\<bar>H - 2 ^ 230 * h9\<bar> \<le> 2 ^ 231"
    using assms by (simp_all add: H_def h9_def)
  have eq: "quotient_int xs = q"
    unfolding quotient_int_val q_def H_def q0_def h9_def ..
  show "0 \<le> limbs_val xs - p25519 * quotient_int xs"
    unfolding eq H_def [symmetric] p25519_def using q0 q h by simp
  show "limbs_val xs - p25519 * quotient_int xs < p25519"
    unfolding eq H_def [symmetric] p25519_def using q0 q h by simp
  show "\<bar>quotient_int xs\<bar> \<le> 2"
    unfolding eq using q0 q h by simp
qed

lemma small_quotient:
  fixes x w :: int
  assumes "\<bar>x\<bar> \<le> b" and "2 ^ 25 \<le> w" and "b \<le> 30 * 2 ^ 25"
  shows "\<bar>x div w\<bar> \<le> 30"
proof -
  have "x div w \<le> 30"
  proof -
    have "x div w \<le> (30 * w) div w"
      using assms by (intro zdiv_mono1) simp_all
    then show ?thesis
      using assms(2) by simp
  qed
  moreover have "- 30 \<le> x div w"
  proof -
    have "((- 30) * w) div w \<le> x div w"
      using assms by (intro zdiv_mono1) simp_all
    then show ?thesis
      using assms(2) nonzero_mult_div_cancel_right [of w "- 30"] by simp
  qed
  ultimately show ?thesis
    by simp
qed

lemma i32_shift:
  assumes "\<bar>sint x + sint y\<bar> < 2 ^ 31"
  shows "sint (signed_drop_bit w (x + y :: i32)) = (sint x + sint y) div 2 ^ w"
proof -
  have "x + y = word_of_int (sint x + sint y)"
    by simp
  then have "sint (x + y) = sint x + sint y"
    using sint_of_int_i32 [OF assms] by metis
  then show ?thesis
    by (simp add: signed_shift)
qed

lemma add_out_limbs: "bounded add_out f \<Longrightarrow> i < 10 \<Longrightarrow> \<bar>sint (f ! i)\<bar> \<le> 73819750"
proof -
  assume f: "bounded add_out f" and i: "i < 10"
  have "\<forall>i\<in>set [0..<10]. add_out ! i \<le> 73819750"
    by code_simp
  then show "\<bar>sint (f ! i)\<bar> \<le> 73819750"
    using boundedD [OF f i] i order_trans by fastforce
qed

lemma width_power: "(2 :: int) ^ 25 \<le> 2 ^ limb_width i"
  by (simp add: limb_width_def)

lemma fe_quotient_val:
  assumes "bounded add_out f"
  shows "sint (fe_quotient f) = quotient_int (map sint f)"
proof -
  have f9: "\<bar>sint (f ! 9)\<bar> \<le> 36909875"
    using boundedD [OF assms, of 9] by (simp add: add_out_def limb_bounds_def)
  have "19 * f ! 9 = word_of_int (19 * sint (f ! 9))"
    by simp
  moreover have "\<bar>19 * sint (f ! 9)\<bar> < 2 ^ 31"
    using f9 by simp
  ultimately have nineteen: "sint (19 * f ! 9) = 19 * sint (f ! 9)"
    using sint_of_int_i32 by metis
  let ?w = "signed_drop_bit 25 (19 * f ! 9 + push_bit 24 1)" and ?q = "(19 * sint (f ! 9) + 2 ^ 24) div 2 ^ 25"
  have start: "sint ?w = ?q" "\<bar>?q\<bar> \<le> 30"
    using f9 i32_shift [of "19 * f ! 9" "push_bit 24 1" 25] small_quotient [of "19 * sint (f ! 9) + 2 ^ 24" "30 * 2 ^ 25" "2 ^ 25"]
    by (simp_all add: nineteen)
  let ?F = "\<lambda>n. fold (\<lambda>i q. signed_drop_bit (limb_width i) (f ! i + q)) [0..<n] ?w"
  let ?G = "\<lambda>n. fold (\<lambda>i q. (map sint f ! i + q) div 2 ^ limb_width i) [0..<n] ?q"
  have "n \<le> 10 \<Longrightarrow> sint (?F n) = ?G n \<and> \<bar>?G n\<bar> \<le> 30" for n
  proof (induction n)
    case (Suc n)
    then have IH: "sint (?F n) = ?G n" "\<bar>?G n\<bar> \<le> 30" and n: "n < 10" "n < length f"
      using bounded_length(1) [OF assms] by simp_all
    have b: "\<bar>sint (f ! n) + ?G n\<bar> \<le> 73819780"
      using add_out_limbs [OF assms n(1)] IH(2) by linarith
    have "sint (?F (Suc n)) = ?G (Suc n)"
      unfolding fold_snoc_upt using b n(2) IH(1) by (subst i32_shift) simp_all
    moreover have "\<bar>?G (Suc n)\<bar> \<le> 30"
      unfolding fold_snoc_upt using small_quotient [OF b width_power] n(2) by simp
    ultimately show ?case
      by blast
  qed (use start in simp)
  from this [of 10] show ?thesis
    using bounded_length(1) [OF assms] by (simp add: fe_quotient_def quotient_int_def)
qed

definition reducing :: "nat \<Rightarrow> int \<Rightarrow> fe \<Rightarrow> bool" where
  "reducing n V h \<longleftrightarrow> length h = 10 \<and> limbs_val (map sint h) mod 2 ^ 255 = V mod 2 ^ 255 \<and>
     (\<forall>i<10. if i < n then 0 \<le> sint (h ! i) \<and> sint (h ! i) < 2 ^ limb_width i
        else \<bar>sint (h ! i)\<bar> \<le> (if i = n then 73819900 else 73819800))"

lemma floor_carry_step:
  assumes "reducing n V h" and "n < 10"
  shows "reducing (Suc n) V (floor_carry n h)"
proof -
  have len: "length h = 10" and val: "limbs_val (map sint h) mod 2 ^ 255 = V mod 2 ^ 255"
    and limbs: "\<And>i. i < 10 \<Longrightarrow> if i < n then 0 \<le> sint (h ! i) \<and> sint (h ! i) < 2 ^ limb_width i
        else \<bar>sint (h ! i)\<bar> \<le> (if i = n then 73819900 else 73819800)"
    using assms(1) by (auto simp: reducing_def)
  define w where "w = limb_width n"
  define c where "c = signed_drop_bit w (h ! n)"
  have c: "sint c = sint (h ! n) div 2 ^ w"
    by (simp add: c_def signed_shift)
  have c_le: "\<bar>sint c\<bar> \<le> 30"
    unfolding c w_def using limbs [OF assms(2)] by (intro small_quotient [of _ 73819900, OF _ width_power]) simp_all
  have "h ! n - push_bit w c = word_of_int (sint (h ! n) - sint c * 2 ^ w)"
    by (simp add: push_bit_eq_mult)
  then have "h ! n - push_bit w c = word_of_int (sint (h ! n) mod 2 ^ w)"
    by (simp only: minus_div_mult_eq_mod c)
  moreover have r: "0 \<le> sint (h ! n) mod 2 ^ w" "sint (h ! n) mod 2 ^ w < 2 ^ w" "(2 :: int) ^ w < 2 ^ 31"
    by (simp_all add: w_def limb_width_def)
  moreover have "\<bar>sint (h ! n) mod 2 ^ w\<bar> < 2 ^ 31"
    using r by linarith
  ultimately have low: "sint (h ! n - push_bit w c) = sint (h ! n) mod 2 ^ w"
    by (simp only: sint_of_int_i32)
  have up: "sint (h ! Suc n + c) = sint (h ! Suc n) + sint c" "\<bar>sint (h ! Suc n) + sint c\<bar> \<le> 73819900" if "Suc n < 10"
  proof -
    show b: "\<bar>sint (h ! Suc n) + sint c\<bar> \<le> 73819900"
      using limbs [OF that] c_le by simp
    have "h ! Suc n + c = word_of_int (sint (h ! Suc n) + sint c)"
      by simp
    then show "sint (h ! Suc n + c) = sint (h ! Suc n) + sint c"
      using b sint_of_int_i32 [of "sint (h ! Suc n) + sint c"] by simp
  qed
  have step: "floor_carry n h = (if n = 9 then h else h[Suc n := h ! Suc n + c])[n := h ! n - push_bit w c]"
    by (simp add: floor_carry_def Let_def c_def w_def)
  have split: "sint (h ! n) mod 2 ^ w - sint (h ! n) = - (sint c * 2 ^ w)"
    by (simp add: c minus_div_mult_eq_mod [symmetric])
  have "\<exists>m. limbs_val (map sint (floor_carry n h)) = limbs_val (map sint h) + m * 2 ^ 255"
  proof (cases "n = 9")
    case True
    then have "limbs_val (map sint (floor_carry n h)) = limbs_val (map sint h) + (sint (h ! n) mod 2 ^ w - sint (h ! n)) * 2 ^ limb_pos n"
      unfolding step map_update low using len assms(2) by (simp add: limbs_val_update)
    moreover have "(2 :: int) ^ w * 2 ^ limb_pos n = 2 ^ 255"
      using True by (simp add: w_def limb_width_def limb_pos_def)
    ultimately have "limbs_val (map sint (floor_carry n h)) = limbs_val (map sint h) + (- sint c) * 2 ^ 255"
      unfolding split by (simp only: mult_minus_left mult.assoc)
    then show ?thesis
      by blast
  next
    case False
    then have n: "Suc n < 10"
      using assms(2) by simp
    then have "limbs_val (map sint (floor_carry n h)) =
        limbs_val (map sint h) + sint c * 2 ^ limb_pos (Suc n) + (sint (h ! n) mod 2 ^ w - sint (h ! n)) * 2 ^ limb_pos n"
      unfolding step map_update low using len False assms(2) by (simp add: map_update up(1) limbs_val_update)
    then have "limbs_val (map sint (floor_carry n h)) = limbs_val (map sint h)"
      unfolding split by (simp add: limb_pos_Suc w_def power_add algebra_simps)
    then show ?thesis
      by (intro exI [of _ 0]) simp
  qed
  then have "limbs_val (map sint (floor_carry n h)) mod 2 ^ 255 = V mod 2 ^ 255"
    using val by auto
  moreover have "length (floor_carry n h) = 10"
    by (simp add: step len)
  moreover have low_range: "0 \<le> sint (h ! n - push_bit (limb_width n) c)" "sint (h ! n - push_bit (limb_width n) c) < 2 ^ limb_width n"
    using r(1,2) low unfolding w_def by (simp_all only:)
  moreover have "if i < Suc n then 0 \<le> sint (floor_carry n h ! i) \<and> sint (floor_carry n h ! i) < 2 ^ limb_width i
        else \<bar>sint (floor_carry n h ! i)\<bar> \<le> (if i = Suc n then 73819900 else 73819800)" if "i < 10" for i
    using limbs [OF that] that assms(2) len up low_range by (auto simp: step nth_list_update w_def)
  ultimately show ?thesis
    unfolding reducing_def by blast
qed

lemma fe_reduce_ok:
  assumes "bounded add_out f"
  shows "reducing 10 (fe_val f mod p25519) (fe_reduce f)" and "limbs_val (map sint (fe_reduce f)) = fe_val f mod p25519"
proof -
  let ?q = "quotient_int (map sint f)" and ?V = "fe_val f - p25519 * quotient_int (map sint f)"
  have len: "length f = 10"
    using bounded_length(1) [OF assms] .
  have limbs: "\<forall>i\<in>set [0..<10]. \<bar>sint (f ! i)\<bar> \<le> add_out ! i"
    using boundedD [OF assms] by simp
  then have "\<bar>sint (f ! 9)\<bar> \<le> 36909875" and "\<bar>fe_val f - 2 ^ 230 * sint (f ! 9)\<bar> \<le> 2 ^ 231"
    unfolding upt10 by (simp_all add: add_out_def limb_bounds_def fe_val_def limbs_val_def sum10 len limb_pos_def abs_le_iff)
  then have exact: "0 \<le> ?V" "?V < p25519" "\<bar>?q\<bar> \<le> 2"
    using quotient_exact [of "map sint f"] len by (simp_all add: fe_val_def)
  then have canon: "?V = fe_val f mod p25519"
    using mod_pos_pos_trivial [OF exact(1,2)] mod_mult_self2 [of ?V p25519 ?q] by simp
  let ?h = "f[0 := f ! 0 + 19 * fe_quotient f]"
  have "f ! 0 + 19 * fe_quotient f = word_of_int (sint (f ! 0) + 19 * ?q)"
    by (simp add: fe_quotient_val [OF assms, symmetric])
  moreover have b: "\<bar>sint (f ! 0) + 19 * ?q\<bar> \<le> 73819800"
    using add_out_limbs [OF assms, of 0] exact(3) by simp
  ultimately have s0: "sint (f ! 0 + 19 * fe_quotient f) = sint (f ! 0) + 19 * ?q"
    using sint_of_int_i32 [of "sint (f ! 0) + 19 * ?q"] by simp
  have "limbs_val (map sint ?h) = fe_val f + 19 * ?q"
    using len by (simp add: map_update limbs_val_update s0 fe_val_def limb_pos_def)
  also have "\<dots> = ?V + ?q * 2 ^ 255"
    by (simp add: p25519_def algebra_simps)
  finally have start: "limbs_val (map sint ?h) mod 2 ^ 255 = ?V mod 2 ^ 255"
    by simp
  have "\<bar>sint (?h ! i)\<bar> \<le> 73819800" if "i < 10" for i
    using add_out_limbs [OF assms that] b len by (cases "i = 0") (simp_all add: s0)
  then have "reducing 0 ?V ?h"
    using len start by (fastforce simp: reducing_def)
  moreover have "n \<le> 10 \<Longrightarrow> reducing 0 V h \<Longrightarrow> reducing n V (fold floor_carry [0..<n] h)" for n V h
    by (induction n) (simp_all only: fold_snoc_upt floor_carry_step Suc_le_eq order.strict_implies_order upt_0 fold_simps(1))
  ultimately have "reducing 10 ?V (fe_reduce f)"
    by (simp add: fe_reduce_def)
  then show red: "reducing 10 (fe_val f mod p25519) (fe_reduce f)"
    unfolding canon .
  have "0 \<le> limbs_val (map sint (fe_reduce f))" "limbs_val (map sint (fe_reduce f)) < 2 ^ 255"
  proof -
    have len: "length (fe_reduce f) = 10" and
      "\<forall>i\<in>set [0..<10]. 0 \<le> sint (fe_reduce f ! i) \<and> sint (fe_reduce f ! i) < 2 ^ limb_width i"
      using red by (auto simp: reducing_def)
    then show "0 \<le> limbs_val (map sint (fe_reduce f))" "limbs_val (map sint (fe_reduce f)) < 2 ^ 255"
      unfolding upt10 by (simp_all add: limbs_val_def sum10 limb_pos_def limb_width_def)
  qed
  moreover have "limbs_val (map sint (fe_reduce f)) mod 2 ^ 255 = (fe_val f mod p25519) mod 2 ^ 255"
    using red by (simp add: reducing_def)
  moreover have "0 \<le> fe_val f mod p25519" "fe_val f mod p25519 < 2 ^ 255"
    using exact(1,2) by (simp_all add: canon [symmetric] p25519_def)
  ultimately show "limbs_val (map sint (fe_reduce f)) = fe_val f mod p25519"
    by simp
qed

section \<open>Limbs into bytes\<close>

lemma uint_byte_shift: "n \<le> 24 \<Longrightarrow> uint (ucast (signed_drop_bit n (h :: i32)) :: byte) = uint h div 2 ^ n mod 256"
proof -
  assume "n \<le> 24"
  then have "(ucast (signed_drop_bit n h) :: byte) = ucast (drop_bit n h)"
    by (intro bit_word_eqI) (auto simp: bit_simps)
  then have "uint (ucast (signed_drop_bit n h) :: byte) = take_bit 8 (drop_bit n (uint h))"
    by (simp add: unsigned_ucast_eq unsigned_drop_bit_eq bintr_uint)
  then show ?thesis
    by (simp only: drop_bit_eq_div take_bit_eq_mod) simp
qed

lemma div_power_less: "(x :: int) < 2 ^ (n + k) \<Longrightarrow> x div 2 ^ n < 2 ^ k"
proof -
  assume x: "x < 2 ^ (n + k)"
  have "0 \<le> x mod 2 ^ n"
    by simp
  then have "x div 2 ^ n * 2 ^ n \<le> x"
    using div_mult_mod_eq [of x "2 ^ n"] by linarith
  also have "\<dots> < 2 ^ k * 2 ^ n"
    using x by (simp add: power_add mult.commute)
  finally show ?thesis
    by (simp only: mult_less_cancel_right_pos zero_less_power zero_less_numeral)
qed

lemma disjoint_or: "0 \<le> x \<Longrightarrow> x < 2 ^ k \<Longrightarrow> x OR push_bit k y = x + push_bit k (y :: int)"
proof -
  assume "0 \<le> x" "x < 2 ^ k"
  then have "x = take_bit k x"
    by (simp add: take_bit_int_eq_self)
  then have "\<not> bit x n" if "k \<le> n" for n
    using that by (metis bit_take_bit_iff not_le)
  then have "x AND push_bit k y = 0"
    by (intro bit_eqI) (auto simp: bit_simps)
  then show ?thesis
    by (simp add: disjunctive_add_eq_or)
qed

lemma uint_byte_join:
  assumes "uint h < 2 ^ (n + k)" and "n \<le> 24" and "k < 8"
  shows "uint (ucast (signed_drop_bit n (h :: i32) OR push_bit k g) :: byte) = uint h div 2 ^ n + 2 ^ k * (uint g mod 2 ^ (8 - k))"
proof -
  have "(ucast (signed_drop_bit n h OR push_bit k g) :: byte) = ucast (signed_drop_bit n h) OR push_bit k (ucast g)"
    by (rule bit_word_eqI) (use assms(2) in \<open>auto simp: bit_simps\<close>)
  then have "uint (ucast (signed_drop_bit n h OR push_bit k g) :: byte) =
      uint (ucast (signed_drop_bit n h) :: byte) OR uint (push_bit k (ucast g :: byte))"
    by (simp add: unsigned_or_eq)
  also have "uint (ucast (signed_drop_bit n h) :: byte) = uint h div 2 ^ n"
  proof -
    have "uint h div 2 ^ n < 2 ^ k"
      by (rule div_power_less [OF assms(1)])
    moreover have "(2 :: int) ^ k \<le> 2 ^ 8"
      using assms(3) by (intro power_increasing) simp_all
    moreover have "0 \<le> uint h div 2 ^ n"
      by (simp add: pos_imp_zdiv_nonneg_iff)
    ultimately show ?thesis
      unfolding uint_byte_shift [OF assms(2)] by (intro mod_pos_pos_trivial) simp_all
  qed
  also have "uint (push_bit k (ucast g :: byte)) = push_bit k (take_bit (8 - k) (uint g))"
    using assms(3) by (simp add: unsigned_push_bit_eq unsigned_ucast_eq take_bit_push_bit take_bit_take_bit min_def)
  also have "uint h div 2 ^ n OR push_bit k (take_bit (8 - k) (uint g)) = uint h div 2 ^ n + push_bit k (take_bit (8 - k) (uint g))"
    by (rule disjoint_or) (simp_all add: div_power_less [OF assms(1)] pos_imp_zdiv_nonneg_iff)
  finally show ?thesis
    by (simp add: push_bit_eq_mult take_bit_eq_mod mult.commute)
qed

lemma split_limb:
  assumes "b = a + 8" and "c = a + 16"
  shows "(x :: int) = x mod 2 ^ a + 2 ^ a * (x div 2 ^ a mod 256) + 2 ^ b * (x div 2 ^ b mod 256) + 2 ^ c * (x div 2 ^ c)"
proof -
  define y1 where "y1 = x div 2 ^ a"
  define y2 where "y2 = x div 2 ^ (a + 8)"
  define y3 where "y3 = x div 2 ^ (a + 16)"
  have "y2 = y1 div 256" "y3 = y1 div 256 div 256"
    unfolding y1_def y2_def y3_def by (simp_all add: power_add zdiv_zmult2_eq [symmetric] mult.commute)
  then have "y1 = y1 mod 256 + 256 * y2" "y2 = y2 mod 256 + 256 * y3"
    by simp_all
  moreover have "x = x mod 2 ^ a + 2 ^ a * y1"
    by (simp add: y1_def)
  ultimately have "x = x mod 2 ^ a + 2 ^ a * (y1 mod 256 + 256 * (y2 mod 256 + 256 * y3))"
    by metis
  then show ?thesis
    unfolding assms y1_def [symmetric] y2_def [symmetric] y3_def [symmetric] by (simp add: power_add algebra_simps)
qed
lemma pack_pieces:
  fixes a0 b0 c0 d0 a1 b1 c1 d1 a2 b2 c2 d2 a3 b3 c3 d3 a4 b4 c4 d4 a5 b5 c5 d5 a6 b6 c6 d6 a7 b7 c7 d7 a8 b8 c8 d8 a9 b9 c9 d9 :: int
  shows "a0 + 256 * (b0 + 256 * (c0 + 256 * ((d0 + 2 ^ 2 * a1) + 256 * (b1 + 256 * (c1 + 256 * ((d1 + 2 ^ 3 * a2) + 256 * (b2 + 256 * (c2 +
     256 * ((d2 + 2 ^ 5 * a3) + 256 * (b3 + 256 * (c3 + 256 * ((d3 + 2 ^ 6 * a4) + 256 * (b4 + 256 * (c4 + 256 * (d4 + 256 * (a5 + 256
     * (b5 + 256 * (c5 + 256 * ((d5 + 2 ^ 1 * a6) + 256 * (b6 + 256 * (c6 + 256 * ((d6 + 2 ^ 3 * a7) + 256 * (b7 + 256 * (c7 + 256 *
     ((d7 + 2 ^ 4 * a8) + 256 * (b8 + 256 * (c8 + 256 * ((d8 + 2 ^ 6 * a9) + 256 * (b9 + 256 * (c9 + 256 * (d9 + 256 *
     0))))))))))))))))))))))))))))))) =
     (a0 + 2 ^ 8 * b0 + 2 ^ 16 * c0 + 2 ^ 24 * d0) * 2 ^ 0 + (a1 + 2 ^ 6 * b1 + 2 ^ 14 * c1 + 2 ^ 22 * d1) * 2 ^ 26 + (a2 + 2 ^ 5 * b2
     + 2 ^ 13 * c2 + 2 ^ 21 * d2) * 2 ^ 51 + (a3 + 2 ^ 3 * b3 + 2 ^ 11 * c3 + 2 ^ 19 * d3) * 2 ^ 77 + (a4 + 2 ^ 2 * b4 + 2 ^ 10 * c4 +
     2 ^ 18 * d4) * 2 ^ 102 + (a5 + 2 ^ 8 * b5 + 2 ^ 16 * c5 + 2 ^ 24 * d5) * 2 ^ 128 + (a6 + 2 ^ 7 * b6 + 2 ^ 15 * c6 + 2 ^ 23 * d6) *
     2 ^ 153 + (a7 + 2 ^ 5 * b7 + 2 ^ 13 * c7 + 2 ^ 21 * d7) * 2 ^ 179 + (a8 + 2 ^ 4 * b8 + 2 ^ 12 * c8 + 2 ^ 20 * d8) * 2 ^ 204 + (a9
     + 2 ^ 2 * b9 + 2 ^ 10 * c9 + 2 ^ 18 * d9) * 2 ^ 230"
  by (simp add: algebra_simps)


lemma sint_nonneg_uint: "0 \<le> sint w \<Longrightarrow> uint w = sint (w :: i32)"
  using sint_lt [of w] by (simp add: uint_sint take_bit_int_eq_self)

lemma fe_pack_val:
  assumes "reducing 10 V h"
  shows "le_val (fe_pack h) = limbs_val (map sint h)" and "length (fe_pack h) = 32"
proof -
  have len: "length h = 10"
    using assms by (simp add: reducing_def)
  have "\<forall>i\<in>set [0..<10]. 0 \<le> sint (h ! i) \<and> sint (h ! i) < 2 ^ limb_width i"
    using assms by (simp add: reducing_def)
  then have u: "\<forall>i\<in>set [0..<10]. uint (h ! i) = sint (h ! i) \<and> uint (h ! i) < 2 ^ limb_width i"
    by (simp add: sint_nonneg_uint)
  have even: "uint (h ! 0) < 2 ^ 26" "uint (h ! 2) < 2 ^ 26" "uint (h ! 4) < 2 ^ 26" "uint (h ! 6) < 2 ^ 26" "uint (h ! 8) < 2 ^ 26"
    and odd: "uint (h ! 1) < 2 ^ 25" "uint (h ! 3) < 2 ^ 25" "uint (h ! 5) < 2 ^ 25" "uint (h ! 7) < 2 ^ 25" "uint (h ! 9) < 2 ^ 25"
    using u unfolding upt10 by (simp_all add: limb_width_def)
  show "length (fe_pack h) = 32"
    by (simp add: fe_pack_def Let_def)
  have joins:
    "uint (ucast (signed_drop_bit 24 (h ! 0) OR push_bit 2 (h ! 1)) :: byte) = uint (h ! 0) div 2 ^ 24 + 2 ^ 2 * (uint (h ! 1) mod 2 ^ 6)"
    "uint (ucast (signed_drop_bit 22 (h ! 1) OR push_bit 3 (h ! 2)) :: byte) = uint (h ! 1) div 2 ^ 22 + 2 ^ 3 * (uint (h ! 2) mod 2 ^ 5)"
    "uint (ucast (signed_drop_bit 21 (h ! 2) OR push_bit 5 (h ! 3)) :: byte) = uint (h ! 2) div 2 ^ 21 + 2 ^ 5 * (uint (h ! 3) mod 2 ^ 3)"
    "uint (ucast (signed_drop_bit 19 (h ! 3) OR push_bit 6 (h ! 4)) :: byte) = uint (h ! 3) div 2 ^ 19 + 2 ^ 6 * (uint (h ! 4) mod 2 ^ 2)"
    "uint (ucast (signed_drop_bit 24 (h ! 5) OR push_bit 1 (h ! 6)) :: byte) = uint (h ! 5) div 2 ^ 24 + 2 ^ 1 * (uint (h ! 6) mod 2 ^ 7)"
    "uint (ucast (signed_drop_bit 23 (h ! 6) OR push_bit 3 (h ! 7)) :: byte) = uint (h ! 6) div 2 ^ 23 + 2 ^ 3 * (uint (h ! 7) mod 2 ^ 5)"
    "uint (ucast (signed_drop_bit 21 (h ! 7) OR push_bit 4 (h ! 8)) :: byte) = uint (h ! 7) div 2 ^ 21 + 2 ^ 4 * (uint (h ! 8) mod 2 ^ 4)"
    "uint (ucast (signed_drop_bit 20 (h ! 8) OR push_bit 6 (h ! 9)) :: byte) = uint (h ! 8) div 2 ^ 20 + 2 ^ 6 * (uint (h ! 9) mod 2 ^ 2)"
    using even odd by (subst uint_byte_join; simp)+
  have tops: "uint (h ! 4) div 2 ^ 18 mod 256 = uint (h ! 4) div 2 ^ 18" "uint (h ! 9) div 2 ^ 18 mod 256 = uint (h ! 9) div 2 ^ 18"
    using div_power_less [of "uint (h ! 4)" 18 8] div_power_less [of "uint (h ! 9)" 18 7] even(3) odd(5)
    by (simp_all add: pos_imp_zdiv_nonneg_iff)
  have firsts: "uint (ucast (signed_drop_bit 0 (h ! 0)) :: byte) = uint (h ! 0) mod 2 ^ 8"
    "uint (ucast (signed_drop_bit 0 (h ! 5)) :: byte) = uint (h ! 5) mod 2 ^ 8"
    using uint_byte_shift [of 0 "h ! 0"] uint_byte_shift [of 0 "h ! 5"] by simp_all
  have splits:
    "uint (h ! 0) mod 2 ^ 8 + 2 ^ 8 * (uint (h ! 0) div 2 ^ 8 mod 256) + 2 ^ 16 * (uint (h ! 0) div 2 ^ 16 mod 256) +
       2 ^ 24 * (uint (h ! 0) div 2 ^ 24) = uint (h ! 0)"
    "uint (h ! 1) mod 2 ^ 6 + 2 ^ 6 * (uint (h ! 1) div 2 ^ 6 mod 256) + 2 ^ 14 * (uint (h ! 1) div 2 ^ 14 mod 256) +
       2 ^ 22 * (uint (h ! 1) div 2 ^ 22) = uint (h ! 1)"
    "uint (h ! 2) mod 2 ^ 5 + 2 ^ 5 * (uint (h ! 2) div 2 ^ 5 mod 256) + 2 ^ 13 * (uint (h ! 2) div 2 ^ 13 mod 256) +
       2 ^ 21 * (uint (h ! 2) div 2 ^ 21) = uint (h ! 2)"
    "uint (h ! 3) mod 2 ^ 3 + 2 ^ 3 * (uint (h ! 3) div 2 ^ 3 mod 256) + 2 ^ 11 * (uint (h ! 3) div 2 ^ 11 mod 256) +
       2 ^ 19 * (uint (h ! 3) div 2 ^ 19) = uint (h ! 3)"
    "uint (h ! 4) mod 2 ^ 2 + 2 ^ 2 * (uint (h ! 4) div 2 ^ 2 mod 256) + 2 ^ 10 * (uint (h ! 4) div 2 ^ 10 mod 256) +
       2 ^ 18 * (uint (h ! 4) div 2 ^ 18) = uint (h ! 4)"
    "uint (h ! 5) mod 2 ^ 8 + 2 ^ 8 * (uint (h ! 5) div 2 ^ 8 mod 256) + 2 ^ 16 * (uint (h ! 5) div 2 ^ 16 mod 256) +
       2 ^ 24 * (uint (h ! 5) div 2 ^ 24) = uint (h ! 5)"
    "uint (h ! 6) mod 2 ^ 7 + 2 ^ 7 * (uint (h ! 6) div 2 ^ 7 mod 256) + 2 ^ 15 * (uint (h ! 6) div 2 ^ 15 mod 256) +
       2 ^ 23 * (uint (h ! 6) div 2 ^ 23) = uint (h ! 6)"
    "uint (h ! 7) mod 2 ^ 5 + 2 ^ 5 * (uint (h ! 7) div 2 ^ 5 mod 256) + 2 ^ 13 * (uint (h ! 7) div 2 ^ 13 mod 256) +
       2 ^ 21 * (uint (h ! 7) div 2 ^ 21) = uint (h ! 7)"
    "uint (h ! 8) mod 2 ^ 4 + 2 ^ 4 * (uint (h ! 8) div 2 ^ 4 mod 256) + 2 ^ 12 * (uint (h ! 8) div 2 ^ 12 mod 256) +
       2 ^ 20 * (uint (h ! 8) div 2 ^ 20) = uint (h ! 8)"
    "uint (h ! 9) mod 2 ^ 2 + 2 ^ 2 * (uint (h ! 9) div 2 ^ 2 mod 256) + 2 ^ 10 * (uint (h ! 9) div 2 ^ 10 mod 256) +
       2 ^ 18 * (uint (h ! 9) div 2 ^ 18) = uint (h ! 9)"
    by (rule split_limb [symmetric]; simp)+
  have "le_val (fe_pack h) = uint (h ! 0) * 2 ^ 0 + uint (h ! 1) * 2 ^ 26 + uint (h ! 2) * 2 ^ 51 + uint (h ! 3) * 2 ^ 77 + uint (h ! 4) * 2 ^ 102 + uint (h ! 5) * 2 ^ 128 + uint (h ! 6) * 2 ^ 153 + uint (h ! 7) * 2 ^ 179 + uint (h ! 8) * 2 ^ 204 + uint (h ! 9) * 2 ^ 230"
    unfolding fe_pack_def Let_def list.map le_val_simps joins firsts
    by (simp only: uint_byte_shift rel_simps tops pack_pieces splits)
  then show "le_val (fe_pack h) = limbs_val (map sint h)"
    using u unfolding upt10 by (simp add: limbs_val_def sum10 len limb_pos_def)
qed

end
