(* ===== verification/FieldSpec.thy ===== *)
theory FieldSpec
  imports FieldBytes
begin

text \<open>
  The contract of the field arithmetic, for the code that composes it: the typing of the
  operations by limb bounds, their meaning modulo $2^{255} - 19$, the canonical encoding, and
  the two exponentiation chains.
\<close>

section \<open>What the field operations promise\<close>

text \<open>Conditional moves: the mask selects one of the arguments.\<close>

lemma fe_cmov_select:
  assumes "length f = length g"
  shows "fe_cmov f g 0 = f" and "fe_cmov f g 1 = g" and "fe_cswap f g 0 = (f, g)" and "fe_cswap f g 1 = (g, f)"
proof -
  have mask: "- 1 = (NOT 0 :: u32)"
    by simp
  have swap: "a XOR (a XOR b) = b" "b XOR (a XOR b) = a" for a b :: u32
    by (rule bit_word_eqI; auto simp: bit_simps)+
  show "fe_cmov f g 0 = f" "fe_cmov f g 1 = g" "fe_cswap f g 0 = (f, g)" "fe_cswap f g 1 = (g, f)"
    using assms by (auto simp: fe_cmov_def fe_cswap_def Let_def swap intro!: nth_equalityI)
qed

lemma bounded_consts: "bounded mul_out fe_0" "bounded mul_out fe_1"
proof -
  have "\<forall>i\<in>set [0..<10]. \<bar>sint (fe_0 ! i)\<bar> \<le> mul_out ! i \<and> \<bar>sint (fe_1 ! i)\<bar> \<le> mul_out ! i"
    unfolding upt10 by (simp add: fe_0_def fe_1_def mul_out_def limb_bounds_def)
  then show "bounded mul_out fe_0" "bounded mul_out fe_1"
    by (simp_all add: bounded_def mul_out_def limb_bounds_def) (simp_all add: fe_0_def fe_1_def)
qed

lemma bounded_widen: "bounded mul_out f \<Longrightarrow> bounded mul_in f" "bounded mul_out f \<Longrightarrow> bounded add_in f" "bounded mul_out f \<Longrightarrow> bounded add_out f"
  using bounded_mono bounds_nested by blast+

lemmas sample_limbs = bounded_widen [OF bounded_consts(2)]

text \<open>
  The same operations on integers without a width.  A product needs its factors times 2, 19 or 38
  in 32 bits, and its columns in 64: the bound on the columns of absolute values covers every
  product and every partial sum in them, and their doubles.
\<close>

definition factors_fit :: "int list \<Rightarrow> bool" where
  "factors_fit xs \<longleftrightarrow> (\<forall>i<10. fits 32 (2 * xs ! i) \<and> fits 32 (19 * xs ! i) \<and> (odd i \<longrightarrow> fits 32 (38 * xs ! i)))"

definition columns_fit :: "int list \<Rightarrow> int list \<Rightarrow> bool" where
  "columns_fit xs ys \<longleftrightarrow> (\<forall>k<10. mul_int (map abs xs) (map abs ys) ! k < 2 ^ 62)"

lemma factors_in: "bounded mul_in f \<Longrightarrow> factors_fit (map sint f)"
proof -
  assume f: "bounded mul_in f"
  have small: "\<forall>i\<in>set [0..<10]. 19 * mul_in ! i < 2 ^ 31 \<and> (odd i \<longrightarrow> 38 * mul_in ! i < 2 ^ 31)"
    by code_simp
  have times: "fits 32 (k * sint (f ! i))" if "i < 10" "0 \<le> k" "k * mul_in ! i < 2 ^ 31" for i k
  proof (rule fits_abs)
    have "\<bar>k * sint (f ! i)\<bar> \<le> k * mul_in ! i"
      using mult_left_mono [OF boundedD [OF f that(1)] that(2)] that(2) by (simp add: abs_mult)
    then show "\<bar>k * sint (f ! i)\<bar> < 2 ^ (32 - 1)"
      using that(3) by simp
  qed
  have "fits 32 (2 * sint (f ! i)) \<and> fits 32 (19 * sint (f ! i)) \<and> (odd i \<longrightarrow> fits 32 (38 * sint (f ! i)))" if "i < 10" for i
  proof -
    have "i \<in> set [0..<10]"
      using that by simp
    note le = bspec [OF small this]
    have "2 * mul_in ! i < 2 ^ 31"
      using le bounded_nonneg [OF f that] by simp
    then show ?thesis
      using times [OF that, of 2] times [OF that, of 19] times [OF that, of 38] le by simp
  qed
  then show ?thesis
    using bounded_length(1) [OF f] by (simp add: factors_fit_def)
qed

lemma sint_lt64: "- (2 ^ 63) \<le> sint (x :: i64)" "sint (x :: i64) < 2 ^ 63"
  using sint_ge [of x] sint_lt [of x] by simp_all

lemma columns_in: "bounded mul_in f \<Longrightarrow> bounded mul_in g \<Longrightarrow> columns_fit (map sint f) (map sint g)"
proof -
  assume fg: "bounded mul_in f" "bounded mul_in g"
  have "mul_int (map abs (map sint f)) (map abs (map sint g)) ! k < 2 ^ 62" if "k < 10" for k
  proof -
    have "\<bar>mul_int (map abs (map sint f)) (map abs (map sint g)) ! k\<bar> \<le> mul_int mul_in mul_in ! k"
      using boundedD [OF fg(1)] boundedD [OF fg(2)] bounded_length(1) [OF fg(1)] bounded_length(1) [OF fg(2)] that
      by (intro mul_int_abs) simp_all
    moreover have "mul_int mul_in mul_in ! k < 2 ^ 62"
      using product_bounds_small that by simp
    ultimately show ?thesis
      by linarith
  qed
  then show ?thesis
    by (simp add: columns_fit_def)
qed

lemma narrowed_exact:
  assumes "bounded bs h" and "chain_ok order bs" and "list_all2 (\<le>) (fold carry_bound order bs) cs" and "\<forall>b\<in>set cs. b < 2 ^ 31"
  shows "map sint (narrow (fold carry_limb order h)) = fold carry_int order (map sint h) \<and> carries_fit order (map sint h)"
proof -
  have "bounded cs (fold carry_limb order h)"
    using carry_chain [OF assms(1,2)] bounded_mono assms(3) by blast
  then show ?thesis
    using carry_chain_exact [OF assms] narrow_val(1) [OF _ assms(4)] by simp
qed

lemma fe_mul_exact:
  assumes "bounded mul_in f" and "bounded mul_in g"
  defines "cols \<equiv> mul_int (map sint f) (map sint g)"
  shows "map sint (fe_mul f g) = fold carry_int product_carries cols \<and> carries_fit product_carries cols"
proof -
  have "\<forall>b\<in>set (mul_int mul_in mul_in). b < 2 ^ 63"
    using product_bounds_small by fastforce
  note prod = products_bounded [OF fe_mul_products_ok [OF assms(1,2)] assms(1,2) this]
  show ?thesis
    using narrowed_exact [OF prod(2) [unfolded mul_in_product] product_chains(1) product_chain_bounds(1) load_chain(3)]
    unfolding prod(1) cols_def fe_mul_def .
qed

lemma fe_neg_exact: "bounded add_in f \<Longrightarrow> map sint (fe_neg f) = map uminus (map sint f)"
proof -
  assume f: "bounded add_in f"
  have "sint (- (f ! i)) = - sint (f ! i)" if "i < 10" for i
  proof -
    have "\<forall>i\<in>set [0..<10]. add_in ! i < 2 ^ 31"
      by code_simp
    then have "add_in ! i < 2 ^ 31"
      using that by simp
    then have "\<bar>- sint (f ! i)\<bar> < 2 ^ 31"
      using boundedD [OF f that] by simp
    then show ?thesis
      using sint_of_int_i32 [of "- sint (f ! i)"] by simp
  qed
  then show ?thesis
    using bounded_length(1) [OF f] by (intro nth_equalityI) (simp_all add: fe_neg_def)
qed

text \<open>
  C29: The field operations are well typed and no machine word overflows in them: from limbs inside
  the bounds a function's comment demands, its result is inside the bounds the comment promises,
  and its limbs are what the same computation gives on integers without a width.  On the way every
  32-bit multiple of a limb, every 64-bit product and partial sum of a column, and in every carry
  the rounded limb, the carry, its multiple and the new limbs lie within their type, as do the
  limbs that are narrowed at the end.
\<close>

theorem fe_operations_typed:
  assumes "bounded mul_in f" and "bounded mul_in g" and "bounded add_in a" and "bounded add_in b" and "bounded add_out c"
    and "length s = 32"
  defines "F \<equiv> map sint f" and "G \<equiv> map sint g"
  defines "twice \<equiv> map (\<lambda>x. 2 * x) (mul_int F F)" and "scaled \<equiv> map (\<lambda>x. x * 121666) (map sint c)"
  shows "bounded mul_out (fe_mul f g) \<and> bounded mul_out (fe_sq f) \<and> bounded mul_out (fe_sq2 f) \<and>
    bounded add_out (fe_add a b) \<and> bounded add_out (fe_sub a b) \<and> bounded add_in (fe_neg a) \<and>
    bounded add_in (fe_mul121666 c) \<and> bounded mul_out (fe_frombytes s) \<and> bounded mul_out fe_0 \<and> bounded mul_out fe_1 \<and>
    fe_cmov f g 1 = g \<and> fe_cmov f g 0 = f \<and>
    factors_fit F \<and> factors_fit G \<and> columns_fit F G \<and> columns_fit F F \<and>
    map sint (fe_mul_products f g) = mul_int F G \<and> map sint (fe_sq_products f) = mul_int F F \<and>
    map sint (fe_mul f g) = fold carry_int product_carries (mul_int F G) \<and> carries_fit product_carries (mul_int F G) \<and>
    map sint (fe_sq f) = fold carry_int product_carries (mul_int F F) \<and> carries_fit product_carries (mul_int F F) \<and>
    map sint (fe_sq2 f) = fold carry_int product_carries twice \<and> carries_fit product_carries twice \<and>
    map sint (fe_add a b) = map2 (+) (map sint a) (map sint b) \<and> map sint (fe_sub a b) = map2 (-) (map sint a) (map sint b) \<and>
    map sint (fe_neg a) = map uminus (map sint a) \<and>
    (\<forall>x\<in>set scaled. fits 64 x) \<and> map sint (fe_mul121666 c) = fold carry_int plain_carries scaled \<and> carries_fit plain_carries scaled \<and>
    map sint (fe_frombytes s) = fold carry_int plain_carries (load_int s) \<and> carries_fit plain_carries (load_int s)"
proof -
  have len: "length f = length g"
    using bounded_length(1) [OF assms(1)] bounded_length(1) [OF assms(2)] by simp
  have small: "\<forall>b\<in>set (mul_int mul_in mul_in). b < 2 ^ 63"
    using product_bounds_small by fastforce
  have twice: "map sint (fe_sq2 f) = fold carry_int product_carries twice \<and> carries_fit product_carries twice"
    using narrowed_exact [OF doubled_ints(2) [OF assms(1)] product_chains(2) product_chain_bounds(2) load_chain(3)]
    unfolding doubled_ints(1) [OF assms(1)] twice_def F_def fe_sq2_def .
  have scaled: "map sint (fe_mul121666 c) = fold carry_int plain_carries scaled \<and> carries_fit plain_carries scaled"
    using narrowed_exact [OF scaled_ints(2) [OF assms(5)] scale_chain(1,2) load_chain(4)]
    unfolding scaled_ints(1) [OF assms(5)] scaled_def fe_mul121666_def .
  have loaded: "map sint (fe_frombytes s) = fold carry_int plain_carries (load_int s) \<and> carries_fit plain_carries (load_int s)"
    using narrowed_exact [OF fe_load_ok(2) load_chain(1-3)] unfolding fe_load_ok(1) fe_frombytes_def .
  have "\<forall>x\<in>set scaled. fits 64 x"
    using sint_lt64 unfolding scaled_def scaled_ints(1) [OF assms(5), symmetric] by (auto simp: fits_def)
  then show ?thesis
    using bounded_consts fe_mul_ok(1) [OF assms(1,2)] fe_mul_ok(1) [OF assms(1,1)] fe_sq_eq_mul [OF assms(1)] fe_sq2_ok(1) [OF assms(1)]
      fe_add_sub_ok(1,3) [OF assms(3,4)] fe_neg_ok(1) [OF assms(3)] fe_mul121666_ok(1) [OF assms(5)]
      fe_frombytes_ok(1) [OF assms(6)] fe_cmov_select(1,2) [OF len] factors_in [OF assms(1)] factors_in [OF assms(2)]
      columns_in [OF assms(1,2)] columns_in [OF assms(1,1)] fe_mul_exact [OF assms(1,2)] fe_mul_exact [OF assms(1,1)]
      products_bounded(1) [OF fe_mul_products_ok [OF assms(1,2)] assms(1,2) small]
      products_bounded(1) [OF fe_sq_products_ok [OF assms(1)] assms(1,1) small]
      fe_pointwise(1,3) [OF assms(3,4) add_in_sum(1)] fe_neg_exact [OF assms(3)] twice scaled loaded
    unfolding F_def G_def by simp
qed

theorem fe_operations_typed_witness:
  "bounded mul_out (fe_mul fe_1 fe_1) \<and> bounded add_out (fe_sub fe_1 fe_1) \<and>
   map sint (fe_mul fe_1 fe_1) = fold carry_int product_carries (mul_int (map sint fe_1) (map sint fe_1))"
  using fe_operations_typed [OF sample_limbs(1) sample_limbs(1) sample_limbs(2) sample_limbs(2) sample_limbs(3), of "replicate 32 7"]
  by simp

text \<open>
  C27: The arithmetic is that of the field: on limbs within the demanded bounds the product is
  the product modulo $2^{255} - 19$, squaring is multiplication by itself limb for limb,
  \<open>fe_sq2\<close> is twice the square, and sum, difference, negation and scaling are exact or
  congruent.
\<close>

theorem fe_arithmetic_correct:
  assumes "bounded mul_in f" and "bounded mul_in g" and "bounded add_in a" and "bounded add_in b" and "bounded add_out c"
  shows "fe_val (fe_mul f g) mod p25519 = fe_val f * fe_val g mod p25519 \<and> fe_sq f = fe_mul f f \<and>
    fe_val (fe_sq2 f) mod p25519 = 2 * fe_val f * fe_val f mod p25519 \<and>
    fe_val (fe_add a b) = fe_val a + fe_val b \<and> fe_val (fe_sub a b) = fe_val a - fe_val b \<and> fe_val (fe_neg a) = - fe_val a \<and>
    fe_val (fe_mul121666 c) mod p25519 = fe_val c * 121666 mod p25519"
  using fe_mul_ok(2) [OF assms(1,2)] fe_sq_eq_mul [OF assms(1)] fe_sq2_ok(2) [OF assms(1)] fe_add_sub_ok(2,4) [OF assms(3,4)]
    fe_neg_ok(2) [OF assms(3)] fe_mul121666_ok(2) [OF assms(5)] by blast

theorem fe_arithmetic_correct_witness: "fe_val (fe_mul fe_1 fe_1) mod p25519 = fe_val fe_1 * fe_val fe_1 mod p25519 \<and> fe_val (fe_sub fe_1 fe_1) = 0"
  using fe_arithmetic_correct [OF sample_limbs(1) sample_limbs(1) sample_limbs(2) sample_limbs(2) sample_limbs(3)] by simp

lemma fe_tobytes_ok:
  assumes "bounded add_out f"
  shows "length (fe_tobytes f) = 32" and "le_val (fe_tobytes f) = fe_val f mod p25519"
  unfolding fe_tobytes_def using fe_pack_val [OF fe_reduce_ok(1) [OF assms]] fe_reduce_ok(2) [OF assms] by simp_all

lemma fe_isnegative_ok:
  assumes "bounded add_out f"
  shows "uint (fe_isnegative f) = fe_val f mod p25519 mod 2"
proof -
  obtain b s where s: "fe_tobytes f = b # s"
    using fe_tobytes_ok(1) [OF assms] by (cases "fe_tobytes f") auto
  have "fe_val f mod p25519 = uint b + 256 * le_val s"
    using fe_tobytes_ok(2) [OF assms] by (simp add: s)
  moreover have "(uint b + 256 * v) mod 2 = uint b mod 2" for v
    by presburger
  ultimately have "fe_val f mod p25519 mod 2 = uint b mod 2"
    by (simp only:)
  moreover have "take_bit 32 (uint b mod 2) = uint b mod 2"
    by (simp add: take_bit_eq_mod mod_mod_cancel)
  then have "uint (fe_isnegative f) = uint b mod 2"
    by (simp add: fe_isnegative_def s unsigned_ucast_eq unsigned_and_eq and_one_eq uint_mod bintr_uint)
  ultimately show ?thesis
    by simp
qed

lemma le_val_zero: "le_val s = 0 \<longleftrightarrow> (\<forall>b\<in>set s. b = 0)"
proof (induction s)
  case (Cons b s)
  have "uint b + 256 * le_val s = 0 \<longleftrightarrow> uint b = 0 \<and> le_val s = 0"
  proof
    assume "uint b + 256 * le_val s = 0"
    then show "uint b = 0 \<and> le_val s = 0"
      using byte_int(1) [of b] le_val_bounds(1) [of s] by linarith
  qed simp
  then show ?case
    by (simp add: Cons.IH unsigned_eq_0_iff)
qed simp

lemma fold_or_zero: "fold (\<lambda>i r. r OR s ! i) js r = 0 \<longleftrightarrow> r = 0 \<and> (\<forall>i\<in>set js. s ! i = (0 :: byte))"
  by (induction js arbitrary: r) (auto simp: or_eq_0_iff)

lemma fe_isnonzero_ok:
  assumes "bounded add_out f"
  shows "fe_isnonzero f = (if fe_val f mod p25519 = 0 then 0 else 1)"
proof -
  let ?s = "fe_tobytes f"
  have "(\<forall>b\<in>set ?s. b = 0) \<longleftrightarrow> ?s ! 0 = 0 \<and> (\<forall>i\<in>set [1..<32]. ?s ! i = 0)"
  proof -
    have "(\<forall>i<32. P i) \<longleftrightarrow> P 0 \<and> (\<forall>i\<in>set [1..<32]. P i)" for P :: "nat \<Rightarrow> bool"
    proof -
      have "i = 0 \<or> i \<in> set [1..<32]" if "i < 32" for i :: nat
        using that by auto
      moreover have "set [1..<32] \<subseteq> {i :: nat. i < 32}"
        by auto
      ultimately show ?thesis
        by fastforce
    qed
    then show ?thesis
      using fe_tobytes_ok(1) [OF assms] by (simp only: all_set_conv_all_nth)
  qed
  then show ?thesis
    using le_val_zero [of ?s] fe_tobytes_ok(2) [OF assms] by (simp add: fe_isnonzero_def fold_or_zero)
qed

text \<open>
  C28: Encoding is canonical and inverse to decoding: \<open>fe_tobytes\<close> writes the 32
  little-endian bytes of the residue between 0 and $2^{255} - 20$ for every representation its
  comment allows, so two elements have the same bytes exactly when they are equal in the field;
  sign and zero test read that residue; \<open>fe_frombytes\<close> reads the low 255 bits; and a canonical
  encoding survives reading and writing.
\<close>

theorem fe_encoding_canonical:
  assumes "bounded add_out f" and "bounded add_out g" and "length s = 32"
  shows "length (fe_tobytes f) = 32 \<and> le_val (fe_tobytes f) = fe_val f mod p25519 \<and>
    (fe_tobytes f = fe_tobytes g \<longleftrightarrow> fe_val f mod p25519 = fe_val g mod p25519) \<and>
    uint (fe_isnegative f) = fe_val f mod p25519 mod 2 \<and> fe_isnonzero f = (if fe_val f mod p25519 = 0 then 0 else 1) \<and>
    fe_val (fe_frombytes s) mod p25519 = le_val s mod 2 ^ 255 mod p25519 \<and>
    (le_val s < p25519 \<longleftrightarrow> fe_tobytes (fe_frombytes s) = s)"
proof -
  have read: "bounded add_out (fe_frombytes s)"
    using fe_frombytes_ok(1) [OF assms(3)] bounded_mono bounds_nested by blast
  have bytes: "le_val (fe_tobytes (fe_frombytes s)) = le_val s mod 2 ^ 255 mod p25519"
    using fe_tobytes_ok(2) [OF read] fe_frombytes_ok(2) [OF assms(3)] by simp
  have p: "0 < p25519" "p25519 < 2 ^ 255"
    by (simp_all add: p25519_def)
  have "le_val s < p25519 \<longleftrightarrow> fe_tobytes (fe_frombytes s) = s"
  proof
    assume small: "le_val s < p25519"
    then have "le_val (fe_tobytes (fe_frombytes s)) = le_val s"
      using bytes p le_val_bounds(1) [of s] by simp
    then show "fe_tobytes (fe_frombytes s) = s"
      using le_val_inj fe_tobytes_ok(1) [OF read] assms(3) by metis
  next
    assume "fe_tobytes (fe_frombytes s) = s"
    then show "le_val s < p25519"
      using bytes pos_mod_bound [OF p(1)] by metis
  qed
  moreover have "fe_tobytes f = fe_tobytes g \<longleftrightarrow> fe_val f mod p25519 = fe_val g mod p25519"
    using le_val_inj [of "fe_tobytes f" "fe_tobytes g"] fe_tobytes_ok [OF assms(1)] fe_tobytes_ok [OF assms(2)] by metis
  ultimately show ?thesis
    using fe_tobytes_ok [OF assms(1)] fe_isnegative_ok [OF assms(1)] fe_isnonzero_ok [OF assms(1)] fe_frombytes_ok(2) [OF assms(3)]
    by blast
qed

theorem fe_encoding_canonical_witness: "fe_tobytes (fe_frombytes (replicate 32 7)) = replicate 32 7"
proof -
  have "le_val (replicate 32 7) < p25519"
    by code_simp
  then show ?thesis
    using fe_encoding_canonical [OF sample_limbs(3) sample_limbs(3), of "replicate 32 7"] by simp
qed

section \<open>Powers\<close>

definition power_of :: "fe \<Rightarrow> fe \<Rightarrow> nat \<Rightarrow> bool" where
  "power_of z f n \<longleftrightarrow> bounded mul_out f \<and> fe_val f mod p25519 = fe_val z ^ n mod p25519"

lemma power_of_mul:
  assumes "power_of z f m" and "power_of z g n"
  shows "power_of z (fe_mul f g) (m + n)"
proof -
  have "bounded mul_in f" "bounded mul_in g"
    using assms bounded_widen(1) unfolding power_of_def by blast+
  note prod = fe_mul_ok [OF this]
  have "fe_val f * fe_val g mod p25519 = fe_val z ^ m * fe_val z ^ n mod p25519"
    using assms by (intro mod_mult_cong) (simp_all add: power_of_def)
  then show ?thesis
    using prod by (simp add: power_of_def power_add)
qed

lemma power_of_self:
  assumes "bounded mul_in z"
  shows "power_of z (fe_sq z) 2" and "power_of z f n \<Longrightarrow> power_of z (fe_mul z f) (Suc n)"
    and "power_of z f n \<Longrightarrow> power_of z (fe_mul f z) (Suc n)"
proof -
  show "power_of z (fe_sq z) 2"
    using fe_mul_ok [OF assms assms] fe_sq_eq_mul [OF assms] by (simp add: power_of_def power2_eq_square)
  assume f: "power_of z f n"
  then have "bounded mul_in f"
    using bounded_widen(1) unfolding power_of_def by blast
  note prods = fe_mul_ok [OF assms this] fe_mul_ok [OF this assms]
  have "fe_val z * fe_val f mod p25519 = fe_val z * fe_val z ^ n mod p25519"
    using f by (intro mod_mult_cong) (simp_all add: power_of_def)
  then show "power_of z (fe_mul z f) (Suc n)" "power_of z (fe_mul f z) (Suc n)"
    using prods by (simp_all add: power_of_def mult.commute)
qed

lemma power_of_sq: "power_of z f n \<Longrightarrow> power_of z (fe_sq f) (n * 2)"
  using power_of_mul [of z f n f n] fe_sq_eq_mul [OF bounded_widen(1)] by (simp add: power_of_def mult_2_right)

lemma power_of_funpow: "power_of z g m \<Longrightarrow> power_of z ((fe_sq ^^ j) g) (m * 2 ^ j)"
proof (induction j)
  case (Suc j)
  then show ?case
    using power_of_sq [OF Suc.IH] by (simp add: mult.assoc mult.commute mult.left_commute)
qed simp

lemma power_of_loop: "power_of z f n \<Longrightarrow> power_of z (sq_loop k (fe_sq f)) (n * 2 ^ Suc (k - 1))"
  using power_of_funpow [OF power_of_sq, of z f n "k - 1"] by (simp add: sq_loop_def mult.assoc)

lemma power_of_loop_self: "bounded mul_in z \<Longrightarrow> power_of z (sq_loop k (fe_sq z)) (2 * 2 ^ (k - 1))"
  using power_of_funpow [OF power_of_self(1)] by (simp add: sq_loop_def)

lemma power_of_let: "power_of z t n \<Longrightarrow> (\<And>t. power_of z t n \<Longrightarrow> power_of z (f t) m) \<Longrightarrow> power_of z (Let t f) m"
  by (simp add: Let_def)

lemma power_of_eq: "power_of z f m \<Longrightarrow> m = n \<Longrightarrow> power_of z f n"
  by simp

lemma fe_powers_ok:
  assumes "bounded mul_in z"
  shows "power_of z (fe_invert z) (2 ^ 255 - 21)" and "power_of z (fe_pow22523 z) (2 ^ 252 - 3)"
proof -
  note self = power_of_self(2,3) [OF assms] power_of_loop_self [OF assms]
  show "power_of z (fe_invert z) (2 ^ 255 - 21)"
    unfolding fe_invert_def by (rule power_of_eq, (rule power_of_let self power_of_mul power_of_loop | assumption)+) simp
  show "power_of z (fe_pow22523 z) (2 ^ 252 - 3)"
    unfolding fe_pow22523_def by (rule power_of_eq, (rule power_of_let self power_of_mul power_of_loop | assumption)+) simp
qed

text \<open>
  The two fixed exponentiations are powers: \<open>fe_invert\<close> computes the power $p - 2$ and
  \<open>fe_pow22523\<close> the power $2^{252} - 3$ of its argument in the field, and both stay within the
  bounds of a product.
\<close>

theorem fe_powers_correct:
  assumes "bounded mul_in z"
  shows "fe_val (fe_invert z) mod p25519 = fe_val z ^ (2 ^ 255 - 21) mod p25519 \<and> bounded mul_out (fe_invert z) \<and>
    fe_val (fe_pow22523 z) mod p25519 = fe_val z ^ (2 ^ 252 - 3) mod p25519 \<and> bounded mul_out (fe_pow22523 z)"
  using fe_powers_ok [OF assms] by (simp add: power_of_def)

theorem fe_powers_correct_witness: "fe_val (fe_invert fe_1) mod p25519 = 1"
proof -
  have "fe_val fe_1 = 1"
    by (simp add: fe_val_def limbs_val_def sum10 fe_1_def limb_pos_def)
  then show ?thesis
    using fe_powers_correct [OF sample_limbs(1)] by (simp add: p25519_def)
qed

end
