(* ===== verification/Curve.thy ===== *)
theory Curve
  imports FieldSpec Precomp
begin

text \<open>
  Points of the Ed25519 curve (\<open>orlp_ed25519/ge.c\<close>) in the representations of \<open>ge.h\<close>: their
  additions and doublings as straight-line sequences of field operations, decoding and
  encoding, the recodings of scalars into signed digits, and the two scalar multiplications.
  Each C function writes its result through a pointer; here it returns it.
\<close>

section \<open>Representations and conversions\<close>

record ge_p2 =
  p2_X :: fe
  p2_Y :: fe
  p2_Z :: fe

record ge_p3 =
  p3_X :: fe
  p3_Y :: fe
  p3_Z :: fe
  p3_T :: fe

record ge_p1p1 =
  c_X :: fe
  c_Y :: fe
  c_Z :: fe
  c_T :: fe

record ge_cached =
  YplusX :: fe
  YminusX :: fe
  cached_Z :: fe
  T2d :: fe

definition curve_d :: fe where
  "curve_d = [- 10913610, 13857413, - 15372611, 6949391, 114729, - 8787816, - 6275908, - 3247719, - 18696448, - 12055116]"

definition sqrtm1 :: fe where
  "sqrtm1 = [- 32595792, - 7943725, 9377950, 3500415, 12389472, - 272473, - 25146209, - 2005654, 326686, 11406482]"

definition d2 :: fe where
  "d2 = [- 21827239, - 5839606, - 30745221, 13898782, 229458, 15978800, - 12551817, - 6495438, 29715968, 9444199]"

definition ge_p2_0 :: ge_p2 where
  "ge_p2_0 = \<lparr>p2_X = fe_0, p2_Y = fe_1, p2_Z = fe_1\<rparr>"

definition ge_p3_0 :: ge_p3 where
  "ge_p3_0 = \<lparr>p3_X = fe_0, p3_Y = fe_1, p3_Z = fe_1, p3_T = fe_0\<rparr>"

definition ge_p1p1_to_p2 :: "ge_p1p1 \<Rightarrow> ge_p2" where
  "ge_p1p1_to_p2 p = \<lparr>p2_X = fe_mul (c_X p) (c_T p), p2_Y = fe_mul (c_Y p) (c_Z p), p2_Z = fe_mul (c_Z p) (c_T p)\<rparr>"

definition ge_p1p1_to_p3 :: "ge_p1p1 \<Rightarrow> ge_p3" where
  "ge_p1p1_to_p3 p =
     \<lparr>p3_X = fe_mul (c_X p) (c_T p), p3_Y = fe_mul (c_Y p) (c_Z p), p3_Z = fe_mul (c_Z p) (c_T p), p3_T = fe_mul (c_X p) (c_Y p)\<rparr>"

definition ge_p3_to_p2 :: "ge_p3 \<Rightarrow> ge_p2" where
  "ge_p3_to_p2 p = \<lparr>p2_X = fe_copy (p3_X p), p2_Y = fe_copy (p3_Y p), p2_Z = fe_copy (p3_Z p)\<rparr>"

definition ge_p3_to_cached :: "ge_p3 \<Rightarrow> ge_cached" where
  "ge_p3_to_cached p =
     \<lparr>YplusX = fe_add (p3_Y p) (p3_X p), YminusX = fe_sub (p3_Y p) (p3_X p), cached_Z = fe_copy (p3_Z p), T2d = fe_mul (p3_T p) d2\<rparr>"

section \<open>Addition and doubling\<close>

definition ge_add :: "ge_p3 \<Rightarrow> ge_cached \<Rightarrow> ge_p1p1" where
  "ge_add p q =
     (let rX = fe_add (p3_Y p) (p3_X p); rY = fe_sub (p3_Y p) (p3_X p);
        rZ = fe_mul rX (YplusX q); rY = fe_mul rY (YminusX q); rT = fe_mul (T2d q) (p3_T p); rX = fe_mul (p3_Z p) (cached_Z q);
        t0 = fe_add rX rX; rX = fe_sub rZ rY; rY = fe_add rZ rY; rZ = fe_add t0 rT; rT = fe_sub t0 rT
      in \<lparr>c_X = rX, c_Y = rY, c_Z = rZ, c_T = rT\<rparr>)"

definition ge_sub :: "ge_p3 \<Rightarrow> ge_cached \<Rightarrow> ge_p1p1" where
  "ge_sub p q =
     (let rX = fe_add (p3_Y p) (p3_X p); rY = fe_sub (p3_Y p) (p3_X p);
        rZ = fe_mul rX (YminusX q); rY = fe_mul rY (YplusX q); rT = fe_mul (T2d q) (p3_T p); rX = fe_mul (p3_Z p) (cached_Z q);
        t0 = fe_add rX rX; rX = fe_sub rZ rY; rY = fe_add rZ rY; rZ = fe_sub t0 rT; rT = fe_add t0 rT
      in \<lparr>c_X = rX, c_Y = rY, c_Z = rZ, c_T = rT\<rparr>)"

definition ge_madd :: "ge_p3 \<Rightarrow> ge_precomp \<Rightarrow> ge_p1p1" where
  "ge_madd p q =
     (let rX = fe_add (p3_Y p) (p3_X p); rY = fe_sub (p3_Y p) (p3_X p);
        rZ = fe_mul rX (yplusx q); rY = fe_mul rY (yminusx q); rT = fe_mul (xy2d q) (p3_T p);
        t0 = fe_add (p3_Z p) (p3_Z p); rX = fe_sub rZ rY; rY = fe_add rZ rY; rZ = fe_add t0 rT; rT = fe_sub t0 rT
      in \<lparr>c_X = rX, c_Y = rY, c_Z = rZ, c_T = rT\<rparr>)"

definition ge_msub :: "ge_p3 \<Rightarrow> ge_precomp \<Rightarrow> ge_p1p1" where
  "ge_msub p q =
     (let rX = fe_add (p3_Y p) (p3_X p); rY = fe_sub (p3_Y p) (p3_X p);
        rZ = fe_mul rX (yminusx q); rY = fe_mul rY (yplusx q); rT = fe_mul (xy2d q) (p3_T p);
        t0 = fe_add (p3_Z p) (p3_Z p); rX = fe_sub rZ rY; rY = fe_add rZ rY; rZ = fe_sub t0 rT; rT = fe_add t0 rT
      in \<lparr>c_X = rX, c_Y = rY, c_Z = rZ, c_T = rT\<rparr>)"

definition ge_p2_dbl :: "ge_p2 \<Rightarrow> ge_p1p1" where
  "ge_p2_dbl p =
     (let rX = fe_sq (p2_X p); rZ = fe_sq (p2_Y p); rT = fe_sq2 (p2_Z p); rY = fe_add (p2_X p) (p2_Y p);
        t0 = fe_sq rY; rY = fe_add rZ rX; rZ = fe_sub rZ rX; rX = fe_sub t0 rY; rT = fe_sub rT rZ
      in \<lparr>c_X = rX, c_Y = rY, c_Z = rZ, c_T = rT\<rparr>)"

definition ge_p3_dbl :: "ge_p3 \<Rightarrow> ge_p1p1" where
  "ge_p3_dbl p = ge_p2_dbl (ge_p3_to_p2 p)"

section \<open>Encoding and decoding\<close>

definition ge_p3_tobytes :: "ge_p3 \<Rightarrow> bytes" where
  "ge_p3_tobytes h =
     (let recip = fe_invert (p3_Z h); x = fe_mul (p3_X h) recip; y = fe_mul (p3_Y h) recip; s = fe_tobytes y
      in s[31 := s ! 31 XOR push_bit 7 (ucast (fe_isnegative x))])"

definition ge_tobytes :: "ge_p2 \<Rightarrow> bytes" where
  "ge_tobytes h =
     (let recip = fe_invert (p2_Z h); x = fe_mul (p2_X h) recip; y = fe_mul (p2_Y h) recip; s = fe_tobytes y
      in s[31 := s ! 31 XOR push_bit 7 (ucast (fe_isnegative x))])"

text \<open>\<open>None\<close> is the return value -1.\<close>

definition ge_frombytes_negate_vartime :: "bytes \<Rightarrow> ge_p3 option" where
  "ge_frombytes_negate_vartime s =
     (let hY = fe_frombytes s; hZ = fe_1; u = fe_sq hY; v = fe_mul u curve_d; u = fe_sub u hZ; v = fe_add v hZ;
        v3 = fe_sq v; v3 = fe_mul v3 v; hX = fe_sq v3; hX = fe_mul hX v; hX = fe_mul hX u;
        hX = fe_pow22523 hX; hX = fe_mul hX v3; hX = fe_mul hX u;
        vxx = fe_sq hX; vxx = fe_mul vxx v; check = fe_sub vxx u;
        root = (if fe_isnonzero check \<noteq> 0
          then (let check = fe_add vxx u in if fe_isnonzero check \<noteq> 0 then None else Some (fe_mul hX sqrtm1))
          else Some hX)
      in case root of
           None \<Rightarrow> None
         | Some hX \<Rightarrow>
             let hX = (if fe_isnegative hX = ucast (drop_bit 7 (s ! 31)) then fe_neg hX else hX)
             in Some \<lparr>p3_X = hX, p3_Y = hY, p3_Z = hZ, p3_T = fe_mul hX hY\<rparr>)"

section \<open>Signed digits\<close>

type_synonym i8 = "8 word"

text \<open>Radix 16 with digits between -8 and 8, for the fixed base.\<close>

definition nibbles :: "bytes \<Rightarrow> i8 list" where
  "nibbles a = concat (map (\<lambda>b. [drop_bit 0 b AND 15, drop_bit 4 b AND 15]) a)"

definition recode_digit :: "nat \<Rightarrow> i8 list \<times> i8 \<Rightarrow> i8 list \<times> i8" where
  "recode_digit i = (\<lambda>(e, carry).
     let ei = e ! i + carry; carry = ei + 8; carry = signed_drop_bit 4 carry in (e[i := ei - push_bit 4 carry], carry))"

definition recode :: "bytes \<Rightarrow> i8 list" where
  "recode a = (let (e, carry) = fold recode_digit [0..<63] (nibbles a, 0) in e[63 := e ! 63 + carry])"

text \<open>
  Sliding windows of odd digits up to 15.  The sums in the conditions are C \<open>int\<close>s of
  promoted \<open>signed char\<close>s.
\<close>

definition slide_bits :: "bytes \<Rightarrow> i8 list" where
  "slide_bits a = map (\<lambda>i. 1 AND drop_bit (i mod 8) (a ! (i div 8))) [0..<256]"

primrec slide_carry :: "nat list \<Rightarrow> i8 list \<Rightarrow> i8 list" where
  "slide_carry [] r = r"
| "slide_carry (k # ks) r = (if r ! k = 0 then r[k := 1] else slide_carry ks (r[k := 0]))"

primrec slide_window :: "nat list \<Rightarrow> nat \<Rightarrow> i8 list \<Rightarrow> i8 list" where
  "slide_window [] i r = r"
| "slide_window (b # bs) i r =
     (if i + b < 256 then
        if r ! (i + b) \<noteq> 0 then
          if sint (r ! i) + sint (r ! (i + b)) * 2 ^ b \<le> 15
          then slide_window bs i (r[i := r ! i + push_bit b (r ! (i + b)), i + b := 0])
          else if - 15 \<le> sint (r ! i) - sint (r ! (i + b)) * 2 ^ b
          then slide_window bs i (slide_carry [i + b..<256] (r[i := r ! i - push_bit b (r ! (i + b))]))
          else r
        else slide_window bs i r
      else r)"

definition slide :: "bytes \<Rightarrow> i8 list" where
  "slide a = fold (\<lambda>i r. if r ! i \<noteq> 0 then slide_window [1..<7] i r else r) [0..<256] (slide_bits a)"

section \<open>Scalar multiplication\<close>

definition ge_equal :: "i8 \<Rightarrow> i8 \<Rightarrow> byte" where
  "ge_equal b c = (let x = b XOR c; y = ucast x :: u64; y = y - 1; y = drop_bit 63 y in ucast y)"

definition ge_negative :: "i8 \<Rightarrow> byte" where
  "ge_negative b = (let x = scast b :: u64; x = drop_bit 63 x in ucast x)"

definition precomp_cmov :: "ge_precomp \<Rightarrow> ge_precomp \<Rightarrow> byte \<Rightarrow> ge_precomp" where
  "precomp_cmov t u b =
     \<lparr>yplusx = fe_cmov (yplusx t) (yplusx u) (ucast b), yminusx = fe_cmov (yminusx t) (yminusx u) (ucast b),
      xy2d = fe_cmov (xy2d t) (xy2d u) (ucast b)\<rparr>"

definition ge_select :: "nat \<Rightarrow> i8 \<Rightarrow> ge_precomp" where
  "ge_select pos b =
     (let bnegative = ge_negative b; babs = b - push_bit 1 ((- bnegative) AND b);
        t = \<lparr>yplusx = fe_1, yminusx = fe_1, xy2d = fe_0\<rparr>;
        t = fold (\<lambda>j t. precomp_cmov t (base ! pos ! j) (ge_equal babs (of_nat (j + 1)))) [0..<8] t;
        minust = \<lparr>yplusx = fe_copy (yminusx t), yminusx = fe_copy (yplusx t), xy2d = fe_neg (xy2d t)\<rparr>
      in precomp_cmov t minust bnegative)"

definition madd_digit :: "i8 list \<Rightarrow> nat \<Rightarrow> ge_p3 \<Rightarrow> ge_p3" where
  "madd_digit e i h = (let t = ge_select (i div 2) (e ! i); r = ge_madd h t in ge_p1p1_to_p3 r)"

definition ge_scalarmult_base :: "bytes \<Rightarrow> ge_p3" where
  "ge_scalarmult_base a =
     (let e = recode a; h = ge_p3_0;
        h = fold (madd_digit e) (map (\<lambda>j. 2 * j + 1) [0..<32]) h;
        r = ge_p3_dbl h; s = ge_p1p1_to_p2 r; r = ge_p2_dbl s; s = ge_p1p1_to_p2 r;
        r = ge_p2_dbl s; s = ge_p1p1_to_p2 r; r = ge_p2_dbl s; h = ge_p1p1_to_p3 r
      in fold (madd_digit e) (map (\<lambda>j. 2 * j) [0..<32]) h)"

text \<open>The odd multiples \<open>A, 3A, ..., 15A\<close> of \<open>ge_double_scalarmult_vartime\<close>.\<close>

definition odd_multiples :: "ge_p3 \<Rightarrow> ge_cached list" where
  "odd_multiples A =
     (let A2 = ge_p1p1_to_p3 (ge_p3_dbl A)
      in fold (\<lambda>i Ai. Ai @ [ge_p3_to_cached (ge_p1p1_to_p3 (ge_add A2 (Ai ! i)))]) [0..<7] [ge_p3_to_cached A])"

definition double_scalar_step :: "i8 list \<Rightarrow> i8 list \<Rightarrow> ge_cached list \<Rightarrow> nat \<Rightarrow> ge_p2 \<Rightarrow> ge_p2" where
  "double_scalar_step aslide bslide Ai i r =
     (let t = ge_p2_dbl r;
        t = (if 0 < sint (aslide ! i) then ge_add (ge_p1p1_to_p3 t) (Ai ! nat (sint (aslide ! i) div 2))
             else if sint (aslide ! i) < 0 then ge_sub (ge_p1p1_to_p3 t) (Ai ! nat (- sint (aslide ! i) div 2)) else t);
        t = (if 0 < sint (bslide ! i) then ge_madd (ge_p1p1_to_p3 t) (Bi ! nat (sint (bslide ! i) div 2))
             else if sint (bslide ! i) < 0 then ge_msub (ge_p1p1_to_p3 t) (Bi ! nat (- sint (bslide ! i) div 2)) else t)
      in ge_p1p1_to_p2 t)"

definition ge_double_scalarmult_vartime :: "bytes \<Rightarrow> ge_p3 \<Rightarrow> bytes \<Rightarrow> ge_p2" where
  "ge_double_scalarmult_vartime a A b =
     (let aslide = slide a; bslide = slide b; Ai = odd_multiples A;
        top = dropWhile (\<lambda>i. \<not> (aslide ! i \<noteq> 0 \<or> bslide ! i \<noteq> 0)) (rev [0..<256])
      in fold (double_scalar_step aslide bslide Ai) top ge_p2_0)"

end
