(* ===== verification/CurveArith.thy ===== *)
theory CurveArith
  imports Curve
begin

text \<open>
  What the point operations of \<open>orlp_ed25519/ge.c\<close> compute: field elements as residues with a
  bound, representations of affine points, the refinement of the curve's addition law by the
  straight-line formulas, and the point decoder.
\<close>

section \<open>Field elements as residues with a bound\<close>

text \<open>
  \<open>fe_rep k f x\<close>: the limbs of \<open>f\<close> are within \<open>k\<close> times the bounds of a product and stand for
  \<open>x\<close> modulo the prime.  The rules follow the C code one operation at a time; \<open>ge.c\<close> feeds sums
  of up to three products into a multiplication, which is inside what \<open>fe_mul\<close> accepts.
\<close>

named_theorems rep_rules \<open>one field operation on represented residues\<close>

definition fe_rep :: "int \<Rightarrow> fe \<Rightarrow> int \<Rightarrow> bool" where
  "fe_rep k f x \<longleftrightarrow> bounded (map ((*) k) mul_out) f \<and> fe_val f mod p25519 = x mod p25519"

lemma mul_out_nth: "i < 10 \<Longrightarrow> 0 < mul_out ! i" "i < 10 \<Longrightarrow> mul_out ! i < 2 ^ 26" "length mul_out = 10"
proof -
  have "\<forall>i\<in>set [0..<10]. 0 < mul_out ! i \<and> mul_out ! i < 2 ^ 26"
    by code_simp
  then show "i < 10 \<Longrightarrow> 0 < mul_out ! i" "i < 10 \<Longrightarrow> mul_out ! i < 2 ^ 26"
    by auto
qed (simp add: mul_out_def limb_bounds_def)

lemma fe_rep_one: "fe_rep 1 f x \<longleftrightarrow> bounded mul_out f \<and> fe_val f mod p25519 = x mod p25519"
proof -
  have "map ((*) 1) mul_out = mul_out"
    by (simp add: map_idI)
  then show ?thesis
    by (simp add: fe_rep_def)
qed

lemma scaled_bounds_le:
  assumes "k \<le> c" and "\<forall>i\<in>set [0..<10]. c * mul_out ! i \<le> bs ! i" and "length bs = 10"
  shows "list_all2 (\<le>) (map ((*) k) mul_out) bs"
proof -
  have "k * mul_out ! i \<le> bs ! i" if "i < 10" for i
    using mult_right_mono [OF assms(1) less_imp_le [OF mul_out_nth(1) [OF that]]] assms(2) that by force
  then show ?thesis
    using assms(3) by (simp add: list_all2_conv_all_nth mul_out_nth(3))
qed

lemma fe_rep_in: "fe_rep k f x \<Longrightarrow> k \<le> 3 \<Longrightarrow> bounded mul_in f"
proof -
  have "\<forall>i\<in>set [0..<10]. 3 * mul_out ! i \<le> mul_in ! i" "length mul_in = 10"
    by code_simp+
  then show "fe_rep k f x \<Longrightarrow> k \<le> 3 \<Longrightarrow> bounded mul_in f"
    using bounded_mono scaled_bounds_le unfolding fe_rep_def by blast
qed

lemma fe_rep_out: "fe_rep k f x \<Longrightarrow> k \<le> 2 \<Longrightarrow> bounded add_out f"
proof -
  have "\<forall>i\<in>set [0..<10]. 2 * mul_out ! i \<le> add_out ! i" "length add_out = 10"
    by code_simp+
  then show "fe_rep k f x \<Longrightarrow> k \<le> 2 \<Longrightarrow> bounded add_out f"
    using bounded_mono scaled_bounds_le unfolding fe_rep_def by blast
qed

lemma fe_rep_cong: "fe_rep k f x \<Longrightarrow> x mod p25519 = y mod p25519 \<Longrightarrow> fe_rep k f y"
  by (simp add: fe_rep_def)

lemma fe_rep_mul [rep_rules]:
  assumes "fe_rep j f x" and "fe_rep k g y" and "j \<le> 3" and "k \<le> 3"
  shows "fe_rep 1 (fe_mul f g) (x * y)"
proof -
  have "fe_val f * fe_val g mod p25519 = x * y mod p25519"
    using assms(1,2) by (intro mod_mult_cong) (simp_all add: fe_rep_def)
  then show ?thesis
    using fe_mul_ok [OF fe_rep_in [OF assms(1,3)] fe_rep_in [OF assms(2,4)]] by (simp add: fe_rep_one)
qed

lemma fe_rep_sq [rep_rules]: "fe_rep k f x \<Longrightarrow> k \<le> 3 \<Longrightarrow> fe_rep 1 (fe_sq f) (x * x)"
  using fe_rep_mul [of k f x k f x] fe_sq_eq_mul [OF fe_rep_in] by simp

lemma fe_rep_sq2 [rep_rules]:
  assumes "fe_rep k f x" and "k \<le> 3"
  shows "fe_rep 1 (fe_sq2 f) (2 * x * x)"
proof -
  have "2 * fe_val f * fe_val f mod p25519 = 2 * x * x mod p25519"
    using assms(1) by (intro mod_mult_cong refl) (simp_all add: fe_rep_def)
  then show ?thesis
    using fe_sq2_ok [OF fe_rep_in [OF assms]] by (simp add: fe_rep_one)
qed

lemma scaled_sum: "map2 (+) (map ((*) j) bs) (map ((*) k) bs) = map ((*) (j + k :: int)) bs"
  by (induction bs) (simp_all add: algebra_simps)

lemma fe_rep_sum:
  assumes "fe_rep j f x" and "fe_rep k g y" and "j + k \<le> 30"
  shows "fe_rep (j + k) (fe_add f g) (x + y)" and "fe_rep (j + k) (fe_sub f g) (x - y)"
proof -
  have f: "bounded (map ((*) j) mul_out) f" "fe_val f mod p25519 = x mod p25519"
    and g: "bounded (map ((*) k) mul_out) g" "fe_val g mod p25519 = y mod p25519"
    using assms(1,2) by (simp_all add: fe_rep_def)
  have small: "map ((*) j) mul_out ! i + map ((*) k) mul_out ! i < 2 ^ 31" if "i < 10" for i
  proof -
    have "(j + k) * mul_out ! i \<le> 30 * mul_out ! i"
      using mult_right_mono [OF assms(3), of "mul_out ! i"] mul_out_nth(1) [OF that] by simp
    then show ?thesis
      using mul_out_nth(2,3) that by (fastforce simp: distrib_right)
  qed
  note point = fe_pointwise [OF f(1) g(1) small]
  show "fe_rep (j + k) (fe_add f g) (x + y)"
    using point(1,2) mod_add_cong [OF f(2) g(2)] bounded_length(1) [OF f(1)] bounded_length(1) [OF g(1)]
    by (simp add: fe_rep_def scaled_sum fe_val_def limbs_val_pointwise)
  show "fe_rep (j + k) (fe_sub f g) (x - y)"
    using point(3,4) mod_diff_cong [OF f(2) g(2)] bounded_length(1) [OF f(1)] bounded_length(1) [OF g(1)]
    by (simp add: fe_rep_def scaled_sum fe_val_def limbs_val_pointwise)
qed

lemma fe_rep_add [rep_rules]: "fe_rep j f x \<Longrightarrow> fe_rep k g y \<Longrightarrow> j + k \<le> 30 \<Longrightarrow> fe_rep (j + k) (fe_add f g) (x + y)"
  and fe_rep_sub [rep_rules]: "fe_rep j f x \<Longrightarrow> fe_rep k g y \<Longrightarrow> j + k \<le> 30 \<Longrightarrow> fe_rep (j + k) (fe_sub f g) (x - y)"
  using fe_rep_sum by blast+

lemma fe_rep_neg [rep_rules]: "fe_rep 1 f x \<Longrightarrow> fe_rep 1 (fe_neg f) (- x)"
proof -
  assume "fe_rep 1 f x"
  then have f: "bounded mul_out f" "fe_val f mod p25519 = x mod p25519"
    by (simp_all add: fe_rep_one)
  have "sint (fe_neg f ! i) = - sint (f ! i)" if "i < 10" for i
  proof -
    have "\<bar>- sint (f ! i)\<bar> < 2 ^ 31"
      using boundedD [OF f(1) that] mul_out_nth(2) [OF that] by simp
    then have "sint (word_of_int (- sint (f ! i)) :: i32) = - sint (f ! i)"
      by (rule sint_of_int_i32)
    then show ?thesis
      using that bounded_length(1) [OF f(1)] by (simp add: fe_neg_def)
  qed
  then have "bounded mul_out (fe_neg f)"
    using f(1) by (simp add: bounded_def) (simp add: fe_neg_def)
  moreover have "fe_val (fe_neg f) mod p25519 = - x mod p25519"
    unfolding fe_neg_ok(2) [OF bounded_widen(2) [OF f(1)]] by (metis f(2) mod_minus_eq)
  ultimately show "fe_rep 1 (fe_neg f) (- x)"
    by (simp add: fe_rep_one)
qed

lemma fe_copy_id [simp]: "fe_copy f = f"
  by (simp add: fe_copy_def)

lemma fe_rep_power:
  assumes "fe_rep k f x" and "k \<le> 3" and "power_of f g n"
  shows "fe_rep 1 g (x ^ n)"
proof -
  have "fe_val f ^ n mod p25519 = x ^ n mod p25519"
    using assms(1) by (metis fe_rep_def power_mod)
  then show ?thesis
    using assms(3) by (simp add: fe_rep_one power_of_def)
qed

lemma fe_rep_pow22523 [rep_rules]: "fe_rep k f x \<Longrightarrow> k \<le> 3 \<Longrightarrow> fe_rep 1 (fe_pow22523 f) (x ^ (2 ^ 252 - 3))"
  by (rule fe_rep_power [OF _ _ fe_powers_ok(2) [OF fe_rep_in]])

lemma fe_rep_invert [rep_rules]: "fe_rep k f x \<Longrightarrow> k \<le> 3 \<Longrightarrow> fe_rep 1 (fe_invert f) (x ^ (2 ^ 255 - 21))"
  by (rule fe_rep_power [OF _ _ fe_powers_ok(1) [OF fe_rep_in]])

lemma fe_val_consts: "fe_val fe_0 = 0" "fe_val fe_1 = 1"
  by (simp_all add: fe_val_def limbs_val_def sum10 fe_0_def fe_1_def limb_pos_def)

lemma fe_rep_consts [rep_rules]: "fe_rep 1 fe_0 0" "fe_rep 1 fe_1 1"
  using bounded_consts by (simp_all add: fe_rep_one fe_val_consts)

section \<open>Points\<close>

text \<open>
  \<open>p3_rep P x y z\<close>: \<open>P\<close> stands for the affine point \<open>(x, y)\<close> with denominator \<open>z\<close>; likewise
  for the other representations.  \<open>p1p1_rep R s nx dx ny dy\<close>: \<open>R\<close> stands for the pair of
  fractions \<open>nx / dx\<close> and \<open>ny / dy\<close>, up to the common factor \<open>s\<close>.
\<close>

definition d_int :: int where
  "d_int = fe_val curve_d"

definition p3_rep :: "ge_p3 \<Rightarrow> int \<Rightarrow> int \<Rightarrow> int \<Rightarrow> bool" where
  "p3_rep P x y z \<longleftrightarrow> fe_rep 1 (p3_X P) (x * z) \<and> fe_rep 1 (p3_Y P) (y * z) \<and> fe_rep 1 (p3_Z P) z \<and> fe_rep 1 (p3_T P) (x * y * z)"

definition p2_rep :: "ge_p2 \<Rightarrow> int \<Rightarrow> int \<Rightarrow> int \<Rightarrow> bool" where
  "p2_rep P x y z \<longleftrightarrow> fe_rep 1 (p2_X P) (x * z) \<and> fe_rep 1 (p2_Y P) (y * z) \<and> fe_rep 1 (p2_Z P) z"

definition cached_rep :: "ge_cached \<Rightarrow> int \<Rightarrow> int \<Rightarrow> int \<Rightarrow> bool" where
  "cached_rep Q x y z \<longleftrightarrow> fe_rep 2 (YplusX Q) ((y + x) * z) \<and> fe_rep 2 (YminusX Q) ((y - x) * z) \<and>
     fe_rep 1 (cached_Z Q) z \<and> fe_rep 1 (T2d Q) (2 * d_int * x * y * z)"

definition precomp_rep :: "ge_precomp \<Rightarrow> int \<Rightarrow> int \<Rightarrow> bool" where
  "precomp_rep Q x y \<longleftrightarrow> fe_rep 1 (yplusx Q) (y + x) \<and> fe_rep 1 (yminusx Q) (y - x) \<and> fe_rep 1 (xy2d Q) (2 * d_int * x * y)"

definition p1p1_rep :: "ge_p1p1 \<Rightarrow> int \<Rightarrow> int \<Rightarrow> int \<Rightarrow> int \<Rightarrow> int \<Rightarrow> bool" where
  "p1p1_rep R s nx dx ny dy \<longleftrightarrow> fe_rep 3 (c_X R) (s * nx) \<and> fe_rep 3 (c_Z R) (s * dx) \<and> fe_rep 3 (c_Y R) (s * ny) \<and> fe_rep 3 (c_T R) (s * dy)"

definition on_curve :: "int \<Rightarrow> int \<Rightarrow> bool" where
  "on_curve x y \<longleftrightarrow> (y * y - x * x) mod p25519 = (1 + d_int * x * x * y * y) mod p25519"

text \<open>
  \<open>fraction x n d\<close>: \<open>x = n / d\<close>, without division; \<open>(x3, y3)\<close> is the sum of \<open>(x1, y1)\<close> and
  \<open>(x2, y2)\<close> by the addition law of the curve.
\<close>

definition fraction :: "int \<Rightarrow> int \<Rightarrow> int \<Rightarrow> bool" where
  "fraction x n d \<longleftrightarrow> x * d mod p25519 = n mod p25519"

definition edwards_sum :: "int \<Rightarrow> int \<Rightarrow> int \<Rightarrow> int \<Rightarrow> int \<Rightarrow> int \<Rightarrow> bool" where
  "edwards_sum x1 y1 x2 y2 x3 y3 \<longleftrightarrow>
     fraction x3 (x1 * y2 + y1 * x2) (1 + d_int * x1 * x2 * y1 * y2) \<and>
     fraction y3 (y1 * y2 + x1 * x2) (1 - d_int * x1 * x2 * y1 * y2)"

lemma fe_rep_weaken: "fe_rep j f x \<Longrightarrow> j \<le> k \<Longrightarrow> fe_rep k f x"
proof -
  assume f: "fe_rep j f x" and "j \<le> k"
  then have "list_all2 (\<le>) (map ((*) j) mul_out) (map ((*) k) mul_out)"
    using mult_right_mono [OF \<open>j \<le> k\<close> less_imp_le [OF mul_out_nth(1)]] by (simp add: list_all2_conv_all_nth mul_out_nth(3))
  then show "fe_rep k f x"
    using f bounded_mono unfolding fe_rep_def by blast
qed

lemma fe_rep_eq: "fe_rep j f x \<Longrightarrow> j \<le> k \<Longrightarrow> x = y \<Longrightarrow> fe_rep k f y"
  using fe_rep_weaken by blast

lemma table_consts: "bounded mul_out curve_d" "bounded mul_out d2" "bounded mul_out sqrtm1"
proof -
  have "\<forall>i\<in>set [0..<10]. \<bar>sint (curve_d ! i)\<bar> \<le> mul_out ! i" "\<forall>i\<in>set [0..<10]. \<bar>sint (d2 ! i)\<bar> \<le> mul_out ! i"
    "\<forall>i\<in>set [0..<10]. \<bar>sint (sqrtm1 ! i)\<bar> \<le> mul_out ! i"
    unfolding upt10 by (simp_all add: curve_d_def d2_def sqrtm1_def mul_out_def limb_bounds_def)
  then show "bounded mul_out curve_d" "bounded mul_out d2" "bounded mul_out sqrtm1"
    by (simp_all add: bounded_def mul_out_nth(3)) (simp_all add: curve_d_def d2_def sqrtm1_def)
qed

text \<open>The constants of the source are what they claim to be.\<close>

lemma curve_constants:
  "d_int * 121666 mod p25519 = - 121665 mod p25519" "fe_val d2 mod p25519 = 2 * d_int mod p25519"
  "fe_val sqrtm1 * fe_val sqrtm1 mod p25519 = - 1 mod p25519"
  by (simp_all add: d_int_def fe_val_def limbs_val_def sum10 limb_pos_def curve_d_def d2_def sqrtm1_def p25519_def)

lemma fe_rep_curve [rep_rules]: "fe_rep 1 curve_d d_int" "fe_rep 1 d2 (2 * d_int)"
  using table_consts curve_constants by (simp_all add: fe_rep_one d_int_def)

lemma p3_to_cached_rep: "p3_rep P x y z \<Longrightarrow> cached_rep (ge_p3_to_cached P) x y z"
  unfolding p3_rep_def cached_rep_def ge_p3_to_cached_def ge_cached.simps fe_copy_id
  by (elim conjE, intro conjI; (rule fe_rep_eq, rule rep_rules, assumption, (assumption | rule rep_rules))?)
     (simp_all add: algebra_simps)

section \<open>The operations refine the addition law\<close>

lemma ge_add_rep:
  assumes "p3_rep P x1 y1 z" and "cached_rep Q x2 y2 w"
  shows "p1p1_rep (ge_add P Q) (2 * z * w) (x1 * y2 + y1 * x2) (1 + d_int * x1 * x2 * y1 * y2) (y1 * y2 + x1 * x2)
    (1 - d_int * x1 * x2 * y1 * y2)"
  using assms unfolding p3_rep_def cached_rep_def p1p1_rep_def ge_add_def Let_def ge_p1p1.simps
  by - (elim conjE, intro conjI; (rule fe_rep_eq, (rule rep_rules | assumption | linarith)+, simp add: algebra_simps))

lemma ge_sub_rep:
  assumes "p3_rep P x1 y1 z" and "cached_rep Q x2 y2 w"
  shows "p1p1_rep (ge_sub P Q) (2 * z * w) (x1 * y2 + y1 * - x2) (1 + d_int * x1 * - x2 * y1 * y2) (y1 * y2 + x1 * - x2)
    (1 - d_int * x1 * - x2 * y1 * y2)"
  using assms unfolding p3_rep_def cached_rep_def p1p1_rep_def ge_sub_def Let_def ge_p1p1.simps
  by - (elim conjE, intro conjI; (rule fe_rep_eq, (rule rep_rules | assumption | linarith)+, simp add: algebra_simps))

lemma ge_madd_rep:
  assumes "p3_rep P x1 y1 z" and "precomp_rep Q x2 y2"
  shows "p1p1_rep (ge_madd P Q) (2 * z) (x1 * y2 + y1 * x2) (1 + d_int * x1 * x2 * y1 * y2) (y1 * y2 + x1 * x2)
    (1 - d_int * x1 * x2 * y1 * y2)"
  using assms unfolding p3_rep_def precomp_rep_def p1p1_rep_def ge_madd_def Let_def ge_p1p1.simps
  by - (elim conjE, intro conjI; (rule fe_rep_eq, (rule rep_rules | assumption | linarith)+, simp add: algebra_simps))

lemma ge_msub_rep:
  assumes "p3_rep P x1 y1 z" and "precomp_rep Q x2 y2"
  shows "p1p1_rep (ge_msub P Q) (2 * z) (x1 * y2 + y1 * - x2) (1 + d_int * x1 * - x2 * y1 * y2) (y1 * y2 + x1 * - x2)
    (1 - d_int * x1 * - x2 * y1 * y2)"
  using assms unfolding p3_rep_def precomp_rep_def p1p1_rep_def ge_msub_def Let_def ge_p1p1.simps
  by - (elim conjE, intro conjI; (rule fe_rep_eq, (rule rep_rules | assumption | linarith)+, simp add: algebra_simps))

lemma ge_p2_dbl_rep:
  assumes "p2_rep P x y z"
  shows "p1p1_rep (ge_p2_dbl P) (z * z) (2 * x * y) (y * y - x * x) (y * y + x * x) (2 - (y * y - x * x))"
  using assms unfolding p2_rep_def p1p1_rep_def ge_p2_dbl_def Let_def ge_p1p1.simps
  by - (elim conjE, intro conjI; (rule fe_rep_eq, (rule rep_rules | assumption | linarith)+, simp add: algebra_simps))

text \<open>Leaving the completed representation multiplies out the two denominators.\<close>

lemma fraction_mult: "fraction x n d \<Longrightarrow> n * e mod p25519 = x * d * e mod p25519"
  unfolding fraction_def by (metis mod_mult_left_eq)

lemma p1p1_to_p3_rep:
  assumes "p1p1_rep R s nx dx ny dy" and "fraction x nx dx" and "fraction y ny dy"
  shows "p3_rep (ge_p1p1_to_p3 R) x y (s * s * (dx * dy))" and "p2_rep (ge_p1p1_to_p2 R) x y (s * s * (dx * dy))"
proof -
  have R: "fe_rep 3 (c_X R) (s * nx)" "fe_rep 3 (c_Z R) (s * dx)" "fe_rep 3 (c_Y R) (s * ny)" "fe_rep 3 (c_T R) (s * dy)"
    using assms(1) by (simp_all add: p1p1_rep_def)
  have prod: "fe_rep 1 (fe_mul f g) c"
    if "fe_rep 3 f a" "fe_rep 3 g b" "a * b mod p25519 = c mod p25519" for f g a b c
    by (rule fe_rep_cong [OF fe_rep_mul [OF that(1,2)] that(3)]) simp_all
  have X: "fe_rep 1 (fe_mul (c_X R) (c_T R)) (x * (s * s * (dx * dy)))"
    by (rule prod [OF R(1,4)]) (use fraction_mult [OF assms(2), of "s * s * dy"] in \<open>simp add: ac_simps\<close>)
  have Y: "fe_rep 1 (fe_mul (c_Y R) (c_Z R)) (y * (s * s * (dx * dy)))"
    by (rule prod [OF R(3,2)]) (use fraction_mult [OF assms(3), of "s * s * dx"] in \<open>simp add: ac_simps\<close>)
  have Z: "fe_rep 1 (fe_mul (c_Z R) (c_T R)) (s * s * (dx * dy))"
    by (rule prod [OF R(2,4)]) (simp add: ac_simps)
  have "nx * ny * (s * s) mod p25519 = x * dx * (y * dy) * (s * s) mod p25519"
    using assms(2,3) unfolding fraction_def by (intro mod_mult_cong refl) simp_all
  then have T: "fe_rep 1 (fe_mul (c_X R) (c_Y R)) (x * y * (s * s * (dx * dy)))"
    by (intro prod [OF R(1,3)]) (simp add: ac_simps)
  show "p3_rep (ge_p1p1_to_p3 R) x y (s * s * (dx * dy))" "p2_rep (ge_p1p1_to_p2 R) x y (s * s * (dx * dy))"
    using X Y Z T by (simp_all add: p3_rep_def p2_rep_def ge_p1p1_to_p3_def ge_p1p1_to_p2_def)
qed

lemma p3_to_p2_rep: "p3_rep P x y z \<Longrightarrow> p2_rep (ge_p3_to_p2 P) x y z"
  by (simp add: p3_rep_def p2_rep_def ge_p3_to_p2_def)

text \<open>On the curve the doubling formulas are the addition law applied to a point and itself.\<close>

lemma doubling_fractions:
  assumes "on_curve x y" and "edwards_sum x y x y x3 y3"
  shows "fraction x3 (2 * x * y) (y * y - x * x)" and "fraction y3 (y * y + x * x) (2 - (y * y - x * x))"
proof -
  let ?t = "d_int * x * x * y * y"
  have curve: "(y * y - x * x) mod p25519 = (1 + ?t) mod p25519"
    using assms(1) by (simp add: on_curve_def)
  have "x3 * (y * y - x * x) mod p25519 = x3 * (1 + ?t) mod p25519"
    by (rule mod_mult_cong [OF refl curve])
  then show "fraction x3 (2 * x * y) (y * y - x * x)"
    using assms(2) by (simp add: fraction_def edwards_sum_def algebra_simps)
  have "(2 - (y * y - x * x)) mod p25519 = (2 - (1 + ?t)) mod p25519"
    by (rule mod_diff_cong [OF refl curve])
  then have "y3 * (2 - (y * y - x * x)) mod p25519 = y3 * (1 - ?t) mod p25519"
    by (intro mod_mult_cong refl) simp
  then show "fraction y3 (y * y + x * x) (2 - (y * y - x * x))"
    using assms(2) by (simp add: fraction_def edwards_sum_def)
qed

text \<open>
  C30: The point operations refine the addition law of the curve: on representations of
  affine points, \<open>ge_add\<close> and \<open>ge_madd\<close> followed by the conversion give a representation of the
  sum, \<open>ge_sub\<close> and \<open>ge_msub\<close> of the difference, and \<open>ge_p3_dbl\<close> of the double, with the
  denominators shown; every intermediate field element stays within its bounds.
\<close>

theorem curve_operations_refine_addition:
  assumes "p3_rep P x1 y1 z" and "p3_rep Q x2 y2 w" and "precomp_rep B x2 y2"
    and "edwards_sum x1 y1 x2 y2 x3 y3" and "edwards_sum x1 y1 (- x2) y2 x4 y4"
    and "on_curve x1 y1" and "edwards_sum x1 y1 x1 y1 x5 y5"
  defines "t \<equiv> d_int * x1 * x2 * y1 * y2"
  shows "p3_rep (ge_p1p1_to_p3 (ge_add P (ge_p3_to_cached Q))) x3 y3 ((2 * z * w) * (2 * z * w) * ((1 + t) * (1 - t))) \<and>
    p3_rep (ge_p1p1_to_p3 (ge_sub P (ge_p3_to_cached Q))) x4 y4 ((2 * z * w) * (2 * z * w) * ((1 - t) * (1 + t))) \<and>
    p3_rep (ge_p1p1_to_p3 (ge_madd P B)) x3 y3 ((2 * z) * (2 * z) * ((1 + t) * (1 - t))) \<and>
    p3_rep (ge_p1p1_to_p3 (ge_msub P B)) x4 y4 ((2 * z) * (2 * z) * ((1 - t) * (1 + t))) \<and>
    p3_rep (ge_p1p1_to_p3 (ge_p3_dbl P)) x5 y5 (z * z * (z * z) * ((y1 * y1 - x1 * x1) * (2 - (y1 * y1 - x1 * x1))))"
proof -
  note sum = assms(4) [unfolded edwards_sum_def] and diff = assms(5) [unfolded edwards_sum_def]
  note Q = p3_to_cached_rep [OF assms(2)]
  have "p3_rep (ge_p1p1_to_p3 (ge_add P (ge_p3_to_cached Q))) x3 y3 ((2 * z * w) * (2 * z * w) * ((1 + t) * (1 - t)))"
    unfolding t_def by (rule p1p1_to_p3_rep(1) [OF ge_add_rep [OF assms(1) Q] conjunct1 [OF sum] conjunct2 [OF sum]])
  moreover have "p3_rep (ge_p1p1_to_p3 (ge_sub P (ge_p3_to_cached Q))) x4 y4 ((2 * z * w) * (2 * z * w) * ((1 - t) * (1 + t)))"
    using p1p1_to_p3_rep(1) [OF ge_sub_rep [OF assms(1) Q] conjunct1 [OF diff] conjunct2 [OF diff]] by (simp add: t_def)
  moreover have "p3_rep (ge_p1p1_to_p3 (ge_madd P B)) x3 y3 ((2 * z) * (2 * z) * ((1 + t) * (1 - t)))"
    unfolding t_def by (rule p1p1_to_p3_rep(1) [OF ge_madd_rep [OF assms(1,3)] conjunct1 [OF sum] conjunct2 [OF sum]])
  moreover have "p3_rep (ge_p1p1_to_p3 (ge_msub P B)) x4 y4 ((2 * z) * (2 * z) * ((1 - t) * (1 + t)))"
    using p1p1_to_p3_rep(1) [OF ge_msub_rep [OF assms(1,3)] conjunct1 [OF diff] conjunct2 [OF diff]] by (simp add: t_def)
  moreover have "p3_rep (ge_p1p1_to_p3 (ge_p3_dbl P)) x5 y5
      (z * z * (z * z) * ((y1 * y1 - x1 * x1) * (2 - (y1 * y1 - x1 * x1))))"
    unfolding ge_p3_dbl_def
    by (rule p1p1_to_p3_rep(1) [OF ge_p2_dbl_rep [OF p3_to_p2_rep [OF assms(1)]] doubling_fractions [OF assms(6,7)]])
  ultimately show ?thesis
    by blast
qed

theorem curve_operations_refine_addition_witness:
  "p3_rep (ge_p1p1_to_p3 (ge_add \<lparr>p3_X = fe_0, p3_Y = fe_neg fe_1, p3_Z = fe_1, p3_T = fe_0\<rparr>
     (ge_p3_to_cached \<lparr>p3_X = fe_0, p3_Y = fe_neg fe_1, p3_Z = fe_1, p3_T = fe_0\<rparr>))) 0 1 4"
proof -
  let ?P = "\<lparr>p3_X = fe_0, p3_Y = fe_neg fe_1, p3_Z = fe_1, p3_T = fe_0\<rparr>"
  let ?B = "\<lparr>yplusx = fe_neg fe_1, yminusx = fe_neg fe_1, xy2d = fe_0\<rparr>"
  have P: "p3_rep ?P 0 (- 1) 1" and B: "precomp_rep ?B 0 (- 1)"
    using fe_rep_consts fe_rep_neg [OF fe_rep_consts(2)] by (simp_all add: p3_rep_def precomp_rep_def)
  have sum: "edwards_sum 0 (- 1) 0 (- 1) 0 1" "edwards_sum 0 (- 1) (- 0) (- 1) 0 1" "on_curve 0 (- 1)"
    by (simp_all add: edwards_sum_def fraction_def on_curve_def)
  show ?thesis
    using curve_operations_refine_addition [OF P P B sum(1,2,3) sum(1)] by simp
qed

section \<open>Decoding\<close>

lemma fe_rep_frombytes: "length s = 32 \<Longrightarrow> fe_rep 1 (fe_frombytes s) (le_val s mod 2 ^ 255)"
  using fe_frombytes_ok [of s] by (simp add: fe_rep_one)

lemma isnonzero_rep: "bounded add_out f \<Longrightarrow> fe_val f mod p25519 = x mod p25519 \<Longrightarrow> fe_isnonzero f \<noteq> 0 \<longleftrightarrow> x mod p25519 \<noteq> 0"
  by (simp add: fe_isnonzero_ok)

text \<open>
  The checks of the decoder add a product and a difference of a product and 1; that is still
  inside what \<open>fe_tobytes\<close> accepts, although three products would not be.
\<close>

lemma fe_check_bounds:
  assumes "bounded mul_out a" and "bounded mul_out b"
  shows "bounded add_out (fe_sub a (fe_sub b fe_1))" and "bounded add_out (fe_add a (fe_sub b fe_1))"
proof -
  let ?one = "[1, 0, 0, 0, 0, 0, 0, 0, 0, 0] :: int list"
  have "\<forall>i\<in>set [0..<10]. \<bar>sint (fe_1 ! i)\<bar> \<le> ?one ! i"
    unfolding upt10 by (simp add: fe_1_def)
  then have one: "bounded ?one fe_1"
    by (simp add: bounded_def) (simp add: fe_1_def)
  have small: "\<forall>i\<in>set [0..<10]. mul_out ! i + ?one ! i < 2 ^ 31" "\<forall>i\<in>set [0..<10]. mul_out ! i + map2 (+) mul_out ?one ! i < 2 ^ 31"
    by code_simp+
  have u: "bounded (map2 (+) mul_out ?one) (fe_sub b fe_1)"
    using fe_pointwise(4) [OF assms(2) one] small(1) by simp
  have wide: "list_all2 (\<le>) (map2 (+) mul_out (map2 (+) mul_out ?one)) add_out"
    by code_simp
  show "bounded add_out (fe_sub a (fe_sub b fe_1))" "bounded add_out (fe_add a (fe_sub b fe_1))"
    using fe_pointwise(2,4) [OF assms(1) u] small(2) bounded_mono [OF _ wide] by simp_all
qed

definition sign_bit :: "bytes \<Rightarrow> int" where
  "sign_bit s = uint (drop_bit 7 (s ! 31))"

lemma isnegative_sign:
  assumes "bounded add_out f"
  shows "fe_isnegative f = ucast (drop_bit 7 (s ! 31)) \<longleftrightarrow> fe_val f mod p25519 mod 2 = sign_bit s"
proof -
  have "uint (ucast (drop_bit 7 (s ! 31)) :: i32) = sign_bit s"
    by (simp add: sign_bit_def unsigned_ucast_eq bintr_uint)
  then show ?thesis
    using fe_isnegative_ok [OF assms] by (metis unsigned_word_eqI)
qed

lemma odd_modulus: "p25519 = 2 * (2 ^ 254 - 10) + 1"
  by (simp add: p25519_def)

lemma decode_sign:
  fixes s :: bytes
  assumes "fe_rep 1 f x"
  defines "g \<equiv> (if fe_isnegative f = ucast (drop_bit 7 (s ! 31)) then fe_neg f else f)"
  obtains x' where "fe_rep 1 g x'" and "x' * x' = x * x" and "x' mod p25519 = 0 \<or> x' mod p25519 mod 2 \<noteq> sign_bit s"
proof (cases "fe_isnegative f = ucast (drop_bit 7 (s ! 31))")
  case True
  have f: "bounded add_out f" "fe_val f mod p25519 = x mod p25519"
    using assms(1) bounded_widen(3) by (auto simp: fe_rep_one)
  have sign: "x mod p25519 mod 2 = sign_bit s"
    using True isnegative_sign [OF f(1)] f(2) by simp
  have "- x mod p25519 mod 2 \<noteq> sign_bit s" if "- x mod p25519 \<noteq> 0"
  proof -
    have "- x mod p25519 = p25519 - x mod p25519"
      using that by (simp add: zmod_zminus1_eq_if split: if_splits)
    moreover have "(2 * k + 1 - r) mod 2 \<noteq> r mod 2" for k r :: int
      by presburger
    ultimately show ?thesis
      using sign odd_modulus by metis
  qed
  moreover have "fe_rep 1 g (- x)"
    unfolding g_def using True fe_rep_neg [OF assms(1)] by simp
  ultimately show ?thesis
    by (cases "- x mod p25519 = 0") (rule that [of "- x"]; simp)+
next
  case False
  then have "x mod p25519 mod 2 \<noteq> sign_bit s"
    using isnegative_sign [of f s] assms(1) bounded_widen(3) by (auto simp: fe_rep_one)
  then show ?thesis
    using that [of x] assms(1) False by (simp add: g_def)
qed

text \<open>
  The candidate square root \<open>r\<close> of \<open>u / v\<close> is a multiple of \<open>u\<close>; the decoder's two checks decide
  on it exactly, and then it only fixes the sign.
\<close>

definition decode_from :: "bytes \<Rightarrow> fe option \<Rightarrow> ge_p3 option" where
  "decode_from s root = (case root of
     None \<Rightarrow> None
   | Some f \<Rightarrow> let hX = (if fe_isnegative f = ucast (drop_bit 7 (s ! 31)) then fe_neg f else f)
     in Some \<lparr>p3_X = hX, p3_Y = fe_frombytes s, p3_Z = fe_1, p3_T = fe_mul hX (fe_frombytes s)\<rparr>)"

definition root_candidate :: "int \<Rightarrow> int" where
  "root_candidate y =
     (let u = y * y - 1; v = y * y * d_int + 1; v3 = v * v * v in (v3 * v3 * v * u) ^ (2 ^ 252 - 3) * v3 * u)"

lemma decode_candidate:
  assumes "length s = 32"
  defines "y \<equiv> le_val s mod 2 ^ 255"
  obtains r where "fe_rep 1 r (root_candidate y)"
    and "ge_frombytes_negate_vartime s = decode_from s
      (if (root_candidate y * root_candidate y * (y * y * d_int + 1) - (y * y - 1)) mod p25519 = 0 then Some r
       else if (root_candidate y * root_candidate y * (y * y * d_int + 1) + (y * y - 1)) mod p25519 = 0 then Some (fe_mul r sqrtm1)
       else None)"
proof -
  let ?Y = "fe_frombytes s"
  define u where "u = fe_sub (fe_sq ?Y) fe_1"
  define v where "v = fe_add (fe_mul (fe_sq ?Y) curve_d) fe_1"
  define v3 where "v3 = fe_mul (fe_sq v) v"
  define q where "q = fe_mul (fe_pow22523 (fe_mul (fe_mul (fe_sq v3) v) u)) v3"
  define r where "r = fe_mul q u"
  define vxx where "vxx = fe_mul (fe_sq r) v"
  have Y: "fe_rep 1 ?Y y"
    unfolding y_def by (rule fe_rep_frombytes [OF assms(1)])
  have u: "fe_rep 2 u (y * y - 1)"
    unfolding u_def by (rule fe_rep_eq, (rule rep_rules Y | linarith)+)
  have v: "fe_rep 2 v (y * y * d_int + 1)"
    unfolding v_def by (rule fe_rep_eq, (rule rep_rules Y | linarith)+)
  define r0 where "r0 = root_candidate y"
  have r: "fe_rep 1 r r0"
    unfolding r_def q_def v3_def r0_def root_candidate_def Let_def by (rule rep_rules u v | simp)+
  have vxx: "fe_rep 1 vxx (r0 * r0 * (y * y * d_int + 1))"
    unfolding vxx_def by (rule fe_rep_mul [OF fe_rep_sq [OF r] v]) simp_all
  have ok: "bounded add_out (fe_sub vxx u)" "bounded add_out (fe_add vxx u)"
    unfolding u_def vxx_def using fe_check_bounds fe_rep_sq [OF Y] vxx by (simp_all add: fe_rep_one vxx_def)
  have sub: "fe_isnonzero (fe_sub vxx u) \<noteq> 0 \<longleftrightarrow> (r0 * r0 * (y * y * d_int + 1) - (y * y - 1)) mod p25519 \<noteq> 0"
    using fe_rep_sub [OF vxx u] by (intro isnonzero_rep [OF ok(1)]) (simp add: fe_rep_def)
  have add: "fe_isnonzero (fe_add vxx u) \<noteq> 0 \<longleftrightarrow> (r0 * r0 * (y * y * d_int + 1) + (y * y - 1)) mod p25519 \<noteq> 0"
    using fe_rep_add [OF vxx u] by (intro isnonzero_rep [OF ok(2)]) (simp add: fe_rep_def)
  have "ge_frombytes_negate_vartime s = decode_from s (if fe_isnonzero (fe_sub vxx u) \<noteq> 0
      then (if fe_isnonzero (fe_add vxx u) \<noteq> 0 then None else Some (fe_mul r sqrtm1)) else Some r)"
    unfolding ge_frombytes_negate_vartime_def decode_from_def Let_def vxx_def r_def q_def v3_def v_def u_def ..
  also have "(if fe_isnonzero (fe_sub vxx u) \<noteq> 0
      then (if fe_isnonzero (fe_add vxx u) \<noteq> 0 then None else Some (fe_mul r sqrtm1)) else Some r) =
    (if (r0 * r0 * (y * y * d_int + 1) - (y * y - 1)) mod p25519 = 0 then Some r
     else if (r0 * r0 * (y * y * d_int + 1) + (y * y - 1)) mod p25519 = 0 then Some (fe_mul r sqrtm1) else None)"
    unfolding sub add by simp
  finally show ?thesis
    using that [of r] r unfolding r0_def by blast
qed

text \<open>What the decoder returns, before the sign: a square root of \<open>u / v\<close>, up to \<open>sqrtm1\<close>.\<close>

lemma decode_root:
  assumes "length s = 32" and "ge_frombytes_negate_vartime s = Some h"
  defines "y \<equiv> le_val s mod 2 ^ 255"
  obtains f x where "fe_rep 1 f x" and "x * x * (y * y * d_int + 1) mod p25519 = (y * y - 1) mod p25519"
    and "decode_from s (Some f) = Some h"
proof -
  define r0 where "r0 = root_candidate y"
  obtain r where r: "fe_rep 1 r r0"
    and dec: "ge_frombytes_negate_vartime s = decode_from s
      (if (r0 * r0 * (y * y * d_int + 1) - (y * y - 1)) mod p25519 = 0 then Some r
       else if (r0 * r0 * (y * y * d_int + 1) + (y * y - 1)) mod p25519 = 0 then Some (fe_mul r sqrtm1)
       else None)"
    unfolding y_def r0_def by (rule decode_candidate [OF assms(1)])
  consider "(r0 * r0 * (y * y * d_int + 1) - (y * y - 1)) mod p25519 = 0"
    | "(r0 * r0 * (y * y * d_int + 1) - (y * y - 1)) mod p25519 \<noteq> 0" "(r0 * r0 * (y * y * d_int + 1) + (y * y - 1)) mod p25519 = 0"
    using dec assms(2) unfolding decode_from_def by fastforce
  then show ?thesis
  proof cases
    case 1
    then have "decode_from s (Some r) = Some h"
      using dec assms(2) by (simp only: if_True simp_thms)
    moreover have "r0 * r0 * (y * y * d_int + 1) mod p25519 = (y * y - 1) mod p25519"
      using 1 by (simp only: mod_eq_dvd_iff dvd_eq_mod_eq_0)
    ultimately show ?thesis
      using that [OF r] by blast
  next
    case 2
    have root: "fe_rep 1 (fe_mul r sqrtm1) (r0 * fe_val sqrtm1)"
      by (rule fe_rep_mul [OF r, of 1]) (simp_all add: fe_rep_one table_consts(3))
    have "(r0 * r0 * (y * y * d_int + 1) - - (y * y - 1)) mod p25519 = 0"
      using 2(2) by (simp only: diff_minus_eq_add)
    then have neg: "r0 * r0 * (y * y * d_int + 1) mod p25519 = - (y * y - 1) mod p25519"
      by (simp only: mod_eq_dvd_iff dvd_eq_mod_eq_0)
    have "r0 * fe_val sqrtm1 * (r0 * fe_val sqrtm1) * (y * y * d_int + 1) =
        (r0 * r0 * (y * y * d_int + 1)) * (fe_val sqrtm1 * fe_val sqrtm1)"
      by (simp add: ac_simps)
    moreover have "(r0 * r0 * (y * y * d_int + 1)) * (fe_val sqrtm1 * fe_val sqrtm1) mod p25519 = - (y * y - 1) * - 1 mod p25519"
      by (rule mod_mult_cong [OF neg curve_constants(3)])
    ultimately have "r0 * fe_val sqrtm1 * (r0 * fe_val sqrtm1) * (y * y * d_int + 1) mod p25519 = (y * y - 1) mod p25519"
      by (simp only: minus_mult_minus mult_1_right)
    moreover have "decode_from s (Some (fe_mul r sqrtm1)) = Some h"
      using dec assms(2) 2 by (simp only: if_True if_False simp_thms)
    ultimately show ?thesis
      using that [OF root] by blast
  qed
qed

lemma decode_ok:
  assumes "length s = 32" and "ge_frombytes_negate_vartime s = Some h"
  defines "y \<equiv> le_val s mod 2 ^ 255"
  obtains x where "p3_rep h x y 1" and "on_curve x y" and "x mod p25519 = 0 \<or> x mod p25519 mod 2 \<noteq> sign_bit s"
proof -
  let ?Y = "fe_frombytes s"
  have Y: "fe_rep 1 ?Y y"
    unfolding y_def by (rule fe_rep_frombytes [OF assms(1)])
  obtain f x0 where f: "fe_rep 1 f x0" and root: "x0 * x0 * (y * y * d_int + 1) mod p25519 = (y * y - 1) mod p25519"
    and h: "decode_from s (Some f) = Some h"
    unfolding y_def by (rule decode_root [OF assms(1,2)])
  let ?X = "if fe_isnegative f = ucast (drop_bit 7 (s ! 31)) then fe_neg f else f"
  obtain x where X: "fe_rep 1 ?X x" and sq: "x * x = x0 * x0" and sign: "x mod p25519 = 0 \<or> x mod p25519 mod 2 \<noteq> sign_bit s"
    using decode_sign [OF f, of s] by blast
  have h: "h = \<lparr>p3_X = ?X, p3_Y = ?Y, p3_Z = fe_1, p3_T = fe_mul ?X ?Y\<rparr>"
    using h by (simp add: decode_from_def Let_def)
  have rep: "p3_rep h x y 1"
    unfolding h using X Y fe_rep_consts(2) fe_rep_mul [OF X Y] by (simp add: p3_rep_def)
  have "x * x * (y * y * d_int + 1) mod p25519 = (y * y - 1) mod p25519"
    using root sq by simp
  then have "(x * x * (y * y * d_int + 1) - x * x + 1) mod p25519 = (y * y - 1 - x * x + 1) mod p25519"
    by (intro mod_add_cong mod_diff_cong refl)
  then have "on_curve x y"
    unfolding on_curve_def by (simp add: algebra_simps)
  then show ?thesis
    by (rule that [OF rep _ sign])
qed

text \<open>When $y^2 = 1$ the candidate is zero and passes the first check.\<close>

lemma decode_trivial:
  assumes "length s = 32" and "le_val s mod 2 ^ 255 = 1"
  obtains h where "ge_frombytes_negate_vartime s = Some h" and "fe_rep 1 (p3_X h) 0"
proof -
  obtain r where r: "fe_rep 1 r 0" and "ge_frombytes_negate_vartime s = decode_from s (Some r)"
  proof (rule decode_candidate [OF assms(1)], unfold assms(2), goal_cases)
    case (1 r)
    then show ?case
      by (intro 1(1) [of r]) (simp_all add: root_candidate_def)
  qed
  then show ?thesis
    using that fe_rep_neg [OF r] by (simp add: decode_from_def Let_def split: if_splits)
qed

text \<open>
  C31: A public key or point that the decoder accepts is a point of the curve: its $y$ is the
  number encoded in the lower 255 bits of the 32 bytes, $x$ and $y$ satisfy the curve equation,
  and $x$ has the parity opposite to the sign bit, since the decoder returns the negated point
  (an $x$ of zero has no opposite and is accepted with either sign bit).
\<close>

theorem decoded_point_on_curve:
  assumes "length s = 32" and "ge_frombytes_negate_vartime s = Some h"
  shows "\<exists>x. p3_rep h x (le_val s mod 2 ^ 255) 1 \<and> on_curve x (le_val s mod 2 ^ 255) \<and>
    (x mod p25519 = 0 \<or> x mod p25519 mod 2 \<noteq> sign_bit s)"
  by (rule decode_ok [OF assms]) (intro exI conjI)

definition neutral_bytes :: bytes where
  "neutral_bytes = 1 # replicate 31 0"

lemma neutral_val: "length neutral_bytes = 32" "le_val neutral_bytes mod 2 ^ 255 = 1"
  by (simp_all add: neutral_bytes_def le_val_def numeral_eq_Suc)

theorem decoded_point_on_curve_witness: "\<exists>h x. ge_frombytes_negate_vartime neutral_bytes = Some h \<and> p3_rep h x 1 1 \<and> on_curve x 1"
proof -
  obtain h where h: "ge_frombytes_negate_vartime neutral_bytes = Some h"
    by (rule decode_trivial [OF neutral_val])
  obtain x where "p3_rep h x 1 1 \<and> on_curve x 1 \<and> (x mod p25519 = 0 \<or> x mod p25519 mod 2 \<noteq> sign_bit neutral_bytes)"
    using decoded_point_on_curve [OF neutral_val(1) h] unfolding neutral_val(2) by (elim exE)
  then show ?thesis
    using h by (intro exI [of _ h] exI [of _ x]) simp
qed


section \<open>Encoding a decoded point\<close>

text \<open>The encoder takes out the denominator; for denominator 1 that is a multiplication by 1.\<close>

lemma encode_parts:
  assumes "p3_rep h x y 1"
  shows "le_val (fe_tobytes (fe_mul (p3_Y h) (fe_invert (p3_Z h)))) = y mod p25519"
    and "length (fe_tobytes (fe_mul (p3_Y h) (fe_invert (p3_Z h)))) = 32"
    and "uint (fe_isnegative (fe_mul (p3_X h) (fe_invert (p3_Z h)))) = x mod p25519 mod 2"
proof -
  have h: "fe_rep 1 (p3_X h) (x * 1)" "fe_rep 1 (p3_Y h) (y * 1)" "fe_rep 1 (p3_Z h) 1"
    using assms unfolding p3_rep_def by blast+
  have inv: "fe_rep 1 (fe_invert (p3_Z h)) 1"
    using fe_rep_invert [OF h(3)] by simp
  have X: "fe_rep 1 (fe_mul (p3_X h) (fe_invert (p3_Z h))) x" and Y: "fe_rep 1 (fe_mul (p3_Y h) (fe_invert (p3_Z h))) y"
    using fe_rep_mul [OF h(1) inv] fe_rep_mul [OF h(2) inv] by simp_all
  have bounds: "bounded add_out (fe_mul (p3_X h) (fe_invert (p3_Z h)))" "bounded add_out (fe_mul (p3_Y h) (fe_invert (p3_Z h)))"
    by (rule fe_rep_out [OF X], simp, rule fe_rep_out [OF Y], simp)
  show "le_val (fe_tobytes (fe_mul (p3_Y h) (fe_invert (p3_Z h)))) = y mod p25519"
    using fe_tobytes_ok(2) [OF bounds(2)] Y by (simp only: fe_rep_one)
  show "length (fe_tobytes (fe_mul (p3_Y h) (fe_invert (p3_Z h)))) = 32"
    by (rule fe_tobytes_ok(1) [OF bounds(2)])
  show "uint (fe_isnegative (fe_mul (p3_X h) (fe_invert (p3_Z h)))) = x mod p25519 mod 2"
    using fe_isnegative_ok [OF bounds(1)] X by (simp only: fe_rep_one)
qed

lemma le_val_top_byte:
  assumes "length s = 32"
  shows "le_val s = le_val (take 31 s) + 2 ^ 248 * uint (s ! 31)"
proof -
  have "le_val s = le_val (take 31 s @ [s ! 31])"
    using assms take_Suc_conv_app_nth [of 31 s] by simp
  then show ?thesis
    using assms by (subst (asm) le_val_append) simp
qed

lemma byte_split: "uint (b AND 127 :: byte) = uint b mod 128" "uint (drop_bit 7 b) = uint b div 128"
proof -
  have "b AND 127 = take_bit 7 b"
    using take_bit_eq_mask [of 7 b] by (simp add: mask_eq_exp_minus_1)
  then have "uint (b AND 127) = take_bit 7 (uint b)"
    by (simp only: unsigned_take_bit_eq)
  then show "uint (b AND 127) = uint b mod 128"
    by (simp only: take_bit_eq_mod) simp
  show "uint (drop_bit 7 b) = uint b div 128"
    by (subst unsigned_drop_bit_eq) (simp add: drop_bit_eq_div bintr_uint)
qed

lemma low_bits:
  assumes "length s = 32"
  shows "le_val s mod 2 ^ 255 = le_val (s[31 := s ! 31 AND 127])"
proof -
  have low: "0 \<le> le_val (take 31 s)" "le_val (take 31 s) < 2 ^ 248"
    using le_val_bounds [of "take 31 s"] assms by simp_all
  have "le_val (s[31 := s ! 31 AND 127]) = le_val (take 31 s) + 2 ^ 248 * (uint (s ! 31) mod 128)"
    using le_val_top_byte [of "s[31 := s ! 31 AND 127]"] assms by (simp add: byte_split)
  moreover have "(l + a * b) mod (a * 128) = l + a * (b mod 128)" if "0 \<le> l" "l < a" for l a b :: int
    using that by (simp add: zmod_zmult2_eq)
  from this [OF low, of "uint (s ! 31)"]
  have "(le_val (take 31 s) + 2 ^ 248 * uint (s ! 31)) mod 2 ^ 255 = le_val (take 31 s) + 2 ^ 248 * (uint (s ! 31) mod 128)"
    by simp
  ultimately show ?thesis
    using le_val_top_byte [OF assms] by simp
qed

lemma uint_byte_less: "uint (b :: byte) < 256"
  using uint_bounded [of b] by simp

lemma parity_flip:
  assumes "(m :: int) mod 2 \<noteq> b" and "b = u div 128" and "0 \<le> u" and "u < 256"
  shows "m mod 2 = 1 - b"
  using assms by presburger

lemma flip_byte:
  fixes b :: byte and w :: i32
  assumes "uint w = 1 - uint (drop_bit 7 b)"
  shows "(b AND 127) XOR push_bit 7 (ucast w) = b XOR 128"
proof -
  have "\<forall>n\<in>set [0..<256]. (of_nat n AND 127) XOR push_bit 7 (ucast (word_of_int (1 - uint (drop_bit 7 (of_nat n :: byte))) :: i32)) =
      (of_nat n XOR 128 :: byte)"
    by code_simp
  moreover have "b = of_nat (unat b)" "unat b \<in> set [0..<256]" "w = word_of_int (1 - uint (drop_bit 7 b))"
    by (simp_all flip: assms)
  ultimately show ?thesis
    by metis
qed

text \<open>
  Decoding and encoding are inverse up to the negation the decoder is named after: a
  canonical encoding (its $y$ below the prime) that \<open>ge_frombytes_negate_vartime\<close> accepts comes
  back from \<open>ge_p3_tobytes\<close> with exactly the sign bit inverted; for $x = 0$, which is its own
  negation, it comes back with the sign bit clear.
\<close>

theorem decode_encode_negates:
  assumes "length s = 32" and "ge_frombytes_negate_vartime s = Some h" and "le_val s mod 2 ^ 255 < p25519"
  shows "ge_p3_tobytes h = s[31 := if fe_isnonzero (p3_X h) \<noteq> 0 then s ! 31 XOR 128 else s ! 31 AND 127]"
proof -
  define y where "y = le_val s mod 2 ^ 255"
  obtain x where rep: "p3_rep h x y 1" and sign: "x mod p25519 = 0 \<or> x mod p25519 mod 2 \<noteq> sign_bit s"
    unfolding y_def by (rule decode_ok [OF assms(1,2)])
  have X: "fe_rep 1 (p3_X h) x"
    using rep unfolding p3_rep_def by simp
  have nonzero: "fe_isnonzero (p3_X h) \<noteq> 0 \<longleftrightarrow> x mod p25519 \<noteq> 0"
    using isnonzero_rep [OF fe_rep_out [OF X]] X by (simp add: fe_rep_def)
  have canonical: "y mod p25519 = y"
    using assms(3) unfolding y_def by (intro mod_pos_pos_trivial pos_mod_sign) simp_all
  have bytes: "fe_tobytes (fe_mul (p3_Y h) (fe_invert (p3_Z h))) = s[31 := s ! 31 AND 127]"
    using encode_parts(1,2) [OF rep] canonical low_bits [OF assms(1)] assms(1) unfolding y_def
    by (intro le_val_inj) simp_all
  let ?w = "fe_isnegative (fe_mul (p3_X h) (fe_invert (p3_Z h)))"
  have w: "uint ?w = x mod p25519 mod 2"
    by (rule encode_parts(3) [OF rep])
  show ?thesis
  proof (cases "x mod p25519 = 0")
    case True
    then have "?w = 0"
      using w by (simp only: mod_0 uint_0_iff)
    then show ?thesis
      using bytes nonzero True assms(1) unfolding ge_p3_tobytes_def Let_def by simp
  next
    case False
    then have "x mod p25519 mod 2 = 1 - sign_bit s"
      using sign byte_split(2) [of "s ! 31"] uint_byte_less [of "s ! 31"] unfolding sign_bit_def
      by - (rule parity_flip, simp_all)
    then have "uint ?w = 1 - uint (drop_bit 7 (s ! 31))"
      using w by (simp only: sign_bit_def)
    then have "(s ! 31 AND 127) XOR push_bit 7 (ucast ?w) = s ! 31 XOR 128"
      by (rule flip_byte)
    then show ?thesis
      using bytes nonzero False assms(1) unfolding ge_p3_tobytes_def Let_def by simp
  qed
qed

theorem decode_encode_negates_witness: "\<exists>h. ge_frombytes_negate_vartime neutral_bytes = Some h \<and> ge_p3_tobytes h = neutral_bytes"
proof -
  obtain h where h: "ge_frombytes_negate_vartime neutral_bytes = Some h" and x: "fe_rep 1 (p3_X h) 0"
    by (rule decode_trivial [OF neutral_val])
  have "le_val neutral_bytes mod 2 ^ 255 < p25519"
    unfolding neutral_val by (simp add: p25519_def)
  moreover have "fe_isnonzero (p3_X h) = 0"
    using isnonzero_rep [OF fe_rep_out [OF x], of 0] x by (simp add: fe_rep_def)
  ultimately show ?thesis
    using decode_encode_negates [OF neutral_val(1) h] h by (simp add: neutral_bytes_def list_update_same_conv)
qed

end
