(* ===== verification/CurveScalar.thy ===== *)
theory CurveScalar
  imports Curve
begin

text \<open>
  The recodings of scalars in \<open>orlp_ed25519/ge.c\<close>: the sliding windows of the variable-time
  multiplication, the radix-16 digits of the fixed-base multiplication and the constant-time
  selection from the table.
\<close>


section \<open>Digit strings\<close>

text \<open>The value of a little-endian string of signed binary digits, and strings of plain bits.\<close>

definition digits_val :: "i8 list \<Rightarrow> int" where
  "digits_val r = horner_sum sint 2 r"

definition bit_digits :: "i8 list \<Rightarrow> bool" where
  "bit_digits r \<longleftrightarrow> set r \<subseteq> {0, 1}"

definition window_digit :: "i8 \<Rightarrow> bool" where
  "window_digit x \<longleftrightarrow> x = 0 \<or> (odd (sint x) \<and> \<bar>sint x\<bar> \<le> 15)"

lemma digits_val_simps [simp]:
  "digits_val [] = 0" "digits_val (x # r) = sint x + 2 * digits_val r" "digits_val (r @ s) = digits_val r + 2 ^ length r * digits_val s"
  "digits_val (replicate n 0) = 0"
proof -
  show "digits_val (r @ s) = digits_val r + 2 ^ length r * digits_val s"
    by (simp add: digits_val_def horner_sum_append)
  show "digits_val (replicate n 0) = 0"
    by (induction n) (simp_all add: digits_val_def)
qed (simp_all add: digits_val_def)

lemma bit_digits_simps [simp]:
  "bit_digits []" "bit_digits (x # r) \<longleftrightarrow> (x = 0 \<or> x = 1) \<and> bit_digits r" "bit_digits (r @ s) \<longleftrightarrow> bit_digits r \<and> bit_digits s"
  "bit_digits (replicate n 0)"
  by (auto simp: bit_digits_def)

lemma bit_digits_nonneg: "bit_digits r \<Longrightarrow> 0 \<le> digits_val r"
  by (induction r) auto

section \<open>Sliding windows\<close>

primrec increment :: "i8 list \<Rightarrow> i8 list" where
  "increment [] = []"
| "increment (x # r) = (if x = 0 then 1 # r else 0 # increment r)"

lemma slide_carry_increment: "slide_carry [length p..<length p + length y] (p @ y) = p @ increment y"
proof (induction y arbitrary: p)
  case (Cons x y)
  show ?case
    using Cons.IH [of "p @ [0]"] by (simp add: upt_conv_Cons del: upt_Suc)
qed simp

lemma increment_props: "length (increment y) = length y" "bit_digits y \<Longrightarrow> bit_digits (increment y)"
  by (induction y) auto

lemma increment_val: "bit_digits y \<Longrightarrow> digits_val y < 2 ^ length y - 1 \<Longrightarrow> digits_val (increment y) = digits_val y + 1"
  by (induction y) auto

text \<open>
  The state of the inner loop at window offset \<open>b\<close>: the digits before the current one, the
  current digit \<open>x\<close>, zeros up to the offset, and the remaining bits.  A remaining value of
  exactly half the range is possible only after a carry, when the digit is negative, so that no
  later carry can leave the array.
\<close>

definition window_state :: "nat \<Rightarrow> nat \<Rightarrow> i8 list \<Rightarrow> i8 \<Rightarrow> i8 list \<Rightarrow> bool" where
  "window_state i b p x y \<longleftrightarrow> length p = i \<and> i + b + length y = 256 \<and> bit_digits y \<and> odd (sint x) \<and> \<bar>sint x\<bar> \<le> 15 \<and> sint x < 2 ^ b \<and>
     digits_val y \<le> 2 ^ (length y - 1) \<and> (0 < sint x \<longrightarrow> digits_val y < 2 ^ (length y - 1))"

definition window_result :: "nat \<Rightarrow> i8 list \<Rightarrow> int \<Rightarrow> i8 list \<Rightarrow> bool" where
  "window_result i p v r \<longleftrightarrow> (\<exists>x y. r = p @ x # y \<and> length y = 255 - i \<and> window_digit x \<and> bit_digits y \<and>
     digits_val y \<le> 2 ^ (length y - 1) \<and> sint x + 2 * digits_val y = v)"

lemma sint_i8_small: "- 128 \<le> v \<Longrightarrow> v < 128 \<Longrightarrow> sint (word_of_int v :: i8) = v"
  by (simp add: signed_of_int signed_take_bit_int_eq_self)

lemma window_done:
  assumes "window_state i b p x y" and "0 < b"
  shows "window_result i p (sint x + 2 ^ b * digits_val y) (p @ x # replicate (b - 1) 0 @ y)"
proof -
  have "2 ^ b = (2 * 2 ^ (b - 1) :: int)"
    using assms(2) by (cases b) simp_all
  moreover have "2 ^ (b - 1) * digits_val y \<le> 2 ^ (254 - i)"
  proof (cases y)
    case (Cons z zs)
    then have "254 - i = (b - 1) + (length y - 1)"
      using assms unfolding window_state_def by auto
    moreover have "digits_val y \<le> 2 ^ (length y - 1)"
      using assms(1) by (simp only: window_state_def)
    ultimately show ?thesis
      by (simp add: power_add mult_left_mono)
  qed simp
  moreover have "length (replicate (b - 1) (0 :: i8) @ y) = 255 - i"
    using assms unfolding window_state_def by (simp, linarith)
  ultimately show ?thesis
    using assms unfolding window_result_def window_state_def window_digit_def
    by (intro exI [of _ x] exI [of _ "replicate (b - 1) 0 @ y"]) simp
qed

lemma replicate_snoc: "0 < b \<Longrightarrow> x # replicate (b - 1) z @ z # y = x # replicate b z @ y"
  by (cases b) (simp_all add: replicate_append_same [symmetric])

lemma window_nth:
  assumes "window_state i b p x (z # y)" and "0 < b"
  defines "r \<equiv> p @ x # replicate (b - 1) 0 @ z # y"
  shows "r ! i = x" and "r ! (i + b) = z" and "r[i := x'] = p @ x' # replicate (b - 1) 0 @ z # y"
    and "r[i := x', i + b := 0] = p @ x' # replicate b 0 @ y"
proof -
  have p: "length p = i" and b: "i + b = length (p @ x # replicate (b - 1) 0)" "i + b = length (p @ x' # replicate (b - 1) 0)"
    using assms(1,2) by (auto simp: window_state_def)
  show "r ! i = x" and eq: "r[i := x'] = p @ x' # replicate (b - 1) 0 @ z # y"
    using p by (auto simp: r_def)
  have "r = (p @ x # replicate (b - 1) 0) @ z # y" and r': "r[i := x'] = (p @ x' # replicate (b - 1) 0) @ z # y"
    unfolding eq by (simp_all add: r_def)
  then show "r ! (i + b) = z"
    using b(1) by (metis nth_append_length)
  have "r[i := x', i + b := 0] = (p @ x' # replicate (b - 1) 0) @ 0 # y"
    unfolding r' b(2) by (rule list_update_length)
  then show "r[i := x', i + b := 0] = p @ x' # replicate b 0 @ y"
    using replicate_snoc [OF assms(2), of x' 0 y] by simp
qed

text \<open>One round of the inner loop, in its three continuing cases.\<close>

lemma window_state_next:
  assumes "window_state i b p x (z # y)" and "0 < b"
  shows window_skip: "z = 0 \<Longrightarrow> window_state i (b + 1) p x y"
    and window_add: "z = 1 \<Longrightarrow> sint x + 2 ^ b \<le> 15 \<Longrightarrow> sint x' = sint x + 2 ^ b \<Longrightarrow> window_state i (b + 1) p x' y"
    and window_sub: "z = 1 \<Longrightarrow> 15 < sint x + 2 ^ b \<Longrightarrow> - 15 \<le> sint x - 2 ^ b \<Longrightarrow> sint x' = sint x - 2 ^ b \<Longrightarrow>
      window_state i (b + 1) p x' (increment y) \<and> digits_val (increment y) = digits_val y + 1"
proof -
  have st: "length p = i" "i + b + length (z # y) = 256" "bit_digits y" "odd (sint x)" "\<bar>sint x\<bar> \<le> 15" "sint x < 2 ^ b"
    "sint z + 2 * digits_val y \<le> 2 ^ length y" "0 < sint x \<Longrightarrow> sint z + 2 * digits_val y < 2 ^ length y"
    using assms(1) by (simp_all add: window_state_def)
  have pow: "even (2 ^ b :: int)" "(2 :: int) ^ (b + 1) = 2 * 2 ^ b" "(0 :: int) < 2 ^ b"
    using assms(2) by simp_all
  have half: "v \<le> 2 ^ (length y - 1)" "2 * v < 2 ^ length y \<Longrightarrow> v < 2 ^ (length y - 1)" if "2 * v \<le> 2 ^ length y" for v :: int
    using that by (cases y; simp)+
  have strict: "digits_val y < 2 ^ (length y - 1)" if "1 + 2 * digits_val y \<le> 2 ^ length y"
    using that half [of "digits_val y"] by simp
  show "z = 0 \<Longrightarrow> window_state i (b + 1) p x y"
    using st half [of "digits_val y"] order_less_trans [OF st(6), of "2 ^ (b + 1)"] by (auto simp: window_state_def)
  show "window_state i (b + 1) p x' y" if "z = 1" "sint x + 2 ^ b \<le> 15" "sint x' = sint x + 2 ^ b"
  proof -
    have "\<bar>sint x + 2 ^ b\<bar> \<le> 15"
      using st(5) that(2) pow(3) by linarith
    moreover have "digits_val y < 2 ^ (length y - 1)"
      using st(7) that(1) by (intro strict) simp
    ultimately show ?thesis
      using st(1-4,6) that pow by (simp add: window_state_def)
  qed
  show "window_state i (b + 1) p x' (increment y) \<and> digits_val (increment y) = digits_val y + 1"
    if "z = 1" "15 < sint x + 2 ^ b" "- 15 \<le> sint x - 2 ^ b" "sint x' = sint x - 2 ^ b"
  proof -
    have "0 < sint x"
      using that(2,3) by linarith
    then have "2 * (digits_val y + 1) \<le> 2 ^ length y"
      using st(8) that(1) by (cases y) auto
    then have "digits_val y + 1 \<le> 2 ^ (length y - 1)" and "digits_val y < 2 ^ length y - 1"
      using half(1) [of "digits_val y + 1"] bit_digits_nonneg [OF st(3)] by simp_all
    then have "digits_val (increment y) = digits_val y + 1" "digits_val y + 1 \<le> 2 ^ (length y - 1)"
      using increment_val [OF st(3)] by simp_all
    then show ?thesis
      using st(1-6) that pow increment_props [of y] by (simp add: window_state_def)
  qed
qed

lemma window_loop:
  assumes "window_state i b p x y" and "0 < b" and "b \<le> 7"
  shows "window_result i p (sint x + 2 ^ b * digits_val y) (slide_window [b..<7] i (p @ x # replicate (b - 1) 0 @ y))"
  using assms
proof (induction "7 - b" arbitrary: b x y)
  case 0
  then show ?case
    using window_done [of i b p x y] by simp
next
  case (Suc n)
  let ?r = "p @ x # replicate (b - 1) 0 @ y"
  have upt: "[b..<7] = b # [b + 1..<7]" and b: "b \<le> 6"
    using Suc.hyps(2) by (simp_all add: upt_conv_Cons)
  have len: "i + b + length y = 256"
    using Suc.prems(1) by (simp add: window_state_def)
  show ?case
  proof (cases y)
    case Nil
    then show ?thesis
      using window_done [OF Suc.prems(1,2)] len by (simp add: upt)
  next
    case (Cons z y')
    have in_range: "i + b < 256"
      using len Cons by simp
    note st = Suc.prems(1) [unfolded Cons]
    note nths = window_nth [OF st Suc.prems(2), folded Cons]
    have x: "\<bar>sint x\<bar> \<le> 15" and z: "z = 0 \<or> z = 1"
      using st by (simp_all add: window_state_def)
    have IH: "window_result i p (sint x' + 2 ^ (b + 1) * digits_val v) (slide_window [b + 1..<7] i (p @ x' # replicate b 0 @ v))"
      if "window_state i (b + 1) p x' v" for x' v
      using Suc.hyps(1) [of "b + 1" x' v] Suc.hyps(2) that b by simp
    have pow: "(2 :: int) ^ b \<le> 64" "(0 :: int) < 2 ^ b"
      using power_increasing [OF b, of "2 :: int"] by simp_all
    have word: "sint (x + push_bit b z) = sint x + 2 ^ b" "sint (x - push_bit b z) = sint x - 2 ^ b" if "z = 1"
    proof -
      have "x + push_bit b z = word_of_int (sint x + 2 ^ b)" "x - push_bit b z = word_of_int (sint x - 2 ^ b)"
        using that by (simp_all add: push_bit_eq_mult)
      moreover have "- 128 \<le> sint x + 2 ^ b" "sint x + 2 ^ b < 128" "- 128 \<le> sint x - 2 ^ b" "sint x - 2 ^ b < 128"
        using x pow by linarith+
      ultimately show "sint (x + push_bit b z) = sint x + 2 ^ b" "sint (x - push_bit b z) = sint x - 2 ^ b"
        by (simp_all only: sint_i8_small)
    qed
    have zero: "sint z * 2 ^ b = (if z = 0 then 0 else 2 ^ b)"
      using z by auto
    consider "z = 0" | "z = 1" "sint x + 2 ^ b \<le> 15" | "z = 1" "15 < sint x + 2 ^ b" "- 15 \<le> sint x - 2 ^ b"
      | "z = 1" "15 < sint x + 2 ^ b" "sint x - 2 ^ b < - 15"
      using z by linarith
    then show ?thesis
    proof cases
      case 1
      then have "p @ x # replicate (b - 1) 0 @ y = p @ x # replicate b 0 @ y'"
        using replicate_snoc [OF Suc.prems(2), of x z y'] by (simp only: Cons)
      moreover have "slide_window [b..<7] i ?r = slide_window [b + 1..<7] i ?r"
        using nths(2) in_range 1 by (simp add: upt)
      ultimately have "slide_window [b..<7] i ?r = slide_window [b + 1..<7] i (p @ x # replicate b 0 @ y')"
        by (simp only:)
      then show ?thesis
        using IH [OF window_skip [OF st Suc.prems(2) 1]] 1 by (simp add: Cons mult.left_commute mult.assoc)
    next
      case 2
      then have "slide_window [b..<7] i ?r = slide_window [b + 1..<7] i (p @ (x + push_bit b z) # replicate b 0 @ y')"
        using nths in_range zero by (simp add: upt)
      then show ?thesis
        using IH [OF window_add [OF st Suc.prems(2) 2 word(1) [OF 2(1)]]] 2(1) word(1) by (simp add: Cons algebra_simps)
    next
      case 3
      let ?x = "x - push_bit b z"
      let ?q = "p @ ?x # replicate (b - 1) 0"
      have q: "length ?q = i + b"
        using st Suc.prems(2) by (simp add: window_state_def)
      have "slide_carry [i + b..<256] (?q @ y) = ?q @ 0 # increment y'"
        using slide_carry_increment [of ?q y, unfolded q len] 3(1) by (simp add: Cons)
      then have "slide_carry [i + b..<256] (p @ ?x # replicate (b - 1) 0 @ y) = p @ ?x # replicate b 0 @ increment y'"
        using replicate_snoc [OF Suc.prems(2), of ?x 0 "increment y'"] by (simp only: append_assoc append_Cons)
      then have "slide_window [b..<7] i ?r = slide_window [b + 1..<7] i (p @ ?x # replicate b 0 @ increment y')"
        using nths in_range zero 3 by (simp add: upt)
      moreover have next_state: "window_state i (b + 1) p ?x (increment y')" "digits_val (increment y') = digits_val y' + 1"
        using window_sub [OF st Suc.prems(2) 3 word(2) [OF 3(1)]] by simp_all
      moreover have "sint ?x + 2 ^ (b + 1) * digits_val (increment y') = sint x + 2 ^ b * digits_val y"
        unfolding next_state(2) word(2) [OF 3(1)] by (simp add: Cons 3(1) algebra_simps)
      ultimately show ?thesis
        using IH [OF next_state(1)] by (simp only:)
    next
      case 4
      then have "slide_window [b..<7] i ?r = ?r"
        using nths(1,2) in_range zero by (simp add: upt)
      then show ?thesis
        using window_done [OF Suc.prems(1,2)] by simp
    qed
  qed
qed

section \<open>The whole recoding into windows\<close>

definition slide_state :: "nat \<Rightarrow> int \<Rightarrow> i8 list \<Rightarrow> bool" where
  "slide_state i v r \<longleftrightarrow> (\<exists>p y. r = p @ y \<and> length p = i \<and> length r = 256 \<and> (\<forall>x\<in>set p. window_digit x) \<and> bit_digits y \<and>
     digits_val y \<le> 2 ^ (length y - 1) \<and> digits_val r = v)"

lemma slide_state_step:
  assumes "slide_state i v r" and "i < 256"
  shows "slide_state (i + 1) v (if r ! i \<noteq> 0 then slide_window [1..<7] i r else r)"
proof -
  obtain p x y where r: "r = p @ x # y" and p: "length p = i" "\<forall>x\<in>set p. window_digit x" and len: "i + 1 + length y = 256"
    and bits: "x = 0 \<or> x = 1" "bit_digits y" and le: "sint x + 2 * digits_val y \<le> 2 ^ length y" and v: "digits_val r = v"
  proof -
    obtain p y where "r = p @ y" "length p = i" "length r = 256" "\<forall>x\<in>set p. window_digit x" "bit_digits y"
      "digits_val y \<le> 2 ^ (length y - 1)" "digits_val r = v"
      using assms(1) unfolding slide_state_def by blast
    then show ?thesis
      using assms(2) that [of p "hd y" "tl y"] by (cases y) auto
  qed
  have half: "w \<le> 2 ^ (length y - 1)" "2 * w < 2 ^ length y \<Longrightarrow> w < 2 ^ (length y - 1)" if "2 * w \<le> 2 ^ length y" for w :: int
    using that by (cases y; simp)+
  show ?thesis
  proof (cases "x = 0")
    case True
    then show ?thesis
      using r p len bits le half(1) [of "digits_val y"] v unfolding slide_state_def
      by (intro exI [of _ "p @ [x]"] exI [of _ y]) (auto simp: window_digit_def)
  next
    case False
    then have x: "x = 1"
      using bits by simp
    have "window_state i 1 p x y"
      using p len bits le x half [of "digits_val y"] unfolding window_state_def by auto
    then have "window_result i p (sint x + 2 ^ 1 * digits_val y) (slide_window [1..<7] i r)"
      using window_loop [of i 1 p x y] r by simp
    then obtain x' y' where res: "slide_window [1..<7] i r = p @ x' # y'" "length y' = 255 - i" "window_digit x'" "bit_digits y'"
      "digits_val y' \<le> 2 ^ (length y' - 1)" "sint x' + 2 * digits_val y' = sint x + 2 * digits_val y"
      unfolding window_result_def by auto
    then show ?thesis
      using r p len v x unfolding slide_state_def
      by (intro exI [of _ "p @ [x']"] exI [of _ y']) auto
  qed
qed

lemma slide_fold: "slide_state 0 v r \<Longrightarrow> n \<le> 256 \<Longrightarrow>
    slide_state n v (fold (\<lambda>i r. if r ! i \<noteq> 0 then slide_window [1..<7] i r else r) [0..<n] r)"
proof (induction n)
  case (Suc n)
  then show ?case
    using slide_state_step [of n v] by simp
qed simp

lemma sint_low_bit: "sint (1 AND w :: i8) = of_bool (odd w)"
  by (simp add: and.commute [of 1] and_one_eq odd_iff_mod_2_eq_one)

lemma slide_bits_Cons: "length a = n \<Longrightarrow> map (\<lambda>i. 1 AND drop_bit (i mod 8) ((b # a) ! (i div 8))) [0..<8 * Suc n] =
    map (\<lambda>j. 1 AND drop_bit j b) [0..<8] @ map (\<lambda>i. 1 AND drop_bit (i mod 8) (a ! (i div 8))) [0..<8 * n]"
  by (rule nth_equalityI) (auto simp: nth_append div_add_self2 le_div_geq le_mod_geq)

lemma byte_digits: "digits_val (map (\<lambda>j. 1 AND drop_bit j b) [0..<8]) = uint (b :: byte)"
proof -
  have "digits_val (map (\<lambda>j. 1 AND drop_bit j b) [0..<8]) = horner_sum of_bool 2 (map (bit (uint b)) [0..<8])"
    by (simp add: digits_val_def horner_sum_eq_sum sint_low_bit bit_iff_odd_drop_bit [of b, symmetric] bit_uint_iff)
  also have "\<dots> = take_bit 8 (uint b)"
    by (rule horner_sum_bit_eq_take_bit)
  finally show ?thesis
    by (simp add: bintr_uint)
qed

lemma slide_bits_val:
  assumes "length a = 32"
  shows "digits_val (slide_bits a) = le_val a" and "bit_digits (slide_bits a)" and "length (slide_bits a) = 256"
proof -
  have "digits_val (map (\<lambda>i. 1 AND drop_bit (i mod 8) (a ! (i div 8))) [0..<8 * length a]) = le_val a"
  proof (induction a)
    case (Cons b a)
    then show ?case
      unfolding length_Cons slide_bits_Cons [OF refl] by (simp only: digits_val_simps byte_digits length_map) simp
  qed simp
  then show "digits_val (slide_bits a) = le_val a"
    using assms by (simp add: slide_bits_def)
  show "bit_digits (slide_bits a)"
    by (auto simp: bit_digits_def slide_bits_def and.commute [of 1] and_one_eq)
qed (simp add: slide_bits_def)

text \<open>
  The sliding-window recoding is exact: for a scalar below $2^{255}$, which covers every
  scalar the program passes, it yields 256 digits, each zero or odd and at most 15 in magnitude
  (so that \<open>digit / 2\<close> indexes the eight-entry tables), whose value is the scalar; no carry is
  lost at the end of the array.
\<close>

theorem slide_exact:
  assumes "length a = 32" and "le_val a < 2 ^ 255"
  shows "length (slide a) = 256 \<and> (\<Sum>i<256. sint (slide a ! i) * 2 ^ i) = le_val a \<and>
    (\<forall>x\<in>set (slide a). x = 0 \<or> (odd (sint x) \<and> \<bar>sint x\<bar> \<le> 15))"
proof -
  have "slide_state 0 (le_val a) (slide_bits a)"
    using slide_bits_val [OF assms(1)] assms(2) unfolding slide_state_def by (intro exI [of _ "[]"] exI [of _ "slide_bits a"]) simp
  then have "slide_state 256 (le_val a) (slide a)"
    using slide_fold [of "le_val a" "slide_bits a" 256] by (simp only: slide_def)
  then have "length (slide a) = 256" "\<forall>x\<in>set (slide a). window_digit x" "digits_val (slide a) = le_val a"
    unfolding slide_state_def by auto
  then show ?thesis
    by (simp add: window_digit_def digits_val_def horner_sum_eq_sum atLeast0LessThan)
qed

theorem slide_exact_witness: "(\<Sum>i<256. sint (slide (replicate 32 111) ! i) * 2 ^ i) = le_val (replicate 32 111)"
proof -
  have "length (replicate 32 (111 :: byte)) = 32" "le_val (replicate 32 111) < 2 ^ 255"
    by simp code_simp
  then show ?thesis
    using slide_exact by blast
qed

text \<open>The bound is needed: for the scalar $2^{256} - 1$ the last carry is lost.\<close>

lemma slide_loses_carry: "digits_val (slide (replicate 32 255)) = - 1"
  by code_simp

section \<open>Radix 16 for the fixed base\<close>

text \<open>The carry loop on the list of nibbles, digit by digit.\<close>

primrec carried :: "i8 list \<Rightarrow> i8 \<Rightarrow> i8 list \<times> i8" where
  "carried [] c = ([], c)"
| "carried (x # r) c = (let e = x + c; c' = signed_drop_bit 4 (e + 8); (r', c'') = carried r c' in ((e - push_bit 4 c') # r', c''))"

lemma fold_recode: "fold recode_digit [length p..<length p + length r] (p @ r @ q, c) = (let (r', c') = carried r c in (p @ r' @ q, c'))"
proof (induction r arbitrary: p c)
  case (Cons x r)
  have step: "recode_digit (length p) (p @ x # r @ q, c) =
      (p @ (x + c - push_bit 4 (signed_drop_bit 4 (x + c + 8))) # r @ q, signed_drop_bit 4 (x + c + 8))"
    by (simp add: recode_digit_def Let_def)
  show ?case
    using Cons.IH [of "p @ [_]"]
    by (simp add: upt_conv_Cons step Let_def split_beta del: upt_Suc)
qed simp

lemma digit_carry:
  fixes x c :: i8
  assumes "unat x < 16" and "c = 0 \<or> c = 1"
  defines "c' \<equiv> signed_drop_bit 4 (x + c + 8)"
  shows "sint (x + c - push_bit 4 c') + 16 * sint c' = sint x + sint c" and "c' = 0 \<or> c' = 1"
    and "- 8 \<le> sint (x + c - push_bit 4 c')" and "sint (x + c - push_bit 4 c') \<le> 7"
proof -
  have "\<forall>x\<in>set (map of_nat [0..<16]). \<forall>c\<in>set [0, 1]. let c' = signed_drop_bit 4 (x + c + 8) :: i8 in
      sint (x + c - push_bit 4 c') + 16 * sint c' = sint x + sint c \<and> (c' = 0 \<or> c' = 1) \<and>
      - 8 \<le> sint (x + c - push_bit 4 c') \<and> sint (x + c - push_bit 4 c') \<le> 7"
    by code_simp
  moreover have "x = of_nat (unat x)" "unat x \<in> set [0..<16]"
    using assms(1) by simp_all
  then have "x \<in> set (map of_nat [0..<16])"
    unfolding set_map by (rule image_eqI)
  moreover have "c \<in> set [0, 1]"
    using assms(2) by simp
  ultimately show "sint (x + c - push_bit 4 c') + 16 * sint c' = sint x + sint c" and "c' = 0 \<or> c' = 1"
    and "- 8 \<le> sint (x + c - push_bit 4 c')" and "sint (x + c - push_bit 4 c') \<le> 7"
    unfolding Let_def c'_def by blast+
qed

lemma carried_val:
  assumes "\<forall>x\<in>set r. unat x < 16" and "c = 0 \<or> c = 1" and "carried r c = (r', c')"
  shows "horner_sum sint 16 r' + 16 ^ length r * sint c' = horner_sum sint 16 r + sint c \<and> length r' = length r \<and>
    (c' = 0 \<or> c' = 1) \<and> (\<forall>x\<in>set r'. - 8 \<le> sint x \<and> sint x \<le> 7)"
  using assms
proof (induction r arbitrary: c r' c')
  case (Cons x r)
  define d where "d = signed_drop_bit 4 (x + c + 8)"
  obtain s where s: "carried r d = (s, c')" "r' = (x + c - push_bit 4 d) # s"
    using Cons.prems(3) by (auto simp: d_def Let_def split: prod.splits)
  have x: "unat x < 16"
    using Cons.prems(1) by simp
  note digit = digit_carry [OF x Cons.prems(2), folded d_def]
  have "horner_sum sint 16 s + 16 ^ length r * sint c' = horner_sum sint 16 r + sint d \<and> length s = length r \<and>
    (c' = 0 \<or> c' = 1) \<and> (\<forall>x\<in>set s. - 8 \<le> sint x \<and> sint x \<le> 7)"
    using Cons.IH [OF _ digit(2) s(1)] Cons.prems(1) by simp
  then show ?case
    using digit(1,3,4) unfolding s(2) by (simp add: algebra_simps)
qed auto

lemma all_bytes: "(\<forall>n\<in>set [0..<256]. P (of_nat n :: byte)) \<Longrightarrow> P b"
proof -
  assume "\<forall>n\<in>set [0..<256]. P (of_nat n :: byte)"
  moreover have "unat b \<in> set [0..<256]"
    by simp
  ultimately have "P (of_nat (unat b))"
    by blast
  then show "P b"
    by simp
qed

lemma byte_nibbles:
  fixes b :: byte
  shows "sint (drop_bit 0 b AND 15) + 16 * sint (drop_bit 4 b AND 15) = uint b \<and>
    unat (drop_bit 0 b AND 15) < 16 \<and> unat (drop_bit 4 b AND 15) < 16 \<and>
    (uint b \<le> 127 \<longrightarrow> sint (drop_bit 4 b AND 15) \<le> 7) \<and> 0 \<le> sint (drop_bit 4 b AND 15)"
proof -
  have "\<forall>n\<in>set [0..<256]. (\<lambda>b :: byte. sint (drop_bit 0 b AND 15) + 16 * sint (drop_bit 4 b AND 15) = uint b \<and>
    unat (drop_bit 0 b AND 15) < 16 \<and> unat (drop_bit 4 b AND 15) < 16 \<and>
    (uint b \<le> 127 \<longrightarrow> sint (drop_bit 4 b AND 15) \<le> 7) \<and> 0 \<le> sint (drop_bit 4 b AND 15)) (of_nat n)"
    by code_simp
  then show ?thesis
    by (rule all_bytes)
qed

lemma nibbles_val: "horner_sum sint 16 (nibbles a) = le_val a" "length (nibbles a) = 2 * length a"
  "\<forall>x\<in>set (nibbles a). unat x < 16"
proof -
  show "horner_sum sint 16 (nibbles a) = le_val a"
  proof (induction a)
    case (Cons b a)
    then show ?case
      using byte_nibbles [of b] unfolding nibbles_def by (simp add: algebra_simps del: drop_bit_0)
  qed (simp add: nibbles_def)
  show "length (nibbles a) = 2 * length a" "\<forall>x\<in>set (nibbles a). unat x < 16"
    using byte_nibbles unfolding nibbles_def by (induction a) (simp_all del: drop_bit_0)
qed

lemma nibbles_split:
  assumes "length a = 32"
  shows "nibbles a = take 63 (nibbles a) @ [drop_bit 4 (a ! 31) AND 15]"
proof -
  have "nibbles (take 31 a @ [a ! 31]) = (nibbles (take 31 a) @ [drop_bit 0 (a ! 31) AND 15]) @ [drop_bit 4 (a ! 31) AND 15]"
    by (simp add: nibbles_def)
  moreover have "take 31 a @ [a ! 31] = a"
    using assms take_Suc_conv_app_nth [of 31 a] by simp
  moreover have "length (nibbles (take 31 a) @ [drop_bit 0 (a ! 31) AND 15]) = 63"
    using assms nibbles_val(2) [of "take 31 a"] by simp
  ultimately show ?thesis
    by (metis append_eq_conv_conj)
qed

lemma sint_i8_add: "- 128 \<le> sint x + sint y \<Longrightarrow> sint x + sint y < 128 \<Longrightarrow> sint (x + y :: i8) = sint x + sint y"
  using sint_i8_small [of "sint x + sint y"] by simp

lemma recode_ok:
  assumes "length a = 32" and "uint (a ! 31) \<le> 127"
  shows "length (recode a) = 64" and "horner_sum sint 16 (recode a) = le_val a" and "\<forall>x\<in>set (recode a). - 8 \<le> sint x \<and> sint x \<le> 8"
proof -
  let ?n = "take 63 (nibbles a)" and ?t = "drop_bit 4 (a ! 31) AND 15"
  obtain r c where rc: "carried ?n 0 = (r, c)"
    by fastforce
  have len: "length ?n = 63"
    using assms(1) nibbles_val(2) [of a] by simp
  have "\<forall>x\<in>set ?n. unat x < 16"
    using nibbles_val(3) [of a] in_set_takeD by metis
  note val = carried_val [OF this disjI1 [OF refl] rc, unfolded len]
  have "fold recode_digit [0..<63] (nibbles a, 0) = (r @ [?t], c)"
    using fold_recode [of "[]" ?n "[?t]" 0, unfolded len] nibbles_split [OF assms(1)] rc by simp
  then have recode: "recode a = r @ [?t + c]"
    using val len by (simp add: recode_def nth_append list_update_append)
  have t: "0 \<le> sint ?t" "sint ?t \<le> 7" and c: "c = 0 \<or> c = 1"
    using byte_nibbles [of "a ! 31"] assms(2) val by auto
  then have tc: "sint (?t + c) = sint ?t + sint c"
    by (intro sint_i8_add) auto
  have "le_val a = horner_sum sint 16 (?n @ [?t])"
    using nibbles_val(1) [of a] nibbles_split [OF assms(1)] by simp
  then have total: "le_val a = horner_sum sint 16 ?n + 16 ^ 63 * sint ?t"
    by (simp only: horner_sum_append len) simp
  show "length (recode a) = 64"
    using val by (simp add: recode)
  show "horner_sum sint 16 (recode a) = le_val a"
  proof -
    have "horner_sum sint 16 [?t + c] = sint ?t + sint c"
      by (simp add: tc)
    then have "horner_sum sint 16 (recode a) = horner_sum sint 16 r + 16 ^ length r * (sint ?t + sint c)"
      by (simp only: recode horner_sum_append)
    then show ?thesis
      using val unfolding total by (simp add: distrib_left)
  qed
  show "\<forall>x\<in>set (recode a). - 8 \<le> sint x \<and> sint x \<le> 8"
    using val t c tc unfolding recode by auto
qed

section \<open>Selection from the table\<close>

lemma fold_select: "fold (\<lambda>j t. if k = Suc j then f j else t) [0..<n] t = (if 1 \<le> k \<and> k \<le> n then f (k - 1) else t)"
  by (induction n) auto

lemma ge_equal_select: "ge_equal b c = (if b = c then 1 else 0)"
proof -
  have "\<forall>n\<in>set [0..<256]. (\<lambda>x :: byte. (ucast (drop_bit 63 (ucast x - 1 :: u64)) :: byte) = (if x = 0 then 1 else 0)) (of_nat n)"
    by code_simp
  then have "(ucast (drop_bit 63 (ucast (b XOR c) - 1 :: u64)) :: byte) = (if b XOR c = 0 then 1 else 0)"
    by (rule all_bytes)
  moreover have "b XOR c = 0 \<longleftrightarrow> b = c"
    by (metis xor.assoc xor_self_eq xor.left_neutral xor.right_neutral)
  ultimately show ?thesis
    by (simp add: ge_equal_def)
qed

lemma ge_select_sign:
  "ge_negative b = (if sint b < 0 then 1 else 0)" "b - push_bit 1 ((- ge_negative b) AND b) = (if sint b < 0 then - b else b)"
proof -
  have "\<forall>n\<in>set [0..<256]. (\<lambda>b. ge_negative b = (if sint b < 0 then 1 else 0) \<and>
      b - push_bit 1 ((- ge_negative b) AND b) = (if sint b < 0 then - b else b)) (of_nat n)"
    by code_simp
  from all_bytes [OF this, of b]
  show "ge_negative b = (if sint b < 0 then 1 else 0)" "b - push_bit 1 ((- ge_negative b) AND b) = (if sint b < 0 then - b else b)"
    by blast+
qed

definition ten_limbed :: "ge_precomp \<Rightarrow> bool" where
  "ten_limbed q \<longleftrightarrow> length (yplusx q) = 10 \<and> length (yminusx q) = 10 \<and> length (xy2d q) = 10"

lemma precomp_cmov_select: "ten_limbed t \<Longrightarrow> ten_limbed u \<Longrightarrow> precomp_cmov t u (if c then 1 else 0) = (if c then u else t)"
  using fe_cmov_select(1,2) by (simp add: precomp_cmov_def ten_limbed_def)

lemma base_ten_limbed: "pos < 32 \<Longrightarrow> j < 8 \<Longrightarrow> ten_limbed (base ! pos ! j)"
proof -
  have "\<forall>q\<in>set base. length q = 8 \<and> list_all ten_limbed q" "length base = 32"
    by code_simp+
  then show "pos < 32 \<Longrightarrow> j < 8 \<Longrightarrow> ten_limbed (base ! pos ! j)"
    by (simp add: list_all_length all_set_conv_all_nth)
qed

definition negated_entry :: "ge_precomp \<Rightarrow> ge_precomp" where
  "negated_entry q = \<lparr>yplusx = yminusx q, yminusx = yplusx q, xy2d = fe_neg (xy2d q)\<rparr>"

definition table_entry :: "nat \<Rightarrow> int \<Rightarrow> ge_precomp" where
  "table_entry pos d =
     (if d = 0 then \<lparr>yplusx = fe_1, yminusx = fe_1, xy2d = fe_0\<rparr>
      else if 0 < d then base ! pos ! (nat d - 1) else negated_entry (base ! pos ! (nat (- d) - 1)))"

lemma fold_cmov:
  assumes "\<And>j. j < n \<Longrightarrow> ten_limbed (f j)" and "ten_limbed t"
  shows "fold (\<lambda>j t. precomp_cmov t (f j) (if k = Suc j then 1 else 0)) [0..<n] t = (if 1 \<le> k \<and> k \<le> n then f (k - 1) else t) \<and>
    ten_limbed (if 1 \<le> k \<and> k \<le> n then f (k - 1) else t)"
  using assms
proof (induction n)
  case (Suc n)
  then have "fold (\<lambda>j t. precomp_cmov t (f j) (if k = Suc j then 1 else 0)) [0..<n] t = (if 1 \<le> k \<and> k \<le> n then f (k - 1) else t)"
    and "ten_limbed (if 1 \<le> k \<and> k \<le> n then f (k - 1) else t)"
    by (simp_all del: One_nat_def)
  then show ?case
    using precomp_cmov_select [of "if 1 \<le> k \<and> k \<le> n then f (k - 1) else t" "f n" "k = Suc n"] Suc.prems(1) [of n]
    by (auto simp: le_Suc_eq)
qed auto

lemma ge_select_ok:
  assumes "pos < 32" and "- 8 \<le> sint b" and "sint b \<le> 8"
  shows "ge_select pos b = table_entry pos (sint b)"
proof -
  let ?k = "nat \<bar>sint b\<bar>" and ?one = "\<lparr>yplusx = fe_1, yminusx = fe_1, xy2d = fe_0\<rparr>"
  let ?abs = "if sint b < 0 then - b else b"
  have abs: "sint ?abs = \<bar>sint b\<bar>"
    using sint_i8_small [of "- sint b"] assms(2,3) by auto
  have eq: "ge_equal ?abs (of_nat (j + 1)) = (if ?k = Suc j then 1 else 0)" if "j < 8" for j
  proof -
    have "sint (of_nat (j + 1) :: i8) = int (j + 1)"
      using sint_i8_small [of "int (j + 1)"] that by simp
    moreover have "?abs = of_nat (j + 1) \<longleftrightarrow> sint ?abs = sint (of_nat (j + 1) :: i8)"
      by (rule iffI, erule arg_cong, erule signed_word_eqI)
    moreover have "\<bar>sint b\<bar> = int (j + 1) \<longleftrightarrow> ?k = Suc j"
      by arith
    ultimately have "?abs = of_nat (j + 1) \<longleftrightarrow> ?k = Suc j"
      unfolding abs by (simp only:)
    then show ?thesis
      by (simp only: ge_equal_select)
  qed
  have one: "ten_limbed ?one"
    by (simp add: ten_limbed_def fe_0_def fe_1_def)
  have "fold (\<lambda>j t. precomp_cmov t (base ! pos ! j) (ge_equal ?abs (of_nat (j + 1)))) [0..<8] ?one =
      fold (\<lambda>j t. precomp_cmov t (base ! pos ! j) (if ?k = Suc j then 1 else 0)) [0..<8] ?one"
    by (rule fold_cong [OF refl refl], subst eq) simp_all
  then have sel: "fold (\<lambda>j t. precomp_cmov t (base ! pos ! j) (ge_equal ?abs (of_nat (j + 1)))) [0..<8] ?one =
      (if 1 \<le> ?k \<and> ?k \<le> 8 then base ! pos ! (?k - 1) else ?one)"
    and tl: "ten_limbed (if 1 \<le> ?k \<and> ?k \<le> 8 then base ! pos ! (?k - 1) else ?one)"
    using fold_cmov [of 8 "\<lambda>j. base ! pos ! j" ?one ?k] base_ten_limbed [OF assms(1)] one by (simp_all only:)
  let ?t = "if 1 \<le> ?k \<and> ?k \<le> 8 then base ! pos ! (?k - 1) else ?one"
  have neg: "ten_limbed \<lparr>yplusx = yminusx ?t, yminusx = yplusx ?t, xy2d = fe_neg (xy2d ?t)\<rparr>"
    using tl by (simp add: ten_limbed_def fe_neg_def)
  have "ge_select pos b = (if sint b < 0 then negated_entry ?t else ?t)"
    unfolding ge_select_def Let_def ge_select_sign(2) sel
    unfolding ge_select_sign(1) fe_copy_def
    using precomp_cmov_select [OF tl neg] by (simp add: negated_entry_def)
  then show ?thesis
    using assms(2,3) by (auto simp: table_entry_def)
qed

text \<open>
  Fixed-base multiplication reads the scalar exactly: for a scalar whose top bit is clear,
  the precondition of the source, the 64 digits of the recoding lie between -8 and 8 and spell
  the scalar in radix 16; and the constant-time selection with its masks and conditional moves
  yields, for each digit, the table entry of that index, the negated entry for a negative digit,
  and the neutral element for zero.
\<close>

theorem fixed_base_digits:
  assumes "length a = 32" and "uint (a ! 31) \<le> 127" and "i < 64"
  shows "length (recode a) = 64 \<and> (\<Sum>j<64. sint (recode a ! j) * 16 ^ j) = le_val a \<and>
    - 8 \<le> sint (recode a ! i) \<and> sint (recode a ! i) \<le> 8 \<and>
    ge_select (i div 2) (recode a ! i) = table_entry (i div 2) (sint (recode a ! i))"
proof -
  note rec = recode_ok [OF assms(1,2)]
  have digit: "- 8 \<le> sint (recode a ! i)" "sint (recode a ! i) \<le> 8"
    using rec(1,3) assms(3) by auto
  have "i div 2 < 32"
    using assms(3) by simp
  then have "ge_select (i div 2) (recode a ! i) = table_entry (i div 2) (sint (recode a ! i))"
    by (rule ge_select_ok [OF _ digit])
  then show ?thesis
    using rec(1,2) digit by (simp add: horner_sum_eq_sum atLeast0LessThan)
qed

theorem fixed_base_digits_witness: "sint (recode (replicate 32 121) ! 1) = - 8 \<and>
    ge_select 0 (recode (replicate 32 121) ! 1) = negated_entry (base ! 0 ! 7)"
proof -
  have "sint (recode (replicate 32 121) ! 1) = - 8"
    by code_simp
  moreover have "length (replicate 32 (121 :: byte)) = 32" "uint (replicate 32 (121 :: byte) ! 31) \<le> 127"
    by simp_all
  ultimately show ?thesis
    using fixed_base_digits [of "replicate 32 121" 1] by (simp add: table_entry_def)
qed

end
