(* ===== verification/Scalar.thy ===== *)
theory Scalar
  imports FieldBytes
begin

text \<open>
  Scalars modulo the order of the base point (\<open>orlp_ed25519/sc.c\<close>): 24 signed limbs of 21 bits
  in 64-bit words that wrap.  The straight-line code of \<open>sc_reduce\<close> and \<open>sc_muladd\<close> consists of
  three kinds of steps, repeated with other indices: a limb is folded down by the multiple of the
  order that cancels it, or carries to the next limb with rounding, or with the floor.  The step
  lists below are the statements of the source in their order.
\<close>

section \<open>Loading and storing\<close>

text \<open>Limb \<open>i\<close> of a string: bytes loaded, offset, shift.  The last limb is not masked.\<close>

definition sc_layout :: "(bool \<times> nat \<times> nat) list" where
  "sc_layout =
     [(False, 0, 0), (True, 2, 5), (False, 5, 2), (True, 7, 7), (True, 10, 4), (False, 13, 1), (True, 15, 6), (False, 18, 3),
      (False, 21, 0), (True, 23, 5), (False, 26, 2), (True, 28, 7), (True, 31, 4), (False, 34, 1), (True, 36, 6), (False, 39, 3),
      (False, 42, 0), (True, 44, 5), (False, 47, 2), (True, 49, 7), (True, 52, 4), (False, 55, 1), (True, 57, 6), (True, 60, 3)]"

definition sc_word :: "bytes \<Rightarrow> bool \<times> nat \<times> nat \<Rightarrow> u64" where
  "sc_word s = (\<lambda>(four, i, k). drop_bit k (if four then load_4 s i else load_3 s i))"

definition sc_load :: "nat \<Rightarrow> bytes \<Rightarrow> i64 list" where
  "sc_load n s = map (\<lambda>i. let w = sc_word s (sc_layout ! i) in if i = n - 1 then w else 2097151 AND w) [0..<n]"

definition sc_pack :: "i64 list \<Rightarrow> bytes" where
  "sc_pack s = (let s0 = s ! 0; s1 = s ! 1; s2 = s ! 2; s3 = s ! 3; s4 = s ! 4; s5 = s ! 5; s6 = s ! 6; s7 = s ! 7;
       s8 = s ! 8; s9 = s ! 9; s10 = s ! 10; s11 = s ! 11; shr = signed_drop_bit; shl = push_bit in
     map ucast
      [shr 0 s0, shr 8 s0, shr 16 s0 OR shl 5 s1, shr 3 s1, shr 11 s1, shr 19 s1 OR shl 2 s2, shr 6 s2, shr 14 s2 OR shl 7 s3,
       shr 1 s3, shr 9 s3, shr 17 s3 OR shl 4 s4, shr 4 s4, shr 12 s4, shr 20 s4 OR shl 1 s5, shr 7 s5, shr 15 s5 OR shl 6 s6,
       shr 2 s6, shr 10 s6, shr 18 s6 OR shl 3 s7, shr 5 s7, shr 13 s7,
       shr 0 s8, shr 8 s8, shr 16 s8 OR shl 5 s9, shr 3 s9, shr 11 s9, shr 19 s9 OR shl 2 s10, shr 6 s10, shr 14 s10 OR shl 7 s11,
       shr 1 s11, shr 9 s11, shr 17 s11])"

section \<open>Steps\<close>

text \<open>\<open>s[k] * 2 ^ (21 k)\<close> is replaced by the same multiple of the six constants, 12 limbs lower.\<close>

definition sc_fold :: "nat \<Rightarrow> i64 list \<Rightarrow> i64 list" where
  "sc_fold k s =
     s[k - 12 := s ! (k - 12) + s ! k * 666643, k - 11 := s ! (k - 11) + s ! k * 470296, k - 10 := s ! (k - 10) + s ! k * 654183,
       k - 9 := s ! (k - 9) - s ! k * 997805, k - 8 := s ! (k - 8) + s ! k * 136657, k - 7 := s ! (k - 7) - s ! k * 683901, k := 0]"

definition sc_round :: "nat \<Rightarrow> i64 list \<Rightarrow> i64 list" where
  "sc_round k s = (let carry = signed_drop_bit 21 (s ! k + push_bit 20 1) in s[k + 1 := s ! (k + 1) + carry, k := s ! k - push_bit 21 carry])"

definition sc_floor :: "nat \<Rightarrow> i64 list \<Rightarrow> i64 list" where
  "sc_floor k s = (let carry = signed_drop_bit 21 (s ! k) in s[k + 1 := s ! (k + 1) + carry, k := s ! k - push_bit 21 carry])"

datatype sc_step = Fold nat | Round nat | Floor nat

primrec sc_exec :: "sc_step \<Rightarrow> i64 list \<Rightarrow> i64 list" where
  "sc_exec (Fold k) s = sc_fold k s"
| "sc_exec (Round k) s = sc_round k s"
| "sc_exec (Floor k) s = sc_floor k s"

definition fold_high :: "sc_step list" where
  "fold_high = map Fold [23, 22, 21, 20, 19, 18]"

definition round_middle :: "sc_step list" where
  "round_middle = map Round [6, 8, 10, 12, 14, 16, 7, 9, 11, 13, 15]"

definition fold_low :: "sc_step list" where
  "fold_low = map Fold [17, 16, 15, 14, 13, 12]"

definition round_low :: "sc_step list" where
  "round_low = map Round [0, 2, 4, 6, 8, 10, 1, 3, 5, 7, 9, 11]"

definition first_pass :: "sc_step list" where
  "first_pass = Fold 12 # map Floor [0, 1, 2, 3, 4, 5, 6, 7, 8, 9, 10, 11]"

definition second_pass :: "sc_step list" where
  "second_pass = Fold 12 # map Floor [0, 1, 2, 3, 4, 5, 6, 7, 8, 9, 10]"

definition reduce_steps :: "sc_step list" where
  "reduce_steps = fold_high @ round_middle @ fold_low @ round_low @ first_pass @ second_pass"

definition sc_reduce :: "bytes \<Rightarrow> bytes" where
  "sc_reduce s = sc_pack (fold sc_exec reduce_steps (sc_load 24 s))"

section \<open>Multiply and add\<close>

definition sc_product :: "i64 list \<Rightarrow> i64 list \<Rightarrow> i64 list \<Rightarrow> nat \<Rightarrow> i64" where
  "sc_product a b c k = (if k < 12 then c ! k else 0) + sum_list (map (\<lambda>i. a ! i * b ! (k - i)) [k - 11..<min 12 (k + 1)])"

definition round_products :: "sc_step list" where
  "round_products = map Round [0, 2, 4, 6, 8, 10, 12, 14, 16, 18, 20, 22, 1, 3, 5, 7, 9, 11, 13, 15, 17, 19, 21]"

definition sc_muladd :: "bytes \<Rightarrow> bytes \<Rightarrow> bytes \<Rightarrow> bytes" where
  "sc_muladd a b c =
     sc_pack (fold sc_exec (round_products @ reduce_steps) (map (sc_product (sc_load 12 a) (sc_load 12 b) (sc_load 12 c)) [0..<23] @ [0]))"

end
