(* ===== verification/ScalarArith.thy ===== *)
theory ScalarArith
  imports Scalar
begin

text \<open>
  The reduction modulo the group order: each step of \<open>sc.c\<close> on integers and on bounds, the
  evaluation of a whole step list on bounds, and the two final passes that make the result
  canonical.
\<close>

section \<open>Steps on integers\<close>

definition group_order :: int where
  "group_order = 2 ^ 252 + 27742317777372353535851937790883648493"

definition sc_val :: "int list \<Rightarrow> int" where
  "sc_val xs = (\<Sum>i<24. xs ! i * 2 ^ (21 * i))"

lemma sum24: "(\<Sum>i<24. f i) = f 0 + f 1 + f 2 + f 3 + f 4 + f 5 + f 6 + f 7 + f 8 + f 9 + f 10 + f 11 + f 12 + f 13 + f 14 +
    f 15 + f 16 + f 17 + f 18 + f 19 + f 20 + f 21 + f 22 + f (23 :: nat)"
  by (simp add: lessThan_nat_numeral algebra_simps)

lemma order_consts: "666643 + 470296 * 2 ^ 21 + 654183 * 2 ^ 42 - 997805 * 2 ^ 63 + 136657 * 2 ^ 84 - 683901 * 2 ^ 105 = 2 ^ 252 - group_order"
  by (simp add: group_order_def)

lemma sc_val_update:
  assumes "length xs = 24" and "i < 24"
  shows "sc_val (xs[i := v]) = sc_val xs + (v - xs ! i) * 2 ^ (21 * i)"
proof -
  have "(\<Sum>j<24. xs[i := v] ! j * 2 ^ (21 * j)) = (\<Sum>j<24. xs ! j * 2 ^ (21 * j) + (if j = i then (v - xs ! i) * 2 ^ (21 * i) else 0))"
    using assms by (intro sum.cong) (auto simp: nth_list_update algebra_simps)
  also have "\<dots> = sc_val xs + (v - xs ! i) * 2 ^ (21 * i)"
    using assms by (simp add: sum.distrib sc_val_def)
  finally show ?thesis
    by (simp add: sc_val_def)
qed

definition fold_int :: "nat \<Rightarrow> int list \<Rightarrow> int list" where
  "fold_int k xs =
     xs[k - 12 := xs ! (k - 12) + xs ! k * 666643, k - 11 := xs ! (k - 11) + xs ! k * 470296, k - 10 := xs ! (k - 10) + xs ! k * 654183,
       k - 9 := xs ! (k - 9) - xs ! k * 997805, k - 8 := xs ! (k - 8) + xs ! k * 136657, k - 7 := xs ! (k - 7) - xs ! k * 683901, k := 0]"

definition carry_out :: "nat \<Rightarrow> int \<Rightarrow> int list \<Rightarrow> int list" where
  "carry_out k c xs = xs[k + 1 := xs ! (k + 1) + c, k := xs ! k - c * 2 ^ 21]"

primrec exec_int :: "sc_step \<Rightarrow> int list \<Rightarrow> int list" where
  "exec_int (Fold k) xs = fold_int k xs"
| "exec_int (Round k) xs = carry_out k ((xs ! k + 2 ^ 20) div 2 ^ 21) xs"
| "exec_int (Floor k) xs = carry_out k (xs ! k div 2 ^ 21) xs"

lemma carry_out_val: "length xs = 24 \<Longrightarrow> k < 23 \<Longrightarrow> sc_val (carry_out k c xs) = sc_val xs"
  by (simp add: carry_out_def sc_val_update power_add [symmetric] algebra_simps) (simp add: power_add)

lemma fold_int_val:
  assumes "length xs = 24" and "12 \<le> k" and "k < 24"
  shows "sc_val (fold_int k xs) = sc_val xs - xs ! k * 2 ^ (21 * (k - 12)) * group_order"
proof -
  obtain j where k: "k = j + 12"
    using assms(2) by (metis add.commute le_Suc_ex)
  have "sc_val (fold_int k xs) = sc_val xs + xs ! k * 2 ^ (21 * j) *
      (666643 + 470296 * 2 ^ 21 + 654183 * 2 ^ 42 - 997805 * 2 ^ 63 + 136657 * 2 ^ 84 - 683901 * 2 ^ 105 - 2 ^ 252)"
    using assms unfolding k fold_int_def
    by (simp add: sc_val_update nth_list_update distrib_left power_add)
  then show ?thesis
    unfolding order_consts k by (simp add: algebra_simps)
qed

definition step_ok :: "sc_step \<Rightarrow> bool" where
  "step_ok st = (case st of Fold k \<Rightarrow> 12 \<le> k \<and> k < 24 | Round k \<Rightarrow> k < 23 | Floor k \<Rightarrow> k < 23)"

lemma length_exec_int [simp]: "length (exec_int st xs) = length xs"
  by (cases st) (simp_all add: fold_int_def carry_out_def)

lemma exec_int_val: "length xs = 24 \<Longrightarrow> step_ok st \<Longrightarrow> sc_val (exec_int st xs) mod group_order = sc_val xs mod group_order"
  by (cases st) (simp_all add: step_ok_def carry_out_val fold_int_val mod_diff_eq [symmetric, of "_ * _"] mod_diff_right_eq [symmetric])

lemma fold_exec_int_val: "length xs = 24 \<Longrightarrow> list_all step_ok sts \<Longrightarrow>
    sc_val (fold exec_int sts xs) mod group_order = sc_val xs mod group_order \<and> length (fold exec_int sts xs) = 24"
  by (induction sts arbitrary: xs) (simp_all add: exec_int_val)

section \<open>Steps on machine words\<close>

definition within :: "int list \<Rightarrow> int list \<Rightarrow> bool" where
  "within bs xs \<longleftrightarrow> length bs = 24 \<and> length xs = 24 \<and> (\<forall>i<24. \<bar>xs ! i\<bar> \<le> bs ! i)"

lemma within_update: "within bs xs \<Longrightarrow> \<bar>v\<bar> \<le> b \<Longrightarrow> within (bs[i := b]) (xs[i := v])"
  unfolding within_def by (cases "i < length xs") (simp_all add: nth_list_update list_update_beyond)

lemma withinD: "within bs xs \<Longrightarrow> i < 24 \<Longrightarrow> \<bar>xs ! i\<bar> \<le> bs ! i"
  by (simp add: within_def)

primrec exec_bound :: "sc_step \<Rightarrow> int list \<Rightarrow> int list" where
  "exec_bound (Fold k) bs =
     bs[k - 12 := bs ! (k - 12) + bs ! k * 666643, k - 11 := bs ! (k - 11) + bs ! k * 470296, k - 10 := bs ! (k - 10) + bs ! k * 654183,
       k - 9 := bs ! (k - 9) + bs ! k * 997805, k - 8 := bs ! (k - 8) + bs ! k * 136657, k - 7 := bs ! (k - 7) + bs ! k * 683901, k := 0]"
| "exec_bound (Round k) bs = bs[k + 1 := bs ! (k + 1) + (bs ! k + 2 ^ 20) div 2 ^ 21, k := 2 ^ 20]"
| "exec_bound (Floor k) bs = bs[k + 1 := bs ! (k + 1) + bs ! k div 2 ^ 21 + 1, k := 2 ^ 21 - 1]"

definition small_bounds :: "int list \<Rightarrow> bool" where
  "small_bounds bs \<longleftrightarrow> list_all (\<lambda>b. b < 2 ^ 62) bs"

primrec steps_ok :: "sc_step list \<Rightarrow> int list \<Rightarrow> bool" where
  "steps_ok [] bs \<longleftrightarrow> True"
| "steps_ok (st # sts) bs \<longleftrightarrow> step_ok st \<and> small_bounds bs \<and> small_bounds (exec_bound st bs) \<and> steps_ok sts (exec_bound st bs)"

lemma small_boundsD: "small_bounds bs \<Longrightarrow> i < length bs \<Longrightarrow> bs ! i < 2 ^ 62"
  by (simp add: small_bounds_def list_all_length)

text \<open>Limbs computed on words have the integer values as soon as the bounds are small.\<close>

lemma words_within:
  assumes "within bs xs" and "small_bounds bs"
  shows "map sint (map word_of_int xs :: i64 list) = xs"
proof -
  have "sint (word_of_int (xs ! i) :: i64) = xs ! i" if "i < 24" for i
  proof -
    have "bs ! i < 2 ^ 62"
      using small_boundsD [OF assms(2), of i] assms(1) that by (simp add: within_def)
    then have "\<bar>xs ! i\<bar> < 2 ^ 63"
      using withinD [OF assms(1) that] by simp
    then show ?thesis
      by (rule sint_of_int_i64)
  qed
  then show ?thesis
    using assms(1) by (auto simp: within_def intro!: nth_equalityI)
qed

lemma limb_fold_bound: "\<bar>x\<bar> \<le> a \<Longrightarrow> \<bar>y\<bar> \<le> b \<Longrightarrow> 0 \<le> c \<Longrightarrow> \<bar>x + y * c\<bar> \<le> a + b * (c :: int)"
  "\<bar>x\<bar> \<le> a \<Longrightarrow> \<bar>y\<bar> \<le> b \<Longrightarrow> 0 \<le> c \<Longrightarrow> \<bar>x - y * c\<bar> \<le> a + b * c"
proof -
  have "\<bar>y * c\<bar> \<le> b * c" if "\<bar>y\<bar> \<le> b" "0 \<le> c"
    using mult_right_mono [OF that] that(2) by (simp add: abs_mult)
  then show "\<bar>x\<bar> \<le> a \<Longrightarrow> \<bar>y\<bar> \<le> b \<Longrightarrow> 0 \<le> c \<Longrightarrow> \<bar>x + y * c\<bar> \<le> a + b * c"
    "\<bar>x\<bar> \<le> a \<Longrightarrow> \<bar>y\<bar> \<le> b \<Longrightarrow> 0 \<le> c \<Longrightarrow> \<bar>x - y * c\<bar> \<le> a + b * c"
    by linarith+
qed

lemma floor_bounds: "\<bar>x\<bar> \<le> a \<Longrightarrow> \<bar>x div 2 ^ 21\<bar> \<le> a div 2 ^ 21 + 1" "\<bar>x - x div 2 ^ 21 * 2 ^ 21\<bar> \<le> (2 ^ 21 - 1 :: int)"
proof -
  have split: "y = 2097152 * (y div 2097152) + y mod 2097152" "0 \<le> y mod 2097152" "y mod 2097152 < 2097152" for y :: int
    by simp_all
  show "\<bar>x - x div 2 ^ 21 * 2 ^ 21\<bar> \<le> (2 ^ 21 - 1 :: int)"
    using split [of x] by simp
  show "\<bar>x div 2 ^ 21\<bar> \<le> a div 2 ^ 21 + 1" if "\<bar>x\<bar> \<le> a"
    using split [of x] split [of a] that by simp
qed

lemma abs_sum_le: "\<bar>x\<bar> \<le> a \<Longrightarrow> \<bar>y\<bar> \<le> b \<Longrightarrow> \<bar>x + y\<bar> \<le> a + (b :: int)"
  by linarith

lemma exec_within: "within bs xs \<Longrightarrow> step_ok st \<Longrightarrow> within (exec_bound st bs) (exec_int st xs)"
proof (cases st)
  case (Fold k)
  assume w: "within bs xs" and "step_ok st"
  then have "k < 24"
    by (simp add: Fold step_ok_def)
  then have "\<bar>xs ! k\<bar> \<le> bs ! k" "\<bar>xs ! (k - 12)\<bar> \<le> bs ! (k - 12)" "\<bar>xs ! (k - 11)\<bar> \<le> bs ! (k - 11)" "\<bar>xs ! (k - 10)\<bar> \<le> bs ! (k - 10)"
    "\<bar>xs ! (k - 9)\<bar> \<le> bs ! (k - 9)" "\<bar>xs ! (k - 8)\<bar> \<le> bs ! (k - 8)" "\<bar>xs ! (k - 7)\<bar> \<le> bs ! (k - 7)"
    by - (rule withinD [OF w], simp)+
  then show ?thesis
    unfolding Fold exec_int.simps exec_bound.simps fold_int_def
    by - (rule within_update, (rule within_update limb_fold_bound w | assumption | simp)+)
next
  case (Round k)
  assume w: "within bs xs" and "step_ok st"
  then have "\<bar>xs ! k\<bar> \<le> bs ! k" "\<bar>xs ! (k + 1)\<bar> \<le> bs ! (k + 1)"
    by (simp_all add: Round step_ok_def withinD [OF w])
  then show ?thesis
    using carry_bounds [of "xs ! k" "bs ! k" 21]
    unfolding Round exec_int.simps exec_bound.simps carry_out_def by - (rule within_update, rule within_update, rule w, rule abs_sum_le, simp_all)
next
  case (Floor k)
  assume w: "within bs xs" and "step_ok st"
  then have "\<bar>xs ! k\<bar> \<le> bs ! k" "\<bar>xs ! (k + 1)\<bar> \<le> bs ! (k + 1)"
    by (simp_all add: Floor step_ok_def withinD [OF w])
  then show ?thesis
    using floor_bounds(1) [of "xs ! k" "bs ! k"] floor_bounds(2) [of "xs ! k"]
    unfolding Floor exec_int.simps exec_bound.simps carry_out_def add.assoc by - (rule within_update, rule within_update, rule w, rule abs_sum_le, simp_all)
qed

lemma int_word_sint_inv: "word_of_int (sint w) = (w :: i64)"
  by simp

lemma exec_word:
  assumes "within bs (map sint s)" and "small_bounds bs" and "step_ok st"
  shows "sc_exec st s = map word_of_int (exec_int st (map sint s))"
proof -
  have len: "length s = 24" and id: "map (word_of_int \<circ> sint) s = s"
    using assms(1) by (simp_all add: within_def map_idI)
  show ?thesis
  proof (cases st)
    case (Fold k)
    then obtain j where "k = j + 12" "j < 12"
      using assms(3) by (auto simp: step_ok_def) (metis add.commute le_Suc_ex nat_add_left_cancel_less numeral_plus_numeral)
    then show ?thesis
      by (simp add: Fold sc_fold_def fold_int_def map_update len id)
  next
    case (Round k)
    then have k: "k < 23"
      using assms(3) by (simp add: step_ok_def)
    then have "\<bar>sint (s ! k)\<bar> \<le> bs ! k" "bs ! k < 2 ^ 62"
      using withinD [OF assms(1), of k] small_boundsD [OF assms(2), of k] assms(1) by (simp_all add: within_def len)
    then have "\<bar>sint (s ! k) + 2 ^ 20\<bar> < 2 ^ 63"
      by simp
    then have "sint (s ! k + push_bit 20 1) = sint (s ! k) + 2 ^ 20"
      using sint_of_int_i64 [of "sint (s ! k) + 2 ^ 20"] by (simp add: push_bit_eq_mult)
    then have "signed_drop_bit 21 (s ! k + push_bit 20 1) = word_of_int ((sint (s ! k) + 2 ^ 20) div 2 ^ 21)"
      using signed_shift [of 21 "s ! k + push_bit 20 1"] int_word_sint_inv by metis
    then show ?thesis
      using k by (simp add: Round sc_round_def Let_def carry_out_def map_update len id push_bit_eq_mult)
  next
    case (Floor k)
    then have k: "k < 23"
      using assms(3) by (simp add: step_ok_def)
    have "signed_drop_bit 21 (s ! k) = word_of_int (sint (s ! k) div 2 ^ 21)"
      using signed_shift [of 21 "s ! k"] int_word_sint_inv by metis
    then show ?thesis
      using k by (simp add: Floor sc_floor_def Let_def carry_out_def map_update len id push_bit_eq_mult)
  qed
qed

text \<open>A whole step list: evaluated once on bounds, it computes on words what it computes on integers.\<close>

lemma steps_refine:
  assumes "within bs (map sint s)" and "steps_ok sts bs"
  shows "map sint (fold sc_exec sts s) = fold exec_int sts (map sint s)" and "within (fold exec_bound sts bs) (fold exec_int sts (map sint s))"
proof -
  have "map sint (fold sc_exec sts s) = fold exec_int sts (map sint s) \<and> within (fold exec_bound sts bs) (fold exec_int sts (map sint s))"
    using assms
  proof (induction sts arbitrary: bs s)
    case (Cons st sts)
    then have ok: "step_ok st" "small_bounds bs" "small_bounds (exec_bound st bs)" "steps_ok sts (exec_bound st bs)"
      by simp_all
    note w = exec_within [OF Cons.prems(1) ok(1)]
    have "map sint (sc_exec st s) = exec_int st (map sint s)"
      unfolding exec_word [OF Cons.prems(1) ok(2,1)] by (rule words_within [OF w ok(3)])
    then show ?case
      using Cons.IH [of "exec_bound st bs" "sc_exec st s"] w ok(4) by simp
  qed simp
  then show "map sint (fold sc_exec sts s) = fold exec_int sts (map sint s)"
    and "within (fold exec_bound sts bs) (fold exec_int sts (map sint s))"
    by blast+
qed

section \<open>The two final passes\<close>

text \<open>After flooring the limbs below \<open>n\<close> in order, they are digits and the total is unchanged.\<close>

definition digits_below :: "nat \<Rightarrow> int list \<Rightarrow> bool" where
  "digits_below n xs \<longleftrightarrow> (\<forall>i<n. 0 \<le> xs ! i \<and> xs ! i < 2 ^ 21)"

lemma floor_pass:
  assumes "length xs = 24" and "n \<le> 23"
  shows "digits_below n (fold exec_int (map Floor [0..<n]) xs) \<and> sc_val (fold exec_int (map Floor [0..<n]) xs) = sc_val xs \<and>
    (\<forall>i. n < i \<longrightarrow> fold exec_int (map Floor [0..<n]) xs ! i = xs ! i) \<and> length (fold exec_int (map Floor [0..<n]) xs) = 24"
  using assms(2)
proof (induction n)
  case 0
  then show ?case
    using assms(1) by (simp add: digits_below_def)
next
  case (Suc n)
  let ?ys = "fold exec_int (map Floor [0..<n]) xs"
  have ys: "digits_below n ?ys" "sc_val ?ys = sc_val xs" "\<forall>i. n < i \<longrightarrow> ?ys ! i = xs ! i" "length ?ys = 24"
    using Suc by simp_all
  have step: "fold exec_int (map Floor [0..<Suc n]) xs = carry_out n (?ys ! n div 2 ^ 21) ?ys"
    by simp
  have digit: "0 \<le> v - v div 2 ^ 21 * 2 ^ 21" "v - v div 2 ^ 21 * 2 ^ 21 < (2 :: int) ^ 21" for v
    by (simp_all add: minus_div_mult_eq_mod)
  have "digits_below (Suc n) (carry_out n (?ys ! n div 2 ^ 21) ?ys)"
    using ys(1,4) Suc.prems digit [of "?ys ! n"] unfolding digits_below_def carry_out_def by (auto simp: nth_list_update less_Suc_eq)
  moreover have "sc_val (carry_out n (?ys ! n div 2 ^ 21) ?ys) = sc_val xs"
    using carry_out_val [OF ys(4)] Suc.prems ys(2) by simp
  moreover have "\<forall>i. Suc n < i \<longrightarrow> carry_out n (?ys ! n div 2 ^ 21) ?ys ! i = xs ! i"
    using ys(3) by (simp add: carry_out_def)
  ultimately show ?case
    unfolding step using ys(4) by (simp add: carry_out_def)
qed

lemma digits_sum:
  assumes "\<forall>i<n. 0 \<le> xs ! i \<and> xs ! i < 2 ^ 21"
  shows "0 \<le> (\<Sum>i<n. xs ! i * 2 ^ (21 * i))" and "(\<Sum>i<n. xs ! i * 2 ^ (21 * i)) < (2 :: int) ^ (21 * n)"
proof -
  have "0 \<le> (\<Sum>i<n. xs ! i * 2 ^ (21 * i)) \<and> (\<Sum>i<n. xs ! i * 2 ^ (21 * i)) < (2 :: int) ^ (21 * n)"
    using assms
  proof (induction n)
    case (Suc n)
    then have digit: "0 \<le> xs ! n" "xs ! n \<le> 2 ^ 21 - 1"
      by auto
    then have "xs ! n * 2 ^ (21 * n) \<le> (2 ^ 21 - 1) * (2 :: int) ^ (21 * n)" "0 \<le> xs ! n * 2 ^ (21 * n)"
      by (simp_all only: mult_right_mono zero_le_mult_iff zero_le_power zero_le_numeral simp_thms)
    moreover have "(2 :: int) ^ (21 * Suc n) = 2 ^ (21 * n) + (2 ^ 21 - 1) * 2 ^ (21 * n)"
      by (simp add: power_add)
    moreover have "0 \<le> (\<Sum>i<n. xs ! i * 2 ^ (21 * i))" "(\<Sum>i<n. xs ! i * 2 ^ (21 * i)) < (2 :: int) ^ (21 * n)"
      using Suc by simp_all
    ultimately show ?case
      by (simp only: sum.lessThan_Suc) linarith
  qed simp
  then show "0 \<le> (\<Sum>i<n. xs ! i * 2 ^ (21 * i))" and "(\<Sum>i<n. xs ! i * 2 ^ (21 * i)) < (2 :: int) ^ (21 * n)"
    by blast+
qed

lemma sc_val_split:
  assumes "digits_below n xs" and "n < 24" and "\<forall>i. n < i \<longrightarrow> i < 24 \<longrightarrow> xs ! i = 0"
  shows "xs ! n = sc_val xs div 2 ^ (21 * n)" and "(\<Sum>i<n. xs ! i * 2 ^ (21 * i)) = sc_val xs mod 2 ^ (21 * n)"
proof -
  let ?low = "\<Sum>i<n. xs ! i * 2 ^ (21 * i)"
  have "sc_val xs = (\<Sum>i<Suc n. xs ! i * 2 ^ (21 * i))"
    unfolding sc_val_def using assms(2,3) by (intro sum.mono_neutral_right) auto
  then have val: "sc_val xs = ?low + xs ! n * 2 ^ (21 * n)"
    by simp
  have low: "0 \<le> ?low" "?low < 2 ^ (21 * n)"
    using digits_sum [of n xs] assms(1) by (simp_all add: digits_below_def)
  show "xs ! n = sc_val xs div 2 ^ (21 * n)" "?low = sc_val xs mod 2 ^ (21 * n)"
    unfolding val using low by (simp_all add: div_pos_pos_trivial)
qed

text \<open>
  A value below $2^{252}$ in magnitude becomes canonical: the first pass leaves 0 or -1 times
  $2^{252}$ above twelve digits, and folding that down adds the order exactly when the value was
  negative.
\<close>

lemma floor_upt: "map Floor [0, 1, 2, 3, 4, 5, 6, 7, 8, 9, 10] = map Floor [0..<11]"
  "map Floor [0, 1, 2, 3, 4, 5, 6, 7, 8, 9, 10, 11] = map Floor [0..<12]"
  by (simp_all add: upt_rec)

lemma final_passes:
  assumes "length xs = 24" and "\<forall>i. 12 \<le> i \<longrightarrow> i < 24 \<longrightarrow> xs ! i = 0" and "\<bar>sc_val xs\<bar> < 2 ^ 252"
  defines "zs \<equiv> fold exec_int second_pass (fold exec_int (map Floor [0..<12]) xs)"
  shows "sc_val zs = sc_val xs mod group_order" and "digits_below 11 zs" and "\<forall>i. 12 \<le> i \<longrightarrow> i < 24 \<longrightarrow> zs ! i = 0" and "length zs = 24"
proof -
  let ?ys = "fold exec_int (map Floor [0..<12]) xs"
  have ys: "digits_below 12 ?ys" "sc_val ?ys = sc_val xs" "\<forall>i. 12 < i \<longrightarrow> ?ys ! i = xs ! i" "length ?ys = 24"
    using floor_pass [OF assms(1), of 12] by simp_all
  have top: "?ys ! 12 = sc_val xs div 2 ^ 252"
    using sc_val_split(1) [of 12 ?ys] ys assms(2) by simp
  let ?fs = "fold_int 12 ?ys"
  have fs: "length ?fs = 24" "sc_val ?fs = sc_val xs - sc_val xs div 2 ^ 252 * group_order"
    using fold_int_val [OF ys(4), of 12] by (simp add: fold_int_def ys(4), simp add: ys(2) top)
  have fs0: "\<forall>i. 12 \<le> i \<longrightarrow> i < 24 \<longrightarrow> ?fs ! i = 0"
    using ys(3,4) assms(2) by (auto simp: fold_int_def nth_list_update)
  have zs: "zs = fold exec_int (map Floor [0..<11]) ?fs"
    unfolding zs_def second_pass_def floor_upt by (simp only: fold.simps o_apply exec_int.simps)
  note pass = floor_pass [OF fs(1), of 11, folded zs]
  show "digits_below 11 zs" "length zs = 24"
    using pass by simp_all
  show "\<forall>i. 12 \<le> i \<longrightarrow> i < 24 \<longrightarrow> zs ! i = 0"
    using pass fs0 by simp
  have order: "2 ^ 252 < group_order"
    by (simp add: group_order_def)
  have "sc_val xs - sc_val xs div 2 ^ 252 * group_order = sc_val xs mod group_order"
  proof (cases "0 \<le> sc_val xs")
    case True
    then show ?thesis
      using assms(3) order by (simp add: div_pos_pos_trivial mod_pos_pos_trivial)
  next
    case False
    then have "sc_val xs div 2 ^ 252 = - 1"
      using assms(3) by (intro int_div_pos_eq [of _ _ _ "sc_val xs + 2 ^ 252"]) simp_all
    moreover have "sc_val xs mod group_order = (sc_val xs + group_order) mod group_order"
      by simp
    moreover have "(sc_val xs + group_order) mod group_order = sc_val xs + group_order"
      using False assms(3) order by (intro mod_pos_pos_trivial) simp_all
    ultimately show ?thesis
      by simp
  qed
  then show "sc_val zs = sc_val xs mod group_order"
    using pass fs(2) by simp
qed

section \<open>The whole reduction\<close>

definition head_steps :: "sc_step list" where
  "head_steps = fold_high @ round_middle @ fold_low @ round_low @ [Fold 12]"

lemma reduce_steps_split: "reduce_steps = (head_steps @ map Floor [0..<12]) @ second_pass"
  unfolding reduce_steps_def head_steps_def first_pass_def floor_upt(2) by (simp only: append.assoc append_Cons append_Nil)

definition bounds_val :: "int list \<Rightarrow> int" where
  "bounds_val bs = horner_sum id (2 ^ 21) bs"

definition reducible :: "int list \<Rightarrow> bool" where
  "reducible bs \<longleftrightarrow> steps_ok (head_steps @ map Floor [0..<12] @ second_pass) bs \<and>
     bounds_val (fold exec_bound head_steps bs) < 2 ^ 252 \<and> (\<forall>b\<in>set (drop 12 (fold exec_bound head_steps bs)). b = 0)"

lemma sc_val_horner: "length xs = 24 \<Longrightarrow> sc_val xs = bounds_val xs"
  unfolding sc_val_def bounds_val_def horner_sum_eq_sum power_mult by (simp add: atLeast0LessThan)

lemma sc_val_abs: "within bs xs \<Longrightarrow> \<bar>sc_val xs\<bar> \<le> bounds_val bs"
proof -
  assume w: "within bs xs"
  have "\<bar>sc_val xs\<bar> \<le> (\<Sum>i<24. bs ! i * 2 ^ (21 * i))"
    unfolding sc_val_def using withinD [OF w] by (intro order_trans [OF sum_abs] sum_mono) (simp add: abs_mult)
  then show ?thesis
    using w sc_val_horner [of bs] by (simp add: sc_val_def within_def)
qed

lemma steps_ok_append: "steps_ok (xs @ ys) bs \<longleftrightarrow> steps_ok xs bs \<and> steps_ok ys (fold exec_bound xs bs)"
  by (induction xs arbitrary: bs) auto

lemma steps_ok_steps: "steps_ok sts bs \<Longrightarrow> list_all step_ok sts"
  by (induction sts arbitrary: bs) auto

lemma reduce_ok:
  assumes "within bs (map sint s)" and "reducible bs"
  defines "t \<equiv> map sint (fold sc_exec reduce_steps s)"
  shows "sc_val t = sc_val (map sint s) mod group_order" and "digits_below 11 t" and "\<forall>i. 12 \<le> i \<longrightarrow> i < 24 \<longrightarrow> t ! i = 0"
    and "length t = 24"
proof -
  let ?xs = "map sint s"
  let ?hs = "fold exec_int head_steps ?xs"
  have ok: "steps_ok reduce_steps bs" and okh: "steps_ok head_steps bs"
    using assms(2) unfolding reducible_def reduce_steps_split by (simp_all add: steps_ok_append)
  have t: "t = fold exec_int second_pass (fold exec_int (map Floor [0..<12]) ?hs)"
    using steps_refine(1) [OF assms(1) ok] unfolding t_def by (simp only: reduce_steps_split fold_append o_apply)
  have w: "within (fold exec_bound head_steps bs) ?hs"
    using steps_refine(2) [OF assms(1) okh] .
  then have len: "length ?hs = 24"
    by (simp add: within_def)
  have "?hs ! i = 0" if "12 \<le> i" "i < 24" for i
  proof -
    have "fold exec_bound head_steps bs ! i \<in> set (drop 12 (fold exec_bound head_steps bs))"
      using that w nth_mem [of "i - 12" "drop 12 (fold exec_bound head_steps bs)"] by (simp add: within_def)
    then show ?thesis
      using withinD [OF w that(2)] assms(2) by (auto simp: reducible_def)
  qed
  moreover have "\<bar>sc_val ?hs\<bar> < 2 ^ 252"
    using sc_val_abs [OF w] assms(2) unfolding reducible_def by linarith
  moreover have "sc_val ?hs mod group_order = sc_val ?xs mod group_order"
    using fold_exec_int_val [OF _ steps_ok_steps [OF okh]] assms(1) by (simp add: within_def)
  ultimately show "sc_val t = sc_val ?xs mod group_order" and "digits_below 11 t" and "\<forall>i. 12 \<le> i \<longrightarrow> i < 24 \<longrightarrow> t ! i = 0"
    and "length t = 24"
    using final_passes [OF len] unfolding t by auto
qed

definition load_bounds24 :: "int list" where
  "load_bounds24 = replicate 23 (2 ^ 21 - 1) @ [2 ^ 29 - 1]"

definition product_bound :: "nat \<Rightarrow> int" where
  "product_bound k = (if k < 12 then 2 ^ 25 else 0) + sum_list (map (\<lambda>i. (if i = 11 then 2 ^ 25 else 2 ^ 21) * (if k - i = 11 then 2 ^ 25 else 2 ^ 21))
     [k - 11..<min 12 (k + 1)])"

definition scalar_product_bounds :: "int list" where
  "scalar_product_bounds = map product_bound [0..<23] @ [0]"

lemma reducible_inputs: "reducible load_bounds24" "steps_ok round_products scalar_product_bounds" "reducible (fold exec_bound round_products scalar_product_bounds)"
  by code_simp+

end
