(* ===== verification/ScalarSpec.thy ===== *)
theory ScalarSpec
  imports ScalarArith
begin

text \<open>
  Scalars and bytes: the loads, the packing of twelve limbs of 21 bits into 32 bytes, and the
  correctness of \<open>sc_reduce\<close> and \<open>sc_muladd\<close>.
\<close>

section \<open>Strings and limbs\<close>

lemma digit_expansion: "(\<Sum>i<n. (v div B ^ i mod B) * B ^ i) = v mod (B :: int) ^ n" if "0 < B"
proof (induction n)
  case (Suc n)
  have "v mod B ^ Suc n = B ^ n * (v div B ^ n mod B) + v mod B ^ n"
    using zmod_zmult2_eq [of B v "B ^ n"] that by (simp add: mult.commute)
  then show ?case
    using Suc by (simp add: mult.commute)
qed simp

lemma le_val_byte:
  assumes "i < length s"
  shows "uint (s ! i) = le_val s div 256 ^ i mod 256"
proof -
  have "s = take i s @ s ! i # drop (Suc i) s"
    using assms by (rule id_take_nth_drop)
  then have "le_val s = le_val (take i s) + 256 ^ i * (uint (s ! i) + 256 * le_val (drop (Suc i) s))"
    using assms le_val_append [of "take i s" "s ! i # drop (Suc i) s"] by simp
  moreover have "0 \<le> le_val (take i s)" "le_val (take i s) < 256 ^ i"
    using le_val_bounds [of "take i s"] assms by simp_all
  ultimately show ?thesis
    using byte_int [of "s ! i"] by (simp add: div_pos_pos_trivial)
qed

lemma load_int_val:
  assumes "i + 2 < length s"
  shows "load_3_int s i = le_val s div 256 ^ i mod 2 ^ 24"
    and "i + 3 < length s \<Longrightarrow> load_3_int s i + 2 ^ 24 * uint (s ! (i + 3)) = le_val s div 256 ^ i mod 2 ^ 32"
proof -
  define x where "x = le_val s div 256 ^ i"
  have byte: "uint (s ! (i + j)) = x div 256 ^ j mod 256" if "i + j < length s" for j
    using le_val_byte [OF that] by (simp add: x_def power_add zdiv_zmult2_eq)
  have three: "load_3_int s i = x mod 256 + 2 ^ 8 * (x div 256 mod 256) + 2 ^ 16 * (x div 256 ^ 2 mod 256)"
    unfolding load_3_int_def using byte [of 0] byte [of 1] byte [of 2] assms by simp
  show "load_3_int s i = le_val s div 256 ^ i mod 2 ^ 24"
    using digit_expansion [of 256 x 3] unfolding three x_def [symmetric] by (simp add: numeral_3_eq_3 numeral_2_eq_2)
  show "load_3_int s i + 2 ^ 24 * uint (s ! (i + 3)) = le_val s div 256 ^ i mod 2 ^ 32" if "i + 3 < length s"
    using digit_expansion [of 256 x 4] byte [OF that] unfolding three x_def [symmetric]
    by (simp add: eval_nat_numeral)
qed

lemma uint_load:
  assumes "i + 2 < length s"
  shows "uint (load_3 s i) = le_val s div 256 ^ i mod 2 ^ 24"
    and "i + 3 < length s \<Longrightarrow> uint (load_4 s i) = le_val s div 256 ^ i mod 2 ^ 32"
proof -
  have small: "uint (word_of_int (v mod 2 ^ k) :: u64) = v mod 2 ^ k" if "k \<le> 32" for v k
  proof -
    have "(2 :: int) ^ k \<le> 2 ^ 32"
      using that by (intro power_increasing) simp_all
    then have "v mod 2 ^ k < 2 ^ 64"
      by (intro less_le_trans [OF pos_mod_bound]) simp_all
    then show ?thesis
      by (simp add: uint_word_of_int)
  qed
  show "uint (load_3 s i) = le_val s div 256 ^ i mod 2 ^ 24"
    unfolding load_3_word load_int_val(1) [OF assms] by (rule small) simp
  show "uint (load_4 s i) = le_val s div 256 ^ i mod 2 ^ 32" if "i + 3 < length s"
    unfolding load_4_word load_int_val(2) [OF assms that] by (rule small) simp
qed

definition sc_width :: "bool \<times> nat \<times> nat \<Rightarrow> nat" where
  "sc_width = (\<lambda>(four, i, k). (if four then 32 else 24) - k)"

definition sc_bytes :: "bool \<times> nat \<times> nat \<Rightarrow> nat" where
  "sc_bytes = (\<lambda>(four, i, k). i + (if four then 4 else 3))"

lemma layout_facts: "\<forall>i\<in>set [0..<24]. let (four, j, k) = sc_layout ! i in 8 * j + k = 21 * i \<and> k < 8 \<and> 21 \<le> sc_width (four, j, k) \<and>
    sc_bytes (four, j, k) \<le> 64 \<and> (i < 12 \<longrightarrow> sc_bytes (four, j, k) \<le> 32)"
  "sc_width (sc_layout ! 23) = 29" "sc_width (sc_layout ! 11) = 25"
  by code_simp+

lemma uint_drop: "uint (drop_bit k w) = drop_bit k (uint (w :: u64))"
  by (rule bit_eqI) (auto simp: bit_simps dest: bit_imp_le_length)

lemma sc_word_val:
  assumes "i < 24" and "sc_bytes (sc_layout ! i) \<le> length s"
  shows "uint (sc_word s (sc_layout ! i)) = le_val s div 2 ^ (21 * i) mod 2 ^ sc_width (sc_layout ! i)"
proof -
  obtain four j k where lay: "sc_layout ! i = (four, j, k)"
    by (cases "sc_layout ! i")
  have "i \<in> set [0..<24]"
    using assms(1) by simp
  then have facts: "8 * j + k = 21 * i" "k < 8"
    using bspec [OF layout_facts(1), of i] by (simp_all add: lay)
  have len: "j + 2 < length s" "four \<Longrightarrow> j + 3 < length s"
    using assms(2) by (auto simp: lay sc_bytes_def split: if_splits)
  have "uint (if four then load_4 s j else load_3 s j) = le_val s div 256 ^ j mod 2 ^ (if four then 32 else 24)"
    using uint_load [OF len(1)] len(2) by simp
  then have "uint (sc_word s (sc_layout ! i)) = drop_bit k (take_bit (if four then 32 else 24) (drop_bit (8 * j) (le_val s)))"
    unfolding lay sc_word_def prod.case uint_drop by (simp only: take_bit_eq_mod drop_bit_eq_div power_mult) simp
  also have "\<dots> = take_bit (sc_width (sc_layout ! i)) (drop_bit (21 * i) (le_val s))"
    using facts by (simp add: lay sc_width_def drop_bit_take_bit add.commute [of k])
  finally show ?thesis
    by (simp add: take_bit_eq_mod drop_bit_eq_div)
qed

lemma sint_small: "uint w < 2 ^ 63 \<Longrightarrow> sint (w :: i64) = uint w"
  using sint_of_int_i64 [of "uint w"] by simp

lemma uint_mask21: "uint (2097151 AND w) = uint (w :: i64) mod 2 ^ 21"
proof -
  have "2097151 AND w = take_bit 21 w"
    using take_bit_eq_mask [of 21 w] by (simp add: mask_eq_exp_minus_1 and.commute)
  then have "uint (2097151 AND w) = take_bit 21 (uint w)"
    by (simp only: unsigned_take_bit_eq)
  then show ?thesis
    by (simp only: take_bit_eq_mod)
qed

lemma sc_load_sint:
  assumes "n = 24 \<and> length s = 64 \<or> n = 12 \<and> length s = 32" and "i < n"
  shows "sint (sc_load n s ! i) = (if i = n - 1 then le_val s div 2 ^ (21 * i) else le_val s div 2 ^ (21 * i) mod 2 ^ 21)"
proof -
  let ?w = "sc_word s (sc_layout ! i)" and ?x = "le_val s div 2 ^ (21 * i)"
  obtain four j k where lay: "sc_layout ! i = (four, j, k)"
    by (cases "sc_layout ! i")
  have i: "i \<in> set [0..<24]" "i < 24"
    using assms by auto
  have facts: "21 \<le> sc_width (sc_layout ! i)" "sc_bytes (sc_layout ! i) \<le> length s"
    using bspec [OF layout_facts(1) i(1)] assms unfolding lay by auto
  have w: "uint ?w = ?x mod 2 ^ sc_width (sc_layout ! i)"
    by (rule sc_word_val [OF i(2) facts(2)])
  show ?thesis
  proof (cases "i = n - 1")
    case True
    have "le_val s < 2 ^ (21 * i + sc_width (sc_layout ! i))"
      using le_val_bounds(2) [of s] assms(1) True layout_facts(2,3) by auto
    then have "?x < 2 ^ sc_width (sc_layout ! i)"
      by (rule div_power_less)
    then have x: "uint ?w = ?x"
      unfolding w using le_val_bounds(1) [of s] by (intro mod_pos_pos_trivial) (simp_all add: pos_imp_zdiv_nonneg_iff)
    have "?x < 2 ^ 63"
      using \<open>?x < 2 ^ sc_width (sc_layout ! i)\<close> assms(1) True layout_facts(2,3) by auto
    then have "sint ?w = ?x"
      using sint_small [of ?w] x by simp
    then show ?thesis
      using True assms(2) by (simp add: sc_load_def Let_def)
  next
    case False
    have "uint (2097151 AND ?w) = ?x mod 2 ^ sc_width (sc_layout ! i) mod 2 ^ 21"
      unfolding uint_mask21 w ..
    also have "\<dots> = ?x mod 2 ^ 21"
      using facts(1) by (intro mod_mod_cancel le_imp_power_dvd)
    finally have "uint (2097151 AND ?w) = ?x mod 2 ^ 21" .
    moreover have "?x mod 2 ^ 21 < 2 ^ 21"
      by simp
    ultimately have "sint (2097151 AND ?w) = ?x mod 2 ^ 21"
      using sint_small [of "2097151 AND ?w"] by simp
    then show ?thesis
      using False assms(2) by (simp add: sc_load_def Let_def)
  qed
qed

lemma length_sc_load [simp]: "length (sc_load n s) = n"
  by (simp add: sc_load_def)

lemma sc_load_sum:
  assumes "n = 24 \<and> length s = 64 \<or> n = 12 \<and> length s = 32"
  shows "(\<Sum>i<n. sint (sc_load n s ! i) * 2 ^ (21 * i)) = le_val s"
proof -
  obtain m where m: "n = Suc m"
    using assms by (cases n) auto
  have "(\<Sum>i<n. sint (sc_load n s ! i) * 2 ^ (21 * i)) =
      (\<Sum>i<m. (le_val s div (2 ^ 21) ^ i mod 2 ^ 21) * (2 ^ 21) ^ i) + le_val s div 2 ^ (21 * m) * 2 ^ (21 * m)"
    unfolding m sum.lessThan_Suc using sc_load_sint [OF assms] by (simp add: m power_mult)
  also have "\<dots> = le_val s mod 2 ^ (21 * m) + le_val s div 2 ^ (21 * m) * 2 ^ (21 * m)"
    unfolding digit_expansion [of "2 ^ 21" "le_val s" m, OF zero_less_power [OF zero_less_numeral]] power_mult ..
  finally show ?thesis
    by (simp only: mod_div_mult_eq)
qed

section \<open>Packing\<close>

text \<open>Twelve limbs, eleven of them digits, hold \<open>v\<close>.\<close>

definition limbs_of :: "int \<Rightarrow> i64 list \<Rightarrow> bool" where
  "limbs_of v s \<longleftrightarrow> (\<forall>i<12. sint (s ! i) = (if i = 11 then v div 2 ^ 231 else v div 2 ^ (21 * i) mod 2 ^ 21))"

lemma limb_bit:
  assumes "limbs_of v s" and "i < 12" and "m < 64"
  shows "bit (s ! i) m \<longleftrightarrow> (i = 11 \<or> m < 21) \<and> bit v (21 * i + m)"
proof -
  have "bit (s ! i) m \<longleftrightarrow> bit (sint (s ! i)) m"
    using assms(3) by (simp add: bit_sint_iff)
  also have "\<dots> \<longleftrightarrow> (i = 11 \<or> m < 21) \<and> bit v (21 * i + m)"
  proof -
    have "sint (s ! i) = (if i = 11 then drop_bit 231 v else take_bit 21 (drop_bit (21 * i) v))"
      using assms(1,2) by (simp add: limbs_of_def take_bit_eq_mod drop_bit_eq_div)
    then show ?thesis
      by (auto simp: bit_simps)
  qed
  finally show ?thesis .
qed

lemma byte_of_bits:
  assumes "\<And>m. m < 8 \<Longrightarrow> bit (b :: byte) m \<longleftrightarrow> bit v (n + m)"
  shows "uint b = v div 2 ^ n mod 256"
proof -
  have "uint b = take_bit 8 (drop_bit n v)"
    using assms bit_imp_le_length [of b] by (intro bit_eqI) (auto simp: bit_simps)
  then show ?thesis
    by (simp add: take_bit_eq_mod drop_bit_eq_div)
qed

lemma pack_single:
  assumes "limbs_of v s" and "i < 12" and "n + 8 \<le> 21 \<or> i = 11 \<and> n < 56"
  shows "uint (ucast (signed_drop_bit n (s ! i)) :: byte) = v div 2 ^ (21 * i + n) mod 256"
proof (rule byte_of_bits)
  fix m :: nat
  assume "m < 8"
  then show "bit (ucast (signed_drop_bit n (s ! i)) :: byte) m \<longleftrightarrow> bit v (21 * i + n + m)"
    using assms(3) limb_bit [OF assms(1,2), of "n + m"] by (auto simp: bit_simps add.assoc)
qed

lemma pack_join:
  assumes "limbs_of v s" and "i < 11" and "n + k = 21" and "k < 8" and "j = i + 1"
  shows "uint (ucast (signed_drop_bit n (s ! i) OR push_bit k (s ! j)) :: byte) = v div 2 ^ (21 * i + n) mod 256"
  unfolding assms(5)
proof (rule byte_of_bits)
  fix m :: nat
  assume m: "m < 8"
  have "bit (ucast (signed_drop_bit n (s ! i) OR push_bit k (s ! (i + 1))) :: byte) m \<longleftrightarrow>
      bit (s ! i) (n + m) \<or> k \<le> m \<and> bit (s ! (i + 1)) (m - k)"
    using m assms(3) by (auto simp: bit_simps)
  also have "\<dots> \<longleftrightarrow> bit v (21 * i + n + m)"
  proof (cases "k \<le> m")
    case True
    then have pos: "21 * (i + 1) + (m - k) = 21 * i + n + m"
      using assms(3) by simp
    have "\<not> bit (s ! i) (n + m)"
      using limb_bit [OF assms(1), of i "n + m"] assms(2-4) m True by simp
    moreover have "bit (s ! (i + 1)) (m - k) \<longleftrightarrow> bit v (21 * i + n + m)"
      using limb_bit [OF assms(1), of "i + 1" "m - k", unfolded pos] assms(2) less_imp_diff_less [OF m, of k] by simp
    ultimately show ?thesis
      using True by simp
  next
    case False
    then show ?thesis
      using limb_bit [OF assms(1), of i "n + m"] assms(2-4) m by (simp add: add.assoc)
  qed
  finally show "bit (ucast (signed_drop_bit n (s ! i) OR push_bit k (s ! (i + 1))) :: byte) m \<longleftrightarrow> bit v (21 * i + n + m)" .
qed

lemma sc_pack_val:
  assumes "limbs_of v s" and "0 \<le> v" and "v < 2 ^ 256"
  shows "le_val (sc_pack s) = v" and "length (sc_pack s) = 32"
proof -
  show len: "length (sc_pack s) = 32"
    by (simp add: sc_pack_def Let_def)
  note single = pack_single [OF assms(1)] and join = pack_join [OF assms(1)]
  have bytes:
    "uint (ucast (signed_drop_bit 0 (s ! 0)) :: byte) = v div 2 ^ 0 mod 256"
    "uint (ucast (signed_drop_bit 8 (s ! 0)) :: byte) = v div 2 ^ 8 mod 256"
    "uint (ucast (signed_drop_bit 16 (s ! 0) OR push_bit 5 (s ! 1)) :: byte) = v div 2 ^ 16 mod 256"
    "uint (ucast (signed_drop_bit 3 (s ! 1)) :: byte) = v div 2 ^ 24 mod 256"
    "uint (ucast (signed_drop_bit 11 (s ! 1)) :: byte) = v div 2 ^ 32 mod 256"
    "uint (ucast (signed_drop_bit 19 (s ! 1) OR push_bit 2 (s ! 2)) :: byte) = v div 2 ^ 40 mod 256"
    "uint (ucast (signed_drop_bit 6 (s ! 2)) :: byte) = v div 2 ^ 48 mod 256"
    "uint (ucast (signed_drop_bit 14 (s ! 2) OR push_bit 7 (s ! 3)) :: byte) = v div 2 ^ 56 mod 256"
    "uint (ucast (signed_drop_bit 1 (s ! 3)) :: byte) = v div 2 ^ 64 mod 256"
    "uint (ucast (signed_drop_bit 9 (s ! 3)) :: byte) = v div 2 ^ 72 mod 256"
    "uint (ucast (signed_drop_bit 17 (s ! 3) OR push_bit 4 (s ! 4)) :: byte) = v div 2 ^ 80 mod 256"
    "uint (ucast (signed_drop_bit 4 (s ! 4)) :: byte) = v div 2 ^ 88 mod 256"
    "uint (ucast (signed_drop_bit 12 (s ! 4)) :: byte) = v div 2 ^ 96 mod 256"
    "uint (ucast (signed_drop_bit 20 (s ! 4) OR push_bit 1 (s ! 5)) :: byte) = v div 2 ^ 104 mod 256"
    "uint (ucast (signed_drop_bit 7 (s ! 5)) :: byte) = v div 2 ^ 112 mod 256"
    "uint (ucast (signed_drop_bit 15 (s ! 5) OR push_bit 6 (s ! 6)) :: byte) = v div 2 ^ 120 mod 256"
    "uint (ucast (signed_drop_bit 2 (s ! 6)) :: byte) = v div 2 ^ 128 mod 256"
    "uint (ucast (signed_drop_bit 10 (s ! 6)) :: byte) = v div 2 ^ 136 mod 256"
    "uint (ucast (signed_drop_bit 18 (s ! 6) OR push_bit 3 (s ! 7)) :: byte) = v div 2 ^ 144 mod 256"
    "uint (ucast (signed_drop_bit 5 (s ! 7)) :: byte) = v div 2 ^ 152 mod 256"
    "uint (ucast (signed_drop_bit 13 (s ! 7)) :: byte) = v div 2 ^ 160 mod 256"
    "uint (ucast (signed_drop_bit 0 (s ! 8)) :: byte) = v div 2 ^ 168 mod 256"
    "uint (ucast (signed_drop_bit 8 (s ! 8)) :: byte) = v div 2 ^ 176 mod 256"
    "uint (ucast (signed_drop_bit 16 (s ! 8) OR push_bit 5 (s ! 9)) :: byte) = v div 2 ^ 184 mod 256"
    "uint (ucast (signed_drop_bit 3 (s ! 9)) :: byte) = v div 2 ^ 192 mod 256"
    "uint (ucast (signed_drop_bit 11 (s ! 9)) :: byte) = v div 2 ^ 200 mod 256"
    "uint (ucast (signed_drop_bit 19 (s ! 9) OR push_bit 2 (s ! 10)) :: byte) = v div 2 ^ 208 mod 256"
    "uint (ucast (signed_drop_bit 6 (s ! 10)) :: byte) = v div 2 ^ 216 mod 256"
    "uint (ucast (signed_drop_bit 14 (s ! 10) OR push_bit 7 (s ! 11)) :: byte) = v div 2 ^ 224 mod 256"
    "uint (ucast (signed_drop_bit 1 (s ! 11)) :: byte) = v div 2 ^ 232 mod 256"
    "uint (ucast (signed_drop_bit 9 (s ! 11)) :: byte) = v div 2 ^ 240 mod 256"
    "uint (ucast (signed_drop_bit 17 (s ! 11)) :: byte) = v div 2 ^ 248 mod 256"
    by (rule trans [OF single], simp, simp, simp | rule trans [OF join], simp, simp, simp, simp, simp)+
  have
    "map uint (sc_pack s) = [v div 2 ^ 0 mod 256, v div 2 ^ 8 mod 256, v div 2 ^ 16 mod 256, v div 2 ^ 24 mod 256, v div 2 ^ 32 mod 256, 
      v div 2 ^ 40 mod 256, v div 2 ^ 48 mod 256, v div 2 ^ 56 mod 256, v div 2 ^ 64 mod 256, v div 2 ^ 72 mod 256, 
      v div 2 ^ 80 mod 256, v div 2 ^ 88 mod 256, v div 2 ^ 96 mod 256, v div 2 ^ 104 mod 256, v div 2 ^ 112 mod 256, 
      v div 2 ^ 120 mod 256, v div 2 ^ 128 mod 256, v div 2 ^ 136 mod 256, v div 2 ^ 144 mod 256, v div 2 ^ 152 mod 256, 
      v div 2 ^ 160 mod 256, v div 2 ^ 168 mod 256, v div 2 ^ 176 mod 256, v div 2 ^ 184 mod 256, v div 2 ^ 192 mod 256, 
      v div 2 ^ 200 mod 256, v div 2 ^ 208 mod 256, v div 2 ^ 216 mod 256, v div 2 ^ 224 mod 256, v div 2 ^ 232 mod 256, 
      v div 2 ^ 240 mod 256, v div 2 ^ 248 mod 256]"
    unfolding sc_pack_def Let_def list.map by (simp only: bytes)
  also have "\<dots> = map (\<lambda>j. v div 256 ^ j mod 256) [0..<32]"
    by (simp add: upt_rec)
  finally have "uint (sc_pack s ! j) = v div 256 ^ j mod 256" if "j < 32" for j
    using that len by (simp add: list_eq_iff_nth_eq)
  then have "le_val (sc_pack s) = v mod 256 ^ 32"
    using digit_expansion [of 256 v 32] by (simp add: le_val_sum len)
  then show "le_val (sc_pack s) = v"
    using assms(2,3) by simp
qed

section \<open>Reduction and multiply-add\<close>

lemma limbs_of_digits:
  assumes "length s = 24" and "digits_below 11 (map sint s)" and "\<forall>i. 12 \<le> i \<longrightarrow> i < 24 \<longrightarrow> map sint s ! i = 0"
  shows "limbs_of (sc_val (map sint s)) s"
proof -
  let ?t = "map sint s"
  have "?t ! i = sc_val ?t div 2 ^ (21 * i) mod 2 ^ 21" if "i < 11" for i
  proof -
    have digit: "0 \<le> ?t ! j \<and> ?t ! j < 2 ^ 21" if "j < 11" for j
      using assms(2) that by (simp only: digits_below_def)
    let ?low = "\<Sum>j<i. ?t ! j * 2 ^ (21 * j)" and ?high = "\<Sum>j\<in>{Suc i..<24}. ?t ! j * 2 ^ (21 * (j - Suc i))"
    have "sc_val ?t = ?low + ?t ! i * 2 ^ (21 * i) + (\<Sum>j\<in>{Suc i..<24}. ?t ! j * 2 ^ (21 * j))"
      unfolding sc_val_def using that by (simp only: lessThan_atLeast0 sum.atLeastLessThan_concat [of 0 "Suc i" 24, symmetric] sum.atLeast0_lessThan_Suc)
    also have "(\<Sum>j\<in>{Suc i..<24}. ?t ! j * 2 ^ (21 * j)) = 2 ^ (21 * i) * (2 ^ 21 * ?high)"
      unfolding sum_distrib_left
    proof (rule sum.cong [OF refl])
      fix j
      assume "j \<in> {Suc i..<24}"
      then have "21 * j = 21 * i + (21 + 21 * (j - Suc i))"
        by auto
      then have "(2 :: int) ^ (21 * j) = 2 ^ (21 * i) * (2 ^ 21 * 2 ^ (21 * (j - Suc i)))"
        by (metis power_add)
      then show "?t ! j * 2 ^ (21 * j) = 2 ^ (21 * i) * (2 ^ 21 * (?t ! j * 2 ^ (21 * (j - Suc i))))"
        by (simp only: ac_simps)
    qed
    finally have "sc_val ?t = ?low + (?t ! i + 2 ^ 21 * ?high) * 2 ^ (21 * i)"
      by (simp only: distrib_left distrib_right ac_simps)
    moreover have "0 \<le> ?low" "?low < 2 ^ (21 * i)"
      using digits_sum [of i ?t] digit that by simp_all
    ultimately have "sc_val ?t div 2 ^ (21 * i) = ?t ! i + 2 ^ 21 * ?high"
      by (simp add: div_pos_pos_trivial)
    then show ?thesis
      using digit [OF that] by (simp add: mod_pos_pos_trivial)
  qed
  moreover have "?t ! 11 = sc_val ?t div 2 ^ 231"
    using sc_val_split(1) [OF assms(2)] assms(3) by simp
  ultimately show ?thesis
    using assms(1) unfolding limbs_of_def by (auto simp: less_Suc_eq numeral_eq_Suc)
qed

lemma reduced_bytes:
  assumes "within bs (map sint s)" and "reducible bs"
  shows "le_val (sc_pack (fold sc_exec reduce_steps s)) = sc_val (map sint s) mod group_order"
    and "length (sc_pack (fold sc_exec reduce_steps s)) = 32"
proof -
  let ?u = "fold sc_exec reduce_steps s"
  note red = reduce_ok [OF assms]
  have limbs: "limbs_of (sc_val (map sint s) mod group_order) ?u"
    using limbs_of_digits [of ?u] red by simp
  have range: "0 \<le> sc_val (map sint s) mod group_order" "sc_val (map sint s) mod group_order < 2 ^ 256"
    using pos_mod_bound [of group_order "sc_val (map sint s)"] by (simp_all add: group_order_def)
  show "le_val (sc_pack ?u) = sc_val (map sint s) mod group_order" "length (sc_pack ?u) = 32"
    by (rule sc_pack_val [OF limbs range])+
qed

lemma load24_within: "length s = 64 \<Longrightarrow> within load_bounds24 (map sint (sc_load 24 s))"
proof -
  assume len: "length s = 64"
  have "\<bar>sint (sc_load 24 s ! i)\<bar> \<le> load_bounds24 ! i" if "i < 24" for i
  proof (cases "i = 23")
    case True
    have "le_val s div 2 ^ 483 < 2 ^ 29" "0 \<le> le_val s div 2 ^ 483"
      using div_power_less [of "le_val s" 483 29] le_val_bounds [of s] len by (simp_all add: pos_imp_zdiv_nonneg_iff)
    then show ?thesis
      using sc_load_sint [of 24 s i] True len by (simp add: load_bounds24_def nth_append)
  next
    case False
    have "le_val s div 2 ^ (21 * i) mod 2 ^ 21 < 2 ^ 21" "0 \<le> le_val s div 2 ^ (21 * i) mod 2 ^ 21"
      by simp_all
    then have "\<bar>le_val s div 2 ^ (21 * i) mod 2 ^ 21\<bar> \<le> 2 ^ 21 - 1"
      by linarith
    then show ?thesis
      using sc_load_sint [of 24 s i] False that len by (simp add: load_bounds24_def nth_append)
  qed
  then show ?thesis
    by (simp add: within_def) (simp add: load_bounds24_def)
qed

lemma sc_reduce_ok: "length s = 64 \<Longrightarrow> le_val (sc_reduce s) = le_val s mod group_order \<and> length (sc_reduce s) = 32"
proof -
  assume len: "length s = 64"
  have "sc_val (map sint (sc_load 24 s)) = le_val s"
    using sc_load_sum [of 24 s] len by (simp add: sc_val_def)
  then show ?thesis
    using reduced_bytes [OF load24_within [OF len] reducible_inputs(1)] by (simp only: sc_reduce_def)
qed

text \<open>The schoolbook product of two twelve-limb numbers.\<close>

definition product_int :: "int list \<Rightarrow> int list \<Rightarrow> int list \<Rightarrow> nat \<Rightarrow> int" where
  "product_int a b c k = (if k < 12 then c ! k else 0) + sum_list (map (\<lambda>i. a ! i * b ! (k - i)) [k - 11..<min 12 (k + 1)])"

lemma product_terms: "(\<Sum>k<23. \<Sum>i\<in>{k - 11..<min 12 (k + 1)}. f i (k - i)) = (\<Sum>i<12. \<Sum>j<12. f i (j :: nat) :: int)"
proof -
  have "(\<Sum>k<23. \<Sum>i\<in>{k - 11..<min 12 (k + 1)}. f i (k - i)) =
      (\<Sum>(k, i)\<in>(SIGMA k:{..<23}. {k - 11..<min 12 (k + 1)}). f i (k - i))"
    by (rule sum.Sigma) auto
  also have "\<dots> = (\<Sum>(i, j)\<in>{..<12} \<times> {..<12}. f i j)"
    by (rule sum.reindex_bij_witness [where j = "\<lambda>(k, i). (i, k - i)" and i = "\<lambda>(i, j). (i + j, i)"]) auto
  finally show ?thesis
    by (simp add: sum.cartesian_product)
qed

lemma product_int_val:
  "sc_val (map (product_int a b c) [0..<23] @ [0]) =
     (\<Sum>i<12. a ! i * 2 ^ (21 * i)) * (\<Sum>i<12. b ! i * 2 ^ (21 * i)) + (\<Sum>i<12. c ! i * 2 ^ (21 * i))"
proof -
  have "sc_val (map (product_int a b c) [0..<23] @ [0]) = (\<Sum>k<23. product_int a b c k * 2 ^ (21 * k))"
  proof -
    have "sc_val (map (product_int a b c) [0..<23] @ [0]) = (\<Sum>k<Suc 23. (map (product_int a b c) [0..<23] @ [0]) ! k * 2 ^ (21 * k))"
      by (simp add: sc_val_def)
    also have "\<dots> = (\<Sum>k<23. product_int a b c k * 2 ^ (21 * k))"
      unfolding sum.lessThan_Suc by (simp add: nth_append)
    finally show ?thesis .
  qed
  also have "\<dots> = (\<Sum>k<23. (if k < 12 then c ! k else 0) * 2 ^ (21 * k)) +
      (\<Sum>k<23. \<Sum>i\<in>{k - 11..<min 12 (k + 1)}. a ! i * b ! (k - i) * 2 ^ (21 * i + 21 * (k - i)))"
    unfolding product_int_def sum.distrib [symmetric]
  proof (rule sum.cong [OF refl])
    fix k
    have "sum_list (map (\<lambda>i. a ! i * b ! (k - i)) [k - 11..<min 12 (k + 1)]) * 2 ^ (21 * k) =
        (\<Sum>i\<in>{k - 11..<min 12 (k + 1)}. a ! i * b ! (k - i) * 2 ^ (21 * k))"
      by (simp only: sum_set_upt_conv_sum_list_nat [symmetric] sum_distrib_right set_upt)
    also have "\<dots> = (\<Sum>i\<in>{k - 11..<min 12 (k + 1)}. a ! i * b ! (k - i) * 2 ^ (21 * i + 21 * (k - i)))"
    proof (rule sum.cong [OF refl])
      fix i
      assume "i \<in> {k - 11..<min 12 (k + 1)}"
      then have "21 * k = 21 * i + 21 * (k - i)"
        by auto
      then show "a ! i * b ! (k - i) * 2 ^ (21 * k) = a ! i * b ! (k - i) * 2 ^ (21 * i + 21 * (k - i))"
        by simp
    qed
    finally show "((if k < 12 then c ! k else 0) + sum_list (map (\<lambda>i. a ! i * b ! (k - i)) [k - 11..<min 12 (k + 1)])) * 2 ^ (21 * k) =
        (if k < 12 then c ! k else 0) * 2 ^ (21 * k) +
        (\<Sum>i\<in>{k - 11..<min 12 (k + 1)}. a ! i * b ! (k - i) * 2 ^ (21 * i + 21 * (k - i)))"
      by (simp only: distrib_right)
  qed
  also have "(\<Sum>k<23. (if k < 12 then c ! k else 0) * 2 ^ (21 * k)) = (\<Sum>k<12. c ! k * 2 ^ (21 * k))"
    by (rule sum.mono_neutral_cong_right) auto
  also have "(\<Sum>k<23. \<Sum>i\<in>{k - 11..<min 12 (k + 1)}. a ! i * b ! (k - i) * 2 ^ (21 * i + 21 * (k - i))) =
      (\<Sum>i<12. \<Sum>j<12. a ! i * b ! j * 2 ^ (21 * i + 21 * j))"
    by (rule product_terms)
  also have "\<dots> = (\<Sum>i<12. a ! i * 2 ^ (21 * i)) * (\<Sum>i<12. b ! i * 2 ^ (21 * i))"
    by (simp add: sum_product power_add ac_simps)
  finally show ?thesis
    by simp
qed

text \<open>On words: the loaded limbs are small enough for the products and their sums.\<close>

definition operand :: "int list \<Rightarrow> bool" where
  "operand a \<longleftrightarrow> (\<forall>i<12. 0 \<le> a ! i \<and> a ! i < (if i = 11 then 2 ^ 25 else 2 ^ 21))"

lemma load12_operand: "length s = 32 \<Longrightarrow> operand (map sint (sc_load 12 s))"
proof -
  assume len: "length s = 32"
  have "0 \<le> sint (sc_load 12 s ! i) \<and> sint (sc_load 12 s ! i) < (if i = 11 then 2 ^ 25 else 2 ^ 21)" if "i < 12" for i
  proof (cases "i = 11")
    case True
    have "le_val s div 2 ^ 231 < 2 ^ 25" "0 \<le> le_val s div 2 ^ 231"
      using div_power_less [of "le_val s" 231 25] le_val_bounds [of s] len by (simp_all add: pos_imp_zdiv_nonneg_iff)
    then show ?thesis
      using sc_load_sint [of 12 s i] True len by simp
  next
    case False
    then show ?thesis
      using sc_load_sint [of 12 s i] that len by simp
  qed
  then show ?thesis
    by (simp add: operand_def)
qed

lemma word_of_int_sum_list: "word_of_int (sum_list (map f xs)) = sum_list (map (\<lambda>i. word_of_int (f i)) xs)"
  by (induction xs) simp_all

lemma sc_product_word:
  assumes "length a = 12" and "length b = 12" and "length c = 12"
  shows "sc_product a b c k = word_of_int (product_int (map sint a) (map sint b) (map sint c) k)"
proof -
  have "map (\<lambda>i. a ! i * b ! (k - i)) [k - 11..<min 12 (k + 1)] =
      map (\<lambda>i. word_of_int (map sint a ! i * map sint b ! (k - i))) [k - 11..<min 12 (k + 1)]"
    using assms by (intro map_cong refl) auto
  moreover have "(if k < 12 then c ! k else 0) = word_of_int (if k < 12 then map sint c ! k else 0)"
    using assms(3) by simp
  ultimately show ?thesis
    unfolding sc_product_def product_int_def by (simp only: word_of_int_plus word_of_int_sum_list)
qed

lemma sum_list_abs_le: "(\<And>i. i \<in> set xs \<Longrightarrow> \<bar>f i\<bar> \<le> g i) \<Longrightarrow> \<bar>sum_list (map f xs)\<bar> \<le> (sum_list (map g xs) :: int)"
  by (induction xs) (auto intro: abs_sum_le)

lemma product_within:
  assumes "operand a" and "operand b" and "operand c"
  shows "within scalar_product_bounds (map (product_int a b c) [0..<23] @ [0])"
proof -
  have op: "\<bar>x ! i\<bar> \<le> (if i = 11 then 2 ^ 25 else 2 ^ 21)" if "operand x" "i < 12" for x i
    using that by (auto simp: operand_def)
  have "\<bar>product_int a b c k\<bar> \<le> scalar_product_bounds ! k" if "k < 23" for k
  proof -
    have "\<bar>if k < 12 then c ! k else 0\<bar> \<le> (if k < 12 then 2 ^ 25 else 0)"
      using op [OF assms(3), of k] by (auto split: if_splits)
    moreover have "\<bar>sum_list (map (\<lambda>i. a ! i * b ! (k - i)) [k - 11..<min 12 (k + 1)])\<bar> \<le>
        sum_list (map (\<lambda>i. (if i = 11 then 2 ^ 25 else 2 ^ 21) * (if k - i = 11 then 2 ^ 25 else 2 ^ 21)) [k - 11..<min 12 (k + 1)])"
    proof (rule sum_list_abs_le)
      fix i
      assume "i \<in> set [k - 11..<min 12 (k + 1)]"
      then have "i < 12" "k - i < 12"
        by auto
      then show "\<bar>a ! i * b ! (k - i)\<bar> \<le> (if i = 11 then 2 ^ 25 else 2 ^ 21) * (if k - i = 11 then 2 ^ 25 else 2 ^ 21)"
        unfolding abs_mult by (intro mult_mono op assms(1,2)) simp_all
    qed
    ultimately have "\<bar>product_int a b c k\<bar> \<le> product_bound k"
      unfolding product_int_def product_bound_def by (rule abs_sum_le)
    then show ?thesis
      using that by (simp add: scalar_product_bounds_def nth_append)
  qed
  moreover have "scalar_product_bounds ! 23 = 0" "length scalar_product_bounds = 24"
    by (simp_all add: scalar_product_bounds_def nth_append)
  ultimately show ?thesis
    unfolding within_def
  proof (intro conjI allI impI)
    fix i :: nat
    assume bound: "\<And>k. k < 23 \<Longrightarrow> \<bar>product_int a b c k\<bar> \<le> scalar_product_bounds ! k" and top: "scalar_product_bounds ! 23 = 0" and "i < 24"
    then consider "i < 23" | "i = 23"
      by linarith
    then show "\<bar>(map (product_int a b c) [0..<23] @ [0]) ! i\<bar> \<le> scalar_product_bounds ! i"
      by cases (simp_all add: nth_append bound top)
  qed simp_all
qed

lemma sc_muladd_ok:
  assumes "length a = 32" and "length b = 32" and "length c = 32"
  shows "le_val (sc_muladd a b c) = (le_val a * le_val b + le_val c) mod group_order \<and> length (sc_muladd a b c) = 32"
proof -
  let ?a = "sc_load 12 a" and ?b = "sc_load 12 b" and ?c = "sc_load 12 c"
  let ?p = "map (sc_product ?a ?b ?c) [0..<23] @ [0]" and ?q = "map (product_int (map sint ?a) (map sint ?b) (map sint ?c)) [0..<23] @ [0]"
  have w: "within scalar_product_bounds ?q"
    by (intro product_within load12_operand assms)
  have "?p = map word_of_int ?q"
    by (simp add: sc_product_word)
  moreover have "small_bounds scalar_product_bounds"
    by code_simp
  ultimately have ints: "map sint ?p = ?q"
    using words_within [OF w] by (simp only:)
  let ?r = "fold sc_exec round_products ?p"
  have r: "map sint ?r = fold exec_int round_products ?q" "within (fold exec_bound round_products scalar_product_bounds) (map sint ?r)"
    using steps_refine [of scalar_product_bounds ?p round_products] w reducible_inputs(2) unfolding ints by simp_all
  have "sc_val ?q = le_val a * le_val b + le_val c"
    using sc_load_sum [of 12 a] sc_load_sum [of 12 b] sc_load_sum [of 12 c] assms by (simp add: product_int_val)
  moreover have "sc_val (map sint ?r) mod group_order = sc_val ?q mod group_order"
    using fold_exec_int_val [OF _ steps_ok_steps [OF reducible_inputs(2)], of ?q] w unfolding r(1) by (simp only: within_def)
  ultimately show ?thesis
    using reduced_bytes [OF r(2) reducible_inputs(3)] by (simp only: sc_muladd_def fold_append o_apply simp_thms)
qed

text \<open>
  C32: Scalar arithmetic is exact and canonical: \<open>sc_reduce\<close> writes the 32 bytes of its 64-byte
  input modulo the group order, and \<open>sc_muladd\<close> those of $ab + c$, the least non-negative residue
  in both cases; no sum of products and no carry overflows a signed 64-bit word on any input.
\<close>

theorem scalar_arithmetic_exact:
  assumes "length s = 64" and "length a = 32" and "length b = 32" and "length c = 32"
  shows "le_val (sc_reduce s) = le_val s mod group_order \<and> length (sc_reduce s) = 32 \<and>
    le_val (sc_muladd a b c) = (le_val a * le_val b + le_val c) mod group_order \<and> length (sc_muladd a b c) = 32"
  using sc_reduce_ok [OF assms(1)] sc_muladd_ok [OF assms(2-4)] by blast

theorem scalar_arithmetic_exact_witness:
  "le_val (sc_reduce (replicate 64 255)) = (2 ^ 512 - 1) mod group_order \<and>
   le_val (sc_muladd (replicate 32 255) (replicate 32 255) (replicate 32 255)) = ((2 ^ 256 - 1) * (2 ^ 256 - 1) + (2 ^ 256 - 1)) mod group_order"
proof -
  have "le_val (replicate n 255) = 256 ^ n - 1" for n
    by (induction n) simp_all
  then have "le_val (replicate 64 255) = 2 ^ 512 - 1" "le_val (replicate 32 255) = 2 ^ 256 - 1"
    by simp_all
  then show ?thesis
    using scalar_arithmetic_exact [of "replicate 64 255" "replicate 32 255" "replicate 32 255" "replicate 32 255"] by simp
qed

end
