(* ===== verification/Sha512.thy ===== *)
theory Sha512
  imports Prelude
begin

text \<open>
  SHA-512 (\<open>orlp_ed25519/sha512.c\<close>): the compression function, the block buffer with its three
  operations, and the hash of a whole message.  The pointers are never NULL in this program, so
  the argument checks of the source have no branch here; \<open>update\<close> and \<open>final\<close> keep their check
  of \<open>curlen\<close>, and \<open>None\<close> is their return value 1.
\<close>

section \<open>Compression\<close>

definition K512 :: "u64 list" where
  "K512 =
    [0x428a2f98d728ae22, 0x7137449123ef65cd, 0xb5c0fbcfec4d3b2f, 0xe9b5dba58189dbbc,
     0x3956c25bf348b538, 0x59f111f1b605d019, 0x923f82a4af194f9b, 0xab1c5ed5da6d8118,
     0xd807aa98a3030242, 0x12835b0145706fbe, 0x243185be4ee4b28c, 0x550c7dc3d5ffb4e2,
     0x72be5d74f27b896f, 0x80deb1fe3b1696b1, 0x9bdc06a725c71235, 0xc19bf174cf692694,
     0xe49b69c19ef14ad2, 0xefbe4786384f25e3, 0x0fc19dc68b8cd5b5, 0x240ca1cc77ac9c65,
     0x2de92c6f592b0275, 0x4a7484aa6ea6e483, 0x5cb0a9dcbd41fbd4, 0x76f988da831153b5,
     0x983e5152ee66dfab, 0xa831c66d2db43210, 0xb00327c898fb213f, 0xbf597fc7beef0ee4,
     0xc6e00bf33da88fc2, 0xd5a79147930aa725, 0x06ca6351e003826f, 0x142929670a0e6e70,
     0x27b70a8546d22ffc, 0x2e1b21385c26c926, 0x4d2c6dfc5ac42aed, 0x53380d139d95b3df,
     0x650a73548baf63de, 0x766a0abb3c77b2a8, 0x81c2c92e47edaee6, 0x92722c851482353b,
     0xa2bfe8a14cf10364, 0xa81a664bbc423001, 0xc24b8b70d0f89791, 0xc76c51a30654be30,
     0xd192e819d6ef5218, 0xd69906245565a910, 0xf40e35855771202a, 0x106aa07032bbd1b8,
     0x19a4c116b8d2d0c8, 0x1e376c085141ab53, 0x2748774cdf8eeb99, 0x34b0bcb5e19b48a8,
     0x391c0cb3c5c95a63, 0x4ed8aa4ae3418acb, 0x5b9cca4f7763e373, 0x682e6ff3d6b2b8a3,
     0x748f82ee5defb2fc, 0x78a5636f43172f60, 0x84c87814a1f0ab72, 0x8cc702081a6439ec,
     0x90befffa23631e28, 0xa4506cebde82bde9, 0xbef9a3f7b2c67915, 0xc67178f2e372532b,
     0xca273eceea26619c, 0xd186b8c721c0c207, 0xeada7dd6cde0eb1e, 0xf57d4f7fee6ed178,
     0x06f067aa72176fba, 0x0a637dc5a2c898a6, 0x113f9804bef90dae, 0x1b710b35131c471b,
     0x28db77f523047d84, 0x32caab7b40c72493, 0x3c9ebe0a15c9bebc, 0x431d67c49c100d4c,
     0x4cc5d4becb3e42b6, 0x597f299cfc657e2a, 0x5fcb6fab3ad6faec, 0x6c44198c4a475817]"

definition ROR64c :: "u64 \<Rightarrow> nat \<Rightarrow> u64" where
  "ROR64c x y = drop_bit (y mod 64) x OR push_bit (64 - y mod 64) x"

definition LOAD64H :: "bytes \<Rightarrow> nat \<Rightarrow> u64" where
  "LOAD64H y i =
     push_bit 56 (ucast (y ! i)) OR push_bit 48 (ucast (y ! (i + 1))) OR push_bit 40 (ucast (y ! (i + 2))) OR push_bit 32 (ucast (y ! (i + 3))) OR
     push_bit 24 (ucast (y ! (i + 4))) OR push_bit 16 (ucast (y ! (i + 5))) OR push_bit 8 (ucast (y ! (i + 6))) OR ucast (y ! (i + 7))"

definition STORE64H :: "u64 \<Rightarrow> bytes" where
  "STORE64H x = map ucast [drop_bit 56 x, drop_bit 48 x, drop_bit 40 x, drop_bit 32 x, drop_bit 24 x, drop_bit 16 x, drop_bit 8 x, x]"

definition Ch :: "u64 \<Rightarrow> u64 \<Rightarrow> u64 \<Rightarrow> u64" where
  "Ch x y z = (z XOR (x AND (y XOR z)))"

definition Maj :: "u64 \<Rightarrow> u64 \<Rightarrow> u64 \<Rightarrow> u64" where
  "Maj x y z = (((x OR y) AND z) OR (x AND y))"

definition Sigma0 :: "u64 \<Rightarrow> u64" where
  "Sigma0 x = (ROR64c x 28 XOR ROR64c x 34 XOR ROR64c x 39)"

definition Sigma1 :: "u64 \<Rightarrow> u64" where
  "Sigma1 x = (ROR64c x 14 XOR ROR64c x 18 XOR ROR64c x 41)"

definition Gamma0 :: "u64 \<Rightarrow> u64" where
  "Gamma0 x = (ROR64c x 1 XOR ROR64c x 8 XOR drop_bit 7 x)"

definition Gamma1 :: "u64 \<Rightarrow> u64" where
  "Gamma1 x = (ROR64c x 19 XOR ROR64c x 61 XOR drop_bit 6 x)"

text \<open>
  \<open>RND\<close> is called with the eight registers in place, one position further to the right each
  time: \<open>a\<close> is \<open>S[(8 - j) mod 8]\<close> in call \<open>j\<close> of an unrolled group of eight.
\<close>

definition RND :: "u64 list \<Rightarrow> nat \<Rightarrow> u64 list \<Rightarrow> u64 list" where
  "RND W i S =
     (let at = (\<lambda>k. (k + 8 - i mod 8) mod 8); a = S ! at 0; b = S ! at 1; c = S ! at 2; d = S ! at 3;
        e = S ! at 4; f = S ! at 5; g = S ! at 6; h = S ! at 7;
        t0 = h + Sigma1 e + Ch e f g + K512 ! i + W ! i; t1 = Sigma0 a + Maj a b c
      in S[at 3 := d + t0, at 7 := t0 + t1])"

definition extend_W :: "nat \<Rightarrow> u64 list \<Rightarrow> u64 list" where
  "extend_W i W = W @ [Gamma1 (W ! (i - 2)) + W ! (i - 7) + Gamma0 (W ! (i - 15)) + W ! (i - 16)]"

definition schedule :: "bytes \<Rightarrow> u64 list" where
  "schedule buf = fold extend_W [16..<80] (map (\<lambda>i. LOAD64H buf (8 * i)) [0..<16])"

definition sha512_compress :: "u64 list \<Rightarrow> bytes \<Rightarrow> u64 list" where
  "sha512_compress state buf = (let S = fold (RND (schedule buf)) [0..<80] state in map2 (+) state S)"

section \<open>The context\<close>

record sha512_context =
  bit_length :: u64
  state :: "u64 list"
  curlen :: nat
  buf :: bytes

definition sha512_iv :: "u64 list" where
  "sha512_iv =
    [0x6a09e667f3bcc908, 0xbb67ae8584caa73b, 0x3c6ef372fe94f82b, 0xa54ff53a5f1d36f1,
     0x510e527fade682d1, 0x9b05688c2b3e6c1f, 0x1f83d9abfb41bd6b, 0x5be0cd19137e2179]"

text \<open>\<open>init\<close> leaves \<open>buf\<close> as it was, uninitialised memory of the caller.\<close>

definition sha512_init :: "sha512_context \<Rightarrow> sha512_context" where
  "sha512_init md = md\<lparr>curlen := 0, bit_length := 0, state := sha512_iv\<rparr>"

text \<open>The inner loop of \<open>update\<close>: \<open>n\<close> bytes of the input to position \<open>at\<close> of the buffer.\<close>

definition fill :: "bytes \<Rightarrow> nat \<Rightarrow> nat \<Rightarrow> bytes \<Rightarrow> bytes" where
  "fill inp n at b = fold (\<lambda>i b. b[i + at := inp ! i]) [0..<n] b"

definition compress_buf :: "sha512_context \<Rightarrow> sha512_context" where
  "compress_buf md = md\<lparr>state := sha512_compress (state md) (buf md)\<rparr>"

function update_loop :: "bytes \<Rightarrow> sha512_context \<Rightarrow> sha512_context" where
  "update_loop inp md =
     (if inp = [] \<or> 128 < curlen md then md
      else if curlen md = 0 \<and> 128 \<le> length inp then
        update_loop (drop 128 inp) (md\<lparr>state := sha512_compress (state md) (take 128 inp), bit_length := bit_length md + 128 * 8\<rparr>)
      else
        let n = min (length inp) (128 - curlen md);
            md = md\<lparr>buf := fill inp n (curlen md) (buf md), curlen := curlen md + n\<rparr>
        in update_loop (drop n inp)
             (if curlen md = 128 then (compress_buf md)\<lparr>bit_length := bit_length md + 8 * 128, curlen := 0\<rparr> else md))"
  by pat_completeness auto
termination
  by (relation "measure (\<lambda>(inp, md). 2 * length inp + (if curlen md = 128 then 1 else 0))") (auto simp: Let_def compress_buf_def)

declare update_loop.simps [simp del]

definition sha512_update :: "sha512_context \<Rightarrow> bytes \<Rightarrow> sha512_context option" where
  "sha512_update md inp = (if 128 < curlen md then None else Some (update_loop inp md))"

definition zero_to :: "nat \<Rightarrow> sha512_context \<Rightarrow> sha512_context" where
  "zero_to n md = md\<lparr>buf := fold (\<lambda>i b. b[i := 0]) [curlen md..<n] (buf md), curlen := max n (curlen md)\<rparr>"

definition store_at :: "nat \<Rightarrow> bytes \<Rightarrow> bytes \<Rightarrow> bytes" where
  "store_at i xs b = take i b @ xs @ drop (i + length xs) b"

definition sha512_final :: "sha512_context \<Rightarrow> bytes option" where
  "sha512_final md =
     (if 128 \<le> curlen md then None
      else
        let md = md\<lparr>bit_length := bit_length md + of_nat (curlen md) * 8\<rparr>;
            md = md\<lparr>buf := (buf md)[curlen md := 0x80], curlen := curlen md + 1\<rparr>;
            md = (if 112 < curlen md then (compress_buf (zero_to 128 md))\<lparr>curlen := 0\<rparr> else md);
            md = zero_to 120 md;
            md = compress_buf (md\<lparr>buf := store_at 120 (STORE64H (bit_length md)) (buf md)\<rparr>)
        in Some (concat (map STORE64H (state md))))"

definition sha512 :: "sha512_context \<Rightarrow> bytes \<Rightarrow> bytes option" where
  "sha512 ctx message = (case sha512_update (sha512_init ctx) message of None \<Rightarrow> None | Some md \<Rightarrow> sha512_final md)"

end
