(* ===== verification/Sha512Spec.thy ===== *)
theory Sha512Spec
  imports Sha512
begin

text \<open>
  SHA-512 against FIPS 180-4: the functions and the round of the standard, the equality of the
  compression functions, the invariant of the context (the state is the compression of the whole
  blocks so far, the buffer holds the rest), and the digest of a message that comes in pieces.
\<close>

section \<open>The standard\<close>

text \<open>
  Words are read and written as big-endian numerals, and the constants are those of the standard:
  the first 64 bits of the fractional parts of the cube roots of the first eighty primes, and of
  the square roots of the first eight.  Nothing here is taken from the code.
\<close>

definition be_word :: "bytes \<Rightarrow> u64" where
  "be_word bs = word_of_int (foldl (\<lambda>n b. 256 * n + uint b) 0 bs)"

definition be_bytes :: "u64 \<Rightarrow> bytes" where
  "be_bytes x = map (\<lambda>i. of_nat (unat x div 256 ^ (7 - i))) [0..<8]"

text \<open>The primes up to 409, of which there are eighty, by the sieve.\<close>

fun sieve :: "int list \<Rightarrow> int list" where
  "sieve [] = []"
| "sieve (p # ns) = p # sieve (filter (\<lambda>n. n mod p \<noteq> 0) ns)"

definition fips_primes :: "int list" where
  "fips_primes = sieve [2..409]"

text \<open>The integral root, bit by bit: below \<open>2 ^ b\<close>, the largest \<open>r\<close> with \<open>r ^ k \<le> n\<close>.\<close>

fun root_bits :: "nat \<Rightarrow> int \<Rightarrow> nat \<Rightarrow> int \<Rightarrow> int" where
  "root_bits k n 0 r = r"
| "root_bits k n (Suc b) r = root_bits k n b (if (r + 2 ^ b) ^ k \<le> n then r + 2 ^ b else r)"

text \<open>The fraction bits of the root of order \<open>k\<close> of \<open>p\<close>: those of \<open>p * 2 ^ (64 * k)\<close> below the point.\<close>

definition root_fraction :: "nat \<Rightarrow> int \<Rightarrow> u64" where
  "root_fraction k p = word_of_int (root_bits k (p * 2 ^ (64 * k)) 72 0 mod 2 ^ 64)"

definition fips_K :: "u64 list" where
  "fips_K = map (root_fraction 3) fips_primes"

definition fips_H0 :: "u64 list" where
  "fips_H0 = map (root_fraction 2) (take 8 fips_primes)"

text \<open>The compression of FIPS 180-4 with its own functions and with the working variables shifted.\<close>

definition fips_Ch :: "u64 \<Rightarrow> u64 \<Rightarrow> u64 \<Rightarrow> u64" where
  "fips_Ch x y z = ((x AND y) XOR (NOT x AND z))"

definition fips_Maj :: "u64 \<Rightarrow> u64 \<Rightarrow> u64 \<Rightarrow> u64" where
  "fips_Maj x y z = ((x AND y) XOR (x AND z) XOR (y AND z))"

definition fips_Sigma :: "nat \<times> nat \<times> nat \<Rightarrow> u64 \<Rightarrow> u64" where
  "fips_Sigma = (\<lambda>(i, j, k) x. word_rotr i x XOR word_rotr j x XOR word_rotr k x)"

definition fips_sigma :: "nat \<times> nat \<times> nat \<Rightarrow> u64 \<Rightarrow> u64" where
  "fips_sigma = (\<lambda>(i, j, k) x. word_rotr i x XOR word_rotr j x XOR drop_bit k x)"

fun fips_W :: "bytes \<Rightarrow> nat \<Rightarrow> u64" where
  "fips_W m t =
     (if t < 16 then be_word (map (\<lambda>j. m ! (8 * t + j)) [0..<8])
      else fips_sigma (19, 61, 6) (fips_W m (t - 2)) + fips_W m (t - 7) + fips_sigma (1, 8, 7) (fips_W m (t - 15)) + fips_W m (t - 16))"

declare fips_W.simps [simp del]

definition fips_round :: "bytes \<Rightarrow> nat \<Rightarrow> u64 list \<Rightarrow> u64 list" where
  "fips_round m t v =
     (let a = v ! 0; b = v ! 1; c = v ! 2; d = v ! 3; e = v ! 4; f = v ! 5; g = v ! 6; h = v ! 7;
        T1 = h + fips_Sigma (14, 18, 41) e + fips_Ch e f g + fips_K ! t + fips_W m t;
        T2 = fips_Sigma (28, 34, 39) a + fips_Maj a b c
      in [T1 + T2, a, b, c, d + T1, e, f, g])"

definition fips_compress :: "u64 list \<Rightarrow> bytes \<Rightarrow> u64 list" where
  "fips_compress H m = map2 (+) H (fold (fips_round m) [0..<80] H)"

section \<open>The constants and the words of the code are those of the standard\<close>

lemma root_bits_floor:
  assumes "0 < k" and "0 \<le> r" and "r ^ k \<le> n" and "n < (r + 2 ^ b) ^ k"
  shows "0 \<le> root_bits k n b r \<and> root_bits k n b r ^ k \<le> n \<and> n < (root_bits k n b r + 1) ^ k"
  using assms
proof (induction b arbitrary: r)
  case (Suc b)
  have eq: "(r + 2 ^ b) + 2 ^ b = r + 2 ^ Suc b"
    by simp
  show ?case
    using Suc.IH [of "r + 2 ^ b", unfolded eq] Suc.IH [of r] Suc.prems by (simp add: not_le)
qed simp

lemma root_unique:
  fixes r s :: int
  assumes "0 \<le> r" and "0 \<le> s" and "r ^ k \<le> n" and "n < (r + 1) ^ k" and "s ^ k \<le> n" and "n < (s + 1) ^ k"
  shows "r = s"
proof (rule ccontr)
  have "\<not> x + 1 \<le> y" if "0 \<le> x" "y ^ k \<le> n" "n < (x + 1) ^ k" for x y :: int
    using power_mono [of "x + 1" y k] that by auto
  moreover assume "r \<noteq> s"
  then have "r + 1 \<le> s \<or> s + 1 \<le> r"
    by linarith
  ultimately show False
    using assms by blast
qed

lemma root_fraction_eq:
  assumes "0 < k" and "0 \<le> r" and "r ^ k \<le> p * 2 ^ (64 * k)" and "p * 2 ^ (64 * k) < (r + 1) ^ k"
    and "0 \<le> p" and "p * 2 ^ (64 * k) < (2 ^ 72) ^ k" and "r mod 2 ^ 64 = v"
  shows "root_fraction k p = word_of_int v"
proof -
  let ?n = "p * 2 ^ (64 * k)"
  have "0 \<le> root_bits k ?n 72 0 \<and> root_bits k ?n 72 0 ^ k \<le> ?n \<and> ?n < (root_bits k ?n 72 0 + 1) ^ k"
    using assms by (intro root_bits_floor) (simp_all add: zero_power)
  then have "root_bits k ?n 72 0 = r"
    using root_unique [of "root_bits k ?n 72 0" r k ?n] assms by blast
  then show ?thesis
    using assms(7) by (simp add: root_fraction_def)
qed

text \<open>A check of a list of constants: \<open>q\<close> is the part of the root before the point.\<close>

definition root_check :: "nat \<Rightarrow> int \<times> int \<times> int \<Rightarrow> bool" where
  "root_check k = (\<lambda>(p, q, v). let r = q * 2 ^ 64 + v; n = p * 2 ^ (64 * k) in
     0 \<le> r \<and> 0 \<le> p \<and> r ^ k \<le> n \<and> n < (r + 1) ^ k \<and> n < (2 ^ 72) ^ k \<and> 0 \<le> v \<and> v < 2 ^ 64)"

lemma root_check_fraction:
  assumes "0 < k" and "root_check k (p, q, v)"
  shows "root_fraction k p = word_of_int v"
proof (rule root_fraction_eq [OF assms(1), of "q * 2 ^ 64 + v"])
  show "(q * 2 ^ 64 + v) mod 2 ^ 64 = v"
    using assms(2) by (simp add: root_check_def Let_def)
qed (use assms(2) in \<open>simp_all add: root_check_def Let_def\<close>)

lemma roots_checked:
  "0 < k \<Longrightarrow> list_all (root_check k) ts \<Longrightarrow> map (root_fraction k) (map fst ts) = map (\<lambda>(p, q, v). word_of_int v) ts"
  by (induction ts) (auto intro: root_check_fraction)

lemma fips_primes_eq: "fips_primes = [2, 3, 5, 7, 11, 13, 17, 19, 23, 29, 31, 37, 41, 43, 47, 53, 59, 61, 67, 71, 73, 79, 83, 89, 97,
    101, 103, 107, 109, 113, 127, 131, 137, 139, 149, 151, 157, 163, 167, 173, 179, 181, 191, 193, 197, 199, 211, 223, 227, 229, 233,
    239, 241, 251, 257, 263, 269, 271, 277, 281, 283, 293, 307, 311, 313, 317, 331, 337, 347, 349, 353, 359, 367, 373, 379, 383, 389,
    397, 401, 409]"
  by code_simp

text \<open>Before the point: 1 below 8, 2 below 27, and so on.\<close>

definition cube_floor :: "int \<Rightarrow> int" where
  "cube_floor p = (if p < 8 then 1 else if p < 27 then 2 else if p < 64 then 3 else if p < 125 then 4 else if p < 216 then 5 else if p < 343 then 6 else 7)"

definition square_floor :: "int \<Rightarrow> int" where
  "square_floor p = (if p < 4 then 1 else if p < 9 then 2 else if p < 16 then 3 else 4)"

lemma fips_K_eq: "fips_K = K512"
proof -
  let ?ts = "map2 (\<lambda>p w. (p, cube_floor p, uint w)) fips_primes K512"
  have "list_all (root_check 3) ?ts"
    unfolding fips_primes_eq by code_simp
  then have "map (root_fraction 3) (map fst ?ts) = map (\<lambda>(p, q, v). word_of_int v) ?ts"
    by (intro roots_checked) simp_all
  moreover have len: "length fips_primes = length K512"
    unfolding fips_primes_eq by (simp add: K512_def)
  then have "map fst ?ts = fips_primes" "map (\<lambda>(p, q, v). word_of_int v) ?ts = K512"
    by (simp_all add: comp_def split_beta)
  ultimately show ?thesis
    by (simp only: fips_K_def)
qed

lemma fips_H0_eq: "fips_H0 = sha512_iv"
proof -
  let ?ts = "map2 (\<lambda>p w. (p, square_floor p, uint w)) (take 8 fips_primes) sha512_iv"
  have "list_all (root_check 2) ?ts"
    unfolding fips_primes_eq by code_simp
  then have "map (root_fraction 2) (map fst ?ts) = map (\<lambda>(p, q, v). word_of_int v) ?ts"
    by (intro roots_checked) simp_all
  moreover have len: "length (take 8 fips_primes) = length sha512_iv"
    unfolding fips_primes_eq by (simp add: sha512_iv_def)
  then have "map fst ?ts = take 8 fips_primes" "map (\<lambda>(p, q, v). word_of_int v) ?ts = sha512_iv"
    by (simp_all add: comp_def split_beta del: length_take)
  ultimately show ?thesis
    by (simp only: fips_H0_def)
qed

lemma be_word_LOAD64H: "be_word (map (\<lambda>j. m ! (i + j)) [0..<8]) = LOAD64H m i"
proof -
  define s where "s = (\<lambda>(w :: u64) (b :: byte). push_bit 8 w OR ucast b)"
  have s: "s w b = 256 * w + ucast b" for w b
  proof -
    have "push_bit 8 w AND ucast b = 0"
      by (rule bit_word_eqI) (auto simp: bit_simps dest: bit_imp_le_length)
    then show ?thesis
      by (simp add: s_def disjunctive_add_eq_or [symmetric] push_bit_eq_mult)
  qed
  have "LOAD64H m i = s (s (s (s (s (s (s (ucast (m ! i)) (m ! (i + 1))) (m ! (i + 2))) (m ! (i + 3))) (m ! (i + 4))) (m ! (i + 5))) (m ! (i + 6))) (m ! (i + 7))"
    by (simp add: s_def LOAD64H_def push_bit_or or.assoc)
  also have "\<dots> = be_word (map (\<lambda>j. m ! (i + j)) [0..<8])"
  proof -
    have "[0..<8] = [0, 1, 2, 3, 4, 5, 6, 7]"
      by (simp add: upt_rec)
    then show ?thesis
      unfolding s by (simp add: be_word_def)
  qed
  finally show ?thesis ..
qed

lemma byte_of_word: "(ucast (drop_bit k (of_nat n :: u64)) :: byte) = of_nat (n div 2 ^ k)" if "k \<le> 56"
  by (rule bit_word_eqI) (use that in \<open>simp add: bit_simps bit_of_nat_iff_bit flip: drop_bit_eq_div\<close>)

lemma be_bytes_STORE64H: "be_bytes x = STORE64H x"
proof -
  have pow: "256 ^ (7 - i) = (2 ^ (8 * (7 - i)) :: nat)" for i
    by (simp add: power_mult)
  have eq: "of_nat (unat x div 2 ^ k) = (ucast (drop_bit k x) :: byte)" if "k \<le> 56" for k
    using byte_of_word [OF that, of "unat x"] by simp
  show ?thesis
    unfolding be_bytes_def STORE64H_def pow by (simp add: upt_rec eq)
qed

section \<open>The compression function is that of the standard\<close>

lemma Ch_fips: "Ch x y z = fips_Ch x y z"
  by (rule bit_word_eqI) (auto simp: Ch_def fips_Ch_def bit_simps)

lemma Maj_fips: "Maj x y z = fips_Maj x y z"
  by (rule bit_word_eqI) (auto simp: Maj_def fips_Maj_def bit_simps)

lemma ROR64c_rotr:
  assumes "0 < n" and "n < 64"
  shows "ROR64c x n = word_rotr n x"
proof (rule bit_word_eqI)
  fix k
  assume "k < LENGTH(64)"
  then have k: "k < 64"
    by simp
  show "bit (ROR64c x n) k \<longleftrightarrow> bit (word_rotr n x) k"
  proof (cases "n + k < 64")
    case True
    then have "\<not> 64 - n \<le> k"
      by simp
    then show ?thesis
      using assms k True by (simp add: ROR64c_def bit_simps bit_word_rotr_iff add.commute)
  next
    case False
    then have "\<not> bit x (n + k)" "k - (64 - n) = (k + n) mod 64" "64 - n \<le> k"
      using assms k bit_imp_le_length [of x "n + k"] by (auto simp: mod_if)
    then show ?thesis
      using assms k by (simp add: ROR64c_def bit_simps bit_word_rotr_iff)
  qed
qed

lemma functions_fips:
  "Sigma0 x = fips_Sigma (28, 34, 39) x" "Sigma1 x = fips_Sigma (14, 18, 41) x"
  "Gamma0 x = fips_sigma (1, 8, 7) x" "Gamma1 x = fips_sigma (19, 61, 6) x"
  by (simp_all add: Sigma0_def Sigma1_def Gamma0_def Gamma1_def fips_Sigma_def fips_sigma_def ROR64c_rotr)

lemma schedule_prefix:
  "length (fold extend_W [16..<16 + n] (map (\<lambda>i. LOAD64H m (8 * i)) [0..<16])) = 16 + n \<and>
   (\<forall>t<16 + n. fold extend_W [16..<16 + n] (map (\<lambda>i. LOAD64H m (8 * i)) [0..<16]) ! t = fips_W m t)"
proof (induction n)
  case 0
  have "LOAD64H m (8 * t) = fips_W m t" if "t < 16" for t
    using that by (subst fips_W.simps) (simp only: be_word_LOAD64H if_True)
  then show ?case
    by simp
next
  case (Suc n)
  define W where "W = fold extend_W [16..<16 + n] (map (\<lambda>i. LOAD64H m (8 * i)) [0..<16])"
  have W: "length W = 16 + n" "\<And>t. t < 16 + n \<Longrightarrow> W ! t = fips_W m t"
    using Suc unfolding W_def by blast+
  have "fold extend_W [16..<16 + Suc n] (map (\<lambda>i. LOAD64H m (8 * i)) [0..<16]) = extend_W (16 + n) W"
    unfolding add_Suc_right upt_Suc_append [OF le_add1] W_def by (simp only: fold_append fold.simps o_apply id_apply)
  also have "\<dots> = W @ [fips_W m (16 + n)]"
    unfolding extend_W_def by (simp add: W(2) functions_fips fips_W.simps [of m "16 + n"])
  finally have step: "fold extend_W [16..<16 + Suc n] (map (\<lambda>i. LOAD64H m (8 * i)) [0..<16]) = W @ [fips_W m (16 + n)]" .
  have "(W @ [fips_W m (16 + n)]) ! t = fips_W m t" if "t < 16 + Suc n" for t
    using W that by (cases "t = 16 + n") (simp_all add: nth_append)
  then show ?case
    unfolding step using W(1) by simp
qed

lemma schedule_fips: "t < 80 \<Longrightarrow> schedule m ! t = fips_W m t" "length (schedule m) = 80"
  using schedule_prefix [of 64 m] unfolding schedule_def by simp_all

text \<open>The registers in place, seen from the position of \<open>a\<close>, are the working variables.\<close>

definition registers :: "nat \<Rightarrow> u64 list \<Rightarrow> u64 list" where
  "registers i S = map (\<lambda>k. S ! ((k + 8 - i mod 8) mod 8)) [0..<8]"

lemma eight_cases: "\<exists>S0 S1 S2 S3 S4 S5 S6 S7. S = [S0, S1, S2, S3, S4, S5, S6, S7]" if "length S = 8"
  using that by (auto simp: numeral_eq_Suc length_Suc_conv)

lemma RND_fips:
  assumes "length S = 8" and "i < 80"
  shows "registers (i + 1) (RND (schedule m) i S) = fips_round m i (registers i S)" and "length (RND (schedule m) i S) = 8"
proof -
  obtain S0 S1 S2 S3 S4 S5 S6 S7 where S: "S = [S0, S1, S2, S3, S4, S5, S6, S7]"
    using eight_cases [OF assms(1)] by blast
  have eight: "[0..<8] = [0, 1, 2, 3, 4, 5, 6, 7]"
    by (simp add: upt_rec)
  have "i mod 8 = 0 \<or> i mod 8 = 1 \<or> i mod 8 = 2 \<or> i mod 8 = 3 \<or> i mod 8 = 4 \<or> i mod 8 = 5 \<or> i mod 8 = 6 \<or> i mod 8 = 7"
    by presburger
  then show "registers (i + 1) (RND (schedule m) i S) = fips_round m i (registers i S)"
    unfolding RND_def registers_def fips_round_def fips_K_eq Let_def eight list.map S
    by (elim disjE) (simp_all add: schedule_fips(1) assms(2) functions_fips Ch_fips Maj_fips mod_Suc)
  show "length (RND (schedule m) i S) = 8"
    by (simp add: RND_def Let_def assms(1))
qed

lemma rounds_fips:
  "length S = 8 \<Longrightarrow> n \<le> 80 \<Longrightarrow> registers n (fold (RND (schedule m)) [0..<n] S) = fold (fips_round m) [0..<n] S \<and>
     length (fold (RND (schedule m)) [0..<n] S) = 8"
proof (induction n)
  case 0
  then show ?case
    by (auto simp: registers_def intro!: nth_equalityI)
next
  case (Suc n)
  then show ?case
    using RND_fips [of "fold (RND (schedule m)) [0..<n] S" n m] by simp
qed

lemma sha512_compress_fips: "length H = 8 \<Longrightarrow> sha512_compress H m = fips_compress H m"
proof -
  assume len: "length H = 8"
  have "registers 80 S = S" if "length S = 8" for S
    using that by (auto simp: registers_def intro!: nth_equalityI)
  then show ?thesis
  proof -
    assume id: "\<And>S. length S = 8 \<Longrightarrow> registers 80 S = S"
    have "fold (RND (schedule m)) [0..<80] H = fold (fips_round m) [0..<80] H"
      using rounds_fips [OF len order_refl, of m] id [of "fold (RND (schedule m)) [0..<80] H"] by (elim conjE) (simp only:)
    then show ?thesis
      by (simp only: sha512_compress_def fips_compress_def Let_def)
  qed
qed

section \<open>Blocks\<close>

text \<open>The chaining value after all whole blocks of a message, and what is left of it.\<close>

fun absorb :: "(u64 list \<Rightarrow> bytes \<Rightarrow> u64 list) \<Rightarrow> u64 list \<Rightarrow> bytes \<Rightarrow> u64 list" where
  "absorb f H m = (if length m < 128 then H else absorb f (f H (take 128 m)) (drop 128 m))"

fun remainder :: "bytes \<Rightarrow> bytes" where
  "remainder m = (if length m < 128 then m else remainder (drop 128 m))"

declare absorb.simps [simp del] remainder.simps [simp del]

lemma absorb_short [simp]: "length m < 128 \<Longrightarrow> absorb f H m = H"
  by (simp add: absorb.simps)

lemma absorb_block: "length b = 128 \<Longrightarrow> absorb f H (b @ m) = absorb f (f H b) m"
  by (simp add: absorb.simps [of f H])

lemma absorb_one: "length b = 128 \<Longrightarrow> absorb f H b = f H b"
  using absorb_block [of b f H "[]"] by simp

lemma remainder_short [simp]: "length m < 128 \<Longrightarrow> remainder m = m"
  by (simp add: remainder.simps)

lemma absorb_append: "absorb f H (m @ c) = absorb f (absorb f H m) (remainder m @ c)"
proof (induction f H m rule: absorb.induct)
  case (1 f H m)
  show ?case
  proof (cases "length m < 128")
    case False
    then have "absorb f H (m @ c) = absorb f (f H (take 128 m)) (drop 128 m @ c)"
      by (subst absorb.simps) simp
    then show ?thesis
      using 1 False by (simp add: absorb.simps [of f H m] remainder.simps [of m])
  qed simp
qed

lemma remainder_append: "remainder (m @ c) = remainder (remainder m @ c)"
proof (induction m rule: remainder.induct)
  case (1 m)
  show ?case
  proof (cases "length m < 128")
    case False
    then have "remainder (m @ c) = remainder (drop 128 m @ c)"
      by (subst remainder.simps) simp
    then show ?thesis
      using 1 False by (simp add: remainder.simps [of m])
  qed simp
qed

lemma length_remainder: "length (remainder m) = length m mod 128"
  by (induction m rule: remainder.induct) (subst remainder.simps, simp add: le_mod_geq)

lemma remainder_block: "length b = 128 \<Longrightarrow> remainder b = []"
  by (simp add: remainder.simps)

lemma remainder_le: "length (remainder m) \<le> length m" "length (remainder m) < 128"
  by (simp_all add: length_remainder)

section \<open>The buffer\<close>

text \<open>The context after the message \<open>m\<close> has been passed to \<open>update\<close>, in whatever pieces.\<close>

definition holds :: "sha512_context \<Rightarrow> bytes \<Rightarrow> bool" where
  "holds md m \<longleftrightarrow> state md = absorb sha512_compress sha512_iv m \<and> curlen md = length (remainder m) \<and> length (buf md) = 128 \<and>
     take (curlen md) (buf md) = remainder m \<and> bit_length md = of_nat (8 * (length m - length (remainder m)))"

lemma fill_eq: "n \<le> length inp \<Longrightarrow> i + n \<le> length b \<Longrightarrow> fill inp n i b = take i b @ take n inp @ drop (i + n) b"
proof (induction n)
  case (Suc n)
  then have IH: "fill inp n i b = take i b @ take n inp @ drop (i + n) b"
    by simp
  have "fill inp (Suc n) i b = (fill inp n i b)[n + i := inp ! n]"
    by (simp add: fill_def)
  also have "\<dots> = take i b @ take n inp @ (drop (i + n) b)[0 := inp ! n]"
    unfolding IH using Suc.prems by (simp add: list_update_append)
  also have "(drop (i + n) b)[0 := inp ! n] = inp ! n # drop (i + Suc n) b"
    using Suc.prems Cons_nth_drop_Suc [of "i + n" b] by (metis add_Suc_right less_le_trans list_update_code(2) lessI nat_add_left_cancel_less)
  finally show ?case
    using Suc.prems by (simp add: take_Suc_conv_app_nth)
qed (simp add: fill_def)

lemma holds_init: "length (buf md) = 128 \<Longrightarrow> holds (sha512_init md) []"
  by (simp add: holds_def sha512_init_def)

lemma holds_block:
  assumes "holds md m" and "curlen md = 0" and "length b = 128"
  shows "holds (md\<lparr>state := sha512_compress (state md) b, bit_length := bit_length md + 1024\<rparr>) (m @ b)"
proof -
  have r: "remainder m = []"
    using assms(1,2) by (simp add: holds_def)
  then have "absorb sha512_compress sha512_iv (m @ b) = sha512_compress (state md) b" "remainder (m @ b) = []"
    using assms absorb_append [of sha512_compress sha512_iv m b] remainder_append [of m b]
    by (simp_all add: holds_def absorb_one remainder_block)
  then show ?thesis
    using assms r by (simp add: holds_def algebra_simps)
qed

lemma holds_fill:
  assumes "holds md m" and "length c \<le> 128 - curlen md"
  defines "md1 \<equiv> md\<lparr>buf := take (curlen md) (buf md) @ c @ drop (curlen md + length c) (buf md), curlen := curlen md + length c\<rparr>"
  shows "curlen md1 < 128 \<Longrightarrow> holds md1 (m @ c)"
    and "curlen md1 = 128 \<Longrightarrow> holds ((compress_buf md1)\<lparr>bit_length := bit_length md1 + 1024, curlen := 0\<rparr>) (m @ c)"
proof -
  let ?r = "remainder m"
  have md: "state md = absorb sha512_compress sha512_iv m" "curlen md = length ?r" "length (buf md) = 128"
    "take (curlen md) (buf md) = ?r" "bit_length md = of_nat (8 * (length m - length ?r))"
    using assms(1) unfolding holds_def by blast+
  have buf: "buf md1 = ?r @ c @ drop (length ?r + length c) (buf md)" and cl: "curlen md1 = length (?r @ c)"
    using md by (simp_all add: md1_def)
  have le: "length ?r \<le> length m"
    by (rule remainder_le)
  note app = absorb_append [of sha512_compress sha512_iv m c] remainder_append [of m c]
  show "holds md1 (m @ c)" if "curlen md1 < 128"
  proof -
    have short: "length (?r @ c) < 128"
      using that cl by simp
    then have "absorb sha512_compress sha512_iv (m @ c) = state md" "remainder (m @ c) = ?r @ c"
      using app md(1) by simp_all
    then show ?thesis
      using md cl buf short le unfolding holds_def by (simp add: md1_def)
  qed
  show "holds ((compress_buf md1)\<lparr>bit_length := bit_length md1 + 1024, curlen := 0\<rparr>) (m @ c)" if "curlen md1 = 128"
  proof -
    have full: "length (?r @ c) = 128"
      using that cl by simp
    then have "buf md1 = ?r @ c"
      using buf md(3) by simp
    moreover have "absorb sha512_compress sha512_iv (m @ c) = sha512_compress (state md) (?r @ c)" "remainder (m @ c) = []"
      using app md(1) full by (simp_all add: absorb_one remainder_block)
    moreover have "length (m @ c) = (length m - length ?r) + 128"
      using full le by simp
    then have "(of_nat (8 * length (m @ c)) :: u64) = bit_length md + 1024"
      unfolding md(5) by (simp add: algebra_simps)
    moreover have "state md1 = state md" "bit_length md1 = bit_length md"
      by (simp_all add: md1_def)
    ultimately show ?thesis
      using full by (simp add: holds_def compress_buf_def)
  qed
qed

lemma update_loop_holds: "holds md m \<Longrightarrow> holds (update_loop inp md) (m @ inp)"
proof (induction inp md arbitrary: m rule: update_loop.induct)
  case (1 inp md)
  have cl: "curlen md < 128" and len: "length (buf md) = 128"
    using 1(3) remainder_le(2) [of m] by (simp_all add: holds_def)
  consider "inp = []" | "inp \<noteq> []" "curlen md = 0" "128 \<le> length inp" | "inp \<noteq> []" "\<not> (curlen md = 0 \<and> 128 \<le> length inp)"
    by metis
  then show ?case
  proof cases
    case 1
    then show ?thesis
      using \<open>holds md m\<close> by (simp add: update_loop.simps)
  next
    case 2
    then have "holds (update_loop (drop 128 inp) (md\<lparr>state := sha512_compress (state md) (take 128 inp), bit_length := bit_length md + 128 * 8\<rparr>))
        ((m @ take 128 inp) @ drop 128 inp)"
      using cl holds_block [OF \<open>holds md m\<close> 2(2), of "take 128 inp"] by (intro "1.IH"(1)) simp_all
    then show ?thesis
      using 2 cl by (subst update_loop.simps) simp
  next
    case 3
    let ?n = "min (length inp) (128 - curlen md)"
    define md1 where "md1 = md\<lparr>buf := fill inp ?n (curlen md) (buf md), curlen := curlen md + ?n\<rparr>"
    define md2 where "md2 = (if curlen md1 = 128 then (compress_buf md1)\<lparr>bit_length := bit_length md1 + 8 * 128, curlen := 0\<rparr> else md1)"
    define c where "c = take ?n inp"
    have c: "length c = ?n" "length c \<le> 128 - curlen md"
      by (simp_all add: c_def)
    have md1: "md1 = md\<lparr>buf := take (curlen md) (buf md) @ c @ drop (curlen md + length c) (buf md), curlen := curlen md + length c\<rparr>"
      unfolding md1_def c(1) c_def using fill_eq [of ?n inp "curlen md" "buf md"] cl len by simp
    note filled = holds_fill [OF \<open>holds md m\<close> c(2), folded md1]
    have "curlen md1 \<le> 128"
      using c cl by (simp add: md1)
    then have "holds md2 (m @ take ?n inp)"
      using filled unfolding md2_def c_def by (cases "curlen md1 = 128") simp_all
    then have "holds (update_loop (drop ?n inp) md2) ((m @ take ?n inp) @ drop ?n inp)"
      using 3 cl unfolding md2_def md1_def by (intro "1.IH"(2)) (auto simp: Let_def)
    moreover have "update_loop inp md = update_loop (drop ?n inp) md2"
    proof -
      have no: "(inp = [] \<or> 128 < curlen md) = False" "(curlen md = 0 \<and> 128 \<le> length inp) = False"
        using 3 cl by auto
      show ?thesis
        unfolding md2_def md1_def by (subst update_loop.simps) (simp only: no if_False Let_def)
    qed
    ultimately show ?thesis
      by simp
  qed
qed

section \<open>Padding\<close>

text \<open>The padding as \<open>final\<close> writes it: the length in bits is a 64-bit number behind eight more zeros.\<close>

definition pad_zeros :: "nat \<Rightarrow> nat" where
  "pad_zeros n = (239 - n mod 128) mod 128"

definition padded :: "bytes \<Rightarrow> bytes" where
  "padded m = m @ [0x80] @ replicate (pad_zeros (length m)) 0 @ replicate 8 0 @ STORE64H (of_nat (8 * length m))"

lemma length_STORE64H [simp]: "length (STORE64H x) = 8"
  by (simp add: STORE64H_def)

lemma pad_zeros_eq: "pad_zeros n = (if n mod 128 \<le> 111 then 111 - n mod 128 else 239 - n mod 128)"
proof -
  have "(239 - r) mod 128 = (if r \<le> 111 then 111 - r else 239 - r)" if "r < 128" for r :: nat
  proof (cases "r \<le> 111")
    case True
    then have "239 - r = (111 - r) + 128"
      by simp
    then show ?thesis
      using True by (simp only: mod_add_self2) simp
  next
    case False
    then show ?thesis
      by simp
  qed
  then show ?thesis
    by (simp add: pad_zeros_def)
qed

lemma padded_blocks: "length (padded m) mod 128 = 0"
proof -
  let ?z = "length m mod 128 + (pad_zeros (length m) + 17)"
  have "?z = 128 \<or> ?z = 256"
    using mod_less_divisor [of 128 "length m"] unfolding pad_zeros_eq by auto
  then have "?z mod 128 = 0"
    by (elim disjE) (simp_all only: mod_self, simp)
  moreover have "length (padded m) = length m + (pad_zeros (length m) + 17)"
    by (simp add: padded_def)
  ultimately show ?thesis
    by (simp only: mod_add_left_eq)
qed

definition digest :: "(u64 list \<Rightarrow> bytes \<Rightarrow> u64 list) \<Rightarrow> bytes \<Rightarrow> bytes" where
  "digest f m = concat (map STORE64H (absorb f sha512_iv (padded m)))"

lemma zero_fold: "i \<le> n \<Longrightarrow> n \<le> length b \<Longrightarrow> fold (\<lambda>i b. b[i := 0]) [i..<n] b = take i b @ replicate (n - i) 0 @ drop n b"
proof (induction n)
  case (Suc n)
  show ?case
  proof (cases "i = Suc n")
    case False
    then have IH: "fold (\<lambda>i b. b[i := 0]) [i..<n] b = take i b @ replicate (n - i) 0 @ drop n b"
      using Suc by simp
    have "drop n b = b ! n # drop (Suc n) b"
      using Suc.prems Cons_nth_drop_Suc [of n b] by simp
    moreover have "fold (\<lambda>i b. b[i := 0]) [i..<Suc n] b = (fold (\<lambda>i b. b[i := 0]) [i..<n] b)[n := 0]"
      using Suc.prems False by simp
    ultimately show ?thesis
      unfolding IH using Suc.prems False by (simp add: list_update_append Suc_diff_le replicate_append_same [symmetric])
  qed (use Suc.prems in simp)
qed simp

lemma store_at_end: "length b = 128 \<Longrightarrow> store_at 120 (STORE64H x) b = take 120 b @ STORE64H x"
  by (simp add: store_at_def)

lemma compress_zeroed:
  assumes "buf md = p @ q" and "curlen md = length p" and "length p \<le> n" and "n \<le> 128" and "length (buf md) = 128"
  shows "buf (zero_to n md) = p @ replicate (n - length p) 0 @ drop (n - length p) q" and "curlen (zero_to n md) = n"
  using zero_fold [of "length p" n "p @ q"] assms by (simp_all add: zero_to_def)

lemma zero_to_frame [simp]: "state (zero_to n md) = state md" "bit_length (zero_to n md) = bit_length md"
  by (simp_all add: zero_to_def)

lemma final_digest:
  assumes "holds md m"
  shows "sha512_final md = Some (digest sha512_compress m)"
proof -
  let ?r = "remainder m" and ?L = "STORE64H (of_nat (8 * length m))"
  have md: "state md = absorb sha512_compress sha512_iv m" "curlen md = length ?r" "length (buf md) = 128"
    "take (length ?r) (buf md) = ?r" "bit_length md = of_nat (8 * (length m - length ?r))"
    using assms unfolding holds_def by metis+
  have r: "length ?r < 128" "length ?r \<le> length m" "length ?r = length m mod 128"
    using remainder_le [of m] length_remainder [of m] by simp_all
  define md1 where "md1 = md\<lparr>bit_length := of_nat (8 * length m), buf := (buf md)[curlen md := 0x80], curlen := curlen md + 1\<rparr>"
  have "bit_length md + of_nat (curlen md) * 8 = (of_nat (8 * (length m - length ?r + length ?r)) :: u64)"
    unfolding md(2,5) by (simp only: of_nat_mult of_nat_add distrib_left mult.commute of_nat_numeral)
  then have total: "bit_length md + of_nat (curlen md) * 8 = (of_nat (8 * length m) :: u64)"
    using r(2) by (simp only: le_add_diff_inverse2)
  have "buf md = ?r @ drop (length ?r) (buf md)"
    using md(4) by (metis append_take_drop_id)
  then have "(buf md)[curlen md := 0x80] = ?r @ (drop (length ?r) (buf md))[0 := 0x80]"
    using md(2) by (metis diff_self_eq_0 list_update_append less_irrefl)
  also have "(drop (length ?r) (buf md))[0 := 0x80] = 0x80 # drop (Suc (length ?r)) (buf md)"
    using Cons_nth_drop_Suc [of "length ?r" "buf md"] md(3) r(1) by (metis list_update_code(2))
  finally have buf1: "buf md1 = (?r @ [0x80]) @ drop (Suc (length ?r)) (buf md)" and cur1: "curlen md1 = length (?r @ [0x80])"
    and st1: "state md1 = state md" "bit_length md1 = of_nat (8 * length m)"
    using md(2) by (simp_all add: md1_def)
  have len1: "length (buf md1) = 128"
    using md(3) by (simp add: md1_def)
  have fin: "sha512_final md = (let md = (if 112 < curlen md1 then (compress_buf (zero_to 128 md1))\<lparr>curlen := 0\<rparr> else md1);
      md = zero_to 120 md; md = compress_buf (md\<lparr>buf := store_at 120 (STORE64H (bit_length md)) (buf md)\<rparr>)
    in Some (concat (map STORE64H (state md))))"
    using r(1) unfolding sha512_final_def md1_def by (simp add: Let_def total [unfolded md(2)] md(2) not_le)
  have abs: "absorb sha512_compress sha512_iv (padded m) =
      absorb sha512_compress (state md) (?r @ [0x80] @ replicate (pad_zeros (length m)) 0 @ replicate 8 0 @ ?L)"
    unfolding padded_def absorb_append [of _ _ m] md(1) ..
  show ?thesis
  proof (cases "112 < curlen md1")
    case False
    then have short: "length (?r @ [0x80]) \<le> 120" "length ?r \<le> 111"
      using cur1 by simp_all
    have "120 \<le> (128 :: nat)"
      by simp
    note zero = compress_zeroed [OF buf1 cur1 short(1) this len1]
    let ?B = "?r @ [0x80] @ replicate (pad_zeros (length m)) 0 @ replicate 8 0 @ ?L"
    have zeros: "replicate (pad_zeros (length m)) 0 @ replicate 8 0 = replicate (120 - length (?r @ [0x80])) (0 :: byte)"
      using short r(3) by (simp add: pad_zeros_eq replicate_add [symmetric])
    have B: "length ?B = 128"
      using short r(3) by (simp add: pad_zeros_eq)
    have "store_at 120 ?L (buf (zero_to 120 md1)) = (?r @ [0x80]) @ (replicate (pad_zeros (length m)) 0 @ replicate 8 0) @ ?L"
    proof -
      have "120 - length ?r = Suc (119 - length ?r)"
        using short by simp
      then show ?thesis
        unfolding zeros zero(1) using short len1 [unfolded buf1] by (simp add: store_at_def)
    qed
    then have "sha512_final md = Some (concat (map STORE64H (sha512_compress (state md) ?B)))"
      using False unfolding fin by (simp add: Let_def compress_buf_def st1)
    then show ?thesis
      using absorb_one [OF B] unfolding digest_def abs by simp
  next
    case True
    then have long: "length (?r @ [0x80]) \<le> 128" "112 \<le> length ?r"
      using cur1 r(1) by simp_all
    note zero = compress_zeroed [OF buf1 cur1 long(1) _ len1]
    let ?B1 = "(?r @ [0x80]) @ replicate (128 - length (?r @ [0x80])) 0" and ?B2 = "replicate 120 0 @ ?L"
    have B1: "buf (zero_to 128 md1) = ?B1" "length ?B1 = 128"
      using zero(1) [OF order_refl] long len1 [unfolded buf1] by simp_all
    define md2 where "md2 = (compress_buf (zero_to 128 md1))\<lparr>curlen := 0\<rparr>"
    have md2: "state md2 = sha512_compress (state md) ?B1" "buf md2 = [] @ ?B1" "curlen md2 = length ([] :: bytes)" "length (buf md2) = 128"
      "bit_length md2 = of_nat (8 * length m)"
      using B1 by (simp_all add: md2_def compress_buf_def st1)
    note zero2 = compress_zeroed [OF md2(2,3) _ _ md2(4), of 120]
    have zeroed: "buf (zero_to 120 md2) = replicate 120 0 @ drop 120 ?B1"
      using zero2(1) by (simp only: list.size diff_zero append_Nil order_refl le_numeral_extra simp_thms le0 refl) 
    have "store_at 120 ?L (buf (zero_to 120 md2)) = take 120 (buf (zero_to 120 md2)) @ ?L"
      by (rule store_at_end) (simp only: zeroed length_append length_replicate length_drop B1(2), use long(1) in simp)
    then have stored: "store_at 120 ?L (buf (zero_to 120 md2)) = ?B2"
      unfolding zeroed by simp
    have fin2: "sha512_final md = Some (concat (map STORE64H (state (compress_buf ((zero_to 120 md2)
        \<lparr>buf := store_at 120 (STORE64H (bit_length (zero_to 120 md2))) (buf (zero_to 120 md2))\<rparr>)))))"
      using True unfolding fin Let_def by (simp only: if_True md2_def [symmetric])
    have fin3: "state (compress_buf (d\<lparr>buf := b\<rparr>)) = sha512_compress (state d) b" for d b
      by (simp add: compress_buf_def)
    have fin4: "sha512_final md = Some (concat (map STORE64H (sha512_compress (sha512_compress (state md) ?B1) ?B2)))"
      unfolding fin2 fin3 zero_to_frame md2(1,5) stored ..
    have zeros: "replicate (pad_zeros (length m)) 0 @ replicate 8 0 = replicate (128 - length (?r @ [0x80])) (0 :: byte) @ replicate 120 0"
      using long r(3) by (simp add: pad_zeros_eq replicate_add [symmetric])
    have "?r @ [0x80] @ replicate (pad_zeros (length m)) 0 @ replicate 8 0 @ ?L = (?r @ [0x80]) @ (replicate (pad_zeros (length m)) 0 @ replicate 8 0) @ ?L"
      by simp
    also have "\<dots> = ?B1 @ ?B2"
      unfolding zeros by simp
    finally have cat: "?r @ [0x80] @ replicate (pad_zeros (length m)) 0 @ replicate 8 0 @ ?L = ?B1 @ ?B2" .
    have "length ?B2 = 128"
      by simp
    then have "absorb sha512_compress sha512_iv (padded m) = sha512_compress (sha512_compress (state md) ?B1) ?B2"
      unfolding abs cat absorb_block [OF B1(2)] by (rule absorb_one)
    then show ?thesis
      unfolding digest_def fin4 by simp
  qed
qed

section \<open>The hash\<close>

lemma absorb_cong: "(\<And>H b. length H = 8 \<Longrightarrow> f H b = g H b \<and> length (f H b) = 8) \<Longrightarrow> length H = 8 \<Longrightarrow> absorb f H m = absorb g H m"
proof (induction f H m rule: absorb.induct)
  case (1 f H m)
  have f: "f H (take 128 m) = g H (take 128 m)" "length (f H (take 128 m)) = 8"
    using 1(2) [OF 1(3)] by blast+
  show ?case
  proof (cases "length m < 128")
    case False
    then have "absorb f (f H (take 128 m)) (drop 128 m) = absorb g (f H (take 128 m)) (drop 128 m)"
      using 1(1) [OF _ _ f(2)] 1(2) by blast
    then show ?thesis
      using False f(1) by (simp add: absorb.simps [of f H m] absorb.simps [of g H m])
  qed simp
qed

lemma length_fips_compress: "length H = 8 \<Longrightarrow> length (fips_compress H b) = 8"
proof -
  assume len: "length H = 8"
  have "length (fold (fips_round b) [0..<n] H) = 8" for n
    using len by (induction n) (simp_all add: fips_round_def Let_def)
  then show ?thesis
    using len by (simp add: fips_compress_def)
qed

lemma digest_fips: "digest sha512_compress m = digest fips_compress m"
proof -
  have "absorb sha512_compress sha512_iv (padded m) = absorb fips_compress sha512_iv (padded m)"
    by (rule absorb_cong) (simp_all add: sha512_compress_fips length_fips_compress, simp add: sha512_iv_def)
  then show ?thesis
    by (simp only: digest_def)
qed

text \<open>A sequence of calls of \<open>update\<close>.\<close>

primrec update_all :: "bytes list \<Rightarrow> sha512_context \<Rightarrow> sha512_context option" where
  "update_all [] md = Some md"
| "update_all (c # cs) md = (case sha512_update md c of None \<Rightarrow> None | Some md' \<Rightarrow> update_all cs md')"

lemma update_holds: "holds md m \<Longrightarrow> \<exists>md'. sha512_update md c = Some md' \<and> holds md' (m @ c)"
  using update_loop_holds remainder_le(2) [of m] by (simp add: sha512_update_def holds_def not_less)

lemma update_all_holds: "holds md m \<Longrightarrow> \<exists>md'. update_all cs md = Some md' \<and> holds md' (m @ concat cs)"
proof (induction cs arbitrary: md m)
  case (Cons c cs)
  obtain md' where "sha512_update md c = Some md'" "holds md' (m @ c)"
    using update_holds [OF Cons.prems] by blast
  then show ?case
    using Cons.IH [of md' "m @ c"] by simp
qed simp

text \<open>
  The padding of FIPS 180-4: a one bit, as few zeros as reach a multiple of 1024 bits, and the length
  in bits as a 128-bit number.
\<close>

definition fips_padded :: "bytes \<Rightarrow> bytes" where
  "fips_padded m = m @ [0x80] @ replicate (pad_zeros (length m)) 0 @ map (\<lambda>i. of_nat (8 * length m div 256 ^ (15 - i))) [0..<16]"

definition fips_sha512 :: "bytes \<Rightarrow> bytes" where
  "fips_sha512 m = concat (map be_bytes (absorb fips_compress fips_H0 (fips_padded m)))"

lemma STORE64H_nat: "STORE64H (of_nat n) = map (\<lambda>i. of_nat (n div 256 ^ (15 - i))) [8..<16]"
proof -
  have "256 ^ (15 - i) = (2 ^ (8 * (15 - i)) :: nat)" for i
    by (simp add: power_mult)
  then show ?thesis
    using byte_of_word [of 0 n] byte_of_word [of 8 n] byte_of_word [of 16 n] byte_of_word [of 24 n] byte_of_word [of 32 n]
      byte_of_word [of 40 n] byte_of_word [of 48 n] byte_of_word [of 56 n]
    by (simp add: STORE64H_def upt_rec)
qed

lemma length_field: "n < 2 ^ 64 \<Longrightarrow> map (\<lambda>i. of_nat (n div 256 ^ (15 - i))) [0..<16] = replicate 8 (0 :: byte) @ STORE64H (of_nat n)"
proof -
  assume n: "n < 2 ^ 64"
  have "n div 256 ^ (15 - i) = 0" if "i < 8" for i
  proof -
    have "(2 :: nat) ^ 64 = 256 ^ 8"
      by simp
    also have "(256 :: nat) ^ 8 \<le> 256 ^ (15 - i)"
      using that by (intro power_increasing) auto
    finally have "n < 256 ^ (15 - i)"
      using n by (rule less_le_trans [rotated])
    then show ?thesis
      by (rule div_less)
  qed
  then have "map (\<lambda>i. of_nat (n div 256 ^ (15 - i))) [0..<8] = map (\<lambda>i. 0 :: byte) [0..<8]"
    by (intro map_cong refl) simp
  also have "\<dots> = replicate 8 0"
    by (simp add: map_replicate_const)
  finally show ?thesis
    using upt_add_eq_append [of 0 8 8] by (simp add: STORE64H_nat)
qed

lemma digest_is_fips: "8 * length m < 2 ^ 64 \<Longrightarrow> digest fips_compress m = fips_sha512 m"
  unfolding digest_def fips_sha512_def padded_def fips_padded_def fips_H0_eq be_bytes_STORE64H by (simp only: length_field)

lemma sha512_stream:
  assumes "length (buf ctx) = 128"
  shows "Option.bind (update_all cs (sha512_init ctx)) sha512_final = Some (digest fips_compress (concat cs))"
  using update_all_holds [OF holds_init [OF assms], of cs] by (auto simp: final_digest digest_fips)

lemma sha512_one_shot: "length (buf ctx) = 128 \<Longrightarrow> sha512 ctx m = Some (digest fips_compress m)"
  using sha512_stream [of ctx "[m]"] by (simp add: sha512_def Option.bind_def split: option.splits)

text \<open>
  C33: The hash is SHA-512: for every message of less than 2^64 bits, passed in whatever pieces to a
  context with whatever contents in its buffer, init, update and final never report an error and
  yield the digest of FIPS 180-4 of the concatenation, and so does the one-call variant.  The
  standard is written without the code: its constants are computed as the first 64 fraction bits
  of the roots of the first primes, its words are big-endian numerals, its padding has a 128-bit
  length, and its round shifts the working variables instead of renaming the registers in place.
\<close>

theorem sha512_is_fips:
  assumes "length (buf ctx) = 128" and "8 * length (concat chunks) < 2 ^ 64"
  shows "Option.bind (update_all chunks (sha512_init ctx)) sha512_final = Some (fips_sha512 (concat chunks)) \<and>
    sha512 ctx (concat chunks) = Some (fips_sha512 (concat chunks))"
  using sha512_stream [OF assms(1)] sha512_one_shot [OF assms(1)] digest_is_fips [OF assms(2)] by simp

definition sample_context :: sha512_context where
  "sample_context = \<lparr>bit_length = 5, state = [], curlen = 77, buf = replicate 128 9\<rparr>"

theorem sha512_is_fips_witness:
  "Option.bind (update_all [replicate 113 97, replicate 187 98] (sha512_init sample_context)) sha512_final =
   Some (fips_sha512 (replicate 113 97 @ replicate 187 98))"
proof -
  have "length (buf sample_context) = 128" "8 * length (concat [replicate 113 (97 :: byte), replicate 187 98]) < 2 ^ 64"
    by (simp_all add: sample_context_def)
  from sha512_is_fips [OF this] show ?thesis
    by simp
qed

end
