(* ===== verification/Ed25519.thy ===== *)
theory Ed25519
  imports Curve Scalar Sha512 Crypto
begin

text \<open>
  Key pairs, signatures and their verification (\<open>orlp_ed25519/keypair.c\<close>, \<open>sign.c\<close>, \<open>verify.c\<close>)
  over the hash, the scalars and the group.  The hash context is a local variable of each function,
  so its contents before \<open>init\<close> are a parameter (\<open>ctx\<close>), as is the buffer a digest is written to
  (\<open>out\<close>): the functions ignore the return values of the hash, and where it reports an error the
  buffer keeps what it held.
\<close>

section \<open>The hash as it is called\<close>

definition update_ignored :: "bytes \<Rightarrow> sha512_context \<Rightarrow> sha512_context" where
  "update_ignored inp md = (case sha512_update md inp of None \<Rightarrow> md | Some md' \<Rightarrow> md')"

definition final_into :: "bytes \<Rightarrow> sha512_context \<Rightarrow> bytes" where
  "final_into out md = (case sha512_final md of None \<Rightarrow> out | Some d \<Rightarrow> d)"

definition sha512_into :: "sha512_context \<Rightarrow> bytes \<Rightarrow> bytes \<Rightarrow> bytes" where
  "sha512_into ctx out m = (case sha512 ctx m of None \<Rightarrow> out | Some d \<Rightarrow> d)"

section \<open>Keys and signatures\<close>

definition orlp_create_keypair :: "sha512_context \<Rightarrow> bytes \<Rightarrow> bytes \<Rightarrow> bytes \<times> bytes" where
  "orlp_create_keypair ctx private_key seed =
     (let private_key = sha512_into ctx private_key (take 32 seed);
        private_key = private_key[0 := private_key ! 0 AND 248];
        private_key = private_key[31 := private_key ! 31 AND 63];
        private_key = private_key[31 := private_key ! 31 OR 64];
        A = ge_scalarmult_base (take 32 private_key)
      in (ge_p3_tobytes A, private_key))"

definition orlp_sign :: "sha512_context \<Rightarrow> bytes \<Rightarrow> bytes \<Rightarrow> bytes \<Rightarrow> bytes \<Rightarrow> bytes" where
  "orlp_sign ctx out message public_key private_key =
     (let hash = sha512_init ctx;
        hash = update_ignored (take 32 (drop 32 private_key)) hash;
        hash = update_ignored message hash;
        r = final_into out hash;
        r = sc_reduce r;
        R = ge_scalarmult_base r;
        signature = ge_p3_tobytes R;
        hash = sha512_init hash;
        hash = update_ignored (take 32 signature) hash;
        hash = update_ignored (take 32 public_key) hash;
        hash = update_ignored message hash;
        hram = final_into out hash;
        hram = sc_reduce hram
      in signature @ sc_muladd hram (take 32 private_key) r)"

section \<open>Verification\<close>

definition consttime_equal :: "bytes \<Rightarrow> bytes \<Rightarrow> bool" where
  "consttime_equal x y = (fold (\<lambda>i r. r OR (x ! i XOR y ! i)) [1..<32] (x ! 0 XOR y ! 0) = 0)"

definition orlp_verify :: "sha512_context \<Rightarrow> bytes \<Rightarrow> bytes \<Rightarrow> bytes \<Rightarrow> bytes \<Rightarrow> int" where
  "orlp_verify ctx out signature message public_key =
     (if signature ! 63 AND 224 \<noteq> 0 then 0
      else case ge_frombytes_negate_vartime (take 32 public_key) of
        None \<Rightarrow> 0
      | Some A \<Rightarrow>
          let hash = sha512_init ctx;
            hash = update_ignored (take 32 signature) hash;
            hash = update_ignored (take 32 public_key) hash;
            hash = update_ignored message hash;
            h = final_into out hash;
            h = sc_reduce h;
            R = ge_double_scalarmult_vartime h A (take 32 (drop 32 signature));
            checker = ge_tobytes R
          in if \<not> consttime_equal checker signature then 0 else 1)"

text \<open>The entry points as the wrappers of \<open>sshd_crypto.cpp\<close> see them; ML-KEM stays a parameter.\<close>

definition with_orlp :: "sha512_context \<Rightarrow> bytes \<Rightarrow> vendored \<Rightarrow> vendored" where
  "with_orlp ctx out v =
     v\<lparr>create_keypair := orlp_create_keypair ctx out, sign_msg := orlp_sign ctx out, verify_msg := orlp_verify ctx out\<rparr>"

end
