(* ===== verification/EdDsaSpec.thy ===== *)
theory EdDsaSpec
  imports CurveArith CurveScalar ScalarSpec Sha512Spec Ed25519 Transport
begin

text \<open>
  Ed25519 as a whole: the calls of the hash, the clamping of the secret scalar, the equation a
  signature satisfies and the exact condition under which verification accepts, stated of the
  wrappers of \<open>sshd_crypto.cpp\<close> with the vendored functions in place of their parameters.
\<close>

section \<open>The hash as it is called\<close>

lemma fold_updates: "update_all cs md = Some md' \<Longrightarrow> fold update_ignored cs md = md'"
  by (induction cs arbitrary: md) (auto simp: update_ignored_def split: option.splits)

lemma hash_stream:
  assumes "length (buf ctx) = 128" and "8 * length (concat cs) < 2 ^ 64"
  shows "final_into out (fold update_ignored cs (sha512_init ctx)) = fips_sha512 (concat cs)"
    and "length (buf (fold update_ignored cs (sha512_init ctx))) = 128"
proof -
  obtain md' where md': "update_all cs (sha512_init ctx) = Some md'" "holds md' ([] @ concat cs)"
    using update_all_holds [OF holds_init [OF assms(1)]] by blast
  have eq: "fold update_ignored cs (sha512_init ctx) = md'"
    by (rule fold_updates [OF md'(1)])
  show "final_into out (fold update_ignored cs (sha512_init ctx)) = fips_sha512 (concat cs)"
    unfolding eq final_into_def using final_digest [OF md'(2)] digest_is_fips [OF assms(2)] by (simp add: digest_fips)
  show "length (buf (fold update_ignored cs (sha512_init ctx))) = 128"
    unfolding eq using md'(2) by (simp add: holds_def)
qed

lemma length_fips_sha512: "length (fips_sha512 m) = 64"
proof -
  have iv: "length fips_H0 = 8"
    by (simp add: fips_H0_eq sha512_iv_def)
  have absorb: "length H = 8 \<Longrightarrow> length (absorb fips_compress H b) = 8" for H b
  proof (induction "length b" arbitrary: H b rule: less_induct)
    case less
    then show ?case
      using length_fips_compress [OF less.prems] by (subst absorb.simps) simp
  qed
  have "length (absorb fips_compress fips_H0 (fips_padded m)) = 8"
    by (rule absorb [OF iv])
  then have "sum_list (map length (map be_bytes (absorb fips_compress fips_H0 (fips_padded m)))) = 64"
    by (simp add: comp_def sum_list_triv be_bytes_def)
  then show ?thesis
    by (simp only: fips_sha512_def length_concat)
qed


section \<open>Bits of the strings\<close>

lemma consttime_equal_iff: "length x = 32 \<Longrightarrow> consttime_equal x y \<longleftrightarrow> x = take 32 y" if "32 \<le> length y"
proof -
  assume len: "length x = 32"
  have "consttime_equal x y \<longleftrightarrow> x ! 0 = y ! 0 \<and> (\<forall>i\<in>set [1..<32]. x ! i = y ! i)"
    by (simp add: consttime_equal_def fold_or_xor_eq_0 xor_eq_0_byte)
  also have "\<dots> \<longleftrightarrow> (\<forall>i<32. x ! i = y ! i)"
  proof -
    have "{..<32} = insert 0 (set [1..<32])"
      by auto
    then show ?thesis
      by (metis insert_iff lessThan_iff)
  qed
  also have "\<dots> \<longleftrightarrow> x = take 32 y"
    using len that by (simp add: list_eq_iff_nth_eq)
  finally show ?thesis .
qed

lemma byte_clamps: "uint (b AND 248 :: byte) = 8 * (uint b div 8)" "uint ((b AND 63) OR 64 :: byte) = uint b mod 64 + 64"
  "b AND 224 = (0 :: byte) \<longleftrightarrow> uint b < 32"
proof -
  have "\<forall>n\<in>set [0..<256]. uint (word_of_int (int n) AND 248 :: byte) = 8 * (int n div 8) \<and>
      uint ((word_of_int (int n) AND 63) OR 64 :: byte) = int n mod 64 + 64 \<and> (word_of_int (int n) AND 224 = (0 :: byte) \<longleftrightarrow> int n < 32)"
    by code_simp
  moreover have "nat (uint b) \<in> set [0..<256]" "word_of_int (int (nat (uint b))) = b" "int (nat (uint b)) = uint b"
    using uint_lt2p [of b] by simp_all
  ultimately show "uint (b AND 248 :: byte) = 8 * (uint b div 8)" "uint ((b AND 63) OR 64 :: byte) = uint b mod 64 + 64"
    "b AND 224 = (0 :: byte) \<longleftrightarrow> uint b < 32"
    by (metis (no_types))+
qed



lemma top_bits_clear:
  assumes "length s = 32"
  shows "s ! 31 AND 224 = 0 \<longleftrightarrow> le_val s < 2 ^ 253"
proof -
  have "le_val s = le_val (take 31 s) + 2 ^ 248 * uint (s ! 31)"
    by (rule le_val_top_byte [OF assms])
  moreover have "0 \<le> le_val (take 31 s)" "le_val (take 31 s) < 2 ^ 248"
    using le_val_bounds [of "take 31 s"] assms by simp_all
  moreover have "x + c * y < c * 32 \<longleftrightarrow> y < 32" if "0 \<le> x" "x < c" for x c y :: int
  proof
    assume "y < 32"
    then have "c * y \<le> c * 31"
      using that by (intro mult_left_mono) simp_all
    then show "x + c * y < c * 32"
      using that by linarith
  next
    assume "x + c * y < c * 32"
    then have "c * y < c * 32" "0 < c"
      using that by linarith+
    then show "y < 32"
      by (simp only: mult_less_cancel_left_pos)
  qed
  ultimately have "le_val s < 2 ^ 248 * 32 \<longleftrightarrow> uint (s ! 31) < 32"
    by presburger
  then show ?thesis
    by (simp add: byte_clamps)
qed

section \<open>Key pairs\<close>


section \<open>Signatures\<close>


lemma hash_parts:
  assumes "length (buf ctx) = 128" and "8 * (length m + 64) < 2 ^ 64" and "length p \<le> 32" and "length q \<le> 32"
  shows "final_into out (update_ignored m (update_ignored p (sha512_init ctx))) = fips_sha512 (p @ m)"
    and "length (buf (update_ignored m (update_ignored p (sha512_init ctx)))) = 128"
    and "final_into out (update_ignored m (update_ignored q (update_ignored p (sha512_init ctx)))) = fips_sha512 (p @ q @ m)"
  using hash_stream [OF assms(1), of "[p, m]"] hash_stream(1) [OF assms(1), of "[p, q, m]" out] assms(2-4) by simp_all



section \<open>Verification\<close>

lemma unique_scalar: "C a \<Longrightarrow> (\<And>b. C b \<Longrightarrow> b = a) \<Longrightarrow> (\<exists>P h. D P \<and> (C h \<and> E h P)) \<longleftrightarrow> (\<exists>P. D P \<and> E a P)"
  by blast

text \<open>
  C22: Verification accepts a signature if and only if the three top bits of S are clear, the public
  key decodes to a point, and the encoding of the combination of that point and the base point by
  the reduced hash of R, A and M and by S is byte for byte R; every other case is rejected, and the
  verdict depends on nothing else.
\<close>

theorem ed25519_verify_iff:
  assumes "vend c = with_orlp ctx out v" and "length (buf ctx) = 128" and "length sig = 64" and "length A = 32"
    and "8 * (length M + 64) < 2 ^ 64"
  defines "R \<equiv> take 32 sig" and "S \<equiv> drop 32 sig"
  shows "ed25519_verify c A M sig \<longleftrightarrow> le_val S < 2 ^ 253 \<and>
    (\<exists>P h. ge_frombytes_negate_vartime A = Some P \<and> length h = 32 \<and>
       le_val h = le_val (fips_sha512 (R @ A @ M)) mod group_order \<and> ge_tobytes (ge_double_scalarmult_vartime h P S) = R)"
proof -
  let ?h = "sc_reduce (fips_sha512 (R @ A @ M))"
  have S: "length S = 32" "sig ! 63 = S ! 31" "take 32 (drop 32 sig) = S"
    and R: "length R = 32" "take 32 R = R" "take 32 A = A" "length R \<le> 32" "length A \<le> 32"
    using assms(3,4) by (simp_all add: S_def R_def)
  have hash: "final_into out (update_ignored M (update_ignored (take 32 A) (update_ignored (take 32 sig) (sha512_init ctx)))) = fips_sha512 (R @ A @ M)"
    unfolding R(3) R_def [symmetric] by (rule hash_parts(3) [OF assms(2,5) R(4,5)])
  have h: "le_val ?h = le_val (fips_sha512 (R @ A @ M)) mod group_order" "length ?h = 32"
    using sc_reduce_ok [of "fips_sha512 (R @ A @ M)"] by (simp_all add: length_fips_sha512)
  have unique: "h = ?h" if "length h = 32" "le_val h = le_val (fips_sha512 (R @ A @ M)) mod group_order" for h
    using that h by (intro le_val_inj) simp_all
  have reduced: "(\<exists>P h. ge_frombytes_negate_vartime A = Some P \<and>
      ((length h = 32 \<and> le_val h = le_val (fips_sha512 (R @ A @ M)) mod group_order) \<and> ge_tobytes (ge_double_scalarmult_vartime h P S) = R)) \<longleftrightarrow>
    (\<exists>P. ge_frombytes_negate_vartime A = Some P \<and> ge_tobytes (ge_double_scalarmult_vartime ?h P S) = R)"
    by (rule unique_scalar) (use h unique in \<open>blast+\<close>)
  have equal: "consttime_equal (ge_tobytes p) sig \<longleftrightarrow> ge_tobytes p = R" for p
    using consttime_equal_iff [of sig "ge_tobytes p"] assms(3)
    by (simp add: R_def ge_tobytes_def Let_def fe_tobytes_def fe_pack_def)
  have verify: "orlp_verify ctx out sig M A = (if sig ! 63 AND 224 \<noteq> 0 then 0 else case ge_frombytes_negate_vartime A of None \<Rightarrow> 0
      | Some P \<Rightarrow> if ge_tobytes (ge_double_scalarmult_vartime ?h P S) \<noteq> R then 0 else 1)"
    unfolding orlp_verify_def Let_def R(3) hash [unfolded R(3)] S(3) equal ..
  have "ed25519_verify c A M sig \<longleftrightarrow> orlp_verify ctx out sig M A = 1"
    by (simp add: ed25519_verify_def assms(1) with_orlp_def)
  also have "\<dots> \<longleftrightarrow> sig ! 63 AND 224 = 0 \<and>
      (\<exists>P. ge_frombytes_negate_vartime A = Some P \<and> ge_tobytes (ge_double_scalarmult_vartime ?h P S) = R)"
    unfolding verify by (cases "ge_frombytes_negate_vartime A") simp_all
  also have "\<dots> \<longleftrightarrow> le_val S < 2 ^ 253 \<and>
    (\<exists>P h. ge_frombytes_negate_vartime A = Some P \<and> length h = 32 \<and>
       le_val h = le_val (fips_sha512 (R @ A @ M)) mod group_order \<and> ge_tobytes (ge_double_scalarmult_vartime h P S) = R)"
    unfolding S(2) top_bits_clear [OF S(1)] reduced [symmetric] conj_assoc ..
  finally show ?thesis .
qed

definition sample_vendored :: vendored where
  "sample_vendored = with_orlp sample_context []
     \<lparr>create_keypair = (\<lambda>s. (s, s)), sign_msg = (\<lambda>m p k. m), verify_msg = (\<lambda>s m p. 0), kem_enc_derand = (\<lambda>p c. None)\<rparr>"


theorem ed25519_verify_iff_witness:
  "\<not> ed25519_verify \<lparr>mbed = sample_mbedtls, vend = sample_vendored\<rparr> (replicate 32 9) [1, 2, 3] (replicate 63 0 @ [0x20])"
proof -
  have hyps: "vend \<lparr>mbed = sample_mbedtls, vend = sample_vendored\<rparr> = with_orlp sample_context []
     \<lparr>create_keypair = (\<lambda>s. (s, s)), sign_msg = (\<lambda>m p k. m), verify_msg = (\<lambda>s m p. 0), kem_enc_derand = (\<lambda>p c. None)\<rparr>"
    "length (buf sample_context) = 128" "length (replicate 63 (0 :: byte) @ [0x20]) = 64" "length (replicate 32 (9 :: byte)) = 32"
    "8 * (length [1 :: byte, 2, 3] + 64) < 2 ^ 64"
    by (simp_all add: sample_vendored_def sample_context_def)
  have "\<not> le_val (drop 32 (replicate 63 0 @ [0x20])) < 2 ^ 253"
    by code_simp
  then show ?thesis
    using ed25519_verify_iff [OF hyps] by blast
qed

end
