(* ===== verification/Keccak.thy ===== *)
theory Keccak
  imports Prelude
begin

text \<open>
  The Keccak permutation, the hashes SHA3-256 and SHA3-512 and the streams SHAKE128 and SHAKE256
  (\<open>mlkem_native/src/fips202\<close>), alone and four at a time.  A state is its list of 25 lanes.  The
  bytes of a state are read and written by the portable variant of \<open>xor_bytes\<close> and
  \<open>extract_bytes\<close>; the other variant addresses the same bytes in the memory of a little-endian
  machine.  A state that a function sets up itself has no contents before, and zeroing it at the
  end has no effect that a caller can observe.
\<close>

section \<open>The permutation\<close>

definition ROL :: "u64 \<Rightarrow> nat \<Rightarrow> u64" where
  "ROL a offset = push_bit offset a XOR drop_bit (64 - offset) a"

definition KeccakF_RoundConstants :: "u64 list" where
  "KeccakF_RoundConstants =
    [0x0000000000000001, 0x0000000000008082, 0x800000000000808a, 0x8000000080008000, 0x000000000000808b, 0x0000000080000001,
     0x8000000080008081, 0x8000000000008009, 0x000000000000008a, 0x0000000000000088, 0x0000000080008009, 0x000000008000000a,
     0x000000008000808b, 0x800000000000008b, 0x8000000000008089, 0x8000000000008003, 0x8000000000008002, 0x8000000000000080,
     0x000000000000800a, 0x800000008000000a, 0x8000000080008081, 0x8000000000008080, 0x0000000080000001, 0x8000000080008008]"

text \<open>
  One round, in the names of the first half of the loop body; the second half is the same
  sequence of statements with the lanes \<open>A\<close> and \<open>E\<close> exchanged.
\<close>

definition keccak_round :: "u64 \<Rightarrow> u64 list \<Rightarrow> u64 list" where
  "keccak_round rc s =
     (let Aba = s ! 0; Abe = s ! 1; Abi = s ! 2; Abo = s ! 3; Abu = s ! 4; Aga = s ! 5; Age = s ! 6; Agi = s ! 7; Ago = s ! 8;
        Agu = s ! 9; Aka = s ! 10; Ake = s ! 11; Aki = s ! 12; Ako = s ! 13; Aku = s ! 14; Ama = s ! 15; Ame = s ! 16;
        Ami = s ! 17; Amo = s ! 18; Amu = s ! 19; Asa = s ! 20; Ase = s ! 21; Asi = s ! 22; Aso = s ! 23; Asu = s ! 24;
        BCa = Aba XOR Aga XOR Aka XOR Ama XOR Asa; BCe = Abe XOR Age XOR Ake XOR Ame XOR Ase;
        BCi = Abi XOR Agi XOR Aki XOR Ami XOR Asi; BCo = Abo XOR Ago XOR Ako XOR Amo XOR Aso;
        BCu = Abu XOR Agu XOR Aku XOR Amu XOR Asu; Da = BCu XOR ROL BCe 1; De = BCa XOR ROL BCi 1; Di = BCe XOR ROL BCo 1;
        Do = BCi XOR ROL BCu 1; Du = BCo XOR ROL BCa 1; Aba = Aba XOR Da; BCa = Aba; Age = Age XOR De; BCe = ROL Age 44;
        Aki = Aki XOR Di; BCi = ROL Aki 43; Amo = Amo XOR Do; BCo = ROL Amo 21; Asu = Asu XOR Du; BCu = ROL Asu 14;
        Eba = BCa XOR (NOT BCe AND BCi); Eba = Eba XOR rc; Ebe = BCe XOR (NOT BCi AND BCo); Ebi = BCi XOR (NOT BCo AND BCu);
        Ebo = BCo XOR (NOT BCu AND BCa); Ebu = BCu XOR (NOT BCa AND BCe); Abo = Abo XOR Do; BCa = ROL Abo 28; Agu = Agu XOR Du;
        BCe = ROL Agu 20; Aka = Aka XOR Da; BCi = ROL Aka 3; Ame = Ame XOR De; BCo = ROL Ame 45; Asi = Asi XOR Di;
        BCu = ROL Asi 61; Ega = BCa XOR (NOT BCe AND BCi); Ege = BCe XOR (NOT BCi AND BCo); Egi = BCi XOR (NOT BCo AND BCu);
        Ego = BCo XOR (NOT BCu AND BCa); Egu = BCu XOR (NOT BCa AND BCe); Abe = Abe XOR De; BCa = ROL Abe 1; Agi = Agi XOR Di;
        BCe = ROL Agi 6; Ako = Ako XOR Do; BCi = ROL Ako 25; Amu = Amu XOR Du; BCo = ROL Amu 8; Asa = Asa XOR Da;
        BCu = ROL Asa 18; Eka = BCa XOR (NOT BCe AND BCi); Eke = BCe XOR (NOT BCi AND BCo); Eki = BCi XOR (NOT BCo AND BCu);
        Eko = BCo XOR (NOT BCu AND BCa); Eku = BCu XOR (NOT BCa AND BCe); Abu = Abu XOR Du; BCa = ROL Abu 27; Aga = Aga XOR Da;
        BCe = ROL Aga 36; Ake = Ake XOR De; BCi = ROL Ake 10; Ami = Ami XOR Di; BCo = ROL Ami 15; Aso = Aso XOR Do;
        BCu = ROL Aso 56; Ema = BCa XOR (NOT BCe AND BCi); Eme = BCe XOR (NOT BCi AND BCo); Emi = BCi XOR (NOT BCo AND BCu);
        Emo = BCo XOR (NOT BCu AND BCa); Emu = BCu XOR (NOT BCa AND BCe); Abi = Abi XOR Di; BCa = ROL Abi 62; Ago = Ago XOR Do;
        BCe = ROL Ago 55; Aku = Aku XOR Du; BCi = ROL Aku 39; Ama = Ama XOR Da; BCo = ROL Ama 41; Ase = Ase XOR De;
        BCu = ROL Ase 2; Esa = BCa XOR (NOT BCe AND BCi); Ese = BCe XOR (NOT BCi AND BCo); Esi = BCi XOR (NOT BCo AND BCu);
        Eso = BCo XOR (NOT BCu AND BCa); Esu = BCu XOR (NOT BCa AND BCe)
      in [Eba, Ebe, Ebi, Ebo, Ebu, Ega, Ege, Egi, Ego, Egu, Eka, Eke, Eki, Eko, Eku,
          Ema, Eme, Emi, Emo, Emu, Esa, Ese, Esi, Eso, Esu])"

definition keccakf1600_permute :: "u64 list \<Rightarrow> u64 list" where
  "keccakf1600_permute state =
     fold (\<lambda>round A. let E = keccak_round (KeccakF_RoundConstants ! round) A in keccak_round (KeccakF_RoundConstants ! (round + 1)) E)
       [0, 2, 4, 6, 8, 10, 12, 14, 16, 18, 20, 22] state"

section \<open>The bytes of a state\<close>

definition keccakf1600_extract_bytes :: "u64 list \<Rightarrow> nat \<Rightarrow> nat \<Rightarrow> bytes" where
  "keccakf1600_extract_bytes state offset len =
     map (\<lambda>i. ucast (drop_bit (8 * ((offset + i) mod 8)) (state ! ((offset + i) div 8)) AND 0xFF)) [0..<len]"

definition keccakf1600_xor_bytes :: "u64 list \<Rightarrow> bytes \<Rightarrow> nat \<Rightarrow> nat \<Rightarrow> u64 list" where
  "keccakf1600_xor_bytes state data offset len =
     fold (\<lambda>i s. s[(offset + i) div 8 := s ! ((offset + i) div 8) XOR push_bit (8 * ((offset + i) mod 8)) (ucast (data ! i))])
       [0..<len] state"

section \<open>Absorbing and squeezing\<close>

text \<open>The rates are the constants below; the guard \<open>r = 0\<close> is for totality.\<close>

function absorb_blocks :: "nat \<Rightarrow> u64 list \<Rightarrow> bytes \<Rightarrow> u64 list \<times> bytes" where
  "absorb_blocks r s m =
     (if r = 0 \<or> length m < r then (s, m) else absorb_blocks r (keccakf1600_permute (keccakf1600_xor_bytes s m 0 r)) (drop r m))"
  by pat_completeness auto
termination
  by (relation "measure (\<lambda>(r, s, m). length m)") auto

declare absorb_blocks.simps [simp del]

definition absorb_padding :: "nat \<Rightarrow> byte \<Rightarrow> u64 list \<times> bytes \<Rightarrow> u64 list" where
  "absorb_padding r p = (\<lambda>(s, m).
     let s = (if 0 < length m then keccakf1600_xor_bytes s m 0 (length m) else s)
     in if length m = r - 1 then keccakf1600_xor_bytes s [p OR 128] (length m) 1
        else keccakf1600_xor_bytes (keccakf1600_xor_bytes s [p] (length m) 1) [128] (r - 1) 1)"

definition keccak_absorb_once :: "nat \<Rightarrow> bytes \<Rightarrow> byte \<Rightarrow> u64 list" where
  "keccak_absorb_once r m p = absorb_padding r p (absorb_blocks r (replicate 25 0) m)"

primrec keccak_squeezeblocks :: "nat \<Rightarrow> u64 list \<Rightarrow> nat \<Rightarrow> bytes \<times> u64 list" where
  "keccak_squeezeblocks 0 s r = ([], s)"
| "keccak_squeezeblocks (Suc nblocks) s r =
     (let s = keccakf1600_permute s; h = keccakf1600_extract_bytes s 0 r; (h', s) = keccak_squeezeblocks nblocks s r in (h @ h', s))"

function keccak_squeeze_once :: "nat \<Rightarrow> u64 list \<Rightarrow> nat \<Rightarrow> bytes" where
  "keccak_squeeze_once outlen s r =
     (if outlen = 0 \<or> r = 0 then []
      else let s = keccakf1600_permute s; len = (if outlen < r then outlen else r)
        in keccakf1600_extract_bytes s 0 len @ keccak_squeeze_once (outlen - len) s r)"
  by pat_completeness auto
termination
  by (relation "measure (\<lambda>(n, s, r). n)") auto

declare keccak_squeeze_once.simps [simp del]

section \<open>The hashes and streams\<close>

definition SHAKE128_RATE :: nat where "SHAKE128_RATE = 168"

definition SHAKE256_RATE :: nat where "SHAKE256_RATE = 136"

definition SHA3_256_RATE :: nat where "SHA3_256_RATE = 136"

definition SHA3_512_RATE :: nat where "SHA3_512_RATE = 72"

definition shake128_absorb_once :: "bytes \<Rightarrow> u64 list" where
  "shake128_absorb_once input = keccak_absorb_once SHAKE128_RATE input 0x1F"

definition shake128_squeezeblocks :: "nat \<Rightarrow> u64 list \<Rightarrow> bytes \<times> u64 list" where
  "shake128_squeezeblocks nblocks state = keccak_squeezeblocks nblocks state SHAKE128_RATE"

definition shake256 :: "nat \<Rightarrow> bytes \<Rightarrow> bytes" where
  "shake256 outlen input = keccak_squeeze_once outlen (keccak_absorb_once SHAKE256_RATE input 0x1F) SHAKE256_RATE"

definition sha3_256 :: "bytes \<Rightarrow> bytes" where
  "sha3_256 input = keccak_squeeze_once 32 (keccak_absorb_once SHA3_256_RATE input 0x06) SHA3_256_RATE"

definition sha3_512 :: "bytes \<Rightarrow> bytes" where
  "sha3_512 input = keccak_squeeze_once 64 (keccak_absorb_once SHA3_512_RATE input 0x06) SHA3_512_RATE"

end
