(* ===== verification/KeccakSpec.thy ===== *)
theory KeccakSpec
  imports Keccak
begin

text \<open>
  The functions of theory \<open>Keccak\<close> against FIPS 202: the permutation by its five step mappings,
  the bytes of a state, and the sponge on strings of bytes.
\<close>

section \<open>The permutation of FIPS 202\<close>

text \<open>Lane \<open>(x, y)\<close> of a state is element \<open>x + 5 y\<close> of the list; coordinates count modulo 5.\<close>

definition lane :: "u64 list \<Rightarrow> nat \<Rightarrow> nat \<Rightarrow> u64" where
  "lane s x y = s ! (x mod 5 + 5 * (y mod 5))"

definition lanes :: "(nat \<Rightarrow> nat \<Rightarrow> u64) \<Rightarrow> u64 list" where
  "lanes f = map (\<lambda>k. f (k mod 5) (k div 5)) [0..<25]"

definition parity :: "u64 list \<Rightarrow> nat \<Rightarrow> u64" where
  "parity s x = lane s x 0 XOR lane s x 1 XOR lane s x 2 XOR lane s x 3 XOR lane s x 4"

definition theta :: "u64 list \<Rightarrow> u64 list" where
  "theta s = lanes (\<lambda>x y. lane s x y XOR (parity s (x + 4) XOR word_rotl 1 (parity s (x + 1))))"

primrec rho_path :: "nat \<Rightarrow> nat \<times> nat" where
  "rho_path 0 = (1, 0)"
| "rho_path (Suc t) = (let (x, y) = rho_path t in (y, (2 * x + 3 * y) mod 5))"

definition rho_offset :: "nat \<Rightarrow> nat \<Rightarrow> nat" where
  "rho_offset x y = foldr (\<lambda>t n. if rho_path t = (x, y) then (t + 1) * (t + 2) div 2 mod 64 else n) [0..<24] 0"

definition rho :: "u64 list \<Rightarrow> u64 list" where
  "rho s = lanes (\<lambda>x y. word_rotl (rho_offset x y) (lane s x y))"

definition pi_step :: "u64 list \<Rightarrow> u64 list" where
  "pi_step s = lanes (\<lambda>x y. lane s (x + 3 * y) x)"

definition chi :: "u64 list \<Rightarrow> u64 list" where
  "chi s = lanes (\<lambda>x y. lane s x y XOR (NOT (lane s (x + 1) y) AND lane s (x + 2) y))"

definition iota :: "u64 \<Rightarrow> u64 list \<Rightarrow> u64 list" where
  "iota rc s = s[0 := s ! 0 XOR rc]"

text \<open>The round constants come from a shift register with feedback.\<close>

definition lfsr_step :: "bool list \<Rightarrow> bool list" where
  "lfsr_step r = (let r = False # r; b = r ! 8 in take 8 (r[0 := r ! 0 \<noteq> b, 4 := r ! 4 \<noteq> b, 5 := r ! 5 \<noteq> b, 6 := r ! 6 \<noteq> b]))"

primrec lfsr :: "nat \<Rightarrow> bool list" where
  "lfsr 0 = True # replicate 7 False"
| "lfsr (Suc t) = lfsr_step (lfsr t)"

definition round_constant :: "nat \<Rightarrow> u64" where
  "round_constant ir = fold (\<lambda>j w. if lfsr ((j + 7 * ir) mod 255) ! 0 then w OR push_bit (2 ^ j - 1) 1 else w) [0..<7] 0"

definition keccak_f :: "u64 list \<Rightarrow> u64 list" where
  "keccak_f s = fold (\<lambda>ir A. iota (round_constant ir) (chi (pi_step (rho (theta A))))) [0..<24] s"

section \<open>The round\<close>

lemma ROL_rotl: "0 < n \<Longrightarrow> n < 64 \<Longrightarrow> ROL a n = word_rotl n a"
proof (rule bit_word_eqI)
  fix k
  assume n: "0 < n" "n < 64" and "k < LENGTH(64)"
  then have k: "k < 64"
    by simp
  show "bit (ROL a n) k \<longleftrightarrow> bit (word_rotl n a) k"
  proof (cases "n \<le> k")
    case True
    then have "(k + (64 - n)) mod 64 = k - n"
      using n k by (simp add: mod_if)
    moreover have "\<not> bit a (64 - n + k)"
      using True n by (intro notI) (auto dest: bit_imp_le_length)
    ultimately show ?thesis
      using True n k by (simp add: ROL_def bit_simps)
  next
    case False
    then have "(k + (64 - n)) mod 64 = 64 - n + k"
      using n by simp
    then show ?thesis
      using False n k by (simp add: ROL_def bit_simps)
  qed
qed

lemma rotl_zero: "word_rotl 0 a = (a :: u64)"
  by (rule bit_word_eqI) (simp add: bit_simps)

lemma length_lanes [simp]: "length (lanes f) = 25"
  by (simp add: lanes_def)

lemma lane_lanes: "lane (lanes f) x y = f (x mod 5) (y mod 5)"
proof -
  have "x mod 5 + 5 * (y mod 5) < 25"
    using mod_less_divisor [of 5 x] mod_less_divisor [of 5 y] by simp
  then show ?thesis
    by (simp add: lane_def lanes_def)
qed

lemma rho_offsets: "map (\<lambda>k. rho_offset (k mod 5) (k div 5)) [0..<25] =
  [0, 1, 62, 28, 27, 36, 44, 6, 55, 20, 3, 10, 43, 25, 39, 41, 45, 15, 21, 8, 18, 2, 61, 56, 14]"
  by code_simp

lemma round_constants: "map round_constant [0..<24] = KeccakF_RoundConstants"
  by code_simp

lemma state25: "length s = 25 \<Longrightarrow> s = map ((!) s) [0..<25]"
  by (metis map_nth)

lemma lane_steps:
  "lane (pi_step s) x y = lane s (x mod 5 + 3 * (y mod 5)) (x mod 5)"
  "lane (rho s) x y = word_rotl (rho_offset (x mod 5) (y mod 5)) (lane s x y)"
  "lane (theta s) x y = lane s x y XOR (parity s (x mod 5 + 4) XOR word_rotl 1 (parity s (x mod 5 + 1)))"
  by (simp_all add: pi_step_def rho_def theta_def lane_lanes) (simp_all add: lane_def)

lemma lanes_list: "lanes f =
  [f 0 0, f 1 0, f 2 0, f 3 0, f 4 0, f 0 1, f 1 1, f 2 1, f 3 1, f 4 1, f 0 2, f 1 2, f 2 2, f 3 2, f 4 2,
   f 0 3, f 1 3, f 2 3, f 3 3, f 4 3, f 0 4, f 1 4, f 2 4, f 3 4, f 4 4]"
  by (simp add: lanes_def upt_rec flip: numeral_2_eq_2)

lemma keccak_round_fips: "keccak_round rc s = iota rc (chi (pi_step (rho (theta s))))"
proof -
  have off: "rho_offset (k mod 5) (k div 5) = [0, 1, 62, 28, 27, 36, 44, 6, 55, 20, 3, 10, 43, 25, 39, 41, 45, 15, 21, 8, 18, 2, 61, 56, 14] ! k"
    if "k < 25" for k
    using that arg_cong [OF rho_offsets, of "\<lambda>l. l ! k"] by simp
  note offsets = off [of 0] off [of 1] off [of 2] off [of 3] off [of 4] off [of 5] off [of 6] off [of 7] off [of 8] off [of 9]
    off [of 10] off [of 11] off [of 12] off [of 13] off [of 14] off [of 15] off [of 16] off [of 17] off [of 18] off [of 19]
    off [of 20] off [of 21] off [of 22] off [of 23] off [of 24]
  note rotl = ROL_rotl [symmetric]
  show ?thesis
    unfolding keccak_round_def chi_def lanes_list iota_def
    using offsets
    by (simp add: Let_def lane_steps parity_def) (simp add: lane_def ROL_rotl rotl_zero flip: numeral_2_eq_2)
qed

lemma permute_fips: "keccakf1600_permute s = keccak_f s"
proof -
  have rc: "KeccakF_RoundConstants ! k = round_constant k" if "k < 24" for k
    using that arg_cong [OF round_constants, of "\<lambda>l. l ! k"] by simp
  have upt: "[0..<24] = [0, 1, 2, 3, 4, 5, 6, 7, 8, 9, 10, 11, 12, 13, 14, 15, 16, 17, 18, 19, 20, 21, 22, 23 :: nat]"
    by (simp add: upt_rec)
  show ?thesis
    unfolding keccakf1600_permute_def keccak_f_def keccak_round_fips upt Let_def by (simp add: rc)
qed

lemma length_permute [simp]: "length (keccakf1600_permute s) = 25"
proof -
  have "[0..<24] = [0..<23] @ [23]"
    using upt_Suc_append [of 0 23] by simp
  then show ?thesis
    unfolding permute_fips keccak_f_def by (simp only: fold_append comp_apply fold.simps id_apply) (simp add: iota_def chi_def)
qed

section \<open>The bytes of a state\<close>

definition state_bytes :: "u64 list \<Rightarrow> bytes" where
  "state_bytes s = keccakf1600_extract_bytes s 0 200"

definition state_byte :: "u64 list \<Rightarrow> nat \<Rightarrow> byte" where
  "state_byte s j = ucast (drop_bit (8 * (j mod 8)) (s ! (j div 8)))"

lemma extract_nth: "i < n \<Longrightarrow> keccakf1600_extract_bytes s offset n ! i = state_byte s (offset + i)"
proof -
  have mask: "(0xFF :: u64) = mask 8"
    by (simp add: mask_eq_exp_minus_1)
  have "ucast (x AND 0xFF) = (ucast x :: byte)" for x :: u64
    unfolding mask by (rule bit_word_eqI) (auto simp: bit_simps)
  then show "i < n \<Longrightarrow> keccakf1600_extract_bytes s offset n ! i = state_byte s (offset + i)"
    by (simp add: keccakf1600_extract_bytes_def state_byte_def)
qed

lemma length_extract [simp]: "length (keccakf1600_extract_bytes s offset n) = n"
  by (simp add: keccakf1600_extract_bytes_def)

lemma state_bytes_nth: "j < 200 \<Longrightarrow> state_bytes s ! j = state_byte s j" "length (state_bytes s) = 200"
  by (simp_all add: state_bytes_def extract_nth)

lemma extract_bytes_eq: "offset + n \<le> 200 \<Longrightarrow> keccakf1600_extract_bytes s offset n = take n (drop offset (state_bytes s))"
  by (rule nth_equalityI) (simp_all add: state_bytes_nth extract_nth)

lemma state_byte_update:
  assumes "j < 200" and "k < 200" and "length s = 25"
  shows "state_byte (s[k div 8 := s ! (k div 8) XOR push_bit (8 * (k mod 8)) (ucast d)]) j = state_byte s j XOR (if j = k then d else 0)"
proof (rule bit_word_eqI)
  fix n
  assume "n < LENGTH(8)"
  then have n: "n < 8"
    by simp
  have k: "k div 8 < 25"
    using assms(2) by simp
  have small: "8 * (j mod 8) + n < 64"
    using n mod_less_divisor [of 8 j] by linarith
  have shift: "8 * b \<le> 8 * a + n \<and> 8 * a + n - 8 * b < 8 \<longleftrightarrow> a = b" for a b :: nat
    using n by presburger
  show "bit (state_byte (s[k div 8 := s ! (k div 8) XOR push_bit (8 * (k mod 8)) (ucast d)]) j) n \<longleftrightarrow>
      bit (state_byte s j XOR (if j = k then d else 0)) n"
  proof (cases "j div 8 = k div 8")
    case True
    have "bit (push_bit (8 * (k mod 8)) (ucast d :: u64)) (8 * (j mod 8) + n) \<longleftrightarrow> j = k \<and> bit d n"
    proof (cases "j mod 8 = k mod 8")
      case True
      then have "j = k"
        using \<open>j div 8 = k div 8\<close> by (metis div_mod_decomp)
      then show ?thesis
        using small n by (simp add: bit_simps)
    next
      case False
      then have "\<not> bit d (8 * (j mod 8) + n - 8 * (k mod 8)) \<or> \<not> 8 * (k mod 8) \<le> 8 * (j mod 8) + n"
        using shift [of "k mod 8" "j mod 8"] by (auto dest!: bit_imp_le_length)
      then show ?thesis
        using False by (auto simp: bit_simps)
    qed
    then show ?thesis
      using True k n small assms(3) by (auto simp: state_byte_def bit_simps)
  next
    case False
    then show ?thesis
      by (auto simp: state_byte_def)
  qed
qed

lemma xor_bytes_byte:
  assumes "offset + n \<le> 200" and "length s = 25" and "j < 200"
  shows "state_byte (keccakf1600_xor_bytes s d offset n) j = state_byte s j XOR (if offset \<le> j \<and> j < offset + n then d ! (j - offset) else 0) \<and>
    length (keccakf1600_xor_bytes s d offset n) = 25"
  using assms(1)
proof (induction n)
  case 0
  then show ?case
    using assms(2) by (auto simp: keccakf1600_xor_bytes_def)
next
  case (Suc n)
  let ?s = "keccakf1600_xor_bytes s d offset n"
  have IH: "state_byte ?s j = state_byte s j XOR (if offset \<le> j \<and> j < offset + n then d ! (j - offset) else 0)" "length ?s = 25"
    using Suc by simp_all
  have "keccakf1600_xor_bytes s d offset (Suc n) =
      ?s[(offset + n) div 8 := ?s ! ((offset + n) div 8) XOR push_bit (8 * ((offset + n) mod 8)) (ucast (d ! n))]"
    by (simp add: keccakf1600_xor_bytes_def)
  then show ?case
    using state_byte_update [OF assms(3) _ IH(2), of "offset + n" "d ! n"] Suc.prems IH by (auto simp: less_Suc_eq)
qed

section \<open>The sponge of FIPS 202\<close>

text \<open>States are strings of 200 bytes here; \<open>keccak_p\<close> is the permutation on them.\<close>

definition bytes_state :: "bytes \<Rightarrow> u64 list" where
  "bytes_state b = map (\<lambda>k. horner_sum of_bool 2 (concat (map (\<lambda>i. map (bit (b ! (8 * k + i))) [0..<8]) [0..<8]))) [0..<25]"

definition keccak_p :: "bytes \<Rightarrow> bytes" where
  "keccak_p b = state_bytes (keccak_f (bytes_state b))"

definition xor_into :: "bytes \<Rightarrow> bytes \<Rightarrow> bytes" where
  "xor_into b d = map (\<lambda>i. b ! i XOR (if i < length d then d ! i else 0)) [0..<length b]"

text \<open>
  The domain suffix and the first bit of the padding are one byte \<open>p\<close>; the last bit of the padding
  is the top bit of the last byte of the block.
\<close>

definition pad_tail :: "nat \<Rightarrow> byte \<Rightarrow> nat \<Rightarrow> bytes" where
  "pad_tail r p n = (let q = r - n mod r in if q = 1 then [p OR 0x80] else [p] @ replicate (q - 2) 0 @ [0x80])"

function blocks :: "nat \<Rightarrow> bytes \<Rightarrow> bytes list" where
  "blocks r m = (if r = 0 \<or> m = [] then [] else take r m # blocks r (drop r m))"
  by pat_completeness auto
termination
  by (relation "measure (\<lambda>(r, m). length m)") auto

declare blocks.simps [simp del]

definition absorbed :: "nat \<Rightarrow> bytes \<Rightarrow> bytes" where
  "absorbed r m = fold (\<lambda>b S. keccak_p (xor_into S b)) (blocks r m) (replicate 200 0)"

text \<open>Block \<open>i\<close> of the output is the first \<open>r\<close> bytes after \<open>i\<close> more permutations.\<close>

definition sponge :: "nat \<Rightarrow> byte \<Rightarrow> bytes \<Rightarrow> nat \<Rightarrow> bytes" where
  "sponge r p m n = take n (concat (map (\<lambda>i. take r ((keccak_p ^^ i) (absorbed r (m @ pad_tail r p (length m))))) [0..<n div r + 1]))"

lemma concat_upt: "concat (map (\<lambda>i. map f [8 * i..<8 * i + 8]) [0..<n]) = map f [0..<8 * n]"
proof (induction n)
  case (Suc n)
  have "[0..<8 * Suc n] = [0..<8 * n] @ [8 * n..<8 * n + 8]"
    using upt_add_eq_append [of 0 "8 * n" 8] by (simp add: add.commute)
  then show ?case
    using Suc by simp
qed simp

lemma bytes_state_bytes: "length s = 25 \<Longrightarrow> bytes_state (state_bytes s) = s"
proof (rule nth_equalityI)
  fix k
  assume len: "length s = 25" and "k < length (bytes_state (state_bytes s))"
  then have k: "k < 25"
    by (simp add: bytes_state_def)
  have byte: "map (bit (state_bytes s ! (8 * k + i))) [0..<8] = map (bit (s ! k)) [8 * i..<8 * i + 8]" if "i < 8" for i
  proof (rule nth_equalityI)
    fix n
    assume "n < length (map (bit (state_bytes s ! (8 * k + i))) [0..<8])"
    then have n: "n < 8"
      by simp
    have "8 * k + i < 200" "(8 * k + i) div 8 = k" "(8 * k + i) mod 8 = i"
      using k that by simp_all
    then show "map (bit (state_bytes s ! (8 * k + i))) [0..<8] ! n = map (bit (s ! k)) [8 * i..<8 * i + 8] ! n"
      using n that by (simp add: state_bytes_nth state_byte_def bit_simps)
  qed simp
  have "concat (map (\<lambda>i. map (bit (state_bytes s ! (8 * k + i))) [0..<8]) [0..<8]) =
      concat (map (\<lambda>i. map (bit (s ! k)) [8 * i..<8 * i + 8]) [0..<8])"
    by (intro arg_cong [where f = concat] map_cong refl byte) simp
  also have "\<dots> = map (bit (s ! k)) [0..<64]"
    using concat_upt [of "bit (s ! k)" 8] by simp
  finally have "bytes_state (state_bytes s) ! k = horner_sum of_bool 2 (map (bit (s ! k)) [0..<64])"
    using k by (simp add: bytes_state_def)
  also have "\<dots> = take_bit 64 (s ! k)"
    by (rule horner_sum_bit_eq_take_bit)
  also have "\<dots> = s ! k"
    by (rule bit_word_eqI) (simp add: bit_simps)
  finally show "bytes_state (state_bytes s) ! k = s ! k" .
qed (simp add: bytes_state_def)

lemma permute_bytes: "length s = 25 \<Longrightarrow> state_bytes (keccakf1600_permute s) = keccak_p (state_bytes s)"
  by (simp add: keccak_p_def bytes_state_bytes permute_fips)

lemma xor_bytes_into:
  assumes "length s = 25" and "length d \<le> n" and "n \<le> 200" and "\<And>i. i < n \<Longrightarrow> d' ! i = (if i < length d then d ! i else 0)"
  shows "state_bytes (keccakf1600_xor_bytes s d' 0 n) = xor_into (state_bytes s) d" and "length (keccakf1600_xor_bytes s d' 0 n) = 25"
proof -
  show "state_bytes (keccakf1600_xor_bytes s d' 0 n) = xor_into (state_bytes s) d"
    using xor_bytes_byte [of 0 n s _ d'] assms by (intro nth_equalityI) (auto simp: state_bytes_nth xor_into_def)
  show "length (keccakf1600_xor_bytes s d' 0 n) = 25"
    using xor_bytes_byte [of 0 n s 0 d'] assms by simp
qed

section \<open>Absorbing\<close>

lemma blocks_append: "length b = r \<Longrightarrow> 0 < r \<Longrightarrow> blocks r (b @ m) = b # blocks r m"
  by (subst blocks.simps) auto

lemma absorb_blocks_ok:
  assumes "length s = 25" and "0 < r" and "r \<le> 200"
  shows "\<exists>bs. m = concat bs @ snd (absorb_blocks r s m) \<and> (\<forall>b\<in>set bs. length b = r) \<and>
    length (snd (absorb_blocks r s m)) < r \<and> length (fst (absorb_blocks r s m)) = 25 \<and>
    state_bytes (fst (absorb_blocks r s m)) = fold (\<lambda>b S. keccak_p (xor_into S b)) bs (state_bytes s)"
  using assms
proof (induction r s m rule: absorb_blocks.induct)
  case (1 r s m)
  show ?case
  proof (cases "length m < r")
    case True
    then show ?thesis
      using 1(2) by (intro exI [of _ "[]"]) (simp add: absorb_blocks.simps [of r s m])
  next
    case False
    let ?s = "keccakf1600_permute (keccakf1600_xor_bytes s m 0 r)"
    have step: "absorb_blocks r s m = absorb_blocks r ?s (drop r m)"
      using False 1(3) by (simp add: absorb_blocks.simps [of r s m])
    have s: "state_bytes (keccakf1600_xor_bytes s m 0 r) = xor_into (state_bytes s) (take r m)" "length (keccakf1600_xor_bytes s m 0 r) = 25"
      using xor_bytes_into [OF 1(2), of "take r m" r m] False 1(4) by simp_all
    obtain bs where bs: "drop r m = concat bs @ snd (absorb_blocks r ?s (drop r m))" "\<forall>b\<in>set bs. length b = r"
      "length (snd (absorb_blocks r ?s (drop r m))) < r" "length (fst (absorb_blocks r ?s (drop r m))) = 25"
      "state_bytes (fst (absorb_blocks r ?s (drop r m))) = fold (\<lambda>b S. keccak_p (xor_into S b)) bs (state_bytes ?s)"
      using 1(1) False 1(3,4) by auto
    have "m = concat (take r m # bs) @ snd (absorb_blocks r s m)"
      unfolding step using bs(1) append_take_drop_id [of r m] by simp
    moreover have "state_bytes (fst (absorb_blocks r s m)) = fold (\<lambda>b S. keccak_p (xor_into S b)) (take r m # bs) (state_bytes s)"
      unfolding step using bs(5) permute_bytes [OF s(2)] s(1) by simp
    ultimately show ?thesis
      using bs(2-4) False unfolding step [symmetric] by (intro exI [of _ "take r m # bs"]) simp
  qed
qed

lemma blocks_concat: "\<forall>b\<in>set bs. length b = r \<Longrightarrow> 0 < r \<Longrightarrow> blocks r (concat bs @ m) = bs @ blocks r m"
  by (induction bs) (simp_all add: blocks_append)

lemma pad_tail_mod: "length m = n * r + k \<Longrightarrow> k < r \<Longrightarrow> pad_tail r p (length m) = pad_tail r p k"
  by (simp add: pad_tail_def)

lemma padding_ok:
  assumes "length s = 25" and "length m < r" and "r \<le> 200"
  shows "state_bytes (absorb_padding r p (s, m)) = xor_into (state_bytes s) (m @ pad_tail r p (length m)) \<and>
    length (absorb_padding r p (s, m)) = 25"
proof -
  let ?k = "length m"
  define s1 where "s1 = (if 0 < length m then keccakf1600_xor_bytes s m 0 (length m) else s)"
  have s1: "length s1 = 25" "j < 200 \<Longrightarrow> state_byte s1 j = state_byte s j XOR (if j < ?k then m ! j else 0)" for j
    using xor_bytes_byte [of 0 ?k s j m] xor_bytes_byte [of 0 ?k s 0 m] assms by (auto simp: s1_def)
  show ?thesis
  proof (cases "?k = r - 1")
    case True
    have pad: "absorb_padding r p (s, m) = keccakf1600_xor_bytes s1 [p OR 128] ?k 1"
      unfolding absorb_padding_def prod.case Let_def s1_def [symmetric] by (rule if_P [OF True])
    have tail: "pad_tail r p ?k = [p OR 128]"
      using True assms(2) by (simp add: pad_tail_def)
    show ?thesis
      unfolding pad tail using xor_bytes_byte [of ?k 1 s1 _ "[p OR 128]"] xor_bytes_byte [of ?k 1 s1 0 "[p OR 128]"] s1 assms
      by (auto intro!: nth_equalityI simp: state_bytes_nth xor_into_def nth_append)
  next
    case False
    define s2 where "s2 = keccakf1600_xor_bytes s1 [p] ?k 1"
    have s2: "length s2 = 25" "j < 200 \<Longrightarrow> state_byte s2 j = state_byte s j XOR (if j < ?k then m ! j else if j = ?k then p else 0)" for j
      using xor_bytes_byte [of ?k 1 s1 j "[p]"] xor_bytes_byte [of ?k 1 s1 0 "[p]"] s1 assms by (auto simp: s2_def)
    have pad: "absorb_padding r p (s, m) = keccakf1600_xor_bytes s2 [128] (r - 1) 1"
      unfolding absorb_padding_def prod.case Let_def s1_def [symmetric] s2_def by (rule if_not_P [OF False])
    have tail: "pad_tail r p ?k = [p] @ replicate (r - ?k - 2) 0 @ [128]"
      using False assms(2) by (simp add: pad_tail_def Let_def)
    have "(m @ [p] @ replicate (r - ?k - 2) 0 @ [128]) ! j = (if j < ?k then m ! j else if j = ?k then p else if j = r - 1 then 128 else 0)" if "j < r" for j
      using that False assms(2) by (auto simp: nth_append nth_Cons')
    then show ?thesis
      unfolding pad tail using xor_bytes_byte [of "r - 1" 1 s2 _ "[128]"] xor_bytes_byte [of "r - 1" 1 s2 0 "[128]"] s2 assms False
      by (auto intro!: nth_equalityI simp: state_bytes_nth xor_into_def)
  qed
qed

lemma absorb_once_ok:
  assumes "0 < r" and "r \<le> 200"
  shows "keccak_p (state_bytes (keccak_absorb_once r m p)) = absorbed r (m @ pad_tail r p (length m))" and "length (keccak_absorb_once r m p) = 25"
proof -
  let ?z = "replicate 25 0 :: u64 list"
  obtain s m' where sm: "absorb_blocks r ?z m = (s, m')"
    by fastforce
  obtain bs where bs: "m = concat bs @ m'" "\<forall>b\<in>set bs. length b = r" "length m' < r" "length s = 25"
    "state_bytes s = fold (\<lambda>b S. keccak_p (xor_into S b)) bs (state_bytes ?z)"
    using absorb_blocks_ok [of ?z r m] assms unfolding sm by auto
  have zero: "state_bytes ?z = replicate 200 0"
    by (rule nth_equalityI) (simp_all add: state_bytes_nth state_byte_def)
  have "length (concat bs) = length bs * r"
    using bs(2) by (induction bs) simp_all
  then have tail: "pad_tail r p (length m) = pad_tail r p (length m')"
    using pad_tail_mod [of m "length bs" r "length m'" p] bs(1,3) by simp
  have len: "length (m' @ pad_tail r p (length m')) = r"
    using bs(3) by (simp add: pad_tail_def Let_def, arith)
  have "blocks r (m @ pad_tail r p (length m)) = bs @ [m' @ pad_tail r p (length m')]"
    unfolding tail using blocks_concat [OF bs(2) assms(1), of "m' @ pad_tail r p (length m')"] blocks_append [OF len assms(1), of "[]"] bs(1)
    by (simp add: blocks.simps [of r "[]"])
  then show "keccak_p (state_bytes (keccak_absorb_once r m p)) = absorbed r (m @ pad_tail r p (length m))"
    using padding_ok [OF bs(4,3) assms(2), of p] bs(5) zero by (simp add: absorbed_def keccak_absorb_once_def sm)
  show "length (keccak_absorb_once r m p) = 25"
    using padding_ok [OF bs(4,3) assms(2), of p] by (simp add: keccak_absorb_once_def sm)
qed

section \<open>Squeezing\<close>

lemma funpow_shift: "(f ^^ i) (f x) = (f ^^ Suc i) x"
  by (simp add: funpow_swap1)

lemma squeezed_split: "0 < r \<Longrightarrow> r < n \<Longrightarrow> r \<le> length S \<Longrightarrow>
   take n (concat (map (\<lambda>i. take r ((f ^^ i) S)) [0..<n div r + 1])) =
   take r S @ take (n - r) (concat (map (\<lambda>i. take r ((f ^^ i) (f S))) [0..<(n - r) div r + 1]))"
proof -
  assume r: "0 < r" "r < n" "r \<le> length S"
  have "n div r = Suc ((n - r) div r)"
    using r by (simp add: le_div_geq)
  then have "[0..<n div r + 1] = 0 # map Suc [0..<(n - r) div r + 1]"
    by (simp add: map_Suc_upt upt_conv_Cons del: upt_Suc)
  then have "map (\<lambda>i. take r ((f ^^ i) S)) [0..<n div r + 1] = take r S # map (\<lambda>i. take r ((f ^^ i) (f S))) [0..<(n - r) div r + 1]"
    by (simp only: list.map map_map comp_def funpow_shift) simp
  then show ?thesis
    using r by simp
qed

lemma squeeze_once_ok:
  assumes "length s = 25" and "0 < r" and "r \<le> 200"
  shows "keccak_squeeze_once n s r = take n (concat (map (\<lambda>i. take r ((keccak_p ^^ i) (keccak_p (state_bytes s)))) [0..<n div r + 1]))"
  using assms
proof (induction n s r rule: keccak_squeeze_once.induct)
  case (1 n s r)
  let ?s = "keccakf1600_permute s"
  have s: "state_bytes ?s = keccak_p (state_bytes s)"
    by (rule permute_bytes [OF 1(2)])
  show ?case
  proof (cases "n \<le> r")
    case True
    have "keccak_squeeze_once n s r = take n (state_bytes ?s)"
      using True 1(3,4) by (subst keccak_squeeze_once.simps) (auto simp: Let_def extract_bytes_eq keccak_squeeze_once.simps [of 0])
    moreover have "take n (concat (map (\<lambda>i. take r ((keccak_p ^^ i) (state_bytes ?s))) [0..<n div r + 1])) = take n (state_bytes ?s)"
    proof -
      have "[0..<n div r + 1] = 0 # [1..<n div r + 1]"
        by (simp add: upt_conv_Cons del: upt_Suc)
      then show ?thesis
        using True 1(4) by (simp add: state_bytes_nth(2))
    qed
    ultimately show ?thesis
      by (simp only: s)
  next
    case False
    then have "keccak_squeeze_once n s r = take r (state_bytes ?s) @ keccak_squeeze_once (n - r) ?s r"
      using 1(3,4) by (subst keccak_squeeze_once.simps) (simp add: Let_def extract_bytes_eq)
    moreover have "keccak_squeeze_once (n - r) ?s r =
        take (n - r) (concat (map (\<lambda>i. take r ((keccak_p ^^ i) (keccak_p (state_bytes ?s)))) [0..<(n - r) div r + 1]))"
      using 1(1) [of ?s r] False 1(3,4) by simp
    ultimately show ?thesis
      using squeezed_split [of r n "keccak_p (state_bytes s)" keccak_p] False 1(3,4) s state_bytes_nth(2) [of ?s] by simp
  qed
qed

lemma squeezeblocks_ok:
  assumes "length s = 25" and "r \<le> 200"
  shows "fst (keccak_squeezeblocks k s r) = concat (map (\<lambda>i. take r ((keccak_p ^^ i) (keccak_p (state_bytes s)))) [0..<k])"
  using assms(1)
proof (induction k arbitrary: s)
  case (Suc k)
  let ?s = "keccakf1600_permute s"
  have "fst (keccak_squeezeblocks (Suc k) s r) = take r (state_bytes ?s) @ fst (keccak_squeezeblocks k ?s r)"
    using assms(2) by (simp add: Let_def extract_bytes_eq split: prod.splits)
  also have "fst (keccak_squeezeblocks k ?s r) = concat (map (\<lambda>i. take r ((keccak_p ^^ Suc i) (state_bytes ?s))) [0..<k])"
    using Suc.IH [of ?s] by (simp only: length_permute funpow_shift)
  also have "map (\<lambda>i. take r ((keccak_p ^^ Suc i) (state_bytes ?s))) [0..<k] = map (\<lambda>i. take r ((keccak_p ^^ i) (state_bytes ?s))) (map Suc [0..<k])"
    by (simp only: map_map comp_def)
  finally show ?case
    unfolding permute_bytes [OF Suc.prems] by (simp add: map_Suc_upt upt_conv_Cons del: upt_Suc)
qed simp

lemma length_keccak_p: "length (keccak_p b) = 200"
  by (simp add: keccak_p_def state_bytes_nth)

lemma sponge_blocks:
  assumes "0 < r" and "r \<le> 200"
  shows "sponge r p m (r * k) = concat (map (\<lambda>i. take r ((keccak_p ^^ i) (absorbed r (m @ pad_tail r p (length m))))) [0..<k])"
proof -
  let ?S = "absorbed r (m @ pad_tail r p (length m))"
  have "?S = keccak_p (state_bytes (keccak_absorb_once r m p))"
    using absorb_once_ok(1) [OF assms] by simp
  then have "length ((keccak_p ^^ i) ?S) = 200" for i
    by (cases i) (simp_all add: length_keccak_p)
  then have "length (concat (map (\<lambda>i. take r ((keccak_p ^^ i) ?S)) [0..<k])) = r * k"
    using assms(2) by (induction k) simp_all
  then show ?thesis
    using assms(1) by (simp add: sponge_def)
qed

lemma sponge_ok:
  assumes "0 < r" and "r \<le> 200"
  shows "keccak_squeeze_once n (keccak_absorb_once r m p) r = sponge r p m n"
    and "fst (keccak_squeezeblocks k (keccak_absorb_once r m p) r) = sponge r p m (r * k)"
  unfolding squeeze_once_ok [OF absorb_once_ok(2) [OF assms] assms] squeezeblocks_ok [OF absorb_once_ok(2) [OF assms] assms(2)]
    absorb_once_ok(1) [OF assms] sponge_blocks [OF assms] by (simp_all only: sponge_def)

text \<open>
  C34: The hash functions under ML-KEM are those of FIPS 202: the unrolled permutation equals the 24
  rounds of theta, rho, pi, chi and iota with the rotation offsets and round constants computed as
  the standard defines them, and the two hashes, the extendable output and the block-wise stream are
  the sponge over that permutation with rate, domain suffix and padding of SHA3-256, SHA3-512,
  SHAKE256 and SHAKE128, for inputs of every length.
\<close>

theorem fips202_exact:
  "keccakf1600_permute s = keccak_f s \<and> sha3_256 m = sponge 136 0x06 m 32 \<and> sha3_512 m = sponge 72 0x06 m 64 \<and>
   shake256 n m = sponge 136 0x1F m n \<and> fst (shake128_squeezeblocks k (shake128_absorb_once m)) = sponge 168 0x1F m (168 * k)"
  unfolding sha3_256_def sha3_512_def shake256_def shake128_squeezeblocks_def shake128_absorb_once_def
    SHA3_256_RATE_def SHA3_512_RATE_def SHAKE256_RATE_def SHAKE128_RATE_def
  by (intro conjI permute_fips sponge_ok) simp_all

end
