(* ===== verification/MlkPoly.thy ===== *)
theory MlkPoly
  imports Prelude
begin

text \<open>
  Polynomials of ML-KEM (\<open>mlkem_native/src/poly.h\<close>, \<open>poly.c\<close>, the selectors of \<open>verify.h\<close>, and
  the vectors of three polynomials of \<open>poly_k.c\<close>): reductions modulo 3329, the number-theoretic
  transform and its inverse, and the product in the transformed domain.  An \<open>int16_t\<close> is a word
  whose value is read by \<open>sint\<close>; C's promotions to \<open>int32_t\<close> are the \<open>scast\<close>s.  A function that
  works in place returns the new polynomial.  The value barriers, which keep a compiler from
  seeing through the masks, are the identity and have no place here.
\<close>

type_synonym s16 = "16 word"
type_synonym s32 = "32 word"

text \<open>\<open>mlk_poly\<close> holds 256 coefficients, \<open>mlk_poly_mulcache\<close> 128, \<open>mlk_polyvec\<close> three polynomials.\<close>

type_synonym poly = "s16 list"
type_synonym mulcache = "s16 list"
type_synonym polyvec = "poly list"

definition MLKEM_N :: nat where "MLKEM_N = 256"

definition MLKEM_K :: nat where "MLKEM_K = 3"

definition MLKEM_Q :: "'a::len word" where "MLKEM_Q = 3329"

definition MLKEM_Q_HALF :: s16 where "MLKEM_Q_HALF = (MLKEM_Q + 1) div 2"

section \<open>Masks and selection\<close>

definition cast_int32_to_uint16 :: "s32 \<Rightarrow> u16" where
  "cast_int32_to_uint16 x = ucast (x AND 0xFFFF)"

definition ct_cmask_neg_i16 :: "s16 \<Rightarrow> u16" where
  "ct_cmask_neg_i16 x = (let tmp = (scast x :: s32); tmp = signed_drop_bit 16 tmp in cast_int32_to_uint16 tmp)"

definition ct_cmask_nonzero_u16 :: "u16 \<Rightarrow> u16" where
  "ct_cmask_nonzero_u16 x = (let tmp = - (ucast x :: s32); tmp = signed_drop_bit 16 tmp in cast_int32_to_uint16 tmp)"

definition ct_cmask_nonzero_u8 :: "byte \<Rightarrow> byte" where
  "ct_cmask_nonzero_u8 x = (let mask = ct_cmask_nonzero_u16 (ucast x) in ucast (mask AND 0xFF))"

definition ct_sel_int16 :: "s16 \<Rightarrow> s16 \<Rightarrow> u16 \<Rightarrow> s16" where
  "ct_sel_int16 a b cond =
     (let au = cast_int32_to_uint16 (scast a); bu = cast_int32_to_uint16 (scast b);
        res = bu XOR (ct_cmask_nonzero_u16 cond AND (au XOR bu)) in res)"

definition ct_sel_uint8 :: "byte \<Rightarrow> byte \<Rightarrow> byte \<Rightarrow> byte" where
  "ct_sel_uint8 a b cond = b XOR (ct_cmask_nonzero_u8 cond AND (a XOR b))"

definition ct_memcmp :: "bytes \<Rightarrow> bytes \<Rightarrow> nat \<Rightarrow> byte" where
  "ct_memcmp a b len =
     (let (r, s) = fold (\<lambda>i (r, s). (r OR (a ! i XOR b ! i), s XOR (a ! i XOR b ! i))) [0..<len] (0, 0)
      in ct_cmask_nonzero_u8 r XOR s XOR s)"

definition ct_cmov_zero :: "bytes \<Rightarrow> bytes \<Rightarrow> nat \<Rightarrow> byte \<Rightarrow> bytes" where
  "ct_cmov_zero r x len b = fold (\<lambda>i r. r[i := ct_sel_uint8 (r ! i) (x ! i) b]) [0..<len] r"

section \<open>Reduction of a coefficient\<close>

definition montgomery_reduce :: "s32 \<Rightarrow> s16" where
  "montgomery_reduce a =
     (let a_reduced = cast_int32_to_uint16 a;
        a_inverted = (ucast ((ucast a_reduced * 62209 :: u32) AND 0xFFFF) :: u16);
        t = a_inverted;
        r = a - scast t * MLKEM_Q;
        r = signed_drop_bit 16 r
      in ucast r)"

definition fqmul :: "s16 \<Rightarrow> s16 \<Rightarrow> s16" where
  "fqmul a b = montgomery_reduce (scast a * scast b)"

definition barrett_reduce :: "s16 \<Rightarrow> s16" where
  "barrett_reduce a =
     (let t = signed_drop_bit 26 (20159 * scast a + push_bit 25 1 :: s32) in ucast (scast a - t * MLKEM_Q))"

definition scalar_signed_to_unsigned_q :: "s16 \<Rightarrow> s16" where
  "scalar_signed_to_unsigned_q c = ct_sel_int16 (c + MLKEM_Q) c (ct_cmask_neg_i16 c)"

section \<open>Coefficient by coefficient\<close>

definition poly_tomont :: "poly \<Rightarrow> poly" where
  "poly_tomont r = map (\<lambda>i. fqmul (r ! i) 1353) [0..<MLKEM_N]"

definition poly_reduce :: "poly \<Rightarrow> poly" where
  "poly_reduce r = map (\<lambda>i. let t = barrett_reduce (r ! i) in scalar_signed_to_unsigned_q t) [0..<MLKEM_N]"

definition poly_add :: "poly \<Rightarrow> poly \<Rightarrow> poly" where
  "poly_add r b = map (\<lambda>i. r ! i + b ! i) [0..<MLKEM_N]"

definition poly_sub :: "poly \<Rightarrow> poly \<Rightarrow> poly" where
  "poly_sub r b = map (\<lambda>i. r ! i - b ! i) [0..<MLKEM_N]"

section \<open>The transform\<close>

definition zetas :: "s16 list" where
  "zetas =
    [- 1044, - 758, - 359, - 1517, 1493, 1422, 287, 202, - 171, 622, 1577, 182, 962, - 1202, - 1474, 1468,
     573, - 1325, 264, 383, - 829, 1458, - 1602, - 130, - 681, 1017, 732, 608, - 1542, 411, - 205, - 1571,
     1223, 652, - 552, 1015, - 1293, 1491, - 282, - 1544, 516, - 8, - 320, - 666, - 1618, - 1162, 126, 1469,
     - 853, - 90, - 271, 830, 107, - 1421, - 247, - 951, - 398, 961, - 1508, - 725, 448, - 1065, 677, - 1275,
     - 1103, 430, 555, 843, - 1251, 871, 1550, 105, 422, 587, 177, - 235, - 291, - 460, 1574, 1653,
     - 246, 778, 1159, - 147, - 777, 1483, - 602, 1119, - 1590, 644, - 872, 349, 418, 329, - 156, - 75,
     817, 1097, 603, 610, 1322, - 1285, - 1465, 384, - 1215, - 136, 1218, - 1335, - 874, 220, - 1187, - 1659,
     - 1185, - 1530, - 1278, 794, - 1510, - 854, - 870, 478, - 108, - 308, 996, 991, 958, - 1460, 1522, 1628]"

definition poly_mulcache_compute :: "poly \<Rightarrow> mulcache" where
  "poly_mulcache_compute a =
     concat (map (\<lambda>i. [fqmul (a ! (4 * i + 1)) (zetas ! (64 + i)), fqmul (a ! (4 * i + 3)) (- zetas ! (64 + i))]) [0..<MLKEM_N div 4])"

definition ntt_butterfly_block :: "s16 \<Rightarrow> nat \<Rightarrow> nat \<Rightarrow> poly \<Rightarrow> poly" where
  "ntt_butterfly_block zeta start len r =
     fold (\<lambda>j r. let t = fqmul (r ! (j + len)) zeta; r = r[j + len := r ! j - t] in r[j := r ! j + t]) [start..<start + len] r"

text \<open>The loop over \<open>start\<close> counts its rounds here: \<open>start = 2 len n\<close> and \<open>k\<close> advances by \<open>n\<close>.\<close>

definition ntt_layer :: "nat \<Rightarrow> poly \<Rightarrow> poly" where
  "ntt_layer layer r =
     (let k = 2 ^ (layer - 1); len = MLKEM_N div 2 ^ layer
      in fold (\<lambda>n r. ntt_butterfly_block (zetas ! (k + n)) (n * (2 * len)) len r) [0..<MLKEM_N div (2 * len)] r)"

definition poly_ntt :: "poly \<Rightarrow> poly" where
  "poly_ntt p = fold ntt_layer [1, 2, 3, 4, 5, 6, 7] p"

definition invntt_butterfly_block :: "s16 \<Rightarrow> nat \<Rightarrow> nat \<Rightarrow> poly \<Rightarrow> poly" where
  "invntt_butterfly_block zeta start len r =
     fold (\<lambda>j r. let t = r ! j; r = r[j := barrett_reduce (t + r ! (j + len))]; r = r[j + len := r ! (j + len) - t]
        in r[j + len := fqmul (r ! (j + len)) zeta]) [start..<start + len] r"

definition invntt_layer :: "nat \<Rightarrow> poly \<Rightarrow> poly" where
  "invntt_layer layer r =
     (let k = 2 ^ layer - 1; len = MLKEM_N div 2 ^ layer
      in fold (\<lambda>n r. invntt_butterfly_block (zetas ! (k - n)) (n * (2 * len)) len r) [0..<MLKEM_N div (2 * len)] r)"

definition poly_invntt_tomont :: "poly \<Rightarrow> poly" where
  "poly_invntt_tomont p =
     (let r = map (\<lambda>j. fqmul (p ! j) 1441) [0..<MLKEM_N] in fold invntt_layer [7, 6, 5, 4, 3, 2, 1] r)"

section \<open>Vectors\<close>

definition polyvec_ntt :: "polyvec \<Rightarrow> polyvec" where
  "polyvec_ntt r = map (\<lambda>i. poly_ntt (r ! i)) [0..<MLKEM_K]"

definition polyvec_invntt_tomont :: "polyvec \<Rightarrow> polyvec" where
  "polyvec_invntt_tomont r = map (\<lambda>i. poly_invntt_tomont (r ! i)) [0..<MLKEM_K]"

definition polyvec_mulcache_compute :: "polyvec \<Rightarrow> mulcache list" where
  "polyvec_mulcache_compute a = map (\<lambda>i. poly_mulcache_compute (a ! i)) [0..<MLKEM_K]"

definition polyvec_reduce :: "polyvec \<Rightarrow> polyvec" where
  "polyvec_reduce r = map (\<lambda>i. poly_reduce (r ! i)) [0..<MLKEM_K]"

definition polyvec_add :: "polyvec \<Rightarrow> polyvec \<Rightarrow> polyvec" where
  "polyvec_add r b = map (\<lambda>i. poly_add (r ! i) (b ! i)) [0..<MLKEM_K]"

definition polyvec_tomont :: "polyvec \<Rightarrow> polyvec" where
  "polyvec_tomont r = map (\<lambda>i. poly_tomont (r ! i)) [0..<MLKEM_K]"

text \<open>The two sums of coefficient pair \<open>i\<close>, in 32 bits, and their reduction.\<close>

definition basemul_pair :: "polyvec \<Rightarrow> polyvec \<Rightarrow> mulcache list \<Rightarrow> nat \<Rightarrow> s16 list" where
  "basemul_pair a b b_cache i =
     (let (t0, t1) = fold (\<lambda>k (t0, t1).
          (t0 + scast (a ! k ! (2 * i + 1)) * scast (b_cache ! k ! i) + scast (a ! k ! (2 * i)) * scast (b ! k ! (2 * i)),
           t1 + scast (a ! k ! (2 * i)) * scast (b ! k ! (2 * i + 1)) + scast (a ! k ! (2 * i + 1)) * scast (b ! k ! (2 * i))))
        [0..<MLKEM_K] (0 :: s32, 0 :: s32)
      in [montgomery_reduce t0, montgomery_reduce t1])"

definition polyvec_basemul_acc_montgomery_cached :: "polyvec \<Rightarrow> polyvec \<Rightarrow> mulcache list \<Rightarrow> poly" where
  "polyvec_basemul_acc_montgomery_cached a b b_cache = concat (map (basemul_pair a b b_cache) [0..<MLKEM_N div 2])"

end
