(* ===== verification/MlkReduce.thy ===== *)
theory MlkReduce
  imports MlkPoly
begin

text \<open>
  The masks, selections and reductions of ML-KEM on single words: the masks are all zeros or all
  ones, a selection is a conditional, and the Montgomery, Barrett and sign reductions are exact
  modulo 3329 within the bounds their comments promise.
\<close>

section \<open>Words as integers\<close>

lemma scast_int: "(scast (x :: s16) :: s32) = word_of_int (sint x)"
  by (rule scast_eq)

lemma ucast16_int: "(ucast (word_of_int k :: s32) :: 16 word) = word_of_int k"
  by transfer (simp add: take_bit_take_bit)

lemma ucast16: "(ucast (x :: s32) :: 16 word) = word_of_int (sint x)"
  using ucast16_int [of "sint x"] by simp

lemma word_sint: "word_of_int (sint (x :: 'a::len word)) = x"
  by transfer (simp add: take_bit_signed_take_bit)

lemma sint16: "\<bar>k\<bar> < 2 ^ 15 \<Longrightarrow> sint (word_of_int k :: s16) = k"
  by (simp add: sint_sbintrunc' signed_take_bit_int_eq_self abs_less_iff)

lemma sint32: "\<bar>k\<bar> < 2 ^ 31 \<Longrightarrow> sint (word_of_int k :: s32) = k"
  by (simp add: sint_sbintrunc' signed_take_bit_int_eq_self abs_less_iff)

lemma sint16_range: "- (2 ^ 15) \<le> sint (x :: s16)" "sint (x :: s16) < 2 ^ 15"
  using sint_ge [of x] sint_lt [of x] by simp_all

lemma shift32: "signed_drop_bit n (word_of_int k :: s32) = word_of_int (k div 2 ^ n)" if "\<bar>k\<bar> < 2 ^ 31"
proof -
  have "sint (signed_drop_bit n (word_of_int k :: s32)) = k div 2 ^ n"
    unfolding sint_signed_drop_bit_eq sint32 [OF that] by (rule drop_bit_eq_div)
  then show ?thesis
    using word_sint [of "signed_drop_bit n (word_of_int k :: s32)"] by (simp only:)
qed

lemma minus1_div: "- m \<le> k \<Longrightarrow> k < 0 \<Longrightarrow> k div m = - 1" for k m :: int
  by (rule int_div_pos_eq [of _ _ _ "k + m"]) simp_all

lemma word16_eq: "word_of_int (sint x) = (x :: s16)" "x + y = word_of_int (sint x + sint y)" "x - y = word_of_int (sint x - sint y)"
  by simp_all

lemma sint16_mod: "sint (word_of_int k :: s16) mod 2 ^ 16 = k mod 2 ^ 16"
  by (simp only: sint_sbintrunc' take_bit_eq_mod [symmetric]) (simp add: take_bit_signed_take_bit)

section \<open>Masks and selection\<close>

lemma mask16: "(0xFFFF :: 32 word) = mask 16"
  by (simp add: mask_eq_exp_minus_1)

lemma cast_eq: "cast_int32_to_uint16 x = ucast x"
  unfolding cast_int32_to_uint16_def mask16 by (rule bit_word_eqI) (auto simp: bit_simps)

lemma cmask_neg: "ct_cmask_neg_i16 x = (if sint x < 0 then - 1 else 0)"
proof -
  have "\<bar>sint x\<bar> < 2 ^ 31"
    using sint16_range [of x] by simp
  then have "ct_cmask_neg_i16 x = word_of_int (sint x div 2 ^ 16)"
    unfolding ct_cmask_neg_i16_def Let_def cast_eq scast_int by (simp only: shift32 ucast16_int)
  moreover have "sint x div 2 ^ 16 = (if sint x < 0 then - 1 else 0)"
    using sint16_range [of x] minus1_div [of "2 ^ 16" "sint x"] by simp
  ultimately show ?thesis
    by simp
qed

lemma cmask_nonzero: "ct_cmask_nonzero_u16 x = (if x = 0 then 0 else - 1)"
proof -
  have range: "0 \<le> uint x" "uint x < 2 ^ 16"
    using uint_lt2p [of x] by simp_all
  have neg: "- (ucast x :: s32) = word_of_int (- uint x)"
    unfolding ucast_eq by simp
  have sh: "signed_drop_bit 16 (word_of_int (- uint x) :: s32) = word_of_int ((- uint x) div 2 ^ 16)"
    by (rule shift32) (use range in simp)
  have "ct_cmask_nonzero_u16 x = word_of_int ((- uint x) div 2 ^ 16)"
    unfolding ct_cmask_nonzero_u16_def Let_def cast_eq neg sh ucast16_int ..
  moreover have "(- uint x) div 2 ^ 16 = (if uint x = 0 then 0 else - 1)"
  proof (cases "uint x = 0")
    case False
    then have "0 < uint x"
      using range(1) by linarith
    then show ?thesis
      using range minus1_div [of "2 ^ 16" "- uint x"] by simp
  qed simp
  ultimately show ?thesis
    by (simp add: uint_0_iff)
qed

lemma sel_int16: "ct_sel_int16 a b cond = (if cond = 0 then b else a)"
proof -
  have cast: "(ucast (scast x :: s32) :: s16) = x" for x :: s16
    unfolding scast_int ucast16_int word_sint ..
  have "b XOR (- 1 AND (a XOR b)) = a" for a b :: s16
    by (rule bit_word_eqI) (auto simp: bit_simps)
  then show ?thesis
    unfolding ct_sel_int16_def Let_def cast_eq cmask_nonzero cast by simp
qed

lemma sel_uint8: "ct_sel_uint8 a b cond = (if cond = 0 then b else a)"
proof -
  have mask: "(0xFF :: 16 word) = mask 8"
    by (simp add: mask_eq_exp_minus_1)
  have "ucast (x AND 0xFF :: 16 word) = (ucast x :: byte)" for x
    unfolding mask by (rule bit_word_eqI) (auto simp: bit_simps)
  moreover have "(ucast (- 1 :: 16 word) :: byte) = - 1"
    by (rule bit_word_eqI) (simp add: bit_simps)
  moreover have "(ucast cond :: 16 word) = 0 \<longleftrightarrow> cond = 0"
    by transfer (simp add: take_bit_take_bit min_def)
  ultimately have mask8: "ct_cmask_nonzero_u8 cond = (if cond = 0 then 0 else - 1)"
    by (simp add: ct_cmask_nonzero_u8_def cmask_nonzero Let_def)
  have "b XOR (- 1 AND (a XOR b)) = a" for a b :: byte
    by (rule bit_word_eqI) (auto simp: bit_simps)
  then show ?thesis
    unfolding ct_sel_uint8_def mask8 by simp
qed

section \<open>Reductions\<close>

text \<open>\<open>r\<close> times \<open>2 ^ 16\<close> is \<open>a\<close> less a multiple of the modulus.\<close>

lemma montgomery_exact:
  assumes "\<bar>sint a\<bar> < 2 ^ 31 - 2 ^ 15 * 3329"
  obtains t where "- (2 ^ 15) \<le> t" and "t < 2 ^ 15" and "2 ^ 16 * sint (montgomery_reduce a) = sint a - t * 3329"
proof -
  define k where "k = sint a"
  define t where "t = sint (word_of_int (k * 62209) :: s16)"
  have a: "a = word_of_int k"
    by (simp add: k_def)
  have inv: "(ucast ((ucast (word_of_int k :: u16) * 62209 :: u32) AND 0xFFFF) :: u16) = word_of_int (k * 62209)"
  proof -
    have "(ucast (x AND 0xFFFF) :: u16) = ucast x" for x :: u32
      unfolding mask16 by (rule bit_word_eqI) (auto simp: bit_simps)
    moreover have "(ucast (ucast (word_of_int k :: u16) * 62209 :: u32) :: u16) = word_of_int (k * 62209)"
      by transfer (simp add: take_bit_take_bit, metis mod_mult_left_eq take_bit_eq_mod take_bit_take_bit)
    ultimately show ?thesis
      by simp
  qed
  have t: "- (2 ^ 15) \<le> t" "t < 2 ^ 15"
    unfolding t_def by (rule sint16_range)+
  have "2 ^ 16 dvd k - t * 3329"
  proof -
    have "(k - t * 3329) mod 2 ^ 16 = (k - (k * 62209) mod 2 ^ 16 * 3329) mod 2 ^ 16"
      using sint16_mod [of "k * 62209"] unfolding t_def by (metis mod_diff_right_eq mod_mult_left_eq)
    also have "\<dots> = (k - (k * 62209) * 3329) mod 2 ^ 16"
      by (metis mod_diff_right_eq mod_mult_left_eq)
    also have "k - (k * 62209) * 3329 = 2 ^ 16 * (- 3160 * k)"
      by simp
    also have "\<dots> mod 2 ^ 16 = 0"
      by (rule mod_mult_self1_is_0)
    finally show ?thesis
      by (rule dvd_eq_mod_eq_0 [THEN iffD2])
  qed
  then obtain r where r: "k - t * 3329 = 2 ^ 16 * r"
    by (elim dvdE)
  have small: "\<bar>k - t * 3329\<bar> < 2 ^ 31" 
    using assms t unfolding k_def [symmetric] by linarith
  then have "\<bar>r\<bar> < 2 ^ 15"
    unfolding r by simp
  moreover have "montgomery_reduce a = word_of_int r"
  proof -
    have "a - scast (word_of_int (k * 62209) :: s16) * MLKEM_Q = word_of_int (k - t * 3329)"
      unfolding a scast_int t_def MLKEM_Q_def by (simp only: of_int_diff of_int_mult of_int_numeral)
    then have "signed_drop_bit 16 (a - scast (word_of_int (k * 62209) :: s16) * MLKEM_Q) = word_of_int r"
      using shift32 [OF small, of 16] by (simp add: r)
    then show ?thesis
      unfolding montgomery_reduce_def Let_def cast_eq by (simp add: a inv ucast16_int)
  qed
  ultimately have "sint (montgomery_reduce a) = r"
    by (simp add: sint16)
  then show ?thesis
    using that [OF t] r unfolding k_def by simp
qed

definition q :: int where
  "q = 3329"

text \<open>Congruence modulo the field of ML-KEM.\<close>

definition qeq :: "int \<Rightarrow> int \<Rightarrow> bool" where
  "qeq a b \<longleftrightarrow> a mod q = b mod q"

lemma qeq_refl [simp]: "qeq a a"
  by (simp add: qeq_def)

lemma qeq_sym: "qeq a b \<Longrightarrow> qeq b a"
  by (simp add: qeq_def)

lemma qeq_trans [trans]: "qeq a b \<Longrightarrow> qeq b c \<Longrightarrow> qeq a c"
  by (simp add: qeq_def)

lemma qeq_add: "qeq a b \<Longrightarrow> qeq c d \<Longrightarrow> qeq (a + c) (b + d)"
  unfolding qeq_def by (rule mod_add_cong)

lemma qeq_diff: "qeq a b \<Longrightarrow> qeq c d \<Longrightarrow> qeq (a - c) (b - d)"
  unfolding qeq_def by (rule mod_diff_cong)

lemma qeq_mult: "qeq a b \<Longrightarrow> qeq c d \<Longrightarrow> qeq (a * c) (b * d)"
  unfolding qeq_def by (rule mod_mult_cong)

lemma qeq_multiple: "qeq (a + k * q) a" "qeq (a - k * q) a"
  unfolding qeq_def using mod_mult_self1 [of a k q] mod_mult_self1 [of a "- k" q] by simp_all

lemma qeq_sum: "(\<And>i. i \<in> A \<Longrightarrow> qeq (f i) (g i)) \<Longrightarrow> qeq (sum f A) (sum g A)"
proof (induction A rule: infinite_finite_induct)
  case (insert x A)
  then show ?case
    by (simp add: qeq_add)
qed simp_all

lemma qeq_cancel: "qeq (2 ^ 16 * a) b \<Longrightarrow> qeq a (169 * b)"
proof -
  assume "qeq (2 ^ 16 * a) b"
  then have "qeq (169 * (2 ^ 16 * a)) (169 * b)"
    by (intro qeq_mult) simp_all
  moreover have "169 * (2 ^ 16 * a) = a + (3327 * a) * q"
    by (simp add: q_def)
  ultimately show ?thesis
    using qeq_multiple(1) qeq_sym qeq_trans by metis
qed

lemma montgomery_qeq: "\<bar>sint a\<bar> < 2 ^ 31 - 2 ^ 15 * 3329 \<Longrightarrow> qeq (sint (montgomery_reduce a)) (169 * sint a)"
proof -
  assume "\<bar>sint a\<bar> < 2 ^ 31 - 2 ^ 15 * 3329"
  then obtain t where "2 ^ 16 * sint (montgomery_reduce a) = sint a - t * q"
    by (rule montgomery_exact) (simp add: q_def)
  then show ?thesis
    using qeq_multiple(2) by (intro qeq_cancel) simp
qed

lemma fqmul_ok:
  assumes "\<bar>sint b\<bar> \<le> 1664"
  shows "qeq (sint (fqmul a b)) (169 * (sint a * sint b))" and "\<bar>sint (fqmul a b)\<bar> < q"
proof -
  have "\<bar>sint a\<bar> \<le> 2 ^ 15"
    using sint16_range [of a] by simp
  then have le: "\<bar>sint a * sint b\<bar> \<le> 2 ^ 15 * 1664"
    unfolding abs_mult using assms by (intro mult_mono) simp_all
  then have p: "sint (scast a * scast b :: s32) = sint a * sint b"
    unfolding scast_int of_int_mult [symmetric] by (intro sint32) simp
  obtain t where t: "- (2 ^ 15) \<le> t" "t < 2 ^ 15" "2 ^ 16 * sint (fqmul a b) = sint a * sint b - t * 3329"
    using montgomery_exact [of "scast a * scast b"] le unfolding p fqmul_def by auto
  show "qeq (sint (fqmul a b)) (169 * (sint a * sint b))"
    using montgomery_qeq [of "scast a * scast b"] le unfolding p fqmul_def by simp
  have "sint a * sint b \<le> 54525952" "- 54525952 \<le> sint a * sint b"
    using le by simp_all
  then show "\<bar>sint (fqmul a b)\<bar> < q"
    using t unfolding q_def by simp
qed

lemma barrett_ok: "qeq (sint (barrett_reduce a)) (sint a)" "\<bar>sint (barrett_reduce a)\<bar> \<le> 1664"
proof -
  define k where "k = sint a"
  have k: "- (2 ^ 15) \<le> k" "k < 2 ^ 15"
    unfolding k_def by (rule sint16_range)+
  define t where "t = (20159 * k + 2 ^ 25) div 2 ^ 26"
  have t: "2 ^ 26 * t \<le> 20159 * k + 2 ^ 25" "20159 * k + 2 ^ 25 < 2 ^ 26 * t + 2 ^ 26"
  proof -
    define x where "x = 20159 * k + 2 ^ 25"
    have "2 ^ 26 * t + x mod 2 ^ 26 = x"
      unfolding t_def x_def by (rule mult_div_mod_eq)
    moreover have "0 \<le> x mod 2 ^ 26" "x mod 2 ^ 26 < 2 ^ 26"
      by simp_all
    ultimately show "2 ^ 26 * t \<le> 20159 * k + 2 ^ 25" "20159 * k + 2 ^ 25 < 2 ^ 26 * t + 2 ^ 26"
      unfolding x_def [symmetric] by linarith+
  qed
  have t': "67108864 * t \<le> 20159 * k + 33554432" "20159 * k + 33554432 < 67108864 * t + 67108864" and k': "- 32768 \<le> k" "k < 32768"
    using t k by simp_all
  have r: "- 1664 \<le> k - t * 3329" "k - t * 3329 \<le> 1664"
    using t' k' by linarith+
  have a: "(scast a :: s32) = word_of_int k"
    unfolding k_def by (rule scast_int)
  have x: "20159 * scast a + push_bit 25 1 = (word_of_int (20159 * k + 2 ^ 25) :: s32)"
    unfolding a by (simp add: push_bit_eq_mult)
  have sh: "signed_drop_bit 26 (word_of_int (20159 * k + 2 ^ 25) :: s32) = word_of_int t"
    unfolding t_def by (rule shift32) (use k in simp)
  have "(word_of_int k - word_of_int t * MLKEM_Q :: s32) = word_of_int (k - t * 3329)"
    by (simp add: MLKEM_Q_def)
  then have w: "barrett_reduce a = word_of_int (k - t * 3329)"
    unfolding barrett_reduce_def Let_def x sh unfolding a by (simp only: ucast16_int)
  have eq: "sint (barrett_reduce a) = k - t * 3329"
    unfolding w by (rule sint16) (use r in simp)
  show "qeq (sint (barrett_reduce a)) (sint a)"
    unfolding eq using qeq_multiple(2) [of k t] by (simp add: q_def k_def)
  show "\<bar>sint (barrett_reduce a)\<bar> \<le> 1664"
    unfolding eq using r by simp
qed

lemma to_unsigned_ok: "\<bar>sint c\<bar> < q \<Longrightarrow> sint (scalar_signed_to_unsigned_q c) = sint c mod q"
proof -
  assume "\<bar>sint c\<bar> < q"
  then have c: "\<bar>sint c\<bar> < 3329"
    by (simp add: q_def)
  have "c + MLKEM_Q = word_of_int (sint c + 3329)"
    by (simp add: MLKEM_Q_def word_sint)
  then have "sint c < 0 \<Longrightarrow> sint (c + MLKEM_Q) = sint c + 3329"
    using sint16 [of "sint c + 3329"] c by (simp only:) simp
  moreover have "sint c < 0 \<Longrightarrow> sint c mod 3329 = sint c + 3329"
    using c by (intro int_mod_pos_eq [of _ _ "- 1"]) simp_all
  ultimately show ?thesis
    using c by (simp add: scalar_signed_to_unsigned_q_def sel_int16 cmask_neg q_def)
qed

text \<open>
  C35: the reductions of \<open>mlkem_native\<close> are exact for every input word.  A product with a
  constant of at most half the modulus, reduced by \<open>mlk_fqmul\<close>, is the product over \<open>2 ^ 16\<close>
  modulo 3329 and smaller than the modulus; \<open>mlk_barrett_reduce\<close> gives the centred residue, and
  \<open>mlk_scalar_signed_to_unsigned_q\<close> after it the residue itself.
\<close>

theorem reductions_exact:
  assumes "\<bar>sint b\<bar> \<le> 1664"
  shows "(2 ^ 16 * sint (fqmul a b)) mod q = (sint a * sint b) mod q \<and> \<bar>sint (fqmul a b)\<bar> < q \<and>
    sint (barrett_reduce c) mod q = sint c mod q \<and> \<bar>sint (barrett_reduce c)\<bar> \<le> 1664 \<and>
    sint (scalar_signed_to_unsigned_q (barrett_reduce c)) = sint c mod q"
proof -
  have "qeq (2 ^ 16 * sint (fqmul a b)) (2 ^ 16 * (169 * (sint a * sint b)))"
    by (intro qeq_mult qeq_refl fqmul_ok(1) assms)
  also have "2 ^ 16 * (169 * (sint a * sint b)) = sint a * sint b + (3327 * (sint a * sint b)) * q"
    by (simp add: q_def)
  also have "qeq \<dots> (sint a * sint b)"
    by (rule qeq_multiple(1))
  finally have "qeq (2 ^ 16 * sint (fqmul a b)) (sint a * sint b)" .
  moreover have "\<bar>sint (barrett_reduce c)\<bar> < q"
    using barrett_ok(2) [of c] by (simp add: q_def)
  ultimately show ?thesis
    using fqmul_ok(2) [OF assms] barrett_ok [of c] to_unsigned_ok [of "barrett_reduce c"] by (simp add: qeq_def)
qed

lemma reductions_exact_witness:
  "(2 ^ 16 * sint (fqmul 32767 (- 1044))) mod q = (32767 * - 1044) mod q \<and> sint (barrett_reduce (- 32768)) mod q = - 32768 mod q"
  using reductions_exact [of "- 1044" 32767 "- 32768"] by simp

end
