(* ===== verification/MlkNtt.thy ===== *)
theory MlkNtt
  imports MlkReduce
begin

text \<open>
  The number-theoretic transform of \<open>mlkem_native/src/poly.c\<close> against the mathematics: a layer of
  butterflies is a map on the coefficients, seven layers leave the residues of the polynomial
  modulo the 128 factors \<open>X ^ 2 - root 7 i\<close> of \<open>X ^ 256 + 1\<close>, and the inverse layers recover the
  polynomial times the Montgomery factor, with every coefficient inside the bounds of the C.
\<close>

section \<open>Polynomials modulo 3329\<close>

definition pbound :: "int \<Rightarrow> poly \<Rightarrow> bool" where
  "pbound b r \<longleftrightarrow> length r = 256 \<and> (\<forall>i<256. \<bar>sint (r ! i)\<bar> < b)"

text \<open>\<open>r\<close> stands for the polynomial with the integer coefficients \<open>f\<close>.\<close>

definition stands_for :: "poly \<Rightarrow> (nat \<Rightarrow> int) \<Rightarrow> bool" where
  "stands_for r f \<longleftrightarrow> length r = 256 \<and> (\<forall>i<256. qeq (sint (r ! i)) (f i))"

lemma stands_for_cong: "stands_for r f \<Longrightarrow> (\<And>i. i < 256 \<Longrightarrow> qeq (f i) (g i)) \<Longrightarrow> stands_for r g"
  unfolding stands_for_def using qeq_trans by blast

lemma stands_for_self: "length r = 256 \<Longrightarrow> stands_for r (\<lambda>i. sint (r ! i))"
  by (simp add: stands_for_def)

lemma sint_sum_small: "\<bar>sint x + sint y\<bar> < 2 ^ 15 \<Longrightarrow> sint (x + y :: s16) = sint x + sint y"
  "\<bar>sint x - sint y\<bar> < 2 ^ 15 \<Longrightarrow> sint (x - y :: s16) = sint x - sint y"
proof -
  have "x + y = word_of_int (sint x + sint y)" "x - y = word_of_int (sint x - sint y)"
    by (simp_all only: of_int_add of_int_diff word_sint)
  then show "\<bar>sint x + sint y\<bar> < 2 ^ 15 \<Longrightarrow> sint (x + y :: s16) = sint x + sint y"
    "\<bar>sint x - sint y\<bar> < 2 ^ 15 \<Longrightarrow> sint (x - y :: s16) = sint x - sint y"
    using sint16 by metis+
qed

section \<open>Loops over blocks\<close>

text \<open>A loop whose round \<open>n\<close> rewrites block \<open>n\<close> of width \<open>w\<close> from that block alone.\<close>

lemma fold_blocks:
  assumes step: "\<And>n r. n < N \<Longrightarrow> length r = 256 \<Longrightarrow>
      length (F n r) = 256 \<and> (\<forall>i<256. F n r ! i = (if i div w = n then G r i else r ! i))"
    and local: "\<And>r r' i. i < 256 \<Longrightarrow> (\<And>k. k < 256 \<Longrightarrow> k div w = i div w \<Longrightarrow> r ! k = r' ! k) \<Longrightarrow> G r i = G r' i"
    and "length r = 256" and "m \<le> N"
  shows "length (fold F [0..<m] r) = 256 \<and> (\<forall>i<256. fold F [0..<m] r ! i = (if i div w < m then G r i else r ! i))"
  using assms(4)
proof (induction m)
  case (Suc m)
  let ?r = "fold F [0..<m] r"
  have IH: "length ?r = 256" "\<And>i. i < 256 \<Longrightarrow> ?r ! i = (if i div w < m then G r i else r ! i)"
    using Suc by simp_all
  have F: "length (F m ?r) = 256" "\<And>i. i < 256 \<Longrightarrow> F m ?r ! i = (if i div w = m then G ?r i else ?r ! i)"
    using step [of m ?r] Suc.prems IH(1) by simp_all
  have "G ?r i = G r i" if "i < 256" "i div w = m" for i
    using that IH(2) by (intro local) simp_all
  then have "F m ?r ! i = (if i div w < Suc m then G r i else r ! i)" if "i < 256" for i
    using that F(2) IH(2) by (simp add: less_Suc_eq)
  then show ?case
    using F(1) by simp
qed (use assms(3) in simp)

definition butterfly :: "(nat \<Rightarrow> s16) \<Rightarrow> nat \<Rightarrow> poly \<Rightarrow> nat \<Rightarrow> s16" where
  "butterfly Z len r i =
     (if i mod (2 * len) < len then r ! i + fqmul (r ! (i + len)) (Z (i div (2 * len)))
      else r ! (i - len) - fqmul (r ! i) (Z (i div (2 * len))))"

definition inv_butterfly :: "(nat \<Rightarrow> s16) \<Rightarrow> nat \<Rightarrow> poly \<Rightarrow> nat \<Rightarrow> s16" where
  "inv_butterfly Z len r i =
     (if i mod (2 * len) < len then barrett_reduce (r ! i + r ! (i + len))
      else fqmul (r ! i - r ! (i - len)) (Z (i div (2 * len))))"

text \<open>A loop that rewrites the pairs \<open>j\<close>, \<open>j + len\<close> one after the other.\<close>

lemma fold_pairs:
  assumes step: "\<And>j r. length r = 256 \<Longrightarrow> F j r = r[j + len := B (r ! j) (r ! (j + len)), j := A (r ! j) (r ! (j + len))]"
    and "0 < len" and "start + 2 * len \<le> 256" and "length r = 256" and "m \<le> len"
  shows "length (fold F [start..<start + m] r) = 256 \<and> (\<forall>i<256. fold F [start..<start + m] r ! i =
    (if start \<le> i \<and> i < start + m then A (r ! i) (r ! (i + len))
     else if start + len \<le> i \<and> i < start + len + m then B (r ! (i - len)) (r ! i) else r ! i))"
  using assms(5)
proof (induction m)
  case 0
  then show ?case
    using assms(4) by auto
next
  case (Suc m)
  let ?r = "fold F [start..<start + m] r"
  let ?j = "start + m"
  have IH: "length ?r = 256" "\<And>i. i < 256 \<Longrightarrow> ?r ! i = (if start \<le> i \<and> i < start + m then A (r ! i) (r ! (i + len))
     else if start + len \<le> i \<and> i < start + len + m then B (r ! (i - len)) (r ! i) else r ! i)"
    using Suc by simp_all
  have j: "?j < 256" "?j + len < 256" "?r ! ?j = r ! ?j" "?r ! (?j + len) = r ! (?j + len)"
    using Suc.prems assms(2,3) by (simp_all add: IH(2))
  have "fold F [start..<start + Suc m] r = ?r[?j + len := B (r ! ?j) (r ! (?j + len)), ?j := A (r ! ?j) (r ! (?j + len))]"
    using step [OF IH(1), of ?j] j(3,4) by simp
  then show ?case
    using IH j(1,2) assms(2) Suc.prems by (auto simp: nth_list_update less_Suc_eq)
qed

lemma block_index:
  fixes i n w :: nat
  assumes "0 < w"
  shows "i div w = n \<longleftrightarrow> n * w \<le> i \<and> i < n * w + w"
  using assms by (metis add.commute div_nat_eqI dividend_less_div_times mult.commute mult_Suc times_div_less_eq_dividend)

lemma block_halves:
  fixes i len n :: nat
  assumes "i div (2 * len) = n" and "0 < len"
  shows "n * (2 * len) \<le> i \<and> i < n * (2 * len) + len \<longleftrightarrow> i mod (2 * len) < len"
    and "n * (2 * len) + len \<le> i \<and> i < n * (2 * len) + len + len \<longleftrightarrow> \<not> i mod (2 * len) < len"
proof -
  have "i = n * (2 * len) + i mod (2 * len)"
    using assms(1) by (metis div_mult_mod_eq)
  moreover have "i mod (2 * len) < 2 * len"
    using assms(2) by simp
  ultimately show "n * (2 * len) \<le> i \<and> i < n * (2 * len) + len \<longleftrightarrow> i mod (2 * len) < len"
    "n * (2 * len) + len \<le> i \<and> i < n * (2 * len) + len + len \<longleftrightarrow> \<not> i mod (2 * len) < len"
    by linarith+
qed

lemma same_block:
  fixes i len :: nat
  assumes "0 < len"
  shows "i mod (2 * len) < len \<Longrightarrow> (i + len) div (2 * len) = i div (2 * len) \<and> (i + len) mod (2 * len) = i mod (2 * len) + len"
    and "\<not> i mod (2 * len) < len \<Longrightarrow> (i - len) div (2 * len) = i div (2 * len) \<and> (i - len) mod (2 * len) = i mod (2 * len) - len \<and> len \<le> i"
proof -
  define n m where "n = i div (2 * len)" and "m = i mod (2 * len)"
  have i: "i = m + n * (2 * len)"
    unfolding n_def m_def by (simp only: mod_div_mult_eq)
  have m: "m < 2 * len"
    using assms by (simp add: m_def)
  show "i mod (2 * len) < len \<Longrightarrow> (i + len) div (2 * len) = i div (2 * len) \<and> (i + len) mod (2 * len) = i mod (2 * len) + len"
  proof -
    assume "i mod (2 * len) < len"
    then have "m + len < 2 * len" "i + len = (m + len) + n * (2 * len)"
      unfolding m_def [symmetric] using i by linarith+
    then show ?thesis
      using m unfolding m_def [symmetric] n_def [symmetric] by (simp only: div_mult_self1 mod_mult_self1 div_less mod_less) (use assms in simp)
  qed
  show "\<not> i mod (2 * len) < len \<Longrightarrow> (i - len) div (2 * len) = i div (2 * len) \<and> (i - len) mod (2 * len) = i mod (2 * len) - len \<and> len \<le> i"
  proof -
    assume "\<not> i mod (2 * len) < len"
    then have "len \<le> m" "i - len = (m - len) + n * (2 * len)" "m - len < 2 * len" "len \<le> i"
      unfolding m_def [symmetric] using i m by linarith+
    then show ?thesis
      unfolding m_def [symmetric] n_def [symmetric] by (simp only: div_mult_self1 mod_mult_self1 div_less mod_less) (use assms in simp)
  qed
qed

lemma block_inside: "w * N = 256 \<Longrightarrow> i < 256 \<Longrightarrow> k div w = i div w \<Longrightarrow> 0 < w \<Longrightarrow> k < 256" for i k w N :: nat
  by (metis div_less_iff_less_mult mult.commute)

lemma butterfly_block_step:
  assumes "length r = 256" and "0 < len" and "n * (2 * len) + 2 * len \<le> 256"
  shows "length (ntt_butterfly_block (Z n) (n * (2 * len)) len r) = 256 \<and>
    (\<forall>i<256. ntt_butterfly_block (Z n) (n * (2 * len)) len r ! i = (if i div (2 * len) = n then butterfly Z len r i else r ! i))"
    and "length (invntt_butterfly_block (Z n) (n * (2 * len)) len r) = 256 \<and>
    (\<forall>i<256. invntt_butterfly_block (Z n) (n * (2 * len)) len r ! i = (if i div (2 * len) = n then inv_butterfly Z len r i else r ! i))"
proof -
  let ?s = "n * (2 * len)"
  have inner: "length (fold F [?s..<?s + len] r) = 256 \<and> (\<forall>i<256. fold F [?s..<?s + len] r ! i =
      (if i div (2 * len) = n then if i mod (2 * len) < len then A (r ! i) (r ! (i + len)) else B (r ! (i - len)) (r ! i) else r ! i))"
    if "\<And>j r. length r = 256 \<Longrightarrow> F j r = r[j + len := B (r ! j) (r ! (j + len)), j := A (r ! j) (r ! (j + len))]" for F A B
  proof -
    note fold_pairs [OF that assms(2,3,1) order_refl]
    moreover have "(if ?s \<le> i \<and> i < ?s + len then a else if ?s + len \<le> i \<and> i < ?s + len + len then b else c) =
        (if i div (2 * len) = n then if i mod (2 * len) < len then a else b else c)" for i and a b c :: s16
    proof (cases "i div (2 * len) = n")
      case True
      then show ?thesis
        using block_halves [OF True assms(2)] by simp
    next
      case False
      then have "\<not> (?s \<le> i \<and> i < ?s + 2 * len)"
        using block_index [of "2 * len" i n] assms(2) by simp
      then show ?thesis
        using False by auto
    qed
    ultimately show ?thesis
      by simp
  qed
  show "length (ntt_butterfly_block (Z n) ?s len r) = 256 \<and>
    (\<forall>i<256. ntt_butterfly_block (Z n) ?s len r ! i = (if i div (2 * len) = n then butterfly Z len r i else r ! i))"
    unfolding ntt_butterfly_block_def
    using inner [of "\<lambda>j r. let t = fqmul (r ! (j + len)) (Z n); r = r[j + len := r ! j - t] in r[j := r ! j + t]" "\<lambda>x y. x - fqmul y (Z n)" "\<lambda>x y. x + fqmul y (Z n)"]
      assms(2) by (auto simp: Let_def butterfly_def nth_list_update)
  have swap: "r[j := a, j + len := b] = r[j + len := b, j := a]" for j a b and r :: poly
    using assms(2) by (simp add: list_update_swap)
  have "(let t = r ! j; r = r[j := barrett_reduce (t + r ! (j + len))]; r = r[j + len := r ! (j + len) - t] in r[j + len := fqmul (r ! (j + len)) (Z n)]) =
      r[j + len := fqmul (r ! (j + len) - r ! j) (Z n), j := barrett_reduce (r ! j + r ! (j + len))]" if "length r = 256" for j and r :: poly
  proof (cases "j + len < 256")
    case True
    then show ?thesis
      using that assms(2) by (simp add: Let_def swap)
  next
    case False
    then show ?thesis
      using that by (simp add: Let_def list_update_beyond)
  qed
  then show "length (invntt_butterfly_block (Z n) ?s len r) = 256 \<and>
    (\<forall>i<256. invntt_butterfly_block (Z n) ?s len r ! i = (if i div (2 * len) = n then inv_butterfly Z len r i else r ! i))"
    unfolding invntt_butterfly_block_def
    using inner [of "\<lambda>j r. let t = r ! j; r = r[j := barrett_reduce (t + r ! (j + len))]; r = r[j + len := r ! (j + len) - t]
        in r[j + len := fqmul (r ! (j + len)) (Z n)]" "\<lambda>x y. fqmul (y - x) (Z n)" "\<lambda>x y. barrett_reduce (x + y)"]
    by (auto simp: inv_butterfly_def)
qed

lemma butterfly_local:
  assumes "0 < len" and "2 * len * N = 256" and "i < 256" and "\<And>k. k < 256 \<Longrightarrow> k div (2 * len) = i div (2 * len) \<Longrightarrow> r ! k = r' ! k"
  shows "butterfly Z len r i = butterfly Z len r' i" and "inv_butterfly Z len r i = inv_butterfly Z len r' i"
  using assms(4) [of i] assms(4) [of "i + len"] assms(4) [of "i - len"] same_block [OF assms(1), of i] assms(3)
    block_inside [OF assms(2,3), of "i + len"] assms(1)
  by (auto simp: butterfly_def inv_butterfly_def)

text \<open>A layer of the transform is the butterfly at every index at once.\<close>

lemma layer_ok:
  assumes "1 \<le> L" and "L \<le> 7" and "length r = 256"
  shows "length (ntt_layer L r) = 256 \<and>
      (\<forall>i<256. ntt_layer L r ! i = butterfly (\<lambda>n. zetas ! (2 ^ (L - 1) + n)) (256 div 2 ^ L) r i)"
    and "length (invntt_layer L r) = 256 \<and>
      (\<forall>i<256. invntt_layer L r ! i = inv_butterfly (\<lambda>n. zetas ! (2 ^ L - 1 - n)) (256 div 2 ^ L) r i)"
proof -
  let ?len = "256 div 2 ^ L :: nat" and ?N = "256 div (2 * (256 div 2 ^ L)) :: nat"
  have "L \<in> {1, 2, 3, 4, 5, 6, 7}"
    using assms(1,2) by auto
  then have len: "0 < ?len" "2 * ?len * ?N = 256"
    by auto
  have fits: "n * (2 * ?len) + 2 * ?len \<le> 256" if "n < ?N" for n
  proof -
    have "Suc n * (2 * ?len) \<le> ?N * (2 * ?len)"
      using that by (intro mult_right_mono) simp_all
    then show ?thesis
      using len(2) by (simp add: mult.commute)
  qed
  have all: "i div (2 * ?len) < ?N" if "i < 256" for i
    using that len by (simp add: div_less_iff_less_mult mult.commute)
  have "length (fold (\<lambda>n. ntt_butterfly_block (Z n) (n * (2 * ?len)) ?len) [0..<?N] r) = 256 \<and>
      (\<forall>i<256. fold (\<lambda>n. ntt_butterfly_block (Z n) (n * (2 * ?len)) ?len) [0..<?N] r ! i = (if i div (2 * ?len) < ?N then butterfly Z ?len r i else r ! i))" for Z
    by (rule fold_blocks [OF butterfly_block_step(1) [OF _ len(1) fits] butterfly_local(1) [OF len] assms(3) order_refl])
  then show "length (ntt_layer L r) = 256 \<and>
      (\<forall>i<256. ntt_layer L r ! i = butterfly (\<lambda>n. zetas ! (2 ^ (L - 1) + n)) ?len r i)"
    unfolding ntt_layer_def Let_def MLKEM_N_def using all by simp
  have "length (fold (\<lambda>n. invntt_butterfly_block (Z n) (n * (2 * ?len)) ?len) [0..<?N] r) = 256 \<and>
      (\<forall>i<256. fold (\<lambda>n. invntt_butterfly_block (Z n) (n * (2 * ?len)) ?len) [0..<?N] r ! i = (if i div (2 * ?len) < ?N then inv_butterfly Z ?len r i else r ! i))" for Z
    by (rule fold_blocks [OF butterfly_block_step(2) [OF _ len(1) fits] butterfly_local(2) [OF len] assms(3) order_refl])
  then show "length (invntt_layer L r) = 256 \<and>
      (\<forall>i<256. invntt_layer L r ! i = inv_butterfly (\<lambda>n. zetas ! (2 ^ L - 1 - n)) ?len r i)"
    unfolding invntt_layer_def Let_def MLKEM_N_def using all by simp
qed

section \<open>Roots of unity\<close>

text \<open>Entry \<open>k\<close> of the table without its Montgomery factor.\<close>

definition zq :: "nat \<Rightarrow> int" where
  "zq k = 169 * sint (zetas ! k)"

definition qeq_test :: "int \<Rightarrow> int \<Rightarrow> bool" where
  "qeq_test a b = ((a - b) mod 3329 = 0)"

lemma qeq_testD: "qeq_test a b \<Longrightarrow> qeq a b"
  unfolding qeq_test_def qeq_def q_def by (metis mod_eq_dvd_iff dvd_eq_mod_eq_0)

text \<open>The table as integers.\<close>

definition zeta_ints :: "int list" where
  "zeta_ints =
    [- 1044, - 758, - 359, - 1517, 1493, 1422, 287, 202, - 171, 622, 1577, 182, 962, - 1202, - 1474, 1468,
     573, - 1325, 264, 383, - 829, 1458, - 1602, - 130, - 681, 1017, 732, 608, - 1542, 411, - 205, - 1571,
     1223, 652, - 552, 1015, - 1293, 1491, - 282, - 1544, 516, - 8, - 320, - 666, - 1618, - 1162, 126, 1469,
     - 853, - 90, - 271, 830, 107, - 1421, - 247, - 951, - 398, 961, - 1508, - 725, 448, - 1065, 677, - 1275,
     - 1103, 430, 555, 843, - 1251, 871, 1550, 105, 422, 587, 177, - 235, - 291, - 460, 1574, 1653,
     - 246, 778, 1159, - 147, - 777, 1483, - 602, 1119, - 1590, 644, - 872, 349, 418, 329, - 156, - 75,
     817, 1097, 603, 610, 1322, - 1285, - 1465, 384, - 1215, - 136, 1218, - 1335, - 874, 220, - 1187, - 1659,
     - 1185, - 1530, - 1278, 794, - 1510, - 854, - 870, 478, - 108, - 308, 996, 991, 958, - 1460, 1522, 1628]"

definition zeta_int :: "nat \<Rightarrow> int" where
  "zeta_int k = 169 * zeta_ints ! k"

lemma zeta_ints_ok: "\<forall>x\<in>set zeta_ints. \<bar>x\<bar> \<le> 1664" "length zeta_ints = 128"
  by code_simp+

lemma zetas_ints: "zetas = map word_of_int zeta_ints"
  by (simp add: zetas_def zeta_ints_def)

lemma zetas_int: "k < 128 \<Longrightarrow> sint (zetas ! k) = zeta_ints ! k"
proof -
  assume k: "k < 128"
  then have "\<bar>zeta_ints ! k\<bar> \<le> 1664"
    using zeta_ints_ok by simp
  then have "\<bar>zeta_ints ! k\<bar> < 2 ^ 15"
    by simp
  then show ?thesis
    using k zeta_ints_ok(2) by (simp add: zetas_ints sint16)
qed

lemma zetas_small: "k < 128 \<Longrightarrow> \<bar>sint (zetas ! k)\<bar> \<le> 1664"
  using zeta_ints_ok by (simp add: zetas_int)

lemma zq_int: "k < 128 \<Longrightarrow> zq k = zeta_int k"
  by (simp add: zq_def zeta_int_def zetas_int)

lemma zq_square: "k < 128 \<Longrightarrow> 2 \<le> k \<Longrightarrow> qeq (zq k * zq k) (if even k then zq (k div 2) else - zq (k div 2))"
  and zq_one: "qeq (zq 1 * zq 1) (- 1)"
proof -
  have table: "\<forall>k\<in>set [2..<128]. qeq_test (zeta_int k * zeta_int k) (if even k then zeta_int (k div 2) else - zeta_int (k div 2))"
    "qeq_test (zeta_int 1 * zeta_int 1) (- 1)"
    by code_simp+
  show "qeq (zq k * zq k) (if even k then zq (k div 2) else - zq (k div 2))" if k: "k < 128" "2 \<le> k"
  proof -
    have "k \<in> set [2..<128]"
      using k by (simp only: set_upt atLeastLessThan_iff simp_thms)
    then have "qeq (zeta_int k * zeta_int k) (if even k then zeta_int (k div 2) else - zeta_int (k div 2))"
      using table(1) by (intro qeq_testD) (rule bspec)
    moreover have "k div 2 < 128"
      using k(1) by simp
    ultimately show ?thesis
      by (simp only: zq_int k(1))
  qed
  show "qeq (zq 1 * zq 1) (- 1)"
    using qeq_testD [OF table(2)] by (simp add: zq_int)
qed

lemma zq_inverse: "1 \<le> L \<Longrightarrow> L \<le> 7 \<Longrightarrow> n < 2 ^ (L - 1) \<Longrightarrow> qeq (zq (2 ^ (L - 1) + n) * zq (2 ^ L - 1 - n)) (- 1)"
proof -
  have table: "\<forall>L\<in>set [1..<8]. \<forall>n\<in>set [0..<2 ^ (L - 1)]. qeq_test (zeta_int (2 ^ (L - 1) + n) * zeta_int (2 ^ L - 1 - n)) (- 1)"
    by code_simp
  assume L: "1 \<le> L" "L \<le> 7" "n < 2 ^ (L - 1)"
  then have "L \<in> set [1..<8]" "n \<in> set [0..<2 ^ (L - 1)]"
    by (simp_all only: set_upt atLeastLessThan_iff) simp_all
  then have "qeq (zeta_int (2 ^ (L - 1) + n) * zeta_int (2 ^ L - 1 - n)) (- 1)"
    using table by (intro qeq_testD) (simp only:)
  moreover have "(2 :: nat) ^ L \<le> 2 ^ 7"
    using L(2) by (intro power_increasing) simp_all
  moreover have "(2 :: nat) ^ L = 2 * 2 ^ (L - 1)"
    using L(1) by (simp add: power_eq_if)
  ultimately have "2 ^ (L - 1) + n < 128" "2 ^ L - 1 - n < 128" "qeq (zeta_int (2 ^ (L - 1) + n) * zeta_int (2 ^ L - 1 - n)) (- 1)"
    using L(3) by simp_all
  then show ?thesis
    by (simp only: zq_int)
qed

section \<open>Layers on integers\<close>

definition fwd :: "nat \<Rightarrow> (nat \<Rightarrow> int) \<Rightarrow> nat \<Rightarrow> int" where
  "fwd L f i = (let len = 256 div 2 ^ L; z = zq (2 ^ (L - 1) + i div (2 * len)) in
     if i mod (2 * len) < len then f i + z * f (i + len) else f (i - len) - z * f i)"

definition bwd :: "nat \<Rightarrow> (nat \<Rightarrow> int) \<Rightarrow> nat \<Rightarrow> int" where
  "bwd L f i = (let len = 256 div 2 ^ L; z = zq (2 ^ L - 1 - i div (2 * len)) in
     if i mod (2 * len) < len then f i + f (i + len) else z * (f i - f (i - len)))"

lemma layer_len:
  assumes "1 \<le> L" and "L \<le> 7"
  shows "0 < (256 :: nat) div 2 ^ L" and "2 * (256 div 2 ^ L) * 2 ^ (L - 1) = (256 :: nat)"
proof -
  have "L \<in> {1, 2, 3, 4, 5, 6, 7}"
    using assms by auto
  then show "0 < (256 :: nat) div 2 ^ L" "2 * (256 div 2 ^ L) * 2 ^ (L - 1) = (256 :: nat)"
    by auto
qed

lemma layer_index:
  fixes i :: nat
  assumes "1 \<le> L" and "L \<le> 7" and "i < 256"
  defines "len \<equiv> 256 div 2 ^ L"
  shows "i div (2 * len) < 2 ^ (L - 1)" and "2 ^ (L - 1) + i div (2 * len) < 128" and "2 ^ L - 1 - i div (2 * len) < (128 :: nat)"
    and "i mod (2 * len) < len \<Longrightarrow> i + len < 256"
proof -
  note len = layer_len [OF assms(1,2), folded len_def]
  show n: "i div (2 * len) < 2 ^ (L - 1)"
    using assms(3) len by (simp add: div_less_iff_less_mult mult.commute)
  have "(2 :: nat) ^ (L - 1) \<le> 2 ^ 6" "(2 :: nat) ^ L \<le> 2 ^ 7"
    using assms(2) by (intro power_increasing; simp)+
  then show "2 ^ (L - 1) + i div (2 * len) < 128" "2 ^ L - 1 - i div (2 * len) < (128 :: nat)"
    using n by simp_all
  show "i mod (2 * len) < len \<Longrightarrow> i + len < 256"
    using same_block(1) [OF len(1), of i] block_inside [OF len(2) assms(3)] len(1) by simp
qed

lemma abs_lessI: "\<bar>a\<bar> < b \<Longrightarrow> \<bar>c\<bar> < d \<Longrightarrow> \<bar>a + c\<bar> < b + d \<and> \<bar>a - c\<bar> < b + d" for a b c d :: int
  by auto

lemma ntt_layer_ok:
  assumes "1 \<le> L" and "L \<le> 7" and "pbound (int L * q) r" and "stands_for r f"
  shows "pbound (int (L + 1) * q) (ntt_layer L r) \<and> stands_for (ntt_layer L r) (fwd L f)"
proof -
  let ?len = "256 div 2 ^ L :: nat"
  let ?Z = "\<lambda>n. zetas ! (2 ^ (L - 1) + n)"
  have r: "length r = 256" "\<And>i. i < 256 \<Longrightarrow> \<bar>sint (r ! i)\<bar> < int L * q" "\<And>i. i < 256 \<Longrightarrow> qeq (sint (r ! i)) (f i)"
    using assms(3,4) by (simp_all add: pbound_def stands_for_def)
  note len = layer_len [OF assms(1,2)]
  note lay = layer_ok(1) [OF assms(1,2) r(1)]
  have room: "int (L + 1) * q < 2 ^ 15"
    using assms(2) by (simp add: q_def)
  have each: "\<bar>sint (butterfly ?Z ?len r i)\<bar> < int (L + 1) * q \<and> qeq (sint (butterfly ?Z ?len r i)) (fwd L f i)" if i: "i < 256" for i
  proof -
    let ?n = "i div (2 * ?len)"
    have z: "\<bar>sint (?Z ?n)\<bar> \<le> 1664"
      by (rule zetas_small [OF layer_index(2) [OF assms(1,2) i]])
    have mul: "\<bar>sint (fqmul x (?Z ?n))\<bar> < q" "qeq (sint (fqmul x (?Z ?n))) (zq (2 ^ (L - 1) + ?n) * g)" if "qeq (sint x) g" for x g
    proof -
      show "\<bar>sint (fqmul x (?Z ?n))\<bar> < q"
        by (rule fqmul_ok(2) [OF z])
      have "qeq (sint (fqmul x (?Z ?n))) (169 * (sint x * sint (?Z ?n)))"
        by (rule fqmul_ok(1) [OF z])
      also have "169 * (sint x * sint (?Z ?n)) = zq (2 ^ (L - 1) + ?n) * sint x"
        by (simp add: zq_def)
      also have "qeq \<dots> (zq (2 ^ (L - 1) + ?n) * g)"
        using that by (intro qeq_mult) simp_all
      finally show "qeq (sint (fqmul x (?Z ?n))) (zq (2 ^ (L - 1) + ?n) * g)" .
    qed
    have bound: "int L * q + q = int (L + 1) * q"
      by (simp add: distrib_right)
    show ?thesis
    proof (cases "i mod (2 * ?len) < ?len")
      case True
      then have k: "i + ?len < 256"
        by (rule layer_index(4) [OF assms(1,2) i])
      let ?t = "fqmul (r ! (i + ?len)) (?Z ?n)"
      have "\<bar>sint (r ! i) + sint ?t\<bar> < int (L + 1) * q"
        using abs_lessI [OF r(2) [OF i] mul(1) [OF r(3) [OF k]]] bound by simp
      moreover from this have "sint (r ! i + ?t) = sint (r ! i) + sint ?t"
        using room by (intro sint_sum_small(1)) simp
      moreover have "qeq (sint (r ! i) + sint ?t) (fwd L f i)"
        using True qeq_add [OF r(3) [OF i] mul(2) [OF r(3) [OF k]]] by (simp add: fwd_def Let_def)
      ultimately show ?thesis
        using True by (simp add: butterfly_def)
    next
      case False
      then have k: "i - ?len < 256"
        using i by simp
      let ?t = "fqmul (r ! i) (?Z ?n)"
      have "\<bar>sint (r ! (i - ?len)) - sint ?t\<bar> < int (L + 1) * q"
        using abs_lessI [OF r(2) [OF k] mul(1) [OF r(3) [OF i]]] bound by simp
      moreover from this have "sint (r ! (i - ?len) - ?t) = sint (r ! (i - ?len)) - sint ?t"
        using room by (intro sint_sum_small(2)) simp
      moreover have "qeq (sint (r ! (i - ?len)) - sint ?t) (fwd L f i)"
        using False qeq_diff [OF r(3) [OF k] mul(2) [OF r(3) [OF i]]] by (simp add: fwd_def Let_def)
      ultimately show ?thesis
        using False by (simp add: butterfly_def)
    qed
  qed
  then show ?thesis
    using lay by (simp add: pbound_def stands_for_def)
qed

section \<open>The transform evaluates\<close>

text \<open>
  After layer \<open>L\<close>, block \<open>b\<close> of width \<open>256 / 2^L\<close> is the residue of the polynomial modulo
  \<open>X ^ (256 / 2^L) - root L b\<close>; there is one block at the start, modulo \<open>X ^ 256 + 1\<close>.
\<close>

primrec root :: "nat \<Rightarrow> nat \<Rightarrow> int" where
  "root 0 b = - 1"
| "root (Suc L) b = (if even b then zq (2 ^ L + b div 2) else - zq (2 ^ L + b div 2))"

definition residue :: "nat \<Rightarrow> (nat \<Rightarrow> int) \<Rightarrow> nat \<Rightarrow> int" where
  "residue L a i = (let len = 256 div 2 ^ L in \<Sum>m<2 ^ L. a (m * len + i mod len) * root L (i div len) ^ m)"

lemma root_square: "L \<le> 6 \<Longrightarrow> b < 2 ^ L \<Longrightarrow> qeq (zq (2 ^ L + b) * zq (2 ^ L + b)) (root L b)"
proof (cases L)
  case 0
  assume "b < 2 ^ L"
  then show ?thesis
    using 0 zq_one by simp
next
  case (Suc K)
  assume "L \<le> 6" and b: "b < 2 ^ L"
  then have "(2 :: nat) ^ L \<le> 2 ^ 6"
    by (intro power_increasing) simp_all
  moreover have "(2 :: nat) ^ 1 \<le> 2 ^ L"
    using Suc by (intro power_increasing) simp_all
  ultimately have k: "2 ^ L + b < 128" "2 \<le> 2 ^ L + b"
    using b by simp_all
  have halves: "even (2 ^ L + b) \<longleftrightarrow> even b" "(2 ^ L + b) div 2 = 2 ^ K + b div 2"
    using Suc by simp_all
  have "qeq (zq (2 ^ L + b) * zq (2 ^ L + b)) (if even b then zq (2 ^ K + b div 2) else - zq (2 ^ K + b div 2))"
    using zq_square [OF k] unfolding halves .
  then show ?thesis
    by (simp only: Suc root.simps)
qed

lemma sum_pairs: "(\<Sum>m<2 * n. g m) = (\<Sum>m<n. g (2 * m) + g (2 * m + 1))" for g :: "nat \<Rightarrow> int"
  by (induction n) simp_all

lemma qeq_power: "qeq a b \<Longrightarrow> qeq (a ^ n) (b ^ n)"
  by (induction n) (simp_all add: qeq_mult)

lemma residue_pairs:
  assumes "qeq (z * z) w"
  shows "qeq ((\<Sum>m<n. a (m * (2 * l) + k) * w ^ m) + z * (\<Sum>m<n. a (m * (2 * l) + (k + l)) * w ^ m)) (\<Sum>m<2 * n. a (m * l + k) * z ^ m)"
proof -
  have "qeq (a (m * (2 * l) + k) * w ^ m + z * (a (m * (2 * l) + (k + l)) * w ^ m)) (a (2 * m * l + k) * z ^ (2 * m) + a ((2 * m + 1) * l + k) * z ^ (2 * m + 1))" for m
  proof -
    have "qeq (w ^ m) (z ^ (2 * m))"
      using qeq_power [OF qeq_sym [OF assms], of m] by (simp add: power_mult power2_eq_square)
    then have "qeq (x * w ^ m + z * (y * w ^ m)) (x * z ^ (2 * m) + y * z ^ (2 * m + 1))" for x y
      using qeq_add [OF qeq_mult [of x x] qeq_mult [OF qeq_refl [of z] qeq_mult [of y y]]] by (simp add: mult.left_commute)
    moreover have "m * (2 * l) + k = 2 * m * l + k" "m * (2 * l) + (k + l) = (2 * m + 1) * l + k"
      by (simp_all add: algebra_simps)
    ultimately show ?thesis
      by (simp only:)
  qed
  then have "qeq (\<Sum>m<n. a (m * (2 * l) + k) * w ^ m + z * (a (m * (2 * l) + (k + l)) * w ^ m))
      (\<Sum>m<n. a (2 * m * l + k) * z ^ (2 * m) + a ((2 * m + 1) * l + k) * z ^ (2 * m + 1))"
    by (intro qeq_sum)
  moreover have "(\<Sum>m<2 * n. a (m * l + k) * z ^ m) = (\<Sum>m<n. a (2 * m * l + k) * z ^ (2 * m) + a ((2 * m + 1) * l + k) * z ^ (2 * m + 1))"
    by (rule sum_pairs)
  ultimately show ?thesis
    unfolding sum_distrib_left sum.distrib [symmetric] by (simp only:)
qed

lemma div_mod_unique: "r < l \<Longrightarrow> i = r + n * l \<Longrightarrow> i div l = n \<and> i mod l = r" for i r n l :: nat
  by simp

lemma fwd_residue:
  assumes "1 \<le> L" and "L \<le> 7" and "i < 256"
  shows "qeq (fwd L (residue (L - 1) a) i) (residue L a i)"
proof -
  define l where "l = (256 :: nat) div 2 ^ L"
  obtain K where K: "L = Suc K" "K \<le> 6"
    using assms(1,2) by (cases L) simp_all
  note len = layer_len [OF assms(1,2), folded l_def]
  have wide: "(256 :: nat) div 2 ^ K = 2 * l"
    using len(2) K(1) by (metis diff_Suc_1 nonzero_mult_div_cancel_right power_not_zero zero_neq_numeral)
  define b where "b = i div (2 * l)"
  define z where "z = zq (2 ^ K + b)"
  have b: "b < 2 ^ K"
    using layer_index(1) [OF assms] K(1) by (simp add: b_def l_def)
  have z: "qeq (z * z) (root K b)" "qeq (- z * - z) (root K b)"
    using root_square [OF K(2) b] by (simp_all add: z_def)
  have old: "residue (L - 1) a k = (\<Sum>m<2 ^ K. a (m * (2 * l) + k mod (2 * l)) * root K (k div (2 * l)) ^ m)" for k
    using K(1) by (simp add: residue_def wide Let_def)
  have new: "residue L a k = (\<Sum>m<2 * 2 ^ K. a (m * l + k mod l) * root L (k div l) ^ m)" for k
    using K(1) by (simp add: residue_def l_def Let_def)
  have i: "i = i mod (2 * l) + b * (2 * l)"
    unfolding b_def by (simp only: mod_div_mult_eq)
  show ?thesis
  proof (cases "i mod (2 * l) < l")
    case True
    have e: "i div l = 2 * b" "i mod l = i mod (2 * l)"
    proof -
      have "i = i mod (2 * l) + (2 * b) * l"
        using i by simp
      then show "i div l = 2 * b" "i mod l = i mod (2 * l)"
        using div_mod_unique [OF True] by blast+
    qed
    have "fwd L (residue (L - 1) a) i = residue (L - 1) a i + z * residue (L - 1) a (i + l)"
      using True K(1) by (simp add: fwd_def Let_def l_def b_def z_def)
    also have "qeq \<dots> (residue L a i)"
      unfolding old new e using same_block(1) [OF len(1) True] residue_pairs [OF z(1), where n = "2 ^ K" and l = l and k = "i mod (2 * l)" and a = a] K(1)
      by (simp add: b_def z_def)
    finally show ?thesis .
  next
    case False
    note k = same_block(2) [OF len(1) False]
    have small: "i mod (2 * l) - l < l"
      using len(1) False mod_less_divisor [of "2 * l" i] by linarith
    have e: "i div l = 2 * b + 1" "i mod l = i mod (2 * l) - l"
    proof -
      have "i = (i mod (2 * l) - l) + (2 * b + 1) * l"
        using i False by (simp add: algebra_simps)
      then show "i div l = 2 * b + 1" "i mod l = i mod (2 * l) - l"
        using div_mod_unique [OF small] by blast+
    qed
    have "fwd L (residue (L - 1) a) i = residue (L - 1) a (i - l) + - z * residue (L - 1) a i"
      using False K(1) by (simp add: fwd_def Let_def l_def b_def z_def)
    also have "qeq \<dots> (residue L a i)"
      unfolding old new e using k residue_pairs [OF z(2), where n = "2 ^ K" and l = l and k = "i mod (2 * l) - l" and a = a] K(1) False
      by (simp add: b_def z_def)
    finally show ?thesis .
  qed
qed

lemma poly_ntt_ok:
  assumes "pbound q p" and "stands_for p a"
  shows "pbound (8 * q) (poly_ntt p) \<and> stands_for (poly_ntt p) (residue 7 a)"
proof -
  have start: "stands_for p (residue 0 a)"
    using assms(2) by (rule stands_for_cong) (simp add: residue_def)
  have step: "pbound (int (L + 1) * q) (ntt_layer L r) \<and> stands_for (ntt_layer L r) (residue L a)"
    if "1 \<le> L" "L \<le> 7" "pbound (int L * q) r \<and> stands_for r (residue (L - 1) a)" for L r
    using ntt_layer_ok [OF that(1,2)] that(3) fwd_residue [OF that(1,2)] stands_for_cong by blast
  define R where "R L r \<longleftrightarrow> pbound (int (L + 1) * q) r \<and> stands_for r (residue L a)" for L r
  have "R 0 p"
    using assms(1) start by (simp add: R_def)
  have next_layer: "L \<le> 6 \<Longrightarrow> R L r \<Longrightarrow> R (L + 1) (ntt_layer (L + 1) r)" for L r
    using step [of "L + 1" r] by (simp add: R_def)
  have "R 7 (ntt_layer 7 (ntt_layer 6 (ntt_layer 5 (ntt_layer 4 (ntt_layer 3 (ntt_layer 2 (ntt_layer 1 p)))))))"
    using next_layer [of 0] next_layer [of 1] next_layer [of 2] next_layer [of 3] next_layer [of 4] next_layer [of 5] next_layer [of 6] \<open>R 0 p\<close>
    by (simp flip: numeral_2_eq_2)
  then show ?thesis
    by (simp add: poly_ntt_def R_def)
qed

section \<open>The inverse transform\<close>

lemma invntt_layer_ok:
  assumes "1 \<le> L" and "L \<le> 7" and "pbound q r" and "stands_for r f"
  shows "pbound q (invntt_layer L r) \<and> stands_for (invntt_layer L r) (bwd L f)"
proof -
  let ?len = "256 div 2 ^ L :: nat"
  let ?Z = "\<lambda>n. zetas ! (2 ^ L - 1 - n)"
  have r: "length r = 256" "\<And>i. i < 256 \<Longrightarrow> \<bar>sint (r ! i)\<bar> < q" "\<And>i. i < 256 \<Longrightarrow> qeq (sint (r ! i)) (f i)"
    using assms(3,4) by (simp_all add: pbound_def stands_for_def)
  note lay = layer_ok(2) [OF assms(1,2) r(1)]
  have room: "q + q < 2 ^ 15"
    by (simp add: q_def)
  have each: "\<bar>sint (inv_butterfly ?Z ?len r i)\<bar> < q \<and> qeq (sint (inv_butterfly ?Z ?len r i)) (bwd L f i)" if i: "i < 256" for i
  proof (cases "i mod (2 * ?len) < ?len")
    case True
    then have k: "i + ?len < 256"
      by (rule layer_index(4) [OF assms(1,2) i])
    have "sint (r ! i + r ! (i + ?len)) = sint (r ! i) + sint (r ! (i + ?len))"
      using abs_lessI [OF r(2) [OF i] r(2) [OF k]] room by (intro sint_sum_small(1)) simp
    then have "qeq (sint (r ! i + r ! (i + ?len))) (f i + f (i + ?len))"
      using qeq_add [OF r(3) [OF i] r(3) [OF k]] by simp
    then have "qeq (sint (barrett_reduce (r ! i + r ! (i + ?len)))) (f i + f (i + ?len))"
      by (rule qeq_trans [OF barrett_ok(1)])
    moreover have "\<bar>sint (barrett_reduce (r ! i + r ! (i + ?len)))\<bar> < q"
      using barrett_ok(2) [of "r ! i + r ! (i + ?len)"] by (simp add: q_def)
    ultimately show ?thesis
      using True by (simp add: inv_butterfly_def bwd_def Let_def)
  next
    case False
    let ?n = "i div (2 * ?len)"
    have k: "i - ?len < 256"
      using i by simp
    have "sint (r ! i - r ! (i - ?len)) = sint (r ! i) - sint (r ! (i - ?len))"
      using abs_lessI [OF r(2) [OF i] r(2) [OF k]] room by (intro sint_sum_small(2)) simp
    then have d: "qeq (sint (r ! i - r ! (i - ?len))) (f i - f (i - ?len))"
      using qeq_diff [OF r(3) [OF i] r(3) [OF k]] by simp
    have z: "\<bar>sint (?Z ?n)\<bar> \<le> 1664"
      by (rule zetas_small [OF layer_index(3) [OF assms(1,2) i]])
    have "qeq (sint (fqmul (r ! i - r ! (i - ?len)) (?Z ?n))) (169 * (sint (r ! i - r ! (i - ?len)) * sint (?Z ?n)))"
      by (rule fqmul_ok(1) [OF z])
    also have "169 * (sint (r ! i - r ! (i - ?len)) * sint (?Z ?n)) = zq (2 ^ L - 1 - ?n) * sint (r ! i - r ! (i - ?len))"
      by (simp add: zq_def)
    also have "qeq \<dots> (zq (2 ^ L - 1 - ?n) * (f i - f (i - ?len)))"
      by (rule qeq_mult [OF qeq_refl d])
    finally show ?thesis
      using False fqmul_ok(2) [OF z] by (simp add: inv_butterfly_def bwd_def Let_def)
  qed
  then show ?thesis
    using lay by (simp add: pbound_def stands_for_def)
qed

lemma inv_fwd:
  assumes "1 \<le> L" and "L \<le> 7" and "i < 256" and "\<And>k. k < 256 \<Longrightarrow> qeq (g k) (c * fwd L f k)"
  shows "qeq (bwd L g i) (2 * c * f i)"
proof -
  let ?l = "256 div 2 ^ L :: nat"
  let ?n = "i div (2 * ?l)"
  let ?z = "zq (2 ^ (L - 1) + ?n)" and ?y = "zq (2 ^ L - 1 - ?n)"
  note len = layer_len [OF assms(1,2)]
  show ?thesis
  proof (cases "i mod (2 * ?l) < ?l")
    case True
    note k = same_block(1) [OF len(1) True]
    have "qeq (bwd L g i) (c * fwd L f i + c * fwd L f (i + ?l))"
      using True qeq_add [OF assms(4) assms(4)] assms(3) layer_index(4) [OF assms(1-3) True] by (simp add: bwd_def Let_def)
    also have "c * fwd L f i + c * fwd L f (i + ?l) = 2 * c * f i"
      using True k by (simp add: fwd_def Let_def algebra_simps)
    finally show ?thesis .
  next
    case False
    note k = same_block(2) [OF len(1) False]
    have lt: "i mod (2 * ?l) - ?l < ?l" "i - ?l < 256"
      using len(1) mod_less_divisor [of "2 * ?l" i] False assms(3) by linarith+
    have "qeq (bwd L g i) (?y * (c * fwd L f i - c * fwd L f (i - ?l)))"
      using False qeq_mult [OF qeq_refl qeq_diff [OF assms(4) [OF assms(3)] assms(4) [OF lt(2)]]] by (simp add: bwd_def Let_def)
    also have "?y * (c * fwd L f i - c * fwd L f (i - ?l)) = (?z * ?y) * (- 2 * c * f i)"
      using False k lt(1) by (simp add: fwd_def Let_def algebra_simps)
    also have "qeq \<dots> (- 1 * (- 2 * c * f i))"
      by (rule qeq_mult [OF zq_inverse [OF assms(1,2) layer_index(1) [OF assms(1-3)]] qeq_refl])
    finally show ?thesis
      by simp
  qed
qed

lemma invntt_residue:
  assumes "1 \<le> L" and "L \<le> 7" and "pbound q r" and "stands_for r (\<lambda>i. c * residue L a i)"
  shows "pbound q (invntt_layer L r) \<and> stands_for (invntt_layer L r) (\<lambda>i. 2 * c * residue (L - 1) a i)"
proof -
  have "qeq (c * residue L a k) (c * fwd L (residue (L - 1) a) k)" if "k < 256" for k
    by (rule qeq_mult [OF qeq_refl qeq_sym [OF fwd_residue [OF assms(1,2) that]]])
  then have "qeq (bwd L (\<lambda>i. c * residue L a i) i) (2 * c * residue (L - 1) a i)" if "i < 256" for i
    by (rule inv_fwd [OF assms(1,2) that])
  then show ?thesis
    using invntt_layer_ok [OF assms] by (meson stands_for_cong)
qed

text \<open>Whatever the size of the coefficients of \<open>p\<close>: the scaling at the start reduces them.\<close>

lemma poly_invntt_ok:
  assumes "stands_for p (\<lambda>i. c * residue 7 a i)"
  shows "pbound q (poly_invntt_tomont p) \<and> stands_for (poly_invntt_tomont p) (\<lambda>i. 2 ^ 16 * c * a i)"
proof -
  define r where "r = map (\<lambda>j. fqmul (p ! j) 1441) [0..<MLKEM_N]"
  have f: "\<bar>sint (1441 :: s16)\<bar> \<le> 1664" "sint (1441 :: s16) = 1441"
    by simp_all
  have "qeq (sint (fqmul x 1441)) (169 * 1441 * c * g)" if "qeq (sint x) (c * g)" for x g
  proof -
    have "qeq (sint (fqmul x 1441)) (169 * (sint x * 1441))"
      using fqmul_ok(1) [OF f(1), of x] unfolding f(2) .
    also have "169 * (sint x * 1441) = 169 * 1441 * sint x"
      by simp
    also have "qeq \<dots> (169 * 1441 * (c * g))"
      by (rule qeq_mult [OF qeq_refl that])
    finally show ?thesis
      by (simp only: mult.assoc)
  qed
  then have start: "pbound q r \<and> stands_for r (\<lambda>i. 169 * 1441 * c * residue 7 a i)"
    using assms fqmul_ok(2) [OF f(1)] by (simp add: r_def MLKEM_N_def pbound_def stands_for_def)
  define R where "R L r \<longleftrightarrow> pbound q r \<and> stands_for r (\<lambda>i. 2 ^ (7 - L) * (169 * 1441 * c) * residue L a i)" for L r
  have "R 7 r"
    using start by (simp add: R_def)
  have next_layer: "L \<le> 6 \<Longrightarrow> R (L + 1) r \<Longrightarrow> R L (invntt_layer (L + 1) r)" for L r
  proof -
    assume L: "L \<le> 6" and "R (L + 1) r"
    then have "pbound q (invntt_layer (L + 1) r) \<and>
        stands_for (invntt_layer (L + 1) r) (\<lambda>i. 2 * (2 ^ (7 - (L + 1)) * (169 * 1441 * c)) * residue (L + 1 - 1) a i)"
      unfolding R_def by (intro invntt_residue) simp_all
    moreover have "(2 :: int) ^ (7 - L) = 2 * 2 ^ (7 - (L + 1))"
    proof -
      have "7 - L = Suc (7 - (L + 1))"
        using L by simp
      then show ?thesis
        by simp
    qed
    ultimately show ?thesis
      unfolding R_def by (simp only: mult.assoc diff_add_inverse2)
  qed
  have "R 0 (invntt_layer 1 (invntt_layer 2 (invntt_layer 3 (invntt_layer 4 (invntt_layer 5 (invntt_layer 6 (invntt_layer 7 r)))))))"
    using next_layer [of 0] next_layer [of 1] next_layer [of 2] next_layer [of 3] next_layer [of 4] next_layer [of 5] next_layer [of 6] \<open>R 7 r\<close>
    by (simp flip: numeral_2_eq_2)
  then have fin: "pbound q (poly_invntt_tomont p)" "stands_for (poly_invntt_tomont p) (\<lambda>i. 2 ^ 7 * (169 * 1441 * c) * residue 0 a i)"
    by (simp_all add: poly_invntt_tomont_def r_def [symmetric] R_def)
  have "qeq (2 ^ 7 * (169 * 1441 * c) * residue 0 a i) (2 ^ 16 * c * a i)" if "i < 256" for i
  proof -
    have "2 ^ 7 * (169 * 1441 * c) * residue 0 a i = 2 ^ 16 * c * a i + (9344 * c * a i) * q"
      using that by (simp add: residue_def q_def)
    then show ?thesis
      using qeq_multiple(1) by metis
  qed
  then show ?thesis
    by (intro conjI fin(1) stands_for_cong [OF fin(2)])
qed

end
