(* ===== verification/MlkProduct.thy ===== *)
theory MlkProduct
  imports MlkNtt
begin

text \<open>
  What the transform of \<open>MlkNtt\<close> is for: the evaluation points are the odd powers of 17 in
  bit-reversed order, and the pairwise products of two transformed vectors with the cached
  multiples (\<open>poly_mulcache_compute\<close>, \<open>polyvec_basemul_acc_montgomery_cached\<close>) transform back to
  their inner product modulo \<open>X ^ 256 + 1\<close> and 3329.
\<close>

section \<open>Products modulo X ^ 256 + 1\<close>

text \<open>Coefficient \<open>n\<close> of the product of two polynomials, \<open>X ^ 256\<close> being \<open>- 1\<close>.\<close>

definition nega :: "(nat \<Rightarrow> int) \<Rightarrow> (nat \<Rightarrow> int) \<Rightarrow> nat \<Rightarrow> int" where
  "nega a b n = (\<Sum>i<256. a i * (if i \<le> n then b (n - i) else - b (256 + n - i)))"

lemma root_step: "L \<le> 6 \<Longrightarrow> n < 2 ^ Suc L \<Longrightarrow> qeq (root (Suc L) n * root (Suc L) n) (root L (n div 2))"
  using root_square [of L "n div 2"] by simp

lemma root_last: "n < 128 \<Longrightarrow> qeq (root 7 n ^ 128) (- 1)"
proof -
  assume n: "n < 128"
  have step: "qeq (root (Suc L) k ^ (2 * e)) (root L (k div 2) ^ e)" if "L \<le> 6" "k < 2 ^ Suc L" for L k e
    using qeq_power [OF root_step [OF that], of e] by (simp add: power_mult power2_eq_square)
  define R where "R L \<longleftrightarrow> qeq (root 7 n ^ 128) (root L (n div 2 ^ (7 - L)) ^ 2 ^ L)" for L
  have down: "R L" if "L \<le> 6" "R (Suc L)" for L
  proof -
    have "n div 2 ^ (7 - Suc L) < 2 ^ Suc L"
    proof (rule less_mult_imp_div_less)
      have "(2 :: nat) ^ Suc L * 2 ^ (7 - Suc L) = 2 ^ (Suc L + (7 - Suc L))"
        by (rule power_add [symmetric])
      also have "Suc L + (7 - Suc L) = 7"
        using that(1) by simp
      finally show "n < 2 ^ Suc L * 2 ^ (7 - Suc L)"
        using n by simp
    qed
    then have "qeq (root (Suc L) (n div 2 ^ (7 - Suc L)) ^ (2 * 2 ^ L)) (root L (n div 2 ^ (7 - Suc L) div 2) ^ 2 ^ L)"
      by (rule step [OF that(1)])
    moreover have "n div 2 ^ (7 - Suc L) div 2 = n div 2 ^ (7 - L)"
    proof -
      have "7 - L = Suc (7 - Suc L)"
        using that(1) by simp
      then show ?thesis
        by (simp add: div_mult2_eq [symmetric] mult.commute)
    qed
    moreover have "(2 :: nat) * 2 ^ L = 2 ^ Suc L"
      by simp
    ultimately show ?thesis
      using that(2) unfolding R_def by (simp only:) (rule qeq_trans)
  qed
  have "R 7"
    by (simp add: R_def)
  then have "R 0"
    using down [of 0] down [of 1] down [of 2] down [of 3] down [of 4] down [of 5] down [of 6] by (simp flip: numeral_2_eq_2)
  then show ?thesis
    using n by (simp add: R_def)
qed

text \<open>Multiplying by the \<open>k\<close>-th power of \<open>w\<close> rotates the coefficients and negates those that pass the end.\<close>

lemma shift_sum:
  assumes "qeq (w ^ 128) (- 1)" and "k \<le> 128"
  shows "qeq (\<Sum>m<128. (if k \<le> m then g (m - k) else - g (128 + m - k)) * w ^ m) (w ^ k * (\<Sum>m<128. g m * w ^ m))"
proof -
  let ?f = "\<lambda>m. (if k \<le> m then g (m - k) else - g (128 + m - k)) * w ^ m"
  have split: "(\<Sum>m<128. h m) = (\<Sum>m<j. h m) + (\<Sum>m<128 - j. h (j + m))" if "j \<le> 128" for h :: "nat \<Rightarrow> int" and j
    using that sum.atLeastLessThan_concat [of 0 j 128 h] sum.shift_bounds_nat_ivl [of h 0 j "128 - j"]
    by (simp add: atLeast0LessThan add.commute)
  have "(\<Sum>m<128. ?f m) = (\<Sum>m<k. - g (128 + m - k) * w ^ m) + (\<Sum>m<128 - k. g m * w ^ (k + m))"
    unfolding split [OF assms(2)] by simp
  moreover have "w ^ k * (\<Sum>m<128. g m * w ^ m) = (\<Sum>m<128 - k. g m * w ^ (k + m)) + (\<Sum>m<k. g (128 + m - k) * (w ^ 128 * w ^ m))"
  proof -
    have "w ^ k * (\<Sum>m<128. g m * w ^ m) = (\<Sum>m<128. g m * w ^ (k + m))"
      by (simp add: sum_distrib_left power_add mult.left_commute)
    also have "\<dots> = (\<Sum>m<128 - k. g m * w ^ (k + m)) + (\<Sum>m<k. g (128 - k + m) * w ^ (k + (128 - k + m)))"
      using split [of "128 - k" "\<lambda>m. g m * w ^ (k + m)"] assms(2) by simp
    also have "(\<Sum>m<k. g (128 - k + m) * w ^ (k + (128 - k + m))) = (\<Sum>m<k. g (128 + m - k) * (w ^ 128 * w ^ m))"
      using assms(2) by (simp add: power_add [symmetric] add.commute)
    finally show ?thesis .
  qed
  moreover have "qeq (\<Sum>m<k. - g (128 + m - k) * w ^ m) (\<Sum>m<k. g (128 + m - k) * (w ^ 128 * w ^ m))"
  proof (rule qeq_sum)
    fix m
    have "qeq (g (128 + m - k) * (- 1 * w ^ m)) (g (128 + m - k) * (w ^ 128 * w ^ m))"
      by (intro qeq_mult qeq_refl qeq_sym [OF assms(1)])
    then show "qeq (- g (128 + m - k) * w ^ m) (g (128 + m - k) * (w ^ 128 * w ^ m))"
      by simp
  qed
  ultimately show ?thesis
    using qeq_add [OF _ qeq_refl, of "\<Sum>m<k. - g (128 + m - k) * w ^ m" "\<Sum>m<k. g (128 + m - k) * (w ^ 128 * w ^ m)" "\<Sum>m<128 - k. g m * w ^ (k + m)"]
    by (simp add: add.commute)
qed

lemma residue_pair: "residue 7 a (2 * n) = (\<Sum>m<128. a (2 * m) * root 7 n ^ m)" "residue 7 a (2 * n + 1) = (\<Sum>m<128. a (2 * m + 1) * root 7 n ^ m)"
proof -
  have len: "(256 :: nat) div 2 ^ 7 = 2" "{..<(2 :: nat) ^ 7} = {..<128}"
    by simp_all
  have "(2 * n) mod 2 = 0" "(2 * n) div 2 = n" "(2 * n + 1) mod 2 = 1" "(2 * n + 1) div 2 = n"
    by simp_all
  then show "residue 7 a (2 * n) = (\<Sum>m<128. a (2 * m) * root 7 n ^ m)" "residue 7 a (2 * n + 1) = (\<Sum>m<128. a (2 * m + 1) * root 7 n ^ m)"
    by (simp_all only: residue_def Let_def len mult.commute [of _ "2 :: nat"] add_0_right)
qed

lemma residue_nega:
  assumes "n < 128"
  shows "qeq (residue 7 (nega a b) (2 * n)) (residue 7 a (2 * n) * residue 7 b (2 * n) + residue 7 a (2 * n + 1) * residue 7 b (2 * n + 1) * root 7 n)" (is ?E)
    and "qeq (residue 7 (nega a b) (2 * n + 1)) (residue 7 a (2 * n) * residue 7 b (2 * n + 1) + residue 7 a (2 * n + 1) * residue 7 b (2 * n))" (is ?O)
proof -
  define w where "w = root 7 n"
  define E where "E f = (\<Sum>m<128. f (2 * m) * w ^ m)" for f :: "nat \<Rightarrow> int"
  define D where "D f = (\<Sum>m<128. f (2 * m + 1) * w ^ m)" for f :: "nat \<Rightarrow> int"
  have w: "qeq (w ^ 128) (- 1)"
    unfolding w_def by (rule root_last [OF assms])
  let ?s = "\<lambda>i n. if i \<le> n then b (n - i) else - b (256 + n - i)"
  have swap: "(\<Sum>m<128. nega a b (c m) * w ^ m) =
      (\<Sum>k<128. a (2 * k) * (\<Sum>m<128. ?s (2 * k) (c m) * w ^ m) + a (2 * k + 1) * (\<Sum>m<128. ?s (2 * k + 1) (c m) * w ^ m))" for c
  proof -
    have "(\<Sum>m<128. nega a b (c m) * w ^ m) = (\<Sum>m<128. \<Sum>i<256. a i * (?s i (c m) * w ^ m))"
      unfolding nega_def sum_distrib_right by (simp only: mult.assoc)
    also have "\<dots> = (\<Sum>i<256. \<Sum>m<128. a i * (?s i (c m) * w ^ m))"
      by (rule sum.swap)
    also have "\<dots> = (\<Sum>i<2 * 128. a i * (\<Sum>m<128. ?s i (c m) * w ^ m))"
      by (simp only: sum_distrib_left) simp
    finally show ?thesis
      unfolding sum_pairs .
  qed
  have rot: "qeq (\<Sum>m<128. ?s (2 * k) (2 * m) * w ^ m) (w ^ k * E b)"
    "qeq (\<Sum>m<128. ?s (2 * k + 1) (2 * m) * w ^ m) (w ^ (k + 1) * D b)"
    "qeq (\<Sum>m<128. ?s (2 * k) (2 * m + 1) * w ^ m) (w ^ k * D b)"
    "qeq (\<Sum>m<128. ?s (2 * k + 1) (2 * m + 1) * w ^ m) (w ^ k * E b)" if k: "k < 128" for k
  proof -
    have f: "?s (2 * k) (2 * m) = (if k \<le> m then b (2 * (m - k)) else - b (2 * (128 + m - k)))"
      "?s (2 * k + 1) (2 * m) = (if k + 1 \<le> m then b (2 * (m - (k + 1)) + 1) else - b (2 * (128 + m - (k + 1)) + 1))"
      "?s (2 * k) (2 * m + 1) = (if k \<le> m then b (2 * (m - k) + 1) else - b (2 * (128 + m - k) + 1))"
      "?s (2 * k + 1) (2 * m + 1) = (if k \<le> m then b (2 * (m - k)) else - b (2 * (128 + m - k)))" for m
    proof -
      have "2 * m - 2 * k = 2 * (m - k)" "256 + 2 * m - 2 * k = 2 * (128 + m - k)" "2 * m + 1 - (2 * k + 1) = 2 * (m - k)"
        "256 + (2 * m + 1) - (2 * k + 1) = 2 * (128 + m - k)"
        by simp_all
      moreover have "k + 1 \<le> m \<Longrightarrow> 2 * m - (2 * k + 1) = 2 * (m - (k + 1)) + 1" "256 + 2 * m - (2 * k + 1) = 2 * (128 + m - (k + 1)) + 1"
        "k \<le> m \<Longrightarrow> 2 * m + 1 - 2 * k = 2 * (m - k) + 1" "256 + (2 * m + 1) - 2 * k = 2 * (128 + m - k) + 1"
        using k by simp_all
      moreover have "2 * k \<le> 2 * m \<longleftrightarrow> k \<le> m" "2 * k + 1 \<le> 2 * m \<longleftrightarrow> k + 1 \<le> m" "2 * k \<le> 2 * m + 1 \<longleftrightarrow> k \<le> m"
        "2 * k + 1 \<le> 2 * m + 1 \<longleftrightarrow> k \<le> m"
        by presburger+
      ultimately show "?s (2 * k) (2 * m) = (if k \<le> m then b (2 * (m - k)) else - b (2 * (128 + m - k)))"
        "?s (2 * k + 1) (2 * m) = (if k + 1 \<le> m then b (2 * (m - (k + 1)) + 1) else - b (2 * (128 + m - (k + 1)) + 1))"
        "?s (2 * k) (2 * m + 1) = (if k \<le> m then b (2 * (m - k) + 1) else - b (2 * (128 + m - k) + 1))"
        "?s (2 * k + 1) (2 * m + 1) = (if k \<le> m then b (2 * (m - k)) else - b (2 * (128 + m - k)))"
        by simp_all
    qed
    show "qeq (\<Sum>m<128. ?s (2 * k) (2 * m) * w ^ m) (w ^ k * E b)"
      "qeq (\<Sum>m<128. ?s (2 * k + 1) (2 * m) * w ^ m) (w ^ (k + 1) * D b)"
      "qeq (\<Sum>m<128. ?s (2 * k) (2 * m + 1) * w ^ m) (w ^ k * D b)"
      "qeq (\<Sum>m<128. ?s (2 * k + 1) (2 * m + 1) * w ^ m) (w ^ k * E b)"
      unfolding f E_def D_def using k shift_sum [OF w, of k "\<lambda>m. b (2 * m)"] shift_sum [OF w, of k "\<lambda>m. b (2 * m + 1)"]
        shift_sum [OF w, of "k + 1" "\<lambda>m. b (2 * m + 1)"] by (simp_all only:)
  qed
  have "qeq (\<Sum>m<128. nega a b (2 * m) * w ^ m) (\<Sum>k<128. a (2 * k) * (w ^ k * E b) + a (2 * k + 1) * (w ^ (k + 1) * D b))"
    unfolding swap by (intro qeq_sum qeq_add qeq_mult qeq_refl rot) simp_all
  also have "(\<Sum>k<128. a (2 * k) * (w ^ k * E b) + a (2 * k + 1) * (w ^ (k + 1) * D b)) = E a * E b + D a * D b * w"
    unfolding E_def [of a] D_def [of a] sum.distrib sum_distrib_right by (simp add: algebra_simps)
  finally show ?E
    unfolding residue_pair E_def D_def w_def .
  have "qeq (\<Sum>m<128. nega a b (2 * m + 1) * w ^ m) (\<Sum>k<128. a (2 * k) * (w ^ k * D b) + a (2 * k + 1) * (w ^ k * E b))"
    unfolding swap by (intro qeq_sum qeq_add qeq_mult qeq_refl rot) simp_all
  also have "(\<Sum>k<128. a (2 * k) * (w ^ k * D b) + a (2 * k + 1) * (w ^ k * E b)) = E a * D b + D a * E b"
    unfolding E_def [of a] D_def [of a] sum.distrib sum_distrib_right by (simp add: algebra_simps)
  finally show ?O
    unfolding residue_pair E_def D_def w_def .
qed

section \<open>The product of the transformed polynomials\<close>

lemma nth_concat_pairs: "n < 2 * N \<Longrightarrow> concat (map (\<lambda>i. [f i, g i]) [0..<N]) ! n = (if even n then f (n div 2) else g (n div 2))"
  and length_concat_pairs: "length (concat (map (\<lambda>i. [f i, g i]) [0..<N])) = 2 * N"
proof (induction N arbitrary: n)
  case (Suc N)
  {
    case 1
    show ?case
    proof (cases "n < 2 * N")
      case False
      then have "n = 2 * N \<or> n = 2 * N + 1"
        using 1 by (simp add: less_Suc_eq)
      then show ?thesis
        using Suc.IH(2) by (auto simp: nth_append)
    qed (use Suc.IH in \<open>simp add: nth_append\<close>)
  next
    case 2
    show ?case
      using Suc.IH(2) by simp
  }
qed simp_all

lemma sint_minus_small: "\<bar>sint x\<bar> < 2 ^ 15 \<Longrightarrow> sint (- x :: s16) = - sint x"
proof -
  have "- x = word_of_int (- sint x)"
    by (simp only: of_int_minus word_sint)
  then show "\<bar>sint x\<bar> < 2 ^ 15 \<Longrightarrow> sint (- x :: s16) = - sint x"
    using sint16 [of "- sint x"] by simp
qed

lemma mulcache_ok:
  assumes "n < 128"
  shows "\<bar>sint (poly_mulcache_compute b ! n)\<bar> < q" and "qeq (sint (poly_mulcache_compute b ! n)) (sint (b ! (2 * n + 1)) * root 7 n)"
proof -
  define z where "z = zetas ! (64 + n div 2)"
  have "64 + n div 2 < 128"
    using assms by simp
  then have z: "\<bar>sint z\<bar> \<le> 1664"
    unfolding z_def by (rule zetas_small)
  then have mz: "sint (- z) = - sint z"
    by (intro sint_minus_small) simp
  then have z': "\<bar>sint (- z)\<bar> \<le> 1664"
    using z by simp
  have i: "even n \<Longrightarrow> 4 * (n div 2) + 1 = 2 * n + 1" "odd n \<Longrightarrow> 4 * (n div 2) + 3 = 2 * n + 1"
    by presburger+
  have "n < 2 * (MLKEM_N div 4)"
    using assms by (simp add: MLKEM_N_def)
  then have e: "poly_mulcache_compute b ! n = fqmul (b ! (2 * n + 1)) (if even n then z else - z)"
    unfolding poly_mulcache_compute_def z_def by (cases "even n") (simp_all only: nth_concat_pairs i if_True if_False not_False_eq_True)
  have z7: "root 7 n = 169 * sint (if even n then z else - z)"
  proof -
    have "root 7 n = root (Suc 6) n"
      by simp
    then show ?thesis
      unfolding root.simps zq_def using mz by (simp add: z_def)
  qed
  have sel: "\<bar>sint (if even n then z else - z)\<bar> \<le> 1664"
    using z z' by simp
  show "\<bar>sint (poly_mulcache_compute b ! n)\<bar> < q" "qeq (sint (poly_mulcache_compute b ! n)) (sint (b ! (2 * n + 1)) * root 7 n)"
    using fqmul_ok [OF sel, of "b ! (2 * n + 1)"] unfolding e z7 by (simp_all add: mult.left_commute)
qed

lemma sint_sum_product:
  fixes a b c d :: s16
  assumes "t = word_of_int s"
  shows "t + scast a * scast b + scast c * scast d = (word_of_int (s + sint a * sint b + sint c * sint d) :: s32)"
  unfolding assms scast_int by (simp only: of_int_add of_int_mult)

lemma abs_sum_product:
  assumes "0 \<le> a" "a < 4096" "\<bar>b\<bar> < 8 * q" "0 \<le> c" "c < 4096" "\<bar>d\<bar> < 8 * q"
  shows "\<bar>a * b + c * d\<bar> \<le> 218107890"
proof -
  have "\<bar>x * y\<bar> \<le> 4095 * 26631" if "0 \<le> x" "x < 4096" "\<bar>y\<bar> < 8 * q" for x y :: int
    unfolding abs_mult using that by (intro mult_mono) (simp_all add: q_def)
  from this [OF assms(1-3)] this [OF assms(4-6)] show ?thesis
    by simp
qed

text \<open>The operands of the product: unsigned 12-bit coefficients, and coefficients as the transform leaves them.\<close>

definition upoly :: "poly \<Rightarrow> bool" where
  "upoly r \<longleftrightarrow> length r = 256 \<and> (\<forall>i<256. 0 \<le> sint (r ! i) \<and> sint (r ! i) < 4096)"

lemma polyvec_mulcache_nth: "k < 3 \<Longrightarrow> polyvec_mulcache_compute b ! k = poly_mulcache_compute (b ! k)"
  by (simp add: polyvec_mulcache_compute_def MLKEM_K_def)

lemma less3: "(\<forall>k<3. P k) \<longleftrightarrow> P 0 \<and> P 1 \<and> P (2 :: nat)"
  by (simp add: numeral_eq_Suc All_less_Suc conj_ac)

lemma sum3: "(\<Sum>k<3. f k) = f 0 + f 1 + f (2 :: nat)" for f :: "nat \<Rightarrow> int"
  by (simp add: numeral_eq_Suc)

lemma basemul_pair_ok:
  assumes a: "\<forall>k<3. upoly (a ! k)" and b: "\<forall>k<3. pbound (8 * q) (b ! k)" and n: "n < 128"
  obtains x y where "basemul_pair a b (polyvec_mulcache_compute b) n = [x, y]"
    and "qeq (sint x) (169 * (\<Sum>k<3. sint (a ! k ! (2 * n)) * sint (b ! k ! (2 * n)) + sint (a ! k ! (2 * n + 1)) * sint (b ! k ! (2 * n + 1)) * root 7 n))"
    and "qeq (sint y) (169 * (\<Sum>k<3. sint (a ! k ! (2 * n)) * sint (b ! k ! (2 * n + 1)) + sint (a ! k ! (2 * n + 1)) * sint (b ! k ! (2 * n))))"
proof -
  define A where "A k i = sint (a ! k ! i)" for k i
  define B where "B k i = sint (b ! k ! i)" for k i
  define C where "C k = sint (poly_mulcache_compute (b ! k) ! n)" for k
  let ?e = "2 * n" and ?o = "2 * n + 1"
  define s0 where "s0 k = A k ?o * C k + A k ?e * B k ?e" for k
  define s1 where "s1 k = A k ?e * B k ?o + A k ?o * B k ?e" for k
  have i: "?e < 256" "?o < 256"
    using n by simp_all
  have A: "0 \<le> A k i" "A k i < 4096" and B: "\<bar>B k i\<bar> < 8 * q" if "k < 3" "i < 256" for k i
    using a b that by (simp_all add: A_def B_def upoly_def pbound_def)
  have C: "\<bar>C k\<bar> < 8 * q" for k
    using mulcache_ok(1) [OF n, of "b ! k"] by (simp add: C_def q_def)
  have s0: "\<bar>s0 k\<bar> \<le> 218107890" and s1: "\<bar>s1 k\<bar> \<le> 218107890" if "k < 3" for k
    unfolding s0_def s1_def using A [OF that i(1)] A [OF that i(2)] B [OF that i(1)] B [OF that i(2)] C by (auto intro!: abs_sum_product)
  define t0 where "t0 = (word_of_int (s0 0 + s0 1 + s0 2) :: s32)"
  define t1 where "t1 = (word_of_int (s1 0 + s1 1 + s1 2) :: s32)"
  have upt: "[0..<3] = [0, 1, 2 :: nat]"
    by (simp add: upt_rec)
  have cache: "polyvec_mulcache_compute b ! 0 = poly_mulcache_compute (b ! 0)" "polyvec_mulcache_compute b ! 1 = poly_mulcache_compute (b ! 1)"
    "polyvec_mulcache_compute b ! 2 = poly_mulcache_compute (b ! 2)"
    by (rule polyvec_mulcache_nth, simp)+
  have "basemul_pair a b (polyvec_mulcache_compute b) n = [montgomery_reduce t0, montgomery_reduce t1]"
    unfolding basemul_pair_def MLKEM_K_def upt fold_simps case_prod_conv id_apply comp_apply cache scast_int A_def [symmetric] B_def [symmetric] C_def [symmetric]
      Let_def t0_def t1_def s0_def s1_def by (simp only: of_int_add of_int_mult add.assoc add_0_left)
  moreover have small: "\<bar>s0 0 + s0 1 + s0 2\<bar> \<le> 654323670" "\<bar>s1 0 + s1 1 + s1 2\<bar> \<le> 654323670"
    using s0 [of 0] s0 [of 1] s0 [of 2] s1 [of 0] s1 [of 1] s1 [of 2] by simp_all
  then have st: "sint t0 = s0 0 + s0 1 + s0 2" "sint t1 = s1 0 + s1 1 + s1 2"
    unfolding t0_def t1_def by (intro sint32; simp)+
  have m: "qeq (sint (montgomery_reduce t0)) (169 * (s0 0 + s0 1 + s0 2))" "qeq (sint (montgomery_reduce t1)) (169 * (s1 0 + s1 1 + s1 2))"
    using montgomery_qeq [of t0] montgomery_qeq [of t1] small unfolding st by simp_all
  have s0q: "qeq (s0 k) (A k ?e * B k ?e + A k ?o * B k ?o * root 7 n)" for k
  proof -
    have "qeq (A k ?o * C k) (A k ?o * (B k ?o * root 7 n))"
      unfolding C_def B_def by (intro qeq_mult qeq_refl mulcache_ok(2) n)
    then show ?thesis
      unfolding s0_def using qeq_add [OF _ qeq_refl] by (metis add.commute mult.assoc)
  qed
  have "qeq (169 * (s0 0 + s0 1 + s0 2)) (169 * (\<Sum>k<3. A k ?e * B k ?e + A k ?o * B k ?o * root 7 n))"
    unfolding sum3 by (intro qeq_mult qeq_refl qeq_add s0q)
  then have "qeq (sint (montgomery_reduce t0)) (169 * (\<Sum>k<3. A k ?e * B k ?e + A k ?o * B k ?o * root 7 n))"
    by (rule qeq_trans [OF m(1)])
  moreover have "qeq (sint (montgomery_reduce t1)) (169 * (\<Sum>k<3. A k ?e * B k ?o + A k ?o * B k ?e))"
    using m(2) unfolding sum3 s1_def .
  ultimately show ?thesis
    using that unfolding A_def B_def by blast
qed

lemma residue_sum: "residue 7 (\<lambda>i. \<Sum>k<3. f k i) i = (\<Sum>k<3. residue 7 (f k) i)" for f :: "nat \<Rightarrow> nat \<Rightarrow> int"
  unfolding residue_def Let_def sum3 by (simp only: distrib_right sum.distrib)

lemma basemul_ok:
  assumes a: "\<forall>k<3. upoly (a ! k) \<and> stands_for (a ! k) (residue 7 (f k))" and b: "\<forall>k<3. pbound (8 * q) (b ! k) \<and> stands_for (b ! k) (residue 7 (g k))"
  shows "stands_for (polyvec_basemul_acc_montgomery_cached a b (polyvec_mulcache_compute b)) (\<lambda>i. 169 * residue 7 (\<lambda>i. \<Sum>k<3. nega (f k) (g k) i) i)"
proof -
  let ?c = "polyvec_mulcache_compute b"
  define x where "x n = basemul_pair a b ?c n ! 0" for n
  define y where "y n = basemul_pair a b ?c n ! 1" for n
  let ?E = "\<lambda>n k. residue 7 (f k) (2 * n)" and ?O = "\<lambda>n k. residue 7 (f k) (2 * n + 1)"
  let ?E' = "\<lambda>n k. residue 7 (g k) (2 * n)" and ?O' = "\<lambda>n k. residue 7 (g k) (2 * n + 1)"
  have A: "k < 3 \<Longrightarrow> i < 256 \<Longrightarrow> qeq (sint (a ! k ! i)) (residue 7 (f k) i)" and B: "k < 3 \<Longrightarrow> i < 256 \<Longrightarrow> qeq (sint (b ! k ! i)) (residue 7 (g k) i)" for k i
    using a b by (simp_all add: stands_for_def)
  have pair: "basemul_pair a b ?c n = [x n, y n]" and
    x: "qeq (sint (x n)) (169 * residue 7 (\<lambda>i. \<Sum>k<3. nega (f k) (g k) i) (2 * n))" and
    y: "qeq (sint (y n)) (169 * residue 7 (\<lambda>i. \<Sum>k<3. nega (f k) (g k) i) (2 * n + 1))" if n: "n < 128" for n
  proof -
    have "\<forall>k<3. upoly (a ! k)" "\<forall>k<3. pbound (8 * q) (b ! k)"
      using a b by simp_all
    then obtain u v where p: "basemul_pair a b ?c n = [u, v]" and
      u: "qeq (sint u) (169 * (\<Sum>k<3. sint (a ! k ! (2 * n)) * sint (b ! k ! (2 * n)) + sint (a ! k ! (2 * n + 1)) * sint (b ! k ! (2 * n + 1)) * root 7 n))" and
      v: "qeq (sint v) (169 * (\<Sum>k<3. sint (a ! k ! (2 * n)) * sint (b ! k ! (2 * n + 1)) + sint (a ! k ! (2 * n + 1)) * sint (b ! k ! (2 * n))))"
      using n by (rule basemul_pair_ok)
    then have xy: "x n = u" "y n = v"
      by (simp_all add: x_def y_def)
    then show "basemul_pair a b ?c n = [x n, y n]"
      using p by simp
    have i: "2 * n < 256" "2 * n + 1 < 256"
      using n by simp_all
    have "qeq (\<Sum>k<3. sint (a ! k ! (2 * n)) * sint (b ! k ! (2 * n)) + sint (a ! k ! (2 * n + 1)) * sint (b ! k ! (2 * n + 1)) * root 7 n)
        (\<Sum>k<3. ?E n k * ?E' n k + ?O n k * ?O' n k * root 7 n)"
      by (intro qeq_sum qeq_add qeq_mult qeq_refl A B i) simp_all
    also have "qeq (\<Sum>k<3. ?E n k * ?E' n k + ?O n k * ?O' n k * root 7 n) (\<Sum>k<3. residue 7 (nega (f k) (g k)) (2 * n))"
      by (intro qeq_sum qeq_sym [OF residue_nega(1)] n)
    finally show "qeq (sint (x n)) (169 * residue 7 (\<lambda>i. \<Sum>k<3. nega (f k) (g k) i) (2 * n))"
      unfolding xy residue_sum using u qeq_mult [OF qeq_refl] qeq_trans by blast
    have "qeq (\<Sum>k<3. sint (a ! k ! (2 * n)) * sint (b ! k ! (2 * n + 1)) + sint (a ! k ! (2 * n + 1)) * sint (b ! k ! (2 * n)))
        (\<Sum>k<3. ?E n k * ?O' n k + ?O n k * ?E' n k)"
      by (intro qeq_sum qeq_add qeq_mult qeq_refl A B i) simp_all
    also have "qeq (\<Sum>k<3. ?E n k * ?O' n k + ?O n k * ?E' n k) (\<Sum>k<3. residue 7 (nega (f k) (g k)) (2 * n + 1))"
      by (intro qeq_sum qeq_sym [OF residue_nega(2)] n)
    finally show "qeq (sint (y n)) (169 * residue 7 (\<lambda>i. \<Sum>k<3. nega (f k) (g k) i) (2 * n + 1))"
      unfolding xy residue_sum using v qeq_mult [OF qeq_refl] qeq_trans by blast
  qed
  have r: "polyvec_basemul_acc_montgomery_cached a b ?c = concat (map (\<lambda>i. [x i, y i]) [0..<128])"
    unfolding polyvec_basemul_acc_montgomery_cached_def MLKEM_N_def by (intro arg_cong [where f = concat] map_cong) (simp_all add: pair)
  have "qeq (sint (concat (map (\<lambda>i. [x i, y i]) [0..<128]) ! i)) (169 * residue 7 (\<lambda>i. \<Sum>k<3. nega (f k) (g k) i) i)" if "i < 256" for i
  proof -
    have d: "i div 2 < 128" "i < 2 * 128"
      using that by simp_all
    show ?thesis
    proof (cases "even i")
      case True
      then have "2 * (i div 2) = i"
        by simp
      then show ?thesis
        using x [OF d(1)] True by (simp only: nth_concat_pairs [OF d(2)] if_True)
    next
      case False
      then have "2 * (i div 2) + 1 = i"
        by (rule odd_two_times_div_two_succ)
      then show ?thesis
        using y [OF d(1)] False by (simp only: nth_concat_pairs [OF d(2)] if_False)
    qed
  qed
  then show ?thesis
    unfolding r stands_for_def length_concat_pairs by simp
qed

section \<open>Reducing to canonical coefficients\<close>

lemma poly_reduce_nth: "i < 256 \<Longrightarrow> sint (poly_reduce r ! i) = sint (r ! i) mod q"
proof -
  have "\<bar>sint (barrett_reduce x)\<bar> < q" for x
    using barrett_ok(2) [of x] by (simp add: q_def)
  then have "sint (scalar_signed_to_unsigned_q (barrett_reduce x)) = sint x mod q" for x
    using to_unsigned_ok barrett_ok(1) [of x] by (simp add: qeq_def)
  then show "i < 256 \<Longrightarrow> sint (poly_reduce r ! i) = sint (r ! i) mod q"
    by (simp add: poly_reduce_def MLKEM_N_def Let_def)
qed

lemma poly_reduce_ok: "stands_for r f \<Longrightarrow> stands_for (poly_reduce r) f \<and> upoly (poly_reduce r)"
proof -
  assume r: "stands_for r f"
  have len: "length (poly_reduce r) = 256"
    by (simp add: poly_reduce_def MLKEM_N_def)
  have "0 \<le> k mod q" "k mod q < 4096" "qeq (k mod q) k" for k
    using pos_mod_bound [of q k] by (simp_all add: q_def qeq_def)
  then have "\<forall>i<256. qeq (sint (poly_reduce r ! i)) (sint (r ! i)) \<and> 0 \<le> sint (poly_reduce r ! i) \<and> sint (poly_reduce r ! i) < 4096"
    by (simp add: poly_reduce_nth)
  then show ?thesis
    using r len unfolding stands_for_def upoly_def by (blast intro: qeq_trans)
qed

section \<open>Evaluation points\<close>

text \<open>The seven-bit reversal of FIPS 203, and the roots as powers of 17.\<close>

primrec bitrev :: "nat \<Rightarrow> nat \<Rightarrow> nat" where
  "bitrev 0 i = 0"
| "bitrev (Suc k) i = i mod 2 * 2 ^ k + bitrev k (i div 2)"

definition bitrev7 :: "nat \<Rightarrow> nat" where
  "bitrev7 i = bitrev 7 i"

text \<open>The powers of 17 in the order of the reversed exponents, reduced.\<close>

primrec square17 :: "nat \<Rightarrow> int" where
  "square17 0 = 289"
| "square17 (Suc k) = square17 k * square17 k mod 3329"

primrec powers17 :: "nat \<Rightarrow> int list" where
  "powers17 0 = [17]"
| "powers17 (Suc k) = concat (map (\<lambda>p. [p, p * square17 k mod 3329]) (powers17 k))"

lemma qeq_mod: "qeq (x mod 3329) x"
  by (simp add: qeq_def q_def)

lemma square17_ok: "qeq (square17 k) (17 ^ (2 * 2 ^ k))"
proof (induction k)
  case (Suc k)
  have "qeq (square17 (Suc k)) (17 ^ (2 * 2 ^ k) * 17 ^ (2 * 2 ^ k))"
    by (simp only: square17.simps) (rule qeq_trans [OF qeq_mod qeq_mult [OF Suc Suc]])
  also have "(17 :: int) ^ (2 * 2 ^ k) * 17 ^ (2 * 2 ^ k) = 17 ^ (2 * 2 ^ Suc k)"
    by (simp only: power_add [symmetric] power_Suc) simp
  finally show ?case .
qed simp

lemma map_upt: "map f xs = map (\<lambda>i. f (xs ! i)) [0..<length xs]"
  by (rule nth_equalityI) simp_all

lemma powers17_ok: "length (powers17 k) = 2 ^ k \<and> (\<forall>i<2 ^ k. qeq (powers17 k ! i) (17 ^ (2 * bitrev k i + 1)))"
proof (induction k)
  case (Suc k)
  let ?p = "\<lambda>i. powers17 k ! i"
  have e: "powers17 (Suc k) = concat (map (\<lambda>i. [?p i, ?p i * square17 k mod 3329]) [0..<2 ^ k])"
    using Suc by (subst powers17.simps, subst map_upt) simp
  have "qeq (powers17 (Suc k) ! i) (17 ^ (2 * bitrev (Suc k) i + 1))" if i: "i < 2 * 2 ^ k" for i
  proof -
    have p: "qeq (?p (i div 2)) (17 ^ (2 * bitrev k (i div 2) + 1))"
      using Suc i by simp
    show ?thesis
    proof (cases "even i")
      case True
      then have "bitrev (Suc k) i = bitrev k (i div 2)"
        by simp
      then show ?thesis
        unfolding e nth_concat_pairs [OF i] using p True by (simp only: if_True)
    next
      case False
      then have "bitrev (Suc k) i = 2 ^ k + bitrev k (i div 2)"
        by (simp add: odd_iff_mod_2_eq_one)
      moreover have "qeq (?p (i div 2) * square17 k mod 3329) (17 ^ (2 * bitrev k (i div 2) + 1) * 17 ^ (2 * 2 ^ k))"
        by (rule qeq_trans [OF qeq_mod qeq_mult [OF p square17_ok]])
      ultimately show ?thesis
        unfolding e nth_concat_pairs [OF i] using False by (simp add: power_add [symmetric] algebra_simps)
    qed
  qed
  moreover have "length (powers17 (Suc k)) = 2 * 2 ^ k"
    unfolding e by (rule length_concat_pairs)
  ultimately show ?case
    by simp
qed simp

lemma root_power: "n < 128 \<Longrightarrow> qeq (root 7 n) (17 ^ (2 * bitrev7 n + 1))"
proof -
  define z where "z i = 169 * drop 64 zeta_ints ! i" for i
  have "map (\<lambda>x. x mod 3329) (concat (map (\<lambda>x. [169 * x, - (169 * x)]) (drop 64 zeta_ints))) = map (\<lambda>x. x mod 3329) (powers17 7)"
    by code_simp
  then have table: "map (\<lambda>x. x mod 3329) (concat (map (\<lambda>i. [z i, - z i]) [0..<64])) = map (\<lambda>x. x mod 3329) (powers17 7)"
    using zeta_ints_ok(2) by (subst (asm) (2) map_upt) (simp add: z_def)
  assume n: "n < 128"
  have len: "length (concat (map (\<lambda>i. [z i, - z i]) [0..<64])) = 128" "length (powers17 7) = 128"
    using powers17_ok [of 7] by (simp_all only: length_concat_pairs) simp_all
  have "concat (map (\<lambda>i. [z i, - z i]) [0..<64]) ! n mod 3329 = powers17 7 ! n mod 3329"
    using arg_cong [OF table, of "\<lambda>xs. xs ! n"] n by (simp only: nth_map len)
  moreover have "concat (map (\<lambda>i. [z i, - z i]) [0..<64]) ! n = (if even n then z (n div 2) else - z (n div 2))"
    using n by (intro nth_concat_pairs) simp
  moreover have "root 7 n = root (Suc 6) n"
    by simp
  then have "root 7 n = (if even n then z (n div 2) else - z (n div 2))"
    unfolding root.simps using n zeta_ints_ok(2) by (simp add: zq_int zeta_int_def z_def)
  ultimately have "qeq (root 7 n) (powers17 7 ! n)"
    by (simp only: qeq_def q_def)
  moreover have "n < 2 ^ 7"
    using n by simp
  then have "qeq (powers17 7 ! n) (17 ^ (2 * bitrev 7 n + 1))"
    using powers17_ok by blast
  ultimately show ?thesis
    unfolding bitrev7_def by (rule qeq_trans)
qed

lemma poly_ntt_self: "pbound q p \<Longrightarrow> pbound (8 * q) (poly_ntt p) \<and> stands_for (poly_ntt p) (residue 7 (\<lambda>i. sint (p ! i)))"
  by (rule poly_ntt_ok) (simp_all add: stands_for_self pbound_def)

text \<open>
  C36: the forward transform \<open>mlk_poly_ntt\<close> is the NTT of FIPS 203: coefficients \<open>2 i\<close> and
  \<open>2 i + 1\<close> of its output are the residue of the polynomial modulo \<open>X ^ 2 - 17 ^ (2 BitRev7 i + 1)\<close>,
  that is, its even and odd coefficients evaluated at that power of 17, and no output passes
  \<open>8 q\<close> in absolute value, the bound of the comment.
\<close>

theorem poly_ntt_is_ntt:
  assumes "pbound q p" and "i < 128"
  shows "pbound (8 * q) (poly_ntt p) \<and>
    sint (poly_ntt p ! (2 * i)) mod q = (\<Sum>m<128. sint (p ! (2 * m)) * (17 ^ (2 * bitrev7 i + 1)) ^ m) mod q \<and>
    sint (poly_ntt p ! (2 * i + 1)) mod q = (\<Sum>m<128. sint (p ! (2 * m + 1)) * (17 ^ (2 * bitrev7 i + 1)) ^ m) mod q"
proof -
  note ok = poly_ntt_self [OF assms(1)]
  have roots: "qeq (\<Sum>m<128. f m * root 7 i ^ m) (\<Sum>m<128. f m * (17 ^ (2 * bitrev7 i + 1)) ^ m)" for f
    by (intro qeq_sum qeq_mult qeq_refl qeq_power root_power assms(2))
  have "k < 256 \<Longrightarrow> qeq (sint (poly_ntt p ! k)) (residue 7 (\<lambda>i. sint (p ! i)) k)" for k
    using ok by (simp add: stands_for_def)
  then have k: "qeq (sint (poly_ntt p ! (2 * i))) (residue 7 (\<lambda>i. sint (p ! i)) (2 * i))" "qeq (sint (poly_ntt p ! (2 * i + 1))) (residue 7 (\<lambda>i. sint (p ! i)) (2 * i + 1))"
    using assms(2) by simp_all
  have "qeq (sint (poly_ntt p ! (2 * i))) (\<Sum>m<128. sint (p ! (2 * m)) * (17 ^ (2 * bitrev7 i + 1)) ^ m)"
    "qeq (sint (poly_ntt p ! (2 * i + 1))) (\<Sum>m<128. sint (p ! (2 * m + 1)) * (17 ^ (2 * bitrev7 i + 1)) ^ m)"
    using qeq_trans [OF k(1) [unfolded residue_pair] roots] qeq_trans [OF k(2) [unfolded residue_pair] roots] .
  then show ?thesis
    using ok unfolding qeq_def by blast
qed

lemma poly_ntt_is_ntt_witness:
  "sint (poly_ntt (replicate 256 1) ! 7) mod q = (\<Sum>m<128. sint (replicate 256 (1 :: s16) ! (2 * m + 1)) * (17 ^ (2 * bitrev7 3 + 1)) ^ m) mod q"
proof -
  have "pbound q (replicate 256 1)"
    by (simp add: pbound_def q_def)
  from poly_ntt_is_ntt [OF this, of 3] show ?thesis
    by simp
qed

text \<open>
  C37: the product of two vectors the way ML-KEM computes it (\<open>mlk_polyvec_ntt\<close>, \<open>mlk_polyvec_reduce\<close>,
  \<open>mlk_polyvec_mulcache_compute\<close>, \<open>mlk_polyvec_basemul_acc_montgomery_cached\<close> and
  \<open>mlk_poly_invntt_tomont\<close>) is the schoolbook inner product in \<open>Z_3329[X] / (X ^ 256 + 1)\<close>, and its
  coefficients are again within the bound: no 16-bit or 32-bit operation on the way overflows.
\<close>

theorem polyvec_product:
  assumes "\<forall>k<3. pbound q (a ! k) \<and> pbound q (b ! k)"
  defines "bh \<equiv> polyvec_ntt b"
  defines "r \<equiv> poly_invntt_tomont (polyvec_basemul_acc_montgomery_cached (polyvec_reduce (polyvec_ntt a)) bh (polyvec_mulcache_compute bh))"
  shows "length r = 256 \<and> (\<forall>i<256. \<bar>sint (r ! i)\<bar> < q \<and>
    sint (r ! i) mod q = (\<Sum>k<3. nega (\<lambda>j. sint (a ! k ! j)) (\<lambda>j. sint (b ! k ! j)) i) mod q)"
proof -
  let ?f = "\<lambda>k j. sint (a ! k ! j)" and ?g = "\<lambda>k j. sint (b ! k ! j)"
  have p: "\<forall>k<3. pbound (8 * q) (poly_ntt (a ! k)) \<and> stands_for (poly_ntt (a ! k)) (residue 7 (?f k))"
    "\<forall>k<3. pbound (8 * q) (poly_ntt (b ! k)) \<and> stands_for (poly_ntt (b ! k)) (residue 7 (?g k))"
    using assms(1) poly_ntt_self by blast+
  have "\<forall>k<3. upoly (polyvec_reduce (polyvec_ntt a) ! k) \<and> stands_for (polyvec_reduce (polyvec_ntt a) ! k) (residue 7 (?f k))"
    using p(1) poly_reduce_ok by (simp add: polyvec_reduce_def polyvec_ntt_def MLKEM_K_def) blast
  moreover have "\<forall>k<3. pbound (8 * q) (bh ! k) \<and> stands_for (bh ! k) (residue 7 (?g k))"
    using p(2) by (simp add: bh_def polyvec_ntt_def MLKEM_K_def)
  ultimately have fin: "pbound q r \<and> stands_for r (\<lambda>i. 2 ^ 16 * 169 * (\<Sum>k<3. nega (?f k) (?g k) i))"
    unfolding r_def by (intro poly_invntt_ok basemul_ok)
  have "qeq (2 ^ 16 * 169 * x) x" for x
    using qeq_multiple(1) [of x "3327 * x"] by (simp add: q_def)
  then show ?thesis
    using fin unfolding stands_for_def pbound_def qeq_def by simp
qed

lemma polyvec_product_witness:
  "\<exists>r. r = poly_invntt_tomont (polyvec_basemul_acc_montgomery_cached (polyvec_reduce (polyvec_ntt (replicate 3 (replicate 256 1))))
      (polyvec_ntt (replicate 3 (replicate 256 2))) (polyvec_mulcache_compute (polyvec_ntt (replicate 3 (replicate 256 2))))) \<and>
    sint (r ! 5) mod q = (\<Sum>k<3. nega (\<lambda>j. sint (replicate 3 (replicate 256 (1 :: s16)) ! k ! j)) (\<lambda>j. sint (replicate 3 (replicate 256 (2 :: s16)) ! k ! j)) 5) mod q"
proof -
  have "\<forall>k<3. pbound q (replicate 3 (replicate 256 1) ! k) \<and> pbound q (replicate 3 (replicate 256 2) ! k)"
    by (simp add: pbound_def q_def)
  from polyvec_product [OF this] show ?thesis
    by simp
qed

end
