(* ===== verification/MlkCompress.thy ===== *)
theory MlkCompress
  imports MlkPoly
begin

text \<open>
  Compression, decompression and serialisation of ML-KEM polynomials
  (\<open>mlkem_native/src/compress.h\<close>, \<open>compress.c\<close>).  Right operands of C's integer promotions are
  widened by \<open>promote\<close>; the functions for 5 and 11 bits are those of ML-KEM-1024, which this
  configuration does not compile.
\<close>

definition promote :: "'a::len word \<Rightarrow> s32" where
  "promote x = ucast x"

section \<open>Single coefficients\<close>

definition scalar_compress_d1 :: "s16 \<Rightarrow> byte" where
  "scalar_compress_d1 u = (let d0 = (scast u :: u32) * 1290168 in ucast (drop_bit 31 (d0 + push_bit 30 1)))"

definition scalar_compress_d4 :: "s16 \<Rightarrow> byte" where
  "scalar_compress_d4 u = (let d0 = (scast u :: u32) * 1290160 in ucast (drop_bit 28 (d0 + push_bit 27 1)))"

definition scalar_decompress_d4 :: "byte \<Rightarrow> s16" where
  "scalar_decompress_d4 u = ucast (drop_bit 4 ((ucast u :: u32) * MLKEM_Q + 8))"

definition scalar_compress_d5 :: "s16 \<Rightarrow> byte" where
  "scalar_compress_d5 u = (let d0 = (scast u :: u32) * 1290176 in ucast (drop_bit 27 (d0 + push_bit 26 1)))"

definition scalar_decompress_d5 :: "byte \<Rightarrow> s16" where
  "scalar_decompress_d5 u = ucast (drop_bit 5 ((ucast u :: u32) * MLKEM_Q + 16))"

definition scalar_compress_d10 :: "s16 \<Rightarrow> u16" where
  "scalar_compress_d10 u =
     (let d0 = (scast u :: u64) * 2642263040; d0 = drop_bit 33 (d0 + push_bit 32 1) in ucast (d0 AND 0x3FF))"

definition scalar_decompress_d10 :: "u16 \<Rightarrow> s16" where
  "scalar_decompress_d10 u = ucast (drop_bit 10 ((ucast u :: u32) * MLKEM_Q + 512))"

definition scalar_compress_d11 :: "s16 \<Rightarrow> u16" where
  "scalar_compress_d11 u =
     (let d0 = (scast u :: u64) * 5284526080; d0 = drop_bit 33 (d0 + push_bit 32 1) in ucast (d0 AND 0x7FF))"

definition scalar_decompress_d11 :: "u16 \<Rightarrow> s16" where
  "scalar_decompress_d11 u = ucast (drop_bit 11 ((ucast u :: u32) * MLKEM_Q + 1024))"

section \<open>Compressed polynomials\<close>

definition poly_compress_d4 :: "poly \<Rightarrow> bytes" where
  "poly_compress_d4 a = concat (map (\<lambda>i.
     let t = map (\<lambda>j. promote (scalar_compress_d4 (a ! (8 * i + j)))) [0..<8]
     in [ucast (t ! 0 OR push_bit 4 (t ! 1)), ucast (t ! 2 OR push_bit 4 (t ! 3)),
         ucast (t ! 4 OR push_bit 4 (t ! 5)), ucast (t ! 6 OR push_bit 4 (t ! 7))]) [0..<MLKEM_N div 8])"

definition poly_compress_d10 :: "poly \<Rightarrow> bytes" where
  "poly_compress_d10 a = concat (map (\<lambda>j.
     let t = map (\<lambda>k. promote (scalar_compress_d10 (a ! (4 * j + k)))) [0..<4]
     in [ucast (drop_bit 0 (t ! 0) AND 0xFF), ucast (drop_bit 8 (t ! 0) OR push_bit 2 (t ! 1) AND 0xFF),
         ucast (drop_bit 6 (t ! 1) OR push_bit 4 (t ! 2) AND 0xFF), ucast (drop_bit 4 (t ! 2) OR push_bit 6 (t ! 3) AND 0xFF),
         ucast (drop_bit 2 (t ! 3))]) [0..<MLKEM_N div 4])"

definition poly_decompress_d4 :: "bytes \<Rightarrow> poly" where
  "poly_decompress_d4 a = concat (map (\<lambda>i.
     [scalar_decompress_d4 (ucast (drop_bit 0 (promote (a ! i)) AND 0xF)), scalar_decompress_d4 (ucast (drop_bit 4 (promote (a ! i)) AND 0xF))])
     [0..<MLKEM_N div 2])"

definition poly_decompress_d10 :: "bytes \<Rightarrow> poly" where
  "poly_decompress_d10 a = concat (map (\<lambda>j.
     let base = (\<lambda>k. promote (a ! (5 * j + k)));
       t = [ucast (0x3FF AND (drop_bit 0 (base 0) OR push_bit 8 (base 1))), ucast (0x3FF AND (drop_bit 2 (base 1) OR push_bit 6 (base 2))),
            ucast (0x3FF AND (drop_bit 4 (base 2) OR push_bit 4 (base 3))), ucast (0x3FF AND (drop_bit 6 (base 3) OR push_bit 2 (base 4)))]
     in map (\<lambda>k. scalar_decompress_d10 (t ! k)) [0..<4]) [0..<MLKEM_N div 4])"

definition poly_compress_d5 :: "poly \<Rightarrow> bytes" where
  "poly_compress_d5 a = concat (map (\<lambda>i.
     let t = map (\<lambda>j. promote (scalar_compress_d5 (a ! (8 * i + j)))) [0..<8]
     in [ucast (0xFF AND (drop_bit 0 (t ! 0) OR push_bit 5 (t ! 1))),
         ucast (0xFF AND (drop_bit 3 (t ! 1) OR push_bit 2 (t ! 2) OR push_bit 7 (t ! 3))),
         ucast (0xFF AND (drop_bit 1 (t ! 3) OR push_bit 4 (t ! 4))),
         ucast (0xFF AND (drop_bit 4 (t ! 4) OR push_bit 1 (t ! 5) OR push_bit 6 (t ! 6))),
         ucast (0xFF AND (drop_bit 2 (t ! 6) OR push_bit 3 (t ! 7)))]) [0..<MLKEM_N div 8])"

definition poly_compress_d11 :: "poly \<Rightarrow> bytes" where
  "poly_compress_d11 a = concat (map (\<lambda>j.
     let t = map (\<lambda>k. promote (scalar_compress_d11 (a ! (8 * j + k)))) [0..<8]
     in [ucast (drop_bit 0 (t ! 0) AND 0xFF), ucast (drop_bit 8 (t ! 0) OR push_bit 3 (t ! 1) AND 0xFF),
         ucast (drop_bit 5 (t ! 1) OR push_bit 6 (t ! 2) AND 0xFF), ucast (drop_bit 2 (t ! 2) AND 0xFF),
         ucast (drop_bit 10 (t ! 2) OR push_bit 1 (t ! 3) AND 0xFF), ucast (drop_bit 7 (t ! 3) OR push_bit 4 (t ! 4) AND 0xFF),
         ucast (drop_bit 4 (t ! 4) OR push_bit 7 (t ! 5) AND 0xFF), ucast (drop_bit 1 (t ! 5) AND 0xFF),
         ucast (drop_bit 9 (t ! 5) OR push_bit 2 (t ! 6) AND 0xFF), ucast (drop_bit 6 (t ! 6) OR push_bit 5 (t ! 7) AND 0xFF),
         ucast (drop_bit 3 (t ! 7))]) [0..<MLKEM_N div 8])"

definition poly_decompress_d5 :: "bytes \<Rightarrow> poly" where
  "poly_decompress_d5 a = concat (map (\<lambda>i.
     let base = (\<lambda>k. promote (a ! (i * 5 + k)));
       t = [ucast (0x1F AND drop_bit 0 (base 0)), ucast (0x1F AND (drop_bit 5 (base 0) OR push_bit 3 (base 1))),
            ucast (0x1F AND drop_bit 2 (base 1)), ucast (0x1F AND (drop_bit 7 (base 1) OR push_bit 1 (base 2))),
            ucast (0x1F AND (drop_bit 4 (base 2) OR push_bit 4 (base 3))), ucast (0x1F AND drop_bit 1 (base 3)),
            ucast (0x1F AND (drop_bit 6 (base 3) OR push_bit 2 (base 4))), ucast (0x1F AND drop_bit 3 (base 4))]
     in map (\<lambda>j. scalar_decompress_d5 (t ! j)) [0..<8]) [0..<MLKEM_N div 8])"

definition poly_decompress_d11 :: "bytes \<Rightarrow> poly" where
  "poly_decompress_d11 a = concat (map (\<lambda>j.
     let base = (\<lambda>k. promote (a ! (11 * j + k)));
       t = [ucast (0x7FF AND (drop_bit 0 (base 0) OR push_bit 8 (base 1))), ucast (0x7FF AND (drop_bit 3 (base 1) OR push_bit 5 (base 2))),
            ucast (0x7FF AND (drop_bit 6 (base 2) OR push_bit 2 (base 3) OR push_bit 10 (base 4))),
            ucast (0x7FF AND (drop_bit 1 (base 4) OR push_bit 7 (base 5))), ucast (0x7FF AND (drop_bit 4 (base 5) OR push_bit 4 (base 6))),
            ucast (0x7FF AND (drop_bit 7 (base 6) OR push_bit 1 (base 7) OR push_bit 9 (base 8))),
            ucast (0x7FF AND (drop_bit 2 (base 8) OR push_bit 6 (base 9))), ucast (0x7FF AND (drop_bit 5 (base 9) OR push_bit 3 (base 10)))]
     in map (\<lambda>k. scalar_decompress_d11 (t ! k)) [0..<8]) [0..<MLKEM_N div 8])"

section \<open>Uncompressed polynomials and messages\<close>

definition poly_tobytes :: "poly \<Rightarrow> bytes" where
  "poly_tobytes a = concat (map (\<lambda>i.
     let t0 = promote (a ! (2 * i)); t1 = promote (a ! (2 * i + 1))
     in [ucast (t0 AND 0xFF), ucast (drop_bit 8 t0 OR push_bit 4 t1 AND 0xF0), ucast (drop_bit 4 t1)]) [0..<MLKEM_N div 2])"

definition poly_frombytes :: "bytes \<Rightarrow> poly" where
  "poly_frombytes a = concat (map (\<lambda>i.
     let t0 = promote (a ! (3 * i + 0)); t1 = promote (a ! (3 * i + 1)); t2 = promote (a ! (3 * i + 2))
     in [ucast (t0 OR push_bit 8 t1 AND 0xFFF), ucast (drop_bit 4 t1 OR push_bit 4 t2)]) [0..<MLKEM_N div 2])"

definition poly_frommsg :: "bytes \<Rightarrow> poly" where
  "poly_frommsg msg = concat (map (\<lambda>i. map (\<lambda>j.
     let mask = (ucast (push_bit j 1 :: u32) :: byte) in ct_sel_int16 MLKEM_Q_HALF 0 (ucast (msg ! i AND mask))) [0..<8]) [0..<MLKEM_N div 8])"

definition poly_tomsg :: "poly \<Rightarrow> bytes" where
  "poly_tomsg a = map (\<lambda>i.
     fold (\<lambda>j m. let t = (ucast (scalar_compress_d1 (a ! (8 * i + j))) :: u32) in m OR ucast (push_bit j t)) [0..<8] 0) [0..<MLKEM_N div 8]"

end
