(* ===== verification/MlkCodec.thy ===== *)
theory MlkCodec
  imports MlkCompress MlkReduce
begin

text \<open>
  What compression and serialisation of ML-KEM compute (theory \<open>MlkCompress\<close>): compression is
  rounding, decompression undoes it up to a small error, the byte formats are inverse to each
  other, and a message survives noise below a quarter of the modulus.
\<close>

section \<open>Single coefficients\<close>

text \<open>Rounding \<open>2 ^ d u / 3329\<close> to the nearest integer; the modulus is odd, so there are no ties.\<close>

definition rounded :: "nat \<Rightarrow> int \<Rightarrow> int" where
  "rounded d u = (2 ^ d * u + 1664) div 3329"

lemma rounded_bounds: "3329 * rounded d u \<le> 2 ^ d * u + 1664" "2 ^ d * u + 1664 < 3329 * rounded d u + 3329"
proof -
  have "3329 * rounded d u + (2 ^ d * u + 1664) mod 3329 = 2 ^ d * u + 1664"
    unfolding rounded_def by (rule mult_div_mod_eq)
  moreover have "0 \<le> (2 ^ d * u + 1664) mod 3329" "(2 ^ d * u + 1664) mod 3329 < 3329"
    by simp_all
  ultimately show "3329 * rounded d u \<le> 2 ^ d * u + 1664" "2 ^ d * u + 1664 < 3329 * rounded d u + 3329"
    by linarith+
qed

lemma div_eqI: "0 < b \<Longrightarrow> n * b \<le> x \<Longrightarrow> x < n * b + b \<Longrightarrow> x div b = n" for n b x :: int
  by (rule int_div_pos_eq [of _ _ _ "x - n * b"]) (simp_all add: mult.commute)

lemma div_lessI: "0 < b \<Longrightarrow> x < c * b \<Longrightarrow> x div b < c" for b c x :: int
proof (rule ccontr)
  assume "0 < b" "x < c * b" "\<not> x div b < c"
  then have "c * b \<le> (x div b) * b"
    by (intro mult_right_mono) simp_all
  moreover have "(x div b) * b \<le> x"
    using \<open>0 < b\<close> div_mult_mod_eq [of x b] pos_mod_sign [of b x] by linarith
  ultimately show False
    using \<open>x < c * b\<close> by linarith
qed

lemma rounding:
  assumes "0 \<le> u" "u < 3329"
  shows "(u * 1290168 + 1073741824) div 2147483648 = rounded 1 u" "(u * 1290160 + 134217728) div 268435456 = rounded 4 u"
    "(u * 1290176 + 67108864) div 134217728 = rounded 5 u" "(u * 2642263040 + 4294967296) div 8589934592 = rounded 10 u"
    "(u * 5284526080 + 4294967296) div 8589934592 = rounded 11 u"
proof -
  have u: "0 \<le> u" "u \<le> 3328"
    using assms by simp_all
  have b: "3329 * rounded 1 u \<le> 2 * u + 1664" "2 * u + 1664 < 3329 * rounded 1 u + 3329"
    "3329 * rounded 4 u \<le> 16 * u + 1664" "16 * u + 1664 < 3329 * rounded 4 u + 3329"
    "3329 * rounded 5 u \<le> 32 * u + 1664" "32 * u + 1664 < 3329 * rounded 5 u + 3329"
    "3329 * rounded 10 u \<le> 1024 * u + 1664" "1024 * u + 1664 < 3329 * rounded 10 u + 3329"
    "3329 * rounded 11 u \<le> 2048 * u + 1664" "2048 * u + 1664 < 3329 * rounded 11 u + 3329"
    using rounded_bounds [of 1 u] rounded_bounds [of 4 u] rounded_bounds [of 5 u] rounded_bounds [of 10 u] rounded_bounds [of 11 u] by simp_all
  show "(u * 1290168 + 1073741824) div 2147483648 = rounded 1 u"
    by (rule div_eqI) (use u b(1,2) in linarith)+
  show "(u * 1290160 + 134217728) div 268435456 = rounded 4 u"
    by (rule div_eqI) (use u b(3,4) in linarith)+
  show "(u * 1290176 + 67108864) div 134217728 = rounded 5 u"
  proof (rule div_eqI)
    have "u = 52" if eq: "32 * u + 1665 = 3329 * rounded 5 u + 3329"
    proof -
      define k where "k = u - 104 * rounded 5 u - 52"
      have "rounded 5 u = 32 * k"
        using eq by (simp add: k_def)
      then have "u = 3329 * k + 52"
        using eq by simp
      moreover from this have "k < 1" "- 1 < k"
        using u by linarith+
      ultimately show ?thesis
        by simp
    qed
    then have "u = 52 \<or> 32 * u + 1666 \<le> 3329 * rounded 5 u + 3329"
      using b(6) by linarith
    moreover have "rounded 5 52 = 0"
      by (simp add: rounded_def)
    ultimately show "u * 1290176 + 67108864 < rounded 5 u * 134217728 + 134217728"
      using u by (elim disjE) (simp, linarith)
  qed (use u b(5) in linarith)+
  show "(u * 2642263040 + 4294967296) div 8589934592 = rounded 10 u"
    by (rule div_eqI) (use u b(7,8) in linarith)+
  show "(u * 5284526080 + 4294967296) div 8589934592 = rounded 11 u"
    by (rule div_eqI) (use u b(9,10) in linarith)+
qed

lemma uint_drop_int: "uint (drop_bit k (word_of_int x :: 'a::len word)) = take_bit (LENGTH('a) - k) (drop_bit k x)"
  by (simp add: uint_word_of_int_eq unsigned_drop_bit_eq drop_bit_take_bit)

lemma uint_drop32: "uint (drop_bit k (word_of_int x :: u32)) = take_bit (32 - k) (drop_bit k x)"
proof -
  have "LENGTH(32) = (32 :: nat)"
    by simp
  then show ?thesis
    by (simp only: uint_drop_int)
qed

lemma scast32: "(scast (u :: s16) :: u32) = word_of_int (sint u)"
  and scast64: "(scast (u :: s16) :: u64) = word_of_int (sint u)"
  by (rule scast_eq)+

lemma compress32:
  assumes "k \<le> 31" and "24 \<le> k"
  shows "uint (ucast (drop_bit k ((scast (u :: s16) :: u32) * word_of_int c + push_bit (k - 1) 1)) :: byte) =
    (sint u * c + 2 ^ (k - 1)) div 2 ^ k mod 2 ^ (32 - k)"
proof -
  have e: "(scast u :: u32) * word_of_int c + push_bit (k - 1) 1 = word_of_int (sint u * c + 2 ^ (k - 1))"
    unfolding scast32 by (simp add: push_bit_eq_mult)
  have "uint (ucast (drop_bit k (word_of_int x :: u32)) :: byte) = take_bit 8 (take_bit (32 - k) (drop_bit k x))" for x
    unfolding unsigned_ucast_eq uint_drop_int by simp
  moreover have "take_bit 8 (take_bit (32 - k) y) = take_bit (32 - k) y" for y :: int
    using assms by (simp add: min_absorb2 take_bit_take_bit)
  ultimately show ?thesis
    unfolding e by (simp only: drop_bit_eq_div take_bit_eq_mod)
qed

lemma compress64:
  assumes "d \<le> 16"
  shows "uint (ucast (drop_bit 33 ((scast (u :: s16) :: u64) * word_of_int c + push_bit 32 1) AND mask d) :: u16) =
    (sint u * c + 2 ^ 32) div 2 ^ 33 mod 2 ^ 31 mod 2 ^ d"
proof -
  have e: "(scast u :: u64) * word_of_int c + push_bit 32 1 = word_of_int (sint u * c + 2 ^ 32)"
    unfolding scast64 by (simp add: push_bit_eq_mult)
  have "uint (ucast (drop_bit 33 (word_of_int x :: u64) AND mask d) :: u16) = take_bit d (take_bit 16 (take_bit 31 (drop_bit 33 x)))" for x
  proof -
    have "LENGTH(64) - 33 = (31 :: nat)" "LENGTH(16) = (16 :: nat)"
      by simp_all
    then show ?thesis
      by (simp only: unsigned_ucast_eq take_bit_eq_mask [symmetric] unsigned_take_bit_eq uint_drop_int)
  qed
  moreover have "take_bit d (take_bit 16 y) = take_bit d y" for y :: int
    using assms by (simp add: min_absorb1 take_bit_take_bit)
  ultimately show ?thesis
    unfolding e by (simp only: drop_bit_eq_div take_bit_eq_mod)
qed

lemma compress_ok:
  assumes "0 \<le> sint u" "sint u < 3329"
  shows "uint (scalar_compress_d1 u) = rounded 1 (sint u) mod 2" "uint (scalar_compress_d4 u) = rounded 4 (sint u) mod 16"
    "uint (scalar_compress_d5 u) = rounded 5 (sint u) mod 32" "uint (scalar_compress_d10 u) = rounded 10 (sint u) mod 1024"
    "uint (scalar_compress_d11 u) = rounded 11 (sint u) mod 2048"
proof -
  note r = rounding [OF assms]
  have m: "(0x3FF :: u64) = mask 10" "(0x7FF :: u64) = mask 11"
    by (simp_all add: mask_eq_exp_minus_1)
  have n: "word_of_int 1290168 = (1290168 :: u32)" "word_of_int 1290160 = (1290160 :: u32)" "word_of_int 1290176 = (1290176 :: u32)"
    "word_of_int 2642263040 = (2642263040 :: u64)" "word_of_int 5284526080 = (5284526080 :: u64)"
    by simp_all
  show "uint (scalar_compress_d1 u) = rounded 1 (sint u) mod 2" "uint (scalar_compress_d4 u) = rounded 4 (sint u) mod 16"
    "uint (scalar_compress_d5 u) = rounded 5 (sint u) mod 32"
    using compress32 [of 31 u 1290168] compress32 [of 28 u 1290160] compress32 [of 27 u 1290176]
    unfolding scalar_compress_d1_def scalar_compress_d4_def scalar_compress_d5_def Let_def by (simp_all add: r)
  have "0 \<le> rounded d (sint u)" "rounded d (sint u) < 2 ^ 31" if "d \<le> 11" for d
  proof -
    have "(2 :: int) ^ d \<le> 2 ^ 11"
      using that by (intro power_increasing) simp_all
    then have "2 ^ d * sint u \<le> 2 ^ 11 * 3329"
      using assms by (intro mult_mono) simp_all
    moreover have "0 \<le> 2 ^ d * sint u"
      using assms(1) by simp
    ultimately have "2 ^ d * sint u \<le> 2 ^ 11 * 3329" "0 \<le> 2 ^ d * sint u"
      by blast+
    moreover have "(2 :: int) ^ 11 * 3329 = 6817792"
      by simp
    ultimately have "0 \<le> rounded d (sint u)" "rounded d (sint u) < 2147483648"
      using rounded_bounds [of d "sint u"] by linarith+
    then show "0 \<le> rounded d (sint u)" "rounded d (sint u) < 2 ^ 31"
      by simp_all
  qed
  then have "rounded 10 (sint u) mod 2 ^ 31 = rounded 10 (sint u)" "rounded 11 (sint u) mod 2 ^ 31 = rounded 11 (sint u)"
    by simp_all
  then show "uint (scalar_compress_d10 u) = rounded 10 (sint u) mod 1024" "uint (scalar_compress_d11 u) = rounded 11 (sint u) mod 2048"
    using compress64 [of 10 u 2642263040] compress64 [of 11 u 5284526080]
    unfolding scalar_compress_d10_def scalar_compress_d11_def Let_def m by (simp_all add: r)
qed

definition unrounded :: "nat \<Rightarrow> int \<Rightarrow> int" where
  "unrounded d y = (3329 * y + 2 ^ (d - 1)) div 2 ^ d"

lemma decompress_int:
  assumes "uint y < 2 ^ d" and "0 < d" and "d \<le> 11"
  shows "sint (ucast (drop_bit d ((ucast (y :: 'a::len word) :: u32) * 3329 + word_of_int (2 ^ (d - 1)))) :: s16) = unrounded d (uint y)"
proof -
  have y: "0 \<le> uint y"
    by simp
  have "(2 :: int) ^ d \<le> 2 ^ 11" "(2 :: int) ^ (d - 1) \<le> 2 ^ 11"
    using assms(3) by (intro power_increasing; simp)+
  then have small: "3329 * uint y + 2 ^ (d - 1) < 2 ^ 31" "0 \<le> 3329 * uint y + (2 :: int) ^ (d - 1)"
    using assms(1) y by simp_all
  have "(ucast y :: u32) * 3329 + word_of_int (2 ^ (d - 1)) = word_of_int (3329 * uint y + 2 ^ (d - 1))"
    unfolding ucast_eq by simp
  moreover have "take_bit (32 - d) (drop_bit d (3329 * uint y + 2 ^ (d - 1))) = unrounded d (uint y)"
  proof -
    have "take_bit (32 - d) (drop_bit d x) = drop_bit d (take_bit 32 x)" for x :: int
      using assms(3) by (simp add: drop_bit_take_bit)
    then show ?thesis
      using small by (simp add: take_bit_int_eq_self unrounded_def drop_bit_eq_div)
  qed
  ultimately have "uint (drop_bit d ((ucast y :: u32) * 3329 + word_of_int (2 ^ (d - 1)))) = unrounded d (uint y)"
    by (simp only: uint_drop32)
  then have "(ucast (drop_bit d ((ucast y :: u32) * 3329 + word_of_int (2 ^ (d - 1)))) :: s16) = word_of_int (unrounded d (uint y))"
    by (subst ucast_eq) (simp only:)
  moreover have "0 \<le> unrounded d (uint y)" "unrounded d (uint y) < 2 ^ 15"
  proof -
    show "0 \<le> unrounded d (uint y)"
      using small(2) by (simp add: unrounded_def pos_imp_zdiv_nonneg_iff)
    have "(2 :: int) ^ d = 2 * 2 ^ (d - 1)"
      using assms(2) by (simp add: power_eq_if)
    moreover have "(0 :: int) < 2 ^ (d - 1)"
      by simp
    ultimately have "3329 * uint y + 2 ^ (d - 1) < 32768 * 2 ^ d"
      using assms(1) by linarith
    then have "3329 * uint y + 2 ^ (d - 1) < 2 ^ 15 * 2 ^ d"
      by simp
    then show "unrounded d (uint y) < 2 ^ 15"
      unfolding unrounded_def by (intro div_lessI) simp_all
  qed
  ultimately show ?thesis
    by (simp add: sint16)
qed

lemma decompress_ok:
  "uint y < 16 \<Longrightarrow> sint (scalar_decompress_d4 y) = unrounded 4 (uint y)" "uint y < 32 \<Longrightarrow> sint (scalar_decompress_d5 y) = unrounded 5 (uint y)"
  "uint z < 1024 \<Longrightarrow> sint (scalar_decompress_d10 z) = unrounded 10 (uint z)" "uint z < 2048 \<Longrightarrow> sint (scalar_decompress_d11 z) = unrounded 11 (uint z)"
  using decompress_int [of y 4] decompress_int [of y 5] decompress_int [of z 10] decompress_int [of z 11]
  by (simp_all add: scalar_decompress_d4_def scalar_decompress_d5_def scalar_decompress_d10_def scalar_decompress_d11_def MLKEM_Q_def)

lemma unrounded_bounds:
  "16 * unrounded 4 y \<le> 3329 * y + 8" "3329 * y + 8 < 16 * unrounded 4 y + 16"
  "32 * unrounded 5 y \<le> 3329 * y + 16" "3329 * y + 16 < 32 * unrounded 5 y + 32"
  "1024 * unrounded 10 y \<le> 3329 * y + 512" "3329 * y + 512 < 1024 * unrounded 10 y + 1024"
  "2048 * unrounded 11 y \<le> 3329 * y + 1024" "3329 * y + 1024 < 2048 * unrounded 11 y + 2048"
proof -
  have n: "unrounded 4 y = (3329 * y + 8) div 16" "unrounded 5 y = (3329 * y + 16) div 32" "unrounded 10 y = (3329 * y + 512) div 1024"
    "unrounded 11 y = (3329 * y + 1024) div 2048"
    unfolding unrounded_def by (rule arg_cong2 [where f = "(div)"]; simp)+
  have "b * (x div b) \<le> x" "x < b * (x div b) + b" if "0 < b" for x b :: int
    using mult_div_mod_eq [of b x] pos_mod_sign [OF that, of x] pos_mod_bound [OF that, of x] by linarith+
  from this [of 16 "3329 * y + 8"] this [of 32 "3329 * y + 16"] this [of 1024 "3329 * y + 512"] this [of 2048 "3329 * y + 1024"]
  show "16 * unrounded 4 y \<le> 3329 * y + 8" "3329 * y + 8 < 16 * unrounded 4 y + 16"
    "32 * unrounded 5 y \<le> 3329 * y + 16" "3329 * y + 16 < 32 * unrounded 5 y + 32"
    "1024 * unrounded 10 y \<le> 3329 * y + 512" "3329 * y + 512 < 1024 * unrounded 10 y + 1024"
    "2048 * unrounded 11 y \<le> 3329 * y + 1024" "3329 * y + 1024 < 2048 * unrounded 11 y + 2048"
    by (simp_all only: n)
qed

text \<open>Rounding inverts the expansion, and the expansion of a rounding is close modulo 3329.\<close>

lemma rounded_unrounded:
  "rounded 4 (unrounded 4 y) = y" "rounded 5 (unrounded 5 y) = y" "rounded 10 (unrounded 10 y) = y" "rounded 11 (unrounded 11 y) = y"
proof -
  show "rounded 4 (unrounded 4 y) = y" "rounded 5 (unrounded 5 y) = y" "rounded 10 (unrounded 10 y) = y" "rounded 11 (unrounded 11 y) = y"
    unfolding rounded_def by (rule div_eqI; use unrounded_bounds [of y] in simp)+
qed

lemma unrounded_rounded:
  "\<bar>unrounded 4 (rounded 4 u) - u\<bar> \<le> 104" "\<bar>unrounded 5 (rounded 5 u) - u\<bar> \<le> 52"
  "\<bar>unrounded 10 (rounded 10 u) - u\<bar> \<le> 2" "\<bar>unrounded 11 (rounded 11 u) - u\<bar> \<le> 1"
  using rounded_bounds [of 4 u] unrounded_bounds(1,2) [of "rounded 4 u"] rounded_bounds [of 5 u] unrounded_bounds(3,4) [of "rounded 5 u"]
    rounded_bounds [of 10 u] unrounded_bounds(5,6) [of "rounded 10 u"] rounded_bounds [of 11 u] unrounded_bounds(7,8) [of "rounded 11 u"]
  by simp_all

lemma unrounded_mod: "qeq (unrounded d (y mod 2 ^ d)) (unrounded d y)"
proof -
  have "y = y mod 2 ^ d + y div 2 ^ d * 2 ^ d"
    by (rule mod_div_mult_eq [symmetric])
  then have "3329 * y + 2 ^ (d - 1) = (3329 * (y mod 2 ^ d) + 2 ^ (d - 1)) + (3329 * (y div 2 ^ d)) * 2 ^ d"
    by (simp only: distrib_left mult.assoc ac_simps)
  then have "unrounded d y = unrounded d (y mod 2 ^ d) + (y div 2 ^ d) * q"
    unfolding unrounded_def q_def by (simp only: div_mult_self3 div_mult_self1) simp
  then show ?thesis
    using qeq_multiple(1) qeq_sym by metis
qed

text \<open>How far a coefficient moves, modulo 3329.\<close>

definition near :: "int \<Rightarrow> int \<Rightarrow> int \<Rightarrow> bool" where
  "near b x y \<longleftrightarrow> (\<exists>e. \<bar>e\<bar> \<le> b \<and> qeq x (y + e))"

lemma nearI: "qeq x z \<Longrightarrow> \<bar>z - y\<bar> \<le> b \<Longrightarrow> near b x y"
  unfolding near_def by (rule exI [of _ "z - y"]) simp

text \<open>
  Compression to \<open>d\<close> bits (\<open>mlk_scalar_compress_d1\<close>, \<open>d4\<close>, \<open>d5\<close>, \<open>d10\<close>, \<open>d11\<close>), a
  multiplication and a shift with the top bits wrapping around, is \<open>2 ^ d u / 3329\<close> rounded to the
  nearest integer modulo \<open>2 ^ d\<close>, for every canonical coefficient \<open>u\<close>.
\<close>

theorem compression_rounds:
  assumes "0 \<le> sint u" and "sint u < 3329"
  shows "uint (scalar_compress_d1 u) = (2 * sint u + 1664) div 3329 mod 2 \<and>
    uint (scalar_compress_d4 u) = (2 ^ 4 * sint u + 1664) div 3329 mod 2 ^ 4 \<and>
    uint (scalar_compress_d5 u) = (2 ^ 5 * sint u + 1664) div 3329 mod 2 ^ 5 \<and>
    uint (scalar_compress_d10 u) = (2 ^ 10 * sint u + 1664) div 3329 mod 2 ^ 10 \<and>
    uint (scalar_compress_d11 u) = (2 ^ 11 * sint u + 1664) div 3329 mod 2 ^ 11"
proof -
  have "(2 :: int) ^ 1 = 2" "(2 :: int) ^ 4 = 16" "(2 :: int) ^ 5 = 32" "(2 :: int) ^ 10 = 1024" "(2 :: int) ^ 11 = 2048"
    by simp_all
  then show ?thesis
    using compress_ok [OF assms] unfolding rounded_def by (simp only: simp_thms)
qed

lemma compression_rounds_witness:
  "uint (scalar_compress_d1 1665) = 1 \<and> uint (scalar_compress_d4 3328) = 0 \<and> uint (scalar_compress_d10 3328) = 0"
  using compression_rounds [of 1665] compression_rounds [of 3328] by simp

lemma rounded_small: "rounded d (unrounded d y) = y \<Longrightarrow> 0 \<le> y \<Longrightarrow> y < 2 ^ d \<Longrightarrow> rounded d (unrounded d y) mod 2 ^ d = y"
  by simp

lemma unrounded_range:
  "0 \<le> y \<Longrightarrow> y < 16 \<Longrightarrow> 0 \<le> unrounded 4 y \<and> unrounded 4 y < 3329" "0 \<le> y \<Longrightarrow> y < 32 \<Longrightarrow> 0 \<le> unrounded 5 y \<and> unrounded 5 y < 3329"
  "0 \<le> y \<Longrightarrow> y < 1024 \<Longrightarrow> 0 \<le> unrounded 10 y \<and> unrounded 10 y < 3329" "0 \<le> y \<Longrightarrow> y < 2048 \<Longrightarrow> 0 \<le> unrounded 11 y \<and> unrounded 11 y < 3329"
  using unrounded_bounds [of y] by linarith+

lemma compression_distance:
  assumes "0 \<le> sint u" and "sint u < 3329"
  shows "near 104 (sint (scalar_decompress_d4 (scalar_compress_d4 u))) (sint u)" "near 52 (sint (scalar_decompress_d5 (scalar_compress_d5 u))) (sint u)"
    "near 2 (sint (scalar_decompress_d10 (scalar_compress_d10 u))) (sint u)" "near 1 (sint (scalar_decompress_d11 (scalar_compress_d11 u))) (sint u)"
proof -
  note c = compress_ok [OF assms]
  have m: "uint (scalar_compress_d4 u) < 16" "uint (scalar_compress_d5 u) < 32" "uint (scalar_compress_d10 u) < 1024" "uint (scalar_compress_d11 u) < 2048"
    unfolding c by simp_all
  show "near 104 (sint (scalar_decompress_d4 (scalar_compress_d4 u))) (sint u)"
    unfolding decompress_ok(1) [OF m(1)] c using unrounded_mod [of 4] unrounded_rounded(1) by (auto intro: nearI)
  show "near 52 (sint (scalar_decompress_d5 (scalar_compress_d5 u))) (sint u)"
    unfolding decompress_ok(2) [OF m(2)] c using unrounded_mod [of 5] unrounded_rounded(2) by (auto intro: nearI)
  show "near 2 (sint (scalar_decompress_d10 (scalar_compress_d10 u))) (sint u)"
    unfolding decompress_ok(3) [OF m(3)] c using unrounded_mod [of 10] unrounded_rounded(3) by (auto intro: nearI)
  show "near 1 (sint (scalar_decompress_d11 (scalar_compress_d11 u))) (sint u)"
    unfolding decompress_ok(4) [OF m(4)] c using unrounded_mod [of 11] unrounded_rounded(4) by (auto intro: nearI)
qed

text \<open>
  Decompression is a right inverse of compression on the values of \<open>d\<close> bits, and compressing
  and decompressing moves a canonical coefficient by at most \<open>3329 / 2 ^ (d + 1)\<close>, rounded, modulo
  3329: 104 for 4 bits, 52 for 5, 2 for 10 and 1 for 11.
\<close>

theorem compression_roundtrip:
  assumes "uint y4 < 2 ^ 4" and "uint y5 < 2 ^ 5" and "uint y10 < 2 ^ 10" and "uint y11 < 2 ^ 11" and "0 \<le> sint u" and "sint u < 3329"
  shows "scalar_compress_d4 (scalar_decompress_d4 y4) = y4 \<and> scalar_compress_d5 (scalar_decompress_d5 y5) = y5 \<and>
    scalar_compress_d10 (scalar_decompress_d10 y10) = y10 \<and> scalar_compress_d11 (scalar_decompress_d11 y11) = y11 \<and>
    near 104 (sint (scalar_decompress_d4 (scalar_compress_d4 u))) (sint u) \<and>
    near 52 (sint (scalar_decompress_d5 (scalar_compress_d5 u))) (sint u) \<and>
    near 2 (sint (scalar_decompress_d10 (scalar_compress_d10 u))) (sint u) \<and>
    near 1 (sint (scalar_decompress_d11 (scalar_compress_d11 u))) (sint u)"
proof -
  have y: "uint y4 < 16" "uint y5 < 32" "uint y10 < 1024" "uint y11 < 2048"
    using assms(1-4) by simp_all
  note d = decompress_ok(1) [OF y(1)] decompress_ok(2) [OF y(2)] decompress_ok(3) [OF y(3)] decompress_ok(4) [OF y(4)]
  note r = unrounded_range(1) [OF _ y(1)] unrounded_range(2) [OF _ y(2)] unrounded_range(3) [OF _ y(3)] unrounded_range(4) [OF _ y(4)]
  have inv: "uint (scalar_compress_d4 (scalar_decompress_d4 y4)) = uint y4" "uint (scalar_compress_d5 (scalar_decompress_d5 y5)) = uint y5"
    "uint (scalar_compress_d10 (scalar_decompress_d10 y10)) = uint y10" "uint (scalar_compress_d11 (scalar_decompress_d11 y11)) = uint y11"
    using compress_ok(2) [of "scalar_decompress_d4 y4"] compress_ok(3) [of "scalar_decompress_d5 y5"]
      compress_ok(4) [of "scalar_decompress_d10 y10"] compress_ok(5) [of "scalar_decompress_d11 y11"] y r
    by (simp_all add: d rounded_unrounded)
  then show ?thesis
    using compression_distance [OF assms(5,6)] by (simp add: word_uint_eq_iff)
qed

lemma compression_roundtrip_witness:
  "scalar_compress_d4 (scalar_decompress_d4 15) = 15 \<and> scalar_compress_d10 (scalar_decompress_d10 1023) = 1023 \<and>
    near 104 (sint (scalar_decompress_d4 (scalar_compress_d4 3328))) 3328"
  using compression_roundtrip [of 15 31 1023 2047 3328] by simp

section \<open>Bytes\<close>

lemma length_concat_const: "(\<And>j. j < N \<Longrightarrow> length (f j) = c) \<Longrightarrow> length (concat (map f [0..<N])) = c * N"
  by (induction N) simp_all

lemma nth_concat_const: "(\<And>j. j < N \<Longrightarrow> length (f j) = c) \<Longrightarrow> j < N \<Longrightarrow> k < c \<Longrightarrow> concat (map f [0..<N]) ! (c * j + k) = f j ! k"
proof (induction N)
  case (Suc N)
  have len: "length (concat (map f [0..<N])) = c * N"
    using Suc.prems(1) by (intro length_concat_const) simp
  show ?case
  proof (cases "j < N")
    case True
    have "c * j + k < c * (j + 1)"
      using Suc.prems(3) by simp
    also have "\<dots> \<le> c * N"
      using True by (intro mult_le_mono2) simp
    finally show ?thesis
      using Suc True by (simp add: nth_append len)
  next
    case False
    then show ?thesis
      using Suc.prems by (simp add: nth_append len less_Suc_eq)
  qed
qed simp

lemma nth_concat_div: "(\<And>j. j < N \<Longrightarrow> length (f j) = c) \<Longrightarrow> i < c * N \<Longrightarrow> concat (map f [0..<N]) ! i = f (i div c) ! (i mod c)"
proof -
  assume len: "\<And>j. j < N \<Longrightarrow> length (f j) = c" and i: "i < c * N"
  have "i div c < N"
    using i by (simp add: less_mult_imp_div_less mult.commute)
  moreover have "0 < c"
    using i by (cases c) simp_all
  then have "i mod c < c"
    by simp
  ultimately show ?thesis
    using nth_concat_const [where f = f and j = "i div c" and k = "i mod c", OF len] by (simp add: mult_div_mod_eq)
qed

lemma regroup: "length a = c * N \<Longrightarrow> concat (map (\<lambda>j. map (\<lambda>k. a ! (c * j + k)) [0..<c]) [0..<N]) = a"
proof (rule nth_equalityI)
  assume a: "length a = c * N"
  show "length (concat (map (\<lambda>j. map (\<lambda>k. a ! (c * j + k)) [0..<c]) [0..<N])) = length a"
    using a by (simp add: length_concat_const)
  fix i
  assume "i < length (concat (map (\<lambda>j. map (\<lambda>k. a ! (c * j + k)) [0..<c]) [0..<N]))"
  then have i: "i < c * N"
    by (simp add: length_concat_const)
  then have "0 < c"
    by (cases c) simp_all
  then show "concat (map (\<lambda>j. map (\<lambda>k. a ! (c * j + k)) [0..<c]) [0..<N]) ! i = a ! i"
    using i by (simp add: nth_concat_div)
qed

lemma concat_eqI: "(\<And>j. j < N \<Longrightarrow> f j = g j) \<Longrightarrow> concat (map f [0..<N]) = concat (map g [0..<N])"
  by (rule arg_cong [where f = concat], rule map_cong) simp_all

text \<open>Words below a power of two, by their bits.\<close>

definition fits :: "nat \<Rightarrow> 'a::len word \<Rightarrow> bool" where
  "fits d x \<longleftrightarrow> (\<forall>n\<ge>d. \<not> bit x n)"

lemma fits_uint: "uint x < 2 ^ d \<Longrightarrow> fits d x"
  unfolding fits_def
proof (intro allI impI)
  fix n
  assume "uint x < 2 ^ d" "d \<le> n"
  then have "take_bit d (uint x) = uint x"
    by (simp add: take_bit_int_eq_self)
  then have "bit (uint x) n \<longleftrightarrow> n < d \<and> bit (uint x) n"
    by (metis bit_take_bit_iff)
  then show "\<not> bit x n"
    using \<open>d \<le> n\<close> by (simp add: bit_uint_iff) (metis bit_imp_le_length leD)
qed

lemma masks: "(0xF :: s32) = mask 4" "(0x1F :: s32) = mask 5" "(0xFF :: s32) = mask 8" "(0x3FF :: s32) = mask 10" "(0x7FF :: s32) = mask 11"
  "(0xFFF :: s32) = mask 12" "(0xF0 :: s32) = push_bit 4 (mask 4)"
  by (simp_all add: mask_eq_exp_minus_1 push_bit_eq_mult)

lemmas word_bits = masks bit_simps promote_def

lemma fits_less: "fits d x \<Longrightarrow> bit x n \<Longrightarrow> n < d"
  unfolding fits_def using not_less by blast

lemma byte_less: "bit (x :: byte) n \<Longrightarrow> n < 8"
  using bit_imp_le_length [of x n] by simp

lemma Suc_minus: "2 \<le> n \<Longrightarrow> Suc (Suc (n - 2)) = n" "Suc 0 \<le> n \<Longrightarrow> Suc (n - Suc 0) = n"
  by simp_all

lemmas word_arith = Suc_minus not_less

lemma pack12:
  assumes "fits 12 (t0 :: s16)" "fits 12 (t1 :: s16)"
  defines "b0 \<equiv> (ucast (promote t0 AND 0xFF) :: byte)" and "b1 \<equiv> (ucast (drop_bit 8 (promote t0) OR push_bit 4 (promote t1) AND 0xF0) :: byte)"
    and "b2 \<equiv> (ucast (drop_bit 4 (promote t1)) :: byte)"
  shows "(ucast (promote b0 OR push_bit 8 (promote b1) AND 0xFFF) :: s16) = t0" "(ucast (drop_bit 4 (promote b1) OR push_bit 4 (promote b2)) :: s16) = t1"
  unfolding assms by (rule bit_word_eqI; auto simp: word_bits word_arith dest: fits_less [OF assms(1)] fits_less [OF assms(2)])+

lemma unpack12:
  fixes b0 b1 b2 :: byte
  defines "t0 \<equiv> (ucast (promote b0 OR push_bit 8 (promote b1) AND 0xFFF) :: s16)" and "t1 \<equiv> (ucast (drop_bit 4 (promote b1) OR push_bit 4 (promote b2)) :: s16)"
  shows "(ucast (promote t0 AND 0xFF) :: byte) = b0" "(ucast (drop_bit 8 (promote t0) OR push_bit 4 (promote t1) AND 0xF0) :: byte) = b1"
    "(ucast (drop_bit 4 (promote t1)) :: byte) = b2"
  unfolding assms by (rule bit_word_eqI; auto simp: word_bits dest: byte_less)+

lemma pack4:
  assumes "fits 4 (t0 :: byte)" "fits 4 (t1 :: byte)"
  defines "b \<equiv> (ucast (promote t0 OR push_bit 4 (promote t1)) :: byte)"
  shows "(ucast (drop_bit 0 (promote b) AND 0xF) :: byte) = t0" "(ucast (drop_bit 4 (promote b) AND 0xF) :: byte) = t1"
  unfolding assms by (rule bit_word_eqI; auto simp: word_bits word_arith dest: fits_less [OF assms(1)] fits_less [OF assms(2)])+

lemma pack10:
  assumes "fits 10 (t0 :: u16)" "fits 10 (t1 :: u16)" "fits 10 (t2 :: u16)" "fits 10 (t3 :: u16)"
  defines "b0 \<equiv> (ucast (drop_bit 0 (promote t0) AND 0xFF) :: byte)" and "b1 \<equiv> (ucast (drop_bit 8 (promote t0) OR push_bit 2 (promote t1) AND 0xFF) :: byte)"
    and "b2 \<equiv> (ucast (drop_bit 6 (promote t1) OR push_bit 4 (promote t2) AND 0xFF) :: byte)"
    and "b3 \<equiv> (ucast (drop_bit 4 (promote t2) OR push_bit 6 (promote t3) AND 0xFF) :: byte)" and "b4 \<equiv> (ucast (drop_bit 2 (promote t3)) :: byte)"
  shows "(ucast (0x3FF AND (drop_bit 0 (promote b0) OR push_bit 8 (promote b1))) :: u16) = t0"
    "(ucast (0x3FF AND (drop_bit 2 (promote b1) OR push_bit 6 (promote b2))) :: u16) = t1"
    "(ucast (0x3FF AND (drop_bit 4 (promote b2) OR push_bit 4 (promote b3))) :: u16) = t2"
    "(ucast (0x3FF AND (drop_bit 6 (promote b3) OR push_bit 2 (promote b4))) :: u16) = t3"
  unfolding assms by (rule bit_word_eqI; auto simp: word_bits word_arith dest: fits_less [OF assms(1)] fits_less [OF assms(2)] fits_less [OF assms(3)] fits_less [OF assms(4)])+

section \<open>Polynomials\<close>

definition canonical :: "int \<Rightarrow> poly \<Rightarrow> bool" where
  "canonical b a \<longleftrightarrow> length a = 256 \<and> (\<forall>i<256. 0 \<le> sint (a ! i) \<and> sint (a ! i) < b)"

lemma canonical_mono: "canonical b a \<Longrightarrow> b \<le> c \<Longrightarrow> canonical c a"
  unfolding canonical_def by fastforce

lemma sint_fits: "0 \<le> sint (x :: s16) \<Longrightarrow> sint x < 4096 \<Longrightarrow> fits 12 x"
proof -
  assume "0 \<le> sint x" "sint x < 4096"
  moreover from this have "uint x = sint x"
    by (simp add: uint_sint take_bit_int_eq_self)
  ultimately show ?thesis
    by (intro fits_uint) simp
qed

lemma length_poly_tobytes [simp]: "length (poly_tobytes a) = 384"
  unfolding poly_tobytes_def by (subst length_concat_const [where c = 3]) (simp_all add: Let_def MLKEM_N_def)

lemma tobytes_nth:
  assumes "i < 128"
  shows "poly_tobytes a ! (3 * i) = ucast (promote (a ! (2 * i)) AND 0xFF)"
    "poly_tobytes a ! (3 * i + 1) = ucast (drop_bit 8 (promote (a ! (2 * i))) OR push_bit 4 (promote (a ! (2 * i + 1))) AND 0xF0)"
    "poly_tobytes a ! (3 * i + 2) = ucast (drop_bit 4 (promote (a ! (2 * i + 1))))"
proof -
  define f where "f i = [ucast (promote (a ! (2 * i)) AND 0xFF) :: byte,
    ucast (drop_bit 8 (promote (a ! (2 * i))) OR push_bit 4 (promote (a ! (2 * i + 1))) AND 0xF0), ucast (drop_bit 4 (promote (a ! (2 * i + 1))))]" for i
  have "poly_tobytes a = concat (map f [0..<128])"
    by (simp add: poly_tobytes_def f_def [abs_def] Let_def MLKEM_N_def)
  then have "k < 3 \<Longrightarrow> poly_tobytes a ! (3 * i + k) = f i ! k" for k
    using nth_concat_const [of 128 f 3 i k] assms by (simp add: f_def)
  from this [of 0] this [of 1] this [of 2]
  show "poly_tobytes a ! (3 * i) = ucast (promote (a ! (2 * i)) AND 0xFF)"
    "poly_tobytes a ! (3 * i + 1) = ucast (drop_bit 8 (promote (a ! (2 * i))) OR push_bit 4 (promote (a ! (2 * i + 1))) AND 0xF0)"
    "poly_tobytes a ! (3 * i + 2) = ucast (drop_bit 4 (promote (a ! (2 * i + 1))))"
    by (simp_all add: f_def)
qed

lemma upt2: "[0..<2] = [0, 1 :: nat]" and upt3: "[0..<3] = [0, 1, 2 :: nat]" and upt4: "[0..<4] = [0, 1, 2, 3 :: nat]"
  and upt8: "[0..<8] = [0, 1, 2, 3, 4, 5, 6, 7 :: nat]"
  by (simp_all add: upt_rec)

lemma frombytes_tobytes: "canonical 4096 a \<Longrightarrow> poly_frombytes (poly_tobytes a) = a"
proof -
  assume a: "canonical 4096 a"
  then have f: "fits 12 (a ! i)" if "i < 256" for i
    using that by (intro sint_fits) (simp_all add: canonical_def)
  have "poly_frombytes (poly_tobytes a) = concat (map (\<lambda>i. map (\<lambda>k. a ! (2 * i + k)) [0..<2]) [0..<128])"
    unfolding poly_frombytes_def MLKEM_N_def
  proof (simp only: Let_def div_mult_self1_is_m, simp, rule concat_eqI)
    fix i :: nat
    assume i: "i < 128"
    show "[ucast (promote (poly_tobytes a ! (3 * i)) OR push_bit 8 (promote (poly_tobytes a ! Suc (3 * i))) AND 4095),
        ucast (drop_bit 4 (promote (poly_tobytes a ! Suc (3 * i))) OR push_bit 4 (promote (poly_tobytes a ! Suc (Suc (3 * i)))))] = map (\<lambda>k. a ! (2 * i + k)) [0..<2]"
      using tobytes_nth [OF i, of a] pack12 [of "a ! (2 * i)" "a ! (2 * i + 1)"] f [of "2 * i"] f [of "2 * i + 1"] i by (simp add: upt2)
  qed
  also have "\<dots> = a"
    using a by (intro regroup) (simp add: canonical_def)
  finally show ?thesis .
qed

lemma length_frombytes [simp]: "length (poly_frombytes b) = 256"
  unfolding poly_frombytes_def by (subst length_concat_const [where c = 2]) (simp_all add: Let_def MLKEM_N_def)

lemma frombytes_nth:
  assumes "i < 128"
  shows "poly_frombytes b ! (2 * i) = ucast (promote (b ! (3 * i)) OR push_bit 8 (promote (b ! (3 * i + 1))) AND 0xFFF)"
    "poly_frombytes b ! (2 * i + 1) = ucast (drop_bit 4 (promote (b ! (3 * i + 1))) OR push_bit 4 (promote (b ! (3 * i + 2))))"
proof -
  define f where "f i = [ucast (promote (b ! (3 * i)) OR push_bit 8 (promote (b ! (3 * i + 1))) AND 0xFFF) :: s16,
    ucast (drop_bit 4 (promote (b ! (3 * i + 1))) OR push_bit 4 (promote (b ! (3 * i + 2))))]" for i
  have "poly_frombytes b = concat (map f [0..<128])"
    by (simp add: poly_frombytes_def f_def [abs_def] Let_def MLKEM_N_def)
  then have "k < 2 \<Longrightarrow> poly_frombytes b ! (2 * i + k) = f i ! k" for k
    using nth_concat_const [of 128 f 2 i k] assms by (simp add: f_def)
  from this [of 0] this [of 1]
  show "poly_frombytes b ! (2 * i) = ucast (promote (b ! (3 * i)) OR push_bit 8 (promote (b ! (3 * i + 1))) AND 0xFFF)"
    "poly_frombytes b ! (2 * i + 1) = ucast (drop_bit 4 (promote (b ! (3 * i + 1))) OR push_bit 4 (promote (b ! (3 * i + 2))))"
    by (simp_all add: f_def)
qed

lemma tobytes_frombytes: "length b = 384 \<Longrightarrow> poly_tobytes (poly_frombytes b) = b"
proof -
  assume b: "length b = 384"
  have "poly_tobytes (poly_frombytes b) = concat (map (\<lambda>i. map (\<lambda>k. b ! (3 * i + k)) [0..<3]) [0..<128])"
    unfolding poly_tobytes_def MLKEM_N_def
  proof (simp only: Let_def div_mult_self1_is_m, simp, rule concat_eqI)
    fix i :: nat
    assume i: "i < 128"
    show "[ucast (promote (poly_frombytes b ! (2 * i)) AND 255),
        ucast (drop_bit 8 (promote (poly_frombytes b ! (2 * i))) OR push_bit 4 (promote (poly_frombytes b ! Suc (2 * i))) AND 240),
        ucast (drop_bit 4 (promote (poly_frombytes b ! Suc (2 * i))))] = map (\<lambda>k. b ! (3 * i + k)) [0..<3]"
      using frombytes_nth [OF i, of b] by (simp add: upt3 unpack12)
  qed
  also have "\<dots> = b"
    using b by (intro regroup) simp
  finally show ?thesis .
qed

lemma fits_sint: "fits d (x :: s16) \<Longrightarrow> d \<le> 15 \<Longrightarrow> 0 \<le> sint x \<and> sint x < 2 ^ d"
proof -
  assume x: "fits d x" and d: "d \<le> 15"
  have "take_bit d x = x"
    using x by (intro bit_word_eqI) (auto simp: bit_simps dest: fits_less)
  then have "uint x = take_bit d (uint x)"
    by (metis unsigned_take_bit_eq)
  then have u: "0 \<le> uint x" "uint x < 2 ^ d"
    by (simp, metis take_bit_int_less_exp)
  have "(2 :: int) ^ d \<le> 2 ^ 15"
    using d by (intro power_increasing) simp_all
  then have "sint (word_of_int (uint x) :: s16) = uint x"
    using u by (intro sint16) simp
  then show ?thesis
    using u by simp
qed

lemma frombytes_canonical: "canonical 4096 (poly_frombytes b)"
proof -
  have f: "fits 12 (ucast (promote b0 OR push_bit 8 (promote b1) AND 0xFFF) :: s16)" "fits 12 (ucast (drop_bit 4 (promote b1) OR push_bit 4 (promote b2)) :: s16)" for b0 b1 b2 :: byte
    by (auto simp: fits_def word_bits dest: byte_less)
  have "fits 12 (poly_frombytes b ! i)" if "i < 256" for i
  proof -
    have d: "i div 2 < 128"
      using that by simp
    show ?thesis
    proof (cases "even i")
      case True
      then have "i = 2 * (i div 2)"
        by simp
      then show ?thesis
        using frombytes_nth(1) [OF d, of b] f(1) by metis
    next
      case False
      then have "i = 2 * (i div 2) + 1"
        by simp
      then show ?thesis
        using frombytes_nth(2) [OF d, of b] f(2) by metis
    qed
  qed
  then show ?thesis
    unfolding canonical_def using fits_sint [of 12] by simp
qed

lemma compress_fits:
  assumes "0 \<le> sint u" "sint u < 3329"
  shows "fits 4 (scalar_compress_d4 u)" "fits 5 (scalar_compress_d5 u)" "fits 10 (scalar_compress_d10 u)" "fits 11 (scalar_compress_d11 u)"
  by (rule fits_uint; use compress_ok [OF assms] in simp)+

lemma length_compress [simp]: "length (poly_compress_d4 a) = 128" "length (poly_compress_d10 a) = 320"
  unfolding poly_compress_d4_def poly_compress_d10_def
  by (subst length_concat_const [where c = 4], simp_all add: Let_def MLKEM_N_def) (subst length_concat_const [where c = 5], simp_all)

lemma compress_d4_nth: "i < 128 \<Longrightarrow> poly_compress_d4 a ! i =
  ucast (promote (scalar_compress_d4 (a ! (2 * i))) OR push_bit 4 (promote (scalar_compress_d4 (a ! (2 * i + 1)))))"
proof -
  assume i: "i < 128"
  let ?t = "\<lambda>j. promote (scalar_compress_d4 (a ! j))"
  let ?ps = "[(0, 1), (2, 3), (4, 5), (6, 7)] :: (nat \<times> nat) list"
  define f where "f j = map (\<lambda>(x, y). ucast (?t (8 * j + x) OR push_bit 4 (?t (8 * j + y))) :: byte) ?ps" for j
  have "poly_compress_d4 a = concat (map f [0..<32])"
    unfolding poly_compress_d4_def MLKEM_N_def by (simp add: Let_def) (rule concat_eqI, simp add: f_def upt8)
  then have "poly_compress_d4 a ! i = f (i div 4) ! (i mod 4)"
    using nth_concat_div [of 32 f 4 i] i by (simp add: f_def)
  moreover have "?ps ! (i mod 4) = (2 * (i mod 4), 2 * (i mod 4) + 1)"
  proof -
    have "i mod 4 = 0 \<or> i mod 4 = 1 \<or> i mod 4 = 2 \<or> i mod 4 = 3"
      by presburger
    then show ?thesis
      by (elim disjE) simp_all
  qed
  moreover have "f (i div 4) ! (i mod 4) = (\<lambda>(x, y). ucast (?t (8 * (i div 4) + x) OR push_bit 4 (?t (8 * (i div 4) + y)))) (?ps ! (i mod 4))"
    unfolding f_def by (rule nth_map) simp
  ultimately have "poly_compress_d4 a ! i = ucast (?t (8 * (i div 4) + 2 * (i mod 4)) OR push_bit 4 (?t (8 * (i div 4) + (2 * (i mod 4) + 1))))"
    by (simp only: case_prod_conv)
  moreover have "8 * (i div 4) + 2 * (i mod 4) = 2 * i" "8 * (i div 4) + (2 * (i mod 4) + 1) = 2 * i + 1"
    using mult_div_mod_eq [of 4 i] by linarith+
  ultimately show ?thesis
    by (simp only:)
qed

lemma decompress_compress_d4: "canonical 3329 a \<Longrightarrow> poly_decompress_d4 (poly_compress_d4 a) = map (\<lambda>x. scalar_decompress_d4 (scalar_compress_d4 x)) a"
proof -
  assume a: "canonical 3329 a"
  let ?g = "\<lambda>x. scalar_decompress_d4 (scalar_compress_d4 x)"
  have f: "fits 4 (scalar_compress_d4 (a ! i))" if "i < 256" for i
    using that a by (intro compress_fits) (simp_all add: canonical_def)
  have "poly_decompress_d4 (poly_compress_d4 a) = concat (map (\<lambda>i. map (\<lambda>k. map ?g a ! (2 * i + k)) [0..<2]) [0..<128])"
    unfolding poly_decompress_d4_def MLKEM_N_def
  proof (simp, rule concat_eqI)
    fix i :: nat
    assume i: "i < 128"
    have "2 * i < length a" "Suc (2 * i) < length a"
      using a i by (simp_all add: canonical_def)
    then show "[scalar_decompress_d4 (ucast (promote (poly_compress_d4 a ! i) AND 15)), scalar_decompress_d4 (ucast (drop_bit 4 (promote (poly_compress_d4 a ! i)) AND 15))]
        = map (\<lambda>k. map ?g a ! (2 * i + k)) [0..<2]"
      using pack4 [OF f [of "2 * i"] f [of "2 * i + 1"]] i by (simp add: upt2 compress_d4_nth)
  qed
  also have "\<dots> = map ?g a"
    using a by (intro regroup) (simp add: canonical_def)
  finally show ?thesis .
qed

lemma decompress_compress_d10: "canonical 3329 a \<Longrightarrow> poly_decompress_d10 (poly_compress_d10 a) = map (\<lambda>x. scalar_decompress_d10 (scalar_compress_d10 x)) a"
proof -
  assume a: "canonical 3329 a"
  let ?g = "\<lambda>x. scalar_decompress_d10 (scalar_compress_d10 x)"
  let ?t = "\<lambda>j k. promote (scalar_compress_d10 (a ! (4 * j + k)))"
  define f where "f j = [ucast (drop_bit 0 (?t j 0) AND 0xFF) :: byte, ucast (drop_bit 8 (?t j 0) OR push_bit 2 (?t j 1) AND 0xFF),
    ucast (drop_bit 6 (?t j 1) OR push_bit 4 (?t j 2) AND 0xFF), ucast (drop_bit 4 (?t j 2) OR push_bit 6 (?t j 3) AND 0xFF), ucast (drop_bit 2 (?t j 3))]" for j
  have fit: "fits 10 (scalar_compress_d10 (a ! (4 * j + k)))" if "j < 64" "k < 4" for j k
    using that a by (intro compress_fits) (simp_all add: canonical_def)
  have c: "poly_compress_d10 a = concat (map f [0..<64])"
    unfolding poly_compress_d10_def MLKEM_N_def by (simp add: Let_def) (rule concat_eqI, simp add: f_def upt4)
  have base: "poly_compress_d10 a ! (5 * j + k) = f j ! k" if "j < 64" "k < 5" for j k
    unfolding c by (rule nth_concat_const) (use that in \<open>simp_all add: f_def\<close>)
  have "poly_decompress_d10 (poly_compress_d10 a) = concat (map (\<lambda>j. map (\<lambda>k. map ?g a ! (4 * j + k)) [0..<4]) [0..<64])"
    unfolding poly_decompress_d10_def MLKEM_N_def
  proof (simp add: Let_def, rule concat_eqI)
    fix j :: nat
    assume j: "j < 64"
    have b: "poly_compress_d10 a ! (5 * j) = f j ! 0" "poly_compress_d10 a ! Suc (5 * j) = f j ! 1" "poly_compress_d10 a ! (5 * j + 2) = f j ! 2"
      "poly_compress_d10 a ! (5 * j + 3) = f j ! 3" "poly_compress_d10 a ! (5 * j + 4) = f j ! 4" "poly_compress_d10 a ! Suc (Suc (5 * j)) = f j ! 2"
      using base [OF j, of 0] base [OF j, of 1] base [OF j, of 2] base [OF j, of 3] base [OF j, of 4] by simp_all
    note p = pack10 [OF fit [OF j, of 0] fit [OF j, of 1] fit [OF j, of 2] fit [OF j, of 3]]
    have len: "4 * j < length a" "4 * j + 1 < length a" "4 * j + 2 < length a" "4 * j + 3 < length a"
      using a j by (simp_all add: canonical_def)
    show "map (\<lambda>k. scalar_decompress_d10 ([ucast (1023 AND (promote (poly_compress_d10 a ! (5 * j)) OR push_bit 8 (promote (poly_compress_d10 a ! Suc (5 * j))))),
        ucast (1023 AND (drop_bit 2 (promote (poly_compress_d10 a ! Suc (5 * j))) OR push_bit 6 (promote (poly_compress_d10 a ! Suc (Suc (5 * j)))))),
        ucast (1023 AND (drop_bit 4 (promote (poly_compress_d10 a ! Suc (Suc (5 * j)))) OR push_bit 4 (promote (poly_compress_d10 a ! (5 * j + 3))))),
        ucast (1023 AND (drop_bit 6 (promote (poly_compress_d10 a ! (5 * j + 3))) OR push_bit 2 (promote (poly_compress_d10 a ! (5 * j + 4)))))] ! k)) [0..<4]
      = map (\<lambda>k. map ?g a ! (4 * j + k)) [0..<4]"
      using p len unfolding b by (simp add: upt4 f_def)
  qed
  also have "\<dots> = map ?g a"
    using a by (intro regroup) (simp add: canonical_def)
  finally show ?thesis .
qed

section \<open>Messages\<close>

lemma length_tomsg [simp]: "length (poly_tomsg a) = 32"
  by (simp add: poly_tomsg_def MLKEM_N_def)

lemma length_frommsg [simp]: "length (poly_frommsg m) = 256"
  unfolding poly_frommsg_def by (subst length_concat_const [where c = 8]) (simp_all add: Let_def MLKEM_N_def)

definition msg_bit :: "bytes \<Rightarrow> nat \<Rightarrow> bool" where
  "msg_bit m i \<longleftrightarrow> bit (m ! (i div 8)) (i mod 8)"

lemma frommsg_nth: "i < 256 \<Longrightarrow> sint (poly_frommsg m ! i) = (if msg_bit m i then 1665 else 0)"
proof -
  assume i: "i < 256"
  let ?b = "m ! (i div 8)" and ?j = "i mod 8"
  define mask where "mask = (ucast (push_bit ?j 1 :: u32) :: byte)"
  have "poly_frommsg m ! i = ct_sel_int16 MLKEM_Q_HALF 0 (ucast (?b AND mask))"
    unfolding poly_frommsg_def mask_def using i by (subst nth_concat_div [where c = 8]) (simp_all add: MLKEM_N_def Let_def)
  moreover have "(ucast (?b AND mask) :: u16) = 0 \<longleftrightarrow> \<not> msg_bit m i"
  proof
    assume 0: "(ucast (?b AND mask) :: u16) = 0"
    have "?j < 8" "?j < 16" "?j < 32"
      by (simp, (rule less_trans [of _ 8]; simp)+)
    then have "bit (ucast (?b AND mask) :: u16) ?j \<longleftrightarrow> bit ?b ?j"
      by (simp add: mask_def bit_simps)
    then show "\<not> msg_bit m i"
      using 0 by (simp add: msg_bit_def)
  next
    assume "\<not> msg_bit m i"
    then show "(ucast (?b AND mask) :: u16) = 0"
      by (intro bit_word_eqI) (auto simp: mask_def bit_simps msg_bit_def)
  qed
  moreover have "sint (MLKEM_Q_HALF :: s16) = 1665"
    by (simp add: MLKEM_Q_HALF_def MLKEM_Q_def)
  ultimately show ?thesis
    by (simp add: sel_int16)
qed

lemma bit_or_fold: "bit (fold (\<lambda>j m. m OR f j) js (x :: byte)) n \<longleftrightarrow> bit x n \<or> (\<exists>j\<in>set js. bit (f j) n)"
  by (induction js arbitrary: x) (auto simp: bit_or_iff)

lemma tomsg_bit: "canonical 3329 a \<Longrightarrow> i < 256 \<Longrightarrow> msg_bit (poly_tomsg a) i \<longleftrightarrow> odd (rounded 1 (sint (a ! i)))"
proof -
  assume a: "canonical 3329 a" and i: "i < 256"
  let ?c = "\<lambda>j. scalar_compress_d1 (a ! (8 * (i div 8) + j))"
  have c: "bit (?c j) n \<longleftrightarrow> n = 0 \<and> odd (rounded 1 (sint (a ! (8 * (i div 8) + j))))" if "j < 8" for j n
  proof -
    have "i div 8 \<le> 31"
      using i by simp
    then have "8 * (i div 8) + j < 256"
      using that by linarith
    then have "uint (?c j) = rounded 1 (sint (a ! (8 * (i div 8) + j))) mod 2"
      using a by (intro compress_ok) (simp_all add: canonical_def)
    moreover have "bit (?c j) n \<longleftrightarrow> bit (uint (?c j)) n"
      using byte_less by (auto simp: bit_uint_iff)
    ultimately show ?thesis
      by (cases n) (simp_all add: odd_iff_mod_2_eq_one bit_Suc even_mod_2_iff bit_0)
  qed
  have "poly_tomsg a ! (i div 8) = fold (\<lambda>j m. m OR ucast (push_bit j (ucast (?c j) :: u32))) [0..<8] 0"
  proof -
    have "i div 8 < 32"
      using i by simp
    then show ?thesis
      by (simp add: poly_tomsg_def MLKEM_N_def Let_def)
  qed
  then have "msg_bit (poly_tomsg a) i \<longleftrightarrow> (\<exists>j\<in>set [0..<8]. bit (ucast (push_bit j (ucast (?c j) :: u32)) :: byte) (i mod 8))"
    unfolding msg_bit_def by (simp only: bit_or_fold) simp
  also have "\<dots> \<longleftrightarrow> bit (?c (i mod 8)) 0"
  proof -
    have m: "i mod 8 < 8" "i mod 8 < 32"
      by simp (rule less_trans [of _ 8]; simp)
    have "bit (ucast (push_bit j (ucast (?c j) :: u32)) :: byte) (i mod 8) \<longleftrightarrow> j = i mod 8 \<and> bit (?c j) 0" if "j < 8" for j
    proof -
      have "bit (ucast (push_bit j (ucast (?c j) :: u32)) :: byte) (i mod 8) \<longleftrightarrow> j \<le> i mod 8 \<and> bit (?c j) (i mod 8 - j)"
        using m by (auto simp: bit_simps)
      also have "\<dots> \<longleftrightarrow> j = i mod 8 \<and> bit (?c j) 0"
        using c [OF that, of "i mod 8 - j"] c [OF that, of 0] by (metis diff_is_0_eq diff_self_eq_0 le_antisym le_refl)
      finally show ?thesis .
    qed
    then show ?thesis
      using m(1) by (metis (no_types, lifting) atLeastLessThan_iff set_upt zero_le)
  qed
  also have "\<dots> \<longleftrightarrow> odd (rounded 1 (sint (a ! i)))"
    using c [of "i mod 8" 0] by (simp add: mult_div_mod_eq)
  finally show ?thesis .
qed

text \<open>A coefficient is decoded to the right bit while its noise stays below a quarter of the modulus.\<close>

lemma noisy_bit:
  assumes "qeq u ((if b then 1665 else 0) + e)" and "\<bar>e\<bar> < 832" and "0 \<le> u" "u < 3329"
  shows "odd (rounded 1 u) \<longleftrightarrow> b"
proof -
  let ?m = "if b then 1665 else 0 :: int"
  have "(u - (?m + e)) mod q = 0"
    using assms(1) unfolding qeq_def by (rule mod_eq_dvd_iff [THEN iffD1, THEN dvd_imp_mod_0])
  then obtain k where k: "u = ?m + e + 3329 * k"
    by (metis add.commute diff_add_cancel dvd_def dvd_eq_mod_eq_0 q_def)
  have r: "3329 * rounded 1 u \<le> 2 * u + 1664" "2 * u + 1664 < 3329 * rounded 1 u + 3329"
    using rounded_bounds [of 1 u] by simp_all
  show ?thesis
  proof (cases b)
    case True
    then have "- 1 < k" "k < 1"
      using k assms(2-4) by simp_all
    then have "k = 0"
      by simp
    then have "0 < rounded 1 u" "rounded 1 u < 2"
      using k r True assms(2) by simp_all
    then have "rounded 1 u = 1"
      by simp
    then show ?thesis
      using True by simp
  next
    case False
    then have "- 1 < k" "k < 2"
      using k assms(2-4) by simp_all
    then have "k = 0 \<or> k = 1"
      by linarith
    then have "rounded 1 u = 0 \<or> rounded 1 u = 2"
    proof
      assume "k = 0"
      then have "- 1 < rounded 1 u" "rounded 1 u < 1"
        using k r False assms(2,3) by simp_all
      then show ?thesis
        by simp
    next
      assume "k = 1"
      then have "1 < rounded 1 u" "rounded 1 u < 3"
        using k r False assms(2,4) by simp_all
      then show ?thesis
        by simp
    qed
    then show ?thesis
      using False by auto
  qed
qed

lemma msg_eqI: "length m = 32 \<Longrightarrow> length m' = 32 \<Longrightarrow> (\<And>i. i < 256 \<Longrightarrow> msg_bit m i \<longleftrightarrow> msg_bit m' i) \<Longrightarrow> m = m'"
proof (rule nth_equalityI)
  fix k
  assume len: "length m = 32" "length m' = 32" and eq: "\<And>i. i < 256 \<Longrightarrow> msg_bit m i \<longleftrightarrow> msg_bit m' i" and k: "k < length m"
  show "m ! k = m' ! k"
  proof (rule bit_word_eqI)
    fix n
    assume "n < LENGTH(8)"
    then have n: "n < 8"
      by simp
    then have "8 * k + n < 256" "(8 * k + n) div 8 = k" "(8 * k + n) mod 8 = n"
      using k len by simp_all
    then show "bit (m ! k) n \<longleftrightarrow> bit (m' ! k) n"
      using eq [of "8 * k + n"] by (simp add: msg_bit_def)
  qed
qed simp

text \<open>
  \<open>mlk_poly_tomsg\<close> decodes what \<open>mlk_poly_frommsg\<close> encoded under noise: if every coefficient of a
  canonical polynomial is, modulo 3329, the encoded coefficient plus an error below 832 in absolute
  value, then the message is recovered; without noise this is the plain round trip.
\<close>

theorem message_recovered:
  assumes "length m = 32" and "canonical 3329 a" and "\<forall>i<256. \<bar>e i\<bar> < 832 \<and> qeq (sint (a ! i)) (sint (poly_frommsg m ! i) + e i)"
  shows "poly_tomsg a = m"
proof (rule msg_eqI)
  fix i :: nat
  assume i: "i < 256"
  have "odd (rounded 1 (sint (a ! i))) \<longleftrightarrow> msg_bit m i"
    using assms(2,3) i by (intro noisy_bit [where e = "e i"]) (simp_all add: canonical_def frommsg_nth)
  then show "msg_bit (poly_tomsg a) i \<longleftrightarrow> msg_bit m i"
    using tomsg_bit [OF assms(2) i] by simp
qed (simp_all add: assms(1))

lemma message_recovered_witness: "poly_tomsg (poly_frommsg (replicate 32 0xA5)) = replicate 32 0xA5"
proof (rule message_recovered [where e = "\<lambda>i. 0"])
  show "canonical 3329 (poly_frommsg (replicate 32 0xA5))"
    by (simp add: canonical_def frommsg_nth)
qed simp_all

text \<open>
  The serialisations are inverse to each other: every polynomial with unsigned 12-bit
  coefficients is read back from its 384 bytes and every 384 bytes are written back from their
  polynomial; reading a compressed polynomial gives the decompressed coefficients.
\<close>

theorem poly_bytes_roundtrip:
  assumes "canonical 4096 a" and "length b = 384" and "canonical 3329 c"
  shows "poly_frombytes (poly_tobytes a) = a \<and> poly_tobytes (poly_frombytes b) = b \<and> canonical 4096 (poly_frombytes b) \<and>
    poly_decompress_d4 (poly_compress_d4 c) = map (\<lambda>x. scalar_decompress_d4 (scalar_compress_d4 x)) c \<and>
    poly_decompress_d10 (poly_compress_d10 c) = map (\<lambda>x. scalar_decompress_d10 (scalar_compress_d10 x)) c"
  using frombytes_tobytes [OF assms(1)] tobytes_frombytes [OF assms(2)] frombytes_canonical decompress_compress_d4 [OF assms(3)]
    decompress_compress_d10 [OF assms(3)] by blast

lemma poly_bytes_roundtrip_witness:
  "poly_frombytes (poly_tobytes (replicate 256 4095)) = replicate 256 4095 \<and> poly_tobytes (poly_frombytes (replicate 384 0xB7)) = replicate 384 0xB7"
  using poly_bytes_roundtrip [of "replicate 256 4095" "replicate 384 0xB7" "replicate 256 3328"] by (simp add: canonical_def)

end
