(* ===== verification/Keccak4.thy ===== *)
theory Keccak4
  imports Keccak
begin

text \<open>
  Four sponges side by side (\<open>mlkem_native/src/fips202/fips202x4.c\<close> and the \<open>x4\<close> functions of
  \<open>keccakf1600.c\<close>).  A state is one array of 100 lanes, the four states one after the other;
  four buffers are a list of four.
\<close>

section \<open>Four states in one array\<close>

definition lanes4 :: "(nat \<Rightarrow> u64 list \<Rightarrow> u64 list) \<Rightarrow> u64 list \<Rightarrow> u64 list" where
  "lanes4 f state = concat (map (\<lambda>k. f k (take 25 (drop (25 * k) state))) [0..<4])"

definition keccakf1600x4_permute :: "u64 list \<Rightarrow> u64 list" where
  "keccakf1600x4_permute state = lanes4 (\<lambda>k. keccakf1600_permute) state"

definition keccakf1600x4_extract_bytes :: "u64 list \<Rightarrow> nat \<Rightarrow> nat \<Rightarrow> bytes list" where
  "keccakf1600x4_extract_bytes state offset len =
     map (\<lambda>k. keccakf1600_extract_bytes (take 25 (drop (25 * k) state)) offset len) [0..<4]"

definition keccakf1600x4_xor_bytes :: "u64 list \<Rightarrow> bytes list \<Rightarrow> nat \<Rightarrow> nat \<Rightarrow> u64 list" where
  "keccakf1600x4_xor_bytes state data offset len = lanes4 (\<lambda>k s. keccakf1600_xor_bytes s (data ! k) offset len) state"

section \<open>Absorbing and squeezing\<close>

text \<open>The inputs have one length \<open>inlen\<close>; the guard \<open>r = 0\<close> is for totality.\<close>

function absorb_blocks_x4 :: "nat \<Rightarrow> u64 list \<Rightarrow> bytes list \<Rightarrow> nat \<Rightarrow> u64 list \<times> bytes list \<times> nat" where
  "absorb_blocks_x4 r s ins inlen =
     (if r = 0 \<or> inlen < r then (s, ins, inlen)
      else absorb_blocks_x4 r (keccakf1600x4_permute (keccakf1600x4_xor_bytes s ins 0 r)) (map (drop r) ins) (inlen - r))"
  by pat_completeness auto
termination
  by (relation "measure (\<lambda>(r, s, ins, n). n)") auto

declare absorb_blocks_x4.simps [simp del]

definition keccak_absorb_once_x4 :: "u64 list \<Rightarrow> nat \<Rightarrow> bytes list \<Rightarrow> nat \<Rightarrow> byte \<Rightarrow> u64 list" where
  "keccak_absorb_once_x4 s r ins inlen p =
     (let (s, ins, inlen) = absorb_blocks_x4 r s ins inlen;
        s = (if 0 < inlen then keccakf1600x4_xor_bytes s ins 0 inlen else s)
      in if inlen = r - 1 then let p = p OR 128 in keccakf1600x4_xor_bytes s [[p], [p], [p], [p]] inlen 1
         else let s = keccakf1600x4_xor_bytes s [[p], [p], [p], [p]] inlen 1; p = 128
           in keccakf1600x4_xor_bytes s [[p], [p], [p], [p]] (r - 1) 1)"

primrec keccak_squeezeblocks_x4 :: "nat \<Rightarrow> u64 list \<Rightarrow> nat \<Rightarrow> bytes list \<times> u64 list" where
  "keccak_squeezeblocks_x4 0 s r = ([[], [], [], []], s)"
| "keccak_squeezeblocks_x4 (Suc nblocks) s r =
     (let s = keccakf1600x4_permute s; h = keccakf1600x4_extract_bytes s 0 r; (h', s) = keccak_squeezeblocks_x4 nblocks s r
      in (map2 (@) h h', s))"

definition shake128x4_absorb_once :: "bytes list \<Rightarrow> nat \<Rightarrow> u64 list" where
  "shake128x4_absorb_once ins inlen = keccak_absorb_once_x4 (replicate 100 0) SHAKE128_RATE ins inlen 0x1F"

definition shake128x4_squeezeblocks :: "nat \<Rightarrow> u64 list \<Rightarrow> bytes list \<times> u64 list" where
  "shake128x4_squeezeblocks nblocks state = keccak_squeezeblocks_x4 nblocks state SHAKE128_RATE"

definition shake256x4_absorb_once :: "bytes list \<Rightarrow> nat \<Rightarrow> u64 list" where
  "shake256x4_absorb_once ins inlen = keccak_absorb_once_x4 (replicate 100 0) SHAKE256_RATE ins inlen 0x1F"

definition shake256x4_squeezeblocks :: "nat \<Rightarrow> u64 list \<Rightarrow> bytes list \<times> u64 list" where
  "shake256x4_squeezeblocks nblocks state = keccak_squeezeblocks_x4 nblocks state SHAKE256_RATE"

definition shake256x4 :: "nat \<Rightarrow> bytes list \<Rightarrow> nat \<Rightarrow> bytes list" where
  "shake256x4 outlen ins inlen =
     (let nblocks = outlen div SHAKE256_RATE; statex = shake256x4_absorb_once ins inlen;
        (out, statex) = shake256x4_squeezeblocks nblocks statex; outlen = outlen - nblocks * SHAKE256_RATE
      in if outlen \<noteq> 0 then let (tmp, statex) = shake256x4_squeezeblocks 1 statex in map2 (\<lambda>o' t. o' @ take outlen t) out tmp
         else out)"

section \<open>Four sponges are one sponge four times\<close>

definition four :: "(nat \<Rightarrow> u64 list) \<Rightarrow> u64 list" where
  "four ss = ss 0 @ ss 1 @ ss 2 @ ss 3"

text \<open>\<open>four ss\<close> is the array of the states \<open>ss 0\<close> to \<open>ss 3\<close>.\<close>

lemma four_upt: "[0..<4] = [0, 1, 2, 3 :: nat]"
  by (simp add: upt_rec)

lemma take_four: "\<forall>k<4. length (ss k) = 25 \<Longrightarrow> k < 4 \<Longrightarrow> take 25 (drop (25 * k) (four ss)) = ss k"
proof -
  assume len: "\<forall>k<4. length (ss k) = 25" and "k < 4"
  then have "k = 0 \<or> k = 1 \<or> k = 2 \<or> k = 3"
    by linarith
  then show ?thesis
    using len by (auto simp: four_def)
qed

lemma map_upt4: "(\<And>k. k < 4 \<Longrightarrow> f k = g k) \<Longrightarrow> map f [0..<4] = map g [0..<4 :: nat]"
  by (rule map_cong) auto

lemma four_cong: "(\<And>k. k < 4 \<Longrightarrow> f k = g k) \<Longrightarrow> four f = four g"
  by (simp add: four_def)

lemma lanes4_four: "\<forall>k<4. length (ss k) = 25 \<Longrightarrow> lanes4 f (four ss) = four (\<lambda>k. f k (ss k))"
proof -
  assume "\<forall>k<4. length (ss k) = 25"
  then have "map (\<lambda>k. f k (take 25 (drop (25 * k) (four ss)))) [0..<4] = map (\<lambda>k. f k (ss k)) [0..<4]"
    by (intro map_upt4) (simp add: take_four)
  then show ?thesis
    by (simp add: lanes4_def four_upt) (simp add: four_def)
qed

lemma length_keccak_round: "length (keccak_round rc s) = 25"
  by (simp only: keccak_round_def Let_def) simp

lemma length_state_permute [simp]: "length (keccakf1600_permute s) = 25"
  by (simp add: keccakf1600_permute_def Let_def length_keccak_round)

lemma length_xor_bytes [simp]: "length (keccakf1600_xor_bytes s d i n) = length s"
proof -
  have "length (fold (\<lambda>j s. s[(i + j) div 8 := f j s]) xs s) = length s" for f and xs :: "nat list"
    by (induction xs arbitrary: s) simp_all
  then show ?thesis
    unfolding keccakf1600_xor_bytes_def .
qed

lemma absorb_blocks_four:
  assumes "\<forall>k<4. length (ss k) = 25" and "\<forall>k<4. length (ins k) = n"
  shows "\<exists>n'. absorb_blocks_x4 r (four ss) (map ins [0..<4]) n =
      (four (\<lambda>k. fst (absorb_blocks r (ss k) (ins k))), map (\<lambda>k. snd (absorb_blocks r (ss k) (ins k))) [0..<4], n') \<and>
    (\<forall>k<4. length (fst (absorb_blocks r (ss k) (ins k))) = 25 \<and> length (snd (absorb_blocks r (ss k) (ins k))) = n')"
  using assms
proof (induction n arbitrary: ss ins rule: less_induct)
  case (less n)
  show ?case
  proof (cases "r = 0 \<or> n < r")
    case True
    then have "absorb_blocks r (ss k) (ins k) = (ss k, ins k)" if "k < 4" for k
      using less.prems that by (simp add: absorb_blocks.simps)
    moreover from this have "four (\<lambda>k. fst (absorb_blocks r (ss k) (ins k))) = four ss"
      by (simp add: four_def)
    moreover have "map (\<lambda>k. snd (absorb_blocks r (ss k) (ins k))) [0..<4] = map ins [0..<4]"
      using calculation(1) by (intro map_upt4) simp
    ultimately show ?thesis
      using True less.prems by (simp add: absorb_blocks_x4.simps)
  next
    case False
    define ss' where "ss' k = keccakf1600_permute (keccakf1600_xor_bytes (ss k) (ins k) 0 r)" for k
    have step: "absorb_blocks r (ss k) (ins k) = absorb_blocks r (ss' k) (drop r (ins k))" if "k < 4" for k
      using False less.prems that by (subst absorb_blocks.simps) (simp add: ss'_def)
    have "lanes4 (\<lambda>k s. keccakf1600_xor_bytes s (map ins [0..<4] ! k) 0 r) (four ss) = four (\<lambda>k. keccakf1600_xor_bytes (ss k) (ins k) 0 r)"
      using less.prems(1) by (simp add: lanes4_four) (rule four_cong, simp)
    then have "keccakf1600x4_permute (keccakf1600x4_xor_bytes (four ss) (map ins [0..<4]) 0 r) = four ss'"
      using less.prems(1) by (simp add: keccakf1600x4_permute_def keccakf1600x4_xor_bytes_def lanes4_four ss'_def [abs_def])
    then have x4: "absorb_blocks_x4 r (four ss) (map ins [0..<4]) n = absorb_blocks_x4 r (four ss') (map (\<lambda>k. drop r (ins k)) [0..<4]) (n - r)"
      using False by (subst absorb_blocks_x4.simps) (simp add: comp_def)
    have "n - r < n" "\<forall>k<4. length (ss' k) = 25" "\<forall>k<4. length (drop r (ins k)) = n - r"
      using False less.prems(2) by (simp_all add: ss'_def)
    note IH = less.IH [OF this]
    have eq1: "four (\<lambda>k. fst (absorb_blocks r (ss k) (ins k))) = four (\<lambda>k. fst (absorb_blocks r (ss' k) (drop r (ins k))))"
      by (simp add: four_def step)
    have eq2: "map (\<lambda>k. snd (absorb_blocks r (ss k) (ins k))) [0..<4] = map (\<lambda>k. snd (absorb_blocks r (ss' k) (drop r (ins k)))) [0..<4]"
      by (intro map_upt4) (simp add: step)
    from IH obtain n' where n': "absorb_blocks_x4 r (four ss') (map (\<lambda>k. drop r (ins k)) [0..<4]) (n - r) =
        (four (\<lambda>k. fst (absorb_blocks r (ss' k) (drop r (ins k)))), map (\<lambda>k. snd (absorb_blocks r (ss' k) (drop r (ins k)))) [0..<4], n')"
      and len: "\<forall>k<4. length (fst (absorb_blocks r (ss' k) (drop r (ins k)))) = 25 \<and> length (snd (absorb_blocks r (ss' k) (drop r (ins k)))) = n'"
      by blast
    show ?thesis
      unfolding x4 eq1 eq2 n' by (rule exI [of _ n']) (use len step in simp)
  qed
qed

lemma xor_four: "\<forall>k<4. length (ss k) = 25 \<Longrightarrow>
  keccakf1600x4_xor_bytes (four ss) (map ins [0..<4]) i n = four (\<lambda>k. keccakf1600_xor_bytes (ss k) (ins k) i n)"
  by (simp add: keccakf1600x4_xor_bytes_def lanes4_four) (rule four_cong, simp)

lemma absorb_once_four:
  assumes "\<forall>k<4. length (ins k) = n"
  shows "keccak_absorb_once_x4 (replicate 100 0) r (map ins [0..<4]) n p = four (\<lambda>k. keccak_absorb_once r (ins k) p)"
proof -
  have z: "replicate 100 0 = four (\<lambda>k. replicate 25 0)"
    by (simp add: four_def flip: replicate_add)
  let ?s = "\<lambda>k. fst (absorb_blocks r (replicate 25 0) (ins k))" and ?m = "\<lambda>k. snd (absorb_blocks r (replicate 25 0) (ins k))"
  obtain n' where x4: "absorb_blocks_x4 r (replicate 100 0) (map ins [0..<4]) n = (four ?s, map ?m [0..<4], n')"
    and len: "\<forall>k<4. length (?s k) = 25 \<and> length (?m k) = n'"
    using absorb_blocks_four [of "\<lambda>k. replicate 25 0" ins n r] assms by (auto simp: z)
  have pads: "[[b], [b], [b], [b]] = map (\<lambda>k. [b]) [0..<4]" for b :: byte
    by (simp add: four_upt)
  let ?t = "\<lambda>k. if 0 < n' then keccakf1600_xor_bytes (?s k) (?m k) 0 n' else ?s k"
  have t: "(if 0 < n' then keccakf1600x4_xor_bytes (four ?s) (map ?m [0..<4]) 0 n' else four ?s) = four ?t"
    using len by (simp add: xor_four)
  have t_len: "\<forall>k<4. length (?t k) = 25"
    using len by simp
  have "keccak_absorb_once r (ins k) p = (if n' = r - 1 then keccakf1600_xor_bytes (?t k) [p OR 128] n' 1
      else keccakf1600_xor_bytes (keccakf1600_xor_bytes (?t k) [p] n' 1) [128] (r - 1) 1)" if "k < 4" for k
  proof -
    have "length (?m k) = n'"
      using len that by blast
    then show ?thesis
      by (simp only: keccak_absorb_once_def absorb_padding_def case_prod_beta Let_def)
  qed
  then have "four (\<lambda>k. keccak_absorb_once r (ins k) p) = four (\<lambda>k. if n' = r - 1 then keccakf1600_xor_bytes (?t k) [p OR 128] n' 1
      else keccakf1600_xor_bytes (keccakf1600_xor_bytes (?t k) [p] n' 1) [128] (r - 1) 1)"
    by (simp add: four_def)
  then show ?thesis
    using t_len by (simp only: keccak_absorb_once_x4_def x4 Let_def case_prod_conv t pads xor_four) (simp add: xor_four)
qed

lemma squeezeblocks_four:
  assumes "\<forall>k<4. length (ss k) = 25"
  shows "keccak_squeezeblocks_x4 n (four ss) r =
    (map (\<lambda>k. fst (keccak_squeezeblocks n (ss k) r)) [0..<4], four (\<lambda>k. snd (keccak_squeezeblocks n (ss k) r)))"
  using assms
proof (induction n arbitrary: ss)
  case 0
  then show ?case
    by (simp add: four_upt)
next
  case (Suc n)
  have p: "keccakf1600x4_permute (four ss) = four (\<lambda>k. keccakf1600_permute (ss k))"
    using Suc.prems by (simp add: keccakf1600x4_permute_def lanes4_four)
  have "keccakf1600x4_extract_bytes (four (\<lambda>k. keccakf1600_permute (ss k))) 0 r = map (\<lambda>k. keccakf1600_extract_bytes (keccakf1600_permute (ss k)) 0 r) [0..<4]"
    unfolding keccakf1600x4_extract_bytes_def by (intro map_upt4) (simp add: take_four)
  then show ?case
    using Suc.IH [of "\<lambda>k. keccakf1600_permute (ss k)"] by (simp add: p Let_def case_prod_beta four_upt)
qed

lemma length_squeezeblocks_state: "length s = 25 \<Longrightarrow> length (snd (keccak_squeezeblocks n s r)) = 25"
  by (induction n arbitrary: s) (simp_all add: Let_def case_prod_beta)

lemma length_absorb_once: "length (keccak_absorb_once r m p) = 25"
proof -
  have "length (fst (absorb_blocks r s m)) = length s" if "length s = 25" for s
    using that by (induction r s m rule: absorb_blocks.induct) (subst absorb_blocks.simps, simp)
  then show ?thesis
    by (simp add: keccak_absorb_once_def absorb_padding_def case_prod_beta Let_def)
qed

text \<open>Squeezing a whole number of blocks and a rest is squeezing once.\<close>

lemma squeeze_once_blocks:
  "0 < r \<Longrightarrow> keccak_squeeze_once (n * r + m) s r = fst (keccak_squeezeblocks n s r) @ keccak_squeeze_once m (snd (keccak_squeezeblocks n s r)) r"
proof (induction n arbitrary: s)
  case (Suc n)
  have "keccak_squeeze_once (Suc n * r + m) s r = keccakf1600_extract_bytes (keccakf1600_permute s) 0 r @ keccak_squeeze_once (n * r + m) (keccakf1600_permute s) r"
    using Suc.prems by (subst keccak_squeeze_once.simps) (simp add: Let_def)
  then show ?case
    using Suc by (simp add: Let_def case_prod_beta)
qed simp

lemma squeeze_once_rest: "m < r \<Longrightarrow> keccak_squeeze_once m s r = take m (fst (keccak_squeezeblocks 1 s r))"
proof (cases "m = 0")
  case False
  assume "m < r"
  then have "keccak_squeeze_once m s r = keccakf1600_extract_bytes (keccakf1600_permute s) 0 m @ keccak_squeeze_once 0 (keccakf1600_permute s) r"
    using False by (subst keccak_squeeze_once.simps) (simp add: Let_def)
  moreover have "keccak_squeeze_once 0 s' r = []" for s'
    by (subst keccak_squeeze_once.simps) simp
  ultimately show ?thesis
    using \<open>m < r\<close> by (simp add: Let_def keccakf1600_extract_bytes_def take_map)
qed (subst keccak_squeeze_once.simps, simp)

lemma shake256x4_four:
  assumes "\<forall>k<4. length (ins k) = n"
  shows "shake256x4 outlen (map ins [0..<4]) n = map (\<lambda>k. shake256 outlen (ins k)) [0..<4]"
proof -
  let ?s = "\<lambda>k. keccak_absorb_once SHAKE256_RATE (ins k) 0x1F"
  let ?n = "outlen div SHAKE256_RATE" and ?m = "outlen mod SHAKE256_RATE"
  let ?t = "\<lambda>k. snd (keccak_squeezeblocks ?n (?s k) SHAKE256_RATE)"
  have r: "0 < SHAKE256_RATE"
    by (simp add: SHAKE256_RATE_def)
  have m: "outlen - ?n * SHAKE256_RATE = ?m"
    by (simp add: minus_div_mult_eq_mod)
  have "shake256 outlen (ins k) = fst (keccak_squeezeblocks ?n (?s k) SHAKE256_RATE) @ take ?m (fst (keccak_squeezeblocks 1 (?t k) SHAKE256_RATE))" for k
    unfolding shake256_def using squeeze_once_blocks [OF r, of ?n ?m] squeeze_once_rest [OF mod_less_divisor [OF r]] by (simp only: div_mult_mod_eq)
  moreover have "shake256x4_absorb_once (map ins [0..<4]) n = four ?s"
    unfolding shake256x4_absorb_once_def by (rule absorb_once_four [OF assms])
  moreover have "\<forall>k<4. length (?s k) = 25"
    by (simp add: length_absorb_once)
  moreover have "\<forall>k<4. length (?t k) = 25"
    by (simp add: length_absorb_once length_squeezeblocks_state)
  moreover have x4: "map2 (\<lambda>o' t. o' @ take ?m t) (map f [0..<4]) (map g [0..<4]) = map (\<lambda>k. f k @ take ?m (g k)) [0..<4 :: nat]" for f g :: "nat \<Rightarrow> bytes"
    by (simp add: four_upt)
  ultimately show ?thesis
    unfolding shake256x4_def shake256x4_squeezeblocks_def Let_def by (simp only: squeezeblocks_four case_prod_conv m x4) simp
qed

text \<open>
  Four sponges side by side are four sponges: for inputs of one length, \<open>mlk_shake256x4\<close>
  returns what \<open>mlk_shake256\<close> returns for each, and \<open>mlk_shake128x4_absorb_once\<close> followed by any
  number of \<open>mlk_shake128x4_squeezeblocks\<close> blocks is the single stream of each.
\<close>

theorem batched_sponges_agree:
  assumes "\<forall>k<4. length (ins k) = n"
  shows "shake256x4 outlen (map ins [0..<4]) n = map (\<lambda>k. shake256 outlen (ins k)) [0..<4] \<and>
    fst (shake128x4_squeezeblocks nblocks (shake128x4_absorb_once (map ins [0..<4]) n)) =
      map (\<lambda>k. fst (shake128_squeezeblocks nblocks (shake128_absorb_once (ins k)))) [0..<4]"
  using shake256x4_four [OF assms]
  by (simp add: shake128x4_squeezeblocks_def shake128x4_absorb_once_def absorb_once_four [OF assms] squeezeblocks_four length_absorb_once
      shake128_squeezeblocks_def shake128_absorb_once_def)

lemma batched_sponges_agree_witness:
  "shake256x4 200 (map (\<lambda>k. replicate 33 (of_nat k)) [0..<4]) 33 = map (\<lambda>k. shake256 200 (replicate 33 (of_nat k))) [0..<4]"
  using batched_sponges_agree [of "\<lambda>k. replicate 33 (of_nat k)" 33 200] by simp

end
