(* ===== verification/MlkSampling.thy ===== *)
theory MlkSampling
  imports MlkPoly Keccak4 "HOL-Library.Monad_Syntax"
begin

text \<open>
  Sampling of ML-KEM polynomials (\<open>mlkem_native/src/sampling.c\<close>, the noise of \<open>poly_k.c\<close> and the
  stream names of \<open>symmetric.h\<close>): uniform coefficients by rejection from SHAKE128, and the
  centred binomial distribution from SHAKE256.  The coefficients written so far are a list, so
  the counter of the C is its length.  The rejection loops read the stream until they have 256
  coefficients: they are partial functions, \<open>None\<close> for a stream that never holds enough.
\<close>

definition MLKEM_SYMBYTES :: nat where "MLKEM_SYMBYTES = 32"

definition MLKEM_ETA1 :: nat where "MLKEM_ETA1 = 2"

definition XOF_RATE :: nat where "XOF_RATE = SHAKE128_RATE"

definition MLKEM_GEN_MATRIX_NBLOCKS :: nat where
  "MLKEM_GEN_MATRIX_NBLOCKS = (12 * MLKEM_N div 8 * 2 ^ 12 div 3329 + XOF_RATE) div XOF_RATE"

section \<open>Rejection sampling\<close>

function rej_uniform_loop :: "nat \<Rightarrow> bytes \<Rightarrow> nat \<Rightarrow> nat \<Rightarrow> s16 list \<Rightarrow> s16 list" where
  "rej_uniform_loop target buf buflen pos r =
     (if length r < target \<and> pos + 3 \<le> buflen
      then let b0 = (ucast (buf ! pos) :: s32); b1 = (ucast (buf ! (pos + 1)) :: s32); b2 = (ucast (buf ! (pos + 2)) :: s32);
          val0 = (ucast ((drop_bit 0 b0 OR push_bit 8 b1) AND 0xFFF) :: s16); val1 = (ucast ((drop_bit 4 b1 OR push_bit 4 b2) AND 0xFFF) :: s16);
          r = (if sint val0 < sint (MLKEM_Q :: s32) then r @ [val0] else r);
          r = (if length r < target \<and> sint val1 < sint (MLKEM_Q :: s32) then r @ [val1] else r)
        in rej_uniform_loop target buf buflen (pos + 3) r
      else r)"
  by pat_completeness auto
termination
  by (relation "measure (\<lambda>(target, buf, buflen, pos, r). buflen - pos)") auto

declare rej_uniform_loop.simps [simp del]

definition rej_uniform :: "s16 list \<Rightarrow> nat \<Rightarrow> bytes \<Rightarrow> nat \<Rightarrow> s16 list" where
  "rej_uniform r target buf buflen = rej_uniform_loop target buf buflen 0 r"

partial_function (option) rej_more :: "s16 list \<Rightarrow> u64 list \<Rightarrow> poly option" where
  "rej_more r state =
     (if length r < MLKEM_N
      then let (buf, state) = shake128_squeezeblocks 1 state in rej_more (rej_uniform r MLKEM_N buf XOF_RATE) state
      else Some r)"

declare rej_more.simps [code]

definition poly_rej_uniform :: "bytes \<Rightarrow> poly option" where
  "poly_rej_uniform seed =
     (let state = shake128_absorb_once (take (MLKEM_SYMBYTES + 2) seed);
        (buf, state) = shake128_squeezeblocks MLKEM_GEN_MATRIX_NBLOCKS state; buflen = MLKEM_GEN_MATRIX_NBLOCKS * XOF_RATE
      in rej_more (rej_uniform [] MLKEM_N buf buflen) state)"

partial_function (option) rej_more_x4 :: "s16 list list \<Rightarrow> u64 list \<Rightarrow> poly list option" where
  "rej_more_x4 rs statex =
     (if length (rs ! 0) < MLKEM_N \<or> length (rs ! 1) < MLKEM_N \<or> length (rs ! 2) < MLKEM_N \<or> length (rs ! 3) < MLKEM_N
      then let (buf, statex) = shake128x4_squeezeblocks 1 statex
        in rej_more_x4 (map (\<lambda>k. rej_uniform (rs ! k) MLKEM_N (buf ! k) XOF_RATE) [0..<4]) statex
      else Some rs)"

declare rej_more_x4.simps [code]

definition poly_rej_uniform_x4 :: "bytes list \<Rightarrow> poly list option" where
  "poly_rej_uniform_x4 seed =
     (let statex = shake128x4_absorb_once (map (take (MLKEM_SYMBYTES + 2)) seed) (MLKEM_SYMBYTES + 2);
        (buf, statex) = shake128x4_squeezeblocks MLKEM_GEN_MATRIX_NBLOCKS statex; buflen = MLKEM_GEN_MATRIX_NBLOCKS * XOF_RATE
      in rej_more_x4 (map (\<lambda>k. rej_uniform [] MLKEM_N (buf ! k) buflen) [0..<4]) statex)"

section \<open>Noise\<close>

definition load32_littleendian :: "bytes \<Rightarrow> u32" where
  "load32_littleendian x =
     (let r = ucast (x ! 0); r = r OR push_bit 8 (ucast (x ! 1)); r = r OR push_bit 16 (ucast (x ! 2)) in r OR push_bit 24 (ucast (x ! 3)))"

definition poly_cbd2 :: "bytes \<Rightarrow> poly" where
  "poly_cbd2 buf = concat (map (\<lambda>i.
     let t = load32_littleendian (drop (4 * i) buf); d = t AND 0x55555555; d = d + (drop_bit 1 t AND 0x55555555)
     in map (\<lambda>j. let a = (ucast (drop_bit (4 * j + 0) d AND 0x3) :: s16); b = ucast (drop_bit (4 * j + 2) d AND 0x3) in a - b) [0..<8])
     [0..<MLKEM_N div 8])"

definition load24_littleendian :: "bytes \<Rightarrow> u32" where
  "load24_littleendian x = (let r = ucast (x ! 0); r = r OR push_bit 8 (ucast (x ! 1)) in r OR push_bit 16 (ucast (x ! 2)))"

definition poly_cbd3 :: "bytes \<Rightarrow> poly" where
  "poly_cbd3 buf = concat (map (\<lambda>i.
     let t = load24_littleendian (drop (3 * i) buf); d = t AND 0x00249249; d = d + (drop_bit 1 t AND 0x00249249);
       d = d + (drop_bit 2 t AND 0x00249249)
     in map (\<lambda>j. let a = (ucast (drop_bit (6 * j + 0) d AND 0x7) :: s16); b = ucast (drop_bit (6 * j + 3) d AND 0x7) in a - b) [0..<4])
     [0..<MLKEM_N div 4])"

definition prf_eta1 :: "bytes \<Rightarrow> bytes" where
  "prf_eta1 extkey = shake256 (MLKEM_ETA1 * MLKEM_N div 4) (take (MLKEM_SYMBYTES + 1) extkey)"

definition poly_cbd_eta1 :: "bytes \<Rightarrow> poly" where
  "poly_cbd_eta1 buf = poly_cbd2 buf"

text \<open>The fourth polynomial is absent when the caller passes \<open>NULL\<close>.\<close>

definition poly_getnoise_eta1_4x :: "bytes \<Rightarrow> byte \<Rightarrow> byte \<Rightarrow> byte \<Rightarrow> byte option \<Rightarrow> poly list" where
  "poly_getnoise_eta1_4x seed nonce0 nonce1 nonce2 nonce3 =
     (let extkey = (\<lambda>nonce. take MLKEM_SYMBYTES seed @ [nonce]); buf = (\<lambda>nonce. prf_eta1 (extkey nonce));
        r0 = poly_cbd_eta1 (buf nonce0); r1 = poly_cbd_eta1 (buf nonce1); r2 = poly_cbd_eta1 (buf nonce2)
      in (case nonce3 of None \<Rightarrow> [r0, r1, r2] | Some n \<Rightarrow> [r0, r1, r2, poly_cbd_eta1 (buf n)]))"

end
