(* ===== verification/MlkKem.thy ===== *)
theory MlkKem
  imports MlkCompress MlkSampling Crypto
begin

text \<open>
  The public-key encryption of ML-KEM-768 (\<open>mlkem_native/src/indcpa.c\<close> with the vector functions of
  \<open>poly_k.c\<close>) and the encapsulation built on it (\<open>kem.c\<close>).  Working memory is on the stack in
  this configuration, so no function fails for lack of memory; \<open>None\<close> is a matrix whose rejection
  sampling never ends, and an error code is \<open>Inl\<close>.
\<close>

definition MLKEM_POLYBYTES :: nat where "MLKEM_POLYBYTES = 384"

definition MLKEM_POLYVECBYTES :: nat where "MLKEM_POLYVECBYTES = MLKEM_K * MLKEM_POLYBYTES"

definition MLKEM_POLYCOMPRESSEDBYTES_DU :: nat where "MLKEM_POLYCOMPRESSEDBYTES_DU = 320"

definition MLKEM_POLYVECCOMPRESSEDBYTES_DU :: nat where
  "MLKEM_POLYVECCOMPRESSEDBYTES_DU = MLKEM_K * MLKEM_POLYCOMPRESSEDBYTES_DU"

definition MLKEM_POLYCOMPRESSEDBYTES_DV :: nat where "MLKEM_POLYCOMPRESSEDBYTES_DV = 128"

definition MLKEM_INDCPA_PUBLICKEYBYTES :: nat where "MLKEM_INDCPA_PUBLICKEYBYTES = MLKEM_POLYVECBYTES + MLKEM_SYMBYTES"

definition MLKEM_INDCPA_SECRETKEYBYTES :: nat where "MLKEM_INDCPA_SECRETKEYBYTES = MLKEM_POLYVECBYTES"

definition MLKEM_INDCPA_BYTES :: nat where "MLKEM_INDCPA_BYTES = MLKEM_POLYVECCOMPRESSEDBYTES_DU + MLKEM_POLYCOMPRESSEDBYTES_DV"

definition MLKEM_INDCCA_PUBLICKEYBYTES :: nat where "MLKEM_INDCCA_PUBLICKEYBYTES = MLKEM_INDCPA_PUBLICKEYBYTES"

definition MLKEM_INDCCA_SECRETKEYBYTES :: nat where
  "MLKEM_INDCCA_SECRETKEYBYTES = MLKEM_INDCPA_SECRETKEYBYTES + MLKEM_INDCPA_PUBLICKEYBYTES + 2 * MLKEM_SYMBYTES"

definition MLKEM_INDCCA_CIPHERTEXTBYTES :: nat where "MLKEM_INDCCA_CIPHERTEXTBYTES = MLKEM_INDCPA_BYTES"

definition MLK_ERR_FAIL :: int where "MLK_ERR_FAIL = - 1"

text \<open>\<open>mlk_memcpy\<close> from an offset.\<close>

definition from_at :: "nat \<Rightarrow> nat \<Rightarrow> bytes \<Rightarrow> bytes" where
  "from_at offset len b = take len (drop offset b)"

section \<open>Vectors of polynomials\<close>

definition polyvec_compress_du :: "polyvec \<Rightarrow> bytes" where
  "polyvec_compress_du a = concat (map (\<lambda>i. poly_compress_d10 (a ! i)) [0..<MLKEM_K])"

definition polyvec_decompress_du :: "bytes \<Rightarrow> polyvec" where
  "polyvec_decompress_du a = map (\<lambda>i. poly_decompress_d10 (drop (i * MLKEM_POLYCOMPRESSEDBYTES_DU) a)) [0..<MLKEM_K]"

definition polyvec_tobytes :: "polyvec \<Rightarrow> bytes" where
  "polyvec_tobytes a = concat (map (\<lambda>i. poly_tobytes (a ! i)) [0..<MLKEM_K])"

definition polyvec_frombytes :: "bytes \<Rightarrow> polyvec" where
  "polyvec_frombytes a = map (\<lambda>i. poly_frombytes (drop (i * MLKEM_POLYBYTES) a)) [0..<MLKEM_K]"

section \<open>Keys and ciphertexts\<close>

definition pack_pk :: "polyvec \<Rightarrow> bytes \<Rightarrow> bytes" where
  "pack_pk pk seed = polyvec_tobytes pk @ from_at 0 MLKEM_SYMBYTES seed"

definition unpack_pk :: "bytes \<Rightarrow> polyvec \<times> bytes" where
  "unpack_pk packedpk = (polyvec_frombytes packedpk, from_at MLKEM_POLYVECBYTES MLKEM_SYMBYTES packedpk)"

definition pack_sk :: "polyvec \<Rightarrow> bytes" where
  "pack_sk sk = polyvec_tobytes sk"

definition unpack_sk :: "bytes \<Rightarrow> polyvec" where
  "unpack_sk packedsk = polyvec_frombytes packedsk"

definition pack_ciphertext :: "polyvec \<Rightarrow> poly \<Rightarrow> bytes" where
  "pack_ciphertext b v = polyvec_compress_du b @ poly_compress_d4 v"

definition unpack_ciphertext :: "bytes \<Rightarrow> polyvec \<times> poly" where
  "unpack_ciphertext c = (polyvec_decompress_du c, poly_decompress_d4 (drop MLKEM_POLYVECCOMPRESSEDBYTES_DU c))"

section \<open>The matrix\<close>

definition seed_ext :: "bool \<Rightarrow> bytes \<Rightarrow> nat \<Rightarrow> bytes" where
  "seed_ext transposed seed i =
     (let x = of_nat (i div MLKEM_K); y = of_nat (i mod MLKEM_K)
      in take MLKEM_SYMBYTES seed @ (if transposed then [x, y] else [y, x]))"

text \<open>Four entries at a time, then one by one; entry \<open>i\<close> is in row \<open>i / 3\<close> and column \<open>i mod 3\<close>.\<close>

fun gen_quads :: "(nat \<Rightarrow> bytes) \<Rightarrow> nat list \<Rightarrow> poly list option" where
  "gen_quads seeds [] = Some []"
| "gen_quads seeds (i # is) = do {
     es \<leftarrow> poly_rej_uniform_x4 (map (\<lambda>j. seeds (i + j)) [0..<4]);
     rest \<leftarrow> gen_quads seeds is;
     Some (es @ rest)
   }"

fun gen_singles :: "(nat \<Rightarrow> bytes) \<Rightarrow> nat list \<Rightarrow> poly list option" where
  "gen_singles seeds [] = Some []"
| "gen_singles seeds (i # is) = do {
     e \<leftarrow> poly_rej_uniform (seeds i);
     rest \<leftarrow> gen_singles seeds is;
     Some (e # rest)
   }"

definition gen_matrix :: "bytes \<Rightarrow> bool \<Rightarrow> polyvec list option" where
  "gen_matrix seed transposed = do {
     let n4 = MLKEM_K * MLKEM_K div 4;
     quads \<leftarrow> gen_quads (seed_ext transposed seed) (map (\<lambda>i. 4 * i) [0..<n4]);
     singles \<leftarrow> gen_singles (seed_ext transposed seed) [4 * n4..<MLKEM_K * MLKEM_K];
     let es = quads @ singles;
     Some (map (\<lambda>r. map (\<lambda>c. es ! (r * MLKEM_K + c)) [0..<MLKEM_K]) [0..<MLKEM_K])
   }"

definition matvec_mul :: "polyvec list \<Rightarrow> polyvec \<Rightarrow> mulcache list \<Rightarrow> polyvec" where
  "matvec_mul a v vc = map (\<lambda>i. polyvec_basemul_acc_montgomery_cached (a ! i) v vc) [0..<MLKEM_K]"

section \<open>Encryption\<close>

text \<open>The arithmetic of the three functions, between sampling or unpacking and packing.\<close>

definition keypair_polys :: "polyvec list \<Rightarrow> polyvec \<Rightarrow> polyvec \<Rightarrow> polyvec \<times> polyvec" where
  "keypair_polys a skpv e =
     (let skpv = polyvec_ntt skpv; e = polyvec_ntt e; skpv_cache = polyvec_mulcache_compute skpv;
        pkpv = matvec_mul a skpv skpv_cache; pkpv = polyvec_tomont pkpv; pkpv = polyvec_add pkpv e;
        pkpv = polyvec_reduce pkpv; skpv = polyvec_reduce skpv
      in (pkpv, skpv))"

definition enc_polys :: "polyvec list \<Rightarrow> polyvec \<Rightarrow> polyvec \<Rightarrow> polyvec \<Rightarrow> poly \<Rightarrow> poly \<Rightarrow> polyvec \<times> poly" where
  "enc_polys at pkpv sp ep epp k =
     (let sp = polyvec_ntt sp; sp_cache = polyvec_mulcache_compute sp; b = matvec_mul at sp sp_cache;
        v = polyvec_basemul_acc_montgomery_cached pkpv sp sp_cache; b = polyvec_invntt_tomont b; v = poly_invntt_tomont v;
        b = polyvec_add b ep; v = poly_add v epp; v = poly_add v k; b = polyvec_reduce b; v = poly_reduce v
      in (b, v))"

definition dec_poly :: "polyvec \<Rightarrow> polyvec \<Rightarrow> poly \<Rightarrow> poly" where
  "dec_poly skpv b v =
     (let b = polyvec_ntt b; b_cache = polyvec_mulcache_compute b; sb = polyvec_basemul_acc_montgomery_cached skpv b b_cache;
        sb = poly_invntt_tomont sb; v = poly_sub v sb
      in poly_reduce v)"

definition indcpa_keypair_derand :: "bytes \<Rightarrow> (bytes \<times> bytes) option" where
  "indcpa_keypair_derand coins =
     (let coins_with_domain_separator = from_at 0 MLKEM_SYMBYTES coins @ [of_nat MLKEM_K]; buf = sha3_512 coins_with_domain_separator;
        publicseed = take MLKEM_SYMBYTES buf; noiseseed = drop MLKEM_SYMBYTES buf
      in do {
        a \<leftarrow> gen_matrix publicseed False;
        let skpv = poly_getnoise_eta1_4x noiseseed 0 1 2 None;
        let e = poly_getnoise_eta1_4x noiseseed 3 4 5 None;
        let (pkpv, skpv) = keypair_polys a skpv e;
        Some (pack_pk pkpv publicseed, pack_sk skpv)
      })"

definition indcpa_enc :: "bytes \<Rightarrow> bytes \<Rightarrow> bytes \<Rightarrow> bytes option" where
  "indcpa_enc m pk coins =
     (let (pkpv, seed) = unpack_pk pk; k = poly_frommsg m
      in do {
        at \<leftarrow> gen_matrix seed True;
        let sp = poly_getnoise_eta1_4x coins 0 1 2 None;
        let noise = poly_getnoise_eta1_4x coins 3 4 5 (Some 6);
        let (b, v) = enc_polys at pkpv sp (take 3 noise) (noise ! 3) k;
        Some (pack_ciphertext b v)
      })"

definition indcpa_dec :: "bytes \<Rightarrow> bytes \<Rightarrow> bytes" where
  "indcpa_dec c sk = (let (b, v) = unpack_ciphertext c; skpv = unpack_sk sk; v = dec_poly skpv b v in poly_tomsg v)"

section \<open>Encapsulation\<close>

definition mlk_kem_check_pk :: "bytes \<Rightarrow> int" where
  "mlk_kem_check_pk pk =
     (let p = polyvec_frombytes pk; p = polyvec_reduce p; p_reencoded = polyvec_tobytes p
      in if ct_memcmp pk p_reencoded MLKEM_POLYVECBYTES \<noteq> 0 then MLK_ERR_FAIL else 0)"

definition mlk_kem_check_sk :: "bytes \<Rightarrow> int" where
  "mlk_kem_check_sk sk =
     (let test = sha3_256 (from_at MLKEM_INDCPA_SECRETKEYBYTES MLKEM_INDCCA_PUBLICKEYBYTES sk)
      in if ct_memcmp (drop (MLKEM_INDCCA_SECRETKEYBYTES - 2 * MLKEM_SYMBYTES) sk) test MLKEM_SYMBYTES \<noteq> 0 then MLK_ERR_FAIL else 0)"

text \<open>The pairwise consistency test is not configured: \<open>mlk_check_pct\<close> returns 0.\<close>

definition check_pct :: "bytes \<Rightarrow> bytes \<Rightarrow> int" where
  "check_pct pk sk = 0"

definition mlk_kem_keypair_derand :: "bytes \<Rightarrow> (int + bytes \<times> bytes) option" where
  "mlk_kem_keypair_derand coins = do {
     (pk, sk) \<leftarrow> indcpa_keypair_derand coins;
     let sk = sk @ from_at 0 MLKEM_INDCCA_PUBLICKEYBYTES pk @ sha3_256 (from_at 0 MLKEM_INDCCA_PUBLICKEYBYTES pk)
       @ from_at MLKEM_SYMBYTES MLKEM_SYMBYTES coins;
     let ret = check_pct pk sk;
     Some (if ret \<noteq> 0 then Inl ret else Inr (pk, sk))
   }"

definition mlk_kem_enc_derand :: "bytes \<Rightarrow> bytes \<Rightarrow> (int + bytes \<times> bytes) option" where
  "mlk_kem_enc_derand pk coins =
     (let ret = mlk_kem_check_pk pk
      in if ret \<noteq> 0 then Some (Inl ret)
         else let buf = from_at 0 MLKEM_SYMBYTES coins @ sha3_256 (from_at 0 MLKEM_INDCCA_PUBLICKEYBYTES pk); kr = sha3_512 buf
           in do {
             ct \<leftarrow> indcpa_enc buf pk (drop MLKEM_SYMBYTES kr);
             let ss = from_at 0 MLKEM_SYMBYTES kr;
             Some (Inr (ct, ss))
           })"

definition mlk_kem_dec :: "bytes \<Rightarrow> bytes \<Rightarrow> (int + bytes) option" where
  "mlk_kem_dec ct sk =
     (let pk = drop MLKEM_INDCPA_SECRETKEYBYTES sk; ret = mlk_kem_check_sk sk
      in if ret \<noteq> 0 then Some (Inl ret)
         else let buf = indcpa_dec ct sk;
             buf = buf @ from_at (MLKEM_INDCCA_SECRETKEYBYTES - 2 * MLKEM_SYMBYTES) MLKEM_SYMBYTES sk; kr = sha3_512 buf
           in do {
             tmp \<leftarrow> indcpa_enc buf pk (drop MLKEM_SYMBYTES kr);
             let fail = ct_memcmp ct tmp MLKEM_INDCCA_CIPHERTEXTBYTES;
             let tmp = from_at (MLKEM_INDCCA_SECRETKEYBYTES - MLKEM_SYMBYTES) MLKEM_SYMBYTES sk @ from_at 0 MLKEM_INDCCA_CIPHERTEXTBYTES ct;
             let ss = shake256 MLKEM_SYMBYTES tmp;
             Some (Inr (ct_cmov_zero ss kr MLKEM_SYMBYTES fail))
           })"

text \<open>
  The randomized entry points draw their coins from the environment; the generator behind
  \<open>randombytes\<close> reports success always.
\<close>

definition mlk_kem_keypair :: "world \<Rightarrow> (int + bytes \<times> bytes) option \<times> world" where
  "mlk_kem_keypair w = (let (coins, w) = randomBytes (2 * MLKEM_SYMBYTES) w in (mlk_kem_keypair_derand coins, w))"

definition mlk_kem_enc :: "bytes \<Rightarrow> world \<Rightarrow> (int + bytes \<times> bytes) option \<times> world" where
  "mlk_kem_enc pk w = (let (coins, w) = randomBytes MLKEM_SYMBYTES w in (mlk_kem_enc_derand pk coins, w))"

end
