(* ===== verification/MlkDecrypt.thy ===== *)
theory MlkDecrypt
  imports MlkProduct MlkCodec MlkKem
begin

text \<open>
  Decryption of ML-KEM-768 inverts encryption (\<open>mlkem_native/src/indcpa.c\<close>): the transform is a
  ring isomorphism, each function of the scheme computes its equation of FIPS 203 on the
  polynomials, and the terms with the secret key cancel up to a noise polynomial.
\<close>

section \<open>The transform is onto and one-to-one\<close>

lemma fwd_bwd: "1 \<le> L \<Longrightarrow> L \<le> 7 \<Longrightarrow> i < 256 \<Longrightarrow> qeq (fwd L (bwd L g) i) (2 * g i)"
proof -
  assume a: "1 \<le> L" "L \<le> 7" "i < 256"
  let ?l = "256 div 2 ^ L :: nat"
  let ?n = "i div (2 * ?l)"
  let ?z = "zq (2 ^ (L - 1) + ?n)" and ?y = "zq (2 ^ L - 1 - ?n)"
  note len = layer_len [OF a(1,2)]
  have zy: "qeq (?z * ?y) (- 1)"
    by (rule zq_inverse [OF a(1,2) layer_index(1) [OF a]])
  show ?thesis
  proof (cases "i mod (2 * ?l) < ?l")
    case True
    note k = same_block(1) [OF len(1) True]
    have "fwd L (bwd L g) i = (g i + g (i + ?l)) + (?z * ?y) * (g (i + ?l) - g i)"
      using True k by (simp add: fwd_def bwd_def Let_def)
    also have "qeq \<dots> ((g i + g (i + ?l)) + - 1 * (g (i + ?l) - g i))"
      by (intro qeq_add qeq_mult qeq_refl zy)
    finally show ?thesis
      by simp
  next
    case False
    note k = same_block(2) [OF len(1) False]
    have "i mod (2 * ?l) - ?l < ?l"
      using len(1) mod_less_divisor [of "2 * ?l" i] False by linarith
    then have "fwd L (bwd L g) i = (g (i - ?l) + g i) - (?z * ?y) * (g i - g (i - ?l))"
      using False k by (simp add: fwd_def bwd_def Let_def)
    also have "qeq \<dots> ((g (i - ?l) + g i) - - 1 * (g i - g (i - ?l)))"
      by (intro qeq_diff qeq_mult qeq_refl zy)
    finally show ?thesis
      by simp
  qed
qed

lemma fwd_cong:
  assumes "1 \<le> L" "L \<le> 7" "i < 256" and "\<And>k. k < 256 \<Longrightarrow> qeq (f k) (g k)"
  shows "qeq (fwd L f i) (fwd L g i)"
  using assms(3,4) layer_index(4) [OF assms(1-3)]
  by (auto simp: fwd_def Let_def intro!: qeq_add qeq_diff qeq_mult)

primrec unfwd :: "nat \<Rightarrow> (nat \<Rightarrow> int) \<Rightarrow> nat \<Rightarrow> int" where
  "unfwd 0 h = h"
| "unfwd (Suc L) h = unfwd L (bwd (Suc L) h)"

lemma residue_unfwd: "L \<le> 7 \<Longrightarrow> i < 256 \<Longrightarrow> qeq (residue L (unfwd L h) i) (2 ^ L * h i)"
proof (induction L arbitrary: h i)
  case 0
  then show ?case
    by (simp add: residue_def)
next
  case (Suc L)
  have L: "1 \<le> Suc L" "Suc L \<le> 7"
    using Suc.prems by simp_all
  let ?g = "bwd (Suc L) h"
  have "qeq (residue (Suc L) (unfwd L ?g) i) (fwd (Suc L) (residue L (unfwd L ?g)) i)"
    using fwd_residue [OF L Suc.prems(2), of "unfwd L ?g"] by (simp add: qeq_sym)
  also have "qeq \<dots> (fwd (Suc L) (\<lambda>k. 2 ^ L * ?g k) i)"
    using Suc.IH [of _ ?g] L(2) by (intro fwd_cong [OF L Suc.prems(2)]) simp
  also have "fwd (Suc L) (\<lambda>k. 2 ^ L * ?g k) i = 2 ^ L * fwd (Suc L) ?g i"
    by (simp add: fwd_def Let_def algebra_simps)
  also have "qeq \<dots> (2 ^ L * (2 * h i))"
    by (intro qeq_mult qeq_refl fwd_bwd [OF L Suc.prems(2)])
  finally show ?case
    by (simp add: mult.left_commute mult.assoc)
qed

lemma residue_scale: "residue L (\<lambda>i. c * f i) k = c * residue L f k"
  by (simp add: residue_def Let_def sum_distrib_left mult.assoc)

lemma residue_add: "residue L (\<lambda>i. f i + g i) k = residue L f k + residue L g k"
  by (simp add: residue_def Let_def sum.distrib distrib_right)

lemma halved: "qeq (3303 * (128 * x)) x"
  using qeq_multiple(1) [of x "127 * x"] by (simp add: q_def)

text \<open>Every polynomial in the transformed domain is the transform of one.\<close>

lemma residue_onto: "\<exists>a. \<forall>i<256. qeq (x i) (residue 7 a i)"
proof (intro exI allI impI)
  fix i :: nat
  assume "i < 256"
  then have "qeq (residue 7 (unfwd 7 x) i) (128 * x i)"
    using residue_unfwd [of 7 i x] by simp
  then have "qeq (3303 * residue 7 (unfwd 7 x) i) (3303 * (128 * x i))"
    by (rule qeq_mult [OF qeq_refl])
  then have "qeq (3303 * residue 7 (unfwd 7 x) i) (x i)"
    by (rule qeq_trans [OF _ halved])
  then show "qeq (x i) (residue 7 (\<lambda>i. 3303 * unfwd 7 x i) i)"
    unfolding residue_scale by (rule qeq_sym)
qed

lemma bwd_residue:
  assumes "1 \<le> L" and "L \<le> 7" and "\<And>k. k < 256 \<Longrightarrow> qeq (x k) (c * residue L a k)" and "i < 256"
  shows "qeq (bwd L x i) (2 * c * residue (L - 1) a i)"
proof (rule inv_fwd [OF assms(1,2,4)])
  fix k :: nat
  assume k: "k < 256"
  show "qeq (x k) (c * fwd L (residue (L - 1) a) k)"
    by (rule qeq_trans [OF assms(3) [OF k] qeq_mult [OF qeq_refl qeq_sym [OF fwd_residue [OF assms(1,2) k]]]])
qed

lemma unfwd_residue:
  "L \<le> 7 \<Longrightarrow> (\<And>k. k < 256 \<Longrightarrow> qeq (x k) (c * residue L a k)) \<Longrightarrow> i < 256 \<Longrightarrow> qeq (unfwd L x i) (2 ^ L * c * a i)"
proof (induction L arbitrary: x c i)
  case 0
  then show ?case
    by (simp add: residue_def)
next
  case (Suc L)
  have "qeq (bwd (Suc L) x k) (2 * c * residue L a k)" if "k < 256" for k
    using bwd_residue [of "Suc L" x c a k] Suc.prems that by simp
  then have "qeq (unfwd L (bwd (Suc L) x) i) (2 ^ L * (2 * c) * a i)"
    using Suc.prems by (intro Suc.IH) simp_all
  then show ?case
    by (simp add: mult_ac)
qed

lemma residue_inj:
  assumes "\<And>i. i < 256 \<Longrightarrow> qeq (residue 7 a i) (residue 7 b i)" and "i < 256"
  shows "qeq (a i) (b i)"
proof -
  have "qeq (unfwd 7 (residue 7 a) i) (2 ^ 7 * 1 * a i)" "qeq (unfwd 7 (residue 7 a) i) (2 ^ 7 * 1 * b i)"
    using assms by (intro unfwd_residue; simp)+
  then have "qeq (128 * a i) (128 * b i)"
    by simp (metis qeq_sym qeq_trans)
  then have "qeq (3303 * (128 * a i)) (3303 * (128 * b i))"
    by (rule qeq_mult [OF qeq_refl])
  then show ?thesis
    using halved qeq_sym qeq_trans by metis
qed

section \<open>The ring of polynomials\<close>

text \<open>The product in the transformed domain, modulo \<open>X ^ 2 - root 7 n\<close> in each pair.\<close>

definition pair_mult :: "(nat \<Rightarrow> int) \<Rightarrow> (nat \<Rightarrow> int) \<Rightarrow> nat \<Rightarrow> int" where
  "pair_mult x y i = (if even i then x i * y i + x (i + 1) * y (i + 1) * root 7 (i div 2) else x (i - 1) * y i + x i * y (i - 1))"

lemma residue_nega_pair: "i < 256 \<Longrightarrow> qeq (residue 7 (nega a b) i) (pair_mult (residue 7 a) (residue 7 b) i)"
proof -
  assume "i < 256"
  then have n: "i div 2 < 128"
    by simp
  show ?thesis
  proof (cases "even i")
    case True
    then have "2 * (i div 2) = i"
      by simp
    then show ?thesis
      using residue_nega(1) [OF n, of a b] True by (simp add: pair_mult_def)
  next
    case False
    then have "2 * (i div 2) + 1 = i" "2 * (i div 2) = i - 1"
      by simp_all
    then show ?thesis
      using residue_nega(2) [OF n, of a b] False by (simp add: pair_mult_def)
  qed
qed

lemma pair_mult_cong:
  assumes "\<And>k. k < 256 \<Longrightarrow> qeq (x k) (x' k)" and "\<And>k. k < 256 \<Longrightarrow> qeq (y k) (y' k)" and "i < 256"
  shows "qeq (pair_mult x y i) (pair_mult x' y' i)"
proof -
  have "even i \<Longrightarrow> i + 1 < 256" "i - 1 < 256"
    using assms(3) by presburger+
  then show ?thesis
    using assms unfolding pair_mult_def by (auto intro!: qeq_add qeq_mult)
qed

lemma pair_mult_exchange: "pair_mult (pair_mult a s) r i = pair_mult s (pair_mult a r) i"
proof (cases "even i")
  case True
  then show ?thesis
    by (simp add: pair_mult_def algebra_simps)
next
  case False
  then have "even (i - 1)" "(i - 1) div 2 = i div 2" "i - 1 + 1 = i"
    by (auto elim!: oddE)
  then show ?thesis
    using False by (simp add: pair_mult_def algebra_simps)
qed

lemma nega_exchange: "i < 256 \<Longrightarrow> qeq (nega (nega a s) r i) (nega s (nega a r) i)"
proof (rule residue_inj)
  fix i :: nat
  assume i: "i < 256"
  have "qeq (residue 7 (nega (nega a s) r) i) (pair_mult (pair_mult (residue 7 a) (residue 7 s)) (residue 7 r) i)"
    by (rule qeq_trans [OF residue_nega_pair [OF i] pair_mult_cong]) (simp_all add: residue_nega_pair i)
  also have "pair_mult (pair_mult (residue 7 a) (residue 7 s)) (residue 7 r) i = pair_mult (residue 7 s) (pair_mult (residue 7 a) (residue 7 r)) i"
    by (rule pair_mult_exchange)
  also have "qeq \<dots> (residue 7 (nega s (nega a r)) i)"
    by (rule qeq_sym, rule qeq_trans [OF residue_nega_pair [OF i] pair_mult_cong]) (simp_all add: residue_nega_pair i)
  finally show "qeq (residue 7 (nega (nega a s) r) i) (residue 7 (nega s (nega a r)) i)" .
qed

lemma nega_cong:
  assumes "\<And>k. k < 256 \<Longrightarrow> qeq (a k) (a' k)" and "\<And>k. k < 256 \<Longrightarrow> qeq (b k) (b' k)" and "n < 256"
  shows "qeq (nega a b n) (nega a' b' n)"
  unfolding nega_def
proof (intro qeq_sum qeq_mult)
  fix i
  assume "i \<in> {..<256 :: nat}"
  then show "qeq (a i) (a' i)"
    using assms(1) by simp
  have "qeq (- b k) (- b' k)" if "k < 256" for k
    using qeq_mult [OF qeq_refl [of "- 1"] assms(2) [OF that]] by simp
  then show "qeq (if i \<le> n then b (n - i) else - b (256 + n - i)) (if i \<le> n then b' (n - i) else - b' (256 + n - i))"
    using assms(2,3) \<open>i \<in> {..<256}\<close> by simp
qed

lemma nega_add: "nega (\<lambda>j. a j + b j) c n = nega a c n + nega b c n" "nega c (\<lambda>j. a j + b j) n = nega c a n + nega c b n"
proof -
  show "nega (\<lambda>j. a j + b j) c n = nega a c n + nega b c n"
    unfolding nega_def sum.distrib [symmetric] by (simp only: distrib_right)
  show "nega c (\<lambda>j. a j + b j) n = nega c a n + nega c b n"
    unfolding nega_def sum.distrib [symmetric] by (rule sum.cong) (simp_all add: algebra_simps)
qed

lemma nega_sum3: "nega (\<lambda>j. \<Sum>k<3. f k j) c n = (\<Sum>k<3. nega (f k) c n)" "nega c (\<lambda>j. \<Sum>k<3. f k j) n = (\<Sum>k<3. nega c (f k) n)" for f :: "nat \<Rightarrow> nat \<Rightarrow> int"
  unfolding sum3 by (simp_all only: nega_add)

text \<open>\<open>(A s) y = s (A\<^sup>T y)\<close>, so the secret of the key cancels in a decryption.\<close>

lemma transposed_product:
  fixes a :: "nat \<Rightarrow> nat \<Rightarrow> nat \<Rightarrow> int" and s y :: "nat \<Rightarrow> nat \<Rightarrow> int"
  assumes "n < 256"
  shows "qeq (\<Sum>i<3 :: nat. nega (\<lambda>l. \<Sum>j<3. nega (a i j) (s j) l) (y i) n) (\<Sum>j<3 :: nat. nega (s j) (\<lambda>l. \<Sum>i<3. nega (a i j) (y i) l) n)"
proof -
  have "qeq (\<Sum>i<3 :: nat. \<Sum>j<3 :: nat. nega (nega (a i j) (s j)) (y i) n) (\<Sum>i<3 :: nat. \<Sum>j<3 :: nat. nega (s j) (nega (a i j) (y i)) n)"
    by (intro qeq_sum nega_exchange assms)
  also have "(\<Sum>i<3 :: nat. \<Sum>j<3 :: nat. nega (s j) (nega (a i j) (y i)) n) = (\<Sum>j<3 :: nat. \<Sum>i<3 :: nat. nega (s j) (nega (a i j) (y i)) n)"
    by (rule sum.swap)
  finally show ?thesis
    unfolding nega_sum3 .
qed

section \<open>Steps of the encryption\<close>

definition coeffs :: "polyvec \<Rightarrow> nat \<Rightarrow> nat \<Rightarrow> int" where
  "coeffs v k i = sint (v ! k ! i)"

lemma upoly_canonical: "upoly r \<longleftrightarrow> canonical 4096 r"
  by (simp add: upoly_def canonical_def)

lemma tomont_ok: "stands_for r (\<lambda>i. 169 * f i) \<Longrightarrow> stands_for (poly_tomont r) f \<and> pbound q (poly_tomont r)"
proof -
  assume r: "stands_for r (\<lambda>i. 169 * f i)"
  have f: "\<bar>sint (1353 :: s16)\<bar> \<le> 1664" "sint (1353 :: s16) = 1353"
    by simp_all
  have "qeq (sint (fqmul (r ! i) 1353)) (f i)" if i: "i < 256" for i
  proof -
    have "qeq (sint (fqmul (r ! i) 1353)) (169 * (sint (r ! i) * 1353))"
      using fqmul_ok(1) [OF f(1), of "r ! i"] unfolding f(2) .
    also have "qeq \<dots> (169 * ((169 * f i) * 1353))"
      using r i by (intro qeq_mult qeq_refl) (simp add: stands_for_def)
    also have "169 * ((169 * f i) * 1353) = f i + (11608 * f i) * q"
      by (simp add: q_def)
    also have "qeq \<dots> (f i)"
      by (rule qeq_multiple(1))
    finally show ?thesis .
  qed
  then show ?thesis
    using fqmul_ok(2) [OF f(1)] by (simp add: stands_for_def pbound_def poly_tomont_def MLKEM_N_def)
qed

lemma add_ok:
  assumes "stands_for r f" "stands_for t g" and "pbound b r" "pbound c t" and "b + c \<le> 2 ^ 15"
  shows "stands_for (poly_add r t) (\<lambda>i. f i + g i) \<and> pbound (b + c) (poly_add r t)"
proof -
  have "sint (r ! i + t ! i) = sint (r ! i) + sint (t ! i)" "\<bar>sint (r ! i) + sint (t ! i)\<bar> < b + c" if "i < 256" for i
  proof -
    show small: "\<bar>sint (r ! i) + sint (t ! i)\<bar> < b + c"
      using assms(3,4) that abs_lessI unfolding pbound_def by blast
    show "sint (r ! i + t ! i) = sint (r ! i) + sint (t ! i)"
      by (rule sint_sum_small(1)) (use small assms(5) in linarith)
  qed
  then show ?thesis
    using assms(1,2) by (simp add: stands_for_def pbound_def poly_add_def MLKEM_N_def qeq_add)
qed

lemma sub_ok:
  assumes "stands_for r f" "stands_for t g" and "pbound b r" "pbound c t" and "b + c \<le> 2 ^ 15"
  shows "stands_for (poly_sub r t) (\<lambda>i. f i - g i)"
proof -
  have "sint (r ! i - t ! i) = sint (r ! i) - sint (t ! i)" if "i < 256" for i
  proof -
    have "\<bar>sint (r ! i) - sint (t ! i)\<bar> < b + c"
      using assms(3,4) that abs_lessI unfolding pbound_def by blast
    then show ?thesis
      by (intro sint_sum_small(2)) (use assms(5) in linarith)
  qed
  then show ?thesis
    using assms(1,2) by (simp add: stands_for_def poly_sub_def MLKEM_N_def qeq_diff)
qed

lemma reduce_canonical: "canonical 3329 (poly_reduce r)"
proof -
  have "0 \<le> k mod q \<and> k mod q < 3329" for k
    using pos_mod_bound [of q k] pos_mod_sign [of q k] by (simp add: q_def)
  then show ?thesis
    unfolding canonical_def using poly_reduce_nth [of _ r] by (simp add: poly_reduce_def MLKEM_N_def)
qed

lemma reduced_ok: "stands_for r f \<Longrightarrow> canonical 3329 (poly_reduce r) \<and> stands_for (poly_reduce r) f"
  using poly_reduce_ok reduce_canonical by blast

lemma canonical_upoly: "canonical 3329 r \<Longrightarrow> upoly r"
  unfolding upoly_canonical by (erule canonical_mono) simp

lemma canonical_pbound: "canonical 3329 r \<Longrightarrow> pbound q r"
  unfolding canonical_def pbound_def q_def by simp

lemma ntt_vec: "\<forall>k<3. pbound q (v ! k) \<Longrightarrow> k < 3 \<Longrightarrow> pbound (8 * q) (polyvec_ntt v ! k) \<and> stands_for (polyvec_ntt v ! k) (residue 7 (coeffs v k))"
  using poly_ntt_self [of "v ! k"] unfolding coeffs_def by (simp add: polyvec_ntt_def MLKEM_K_def)

lemma keypair_polys_ok:
  assumes a: "\<forall>i<3. \<forall>j<3. canonical 4096 (a ! i ! j) \<and> stands_for (a ! i ! j) (residue 7 (\<alpha> i j))"
    and s: "\<forall>k<3. pbound q (s ! k)" and e: "\<forall>k<3. pbound q (e ! k)" and k: "k < 3"
  shows "canonical 3329 (snd (keypair_polys a s e) ! k) \<and> stands_for (snd (keypair_polys a s e) ! k) (residue 7 (coeffs s k))"
    and "canonical 3329 (fst (keypair_polys a s e) ! k) \<and>
      stands_for (fst (keypair_polys a s e) ! k) (residue 7 (\<lambda>i. (\<Sum>j<3. nega (\<alpha> k j) (coeffs s j) i) + coeffs e k i))"
proof -
  note sh = ntt_vec [OF s] and eh = ntt_vec [OF e k]
  show "canonical 3329 (snd (keypair_polys a s e) ! k) \<and> stands_for (snd (keypair_polys a s e) ! k) (residue 7 (coeffs s k))"
    using reduced_ok [OF conjunct2 [OF sh [OF k]]] k by (simp add: keypair_polys_def Let_def polyvec_reduce_def MLKEM_K_def)
  let ?b = "polyvec_basemul_acc_montgomery_cached (a ! k) (polyvec_ntt s) (polyvec_mulcache_compute (polyvec_ntt s))"
  have "stands_for ?b (\<lambda>i. 169 * residue 7 (\<lambda>i. \<Sum>j<3. nega (\<alpha> k j) (coeffs s j) i) i)"
    using a k sh by (intro basemul_ok) (simp_all add: upoly_canonical)
  then have t: "stands_for (poly_tomont ?b) (residue 7 (\<lambda>i. \<Sum>j<3. nega (\<alpha> k j) (coeffs s j) i)) \<and> pbound q (poly_tomont ?b)"
    by (rule tomont_ok)
  let ?t = "\<lambda>i. (\<Sum>j<3. nega (\<alpha> k j) (coeffs s j) i) + coeffs e k i"
  have "stands_for (poly_add (poly_tomont ?b) (polyvec_ntt e ! k)) (residue 7 ?t)"
    using add_ok [of _ _ _ _ q "8 * q"] t eh by (simp add: q_def residue_add [abs_def])
  from reduced_ok [OF this] show "canonical 3329 (fst (keypair_polys a s e) ! k) \<and> stands_for (fst (keypair_polys a s e) ! k) (residue 7 ?t)"
    using k by (simp add: keypair_polys_def Let_def polyvec_reduce_def polyvec_add_def polyvec_tomont_def matvec_mul_def MLKEM_K_def)
qed

lemma keypair_lengths [simp]: "length (fst (keypair_polys a s e)) = 3" "length (snd (keypair_polys a s e)) = 3"
  by (simp_all add: keypair_polys_def Let_def polyvec_reduce_def MLKEM_K_def)

text \<open>An inner product with a vector, back among the polynomials.\<close>

lemma inner_ok:
  assumes a: "\<forall>k<3. canonical 4096 (a ! k) \<and> stands_for (a ! k) (residue 7 (f k))" and v: "\<forall>k<3. pbound q (v ! k)"
  defines "p \<equiv> poly_invntt_tomont (polyvec_basemul_acc_montgomery_cached a (polyvec_ntt v) (polyvec_mulcache_compute (polyvec_ntt v)))"
  shows "pbound q p \<and> stands_for p (\<lambda>i. \<Sum>k<3. nega (f k) (coeffs v k) i)"
proof -
  have fin: "pbound q p \<and> stands_for p (\<lambda>i. 2 ^ 16 * 169 * (\<Sum>k<3. nega (f k) (coeffs v k) i))"
    unfolding p_def using a ntt_vec [OF v] by (intro poly_invntt_ok basemul_ok) (simp_all add: upoly_canonical)
  have "qeq (2 ^ 16 * 169 * x) x" for x
    using qeq_multiple(1) [of x "3327 * x"] by (simp add: q_def)
  then show ?thesis
    using fin unfolding stands_for_def by (blast intro: qeq_trans)
qed

lemma enc_polys_ok:
  assumes a: "\<forall>i<3. \<forall>j<3. canonical 4096 (at ! i ! j) \<and> stands_for (at ! i ! j) (residue 7 (\<alpha> i j))"
    and t: "\<forall>k<3. canonical 4096 (t ! k) \<and> stands_for (t ! k) (residue 7 (\<tau> k))"
    and y: "\<forall>k<3. pbound q (y ! k)" and e1: "\<forall>k<3. pbound q (e1 ! k)" and e2: "pbound q e2" and \<mu>: "pbound q \<mu>"
  shows "k < 3 \<Longrightarrow> canonical 3329 (fst (enc_polys at t y e1 e2 \<mu>) ! k) \<and>
      stands_for (fst (enc_polys at t y e1 e2 \<mu>) ! k) (\<lambda>i. (\<Sum>j<3. nega (\<alpha> k j) (coeffs y j) i) + coeffs e1 k i)"
    and "canonical 3329 (snd (enc_polys at t y e1 e2 \<mu>)) \<and>
      stands_for (snd (enc_polys at t y e1 e2 \<mu>)) (\<lambda>i. (\<Sum>j<3. nega (\<tau> j) (coeffs y j) i) + sint (e2 ! i) + sint (\<mu> ! i))"
proof -
  have self: "pbound b r \<Longrightarrow> stands_for r (\<lambda>i. sint (r ! i))" for b r
    by (simp add: stands_for_self pbound_def)
  show "canonical 3329 (fst (enc_polys at t y e1 e2 \<mu>) ! k) \<and>
      stands_for (fst (enc_polys at t y e1 e2 \<mu>) ! k) (\<lambda>i. (\<Sum>j<3. nega (\<alpha> k j) (coeffs y j) i) + coeffs e1 k i)" if k: "k < 3"
  proof -
    let ?p = "poly_invntt_tomont (polyvec_basemul_acc_montgomery_cached (at ! k) (polyvec_ntt y) (polyvec_mulcache_compute (polyvec_ntt y)))"
    have p: "pbound q ?p \<and> stands_for ?p (\<lambda>i. \<Sum>j<3. nega (\<alpha> k j) (coeffs y j) i)"
      by (rule inner_ok) (use a k y in simp_all)
    have "stands_for (poly_add ?p (e1 ! k)) (\<lambda>i. (\<Sum>j<3. nega (\<alpha> k j) (coeffs y j) i) + coeffs e1 k i)"
      unfolding coeffs_def [of e1] using e1 k
      by (intro conjunct1 [OF add_ok [OF conjunct2 [OF p] self [of q "e1 ! k"] conjunct1 [OF p], where c = q]]) (simp_all add: q_def)
    from reduced_ok [OF this] show ?thesis
      using k by (simp add: enc_polys_def Let_def polyvec_reduce_def polyvec_add_def polyvec_invntt_tomont_def matvec_mul_def MLKEM_K_def)
  qed
  let ?p = "poly_invntt_tomont (polyvec_basemul_acc_montgomery_cached t (polyvec_ntt y) (polyvec_mulcache_compute (polyvec_ntt y)))"
  have p: "pbound q ?p \<and> stands_for ?p (\<lambda>i. \<Sum>j<3. nega (\<tau> j) (coeffs y j) i)"
    by (rule inner_ok [OF t y])
  have "stands_for (poly_add ?p e2) (\<lambda>i. (\<Sum>j<3. nega (\<tau> j) (coeffs y j) i) + sint (e2 ! i)) \<and> pbound (q + q) (poly_add ?p e2)"
    using p self [OF e2] e2 by (intro add_ok) (simp_all add: q_def)
  then have "stands_for (poly_add (poly_add ?p e2) \<mu>) (\<lambda>i. (\<Sum>j<3. nega (\<tau> j) (coeffs y j) i) + sint (e2 ! i) + sint (\<mu> ! i))"
    using add_ok [of "poly_add ?p e2" _ \<mu> _ "q + q" q] self [OF \<mu>] \<mu> by (simp add: q_def)
  from reduced_ok [OF this] show "canonical 3329 (snd (enc_polys at t y e1 e2 \<mu>)) \<and>
      stands_for (snd (enc_polys at t y e1 e2 \<mu>)) (\<lambda>i. (\<Sum>j<3. nega (\<tau> j) (coeffs y j) i) + sint (e2 ! i) + sint (\<mu> ! i))"
    by (simp add: enc_polys_def Let_def)
qed

lemma enc_length [simp]: "length (fst (enc_polys at t y e1 e2 \<mu>)) = 3"
  by (simp add: enc_polys_def Let_def polyvec_reduce_def MLKEM_K_def)

lemma enc_canonical: "k < 3 \<Longrightarrow> canonical 3329 (fst (enc_polys at t y e1 e2 \<mu>) ! k)" "canonical 3329 (snd (enc_polys at t y e1 e2 \<mu>))"
  by (simp_all add: enc_polys_def Let_def polyvec_reduce_def MLKEM_K_def reduce_canonical)

lemma keypair_canonical: "k < 3 \<Longrightarrow> canonical 3329 (fst (keypair_polys a s e) ! k)"
  by (simp add: keypair_polys_def Let_def polyvec_reduce_def MLKEM_K_def reduce_canonical)

lemma dec_poly_ok:
  assumes s: "\<forall>k<3. canonical 4096 (s ! k) \<and> stands_for (s ! k) (residue 7 (\<sigma> k))" and b: "\<forall>k<3. pbound q (b ! k)" and v: "pbound q v"
  shows "canonical 3329 (dec_poly s b v) \<and> stands_for (dec_poly s b v) (\<lambda>i. sint (v ! i) - (\<Sum>k<3. nega (\<sigma> k) (coeffs b k) i))"
proof -
  let ?p = "poly_invntt_tomont (polyvec_basemul_acc_montgomery_cached s (polyvec_ntt b) (polyvec_mulcache_compute (polyvec_ntt b)))"
  have p: "pbound q ?p \<and> stands_for ?p (\<lambda>i. \<Sum>k<3. nega (\<sigma> k) (coeffs b k) i)"
    by (rule inner_ok [OF s b])
  have "stands_for v (\<lambda>i. sint (v ! i))"
    using v by (simp add: stands_for_self pbound_def)
  then have "stands_for (poly_sub v ?p) (\<lambda>i. sint (v ! i) - (\<Sum>k<3. nega (\<sigma> k) (coeffs b k) i))"
    using p v by (intro sub_ok [of _ _ _ _ q q]) (simp_all add: q_def)
  from reduced_ok [OF this] show ?thesis
    by (simp add: dec_poly_def Let_def)
qed

section \<open>Keys and ciphertexts\<close>

lemma prefix_frombytes: "length x = 384 \<Longrightarrow> poly_frombytes (x @ r) = poly_frombytes x"
  unfolding poly_frombytes_def MLKEM_N_def by (rule concat_eqI) (simp add: nth_append Let_def)

lemma prefix_decompress: "length x = 320 \<Longrightarrow> poly_decompress_d10 (x @ r) = poly_decompress_d10 x" "length z = 128 \<Longrightarrow> poly_decompress_d4 (z @ r) = poly_decompress_d4 z"
  unfolding poly_decompress_d10_def poly_decompress_d4_def MLKEM_N_def
  by (rule concat_eqI; simp add: nth_append Let_def)+

lemma list3: "length v = 3 \<Longrightarrow> [v ! 0, v ! Suc 0, v ! 2] = v"
  by (rule nth_equalityI) (auto simp: less_Suc_eq numeral_3_eq_3 numeral_2_eq_2)

lemma polyvec_bytes: "length s = 3 \<Longrightarrow> \<forall>k<3. canonical 4096 (s ! k) \<Longrightarrow> polyvec_frombytes (polyvec_tobytes s @ r) = s"
  using list3 [of s] by (simp add: polyvec_frombytes_def polyvec_tobytes_def MLKEM_K_def MLKEM_POLYBYTES_def upt3 prefix_frombytes frombytes_tobytes)

lemma unpack_pack_sk: "length s = 3 \<Longrightarrow> \<forall>k<3. canonical 4096 (s ! k) \<Longrightarrow> unpack_sk (pack_sk s) = s"
  using polyvec_bytes [of s "[]"] by (simp add: unpack_sk_def pack_sk_def)

lemma length_polyvec_tobytes [simp]: "length (polyvec_tobytes s) = 1152"
  by (simp add: polyvec_tobytes_def MLKEM_K_def upt3)

lemma unpack_pack_pk: "length t = 3 \<Longrightarrow> \<forall>k<3. canonical 4096 (t ! k) \<Longrightarrow> length seed = 32 \<Longrightarrow> unpack_pk (pack_pk t seed) = (t, seed)"
  by (simp add: unpack_pk_def pack_pk_def polyvec_bytes from_at_def MLKEM_SYMBYTES_def MLKEM_POLYVECBYTES_def MLKEM_POLYBYTES_def MLKEM_K_def)

definition through_d10 :: "poly \<Rightarrow> poly" where
  "through_d10 u = map (\<lambda>x. scalar_decompress_d10 (scalar_compress_d10 x)) u"

definition through_d4 :: "poly \<Rightarrow> poly" where
  "through_d4 u = map (\<lambda>x. scalar_decompress_d4 (scalar_compress_d4 x)) u"

lemma unpack_pack_ciphertext:
  "length u = 3 \<Longrightarrow> \<forall>k<3. canonical 3329 (u ! k) \<Longrightarrow> canonical 3329 v \<Longrightarrow> unpack_ciphertext (pack_ciphertext u v) = (map through_d10 u, through_d4 v)"
  using list3 [of "map through_d10 u"]
  by (simp add: unpack_ciphertext_def pack_ciphertext_def polyvec_decompress_du_def polyvec_compress_du_def MLKEM_K_def MLKEM_POLYVECCOMPRESSEDBYTES_DU_def
      MLKEM_POLYCOMPRESSEDBYTES_DU_def upt3 prefix_decompress decompress_compress_d10 decompress_compress_d4 through_d10_def through_d4_def)

section \<open>Decryption\<close>

text \<open>
  What compression adds to a polynomial, and the noise of a decryption: the representative
  around zero of \<open>e y + e2 + c_v - s (e1 + c_u)\<close>, where \<open>c_u\<close> and \<open>c_v\<close> are the errors of the
  compressed ciphertext.
\<close>

definition centred :: "int \<Rightarrow> int" where
  "centred x = (x + 1664) mod 3329 - 1664"

definition decryption_noise :: "polyvec \<Rightarrow> polyvec \<Rightarrow> polyvec \<Rightarrow> polyvec \<Rightarrow> poly \<Rightarrow> polyvec \<Rightarrow> poly \<Rightarrow> nat \<Rightarrow> int" where
  "decryption_noise s e y e1 e2 u v n = centred
     ((\<Sum>k<3. nega (coeffs e k) (coeffs y k) n) + sint (e2 ! n) + (sint (through_d4 v ! n) - sint (v ! n))
      - (\<Sum>k<3. nega (coeffs s k) (\<lambda>i. coeffs e1 k i + (sint (through_d10 (u ! k) ! i) - sint (u ! k ! i))) n))"

lemma qeq_centred: "qeq (centred x) x"
  unfolding centred_def qeq_def q_def by (simp add: mod_diff_left_eq)

lemma centred_small: "\<bar>x\<bar> \<le> 1664 \<Longrightarrow> centred x = x"
  unfolding centred_def by (subst mod_pos_pos_trivial) simp_all

lemma through_pbound: "canonical 3329 u \<Longrightarrow> pbound q (through_d10 u) \<and> pbound q (through_d4 u)"
proof -
  assume u: "canonical 3329 u"
  have b: "\<bar>sint (scalar_decompress_d10 (scalar_compress_d10 x))\<bar> < q \<and> \<bar>sint (scalar_decompress_d4 (scalar_compress_d4 x))\<bar> < q"
    if "0 \<le> sint x" "sint x < 3329" for x
  proof -
    have "uint (scalar_compress_d10 x) < 1024" "uint (scalar_compress_d4 x) < 16"
      unfolding compress_ok [OF that] by simp_all
    then show ?thesis
      using unrounded_range(1) [of "uint (scalar_compress_d4 x)"] unrounded_range(3) [of "uint (scalar_compress_d10 x)"]
      by (simp add: decompress_ok q_def)
  qed
  then show ?thesis
    using u unfolding canonical_def pbound_def through_d10_def through_d4_def by simp
qed

text \<open>The terms with the secret key cancel; the message and the noise are left.\<close>

lemma cancellation:
  fixes a :: "nat \<Rightarrow> nat \<Rightarrow> nat \<Rightarrow> int" and s e y e1 u u' :: "nat \<Rightarrow> nat \<Rightarrow> int"
  assumes t: "\<And>k i. k < 3 \<Longrightarrow> i < 256 \<Longrightarrow> t k i = (\<Sum>j<3. nega (a k j) (s j) i) + e k i"
    and u: "\<And>k i. k < 3 \<Longrightarrow> i < 256 \<Longrightarrow> qeq (u k i) ((\<Sum>j<3. nega (a j k) (y j) i) + e1 k i)"
    and v: "qeq v ((\<Sum>k<3. nega (t k) (y k) n) + e2 + m)" and n: "n < 256"
  shows "qeq (v' - (\<Sum>k<3. nega (s k) (u' k) n))
    (m + ((\<Sum>k<3. nega (e k) (y k) n) + e2 + (v' - v) - (\<Sum>k<3. nega (s k) (\<lambda>i. e1 k i + (u' k i - u k i)) n)))"
proof -
  have ty: "qeq (\<Sum>k<3. nega (t k) (y k) n) ((\<Sum>k<3. nega (\<lambda>i. \<Sum>j<3. nega (a k j) (s j) i) (y k) n) + (\<Sum>k<3. nega (e k) (y k) n))"
  proof -
    have "qeq (nega (t k) (y k) n) (nega (\<lambda>i. (\<Sum>j<3. nega (a k j) (s j) i) + e k i) (y k) n)" if "k < 3" for k
      by (rule nega_cong) (simp_all add: t that n)
    then have "qeq (\<Sum>k<3. nega (t k) (y k) n) (\<Sum>k<3. nega (\<lambda>i. (\<Sum>j<3. nega (a k j) (s j) i) + e k i) (y k) n)"
      by (intro qeq_sum) simp
    then show ?thesis
      by (simp only: nega_add sum.distrib)
  qed
  have su: "qeq (\<Sum>k<3. nega (s k) (u' k) n)
      ((\<Sum>k<3. nega (s k) (\<lambda>i. \<Sum>j<3. nega (a j k) (y j) i) n) + (\<Sum>k<3. nega (s k) (\<lambda>i. e1 k i + (u' k i - u k i)) n))"
  proof -
    have "qeq (u' k i) ((\<Sum>j<3. nega (a j k) (y j) i) + (e1 k i + (u' k i - u k i)))" if "k < 3" "i < 256" for k i
      using qeq_add [OF u [OF that] qeq_refl [of "u' k i - u k i"]] by (simp add: algebra_simps)
    then have "qeq (nega (s k) (u' k) n) (nega (s k) (\<lambda>i. (\<Sum>j<3. nega (a j k) (y j) i) + (e1 k i + (u' k i - u k i))) n)" if "k < 3" for k
      using that by (intro nega_cong n) simp_all
    then have "qeq (\<Sum>k<3. nega (s k) (u' k) n) (\<Sum>k<3. nega (s k) (\<lambda>i. (\<Sum>j<3. nega (a j k) (y j) i) + (e1 k i + (u' k i - u k i))) n)"
      by (intro qeq_sum) simp
    then show ?thesis
      by (simp only: nega_add sum.distrib)
  qed
  note ex = transposed_product [OF n, of a s y]
  let ?P = "\<Sum>k<3 :: nat. nega (\<lambda>i. \<Sum>j<3. nega (a k j) (s j) i) (y k) n" and ?Q = "\<Sum>k<3 :: nat. nega (s k) (\<lambda>i. \<Sum>j<3. nega (a j k) (y j) i) n"
  let ?E = "\<Sum>k<3 :: nat. nega (e k) (y k) n" and ?S = "\<Sum>k<3 :: nat. nega (s k) (\<lambda>i. e1 k i + (u' k i - u k i)) n"
  have "qeq (v' + v - v - (\<Sum>k<3. nega (s k) (u' k) n)) (v' + ((?P + ?E) + e2 + m) - v - (?Q + ?S))"
    by (intro qeq_diff qeq_add qeq_refl su qeq_trans [OF v] ty)
  also have "qeq (v' + ((?P + ?E) + e2 + m) - v - (?Q + ?S)) (v' + ((?Q + ?E) + e2 + m) - v - (?Q + ?S))"
    by (intro qeq_diff qeq_add qeq_refl ex)
  also have "v' + ((?Q + ?E) + e2 + m) - v - (?Q + ?S) = m + (?E + e2 + (v' - v) - ?S)"
    by simp
  finally show ?thesis
    by simp
qed

text \<open>Every entry of a matrix in the transformed domain stands for a polynomial.\<close>

lemma matrix_polynomials: "\<exists>\<alpha>. \<forall>i<3. \<forall>j<3. canonical b (a ! i ! j) \<longrightarrow> stands_for (a ! i ! j :: poly) (residue 7 (\<alpha> i j))"
proof -
  have "\<exists>f. canonical b r \<longrightarrow> stands_for r (residue 7 f)" for r
  proof -
    obtain f where "\<forall>i<256. qeq (sint (r ! i)) (residue 7 f i)"
      using residue_onto [of "\<lambda>i. sint (r ! i)"] by blast
    then show ?thesis
      by (intro exI [of _ f]) (simp add: stands_for_def canonical_def)
  qed
  then obtain F where "\<And>r. canonical b r \<longrightarrow> stands_for r (residue 7 (F r))"
    by metis
  then show ?thesis
    by (intro exI [of _ "\<lambda>i j. F (a ! i ! j)"]) blast
qed

text \<open>Decryption inverts encryption below the bound on the noise.\<close>

lemma decryption:
  assumes "length m = 32" and "\<forall>i<3. \<forall>j<3. canonical 4096 (a ! i ! j) \<and> at ! j ! i = a ! i ! j"
    and "\<forall>k<3. pbound q (s ! k) \<and> pbound q (e ! k) \<and> pbound q (y ! k) \<and> pbound q (e1 ! k)" and "pbound q e2"
    and "keypair_polys a s e = (t, sh)" and "enc_polys at (fst (unpack_pk (pack_pk t seed))) y e1 e2 (poly_frommsg m) = (u, v)"
    and "\<forall>n<256. \<bar>decryption_noise s e y e1 e2 u v n\<bar> < 832"
  shows "indcpa_dec (pack_ciphertext u v) (pack_sk sh) = m"
proof -
  obtain \<alpha> where \<alpha>: "\<forall>i<3. \<forall>j<3. canonical 4096 (a ! i ! j) \<and> stands_for (a ! i ! j) (residue 7 (\<alpha> i j))"
    using matrix_polynomials [of 4096 a] assms(2) by blast
  let ?t = "\<lambda>k i. (\<Sum>j<3. nega (\<alpha> k j) (coeffs s j) i) + coeffs e k i"
  have b: "\<forall>k<3. pbound q (s ! k)" "\<forall>k<3. pbound q (e ! k)" "\<forall>k<3. pbound q (y ! k)" "\<forall>k<3. pbound q (e1 ! k)"
    using assms(3) by blast+
  have up: "canonical 3329 r \<Longrightarrow> canonical 4096 r" for r
    by (erule canonical_mono) simp
  have key: "\<forall>k<3. canonical 4096 (sh ! k) \<and> stands_for (sh ! k) (residue 7 (coeffs s k))" "\<forall>k<3. canonical 4096 (t ! k) \<and> stands_for (t ! k) (residue 7 (?t k))"
    using keypair_polys_ok [OF \<alpha> b(1,2)] up unfolding assms(5) by (simp_all only: fst_conv snd_conv) blast+
  have len: "length t = 3" "length sh = 3" "length u = 3"
    using keypair_lengths [of a s e] enc_length [of at "fst (unpack_pk (pack_pk t seed))" y e1 e2 "poly_frommsg m"] unfolding assms(5,6) by simp_all
  have pk: "fst (unpack_pk (pack_pk t seed)) = t"
    using key(1,2) len(1) by (simp add: unpack_pk_def pack_pk_def polyvec_bytes)
  have msg: "pbound q (poly_frommsg m)"
    by (simp add: pbound_def frommsg_nth q_def)
  have \<alpha>T: "\<forall>i<3. \<forall>j<3. canonical 4096 (at ! i ! j) \<and> stands_for (at ! i ! j) (residue 7 (\<alpha> j i))"
    using \<alpha> assms(2) by simp
  have u: "\<forall>k<3. canonical 3329 (u ! k) \<and> stands_for (u ! k) (\<lambda>i. (\<Sum>j<3. nega (\<alpha> j k) (coeffs y j) i) + coeffs e1 k i)"
    and v: "canonical 3329 v \<and> stands_for v (\<lambda>i. (\<Sum>j<3. nega (?t j) (coeffs y j) i) + sint (e2 ! i) + sint (poly_frommsg m ! i))"
    using enc_polys_ok [OF \<alpha>T key(2) b(3,4) assms(4) msg] assms(6) unfolding pk by simp_all
  let ?w = "dec_poly sh (map through_d10 u) (through_d4 v)"
  let ?u' = "\<lambda>k i. sint (through_d10 (u ! k) ! i)"
  have cu: "coeffs (map through_d10 u) k = ?u' k" if "k < 3" for k
    using that len(3) by (simp add: coeffs_def fun_eq_iff)
  have w: "canonical 3329 ?w \<and> stands_for ?w (\<lambda>i. sint (through_d4 v ! i) - (\<Sum>k<3. nega (coeffs s k) (?u' k) i))"
    using dec_poly_ok [OF key(1), of "map through_d10 u" "through_d4 v"] u v through_pbound len(3) by (simp add: cu)
  have "poly_tomsg ?w = m"
  proof (rule message_recovered [OF assms(1), where e = "decryption_noise s e y e1 e2 u v"])
    show "canonical 3329 ?w"
      using w by simp
    have "qeq (sint (?w ! n)) (sint (poly_frommsg m ! n) + decryption_noise s e y e1 e2 u v n)" if n: "n < 256" for n
    proof -
      have "qeq (sint (?w ! n)) (sint (through_d4 v ! n) - (\<Sum>k<3. nega (coeffs s k) (?u' k) n))"
        using w n by (simp add: stands_for_def)
      also have "qeq \<dots> (sint (poly_frommsg m ! n) + ((\<Sum>k<3. nega (coeffs e k) (coeffs y k) n) + sint (e2 ! n) + (sint (through_d4 v ! n) - sint (v ! n))
          - (\<Sum>k<3. nega (coeffs s k) (\<lambda>i. coeffs e1 k i + (?u' k i - sint (u ! k ! i))) n)))"
        by (rule cancellation [where t = ?t and a = \<alpha> and u = "\<lambda>k i. sint (u ! k ! i)"]) (use u v n in \<open>simp_all add: stands_for_def\<close>)
      also have "qeq \<dots> (sint (poly_frommsg m ! n) + decryption_noise s e y e1 e2 u v n)"
        unfolding decryption_noise_def by (intro qeq_add qeq_refl qeq_sym [OF qeq_centred])
      finally show ?thesis .
    qed
    then show "\<forall>n<256. \<bar>decryption_noise s e y e1 e2 u v n\<bar> < 832 \<and> qeq (sint (?w ! n)) (sint (poly_frommsg m ! n) + decryption_noise s e y e1 e2 u v n)"
      using assms(7) by blast
  qed
  moreover have "unpack_ciphertext (pack_ciphertext u v) = (map through_d10 u, through_d4 v)" "unpack_sk (pack_sk sh) = sh"
    using u v key(1) len by (simp_all add: unpack_pack_ciphertext unpack_pack_sk)
  ultimately show ?thesis
    by (simp add: indcpa_dec_def)
qed

lemma centred_near: "qeq x z \<Longrightarrow> \<bar>z\<bar> \<le> 1664 \<Longrightarrow> centred x = z"
proof -
  assume a: "qeq x z" "\<bar>z\<bar> \<le> 1664"
  have "(x + 1664) mod 3329 = (z + 1664) mod 3329"
    using qeq_add [OF a(1) qeq_refl [of 1664]] by (simp add: qeq_def q_def)
  then show ?thesis
    using centred_small [OF a(2)] by (simp add: centred_def)
qed

lemma nega_unit: "n < 256 \<Longrightarrow> nega (\<lambda>i. if i = 0 then 1 else 0) c n = c n"
proof -
  assume "n < 256"
  have "nega (\<lambda>i. if i = 0 then 1 else 0) c n = (\<Sum>i<256 :: nat. if i = 0 then c n else 0)"
    unfolding nega_def by (rule sum.cong) auto
  then show ?thesis
    by simp
qed

lemma nega_zero: "nega (\<lambda>i. 0) c n = 0"
  by (simp add: nega_def)

text \<open>The errors of compression, as small representatives.\<close>

lemma through_near:
  assumes "canonical 3329 r" and "i < 256"
  shows "near 2 (sint (through_d10 r ! i) - sint (r ! i)) 0" and "near 104 (sint (through_d4 r ! i) - sint (r ! i)) 0"
proof -
  have r: "0 \<le> sint (r ! i)" "sint (r ! i) < 3329" "i < length r"
    using assms by (simp_all add: canonical_def)
  have c: "near b (x - y) 0" if n: "near b x y" for b x y
  proof -
    obtain d where d: "\<bar>d\<bar> \<le> b" "qeq x (y + d)"
      using n unfolding near_def by blast
    then have "qeq (x - y) (y + d - y)"
      by (intro qeq_diff qeq_refl)
    then show ?thesis
      using d(1) unfolding near_def by auto
  qed
  note near_r = compression_distance [OF r(1,2)]
  show "near 2 (sint (through_d10 r ! i) - sint (r ! i)) 0" "near 104 (sint (through_d4 r ! i) - sint (r ! i)) 0"
    using c [OF near_r(3)] c [OF near_r(1)] r(3) unfolding through_d10_def through_d4_def by (simp_all only: nth_map)
qed

text \<open>
  C21: decryption inverts encryption, for every matrix, secret, error and noise vectors within the
  bound: when no coefficient of the decryption noise reaches 832, \<open>mlk_indcpa_dec\<close> on the packed
  ciphertext and the packed secret key returns the message that \<open>mlk_indcpa_enc\<close> encoded, through
  the number-theoretic transform, the lazy reductions, the compression and both serialisations.
\<close>

theorem decryption_correct:
  assumes "length m = 32" and "\<forall>i<3. \<forall>j<3. canonical 4096 (a ! i ! j) \<and> at ! j ! i = a ! i ! j"
    and "\<forall>k<3. pbound q (s ! k) \<and> pbound q (e ! k) \<and> pbound q (y ! k) \<and> pbound q (e1 ! k)" and "pbound q e2"
    and "keypair_polys a s e = (t, sh)" and "enc_polys at (fst (unpack_pk (pack_pk t seed))) y e1 e2 (poly_frommsg m) = (u, v)"
    and "\<forall>n<256. \<bar>decryption_noise s e y e1 e2 u v n\<bar> < 832"
  shows "indcpa_dec (pack_ciphertext u v) (pack_sk sh) = m"
  using assms by (rule decryption)

lemma decryption_correct_witness:
  "\<exists>t sh u v. keypair_polys (replicate 3 (replicate 3 (replicate 256 5))) (replicate 3 (1 # replicate 255 0)) (replicate 3 (replicate 256 0)) = (t, sh) \<and>
    enc_polys (replicate 3 (replicate 3 (replicate 256 5))) (fst (unpack_pk (pack_pk t (replicate 32 0)))) (replicate 3 (replicate 256 1))
      (replicate 3 (replicate 256 1)) (replicate 256 2) (poly_frommsg (replicate 32 0xA5)) = (u, v) \<and>
    indcpa_dec (pack_ciphertext u v) (pack_sk sh) = replicate 32 0xA5"
proof -
  let ?A = "replicate 3 (replicate 3 (replicate 256 5)) :: polyvec list" and ?s = "replicate 3 (1 # replicate 255 0) :: polyvec"
  let ?e = "replicate 3 (replicate 256 0) :: polyvec" and ?y = "replicate 3 (replicate 256 1) :: polyvec" and ?e2 = "replicate 256 2 :: poly"
  obtain t sh where k: "keypair_polys ?A ?s ?e = (t, sh)"
    by force
  obtain u v where c: "enc_polys ?A (fst (unpack_pk (pack_pk t (replicate 32 0)))) ?y ?y ?e2 (poly_frommsg (replicate 32 0xA5)) = (u, v)"
    by force
  have uv: "j < 3 \<Longrightarrow> canonical 3329 (u ! j)" "canonical 3329 v" for j
    using enc_canonical(1) [of j ?A "fst (unpack_pk (pack_pk t (replicate 32 0)))" ?y ?y ?e2 "poly_frommsg (replicate 32 0xA5)"]
      enc_canonical(2) [of ?A "fst (unpack_pk (pack_pk t (replicate 32 0)))" ?y ?y ?e2 "poly_frommsg (replicate 32 0xA5)"] unfolding c by simp_all
  have co: "j < 3 \<Longrightarrow> i < 256 \<Longrightarrow> coeffs ?s j i = (if i = 0 then 1 else 0)" "j < 3 \<Longrightarrow> i < 256 \<Longrightarrow> coeffs ?e j i = 0" "j < 3 \<Longrightarrow> i < 256 \<Longrightarrow> coeffs ?y j i = 1" for i j
    by (simp_all add: coeffs_def nth_Cons')
  have noise: "\<bar>decryption_noise ?s ?e ?y ?y ?e2 u v n\<bar> < 832" if n: "n < 256" for n
  proof -
    obtain d where d: "\<bar>d\<bar> \<le> 104" "qeq (sint (through_d4 v ! n) - sint (v ! n)) d"
      using through_near(2) [OF uv(2) n] by (auto simp: near_def)
    have "\<forall>j<3. \<exists>d. \<bar>d\<bar> \<le> 2 \<and> qeq (sint (through_d10 (u ! j) ! n) - sint (u ! j ! n)) d"
      using through_near(1) [OF uv(1) n] by (auto simp: near_def)
    then obtain f where f: "\<And>j. j < 3 \<Longrightarrow> \<bar>f j\<bar> \<le> 2" "\<And>j. j < 3 \<Longrightarrow> qeq (sint (through_d10 (u ! j) ! n) - sint (u ! j ! n)) (f j)"
      by metis
    have s: "nega (coeffs ?s j) (\<lambda>i. coeffs ?y j i + (sint (through_d10 (u ! j) ! i) - sint (u ! j ! i))) n = 1 + (sint (through_d10 (u ! j) ! n) - sint (u ! j ! n))" if j: "j < 3" for j
    proof -
      have "nega (coeffs ?s j) h n = nega (\<lambda>i. if i = 0 then 1 else 0) h n" for h
        unfolding nega_def by (rule sum.cong) (simp_all add: co(1) [OF j])
      then show ?thesis
        by (simp add: nega_unit [OF n] co(3) [OF j n])
    qed
    have e: "nega (coeffs ?e j) (coeffs ?y j) n = 0" if j: "j < 3" for j
      unfolding nega_def by (rule sum.neutral) (simp add: co(2) [OF j])
    have "qeq ((\<Sum>j<3. nega (coeffs ?e j) (coeffs ?y j) n) + sint (?e2 ! n) + (sint (through_d4 v ! n) - sint (v ! n))
        - (\<Sum>j<3. nega (coeffs ?s j) (\<lambda>i. coeffs ?y j i + (sint (through_d10 (u ! j) ! i) - sint (u ! j ! i))) n)) ((\<Sum>j<3 :: nat. 0) + 2 + d - (\<Sum>j<3. 1 + f j))"
      using n by (intro qeq_diff qeq_add qeq_sum d(2)) (simp_all add: s e f(2) qeq_add)
    moreover have "\<bar>(\<Sum>j<3 :: nat. 0) + 2 + d - (\<Sum>j<3. 1 + f j)\<bar> < 832"
      unfolding sum3 using d(1) f(1) [of 0] f(1) [of 1] f(1) [of 2] by simp
    ultimately show ?thesis
      unfolding decryption_noise_def by (subst centred_near) simp_all
  qed
  have "indcpa_dec (pack_ciphertext u v) (pack_sk sh) = replicate 32 0xA5"
  proof (rule decryption_correct [OF _ _ _ _ k c])
    show "\<forall>i<3. \<forall>j<3. canonical 4096 (?A ! i ! j) \<and> ?A ! j ! i = ?A ! i ! j"
      by (simp add: canonical_def)
    show "\<forall>k<3. pbound q (?s ! k) \<and> pbound q (?e ! k) \<and> pbound q (?y ! k) \<and> pbound q (?y ! k)"
      by (simp add: pbound_def q_def nth_Cons')
    show "pbound q ?e2"
      by (simp add: pbound_def q_def)
  qed (use noise in simp_all)
  then show ?thesis
    using k c by blast
qed

end
