(* ===== verification/MlkSamplingSpec.thy ===== *)
theory MlkSamplingSpec
  imports MlkKem MlkCodec
begin

text \<open>
  Rejection sampling of ML-KEM computes the sampler of FIPS 203 (\<open>mlkem_native/src/sampling.c\<close> and
  \<open>mlk_gen_matrix\<close> of \<open>indcpa.c\<close>): the code reads three blocks, then one at a time, one stream or
  four side by side; in each case the result is the first 256 accepted values of the whole stream.
\<close>

section \<open>The coefficients in a stream\<close>

fun candidates :: "bytes \<Rightarrow> nat list" where
  "candidates (b0 # b1 # b2 # bs) = (unat b0 + 256 * (unat b1 mod 16)) # (unat b1 div 16 + 16 * unat b2) # candidates bs"
| "candidates bs = []"

definition accepted :: "bytes \<Rightarrow> s16 list" where
  "accepted bs = map of_nat (filter (\<lambda>d. d < 3329) (candidates bs))"

lemma accepted_simps [simp]:
  "accepted (b0 # b1 # b2 # bs) = (if unat b0 + 256 * (unat b1 mod 16) < 3329 then [of_nat (unat b0 + 256 * (unat b1 mod 16))] else []) @
    (if unat b1 div 16 + 16 * unat b2 < 3329 then [of_nat (unat b1 div 16 + 16 * unat b2)] else []) @ accepted bs"
  by (simp add: accepted_def)

lemma accepted_short: "length bs < 3 \<Longrightarrow> accepted bs = []"
  by (cases bs rule: candidates.cases) (simp_all add: accepted_def)

lemma accepted_split: "3 dvd length bs \<Longrightarrow> accepted (bs @ cs) = accepted bs @ accepted cs"
proof (induction bs rule: candidates.induct)
  case (1 b0 b1 b2 bs)
  then have "3 dvd length bs"
    by (simp, presburger)
  with 1 show ?case
    by simp
next
  case "2_1"
  then show ?case
    by (simp add: accepted_short)
qed (auto dest: dvd_imp_le)

lemma sint_of_nat: "d < 2 ^ 15 \<Longrightarrow> sint (of_nat d :: s16) = int d"
  using sint16 [of "int d"] by simp

lemma accepted_bounds: "x \<in> set (accepted bs) \<Longrightarrow> 0 \<le> sint x \<and> sint x < 3329"
proof -
  assume "x \<in> set (accepted bs)"
  then obtain d :: nat where d: "x = of_nat d" "d < 3329"
    by (auto simp: accepted_def)
  have "sint (of_nat d :: s16) = int d"
    using d(2) by (intro sint_of_nat)  simp
  then show ?thesis
    using d by simp
qed

lemma value_words:
  fixes b0 b1 b2 :: byte
  shows "(ucast ((drop_bit 0 (ucast b0 :: s32) OR push_bit 8 (ucast b1)) AND 0xFFF) :: s16) = of_nat (unat b0 + 256 * (unat b1 mod 16))"
    and "(ucast ((drop_bit 4 (ucast b1 :: s32) OR push_bit 4 (ucast b2)) AND 0xFFF) :: s16) = of_nat (unat b1 div 16 + 16 * unat b2)"
proof -
  have low: "unat b1 mod 16 = unat (take_bit 4 b1)" and high: "unat b1 div 16 = unat (drop_bit 4 b1)"
    unfolding unsigned_take_bit_eq unsigned_drop_bit_eq by (simp_all add: take_bit_eq_mod drop_bit_eq_div take_bit_nat_eq_self [OF unsigned_less [THEN le_less_trans [OF div_le_dividend]]])
  have "of_nat (unat b0 + 256 * (unat b1 mod 16)) = (ucast b0 :: s16) + push_bit 8 (ucast (take_bit 4 b1))"
    unfolding low by (simp add: push_bit_eq_mult)
  also have "\<dots> = ucast b0 OR push_bit 8 (ucast (take_bit 4 b1))"
    by (rule disjunctive_add) (auto simp: bit_simps dest: byte_less)
  also have "\<dots> = ucast ((drop_bit 0 (ucast b0 :: s32) OR push_bit 8 (ucast b1)) AND 0xFFF)"
    by (rule bit_word_eqI) (auto simp: word_bits dest: byte_less)
  finally show "(ucast ((drop_bit 0 (ucast b0 :: s32) OR push_bit 8 (ucast b1)) AND 0xFFF) :: s16) = of_nat (unat b0 + 256 * (unat b1 mod 16))" ..
  have "of_nat (unat b1 div 16 + 16 * unat b2) = (ucast (drop_bit 4 b1) :: s16) + push_bit 4 (ucast b2)"
    unfolding high by (simp add: push_bit_eq_mult)
  also have "\<dots> = ucast (drop_bit 4 b1) OR push_bit 4 (ucast b2)"
    by (rule disjunctive_add) (auto simp: bit_simps dest: byte_less)
  also have "\<dots> = ucast ((drop_bit 4 (ucast b1 :: s32) OR push_bit 4 (ucast b2)) AND 0xFFF)"
    by (rule bit_word_eqI) (auto simp: word_bits dest: byte_less)
  finally show "(ucast ((drop_bit 4 (ucast b1 :: s32) OR push_bit 4 (ucast b2)) AND 0xFFF) :: s16) = of_nat (unat b1 div 16 + 16 * unat b2)" ..
qed

lemma value_tests:
  fixes b0 b1 b2 :: byte
  shows "sint (of_nat (unat b0 + 256 * (unat b1 mod 16)) :: s16) < sint (MLKEM_Q :: s32) \<longleftrightarrow> unat b0 + 256 * (unat b1 mod 16) < 3329"
    and "sint (of_nat (unat b1 div 16 + 16 * unat b2) :: s16) < sint (MLKEM_Q :: s32) \<longleftrightarrow> unat b1 div 16 + 16 * unat b2 < 3329"
proof -
  have b: "unat b < 256" for b :: byte
    using unsigned_less [of b, where ?'a = nat] by simp
  have q: "sint (MLKEM_Q :: s32) = int 3329"
    by (simp add: MLKEM_Q_def)
  have "x + 256 * (y mod 16) < 32768" "y div 16 + 16 * z < 32768" if "x < 256" "y < 256" "z < 256" for x y z :: nat
    using that mod_less_divisor [of 16 y] div_le_dividend [of y 16] by linarith+
  from this [OF b b b] have "unat b0 + 256 * (unat b1 mod 16) < 2 ^ 15" "unat b1 div 16 + 16 * unat b2 < 2 ^ 15"
    by simp_all
  then show "sint (of_nat (unat b0 + 256 * (unat b1 mod 16)) :: s16) < sint (MLKEM_Q :: s32) \<longleftrightarrow> unat b0 + 256 * (unat b1 mod 16) < 3329"
    "sint (of_nat (unat b1 div 16 + 16 * unat b2) :: s16) < sint (MLKEM_Q :: s32) \<longleftrightarrow> unat b1 div 16 + 16 * unat b2 < 3329"
    unfolding q by (simp_all only: sint_of_nat of_nat_less_iff)
qed

lemma rej_uniform_loop_ok:
  "length r \<le> t \<Longrightarrow> n \<le> length buf \<Longrightarrow> rej_uniform_loop t buf n pos r = take t (r @ accepted (drop pos (take n buf)))"
proof (induction "n - pos" arbitrary: pos r rule: less_induct)
  case less
  show ?case
  proof (cases "length r < t \<and> pos + 3 \<le> n")
    case False
    then have "length r = t \<or> length (drop pos (take n buf)) < 3"
      using less.prems by auto
    then show ?thesis
      using False less.prems(1) by (subst rej_uniform_loop.simps) (auto simp: accepted_short)
  next
    case True
    let ?d0 = "unat (buf ! pos) + 256 * (unat (buf ! (pos + 1)) mod 16)" and ?d1 = "unat (buf ! (pos + 1)) div 16 + 16 * unat (buf ! (pos + 2))"
    define r0 where "r0 = (if ?d0 < 3329 then r @ [of_nat ?d0] else r)"
    define r1 where "r1 = (if length r0 < t \<and> ?d1 < 3329 then r0 @ [of_nat ?d1] else r0)"
    have split: "drop pos (take n buf) = buf ! pos # buf ! (pos + 1) # buf ! (pos + 2) # drop (pos + 3) (take n buf)"
    proof -
      have "pos < length (take n buf)" "pos + 1 < length (take n buf)" "pos + 2 < length (take n buf)"
        using True less.prems(2) by simp_all
      then show ?thesis
        using Cons_nth_drop_Suc [of pos "take n buf"] Cons_nth_drop_Suc [of "pos + 1" "take n buf"] Cons_nth_drop_Suc [of "pos + 2" "take n buf"]
        by (simp add: numeral_3_eq_3)
    qed
    have "rej_uniform_loop t buf n pos r = rej_uniform_loop t buf n (pos + 3) r1"
      by (subst rej_uniform_loop.simps) (simp only: True if_True simp_thms Let_def value_words value_tests r0_def r1_def)
    also have "\<dots> = take t (r1 @ accepted (drop (pos + 3) (take n buf)))"
      using True less.prems by (intro less.hyps) (auto simp: r0_def r1_def)
    also have "\<dots> = take t (r @ accepted (drop pos (take n buf)))"
      unfolding split r0_def r1_def using True by auto
    finally show ?thesis .
  qed
qed

section \<open>Blocks of the stream\<close>

definition blocks_of :: "nat \<Rightarrow> u64 list \<Rightarrow> bytes" where
  "blocks_of k st = fst (shake128_squeezeblocks k st)"

definition state_after :: "nat \<Rightarrow> u64 list \<Rightarrow> u64 list" where
  "state_after k st = snd (shake128_squeezeblocks k st)"

lemma length_blocks_of: "length (blocks_of k st) = 168 * k"
  unfolding blocks_of_def shake128_squeezeblocks_def
  by (induction k arbitrary: st) (simp_all add: Let_def case_prod_beta keccakf1600_extract_bytes_def SHAKE128_RATE_def)

lemma blocks_of_add: "blocks_of (m + n) st = blocks_of m st @ blocks_of n (state_after m st) \<and> state_after (m + n) st = state_after n (state_after m st)"
  unfolding blocks_of_def state_after_def shake128_squeezeblocks_def
  by (induction m arbitrary: st) (simp_all add: Let_def case_prod_beta)

lemma accepted_blocks: "accepted (blocks_of m st @ bs) = accepted (blocks_of m st) @ accepted bs"
  by (rule accepted_split) (simp add: length_blocks_of)

lemma accepted_blocks_mono: "m \<le> n \<Longrightarrow> \<exists>bs. accepted (blocks_of n st) = accepted (blocks_of m st) @ bs"
  using blocks_of_add [of m "n - m" st] by (auto simp: accepted_blocks)

text \<open>The first 256 accepted candidates are the same for every prefix of the stream that holds them.\<close>

lemma rej_uniform_ok: "length r \<le> 256 \<Longrightarrow> rej_uniform r MLKEM_N (blocks_of k st) (168 * k) = take 256 (r @ accepted (blocks_of k st))"
  using rej_uniform_loop_ok [of r 256 "168 * k" "blocks_of k st" 0] by (simp add: rej_uniform_def MLKEM_N_def length_blocks_of)

text \<open>What one more block adds to a partial result.\<close>

lemma take_accepted: "take 256 (take 256 (r @ accepted (blocks_of m st)) @ accepted (blocks_of n (state_after m st))) = take 256 (r @ accepted (blocks_of (m + n) st))"
  unfolding conjunct1 [OF blocks_of_add] accepted_blocks by (cases "256 \<le> length (r @ accepted (blocks_of m st))") (simp_all add: min_def)

lemma rej_more_returns:
  "length r \<le> 256 \<Longrightarrow> 256 \<le> length (r @ accepted (blocks_of k st)) \<Longrightarrow> rej_more r st = Some (take 256 (r @ accepted (blocks_of k st)))"
proof (induction k arbitrary: r st)
  case 0
  then show ?case
    by (subst rej_more.simps) (simp add: MLKEM_N_def blocks_of_def shake128_squeezeblocks_def accepted_short)
next
  case (Suc k)
  show ?case
  proof (cases "length r < 256")
    case True
    let ?r = "take 256 (r @ accepted (blocks_of 1 st))" and ?s = "state_after 1 st"
    have "rej_more r st = rej_more ?r ?s"
      using True rej_uniform_ok [of r 1 st] by (subst rej_more.simps) (simp add: MLKEM_N_def XOF_RATE_def SHAKE128_RATE_def case_prod_beta blocks_of_def state_after_def)
    also have "\<dots> = Some (take 256 (?r @ accepted (blocks_of k ?s)))"
      using Suc.prems conjunct1 [OF blocks_of_add, of 1 k st] by (intro Suc.IH) (auto simp: accepted_blocks)
    finally show ?thesis
      using take_accepted [of r 1 st k] by simp
  qed (use Suc.prems in \<open>subst rej_more.simps, simp add: MLKEM_N_def\<close>)
qed

lemma rej_more_enough:
  assumes "rej_more r st = Some p"
  shows "length r \<le> 256 \<longrightarrow> (\<exists>k. 256 \<le> length (r @ accepted (blocks_of k st)))"
proof (rule rej_more.raw_induct [where P = "\<lambda>r st p. length r \<le> 256 \<longrightarrow> (\<exists>k. 256 \<le> length (r @ accepted (blocks_of k st)))", OF _ assms], intro impI)
  fix f r st p
  assume IH: "\<And>r st p. f r st = Some p \<Longrightarrow> length r \<le> 256 \<longrightarrow> (\<exists>k. 256 \<le> length (r @ accepted (blocks_of k st)))"
    and body: "(if length r < MLKEM_N then let (buf, st) = shake128_squeezeblocks 1 st in f (rej_uniform r MLKEM_N buf XOF_RATE) st else Some r) = Some p"
    and r: "length r \<le> 256"
  show "\<exists>k. 256 \<le> length (r @ accepted (blocks_of k st))"
  proof (cases "length r < 256")
    case True
    let ?r = "take 256 (r @ accepted (blocks_of 1 st))"
    have "f ?r (state_after 1 st) = Some p"
      using body True rej_uniform_ok [of r 1 st] by (simp add: MLKEM_N_def XOF_RATE_def SHAKE128_RATE_def case_prod_beta blocks_of_def state_after_def)
    then obtain k where "256 \<le> length (?r @ accepted (blocks_of k (state_after 1 st)))"
      using IH [of ?r] by fastforce
    then show ?thesis
      using conjunct1 [OF blocks_of_add, of 1 k st] by (intro exI [of _ "1 + k"]) (auto simp: accepted_blocks)
  qed auto
qed

text \<open>The first 256 accepted candidates of a stream.\<close>

definition sampled :: "u64 list \<Rightarrow> poly \<Rightarrow> bool" where
  "sampled st p \<longleftrightarrow> (\<exists>k. 256 \<le> length (accepted (blocks_of k st)) \<and> p = take 256 (accepted (blocks_of k st)))"

lemma take_accepted_mono: "256 \<le> length (accepted (blocks_of m st)) \<Longrightarrow> m \<le> n \<Longrightarrow>
  256 \<le> length (accepted (blocks_of n st)) \<and> take 256 (accepted (blocks_of n st)) = take 256 (accepted (blocks_of m st))"
  using accepted_blocks_mono [of m n st] by auto

lemma sampled_canonical: "sampled st p \<Longrightarrow> canonical 3329 p"
proof -
  assume "sampled st p"
  then obtain k where k: "256 \<le> length (accepted (blocks_of k st))" "p = take 256 (accepted (blocks_of k st))"
    by (auto simp: sampled_def)
  then have "p ! i \<in> set (accepted (blocks_of k st))" if "i < 256" for i
    using that by simp
  then have "0 \<le> sint (p ! i) \<and> sint (p ! i) < 3329" if "i < 256" for i
    using that accepted_bounds by blast
  then show ?thesis
    using k unfolding canonical_def by simp
qed

text \<open>The code reads three blocks and then one at a time.\<close>

lemma rej_sampled: "rej_more (take 256 (accepted (blocks_of 3 st))) (state_after 3 st) = Some p \<longleftrightarrow> sampled st p"
proof
  let ?r = "take 256 (accepted (blocks_of 3 st))"
  have take: "take 256 (?r @ accepted (blocks_of k (state_after 3 st))) = take 256 (accepted (blocks_of (3 + k) st))" for k
    using take_accepted [of "[]" 3 st k] by simp
  have enough: "256 \<le> length (?r @ accepted (blocks_of k (state_after 3 st))) \<longleftrightarrow> 256 \<le> length (accepted (blocks_of (3 + k) st))" for k
    unfolding conjunct1 [OF blocks_of_add] accepted_blocks by auto
  have returns: "rej_more ?r (state_after 3 st) = Some (take 256 (accepted (blocks_of (3 + k) st)))" if "256 \<le> length (accepted (blocks_of (3 + k) st))" for k
    using rej_more_returns [of ?r k "state_after 3 st"] that unfolding enough take by simp
  show "sampled st p" if p: "rej_more ?r (state_after 3 st) = Some p"
  proof -
    obtain k where "256 \<le> length (accepted (blocks_of (3 + k) st))"
      using rej_more_enough [OF p] unfolding enough by auto
    moreover from this have "p = take 256 (accepted (blocks_of (3 + k) st))"
      using p returns [of k] by simp
    ultimately show ?thesis
      unfolding sampled_def by blast
  qed
  show "rej_more ?r (state_after 3 st) = Some p" if p: "sampled st p"
  proof -
    obtain k where k: "256 \<le> length (accepted (blocks_of k st))" "p = take 256 (accepted (blocks_of k st))"
      using p by (auto simp: sampled_def)
    show ?thesis
      using take_accepted_mono [OF k(1), of "3 + k"] returns [of k] k(2) by simp
  qed
qed

definition xof :: "bytes \<Rightarrow> u64 list" where
  "xof seed = shake128_absorb_once (take 34 seed)"

lemma nblocks: "MLKEM_GEN_MATRIX_NBLOCKS = 3"
  by (simp add: MLKEM_GEN_MATRIX_NBLOCKS_def MLKEM_N_def XOF_RATE_def SHAKE128_RATE_def)

lemma poly_rej_uniform_ok: "poly_rej_uniform seed = Some p \<longleftrightarrow> sampled (xof seed) p"
proof -
  have "poly_rej_uniform seed = rej_more (rej_uniform [] MLKEM_N (blocks_of 3 (xof seed)) (168 * 3)) (state_after 3 (xof seed))"
    by (simp add: poly_rej_uniform_def nblocks XOF_RATE_def SHAKE128_RATE_def MLKEM_SYMBYTES_def xof_def blocks_of_def state_after_def case_prod_beta Let_def)
  also have "\<dots> = rej_more (take 256 (accepted (blocks_of 3 (xof seed)))) (state_after 3 (xof seed))"
    using rej_uniform_ok [of "[]" 3 "xof seed"] by simp
  finally show ?thesis
    by (simp only: rej_sampled)
qed

section \<open>Four streams\<close>

lemma squeeze_x4: "\<forall>j<4. length (st j) = 25 \<Longrightarrow>
  shake128x4_squeezeblocks k (four st) = (map (\<lambda>j. blocks_of k (st j)) [0..<4], four (\<lambda>j. state_after k (st j)))"
  by (simp add: shake128x4_squeezeblocks_def squeezeblocks_four blocks_of_def state_after_def shake128_squeezeblocks_def)

lemma length_state_after: "length st = 25 \<Longrightarrow> length (state_after k st) = 25"
  by (simp add: state_after_def shake128_squeezeblocks_def length_squeezeblocks_state)

text \<open>One round of the loop on the array of four states.\<close>

lemma round_x4:
  assumes "\<forall>j<4. length (st j) = 25 \<and> length (R j) \<le> 256"
  shows "(let (buf, statex) = shake128x4_squeezeblocks 1 (four st) in f (map (\<lambda>k. rej_uniform (map R [0..<4] ! k) MLKEM_N (buf ! k) XOF_RATE) [0..<4]) statex) =
    f (map (\<lambda>j. take 256 (R j @ accepted (blocks_of 1 (st j)))) [0..<4]) (four (\<lambda>j. state_after 1 (st j)))"
proof -
  have "map (\<lambda>k. rej_uniform (map R [0..<4] ! k) MLKEM_N (map (\<lambda>j. blocks_of 1 (st j)) [0..<4] ! k) XOF_RATE) [0..<4] = map (\<lambda>j. take 256 (R j @ accepted (blocks_of 1 (st j)))) [0..<4]"
    using assms rej_uniform_ok [of _ 1] by (intro map_upt4) (simp add: XOF_RATE_def SHAKE128_RATE_def)
  moreover have "\<forall>j<4. length (st j) = 25"
    using assms by blast
  ultimately show ?thesis
    by (simp only: squeeze_x4 Let_def case_prod_conv)
qed

lemma four_all: "(\<forall>j<4. P j) \<longleftrightarrow> P 0 \<and> P 1 \<and> P 2 \<and> P (3 :: nat)"
proof -
  have "j < 4 \<longleftrightarrow> j = 0 \<or> j = 1 \<or> j = 2 \<or> j = 3" for j :: nat
    by linarith
  then show ?thesis
    by auto
qed

lemma full_x4: "(length (map R [0..<4] ! 0) < n \<or> length (map R [0..<4] ! 1) < n \<or> length (map R [0..<4] ! 2) < n \<or> length (map R [0..<4] ! 3) < n) \<longleftrightarrow>
  \<not> (\<forall>j<4. n \<le> length (R j))"
proof -
  have "map R [0..<4] ! 0 = R 0" "map R [0..<4] ! 1 = R 1" "map R [0..<4] ! 2 = R 2" "map R [0..<4] ! 3 = R 3"
    by (simp_all add: numeral_2_eq_2)
  then show ?thesis
    unfolding four_all by (simp only: not_le [symmetric] de_Morgan_conj not_not)
qed

lemma rej_more_x4_returns:
  "\<forall>j<4. length (st j) = 25 \<and> length (R j) \<le> 256 \<and> 256 \<le> length (R j @ accepted (blocks_of k (st j))) \<Longrightarrow>
   rej_more_x4 (map R [0..<4]) (four st) = Some (map (\<lambda>j. take 256 (R j @ accepted (blocks_of k (st j)))) [0..<4])"
proof (induction k arbitrary: R st)
  case 0
  then have full: "\<forall>j<4. 256 \<le> length (R j)"
    by (simp add: blocks_of_def shake128_squeezeblocks_def accepted_short)
  have "map (\<lambda>j. take 256 (R j @ accepted (blocks_of 0 (st j)))) [0..<4] = map R [0..<4]"
    using 0 full by (intro map_upt4) simp
  then show ?case
    using full by (subst rej_more_x4.simps, unfold full_x4 MLKEM_N_def) argo
next
  case (Suc k)
  show ?case
  proof (cases "\<forall>j<4. 256 \<le> length (R j)")
    case True
    then have "map (\<lambda>j. take 256 (R j @ accepted (blocks_of (Suc k) (st j)))) [0..<4] = map R [0..<4]"
      using Suc.prems by (intro map_upt4) simp
    then show ?thesis
      using True by (subst rej_more_x4.simps, unfold full_x4 MLKEM_N_def) argo
  next
    case False
    let ?R = "\<lambda>j. take 256 (R j @ accepted (blocks_of 1 (st j)))" and ?s = "\<lambda>j. state_after 1 (st j)"
    have "rej_more_x4 (map R [0..<4]) (four st) = rej_more_x4 (map ?R [0..<4]) (four ?s)"
    proof (subst rej_more_x4.simps, subst if_P)
      show "length (map R [0..<4] ! 0) < MLKEM_N \<or> length (map R [0..<4] ! 1) < MLKEM_N \<or> length (map R [0..<4] ! 2) < MLKEM_N \<or> length (map R [0..<4] ! 3) < MLKEM_N"
        unfolding full_x4 MLKEM_N_def by (rule False)
    qed (rule round_x4, use Suc.prems in blast)
    also have "\<dots> = Some (map (\<lambda>j. take 256 (?R j @ accepted (blocks_of k (?s j)))) [0..<4])"
      using Suc.prems conjunct1 [OF blocks_of_add, of 1 k] by (intro Suc.IH) (auto simp: accepted_blocks length_state_after)
    finally show ?thesis
      using take_accepted [of _ 1 _ k] by simp
  qed
qed

lemma rej_more_x4_enough:
  assumes "rej_more_x4 (map R [0..<4]) (four st) = Some ps" and "\<forall>j<4. length (st j) = 25 \<and> length (R j) \<le> 256"
  shows "\<exists>k. \<forall>j<4. 256 \<le> length (R j @ accepted (blocks_of k (st j)))"
proof -
  define P where "P rs statex \<longleftrightarrow> (\<forall>R st. rs = map R [0..<4] \<longrightarrow> statex = four st \<longrightarrow> (\<forall>j<4. length (st j) = 25 \<and> length (R j) \<le> 256) \<longrightarrow>
    (\<exists>k. \<forall>j<4. 256 \<le> length (R j @ accepted (blocks_of k (st j)))))" for rs :: "s16 list list" and statex
  have "P (map R [0..<4]) (four st)"
  proof (rule rej_more_x4.raw_induct [where P = "\<lambda>rs statex ps. P rs statex", OF _ assms(1)])
    fix f rs statex ps
    assume IH: "\<And>rs statex ps. f rs statex = Some ps \<Longrightarrow> P rs statex"
      and body: "(if length (rs ! 0) < MLKEM_N \<or> length (rs ! 1) < MLKEM_N \<or> length (rs ! 2) < MLKEM_N \<or> length (rs ! 3) < MLKEM_N
        then let (buf, statex) = shake128x4_squeezeblocks 1 statex in f (map (\<lambda>k. rej_uniform (rs ! k) MLKEM_N (buf ! k) XOF_RATE) [0..<4]) statex else Some rs) = Some ps"
    show "P rs statex"
      unfolding P_def
    proof (intro allI impI)
      fix R st
      assume rs: "rs = map R [0..<4]" "statex = four st" and ok: "\<forall>j<4. length (st j) = 25 \<and> length (R j) \<le> 256"
      let ?R = "\<lambda>j. take 256 (R j @ accepted (blocks_of 1 (st j)))" and ?s = "\<lambda>j. state_after 1 (st j)"
      show "\<exists>k. \<forall>j<4. 256 \<le> length (R j @ accepted (blocks_of k (st j)))"
      proof (cases "\<forall>j<4. 256 \<le> length (R j)")
        case False
        have "f (map ?R [0..<4]) (four ?s) = Some ps"
          using body False unfolding rs full_x4 round_x4 [OF ok] by (simp add: MLKEM_N_def)
        then have "P (map ?R [0..<4]) (four ?s)"
          by (rule IH)
        then obtain k where "\<forall>j<4. 256 \<le> length (?R j @ accepted (blocks_of k (?s j)))"
          unfolding P_def using ok by (metis (no_types, lifting) length_state_after length_take min.cobounded2)
        then show ?thesis
          using conjunct1 [OF blocks_of_add, of 1 k] by (intro exI [of _ "1 + k"]) (auto simp: accepted_blocks)
      next
        case True
        then show ?thesis
          by (intro exI [of _ 0]) (simp add: trans_le_add1)
      qed
    qed
  qed
  then show ?thesis
    unfolding P_def using assms(2) by blast
qed

lemma poly_rej_uniform_x4_ok:
  assumes len: "\<forall>j<4. 34 \<le> length (seed j)"
  shows "poly_rej_uniform_x4 (map seed [0..<4]) = Some ps \<longleftrightarrow> (\<exists>f. ps = map f [0..<4] \<and> (\<forall>j<4. poly_rej_uniform (seed j) = Some (f j)))"
proof -
  let ?st = "\<lambda>j. xof (seed j)"
  let ?R = "\<lambda>j. take 256 (accepted (blocks_of 3 (?st j)))" and ?s = "\<lambda>j. state_after 3 (?st j)"
  have st: "\<forall>j<4. length (?st j) = 25"
    by (simp add: xof_def shake128_absorb_once_def length_absorb_once)
  have seed34: "MLKEM_SYMBYTES + 2 = 34"
    by (simp add: MLKEM_SYMBYTES_def)
  have abs: "shake128x4_absorb_once (map (take 34) (map seed [0..<4])) 34 = four ?st"
    using absorb_once_four [of "\<lambda>j. take 34 (seed j)" 34 SHAKE128_RATE "0x1F"] len
    by (simp add: shake128x4_absorb_once_def xof_def shake128_absorb_once_def comp_def)
  have "map (\<lambda>k. rej_uniform [] MLKEM_N (map (\<lambda>j. blocks_of 3 (?st j)) [0..<4] ! k) (3 * XOF_RATE)) [0..<4] = map ?R [0..<4]"
    using rej_uniform_ok [of "[]" 3] by (intro map_upt4) (simp add: XOF_RATE_def SHAKE128_RATE_def)
  then have code: "poly_rej_uniform_x4 (map seed [0..<4]) = rej_more_x4 (map ?R [0..<4]) (four ?s)"
    using abs squeeze_x4 [OF st, of 3] by (simp only: poly_rej_uniform_x4_def nblocks seed34 Let_def case_prod_conv)
  have single: "poly_rej_uniform (seed j) = rej_more (?R j) (?s j)" for j
    using poly_rej_uniform_ok [of "seed j"] rej_sampled [of "?st j"] by (metis not_Some_eq)
  have ok: "\<forall>j<4. length (?s j) = 25 \<and> length (?R j) \<le> 256"
    using st by (simp add: length_state_after)
  show ?thesis
    unfolding code single
  proof
    assume ps: "rej_more_x4 (map ?R [0..<4]) (four ?s) = Some ps"
    then obtain k where k: "\<forall>j<4. 256 \<le> length (?R j @ accepted (blocks_of k (?s j)))"
      using rej_more_x4_enough ok by blast
    let ?f = "\<lambda>j. take 256 (?R j @ accepted (blocks_of k (?s j)))"
    have "ps = map ?f [0..<4]"
      using rej_more_x4_returns [of ?s ?R k] k ok ps by simp
    moreover have "\<forall>j<4. rej_more (?R j) (?s j) = Some (?f j)"
      using rej_more_returns k ok by blast
    ultimately show "\<exists>f. ps = map f [0..<4] \<and> (\<forall>j<4. rej_more (?R j) (?s j) = Some (f j))"
      by blast
  next
    assume "\<exists>f. ps = map f [0..<4] \<and> (\<forall>j<4. rej_more (?R j) (?s j) = Some (f j))"
    then obtain f where f: "ps = map f [0..<4]" "\<forall>j<4. rej_more (?R j) (?s j) = Some (f j)"
      by blast
    have "\<forall>j. \<exists>k. j < 4 \<longrightarrow> 256 \<le> length (?R j @ accepted (blocks_of k (?s j)))"
      using rej_more_enough f(2) ok by blast
    then obtain K where K: "\<And>j. j < 4 \<Longrightarrow> 256 \<le> length (?R j @ accepted (blocks_of (K j) (?s j)))"
      by metis
    define k where "k = Max (K ` {..<4})"
    have "256 \<le> length (?R j @ accepted (blocks_of k (?s j)))" if j: "j < 4" for j
    proof -
      have "K j \<le> k"
        unfolding k_def using j by (intro Max_ge) simp_all
      from accepted_blocks_mono [OF this, of "?s j"] show ?thesis
        using K [OF j] by auto
    qed
    then have k: "\<forall>j<4. 256 \<le> length (?R j @ accepted (blocks_of k (?s j)))"
      by blast
    have "f j = take 256 (?R j @ accepted (blocks_of k (?s j)))" if "j < 4" for j
      using rej_more_returns [of "?R j" k "?s j"] k ok f(2) that by simp
    then have "ps = map (\<lambda>j. take 256 (?R j @ accepted (blocks_of k (?s j)))) [0..<4]"
      unfolding f(1) by (intro map_upt4) simp
    then show "rej_more_x4 (map ?R [0..<4]) (four ?s) = Some ps"
      using rej_more_x4_returns [of ?s ?R k] k ok by simp
  qed
qed

section \<open>The matrix\<close>

text \<open>The transpose of a matrix of polynomials, and the matrix of the sampled entries.\<close>

definition transposed_matrix :: "polyvec list \<Rightarrow> polyvec list" where
  "transposed_matrix a = map (\<lambda>i. map (\<lambda>j. a ! j ! i) [0..<3]) [0..<3]"

lemma gen_quads_ok: "\<forall>i<8. 34 \<le> length (seeds i) \<Longrightarrow>
  gen_quads seeds [0, 4] = Some es \<longleftrightarrow> (\<exists>f. es = map f [0..<8] \<and> (\<forall>i<8. poly_rej_uniform (seeds i) = Some (f i)))"
proof -
  assume len: "\<forall>i<8. 34 \<le> length (seeds i)"
  have x4: "poly_rej_uniform_x4 (map (\<lambda>j. seeds (b + j)) [0..<4]) = Some ps \<longleftrightarrow> (\<exists>f. ps = map f [0..<4] \<and> (\<forall>j<4. poly_rej_uniform (seeds (b + j)) = Some (f j)))" if "b \<le> 4" for b ps
    using len that by (intro poly_rej_uniform_x4_ok) simp
  have eight: "[0..<8] = [0, 1, 2, 3, 4, 5, 6, 7 :: nat]"
    by (simp add: upt_rec)
  have all8: "(\<forall>i<8. P i) \<longleftrightarrow> (\<forall>i<4. P i) \<and> (\<forall>i<4. P (4 + i))" for P :: "nat \<Rightarrow> bool"
  proof -
    have "i < 8 \<longleftrightarrow> i < 4 \<or> (\<exists>j<4. i = 4 + j)" for i :: nat
      by presburger
    then show ?thesis
      by blast
  qed
  show ?thesis
  proof
    assume "gen_quads seeds [0, 4] = Some es"
    then obtain ps qs where ps: "poly_rej_uniform_x4 (map (\<lambda>j. seeds (0 + j)) [0..<4]) = Some ps" and qs: "poly_rej_uniform_x4 (map (\<lambda>j. seeds (4 + j)) [0..<4]) = Some qs"
      and app: "es = ps @ qs"
      by (auto simp: bind_eq_Some_conv)
    obtain f where f: "ps = map f [0..<4]" "\<forall>j<4. poly_rej_uniform (seeds (0 + j)) = Some (f j)"
      using iffD1 [OF x4 ps] by auto
    obtain g where g: "qs = map g [0..<4]" "\<forall>j<4. poly_rej_uniform (seeds (4 + j)) = Some (g j)"
      using iffD1 [OF x4 qs] by auto
    show "\<exists>f. es = map f [0..<8] \<and> (\<forall>i<8. poly_rej_uniform (seeds i) = Some (f i))"
      using f g app unfolding all8 by (intro exI [of _ "\<lambda>i. if i < 4 then f i else g (i - 4)"]) (simp add: eight four_upt)
  next
    assume "\<exists>f. es = map f [0..<8] \<and> (\<forall>i<8. poly_rej_uniform (seeds i) = Some (f i))"
    then obtain f where f: "es = map f [0..<8]" "\<forall>j<4. poly_rej_uniform (seeds (0 + j)) = Some (f j)" "\<forall>j<4. poly_rej_uniform (seeds (4 + j)) = Some (f (4 + j))"
      unfolding all8 by auto
    have "poly_rej_uniform_x4 (map (\<lambda>j. seeds (0 + j)) [0..<4]) = Some (map f [0..<4])"
      using x4 [of 0] f(2) by blast
    moreover have "poly_rej_uniform_x4 (map (\<lambda>j. seeds (4 + j)) [0..<4]) = Some (map (\<lambda>j. f (4 + j)) [0..<4])"
      using x4 [of 4] f(3) by blast
    ultimately show "gen_quads seeds [0, 4] = Some es"
      by (simp add: f(1) eight four_upt)
  qed
qed

text \<open>Entry \<open>i\<close> of row \<open>r\<close> and column \<open>c\<close>, and the matrix when every entry has one.\<close>

lemma gen_matrix_iff:
  assumes "32 \<le> length seed"
  shows "gen_matrix seed tr = Some a \<longleftrightarrow>
    (\<exists>f. a = map (\<lambda>r. map (\<lambda>c. f (r * 3 + c)) [0..<3]) [0..<3] \<and> (\<forall>i<9. poly_rej_uniform (seed_ext tr seed i) = Some (f i)))"
proof -
  let ?s = "seed_ext tr seed"
  have len: "\<forall>i<8. 34 \<le> length (?s i)"
    using assms by (simp add: seed_ext_def Let_def MLKEM_SYMBYTES_def)
  have nine: "(\<forall>i<9. P i) \<longleftrightarrow> (\<forall>i<8. P i) \<and> P (8 :: nat)" for P
  proof -
    have "i < 9 \<longleftrightarrow> i < 8 \<or> i = 8" for i :: nat
      by presburger
    then show ?thesis
      by blast
  qed
  have code: "gen_matrix seed tr = do { quads \<leftarrow> gen_quads ?s [0, 4]; e \<leftarrow> poly_rej_uniform (?s 8);
      Some (map (\<lambda>r. map (\<lambda>c. (quads @ [e]) ! (r * 3 + c)) [0..<3]) [0..<3]) }"
    by (simp add: gen_matrix_def MLKEM_K_def Let_def upt_rec)
  have shape: "map (\<lambda>r. map (\<lambda>c. (map f [0..<8] @ [f 8]) ! (r * 3 + c)) [0..<3]) [0..<3] = map (\<lambda>r. map (\<lambda>c. f (r * 3 + c)) [0..<3]) [0..<3 :: nat]" for f :: "nat \<Rightarrow> poly"
  proof -
    have "(map f [0..<8] @ [f 8]) ! i = f i" if "i < 9" for i
      using that by (auto simp: nth_append less_Suc_eq numeral_eq_Suc)
    then show ?thesis
      by (intro map_cong refl) auto
  qed
  show ?thesis
  proof
    assume "gen_matrix seed tr = Some a"
    then obtain es e where es: "gen_quads ?s [0, 4] = Some es" and e: "poly_rej_uniform (?s 8) = Some e"
      and a: "a = map (\<lambda>r. map (\<lambda>c. (es @ [e]) ! (r * 3 + c)) [0..<3]) [0..<3]"
      unfolding code by (auto simp: bind_eq_Some_conv)
    obtain f where f: "es = map f [0..<8]" "\<forall>i<8. poly_rej_uniform (?s i) = Some (f i)"
      using es gen_quads_ok [OF len] by blast
    have m: "map (f(8 := e)) [0..<8] = map f [0..<8]"
      by simp
    show "\<exists>f. a = map (\<lambda>r. map (\<lambda>c. f (r * 3 + c)) [0..<3]) [0..<3] \<and> (\<forall>i<9. poly_rej_uniform (?s i) = Some (f i))"
      using shape [of "f(8 := e)"] f e unfolding a nine m by (intro exI [of _ "f(8 := e)"]) simp
  next
    assume "\<exists>f. a = map (\<lambda>r. map (\<lambda>c. f (r * 3 + c)) [0..<3]) [0..<3] \<and> (\<forall>i<9. poly_rej_uniform (?s i) = Some (f i))"
    then obtain f where f: "a = map (\<lambda>r. map (\<lambda>c. f (r * 3 + c)) [0..<3]) [0..<3]" "\<forall>i<8. poly_rej_uniform (?s i) = Some (f i)" "poly_rej_uniform (?s 8) = Some (f 8)"
      unfolding nine by blast
    have "gen_quads ?s [0, 4] = Some (map f [0..<8])"
      using gen_quads_ok [OF len] f(2) by blast
    then show "gen_matrix seed tr = Some a"
      unfolding code using f(3) by (simp add: shape f(1))
  qed
qed

lemma matrix_rows: "length a = 3 \<and> (\<forall>i<3. length (a ! i) = 3) \<longleftrightarrow> a = map (\<lambda>r. map (\<lambda>c. a ! r ! c) [0..<3]) [0..<3]"
proof
  assume a: "length a = 3 \<and> (\<forall>i<3. length (a ! i) = 3)"
  then show "a = map (\<lambda>r. map (\<lambda>c. a ! r ! c) [0..<3]) [0..<3]"
    by (intro nth_equalityI) (auto intro: nth_equalityI)
next
  assume "a = map (\<lambda>r. map (\<lambda>c. a ! r ! c) [0..<3]) [0..<3]"
  then have a: "a = map (\<lambda>r. f r) [0..<3]" "\<And>r. length (f r) = 3" if "f = (\<lambda>r. map (\<lambda>c. a ! r ! c) [0..<3])" for f
    using that by simp_all
  show "length a = 3 \<and> (\<forall>i<3. length (a ! i) = 3)"
    using a [OF refl] by (metis (no_types, lifting) add_0 diff_zero length_map length_upt nth_map nth_upt)
qed

lemma gen_matrix_entries:
  assumes "32 \<le> length seed"
  shows "gen_matrix seed tr = Some a \<longleftrightarrow> length a = 3 \<and> (\<forall>i<3. length (a ! i) = 3) \<and> (\<forall>i<3. \<forall>j<3. poly_rej_uniform (seed_ext tr seed (i * 3 + j)) = Some (a ! i ! j))"
proof -
  have nine: "(\<forall>i<9. P i) \<longleftrightarrow> (\<forall>i<3. \<forall>j<3. P (i * 3 + j))" for P :: "nat \<Rightarrow> bool"
  proof
    assume "\<forall>i<9. P i"
    then show "\<forall>i<3. \<forall>j<3. P (i * 3 + j)"
      by simp
  next
    assume a: "\<forall>i<3. \<forall>j<3. P (i * 3 + j)"
    show "\<forall>i<9. P i"
    proof (intro allI impI)
      fix i :: nat
      assume "i < 9"
      then have "i div 3 < 3" "i mod 3 < 3"
        by simp_all
      then have "P (i div 3 * 3 + i mod 3)"
        using a by blast
      then show "P i"
        by (simp only: div_mult_mod_eq)
    qed
  qed
  show ?thesis
    unfolding gen_matrix_iff [OF assms] nine
  proof
    assume "\<exists>f. a = map (\<lambda>r. map (\<lambda>c. f (r * 3 + c)) [0..<3]) [0..<3] \<and> (\<forall>i<3. \<forall>j<3. poly_rej_uniform (seed_ext tr seed (i * 3 + j)) = Some (f (i * 3 + j)))"
    then show "length a = 3 \<and> (\<forall>i<3. length (a ! i) = 3) \<and> (\<forall>i<3. \<forall>j<3. poly_rej_uniform (seed_ext tr seed (i * 3 + j)) = Some (a ! i ! j))"
      by auto
  next
    assume a: "length a = 3 \<and> (\<forall>i<3. length (a ! i) = 3) \<and> (\<forall>i<3. \<forall>j<3. poly_rej_uniform (seed_ext tr seed (i * 3 + j)) = Some (a ! i ! j))"
    let ?f = "\<lambda>i. a ! (i div 3) ! (i mod 3)"
    have rows: "a = map (\<lambda>r. map (\<lambda>c. a ! r ! c) [0..<3]) [0..<3]"
      using a iffD1 [OF matrix_rows] by blast
    have "map (\<lambda>r. map (\<lambda>c. ?f (r * 3 + c)) [0..<3]) [0..<3] = map (\<lambda>r. map (\<lambda>c. a ! r ! c) [0..<3]) [0..<3]"
      by (intro map_cong refl) auto
    then have "a = map (\<lambda>r. map (\<lambda>c. ?f (r * 3 + c)) [0..<3]) [0..<3]"
      by (rule trans [OF rows sym])
    then show "\<exists>f. a = map (\<lambda>r. map (\<lambda>c. f (r * 3 + c)) [0..<3]) [0..<3] \<and> (\<forall>i<3. \<forall>j<3. poly_rej_uniform (seed_ext tr seed (i * 3 + j)) = Some (f (i * 3 + j)))"
      using a by (intro exI [of _ ?f]) simp
  qed
qed

lemma seed_ext_entry: "i < 3 \<Longrightarrow> j < 3 \<Longrightarrow> seed_ext tr seed (i * 3 + j) = take 32 seed @ (if tr then [of_nat i, of_nat j] else [of_nat j, of_nat i])"
  by (simp add: seed_ext_def Let_def MLKEM_K_def MLKEM_SYMBYTES_def)

lemma gen_matrix_transposed:
  assumes "32 \<le> length seed"
  shows "gen_matrix seed True = map_option transposed_matrix (gen_matrix seed False)"
proof -
  have entry: "seed_ext True seed (i * 3 + j) = seed_ext False seed (j * 3 + i)" if "i < 3" "j < 3" for i j
    using that by (simp add: seed_ext_entry)
  have half: "gen_matrix seed (\<not> tr) = Some (transposed_matrix a)" if a: "gen_matrix seed tr = Some a" for a tr
    using a entry unfolding gen_matrix_entries [OF assms] by (cases tr) (auto simp: transposed_matrix_def)
  show ?thesis
  proof (cases "gen_matrix seed False")
    case None
    then show ?thesis
      using half [of True] by (cases "gen_matrix seed True") simp_all
  next
    case (Some a)
    then show ?thesis
      using half [of False] by simp
  qed
qed

lemma matrix_canonical: "32 \<le> length seed \<Longrightarrow> gen_matrix seed tr = Some a \<Longrightarrow> i < 3 \<Longrightarrow> j < 3 \<Longrightarrow> canonical 3329 (a ! i ! j)"
  unfolding gen_matrix_entries poly_rej_uniform_ok using sampled_canonical by blast

text \<open>
  C38: the matrix of ML-KEM: entry \<open>(i, j)\<close> that \<open>mlk_gen_matrix\<close> returns consists of the first 256
  values below 3329 among the 12-bit values of the stream SHAKE128 of the seed, \<open>j\<close> and \<open>i\<close>, the
  function returns exactly when each of the nine streams holds enough, four streams at a time or
  one, and the transposed matrix of the encryption is the transpose of the matrix of the key.
\<close>

theorem matrix_sampled:
  assumes "32 \<le> length seed"
  shows "gen_matrix seed True = map_option transposed_matrix (gen_matrix seed False) \<and>
    (gen_matrix seed False = Some a \<longleftrightarrow> length a = 3 \<and> (\<forall>i<3. length (a ! i) = 3) \<and>
      (\<forall>i<3. \<forall>j<3. sampled (shake128_absorb_once (take 32 seed @ [of_nat j, of_nat i])) (a ! i ! j)))"
proof -
  have "xof (seed_ext False seed (i * 3 + j)) = shake128_absorb_once (take 32 seed @ [of_nat j, of_nat i])" if "i < 3" "j < 3" for i j
    using that by (simp add: seed_ext_entry xof_def)
  then show ?thesis
    using gen_matrix_transposed [OF assms] unfolding gen_matrix_entries [OF assms] poly_rej_uniform_ok by auto
qed

lemma matrix_sampled_witness:
  "gen_matrix (replicate 32 0xC3) True = map_option transposed_matrix (gen_matrix (replicate 32 0xC3) False)"
  using matrix_sampled [of "replicate 32 0xC3"] by simp

end
