(* ===== verification/MlkKemSpec.thy ===== *)
theory MlkKemSpec
  imports MlkDecrypt MlkSamplingSpec
begin

text \<open>
  The key encapsulation of ML-KEM-768 (\<open>mlkem_native/src/kem.c\<close>): decapsulation with implicit
  rejection, the check of a public key, and the agreement of the two sides of an exchange.
\<close>

section \<open>Comparison and selection\<close>

lemma nonzero_mask_u8: "ct_cmask_nonzero_u8 x = (if x = 0 then 0 else - 1)"
  using sel_uint8 [of "- 1" 0 x] by (simp add: ct_sel_uint8_def)

lemma memcmp_fold:
  "fold (\<lambda>i (r, s). (r OR (a ! i XOR b ! i), s XOR (a ! i XOR b ! i))) xs (r, s) = (r', s') \<Longrightarrow> r' = 0 \<longleftrightarrow> r = 0 \<and> (\<forall>i\<in>set xs. a ! i = (b ! i :: byte))"
proof (induction xs arbitrary: r s)
  case (Cons x xs)
  have "r OR (a ! x XOR b ! x) = 0 \<longleftrightarrow> r = 0 \<and> a ! x = b ! x"
    by (auto simp: bit_eq_iff bit_or_iff bit_xor_iff)
  then show ?case
    using Cons by auto
qed simp

lemma ct_memcmp_ok: "n \<le> length a \<Longrightarrow> n \<le> length b \<Longrightarrow> ct_memcmp a b n = 0 \<longleftrightarrow> take n a = take n b"
proof -
  assume len: "n \<le> length a" "n \<le> length b"
  obtain r s where rs: "fold (\<lambda>i (r, s). (r OR (a ! i XOR b ! i), s XOR (a ! i XOR b ! i))) [0..<n] (0, 0) = (r, s)"
    by force
  have "r = 0 \<longleftrightarrow> (\<forall>i<n. a ! i = b ! i)"
    using memcmp_fold [OF rs] by auto
  also have "\<dots> \<longleftrightarrow> take n a = take n b"
    using len by (auto simp: list_eq_iff_nth_eq)
  finally show ?thesis
    using rs by (simp add: ct_memcmp_def nonzero_mask_u8 xor.assoc)
qed

lemma ct_cmov_zero_ok:
  assumes "n = length r" and "n \<le> length x"
  shows "ct_cmov_zero r x n b = (if b = 0 then take n x else r)"
proof -
  have "fold (\<lambda>i r. r[i := ct_sel_uint8 (r ! i) (x ! i) b]) [0..<k] r = (if b = 0 then take k x @ drop k r else r)" if "k \<le> n" for k
    using that
  proof (induction k)
    case (Suc k)
    have "(take k x @ drop k r)[k := x ! k] = take (Suc k) x @ drop (Suc k) r"
      using Suc.prems assms by (simp add: list_update_append take_Suc_conv_app_nth upd_conv_take_nth_drop drop_update_swap Cons_nth_drop_Suc [symmetric])
    then show ?case
      using Suc by (cases "b = 0") (simp_all add: sel_uint8)
  qed simp
  from this [of n] show ?thesis
    using assms by (simp add: ct_cmov_zero_def)
qed

section \<open>Lengths and prefixes\<close>

lemma length_squeeze_once: "0 < r \<Longrightarrow> length (keccak_squeeze_once n s r) = n"
proof (induction n s r rule: keccak_squeeze_once.induct)
  case (1 n s r)
  then show ?case
    by (subst keccak_squeeze_once.simps) (auto simp: Let_def keccakf1600_extract_bytes_def)
qed

lemma hash_lengths [simp]: "length (sha3_256 x) = 32" "length (sha3_512 x) = 64" "length (shake256 n x) = n"
  by (simp_all add: sha3_256_def sha3_512_def shake256_def length_squeeze_once SHA3_256_RATE_def SHA3_512_RATE_def SHAKE256_RATE_def)

lemma prefix_frommsg: "length m = 32 \<Longrightarrow> poly_frommsg (m @ r) = poly_frommsg m"
  unfolding poly_frommsg_def MLKEM_N_def by (rule concat_eqI) (simp add: nth_append)

lemma prefix_polyvec: "length x = 1152 \<Longrightarrow> polyvec_frombytes (x @ r) = polyvec_frombytes x"
proof -
  assume x: "length x = 1152"
  have "poly_frombytes (drop (i * 384) (x @ r)) = poly_frombytes (drop (i * 384) x)" if "i < 3" for i
  proof -
    have f: "poly_frombytes y = poly_frombytes (take 384 y)" if "384 \<le> length y" for y
      using prefix_frombytes [of "take 384 y" "drop 384 y"] that by simp
    have "take 384 (drop (i * 384) (x @ r)) = take 384 (drop (i * 384) x)" "384 \<le> length (drop (i * 384) x)"
      using x that by simp_all
    then show ?thesis
      using f [of "drop (i * 384) (x @ r)"] f [of "drop (i * 384) x"] by simp
  qed
  then show ?thesis
    by (simp add: polyvec_frombytes_def MLKEM_K_def MLKEM_POLYBYTES_def)
qed

lemma prefix_dec: "length sk = 1152 \<Longrightarrow> indcpa_dec c (sk @ r) = indcpa_dec c sk"
  by (simp add: indcpa_dec_def unpack_sk_def prefix_polyvec)

lemma prefix_enc: "length m = 32 \<Longrightarrow> length pk = 1184 \<Longrightarrow> indcpa_enc (m @ x) (pk @ y) c = indcpa_enc m pk c"
proof -
  assume len: "length m = 32" "length pk = 1184"
  have "length (take 1152 pk) = 1152" "pk @ y = take 1152 pk @ (drop 1152 pk @ y)" "pk = take 1152 pk @ drop 1152 pk"
    using len by (simp_all flip: append_assoc)
  then have "polyvec_frombytes (pk @ y) = polyvec_frombytes pk"
    using prefix_polyvec by metis
  moreover have "from_at 1152 32 (pk @ y) = from_at 1152 32 pk"
    using len by (simp add: from_at_def)
  ultimately show ?thesis
    using len by (simp add: indcpa_enc_def unpack_pk_def prefix_frommsg MLKEM_POLYVECBYTES_def MLKEM_POLYBYTES_def MLKEM_K_def MLKEM_SYMBYTES_def)
qed

lemma length_ciphertext: "length (pack_ciphertext u v) = 1088"
  by (simp add: pack_ciphertext_def polyvec_compress_du_def MLKEM_K_def upt3)

lemma length_enc: "indcpa_enc m pk c = Some ct \<Longrightarrow> length ct = 1088"
  by (auto simp: indcpa_enc_def Let_def case_prod_beta bind_eq_Some_conv length_ciphertext)

lemmas kem_sizes = MLKEM_INDCCA_PUBLICKEYBYTES_def MLKEM_INDCPA_PUBLICKEYBYTES_def MLKEM_INDCPA_SECRETKEYBYTES_def MLKEM_INDCCA_SECRETKEYBYTES_def
  MLKEM_INDCCA_CIPHERTEXTBYTES_def MLKEM_INDCPA_BYTES_def MLKEM_POLYVECBYTES_def MLKEM_POLYBYTES_def MLKEM_POLYVECCOMPRESSEDBYTES_DU_def
  MLKEM_POLYCOMPRESSEDBYTES_DU_def MLKEM_POLYCOMPRESSEDBYTES_DV_def MLKEM_K_def MLKEM_SYMBYTES_def

section \<open>Decapsulation\<close>

lemma decapsulation:
  assumes "length ct = 1088" and "length dk = 1152" and "length ek = 1184" and "length h = 32" and "length z = 32"
  shows "mlk_kem_dec ct (dk @ ek @ h @ z) =
    (if sha3_256 ek \<noteq> h then Some (Inl MLK_ERR_FAIL)
     else let m = indcpa_dec ct dk; kr = sha3_512 (m @ h)
       in map_option (\<lambda>ct'. Inr (if ct' = ct then take 32 kr else shake256 32 (z @ ct))) (indcpa_enc m ek (drop 32 kr)))"
proof -
  let ?sk = "dk @ ek @ h @ z"
  have m32: "length (indcpa_dec ct dk) = 32"
    by (simp add: indcpa_dec_def case_prod_beta Let_def)
  have "ct_memcmp (drop 2336 ?sk) (sha3_256 ek) 32 = 0 \<longleftrightarrow> sha3_256 ek = h"
    using assms by (subst ct_memcmp_ok) auto
  then have check: "mlk_kem_check_sk ?sk = (if sha3_256 ek \<noteq> h then MLK_ERR_FAIL else 0)"
    using assms by (simp add: mlk_kem_check_sk_def kem_sizes from_at_def)
  show ?thesis
  proof (cases "sha3_256 ek = h")
    case False
    then show ?thesis
      by (simp add: mlk_kem_dec_def check MLK_ERR_FAIL_def Let_def)
  next
    case True
    let ?m = "indcpa_dec ct dk"
    let ?kr = "sha3_512 (?m @ h)"
    have enc: "indcpa_enc (?m @ h) (ek @ h @ z) (drop 32 ?kr) = indcpa_enc ?m ek (drop 32 ?kr)"
      by (rule prefix_enc [OF m32 assms(3)])
    have parts: "drop 1152 ?sk = ek @ h @ z" "from_at 2336 32 ?sk = h" "from_at 2368 32 ?sk = z" "from_at 0 1088 ct = ct"
      using assms by (simp_all add: from_at_def)
    have sel: "ct_cmov_zero (shake256 32 (z @ ct)) ?kr 32 (ct_memcmp ct ct' 1088) = (if ct' = ct then take 32 ?kr else shake256 32 (z @ ct))"
      if "length ct' = 1088" for ct'
      using that assms(1) ct_memcmp_ok [of 1088 ct ct'] by (auto simp: ct_cmov_zero_ok)
    have "mlk_kem_dec ct ?sk = do { tmp \<leftarrow> indcpa_enc ?m ek (drop 32 ?kr);
        Some (Inr (ct_cmov_zero (shake256 32 (z @ ct)) ?kr 32 (ct_memcmp ct tmp 1088))) }"
      using True check assms(2) by (simp add: mlk_kem_dec_def kem_sizes parts prefix_dec enc Let_def)
    then show ?thesis
      using True length_enc [of ?m ek "drop 32 ?kr"] by (cases "indcpa_enc ?m ek (drop 32 ?kr)") (simp_all add: Let_def sel)
  qed
qed

text \<open>
  C39: decapsulation is that of FIPS 203: a secret key whose stored hash is not that of its public
  key is refused; otherwise the message is decrypted and encrypted again under the coins derived
  from it, and the result is the derived secret when the ciphertext comes out the same and the
  implicit rejection value, the hash of the stored secret and the ciphertext, when it does not.
\<close>

theorem kem_decapsulation:
  assumes "length ct = 1088" and "length dk = 1152" and "length ek = 1184" and "length h = 32" and "length z = 32"
  shows "mlk_kem_dec ct (dk @ ek @ h @ z) =
    (if sha3_256 ek \<noteq> h then Some (Inl MLK_ERR_FAIL)
     else let m = indcpa_dec ct dk; kr = sha3_512 (m @ h)
       in map_option (\<lambda>ct'. Inr (if ct' = ct then take 32 kr else shake256 32 (z @ ct))) (indcpa_enc m ek (drop 32 kr)))"
  using assms by (rule decapsulation)

lemma kem_decapsulation_witness:
  "mlk_kem_dec (replicate 1088 1) (replicate 1152 2 @ replicate 1184 3 @ sha3_256 (replicate 1184 3) @ replicate 32 4) =
    (let m = indcpa_dec (replicate 1088 1) (replicate 1152 2); kr = sha3_512 (m @ sha3_256 (replicate 1184 3))
     in map_option (\<lambda>ct'. Inr (if ct' = replicate 1088 1 then take 32 kr else shake256 32 (replicate 32 4 @ replicate 1088 1)))
       (indcpa_enc m (replicate 1184 3) (drop 32 kr)))"
  using kem_decapsulation [of "replicate 1088 1" "replicate 1152 2" "replicate 1184 3" "sha3_256 (replicate 1184 3)" "replicate 32 4"] by simp

section \<open>The check of a public key\<close>

lemma check_pk:
  assumes "length pk = 1184"
  shows "mlk_kem_check_pk pk = (if \<forall>k<3. \<forall>i<256. sint (polyvec_frombytes pk ! k ! i) < 3329 then 0 else MLK_ERR_FAIL)"
proof -
  let ?p = "polyvec_frombytes pk"
  have row: "?p ! k = poly_frombytes (take 384 (drop (k * 384) pk))" if "k < 3" for k
  proof -
    have "poly_frombytes (drop (k * 384) pk) = poly_frombytes (take 384 (drop (k * 384) pk) @ drop 384 (drop (k * 384) pk))"
      by (simp only: append_take_drop_id)
    then show ?thesis
      using that assms by (simp add: polyvec_frombytes_def MLKEM_K_def MLKEM_POLYBYTES_def prefix_frombytes)
  qed
  have canon: "k < 3 \<Longrightarrow> canonical 4096 (?p ! k)" for k
    by (simp add: row frombytes_canonical)
  have len: "length ?p = 3" "length (polyvec_reduce ?p) = 3"
    by (simp_all add: polyvec_frombytes_def polyvec_reduce_def MLKEM_K_def)
  have red: "k < 3 \<Longrightarrow> canonical 4096 (polyvec_reduce ?p ! k)" for k
    by (simp add: polyvec_reduce_def MLKEM_K_def canonical_mono [OF reduce_canonical])
  have bytes: "polyvec_tobytes ?p = take 1152 pk"
  proof -
    have "polyvec_tobytes ?p = take 384 pk @ take 384 (drop 384 pk) @ take 384 (drop 768 pk)"
      using assms by (simp add: polyvec_tobytes_def MLKEM_K_def upt3 row tobytes_frombytes)
    then show ?thesis
      using take_add [of 384 384 pk] take_add [of 768 384 pk] by simp
  qed
  have same: "poly_reduce (?p ! k) = ?p ! k \<longleftrightarrow> (\<forall>i<256. sint (?p ! k ! i) < 3329)" if k: "k < 3" for k
  proof
    assume e: "poly_reduce (?p ! k) = ?p ! k"
    have "canonical 3329 (?p ! k)"
      using reduce_canonical [of "?p ! k"] unfolding e .
    then show "\<forall>i<256. sint (?p ! k ! i) < 3329"
      by (simp add: canonical_def)
  next
    assume small: "\<forall>i<256. sint (?p ! k ! i) < 3329"
    have "sint (poly_reduce (?p ! k) ! i) = sint (?p ! k ! i)" if "i < 256" for i
      using small canon [OF k] that by (simp add: poly_reduce_nth canonical_def q_def)
    then have "poly_reduce (?p ! k) ! i = ?p ! k ! i" if "i < 256" for i
      using that by (metis word_sint)
    then show "poly_reduce (?p ! k) = ?p ! k"
      using canon [OF k] by (intro nth_equalityI) (simp_all add: canonical_def poly_reduce_def MLKEM_N_def)
  qed
  have "ct_memcmp pk (polyvec_tobytes (polyvec_reduce ?p)) 1152 = 0 \<longleftrightarrow> polyvec_tobytes ?p = polyvec_tobytes (polyvec_reduce ?p)"
    using assms by (subst ct_memcmp_ok) (simp_all add: bytes)
  also have "\<dots> \<longleftrightarrow> ?p = polyvec_reduce ?p"
    using polyvec_bytes [OF len(1), of "[]"] polyvec_bytes [OF len(2), of "[]"] canon red by (metis append_Nil2)
  also have "\<dots> \<longleftrightarrow> (\<forall>k<3. poly_reduce (?p ! k) = ?p ! k)"
    using len by (simp add: list_eq_iff_nth_eq polyvec_reduce_def MLKEM_K_def) metis
  finally show ?thesis
    using same by (auto simp: mlk_kem_check_pk_def Let_def kem_sizes)
qed

text \<open>
  C40: the check of the received public key accepts exactly the keys whose every 12-bit coefficient
  is below 3329, as FIPS 203 demands of the encapsulation key.
\<close>

theorem check_pk_iff:
  assumes "length pk = 1184"
  shows "mlk_kem_check_pk pk = (if \<forall>k<3. \<forall>i<256. sint (polyvec_frombytes pk ! k ! i) < 3329 then 0 else MLK_ERR_FAIL)"
  using assms by (rule check_pk)

lemma check_pk_iff_witness: "mlk_kem_check_pk (replicate 1184 0) = 0 \<and> mlk_kem_check_pk (replicate 1184 0xFF) = MLK_ERR_FAIL"
proof -
  have z: "sint (polyvec_frombytes (replicate 1184 0) ! k ! i) < 3329" if "k < 3" "i < 256" for k i
  proof -
    let ?b = "drop (k * 384) (replicate 1184 0) :: bytes"
    have b: "3 * (i div 2) + 2 < 1184 - k * 384"
      using that by linarith
    have "poly_frombytes ?b ! (2 * (i div 2)) = 0" "poly_frombytes ?b ! (2 * (i div 2) + 1) = 0"
      using frombytes_nth [of "i div 2" ?b] that b by (simp_all add: promote_def)
    moreover have "i = 2 * (i div 2) \<or> i = 2 * (i div 2) + 1"
      by presburger
    ultimately have "poly_frombytes ?b ! i = 0"
      by metis
    then show ?thesis
      using that by (simp add: polyvec_frombytes_def MLKEM_K_def MLKEM_POLYBYTES_def)
  qed
  have "poly_frombytes (replicate 1184 0xFF) ! 0 = 0xFFF"
    using frombytes_nth(1) [of 0 "replicate 1184 0xFF"] by (simp add: promote_def)
  then have f: "\<not> sint (polyvec_frombytes (replicate 1184 0xFF) ! 0 ! 0) < 3329"
    by (simp add: polyvec_frombytes_def MLKEM_K_def MLKEM_POLYBYTES_def)
  show ?thesis
    using check_pk_iff [of "replicate 1184 0"] check_pk_iff [of "replicate 1184 0xFF"] z f by auto
qed

section \<open>Key agreement\<close>

text \<open>Noise polynomials are small.\<close>

lemma mask3: "(0x3 :: u32) = mask 2"
  by (simp add: mask_eq_exp_minus_1)

lemma small_difference: "\<bar>sint ((ucast (x AND 0x3 :: u32) :: s16) - ucast (y AND 0x3 :: u32))\<bar> \<le> 3"
proof -
  have r: "0 \<le> sint (ucast (x AND 0x3 :: u32) :: s16) \<and> sint (ucast (x AND 0x3 :: u32) :: s16) < 2 ^ 2" for x
    by (rule fits_sint) (auto simp: fits_def bit_simps mask3)
  have d: "\<bar>a - b\<bar> \<le> 3" if "0 \<le> a \<and> a < 2 ^ 2" "0 \<le> b \<and> b < 2 ^ 2" for a b :: int
    using that by simp arith
  show ?thesis
    using d [OF r r, of x y] by (subst sint_sum_small(2)) simp_all
qed

lemma cbd2_ok: "length (poly_cbd2 buf) = 256 \<and> pbound q (poly_cbd2 buf)"
proof -
  let ?d = "\<lambda>i. (load32_littleendian (drop (4 * i) buf) AND 0x55555555) + (drop_bit 1 (load32_littleendian (drop (4 * i) buf)) AND 0x55555555)"
  let ?f = "\<lambda>i. map (\<lambda>j. (ucast (drop_bit (4 * j + 0) (?d i) AND 0x3) :: s16) - ucast (drop_bit (4 * j + 2) (?d i) AND 0x3)) [0..<8]"
  have f: "poly_cbd2 buf = concat (map ?f [0..<32])"
    by (simp add: poly_cbd2_def Let_def MLKEM_N_def)
  have "poly_cbd2 buf ! i = ?f (i div 8) ! (i mod 8)" if "i < 256" for i
    unfolding f using that by (intro nth_concat_div) simp_all
  then have "\<bar>sint (poly_cbd2 buf ! i)\<bar> \<le> 3" if "i < 256" for i
    using that small_difference by simp
  then have "\<bar>sint (poly_cbd2 buf ! i)\<bar> < q" if "i < 256" for i
    using that by (fastforce simp: q_def)
  moreover have "length (poly_cbd2 buf) = 256"
    unfolding f by (subst length_concat_const [where c = 8]) simp_all
  ultimately show ?thesis
    by (simp add: pbound_def)
qed

lemma getnoise_ok:
  "\<forall>k<3. pbound q (poly_getnoise_eta1_4x seed n0 n1 n2 n3 ! k)"
  "\<forall>k<3. pbound q (take 3 (poly_getnoise_eta1_4x seed n0 n1 n2 n3) ! k)"
  "pbound q (poly_getnoise_eta1_4x seed n0 n1 n2 (Some n) ! 3)"
proof -
  have three: "k < 3 \<longleftrightarrow> k = 0 \<or> k = 1 \<or> k = 2" for k :: nat
    by linarith
  show "\<forall>k<3. pbound q (poly_getnoise_eta1_4x seed n0 n1 n2 n3 ! k)"
    unfolding three by (auto simp: poly_getnoise_eta1_4x_def poly_cbd_eta1_def cbd2_ok Let_def split: option.split)
  then show "\<forall>k<3. pbound q (take 3 (poly_getnoise_eta1_4x seed n0 n1 n2 n3) ! k)"
    by simp
  show "pbound q (poly_getnoise_eta1_4x seed n0 n1 n2 (Some n) ! 3)"
    by (simp add: poly_getnoise_eta1_4x_def poly_cbd_eta1_def cbd2_ok Let_def)
qed

text \<open>The noise of the decryption when key and ciphertext come from these coins.\<close>

definition agreement_noise :: "bytes \<Rightarrow> bytes \<Rightarrow> nat \<Rightarrow> int" where
  "agreement_noise d m n =
     (let buf = sha3_512 (take 32 d @ [3]); \<rho> = take 32 buf; \<sigma> = drop 32 buf; a = the (gen_matrix \<rho> False);
        s = poly_getnoise_eta1_4x \<sigma> 0 1 2 None; e = poly_getnoise_eta1_4x \<sigma> 3 4 5 None; (t, sh) = keypair_polys a s e;
        r = drop 32 (sha3_512 (m @ sha3_256 (pack_pk t \<rho>))); y = poly_getnoise_eta1_4x r 0 1 2 None; es = poly_getnoise_eta1_4x r 3 4 5 (Some 6);
        (u, v) = enc_polys (transposed_matrix a) t y (take 3 es) (es ! 3) (poly_frommsg m)
      in decryption_noise s e y (take 3 es) (es ! 3) u v n)"

lemma agreement:
  assumes "length d = 64" and "length m = 32"
  shows "mlk_kem_keypair_derand d = None \<or>
    (\<exists>pk sk ct ss. mlk_kem_keypair_derand d = Some (Inr (pk, sk)) \<and> length pk = 1184 \<and> length ct = 1088 \<and> mlk_kem_check_pk pk = 0 \<and> mlk_kem_enc_derand pk m = Some (Inr (ct, ss)) \<and>
      (mlk_kem_dec ct sk = Some (Inr ss) \<or> (\<exists>n<256. 832 \<le> \<bar>agreement_noise d m n\<bar>)))"
proof -
  define buf where "buf = sha3_512 (take 32 d @ [3])"
  define \<rho> \<sigma> where "\<rho> = take 32 buf" and "\<sigma> = drop 32 buf"
  have seeds: "length \<rho> = 32"
    by (simp add: \<rho>_def buf_def)
  show ?thesis
  proof (cases "gen_matrix \<rho> False")
    case None
    then show ?thesis
      by (simp add: mlk_kem_keypair_derand_def indcpa_keypair_derand_def from_at_def kem_sizes \<rho>_def buf_def Let_def)
  next
    case (Some a)
    define s e where "s = poly_getnoise_eta1_4x \<sigma> 0 1 2 None" and "e = poly_getnoise_eta1_4x \<sigma> 3 4 5 None"
    obtain t sh where keys: "keypair_polys a s e = (t, sh)"
      by force
    define pk where "pk = pack_pk t \<rho>"
    define kr where "kr = sha3_512 (m @ sha3_256 pk)"
    define y es where "y = poly_getnoise_eta1_4x (drop 32 kr) 0 1 2 None" and "es = poly_getnoise_eta1_4x (drop 32 kr) 3 4 5 (Some 6)"
    obtain u v where uv: "enc_polys (transposed_matrix a) t y (take 3 es) (es ! 3) (poly_frommsg m) = (u, v)"
      by force
    let ?ct = "pack_ciphertext u v" and ?z = "from_at 32 32 d"
    let ?sk = "pack_sk sh @ pk @ sha3_256 pk @ ?z"
    have len: "length pk = 1184" "length (pack_sk sh) = 1152" "length ?z = 32"
      using seeds assms(1) by (simp_all add: pk_def pack_pk_def pack_sk_def from_at_def kem_sizes)
    have canon: "\<forall>k<3. canonical 3329 (t ! k)" "length t = 3"
      using keypair_canonical [of _ a s e] keypair_lengths(1) [of a s e] unfolding keys by simp_all
    then have unpack: "unpack_pk pk = (t, \<rho>)"
      unfolding pk_def by (intro unpack_pack_pk) (auto simp: seeds intro: canonical_mono [of 3329])
    have key: "mlk_kem_keypair_derand d = Some (Inr (pk, ?sk))"
      using Some keys len(1) by (simp add: mlk_kem_keypair_derand_def indcpa_keypair_derand_def from_at_def kem_sizes check_pct_def Let_def
          buf_def [symmetric] \<rho>_def [symmetric] \<sigma>_def [symmetric] s_def [symmetric] e_def [symmetric] pk_def [symmetric])
    have check: "mlk_kem_check_pk pk = 0"
      using check_pk [OF len(1)] unpack canon(1) by (simp add: unpack_pk_def canonical_def)
    have enc: "indcpa_enc m pk (drop 32 kr) = Some ?ct"
      using Some seeds uv by (simp add: indcpa_enc_def unpack gen_matrix_transposed y_def [symmetric] es_def [symmetric] Let_def)
    have kem: "mlk_kem_enc_derand pk m = Some (Inr (?ct, take 32 kr))"
      using check assms(2) len(1) enc prefix_enc [of m pk "sha3_256 pk" "[]" "drop 32 kr"]
      by (simp add: mlk_kem_enc_derand_def from_at_def kem_sizes Let_def kr_def [symmetric])
    have noise: "agreement_noise d m n = decryption_noise s e y (take 3 es) (es ! 3) u v n" for n
      using Some keys uv by (simp add: agreement_noise_def buf_def [symmetric] \<rho>_def [symmetric] \<sigma>_def [symmetric] s_def [symmetric] e_def [symmetric]
          pk_def [symmetric] kr_def [symmetric] y_def [symmetric] es_def [symmetric] Let_def)
    have "mlk_kem_dec ?ct ?sk = Some (Inr (take 32 kr))" if small: "\<forall>n<256. \<bar>agreement_noise d m n\<bar> < 832"
    proof -
      have "indcpa_dec ?ct (pack_sk sh) = m"
      proof (rule decryption [OF assms(2) _ _ _ keys, where seed = \<rho>])
        show "\<forall>i<3. \<forall>j<3. canonical 4096 (a ! i ! j) \<and> transposed_matrix a ! j ! i = a ! i ! j"
          using matrix_canonical [OF _ Some] seeds by (auto simp: transposed_matrix_def intro: canonical_mono [of 3329])
        show "enc_polys (transposed_matrix a) (fst (unpack_pk (pack_pk t \<rho>))) y (take 3 es) (es ! 3) (poly_frommsg m) = (u, v)"
          using uv unpack by (simp add: pk_def)
      qed (use small noise getnoise_ok in \<open>simp_all add: s_def e_def y_def es_def\<close>)
      then show ?thesis
        using decapsulation [of ?ct "pack_sk sh" pk "sha3_256 pk" ?z] len enc by (simp add: length_ciphertext kr_def [symmetric] Let_def)
    qed
    then show ?thesis
      using key check kem len(1) length_ciphertext [of u v] by (metis not_le)
  qed
qed

text \<open>
  C20: the two sides of an ML-KEM exchange agree: for coins of the right lengths, key generation
  either never ends (a matrix stream without enough accepted values) or returns a key pair whose
  public key passes the check, encapsulation under it succeeds, and decapsulation returns the
  encapsulated secret, unless a coefficient of the decryption noise of these coins reaches 832.
\<close>

theorem kem_agreement:
  assumes "length d = 64" and "length m = 32"
  shows "mlk_kem_keypair_derand d = None \<or>
    (\<exists>pk sk ct ss. mlk_kem_keypair_derand d = Some (Inr (pk, sk)) \<and> mlk_kem_check_pk pk = 0 \<and> mlk_kem_enc_derand pk m = Some (Inr (ct, ss)) \<and>
      (mlk_kem_dec ct sk = Some (Inr ss) \<or> (\<exists>n<256. 832 \<le> \<bar>agreement_noise d m n\<bar>)))"
  using agreement [OF assms] by blast

lemma kem_agreement_witness:
  "mlk_kem_keypair_derand (replicate 64 7) = None \<or>
    (\<exists>pk sk ct ss. mlk_kem_keypair_derand (replicate 64 7) = Some (Inr (pk, sk)) \<and> mlk_kem_check_pk pk = 0 \<and>
      mlk_kem_enc_derand pk (replicate 32 9) = Some (Inr (ct, ss)) \<and>
      (mlk_kem_dec ct sk = Some (Inr ss) \<or> (\<exists>n<256. 832 \<le> \<bar>agreement_noise (replicate 64 7) (replicate 32 9) n\<bar>)))"
  by (rule kem_agreement) simp_all

end
