(* ===== verification/PqExchange.thy ===== *)
theory PqExchange
  imports MlkKemSpec Kex
begin

text \<open>
  Where the server meets ML-KEM: what \<open>kex_compute_pq\<close> (\<open>sshd_session.cpp\<close>) needs of a key
  encapsulation, as a contract, the exchange under that contract, and ML-KEM-768 as its instance.
\<close>

section \<open>The contract of a key encapsulation\<close>

text \<open>
  What the key exchange needs: encapsulation under a generated public key succeeds, and the
  secret comes back from the ciphertext outside the failures the mechanism allows.
\<close>

locale kem =
  fixes keypair :: "bytes \<Rightarrow> (bytes \<times> bytes) option"
    and encap :: "bytes \<Rightarrow> bytes \<Rightarrow> (bytes \<times> bytes) option"
    and decap :: "bytes \<Rightarrow> bytes \<Rightarrow> bytes option"
    and failure :: "bytes \<Rightarrow> bytes \<Rightarrow> bool"
  assumes public_length: "length d = 64 \<Longrightarrow> keypair d = Some (pk, sk) \<Longrightarrow> length pk = 1184"
    and agree: "length d = 64 \<Longrightarrow> length m = 32 \<Longrightarrow> keypair d = Some (pk, sk) \<Longrightarrow>
      \<exists>ct ss. encap pk m = Some (ct, ss) \<and> length ct = 1088 \<and> (decap ct sk = Some ss \<or> failure d m)"
begin

text \<open>The exchange of the server over any such mechanism.\<close>

lemma exchange:
  assumes "kem_enc_derand (vend c) = encap" and "length d = 64" and "keypair d = Some (pk, sk)" and "length X = 32"
    and run: "kex_compute_pq c (s\<lparr>peerKexBlob := pk @ X\<rparr>, w) = (ok, s', w')"
  shows "failure d (fst (randomBytes 32 w)) \<or>
    (if ok then \<exists>ss xs. decap (take 1088 (ourKexBlob s')) sk = Some ss \<and> x25519_scalar c (ephPriv s') X = Some xs \<and>
         x25519_base c (ephPriv s') = Some (drop 1088 (ourKexBlob s')) \<and> sharedK s' = sha256 c (ss @ xs)
     else x25519_base c (ephPriv s') = None \<or> x25519_scalar c (ephPriv s') X = None)"
proof -
  obtain coins w1 where coins: "randomBytes 32 w = (coins, w1)"
    by force
  have m: "length coins = 32"
    using length_randomBytes [of 32 w] by (simp add: coins)
  obtain ct ss where enc: "encap pk coins = Some (ct, ss)" "length ct = 1088" and dec: "decap ct sk = Some ss \<or> failure d coins"
    using agree [OF assms(2) m assms(3)] by blast
  have encap: "mlkem768_encap c pk w = (Some (ct, ss), w1)"
    by (simp add: mlkem768_encap_def coins assms(1) enc)
  obtain priv w2 where priv: "randomBytes 32 w1 = (priv, w2)"
    by force
  show ?thesis
    using run public_length [OF assms(2,3)] assms(4) dec enc(2)
    by (auto simp: kex_compute_pq_def MLKEM768_PK_BYTES_def encap priv coins Let_def split: option.splits)
qed

end

section \<open>ML-KEM-768\<close>

text \<open>
  The entry point of ML-KEM as the wrapper of \<open>sshd_crypto.cpp\<close> sees it: \<open>crypto_kem_enc\<close> under the
  coins that \<open>mlkem768_encap\<close> drew.  An error code and a matrix that is never complete are both
  \<open>None\<close>.
\<close>

definition returned :: "(int + 'a) option \<Rightarrow> 'a option" where
  "returned r = (case r of Some (Inr x) \<Rightarrow> Some x | _ \<Rightarrow> None)"

definition with_mlkem :: "vendored \<Rightarrow> vendored" where
  "with_mlkem v = v\<lparr>kem_enc_derand := \<lambda>pk coins. returned (mlk_kem_enc_derand pk coins)\<rparr>"

lemma returned_Some [simp]: "returned r = Some x \<longleftrightarrow> r = Some (Inr x)"
  by (auto simp: returned_def split: option.splits sum.splits)

interpretation ml_kem: kem "\<lambda>d. returned (mlk_kem_keypair_derand d)" "\<lambda>pk m. returned (mlk_kem_enc_derand pk m)"
  "\<lambda>ct sk. returned (mlk_kem_dec ct sk)" "\<lambda>d m. \<exists>n<256. 832 \<le> \<bar>agreement_noise d m n\<bar>"
proof
  show "length pk = 1184" if "length d = 64" "returned (mlk_kem_keypair_derand d) = Some (pk, sk)" for d pk sk
    using agreement [OF that(1), of "replicate 32 0"] that(2) by auto
  show "\<exists>ct ss. returned (mlk_kem_enc_derand pk m) = Some (ct, ss) \<and> length ct = 1088 \<and>
      (returned (mlk_kem_dec ct sk) = Some ss \<or> (\<exists>n<256. 832 \<le> \<bar>agreement_noise d m n\<bar>))"
    if "length d = 64" "length m = 32" "returned (mlk_kem_keypair_derand d) = Some (pk, sk)" for d m pk sk
    using agreement [OF that(1,2)] that(3) by auto
qed

end
