(* ===== verification/Spec2Isabelle.thy ===== *)
theory Spec2Isabelle
  imports ClientCli EdDsaSpec KeccakSpec PqExchange
begin

text \<open>
  Verification library of the SSH server and client for ESP-IDF (sources under \<open>esp-idf/src\<close>).

  \<^bold>\<open>The program.\<close>  A device runs an SSH server and an SSH client.  The server task (\<open>sshd.cpp\<close>) owns a
  table of two session slots, the host key and the list of authorized keys in the configuration
  store; the message service ITS calls it when a TCP connection or a backend (cli, log) has data
  or ends, and it hands each event to the session of the slot (\<open>sshd_session.cpp\<close>): version
  exchange, key exchange (X25519 or ML-KEM-768 with X25519), encrypted packets with
  ChaCha20-Poly1305, user authentication, one channel relayed to a backend.  The client
  (\<open>ssh_client.cpp\<close>) is a worker that drives one connection through the same protocol from the
  other side, and the commands and the terminal relay in front of it.  Both stand on the wire codec
  (\<open>sshd_wire.h\<close>) and the wrappers of \<open>sshd_crypto.cpp\<close>, those on mbedTLS and two vendored
  libraries: Ed25519 (\<open>orlp_ed25519\<close>) and ML-KEM (\<open>mlkem_native\<close>).

  \<^bold>\<open>Model.\<close>  Structures are records, enumerations datatypes, integers words of their width
  (\<open>sint\<close>, \<open>uint\<close> read them, \<open>+\<close> wraps), buffers lists of bytes.  A handler is a function from the
  session (or server, or client) and the world to the same, returning the \<open>bool\<close> of the C function
  where it has one.  The world carries the answers of the services to every call as parameters and
  a trace of what the program did, so every theorem holds for every behaviour of the services;
  where a documented law is needed (the cipher decrypts what it encrypted, X25519 commutes, the
  store returns what was written) it is a named hypothesis with an instance.

  \<^bold>\<open>Theories\<close> (each operation is named as in its source file).
  \<^item> \<open>Prelude\<close>, \<open>World\<close>: machine types, shared lemmas and rule collections; the surroundings.
  \<^item> \<open>Wire\<close> (\<open>sshd_wire.h\<close>): encoders and the reading cursor, as the locale \<open>byte_reader\<close>.
  \<^item> \<open>Crypto\<close> (\<open>sshd_crypto.cpp\<close>), \<open>Transport\<close> (session record, packets, disconnect), \<open>Kex\<close> (exchange
    hash, key derivation, both methods), \<open>Userauth\<close>, \<open>Channel\<close>, \<open>Session\<close> (dispatcher and entry
    points; all of \<open>sshd_session.cpp\<close>), \<open>Machine\<close> (the session as a step relation).
  \<^item> \<open>Keystore\<close> and \<open>Server\<close> (\<open>sshd.cpp\<close>): authorized keys; slots, callbacks, host key, commands.
  \<^item> \<open>Client\<close>, \<open>ClientSession\<close>, \<open>ClientCli\<close> (\<open>ssh_client.cpp\<close>): transport and key exchange,
    authentication and channel, commands and terminal relay.
  \<^item> \<open>Field\<close>, \<open>Precomp\<close>, \<open>Curve\<close>, \<open>Scalar\<close>, \<open>Sha512\<close>, \<open>Ed25519\<close> model \<open>fe.c\<close>, \<open>precomp_data.h\<close>,
    \<open>ge.c\<close>, \<open>sc.c\<close>, \<open>sha512.c\<close> and \<open>keypair.c\<close>, \<open>sign.c\<close>, \<open>verify.c\<close>; \<open>FieldArith\<close>, \<open>FieldBytes\<close>,
    \<open>FieldSpec\<close>, \<open>CurveArith\<close>, \<open>CurveScalar\<close>, \<open>ScalarArith\<close>, \<open>ScalarSpec\<close>, \<open>Sha512Spec\<close>,
    \<open>EdDsaSpec\<close> hold what they compute.
  \<^item> \<open>Keccak\<close>, \<open>Keccak4\<close> (\<open>fips202\<close>), \<open>MlkPoly\<close> (\<open>poly.c\<close>, \<open>poly_k.c\<close>, \<open>verify.h\<close>), \<open>MlkCompress\<close>
    (\<open>compress.c\<close>), \<open>MlkSampling\<close> (\<open>sampling.c\<close>) and \<open>MlkKem\<close> (\<open>indcpa.c\<close>, \<open>kem.c\<close>) model ML-KEM;
    \<open>KeccakSpec\<close>, \<open>MlkReduce\<close>, \<open>MlkNtt\<close>, \<open>MlkProduct\<close>, \<open>MlkCodec\<close>, \<open>MlkDecrypt\<close>,
    \<open>MlkSamplingSpec\<close> and \<open>MlkKemSpec\<close> hold what it computes, \<open>PqExchange\<close> joins it to the server.

  \<^bold>\<open>Interfaces\<close> are locales: \<open>byte_reader\<close> (the cursor), \<open>framing\<close> (packets, interpreted for plain
  and for encrypted packets), \<open>guarded_machine\<close> (a step relation with a guard and an invariant,
  interpreted for the session, for the slot of a session and for the slot table), \<open>keyed_list\<close>
  (identified entries, interpreted for the key store) and \<open>kem\<close> (a key encapsulation as the key
  exchange needs it, interpreted for ML-KEM-768).

  \<^bold>\<open>What is shown.\<close>
  \<^item> Server: no access before a valid credential under any order of events, and exactly the
    credentials that authenticate; packets round trip and only authentic ones are delivered;
    exchange hash and key derivation are those of RFC 4253; the relay and the windows; the receive
    loop ends with nothing left to read; the slot table; the key store as an abstract list.
  \<^item> Client: a successful key exchange has verified the host; trust on first use; client and server
    of this program agree on their keys and accept each other's requests; waiting for a packet
    ends; the escape of the terminal relay.
  \<^item> Ed25519: no limb overflows, the field, curve and scalar operations compute what they name, SHA-512
    is FIPS 180-4, signatures satisfy their equation, verification accepts exactly a stated set.
  \<^item> ML-KEM: Keccak is FIPS 202, reductions and the transform are exact, the matrix is sampled as
    FIPS 203 says and transposed for encryption, decryption inverts encryption below the bound on the
    noise, decapsulation with implicit rejection, and both sides of the exchange agree.

  \<^bold>\<open>Loops.\<close>  Loops over data are recursive functions with a termination proof.  The loops that wait
  for the peer or a terminal, and the rejection loops of ML-KEM, are partial functions: not
  returning is \<open>None\<close>, no fuel is used anywhere.  \<open>session_on_tcp_data_complete\<close> and
  \<open>recv_packet_returns\<close> prove that the waits end; \<open>matrix_sampled\<close> says exactly when sampling ends.

  \<^bold>\<open>Not modelled.\<close>  mbedTLS, cJSON, ITS, the configuration store, FreeRTOS queues and the realm check
  are parameters: their code is not in the repository.  The event loop that calls the handlers
  is the step relation over them.  Of ML-KEM, the native backends, the other parameter sets and the
  pairwise test are not compiled here; value barriers and zeroization have no effect a caller
  sees, and working memory is on the stack, so allocation cannot fail.  Timing behaviour and
  probability are outside the model: the noise bound of ML-KEM is a condition on the coins, and
  nothing is said about how likely it fails.  Headers with prototypes only, build files and
  documents hold no logic.
\<close>

section \<open>Server and ML-KEM\<close>

text \<open>
  C19: the post-quantum key exchange agrees with its peer: a peer that generates an ML-KEM key pair
  and an X25519 key, and sends both public parts, derives from the server's answer alone, with its
  two secret keys, exactly the server's shared secret: the ciphertext in front decapsulates to the
  first half of what is hashed, and the share behind it gives, multiplied by the peer's scalar, the
  second half.  The two multiplications of X25519 commute by hypothesis; the server fails only when
  X25519 does.  The exceptions are coins whose matrix is never complete and a run whose decryption
  noise reaches 832.
\<close>

theorem pq_exchange_agrees:
  assumes "vend c = with_mlkem v" and "length d = 64" and "length X = 32"
    and "dh_law c" and "x25519_base c x = Some X"
  shows "mlk_kem_keypair_derand d = None \<or>
    (\<exists>pk sk. mlk_kem_keypair_derand d = Some (Inr (pk, sk)) \<and>
      (let (ok, s', w') = kex_compute_pq c (s\<lparr>peerKexBlob := pk @ X\<rparr>, w);
         ct = take 1088 (ourKexBlob s'); Y = drop 1088 (ourKexBlob s') in
       (\<exists>n<256. 832 \<le> \<bar>agreement_noise d (fst (randomBytes 32 w)) n\<bar>) \<or>
       (if ok then \<exists>ss xs. mlk_kem_dec ct sk = Some (Inr ss) \<and> x25519_scalar c x Y = Some xs \<and>
           x25519_base c (ephPriv s') = Some Y \<and> sharedK s' = sha256 c (ss @ xs)
        else x25519_base c (ephPriv s') = None \<or> x25519_scalar c (ephPriv s') X = None)))"
proof (cases "mlk_kem_keypair_derand d = None")
  case False
  then obtain pk sk where key: "mlk_kem_keypair_derand d = Some (Inr (pk, sk))"
    using agreement [OF assms(2), of "replicate 32 0"] by auto
  obtain ok s' w' where run: "kex_compute_pq c (s\<lparr>peerKexBlob := pk @ X\<rparr>, w) = (ok, s', w')"
    by (metis prod_cases3)
  have "kem_enc_derand (vend c) = (\<lambda>pk m. returned (mlk_kem_enc_derand pk m))"
    by (simp add: assms(1) with_mlkem_def)
  moreover have commute: "x25519_scalar c x Y = x25519_scalar c k X" if "x25519_base c k = Some Y" for k Y
    using assms(4,5) that unfolding dh_law_def by blast
  ultimately show ?thesis
    using ml_kem.exchange [OF _ assms(2) _ assms(3) run] key run by (cases ok) (auto simp: Let_def)
qed simp

lemma pq_exchange_agrees_witness:
  "mlk_kem_keypair_derand (replicate 64 7) = None \<or>
    (\<exists>pk sk. mlk_kem_keypair_derand (replicate 64 7) = Some (Inr (pk, sk)) \<and>
      (let c = sample_dh_crypto\<lparr>vend := with_mlkem (vend sample_crypto)\<rparr>; X = clamp_scalar (replicate 32 2);
         (ok, s', w') = kex_compute_pq c (reset_session\<lparr>peerKexBlob := pk @ X\<rparr>, sample_world);
         ct = take 1088 (ourKexBlob s'); Y = drop 1088 (ourKexBlob s') in
       (\<exists>n<256. 832 \<le> \<bar>agreement_noise (replicate 64 7) (fst (randomBytes 32 sample_world)) n\<bar>) \<or>
       (if ok then \<exists>ss xs. mlk_kem_dec ct sk = Some (Inr ss) \<and> x25519_scalar c (replicate 32 2) Y = Some xs \<and>
           x25519_base c (ephPriv s') = Some Y \<and> sharedK s' = sha256 c (ss @ xs)
        else x25519_base c (ephPriv s') = None \<or> x25519_scalar c (ephPriv s') X = None)))"
proof -
  let ?c = "sample_dh_crypto\<lparr>vend := with_mlkem (vend sample_crypto)\<rparr>"
  have same: "x25519_base ?c = x25519_base sample_dh_crypto" "x25519_scalar ?c = x25519_scalar sample_dh_crypto"
    by (simp_all add: fun_eq_iff x25519_base_def x25519_scalar_def x25519_compute_def)
  have hyps: "vend ?c = with_mlkem (vend sample_crypto)" "length (replicate 64 (7 :: byte)) = 64" "length (clamp_scalar (replicate 32 2)) = 32"
      "dh_law ?c" "x25519_base ?c (replicate 32 2) = Some (clamp_scalar (replicate 32 2))"
    using sample_dh_law by (simp_all add: clamp_scalar_def dh_law_def same sample_dh(1))
  show ?thesis
    unfolding Let_def by (rule pq_exchange_agrees [OF hyps, unfolded Let_def])
qed

end
